(* ===== verification/Prelude.thy ===== *)
theory Prelude
  imports Main "HOL-Library.Word" "HOL-Library.Monad_Syntax" "HOL-Library.Multiset"
begin

text \<open>
  What every theory of the development shares: the types that stand for the C data, the
  collections of facts the proofs rewrite with, generic lemmas on lists, and the two interfaces
  of the Kannel library whose sources are not in the repository, \<^verbatim>\<open>List\<close> (gwlist) and
  \<^verbatim>\<open>Octstr\<close>.

  The representation of a \<^verbatim>\<open>List *\<close> is the sequence of items that \<^verbatim>\<open>gwlist_get\<close> reads at
  the positions \<open>0\<close> to \<^verbatim>\<open>gwlist_len - 1\<close>, and the representation of an \<^verbatim>\<open>Octstr *\<close> is the
  sequence of its octets; a null pointer is \<open>None\<close> where the code can hold one.  The functions
  that change or search a list, and the functions that compare, hash or cut an octet string, are
  not read from the source: they are the fields of the parameter records below, the definitions
  of the model take those records as arguments, and \<open>gwlist_spec\<close> and \<open>octstr_spec\<close>
  are the named hypotheses on them.
\<close>

section \<open>Types of the model\<close>

type_synonym octstr = string
type_synonym ulong = "64 word"

named_theorems gw_simps "rewriting of the list and octet string parameters under their hypotheses"
named_theorems inv_intros "preservation of component invariants"

text \<open>What C reads of an octet string as a string: the octets before the first NUL.\<close>

definition c_string :: "octstr \<Rightarrow> octstr" where
  "c_string s = takeWhile (\<lambda>c. c \<noteq> CHR 0x00) s"

lemma c_string_id: "list_all (\<lambda>c. c \<noteq> CHR 0x00) s \<Longrightarrow> c_string s = s"
  by (simp add: c_string_def list_all_iff takeWhile_eq_all_conv)

section \<open>The list library\<close>

text \<open>
  A pointer to an item of a list, as \<^verbatim>\<open>gwlist_search\<close> returns it, is the item's position.
\<close>

record 'a gwlist_ops =
  gwlist_append :: "'a list \<Rightarrow> 'a \<Rightarrow> 'a list"
  gwlist_delete :: "'a list \<Rightarrow> nat \<Rightarrow> nat \<Rightarrow> 'a list"
  gwlist_extract_first :: "'a list \<Rightarrow> 'a option \<times> 'a list"
  gwlist_search :: "'a list \<Rightarrow> ('a \<Rightarrow> bool) \<Rightarrow> nat option"
  gwlist_extract_matching :: "'a list \<Rightarrow> ('a \<Rightarrow> bool) \<Rightarrow> 'a list option \<times> 'a list"

text \<open>The position of the first item that satisfies a predicate.\<close>

fun first_pos :: "('a \<Rightarrow> bool) \<Rightarrow> 'a list \<Rightarrow> nat option" where
  "first_pos P [] = None"
| "first_pos P (x # xs) = (if P x then Some 0 else map_option Suc (first_pos P xs))"

definition gwlist_spec :: "'a gwlist_ops \<Rightarrow> bool" where
  "gwlist_spec G \<longleftrightarrow>
     (\<forall>l x. gwlist_append G l x = l @ [x]) \<and>
     (\<forall>l i n. i + n \<le> length l \<longrightarrow> gwlist_delete G l i n = take i l @ drop (i + n) l) \<and>
     (\<forall>l. gwlist_extract_first G l = (case l of [] \<Rightarrow> (None, []) | x # xs \<Rightarrow> (Some x, xs))) \<and>
     (\<forall>l P. gwlist_search G l P = first_pos P l) \<and>
     (\<forall>l P. gwlist_extract_matching G l P =
        (if filter P l = [] then None else Some (filter P l), filter (\<lambda>x. \<not> P x) l))"

definition gwlist_ref :: "'a gwlist_ops" where
  "gwlist_ref =
     \<lparr> gwlist_append = (\<lambda>l x. l @ [x]),
       gwlist_delete = (\<lambda>l i n. take i l @ drop (i + n) l),
       gwlist_extract_first = (\<lambda>l. case l of [] \<Rightarrow> (None, []) | x # xs \<Rightarrow> (Some x, xs)),
       gwlist_search = (\<lambda>l P. first_pos P l),
       gwlist_extract_matching =
         (\<lambda>l P. (if filter P l = [] then None else Some (filter P l), filter (\<lambda>x. \<not> P x) l)) \<rparr>"

section \<open>The octet string library\<close>

record octstr_ops =
  octstr_compare :: "octstr \<Rightarrow> octstr \<Rightarrow> int"
  octstr_hash_key :: "octstr \<Rightarrow> ulong"
  octstr_check_range :: "octstr \<Rightarrow> int \<Rightarrow> int \<Rightarrow> (char \<Rightarrow> bool) \<Rightarrow> bool"
  octstr_from_position :: "octstr \<Rightarrow> nat \<Rightarrow> octstr"
  octstr_split :: "octstr \<Rightarrow> octstr \<Rightarrow> octstr list"
  octstr_format_ss :: "octstr \<Rightarrow> octstr \<Rightarrow> octstr"
  octstr_item_match :: "octstr \<Rightarrow> octstr \<Rightarrow> bool"
  octstr_get_char :: "octstr \<Rightarrow> nat \<Rightarrow> int"
  octstr_delete :: "octstr \<Rightarrow> nat \<Rightarrow> nat \<Rightarrow> octstr"
  octstr_append :: "octstr \<Rightarrow> octstr \<Rightarrow> octstr"
  octstr_append_char :: "octstr \<Rightarrow> int \<Rightarrow> octstr"
  octstr_copy :: "octstr \<Rightarrow> nat \<Rightarrow> nat \<Rightarrow> octstr"
  octstr_search_char :: "octstr \<Rightarrow> char \<Rightarrow> nat option"
  octstr_search :: "octstr \<Rightarrow> octstr \<Rightarrow> nat option"
  octstr_strip_blanks :: "octstr \<Rightarrow> octstr"

text \<open>
  \<^verbatim>\<open>octstr_compare\<close> is zero exactly on equal contents; \<^verbatim>\<open>octstr_check_range\<close> tests every octet
  of the part of the string that starts at a position and has at most the given length;
  \<^verbatim>\<open>octstr_from_position\<close> copies the string from a position on; \<^verbatim>\<open>octstr_item_match\<close> is the
  match function on contents; \<^verbatim>\<open>octstr_get_char\<close> is the octet at a position, or -1 outside;
  \<^verbatim>\<open>octstr_delete\<close>, \<^verbatim>\<open>octstr_append\<close> and \<^verbatim>\<open>octstr_copy\<close> cut and join; \<^verbatim>\<open>octstr_search_char\<close>
  finds the first occurrence from the start; \<^verbatim>\<open>octstr_strip_blanks\<close> takes the white space off
  both ends.  Nothing is assumed of the hash, of the splitting, of \<^verbatim>\<open>octstr_search\<close> and of
  \<^verbatim>\<open>octstr_format\<close>.
\<close>

definition is_blank :: "char \<Rightarrow> bool" where
  "is_blank c \<longleftrightarrow> of_char c \<in> {9, 10, 11, 12, 13, 32 :: nat}"

definition strip :: "octstr \<Rightarrow> octstr" where
  "strip s = rev (dropWhile is_blank (rev (dropWhile is_blank s)))"

definition octstr_spec :: "octstr_ops \<Rightarrow> bool" where
  "octstr_spec X \<longleftrightarrow>
     (\<forall>a b. octstr_compare X a b = 0 \<longleftrightarrow> a = b) \<and>
     (\<forall>s p n f. 0 \<le> p \<longrightarrow> 0 \<le> n \<longrightarrow>
        octstr_check_range X s p n f = list_all f (take (nat n) (drop (nat p) s))) \<and>
     (\<forall>s p. octstr_from_position X s p = drop p s) \<and>
     (\<forall>a b. octstr_item_match X a b \<longleftrightarrow> a = b) \<and>
     (\<forall>s i. octstr_get_char X s i = (if i < length s then of_char (s ! i) else -1)) \<and>
     (\<forall>s i n. i + n \<le> length s \<longrightarrow> octstr_delete X s i n = take i s @ drop (i + n) s) \<and>
     (\<forall>s t. octstr_append X s t = s @ t) \<and>
     (\<forall>s c. octstr_append_char X s (of_char c) = s @ [c]) \<and>
     (\<forall>s i n. octstr_copy X s i n = take n (drop i s)) \<and>
     (\<forall>s c. octstr_search_char X s c = first_pos (\<lambda>d. d = c) s) \<and>
     (\<forall>s. octstr_strip_blanks X s = strip s)"

definition octstr_ref :: "octstr_ops" where
  "octstr_ref =
     \<lparr> octstr_compare = (\<lambda>a b. if a = b then 0 else 1),
       octstr_hash_key = (\<lambda>s. of_nat (sum_list (map of_char s))),
       octstr_check_range = (\<lambda>s p n f. list_all f (take (nat n) (drop (nat p) s))),
       octstr_from_position = (\<lambda>s p. drop p s),
       octstr_split = (\<lambda>s d. [s]),
       octstr_format_ss = (\<lambda>a b. a @ b),
       octstr_item_match = (\<lambda>a b. a = b),
       octstr_get_char = (\<lambda>s i. if i < length s then of_char (s ! i) else -1),
       octstr_delete = (\<lambda>s i n. take i s @ drop (i + n) s),
       octstr_append = (\<lambda>s t. s @ t),
       octstr_append_char = (\<lambda>s c. s @ [char_of c]),
       octstr_copy = (\<lambda>s i n. take n (drop i s)),
       octstr_search_char = (\<lambda>s c. first_pos (\<lambda>d. d = c) s),
       octstr_search = (\<lambda>s t. first_pos (\<lambda>i. take (length t) (drop i s) = t) [0..<Suc (length s)]),
       octstr_strip_blanks = strip \<rparr>"

section \<open>Generic lemmas\<close>

lemma first_pos_None: "first_pos P xs = None \<longleftrightarrow> (\<forall>x \<in> set xs. \<not> P x)"
  by (induction xs) auto

lemma first_pos_SomeD:
  "first_pos P xs = Some i \<Longrightarrow> i < length xs \<and> P (xs ! i) \<and> (\<forall>j < i. \<not> P (xs ! j))"
proof (induction xs arbitrary: i)
  case Nil
  then show ?case by simp
next
  case (Cons x xs)
  show ?case
  proof (cases "P x")
    case True
    with Cons.prems show ?thesis by simp
  next
    case False
    with Cons.prems obtain k where k: "first_pos P xs = Some k" "i = Suc k"
      by auto
    with Cons.IH [of k] False show ?thesis
      by (auto simp: less_Suc_eq_0_disj)
  qed
qed

lemma first_pos_lt: "first_pos P xs = Some i \<Longrightarrow> i < length xs"
  by (drule first_pos_SomeD) simp

lemma first_pos_sat: "first_pos P xs = Some i \<Longrightarrow> P (xs ! i)"
  by (drule first_pos_SomeD) simp

lemma first_pos_Ex: "x \<in> set xs \<Longrightarrow> P x \<Longrightarrow> \<exists>i. first_pos P xs = Some i"
  by (cases "first_pos P xs") (auto simp: first_pos_None)

lemma first_pos_append: "\<forall>x \<in> set a. \<not> P x \<Longrightarrow> P y \<Longrightarrow> first_pos P (a @ y # b) = Some (length a)"
  by (induction a) auto

lemma find_first_pos:
  "List.find P xs = (case first_pos P xs of None \<Rightarrow> None | Some i \<Rightarrow> Some (xs ! i))"
proof (induction xs)
  case Nil
  then show ?case by simp
next
  case (Cons x xs)
  then show ?case by (cases "first_pos P xs") auto
qed

lemma gwlist_append_spec [gw_simps]: "gwlist_spec G \<Longrightarrow> gwlist_append G l x = l @ [x]"
  by (simp add: gwlist_spec_def)

lemma gwlist_delete_spec [gw_simps]:
  "gwlist_spec G \<Longrightarrow> i + n \<le> length l \<Longrightarrow> gwlist_delete G l i n = take i l @ drop (i + n) l"
  by (simp add: gwlist_spec_def)

lemma gwlist_extract_first_spec [gw_simps]:
  "gwlist_spec G \<Longrightarrow>
     gwlist_extract_first G l = (case l of [] \<Rightarrow> (None, []) | x # xs \<Rightarrow> (Some x, xs))"
  by (simp add: gwlist_spec_def)

lemma gwlist_search_spec [gw_simps]: "gwlist_spec G \<Longrightarrow> gwlist_search G l P = first_pos P l"
  by (simp add: gwlist_spec_def)

lemma gwlist_extract_matching_spec [gw_simps]:
  "gwlist_spec G \<Longrightarrow> gwlist_extract_matching G l P =
     (if filter P l = [] then None else Some (filter P l), filter (\<lambda>x. \<not> P x) l)"
  by (simp add: gwlist_spec_def)

lemma octstr_compare_spec [gw_simps]: "octstr_spec X \<Longrightarrow> octstr_compare X a b = 0 \<longleftrightarrow> a = b"
  by (simp add: octstr_spec_def)

lemma octstr_check_range_spec [gw_simps]:
  "octstr_spec X \<Longrightarrow> 0 \<le> p \<Longrightarrow> 0 \<le> n \<Longrightarrow>
     octstr_check_range X s p n f = list_all f (take (nat n) (drop (nat p) s))"
  by (simp add: octstr_spec_def)

lemma octstr_from_position_spec [gw_simps]:
  "octstr_spec X \<Longrightarrow> octstr_from_position X s p = drop p s"
  by (simp add: octstr_spec_def)

lemma octstr_item_match_spec [gw_simps]: "octstr_spec X \<Longrightarrow> octstr_item_match X a b \<longleftrightarrow> a = b"
  by (simp add: octstr_spec_def)

lemma octstr_get_char_spec [gw_simps]:
  "octstr_spec X \<Longrightarrow> octstr_get_char X s i = (if i < length s then of_char (s ! i) else -1)"
  by (simp add: octstr_spec_def)

lemma octstr_delete_spec [gw_simps]:
  "octstr_spec X \<Longrightarrow> i + n \<le> length s \<Longrightarrow> octstr_delete X s i n = take i s @ drop (i + n) s"
  by (simp add: octstr_spec_def)

lemma octstr_append_spec [gw_simps]: "octstr_spec X \<Longrightarrow> octstr_append X s t = s @ t"
  by (simp add: octstr_spec_def)

lemma octstr_append_char_spec [gw_simps]:
  "octstr_spec X \<Longrightarrow> octstr_append_char X s (of_char c) = s @ [c]"
  by (simp add: octstr_spec_def)

lemma octstr_copy_spec [gw_simps]: "octstr_spec X \<Longrightarrow> octstr_copy X s i n = take n (drop i s)"
  by (simp add: octstr_spec_def)

lemma octstr_search_char_spec [gw_simps]:
  "octstr_spec X \<Longrightarrow> octstr_search_char X s c = first_pos (\<lambda>d. d = c) s"
  by (simp add: octstr_spec_def)

lemma octstr_strip_blanks_spec [gw_simps]: "octstr_spec X \<Longrightarrow> octstr_strip_blanks X s = strip s"
  by (simp add: octstr_spec_def)

lemma gwlist_ref_spec [simp, intro!]: "gwlist_spec gwlist_ref"
  by (simp add: gwlist_spec_def gwlist_ref_def)

lemma octstr_ref_spec [simp, intro!]: "octstr_spec octstr_ref"
  by (simp add: octstr_spec_def octstr_ref_def)

lemma take_drop_remove:
  "i < length xs \<Longrightarrow> mset (take i xs @ drop (Suc i) xs) = mset xs - {# xs ! i #}"
proof -
  assume i: "i < length xs"
  have "mset xs = mset (take i xs @ xs ! i # drop (Suc i) xs)"
    using i by (simp only: id_take_nth_drop [symmetric])
  then show ?thesis by simp
qed

lemma sum_list_update_nat:
  fixes xs :: "int list"
  shows "i < length xs \<Longrightarrow> sum_list (xs[i := v]) = sum_list xs + v - xs ! i"
proof (induction xs arbitrary: i)
  case Nil
  then show ?case by simp
next
  case (Cons x xs)
  then show ?case by (cases i) auto
qed


lemma distinct_concat_nth:
  assumes "\<forall>i < length xss. distinct (xss ! i)"
    and "\<forall>i < length xss. \<forall>j < length xss. i \<noteq> j \<longrightarrow> set (xss ! i) \<inter> set (xss ! j) = {}"
  shows "distinct (concat xss)"
  using assms
proof (induction xss)
  case Nil
  then show ?case by simp
next
  case (Cons xs xss)
  have 1: "distinct xs" using Cons.prems(1) by (metis length_Cons nth_Cons_0 zero_less_Suc)
  have 2: "distinct (concat xss)"
    by (rule Cons.IH) (use Cons.prems in \<open>force\<close>)+
  have 3: "set xs \<inter> set (xss ! j) = {}" if "j < length xss" for j
    using Cons.prems(2) that by (force dest: spec [of _ 0])
  have "set xs \<inter> set (concat xss) = {}"
    using 3 by (fastforce simp: in_set_conv_nth)
  with 1 2 show ?case by simp
qed


lemma mset_exchange:
  fixes A :: "'a multiset"
  assumes "A' + L = A + B" and "B + C = L + D"
  shows "A' + C = A + D"
proof -
  have "(A' + C) + L = (A' + L) + C" by (simp add: ac_simps)
  also have "\<dots> = A + (B + C)" by (simp add: assms(1) ac_simps)
  also have "\<dots> = (A + D) + L" by (simp add: assms(2) ac_simps)
  finally show ?thesis by simp
qed

lemma list_all2_partner: "list_all2 R xs ys \<Longrightarrow> x \<in> set xs \<Longrightarrow> \<exists>y \<in> set ys. R x y"
  by (induction xs ys rule: list_all2_induct) auto

lemma of_char_int: "(of_char c :: int) = int (of_char c)"
  by (simp add: of_char_def)

lemma set_remove_nth:
  assumes "distinct xs" "i < length xs"
  shows "set (take i xs @ drop (Suc i) xs) = set xs - {xs ! i}" "distinct (take i xs @ drop (Suc i) xs)"
proof -
  have xs: "xs = take i xs @ xs ! i # drop (Suc i) xs" using assms(2) by (rule id_take_nth_drop)
  have d: "distinct (take i xs @ xs ! i # drop (Suc i) xs)" using assms(1) xs by simp
  have "set xs = set (take i xs @ xs ! i # drop (Suc i) xs)" using xs by simp
  with d show "set (take i xs @ drop (Suc i) xs) = set xs - {xs ! i}" by auto
  from d show "distinct (take i xs @ drop (Suc i) xs)" by auto
qed

lemma map_remove_nth: "map f (take i xs @ drop (Suc i) xs) = take i (map f xs) @ drop (Suc i) (map f xs)"
  by (simp add: take_map drop_map)

lemma first_pos_key:
  assumes "distinct (map f xs)" "i < length xs"
  shows "first_pos (\<lambda>x. f x = f (xs ! i)) xs = Some i"
proof -
  obtain j where j: "first_pos (\<lambda>x. f x = f (xs ! i)) xs = Some j"
    using first_pos_Ex [of "xs ! i" xs "\<lambda>x. f x = f (xs ! i)"] assms by auto
  from first_pos_SomeD [OF j] have "j < length xs" "f (xs ! j) = f (xs ! i)" by auto
  with assms have "j = i" by (simp add: distinct_conv_nth) (metis nth_map length_map)
  with j show ?thesis by simp
qed

lemma distinct_map_remove_nth:
  "distinct (map f xs) \<Longrightarrow> i < length xs \<Longrightarrow> distinct (map f (take i xs @ drop (Suc i) xs))"
  unfolding map_remove_nth by (rule set_remove_nth) simp_all

lemma UN_remove:
  assumes "\<And>y. y \<in> S \<Longrightarrow> y \<noteq> x \<Longrightarrow> B y \<inter> B x = {}"
  shows "(\<Union>e \<in> S - {x}. B e) = (\<Union>e \<in> S. B e) - B x"
  using assms by blast

end
