(* ===== verification/Counter.thy ===== *)
theory Counter
  imports Prelude
begin

text \<open>
  \<^verbatim>\<open>gwlib/counter.c\<close>: a counter object.  The field \<open>counter_n\<close> is the \<^verbatim>\<open>unsigned long\<close> of the
  structure, a 64-bit word that wraps; the lock makes each operation one step, so an operation is
  a function from the counter to the value it returns and the counter it leaves.
\<close>

record counter =
  counter_n :: ulong

definition counter_create :: counter where
  "counter_create = \<lparr> counter_n = 0 \<rparr>"

definition counter_increase :: "counter \<Rightarrow> ulong \<times> counter" where
  "counter_increase c = (counter_n c, c\<lparr> counter_n := counter_n c + 1 \<rparr>)"

definition counter_increase_with :: "counter \<Rightarrow> ulong \<Rightarrow> ulong \<times> counter" where
  "counter_increase_with c value = (counter_n c, c\<lparr> counter_n := counter_n c + value \<rparr>)"

definition counter_value :: "counter \<Rightarrow> ulong" where
  "counter_value c = counter_n c"

definition counter_decrease :: "counter \<Rightarrow> ulong \<times> counter" where
  "counter_decrease c = (counter_n c, if counter_n c > 0 then c\<lparr> counter_n := counter_n c - 1 \<rparr> else c)"

definition counter_set :: "counter \<Rightarrow> ulong \<Rightarrow> ulong \<times> counter" where
  "counter_set c v = (counter_n c, c\<lparr> counter_n := v \<rparr>)"

text \<open>A use of the counter by any number of threads is a sequence of locked operations.\<close>

datatype counter_op = Increase | Increase_with ulong | Decrease | Set_to ulong

fun counter_step :: "counter \<Rightarrow> counter_op \<Rightarrow> ulong \<times> counter" where
  "counter_step c Increase = counter_increase c"
| "counter_step c (Increase_with v) = counter_increase_with c v"
| "counter_step c Decrease = counter_decrease c"
| "counter_step c (Set_to v) = counter_set c v"

fun counter_run :: "counter \<Rightarrow> counter_op list \<Rightarrow> ulong list \<times> counter" where
  "counter_run c [] = ([], c)"
| "counter_run c (x # xs) =
     (let (r, c') = counter_step c x; (rs, c'') = counter_run c' xs in (r # rs, c''))"

lemmas counter_defs = counter_create_def counter_increase_def counter_increase_with_def
  counter_value_def counter_decrease_def counter_set_def

lemma counter_increase_value [simp]: "fst (counter_increase c) = counter_value c"
  by (simp add: counter_defs)

lemma counter_value_increase [simp]:
  "counter_value (snd (counter_increase c)) = counter_value c + 1"
  by (simp add: counter_defs)

lemma counter_value_set [simp]: "counter_value (snd (counter_set c v)) = v"
  by (simp add: counter_defs)

lemma counter_value_create [simp]: "counter_value counter_create = 0"
  by (simp add: counter_defs)

lemma counter_increases_returns:
  "fst (counter_run c (replicate k Increase)) = map (\<lambda>i. counter_n c + of_nat i) [0..<k]"
proof (induction k arbitrary: c)
  case 0
  then show ?case by simp
next
  case (Suc k)
  have "map (\<lambda>i. counter_n c + of_nat i) [0..<Suc k] = counter_n c # map (\<lambda>i. counter_n c + of_nat (Suc i)) [0..<k]"
    by (subst upt_conv_Cons) (simp_all add: map_Suc_upt [symmetric] del: upt_Suc)
  then show ?case
    using Suc [of "c\<lparr>counter_n := counter_n c + 1\<rparr>"]
    by (simp add: counter_defs case_prod_beta add.assoc del: upt_Suc)
qed

text \<open>
  As long as fewer than \<open>2 ^ 64\<close> increases are made, in any interleaving of the threads that
  make them, no value is handed out twice, whatever the starting value; this is what makes the
  sequence numbers the server draws from its counters unique.
\<close>

theorem counter_increase_unique:
  assumes "k \<le> 2 ^ 64"
  shows "distinct (fst (counter_run c (replicate k Increase)))"
proof -
  have "inj_on (\<lambda>i. counter_n c + of_nat i) (set [0..<k])"
  proof (rule inj_onI)
    fix i j
    assume "i \<in> set [0..<k]" "j \<in> set [0..<k]" "counter_n c + of_nat i = counter_n c + of_nat j"
    then have b: "i < 2 ^ 64" "j < 2 ^ 64" and e: "(of_nat i :: ulong) = of_nat j"
      using assms by auto
    from e have "unat (of_nat i :: ulong) = unat (of_nat j :: ulong)" by simp
    with b show "i = j" by (simp add: unat_of_nat)
  qed
  then show ?thesis
    by (simp add: counter_increases_returns distinct_map)
qed

theorem counter_increase_unique_witness:
  "(3::nat) \<le> 2 ^ 64 \<and> fst (counter_run (counter_create\<lparr>counter_n := -1\<rparr>) (replicate 3 Increase)) = [-1, 0, 1]
   \<and> distinct (fst (counter_run (counter_create\<lparr>counter_n := -1\<rparr>) (replicate 3 Increase)))"
proof -
  have h: "(3::nat) \<le> 2 ^ 64" by simp
  have v: "fst (counter_run (counter_create\<lparr>counter_n := -1\<rparr>) (replicate 3 Increase)) = [-1, 0, 1]"
    by (simp add: numeral_3_eq_3 counter_defs)
  show ?thesis using h v counter_increase_unique [OF h] by blast
qed

end
