(* ===== verification/Dict.thy ===== *)
theory Dict
  imports Prelude
begin

text \<open>
  \<^verbatim>\<open>gwlib/dict.c\<close>: the hash table with octet strings as keys.  \<open>tab\<close> is the array of lists
  of items (\<open>None\<close> for a null list), \<open>dict_size\<close> and \<open>key_count\<close> are the fields of the
  structure, \<open>destroy_value\<close> says whether a destructor was given.  The lock makes an operation
  one step.  An operation returns \<open>None\<close> when the process dies in it: the division by a zero
  \<^verbatim>\<open>size\<close> traps, and the assertion of \<^verbatim>\<open>dict_remove\<close> panics.  Otherwise it returns the table it
  leaves and the arguments of the calls of the destructor, in order; a null value is \<open>None\<close>.
\<close>

section \<open>The table and its operations\<close>

type_synonym 'v item = "octstr \<times> 'v"

record 'v dict =
  tab :: "'v item list option list"
  dict_size :: nat
  key_count :: int
  destroy_value :: bool

definition item_create :: "octstr \<Rightarrow> 'v \<Rightarrow> 'v item" where
  "item_create key value = (key, value)"

definition item_has_key :: "octstr_ops \<Rightarrow> octstr \<Rightarrow> 'v item \<Rightarrow> bool" where
  "item_has_key X key item \<longleftrightarrow> octstr_compare X key (fst item) = 0"

definition key_to_index :: "octstr_ops \<Rightarrow> 'v dict \<Rightarrow> octstr \<Rightarrow> nat option" where
  "key_to_index X d key =
     (if dict_size d = 0 then None else Some (unat (octstr_hash_key X key) mod dict_size d))"

definition dict_create :: "nat \<Rightarrow> bool \<Rightarrow> 'v dict" where
  "dict_create size_hint destroy =
     \<lparr> tab = replicate (size_hint * 2) None, dict_size = size_hint * 2, key_count = 0,
       destroy_value = destroy \<rparr>"

definition destroy_call :: "'v dict \<Rightarrow> 'v option \<Rightarrow> 'v option list" where
  "destroy_call d v = (if destroy_value d then [v] else [])"

definition dict_get :: "octstr_ops \<Rightarrow> 'v item gwlist_ops \<Rightarrow> 'v dict \<Rightarrow> octstr \<Rightarrow> 'v option option"
  where
  "dict_get X G d key = do {
     i \<leftarrow> key_to_index X d key;
     let p = (case tab d ! i of None \<Rightarrow> None
              | Some l \<Rightarrow> map_option (\<lambda>pos. l ! pos) (gwlist_search G l (item_has_key X key)));
     Some (map_option snd p) }"

definition dict_remove ::
    "octstr_ops \<Rightarrow> 'v item gwlist_ops \<Rightarrow> 'v dict \<Rightarrow> octstr \<Rightarrow> ('v option \<times> 'v dict) option" where
  "dict_remove X G d key = do {
     i \<leftarrow> key_to_index X d key;
     let (list, rest) =
       (case tab d ! i of None \<Rightarrow> (None, None)
        | Some l \<Rightarrow> map_prod id Some (gwlist_extract_matching G l (item_has_key X key)));
     (case list of
        None \<Rightarrow> Some (None, d\<lparr> tab := (tab d)[i := rest] \<rparr>)
      | Some l \<Rightarrow>
          (if length l \<noteq> 1 then None
           else Some (Some (snd (l ! 0)),
                      d\<lparr> tab := (tab d)[i := rest], key_count := key_count d - 1 \<rparr>))) }"

definition dict_put ::
    "octstr_ops \<Rightarrow> 'v item gwlist_ops \<Rightarrow> 'v dict \<Rightarrow> octstr \<Rightarrow> 'v option
     \<Rightarrow> ('v dict \<times> 'v option list) option" where
  "dict_put X G d key value_ptr = (case value_ptr of
     None \<Rightarrow> do { (value, d') \<leftarrow> dict_remove X G d key; Some (d', destroy_call d' value) }
   | Some value \<Rightarrow> do {
       i \<leftarrow> key_to_index X d key;
       let (l, p) = (case tab d ! i of None \<Rightarrow> ([], None)
                     | Some l \<Rightarrow> (l, gwlist_search G l (item_has_key X key)));
       (case p of
          None \<Rightarrow> Some (d\<lparr> tab := (tab d)[i := Some (gwlist_append G l (item_create key value))],
                           key_count := key_count d + 1 \<rparr>, [])
        | Some pos \<Rightarrow>
            Some (d\<lparr> tab := (tab d)[i := Some (l[pos := (fst (l ! pos), value)])] \<rparr>,
                  destroy_call d (Some (snd (l ! pos))))) })"

definition handle_null_value ::
    "octstr_ops \<Rightarrow> 'v item gwlist_ops \<Rightarrow> 'v dict \<Rightarrow> octstr \<Rightarrow> 'v option
     \<Rightarrow> (bool \<times> 'v dict \<times> 'v option list) option" where
  "handle_null_value X G d key value_ptr = (case value_ptr of
     None \<Rightarrow> do { (value, d') \<leftarrow> dict_remove X G d key; Some (True, d', destroy_call d' value) }
   | Some _ \<Rightarrow> Some (False, d, []))"

definition dict_put_true ::
    "octstr_ops \<Rightarrow> 'v item gwlist_ops \<Rightarrow> 'v dict \<Rightarrow> octstr \<Rightarrow> 'v
     \<Rightarrow> (bool \<times> 'v dict \<times> 'v option list) option" where
  "dict_put_true X G d key value = do {
     i \<leftarrow> key_to_index X d key;
     let (l, p) = (case tab d ! i of None \<Rightarrow> ([], None)
                   | Some l \<Rightarrow> (l, gwlist_search G l (item_has_key X key)));
     (case p of
        None \<Rightarrow> Some (True, d\<lparr> tab := (tab d)[i := Some (gwlist_append G l (item_create key value))],
                               key_count := key_count d + 1 \<rparr>, [])
      | Some pos \<Rightarrow> Some (False, d, destroy_call d (Some value))) }"

definition dict_put_once ::
    "octstr_ops \<Rightarrow> 'v item gwlist_ops \<Rightarrow> 'v dict \<Rightarrow> octstr \<Rightarrow> 'v option
     \<Rightarrow> (bool \<times> 'v dict \<times> 'v option list) option" where
  "dict_put_once X G d key value_ptr = do {
     (isnull, d', calls) \<leftarrow> handle_null_value X G d key value_ptr;
     (case value_ptr of
        None \<Rightarrow> Some (True, d', calls)
      | Some value \<Rightarrow> dict_put_true X G d' key value) }"

definition dict_key_count :: "'v dict \<Rightarrow> int" where
  "dict_key_count d = key_count d"

fun bucket_keys :: "'v item list option \<Rightarrow> octstr list" where
  "bucket_keys None = []"
| "bucket_keys (Some l) = map fst l"

definition dict_keys :: "'v dict \<Rightarrow> octstr list" where
  "dict_keys d = concat (map bucket_keys (tab d))"

text \<open>\<^verbatim>\<open>dict_destroy\<close> extracts the items bucket by bucket and hands their values to the destructor.\<close>

fun drain :: "'v item gwlist_ops \<Rightarrow> nat \<Rightarrow> 'v item list \<Rightarrow> 'v option list" where
  "drain G 0 l = []"
| "drain G (Suc fuel) l =
     (case gwlist_extract_first G l of
        (None, _) \<Rightarrow> []
      | (Some p, l') \<Rightarrow> Some (snd p) # drain G fuel l')"

definition dict_destroy :: "'v item gwlist_ops \<Rightarrow> 'v dict \<Rightarrow> 'v option list" where
  "dict_destroy G d =
     (if destroy_value d
      then concat (map (\<lambda>b. case b of None \<Rightarrow> [] | Some l \<Rightarrow> drain G (Suc (length l)) l) (tab d))
      else [])"


section \<open>The map a table stands for\<close>

definition bucket :: "'v item list option \<Rightarrow> 'v item list" where
  "bucket b = (case b of None \<Rightarrow> [] | Some l \<Rightarrow> l)"

definition slot :: "octstr_ops \<Rightarrow> 'v dict \<Rightarrow> octstr \<Rightarrow> nat" where
  "slot X d key = unat (octstr_hash_key X key) mod dict_size d"

definition dict_map :: "octstr_ops \<Rightarrow> 'v dict \<Rightarrow> octstr \<Rightarrow> 'v option" where
  "dict_map X d key = map_of (bucket (tab d ! slot X d key)) key"

definition dict_values :: "'v dict \<Rightarrow> 'v list" where
  "dict_values d = concat (map (map snd \<circ> bucket) (tab d))"

definition dict_inv :: "octstr_ops \<Rightarrow> 'v dict \<Rightarrow> bool" where
  "dict_inv X d \<longleftrightarrow>
     0 < dict_size d \<and> length (tab d) = dict_size d \<and>
     (\<forall>i < dict_size d. distinct (map fst (bucket (tab d ! i))) \<and>
        (\<forall>k \<in> fst ` set (bucket (tab d ! i)). slot X d k = i)) \<and>
     key_count d = int (length (dict_keys d))"

lemma bucket_simps [simp]: "bucket None = []" "bucket (Some l) = l"
  by (simp_all add: bucket_def)

lemma bucket_keys_eq: "bucket_keys b = map fst (bucket b)"
  by (cases b) auto

lemma item_has_key_eq: "octstr_spec X \<Longrightarrow> item_has_key X key = (\<lambda>it. fst it = key)"
  by (auto simp: item_has_key_def octstr_compare_spec fun_eq_iff)

lemma dict_inv_slot:
  assumes "dict_inv X d"
  shows "key_to_index X d key = Some (slot X d key)" and "slot X d key < length (tab d)"
  using assms by (auto simp: dict_inv_def key_to_index_def slot_def)

subsection \<open>One bucket\<close>

lemma first_pos_map_of:
  "map_option (\<lambda>pos. snd (l ! pos)) (first_pos (\<lambda>it. fst it = key) l) = map_of l key"
  by (induction l) (auto simp: option.map_comp comp_def)

lemma first_pos_key_None: "first_pos (\<lambda>it. fst it = key) l = None \<longleftrightarrow> key \<notin> fst ` set l"
  by (auto simp: first_pos_None)

lemma bucket_update_keys:
  "first_pos (\<lambda>it. fst it = key) l = Some pos \<Longrightarrow>
     map fst (l[pos := (fst (l ! pos), v)]) = map fst l"
  by (metis first_pos_lt length_map list_update_id map_update nth_map fst_conv)

lemma bucket_update_map_of:
  "first_pos (\<lambda>it. fst it = key) l = Some pos \<Longrightarrow>
     map_of (l[pos := (fst (l ! pos), v)]) = (map_of l)(key \<mapsto> v)"
proof (induction l arbitrary: pos)
  case Nil
  then show ?case by simp
next
  case (Cons x l)
  then show ?case by (auto split: if_splits)
qed

lemma map_of_filter_key:
  "map_of (filter (\<lambda>it. fst it \<noteq> key) l) = (map_of l)(key := None)"
  by (induction l) auto

lemma filter_key_distinct:
  "distinct (map fst l) \<Longrightarrow>
     filter (\<lambda>it. fst it = key) l = (case map_of l key of None \<Rightarrow> [] | Some v \<Rightarrow> [(key, v)])"
proof (induction l)
  case Nil
  then show ?case by simp
next
  case (Cons x l)
  show ?case
  proof (cases "fst x = key")
    case True
    with Cons.prems have "filter (\<lambda>it. fst it = key) l = []"
      by (auto simp: filter_empty_conv image_iff)
    with True show ?thesis by (cases x) auto
  next
    case False
    with Cons show ?thesis by auto
  qed
qed

lemma distinct_map_fst_filter: "distinct (map fst l) \<Longrightarrow> distinct (map fst (filter P l))"
  by (induction l) auto

lemma map_of_append_fresh:
  "key \<notin> fst ` set l \<Longrightarrow> map_of (l @ [(key, v)]) = (map_of l)(key \<mapsto> v)"
  by (induction l) auto

subsection \<open>Replacing one bucket\<close>

lemma concat_map_update_length:
  "i < length xs \<Longrightarrow>
     int (length (concat (map f (xs[i := b])))) =
     int (length (concat (map f xs))) + int (length (f b)) - int (length (f (xs ! i)))"
proof (induction xs arbitrary: i)
  case Nil
  then show ?case by simp
next
  case (Cons x xs)
  then show ?case by (cases i) auto
qed

lemma concat_map_update_mset:
  "i < length xs \<Longrightarrow>
     mset (concat (map f (xs[i := b]))) + mset (f (xs ! i)) =
     mset (concat (map f xs)) + mset (f b)"
proof (induction xs arbitrary: i)
  case Nil
  then show ?case by simp
next
  case (Cons x xs)
  then show ?case
  proof (cases i)
    case 0
    then show ?thesis by simp
  next
    case (Suc k)
    with Cons have "mset (concat (map f (xs[k := b]))) + mset (f (xs ! k)) =
        mset (concat (map f xs)) + mset (f b)"
      by simp
    with Suc show ?thesis by (simp add: add.assoc)
  qed
qed

text \<open>
  What replacing the bucket of a key does: when the new bucket has distinct keys, all of the same
  slot, and its map is the old one changed at that key only, the whole table's map is the old one
  changed at that key, and the invariant is kept with the key count adjusted by the difference.
\<close>

lemma dict_replace:
  fixes d :: "'v dict"
  assumes inv: "dict_inv X d"
    and i: "i = slot X d key"
    and dist: "distinct (map fst (bucket b))"
    and keys: "fst ` set (bucket b) \<subseteq> insert key (fst ` set (bucket (tab d ! i)))"
    and upd: "map_of (bucket b) = (map_of (bucket (tab d ! i)))(key := r)"
    and cnt: "c = key_count d + int (length (bucket b)) - int (length (bucket (tab d ! i)))"
  defines "d' \<equiv> d\<lparr> tab := (tab d)[i := b], key_count := c \<rparr>"
  shows "dict_inv X d'" and "dict_map X d' = (dict_map X d)(key := r)"
proof -
  have il: "i < length (tab d)" using inv i dict_inv_slot by blast
  have len: "length (dict_keys d') = length (dict_keys d) + length (bucket b) - length (bucket (tab d ! i))"
    and len': "length (bucket (tab d ! i)) \<le> length (dict_keys d) + length (bucket b)"
    using concat_map_update_length [OF il, of bucket_keys b]
    by (auto simp: dict_keys_def d'_def bucket_keys_eq)
  have s: "slot X d' k = slot X d k" for k
    by (simp add: slot_def d'_def)
  have sl: "slot X d k = i" if "k \<in> fst ` set (bucket b)" for k
  proof -
    from that keys have "k = key \<or> k \<in> fst ` set (bucket (tab d ! i))" by blast
    then show ?thesis using inv i il by (auto simp: dict_inv_def)
  qed
  have bk: "distinct (map fst (bucket (tab d' ! j))) \<and>
      (\<forall>k \<in> fst ` set (bucket (tab d' ! j)). slot X d k = j)" if "j < dict_size d" for j
    using inv that dist sl il by (cases "j = i") (auto simp: dict_inv_def d'_def)
  have kc: "key_count d' = int (length (dict_keys d'))"
    using inv cnt len len' by (simp add: dict_inv_def d'_def)
  show "dict_inv X d'"
    using inv bk kc by (simp add: dict_inv_def s) (simp add: d'_def)
  have "dict_map X d' k = ((dict_map X d)(key := r)) k" for k
  proof (cases "slot X d k = i")
    case True
    with il upd s show ?thesis by (simp add: dict_map_def d'_def i)
  next
    case False
    with il s i show ?thesis by (auto simp: dict_map_def d'_def)
  qed
  then show "dict_map X d' = (dict_map X d)(key := r)" by blast
qed


section \<open>What the operations do\<close>

lemma dict_get_map:
  assumes "octstr_spec X" "gwlist_spec G" "dict_inv X d"
  shows "dict_get X G d key = Some (dict_map X d key)"
  using assms
  by (cases "tab d ! slot X d key")
    (auto simp: dict_get_def dict_inv_slot dict_map_def gw_simps item_has_key_eq
      first_pos_map_of option.map_comp comp_def)

lemma dict_remove_map:
  assumes X: "octstr_spec X" and G: "gwlist_spec G" and inv: "dict_inv X d"
  shows "\<exists>d'. dict_remove X G d key = Some (dict_map X d key, d') \<and> dict_inv X d'
     \<and> dict_map X d' = (dict_map X d)(key := None) \<and> destroy_value d' = destroy_value d"
proof -
  define i where "i = slot X d key"
  define l where "l = bucket (tab d ! i)"
  define b where "b = map_option (\<lambda>l. filter (\<lambda>it. fst it \<noteq> key) l) (tab d ! i)"
  have il: "i < length (tab d)" and ki: "key_to_index X d key = Some i"
    using dict_inv_slot [OF inv] by (simp_all add: i_def)
  have dl: "distinct (map fst l)" using inv il by (auto simp: dict_inv_def l_def)
  have bb: "bucket b = filter (\<lambda>it. fst it \<noteq> key) l"
    by (cases "tab d ! i") (auto simp: b_def l_def)
  have f: "filter (\<lambda>it. fst it = key) l =
      (case dict_map X d key of None \<Rightarrow> [] | Some v \<Rightarrow> [(key, v)])"
    using filter_key_distinct [OF dl] by (simp add: dict_map_def l_def i_def)
  define c where "c = key_count d + int (length (bucket b)) - int (length l)"
  have cl: "c = key_count d - int (length (filter (\<lambda>it. fst it = key) l))"
    using sum_length_filter_compl [of "\<lambda>it. fst it = key" l] by (simp add: c_def bb)
  note R = dict_replace [OF inv i_def, of b None c]
  have r: "dict_inv X (d\<lparr>tab := (tab d)[i := b], key_count := c\<rparr>)"
    "dict_map X (d\<lparr>tab := (tab d)[i := b], key_count := c\<rparr>) = (dict_map X d)(key := None)"
    by (rule R; auto simp: bb dl distinct_map_fst_filter map_of_filter_key c_def
        simp flip: l_def)+
  have "dict_remove X G d key =
      Some (dict_map X d key, d\<lparr>tab := (tab d)[i := b], key_count := c\<rparr>)"
    using f cl X G
    by (cases "tab d ! i"; cases "dict_map X d key")
      (auto simp: dict_remove_def ki gw_simps item_has_key_eq b_def l_def)
  with r show ?thesis by simp
qed

lemma dict_put_map:
  assumes X: "octstr_spec X" and G: "gwlist_spec G" and inv: "dict_inv X d"
  shows "\<exists>d'. dict_put X G d key (Some v) =
       Some (d', case dict_map X d key of None \<Rightarrow> [] | Some w \<Rightarrow> destroy_call d (Some w))
     \<and> dict_inv X d' \<and> dict_map X d' = (dict_map X d)(key \<mapsto> v)
     \<and> destroy_value d' = destroy_value d"
proof -
  define i where "i = slot X d key"
  define l where "l = bucket (tab d ! i)"
  have il: "i < length (tab d)" and ki: "key_to_index X d key = Some i"
    using dict_inv_slot [OF inv] by (simp_all add: i_def)
  have dl: "distinct (map fst l)" using inv il by (auto simp: dict_inv_def l_def)
  have m: "map_option (\<lambda>pos. snd (l ! pos)) (first_pos (\<lambda>it. fst it = key) l) = dict_map X d key"
    by (simp add: first_pos_map_of dict_map_def l_def i_def)
  have c: "(case tab d ! i of None \<Rightarrow> ([], None)
       | Some l \<Rightarrow> (l, gwlist_search G l (item_has_key X key))) =
      (l, first_pos (\<lambda>it. fst it = key) l)"
    using X G by (cases "tab d ! i") (auto simp: l_def gw_simps item_has_key_eq)
  show ?thesis
  proof (cases "first_pos (\<lambda>it. fst it = key) l")
    case None
    define b where "b = Some (l @ [(key, v)])"
    note R = dict_replace [OF inv i_def, of b "Some v" "key_count d + 1"]
    have fr: "key \<notin> fst ` set l" using None by (simp add: first_pos_key_None)
    have r: "dict_inv X (d\<lparr>tab := (tab d)[i := b], key_count := key_count d + 1\<rparr>)"
      "dict_map X (d\<lparr>tab := (tab d)[i := b], key_count := key_count d + 1\<rparr>) =
         (dict_map X d)(key \<mapsto> v)"
      by (rule R; use fr dl in \<open>auto simp: b_def map_of_append_fresh simp del: map_of_append simp flip: l_def\<close>)+
    have "dict_put X G d key (Some v) =
        Some (d\<lparr>tab := (tab d)[i := b], key_count := key_count d + 1\<rparr>, [])"
      using None G by (simp add: dict_put_def ki c b_def item_create_def gw_simps)
    with r None m show ?thesis by auto
  next
    case (Some pos)
    define b where "b = Some (l[pos := (fst (l ! pos), v)])"
    note R = dict_replace [OF inv i_def, of b "Some v" "key_count d"]
    have mk: "map fst (bucket b) = map fst l" by (simp add: b_def bucket_update_keys [OF Some])
    then have sk: "fst ` set (bucket b) = fst ` set l" by (metis set_map)
    have r: "dict_inv X (d\<lparr>tab := (tab d)[i := b], key_count := key_count d\<rparr>)"
      "dict_map X (d\<lparr>tab := (tab d)[i := b], key_count := key_count d\<rparr>) =
         (dict_map X d)(key \<mapsto> v)"
      by (rule R; use mk sk dl in \<open>auto simp: b_def bucket_update_map_of [OF Some] simp flip: l_def\<close>)+
    have "dict_put X G d key (Some v) =
        Some (d\<lparr>tab := (tab d)[i := b], key_count := key_count d\<rparr>,
              destroy_call d (Some (snd (l ! pos))))"
      using Some by (simp add: dict_put_def ki c b_def)
    with r Some m show ?thesis by (auto simp flip: m)
  qed
qed

lemma dict_put_true_put:
  assumes X: "octstr_spec X" and G: "gwlist_spec G" and inv: "dict_inv X d"
  shows "dict_put_true X G d key v =
     (case dict_map X d key of
        None \<Rightarrow> map_option (\<lambda>(d', calls). (True, d', calls)) (dict_put X G d key (Some v))
      | Some _ \<Rightarrow> Some (False, d, destroy_call d (Some v)))"
proof -
  define l where "l = bucket (tab d ! slot X d key)"
  have c: "(case tab d ! slot X d key of None \<Rightarrow> ([], None)
       | Some l \<Rightarrow> (l, gwlist_search G l (item_has_key X key))) =
      (l, first_pos (\<lambda>it. fst it = key) l)"
    using X G by (cases "tab d ! slot X d key") (auto simp: l_def gw_simps item_has_key_eq)
  have m: "map_option (\<lambda>pos. snd (l ! pos)) (first_pos (\<lambda>it. fst it = key) l) = dict_map X d key"
    by (simp add: first_pos_map_of dict_map_def l_def)
  show ?thesis
    by (cases "first_pos (\<lambda>it. fst it = key) l")
      (auto simp: dict_put_true_def dict_put_def dict_inv_slot [OF inv] c m [symmetric])
qed

lemma dict_create_inv:
  assumes "0 < size_hint"
  shows "dict_inv X (dict_create size_hint destroy :: 'v dict)"
    and "dict_map X (dict_create size_hint destroy :: 'v dict) = Map.empty"
proof -
  let ?d = "dict_create size_hint destroy :: 'v dict"
  have s: "slot X ?d k < size_hint * 2" for k
    using assms by (simp add: slot_def dict_create_def)
  show "dict_inv X ?d"
    using assms by (simp add: dict_inv_def dict_create_def dict_keys_def concat_replicate_trivial)
  show "dict_map X ?d = Map.empty"
  proof
    fix k
    have "tab ?d ! slot X ?d k = None"
      using s [of k] by (simp add: dict_create_def)
    then show "dict_map X ?d k = None"
      by (simp add: dict_map_def)
  qed
qed

lemma dict_keys_dom:
  assumes inv: "dict_inv X d"
  shows "set (dict_keys d) = dom (dict_map X d)" and "distinct (dict_keys d)"
proof -
  have k: "bucket_keys = (\<lambda>b. map fst (bucket b))" by (simp add: fun_eq_iff bucket_keys_eq)
  have e: "k \<in> fst ` set (bucket (tab d ! i)) \<Longrightarrow> i < dict_size d \<Longrightarrow> i = slot X d k" for k i
    using inv by (auto simp: dict_inv_def)
  have "k \<in> set (dict_keys d) \<longleftrightarrow> k \<in> fst ` set (bucket (tab d ! slot X d k))" for k
  proof
    assume "k \<in> set (dict_keys d)"
    then obtain b where "b \<in> set (tab d)" "k \<in> fst ` set (bucket b)"
      by (auto simp: dict_keys_def k)
    then obtain i where "i < length (tab d)" "k \<in> fst ` set (bucket (tab d ! i))"
      by (metis in_set_conv_nth)
    with e inv show "k \<in> fst ` set (bucket (tab d ! slot X d k))"
      by (metis dict_inv_def)
  next
    assume "k \<in> fst ` set (bucket (tab d ! slot X d k))"
    moreover have "tab d ! slot X d k \<in> set (tab d)"
      using dict_inv_slot [OF inv] by simp
    ultimately show "k \<in> set (dict_keys d)"
      by (auto simp: dict_keys_def k)
  qed
  then show "set (dict_keys d) = dom (dict_map X d)"
    by (simp add: set_eq_iff dict_map_def domIff map_of_eq_None_iff)
  show "distinct (dict_keys d)"
    unfolding dict_keys_def k
  proof (rule distinct_concat_nth)
    show "\<forall>i < length (map (\<lambda>b. map fst (bucket b)) (tab d)).
        distinct (map (\<lambda>b. map fst (bucket b)) (tab d) ! i)"
      using inv by (simp add: dict_inv_def)
    show "\<forall>i < length (map (\<lambda>b. map fst (bucket b)) (tab d)).
        \<forall>j < length (map (\<lambda>b. map fst (bucket b)) (tab d)).
        i \<noteq> j \<longrightarrow> set (map (\<lambda>b. map fst (bucket b)) (tab d) ! i) \<inter>
          set (map (\<lambda>b. map fst (bucket b)) (tab d) ! j) = {}"
      using e inv by (simp add: dict_inv_def disjoint_iff) metis
  qed
qed

lemma dict_key_count_card:
  assumes "dict_inv X d"
  shows "dict_key_count d = int (card (dom (dict_map X d)))"
  using assms dict_keys_dom [OF assms]
  by (simp add: dict_key_count_def dict_inv_def flip: distinct_card)


section \<open>Values are neither lost nor destroyed twice\<close>

definition opt_list :: "'v option \<Rightarrow> 'v list" where
  "opt_list v = (case v of None \<Rightarrow> [] | Some w \<Rightarrow> [w])"

definition somes :: "'v option list \<Rightarrow> 'v list" where
  "somes vs = concat (map opt_list vs)"

lemma opt_list_simps [simp]: "opt_list None = []" "opt_list (Some v) = [v]"
  by (simp_all add: opt_list_def)

lemma somes_simps [simp]:
  "somes [] = []" "somes (v # vs) = opt_list v @ somes vs" "somes (us @ vs) = somes us @ somes vs"
  by (simp_all add: somes_def)

lemma dict_values_replace:
  assumes "i < length (tab d)"
  shows "mset (dict_values (d\<lparr> tab := (tab d)[i := b], key_count := c \<rparr>)) +
      mset (map snd (bucket (tab d ! i))) = mset (dict_values d) + mset (map snd (bucket b))"
  using concat_map_update_mset [OF assms, of "map snd \<circ> bucket" b]
  by (simp add: dict_values_def)

lemma dict_put_values:
  assumes X: "octstr_spec X" and G: "gwlist_spec G" and inv: "dict_inv X d"
    and put: "dict_put X G d key (Some v) = Some (d', calls)"
  shows "mset (dict_values d') + mset (opt_list (dict_map X d key)) = mset (dict_values d) + {#v#}"
proof -
  define i where "i = slot X d key"
  define l where "l = bucket (tab d ! i)"
  have il: "i < length (tab d)" and ki: "key_to_index X d key = Some i"
    using dict_inv_slot [OF inv] by (simp_all add: i_def)
  have m: "dict_map X d key = map_option (\<lambda>pos. snd (l ! pos)) (first_pos (\<lambda>it. fst it = key) l)"
    by (simp add: first_pos_map_of dict_map_def l_def i_def)
  have c: "(case tab d ! i of None \<Rightarrow> ([], None)
       | Some l \<Rightarrow> (l, gwlist_search G l (item_has_key X key))) =
      (l, first_pos (\<lambda>it. fst it = key) l)"
    using X G by (cases "tab d ! i") (auto simp: l_def gw_simps item_has_key_eq)
  note V = dict_values_replace [OF il, folded l_def]
  show ?thesis
  proof (cases "first_pos (\<lambda>it. fst it = key) l")
    case None
    with put G have "d' = d\<lparr>tab := (tab d)[i := Some (l @ [(key, v)])], key_count := key_count d + 1\<rparr>"
      by (auto simp: dict_put_def ki c item_create_def gw_simps)
    with V [where b = "Some (l @ [(key, v)])" and c = "key_count d + 1"] None m show ?thesis by simp
  next
    case (Some pos)
    let ?b = "l[pos := (fst (l ! pos), v)]"
    from Some put have d': "d' = d\<lparr>tab := (tab d)[i := Some ?b], key_count := key_count d\<rparr>"
      by (auto simp: dict_put_def ki c)
    have pl: "pos < length l" using Some by (rule first_pos_lt)
    have e: "mset (map snd ?b) + {#snd (l ! pos)#} = mset (map snd l) + {#v#}"
      using pl by (simp add: map_update mset_update nth_mem)
    have "mset (dict_values d') + {#snd (l ! pos)#} = mset (dict_values d) + {#v#}"
      by (rule mset_exchange [OF _ e])
        (use V [where b = "Some ?b" and c = "key_count d"] in \<open>simp add: d'\<close>)
    with Some m show ?thesis by simp
  qed
qed

lemma mset_filter_snd:
  "mset (map snd (filter P l)) + mset (map snd (filter (\<lambda>x. \<not> P x) l)) = mset (map snd l)"
  by (induction l) auto

lemma dict_remove_values:
  assumes X: "octstr_spec X" and G: "gwlist_spec G" and inv: "dict_inv X d"
    and rem: "dict_remove X G d key = Some (r, d')"
  shows "mset (dict_values d') + mset (opt_list r) = mset (dict_values d)"
proof -
  define i where "i = slot X d key"
  define l where "l = bucket (tab d ! i)"
  have il: "i < length (tab d)" and ki: "key_to_index X d key = Some i"
    using dict_inv_slot [OF inv] by (simp_all add: i_def)
  have dl: "distinct (map fst l)" using inv il by (auto simp: dict_inv_def l_def)
  let ?f = "filter (\<lambda>it. fst it = key) l" and ?g = "filter (\<lambda>it. fst it \<noteq> key) l"
  define b where "b = map_option (\<lambda>l. filter (\<lambda>it. fst it \<noteq> key) l) (tab d ! i)"
  have bb: "bucket b = ?g" by (cases "tab d ! i") (auto simp: b_def l_def)
  have r: "r = dict_map X d key" using dict_remove_map [OF X G inv, of key] rem by auto
  have f: "map snd ?f = opt_list r"
    using filter_key_distinct [OF dl, of key]
    by (auto simp: r dict_map_def l_def i_def opt_list_def split: option.splits)
  have "\<exists>c. d' = d\<lparr>tab := (tab d)[i := b], key_count := c\<rparr>"
    using rem X G
    by (cases "tab d ! i")
      (auto simp: dict_remove_def ki gw_simps item_has_key_eq b_def split: if_splits
        intro: exI [of _ "key_count d"])
  then obtain c where d': "d' = d\<lparr>tab := (tab d)[i := b], key_count := c\<rparr>" ..
  have "mset (dict_values d') + mset (map snd l) = mset (dict_values d) + mset (map snd ?g)"
    using dict_values_replace [OF il, where b = b and c = c] by (simp add: d' bb l_def)
  moreover have "mset (map snd l) = mset (map snd ?g) + mset (opt_list r)"
    using mset_filter_snd [of "\<lambda>it. fst it = key" l] f by (simp add: add.commute)
  ultimately show ?thesis by (simp add: ac_simps)
qed

lemma drain_all:
  "gwlist_spec G \<Longrightarrow> length l < fuel \<Longrightarrow> drain G fuel l = map (Some \<circ> snd) l"
proof (induction fuel arbitrary: l)
  case 0
  then show ?case by simp
next
  case (Suc fuel)
  then show ?case by (cases l) (auto simp: gw_simps)
qed

lemma dict_destroy_values:
  assumes "gwlist_spec G" "destroy_value d"
  shows "dict_destroy G d = map Some (dict_values d)"
proof -
  have "(\<lambda>b. case b of None \<Rightarrow> [] | Some l \<Rightarrow> drain G (Suc (length l)) l) =
      (\<lambda>b. map (Some \<circ> snd) (bucket b))"
    using assms(1) by (auto simp: fun_eq_iff drain_all simp del: drain.simps split: option.splits)
  then show ?thesis
    using assms(2) by (simp add: dict_destroy_def dict_values_def map_concat comp_def del: drain.simps)
qed


section \<open>The contract of a dictionary, and clients of it\<close>

text \<open>
  A client sees a dictionary as a finite map: storing never fails and returns a table for the
  updated map, removing returns the old value, the key list is the domain.  The clients below are
  generic in the operations: a run of operations, and the loop that removes every key.
\<close>

datatype ('k, 'v) map_op = Store 'k 'v | Erase 'k

fun run_map :: "('d \<Rightarrow> 'k \<Rightarrow> 'v \<Rightarrow> 'd option) \<Rightarrow> ('d \<Rightarrow> 'k \<Rightarrow> ('v option \<times> 'd) option) \<Rightarrow>
    'd \<Rightarrow> ('k, 'v) map_op list \<Rightarrow> 'd option" where
  "run_map store erase d [] = Some d"
| "run_map store erase d (Store k v # xs) = do { d' \<leftarrow> store d k v; run_map store erase d' xs }"
| "run_map store erase d (Erase k # xs) = do { (_, d') \<leftarrow> erase d k; run_map store erase d' xs }"

fun spec_map :: "('k \<rightharpoonup> 'v) \<Rightarrow> ('k, 'v) map_op list \<Rightarrow> ('k \<rightharpoonup> 'v)" where
  "spec_map m [] = m"
| "spec_map m (Store k v # xs) = spec_map (m(k \<mapsto> v)) xs"
| "spec_map m (Erase k # xs) = spec_map (m(k := None)) xs"

fun remove_keys :: "('d \<Rightarrow> 'k \<Rightarrow> ('v option \<times> 'd) option) \<Rightarrow> 'd \<Rightarrow> 'k list \<Rightarrow> 'd option" where
  "remove_keys erase d [] = Some d"
| "remove_keys erase d (k # ks) = do { (_, d') \<leftarrow> erase d k; remove_keys erase d' ks }"

locale dictionary =
  fixes store :: "'d \<Rightarrow> 'k \<Rightarrow> 'v \<Rightarrow> 'd option"
    and erase :: "'d \<Rightarrow> 'k \<Rightarrow> ('v option \<times> 'd) option"
    and find :: "'d \<Rightarrow> 'k \<Rightarrow> 'v option option"
    and keys :: "'d \<Rightarrow> 'k list"
    and invar :: "'d \<Rightarrow> bool"
    and lookup :: "'d \<Rightarrow> 'k \<rightharpoonup> 'v"
  assumes store_law: "invar d \<Longrightarrow>
      \<exists>d'. store d k v = Some d' \<and> invar d' \<and> lookup d' = (lookup d)(k \<mapsto> v)"
    and erase_law: "invar d \<Longrightarrow>
      \<exists>d'. erase d k = Some (lookup d k, d') \<and> invar d' \<and> lookup d' = (lookup d)(k := None)"
    and find_law: "invar d \<Longrightarrow> find d k = Some (lookup d k)"
    and keys_law: "invar d \<Longrightarrow> set (keys d) = dom (lookup d)"
begin

lemma run_refines:
  "invar d \<Longrightarrow> \<exists>d'. run_map store erase d xs = Some d' \<and> invar d' \<and>
     lookup d' = spec_map (lookup d) xs"
proof (induction xs arbitrary: d)
  case Nil
  then show ?case by simp
next
  case (Cons x xs)
  show ?case
  proof (cases x)
    case (Store k v)
    obtain d' where "store d k v = Some d'" "invar d'" "lookup d' = (lookup d)(k \<mapsto> v)"
      using store_law [OF Cons.prems] by blast
    with Cons.IH [of d'] Store show ?thesis by (auto simp del: fun_upd_apply)
  next
    case (Erase k)
    obtain d' where "erase d k = Some (lookup d k, d')" "invar d'" "lookup d' = (lookup d)(k := None)"
      using erase_law [OF Cons.prems] by blast
    with Cons.IH [of d'] Erase show ?thesis by (auto simp del: fun_upd_apply)
  qed
qed

lemma remove_keys_map:
  "invar d \<Longrightarrow> \<exists>d'. remove_keys erase d ks = Some d' \<and> invar d' \<and>
     lookup d' = (lookup d) |` (- set ks)"
proof (induction ks arbitrary: d)
  case Nil
  then show ?case by simp
next
  case (Cons k ks)
  obtain d' where d': "erase d k = Some (lookup d k, d')" "invar d'" "lookup d' = (lookup d)(k := None)"
    using erase_law [OF Cons.prems] by blast
  obtain d'' where "remove_keys erase d' ks = Some d''" "invar d''"
      "lookup d'' = lookup d' |` (- set ks)"
    using Cons.IH [OF d'(2)] by blast
  moreover have "lookup d' |` (- set ks) = lookup d |` (- set (k # ks))"
    using d'(3) by (auto simp: restrict_map_def fun_eq_iff)
  ultimately show ?case using d'(1) by simp
qed

lemma clear_all:
  assumes "invar d"
  shows "\<exists>d'. remove_keys erase d (keys d) = Some d' \<and> invar d' \<and> lookup d' = Map.empty"
proof -
  obtain d' where d': "remove_keys erase d (keys d) = Some d'" "invar d'"
      "lookup d' = (lookup d) |` (- set (keys d))"
    using remove_keys_map [OF assms] by blast
  have "(lookup d) |` (- set (keys d)) = Map.empty"
    by (auto simp: keys_law [OF assms] restrict_map_def fun_eq_iff domIff)
  with d' show ?thesis by auto
qed

end

definition dict_store :: "octstr_ops \<Rightarrow> 'v item gwlist_ops \<Rightarrow> 'v dict \<Rightarrow> octstr \<Rightarrow> 'v \<Rightarrow> 'v dict option"
  where "dict_store X G d key v = map_option fst (dict_put X G d key (Some v))"

text \<open>The hash table meets the contract, for every list and octet string library that meets its own.\<close>

lemma dict_is_dictionary:
  assumes "octstr_spec X" "gwlist_spec G"
  shows "dictionary (dict_store X G) (dict_remove X G) (dict_get X G) dict_keys (dict_inv X) (dict_map X)"
proof
  fix d :: "'a dict" and k v
  assume inv: "dict_inv X d"
  show "\<exists>d'. dict_store X G d k v = Some d' \<and> dict_inv X d' \<and> dict_map X d' = (dict_map X d)(k \<mapsto> v)"
    using dict_put_map [OF assms inv, of k v] by (auto simp: dict_store_def)
  show "\<exists>d'. dict_remove X G d k = Some (dict_map X d k, d') \<and> dict_inv X d' \<and>
      dict_map X d' = (dict_map X d)(k := None)"
    using dict_remove_map [OF assms inv, of k] by blast
  show "dict_get X G d k = Some (dict_map X d k)" by (rule dict_get_map [OF assms inv])
  show "set (dict_keys d) = dom (dict_map X d)" by (rule dict_keys_dom [OF inv])
qed

interpretation dict: dictionary "dict_store octstr_ref gwlist_ref" "dict_remove octstr_ref gwlist_ref"
  "dict_get octstr_ref gwlist_ref" dict_keys "dict_inv octstr_ref" "dict_map octstr_ref"
  by (rule dict_is_dictionary) simp_all

section \<open>Properties\<close>

text \<open>
  C33: the dictionary refines a finite map.  Starting from \<^verbatim>\<open>dict_create\<close> with a positive size
  hint, every sequence of stores and removals runs without a trap or a failed assertion, after it
  \<^verbatim>\<open>dict_get\<close> answers every key as the map would, \<^verbatim>\<open>dict_keys\<close> lists the map's domain without
  repetition and \<^verbatim>\<open>dict_key_count\<close> is its size; whatever the hash function.
\<close>

theorem dict_refines_map:
  assumes X: "octstr_spec X" and G: "gwlist_spec G" and hint: "0 < size_hint"
  shows "\<exists>d. run_map (dict_store X G) (dict_remove X G) (dict_create size_hint destroy) xs = Some d
     \<and> (\<forall>k. dict_get X G d k = Some (spec_map Map.empty xs k))
     \<and> set (dict_keys d) = dom (spec_map Map.empty xs) \<and> distinct (dict_keys d)
     \<and> dict_key_count d = int (card (dom (spec_map Map.empty xs)))"
proof -
  from dictionary.run_refines [OF dict_is_dictionary [OF X G] dict_create_inv(1) [OF hint], of destroy xs]
  obtain d where d: "run_map (dict_store X G) (dict_remove X G) (dict_create size_hint destroy) xs = Some d"
      "dict_inv X d" "dict_map X d = spec_map Map.empty xs"
    unfolding dict_create_inv(2) [OF hint] by blast
  with dict_get_map [OF X G d(2)] dict_keys_dom [OF d(2)] dict_key_count_card [OF d(2)]
  show ?thesis by auto
qed

theorem dict_refines_map_witness:
  "octstr_spec octstr_ref \<and> gwlist_spec (gwlist_ref :: nat item gwlist_ops) \<and> (0::nat) < 1 \<and>
   (\<exists>d. run_map (dict_store octstr_ref gwlist_ref) (dict_remove octstr_ref gwlist_ref)
        (dict_create 1 True) [Store ''a'' (1::nat), Store ''c'' 2, Store ''a'' 3, Erase ''c''] = Some d
      \<and> dict_get octstr_ref gwlist_ref d ''a'' = Some (Some 3)
      \<and> dict_get octstr_ref gwlist_ref d ''c'' = Some None \<and> dict_key_count d = 1)"
  using dict_refines_map [OF octstr_ref_spec gwlist_ref_spec, of 1 True
      "[Store ''a'' (1::nat), Store ''c'' 2, Store ''a'' 3, Erase ''c'']"]
  by (auto simp: dom_def)

text \<open>
  Ownership of the values.  In a table with a destructor, one store hands exactly the replaced
  value (if any) to the destructor, \<^verbatim>\<open>dict_put_once\<close> destroys the new value exactly when the key is
  taken, a removal returns the value without destroying it, and \<^verbatim>\<open>dict_destroy\<close> destroys every
  value still stored: counted with multiplicity, what goes in equals what is stored, destroyed or
  handed back, so no value leaks and none is freed twice.
\<close>

theorem dict_ownership:
  assumes X: "octstr_spec X" and G: "gwlist_spec G" and inv: "dict_inv X d" and dv: "destroy_value d"
  shows "(\<exists>d' calls. dict_put X G d key (Some v) = Some (d', calls) \<and> destroy_value d' \<and>
        mset (dict_values d') + mset (somes calls) = mset (dict_values d) + {#v#})
   \<and> (\<exists>r d' calls. dict_put_once X G d key (Some v) = Some (r, d', calls) \<and> r = (dict_map X d key = None) \<and>
        mset (dict_values d') + mset (somes calls) = mset (dict_values d) + {#v#})
   \<and> (\<exists>r d'. dict_remove X G d key = Some (r, d') \<and> destroy_value d' \<and>
        mset (dict_values d') + mset (opt_list r) = mset (dict_values d))
   \<and> mset (somes (dict_destroy G d)) = mset (dict_values d)"
proof (intro conjI)
  obtain d' where d': "dict_put X G d key (Some v) =
       Some (d', case dict_map X d key of None \<Rightarrow> [] | Some w \<Rightarrow> destroy_call d (Some w))"
      "destroy_value d' = destroy_value d"
    using dict_put_map [OF X G inv] by blast
  have s: "somes (case dict_map X d key of None \<Rightarrow> [] | Some w \<Rightarrow> destroy_call d (Some w)) =
      opt_list (dict_map X d key)"
    using dv by (cases "dict_map X d key") (simp_all add: destroy_call_def)
  show "\<exists>d' calls. dict_put X G d key (Some v) = Some (d', calls) \<and> destroy_value d' \<and>
        mset (dict_values d') + mset (somes calls) = mset (dict_values d) + {#v#}"
    using d' dv dict_put_values [OF X G inv d'(1)] s by auto
  show "\<exists>r d' calls. dict_put_once X G d key (Some v) = Some (r, d', calls) \<and> r = (dict_map X d key = None) \<and>
        mset (dict_values d') + mset (somes calls) = mset (dict_values d) + {#v#}"
    using d' dict_put_values [OF X G inv d'(1)] dv
    by (cases "dict_map X d key")
      (auto simp: dict_put_once_def handle_null_value_def dict_put_true_put [OF X G inv] destroy_call_def)
  show "\<exists>r d'. dict_remove X G d key = Some (r, d') \<and> destroy_value d' \<and>
        mset (dict_values d') + mset (opt_list r) = mset (dict_values d)"
    using dict_remove_map [OF X G inv, of key] dict_remove_values [OF X G inv, of key] dv by fastforce
  have "somes (map Some vs) = vs" for vs :: "'a list" by (induction vs) auto
  then show "mset (somes (dict_destroy G d)) = mset (dict_values d)"
    by (simp add: dict_destroy_values [OF G dv])
qed

theorem dict_ownership_witness:
  "dict_inv octstr_ref (dict_create 1 True :: nat dict) \<and> destroy_value (dict_create 1 True :: nat dict) \<and>
   (\<exists>r d' calls. dict_put_once octstr_ref gwlist_ref (dict_create 1 True) ''a'' (Some (5::nat)) =
      Some (r, d', calls) \<and> r \<and> mset (dict_values d') + mset (somes calls) = {#5#})"
proof -
  have i: "dict_inv octstr_ref (dict_create 1 True :: nat dict)" by (rule dict_create_inv) simp
  have dv: "destroy_value (dict_create 1 True :: nat dict)" by (simp add: dict_create_def)
  have e: "dict_map octstr_ref (dict_create 1 True :: nat dict) ''a'' = None"
    "dict_values (dict_create 1 True :: nat dict) = []"
    by (subst dict_create_inv(2)) (simp_all add: dict_values_def dict_create_def numeral_2_eq_2)
  show ?thesis
    using i dv e dict_ownership [OF octstr_ref_spec gwlist_ref_spec i dv, of "''a''" 5] by auto
qed

end
