(* ===== verification/Prioqueue.thy ===== *)
theory Prioqueue
  imports Prelude
begin

text \<open>
  \<^verbatim>\<open>gwlib/gw-prioqueue.c\<close>: the generic priority queue, a binary heap in an array whose cell 0
  holds a null stop marker.  A cell is \<open>None\<close> for a null pointer; \<open>pq_size\<close> is the allocated
  size in bytes and \<open>pq_len\<close> counts the marker, as in the code.  The comparison function of the
  structure is the argument \<open>cmp\<close>; the new cells of \<^verbatim>\<open>gw_realloc\<close> hold the arbitrary value
  \<open>junk\<close>.  The mutex makes each operation one step.  An operation is \<open>None\<close> where the process
  does not come out of it: a failed \<^verbatim>\<open>gw_assert\<close>, a comparison applied to a null or foreign
  cell, or a loop that never ends.
\<close>

section \<open>The queue and its operations\<close>

record 'a prioqueue =
  pq_tab :: "'a option list"
  pq_size :: nat
  pq_len :: nat
  producers :: int

type_synonym 'a cmp = "'a \<Rightarrow> 'a \<Rightarrow> int"

definition sizeof_ptr :: nat where
  "sizeof_ptr = 8"

definition make_bigger :: "'a option \<Rightarrow> 'a prioqueue \<Rightarrow> nat \<Rightarrow> 'a prioqueue" where
  "make_bigger junk q items =
     (let new_size = sizeof_ptr * (pq_len q + items)
      in if pq_size q \<ge> new_size then q
         else q\<lparr> pq_tab := pq_tab q @ replicate (pq_len q + items - length (pq_tab q)) junk,
                 pq_size := new_size \<rparr>)"

definition cell :: "'a option list \<Rightarrow> nat \<Rightarrow> 'a option" where
  "cell t i = (if i < length t then t ! i else None)"

text \<open>The loop of \<^verbatim>\<open>upheap\<close>; with a non-null cell 0 it would spin at index 0.\<close>

fun upheap_loop :: "'a cmp \<Rightarrow> 'a option list \<Rightarrow> nat \<Rightarrow> 'a \<Rightarrow> 'a option list option" where
  "upheap_loop cmp t index v =
     (case cell t (index div 2) of
        None \<Rightarrow> Some (t[index := Some v])
      | Some u \<Rightarrow>
          (if cmp u v \<le> 0
           then (if index = 0 then None else upheap_loop cmp (t[index := Some u]) (index div 2) v)
           else Some (t[index := Some v])))"

declare upheap_loop.simps [simp del]

definition upheap :: "'a cmp \<Rightarrow> 'a prioqueue \<Rightarrow> nat \<Rightarrow> 'a prioqueue option" where
  "upheap cmp q index = do {
     v \<leftarrow> cell (pq_tab q) index;
     t \<leftarrow> upheap_loop cmp (pq_tab q) index v;
     Some (q\<lparr> pq_tab := t \<rparr>) }"

text \<open>The child the loop of \<^verbatim>\<open>downheap\<close> looks at: the bigger one, the right one only when \<^verbatim>\<open>j < len\<close>.\<close>

definition bigger_child :: "'a cmp \<Rightarrow> 'a option list \<Rightarrow> nat \<Rightarrow> nat \<Rightarrow> nat option" where
  "bigger_child cmp t len index =
     (let j = 2 * index
      in if j < len
         then do { a \<leftarrow> cell t j; b \<leftarrow> cell t (j + 1); Some (if cmp a b < 0 then j + 1 else j) }
         else Some j)"

lemma bigger_child_gt: "bigger_child cmp t len index = Some j \<Longrightarrow> index \<noteq> 0 \<Longrightarrow> index < j"
  by (auto simp: bigger_child_def Let_def bind_eq_Some_conv split: if_splits)

function downheap_loop :: "'a cmp \<Rightarrow> nat \<Rightarrow> 'a option list \<Rightarrow> nat \<Rightarrow> 'a \<Rightarrow> 'a option list option" where
  "downheap_loop cmp len t index v =
     (if index \<le> len div 2
      then (if index = 0 then None
            else case bigger_child cmp t len index of
                   None \<Rightarrow> None
                 | Some j \<Rightarrow>
                     (case cell t j of
                        None \<Rightarrow> None
                      | Some c \<Rightarrow>
                          (if cmp v c \<ge> 0 then Some (t[index := Some v])
                           else downheap_loop cmp len (t[index := Some c]) j v)))
      else Some (t[index := Some v]))"
  by pat_completeness auto
termination
  by (relation "measure (\<lambda>(cmp, len, t, index, v). len + 1 - index)") (auto dest: bigger_child_gt)

declare downheap_loop.simps [simp del]

definition downheap :: "'a cmp \<Rightarrow> 'a prioqueue \<Rightarrow> nat \<Rightarrow> 'a prioqueue option" where
  "downheap cmp q index = do {
     v \<leftarrow> cell (pq_tab q) index;
     t \<leftarrow> downheap_loop cmp (pq_len q) (pq_tab q) index v;
     Some (q\<lparr> pq_tab := t \<rparr>) }"

definition gw_prioqueue_create :: "'a option \<Rightarrow> 'a prioqueue" where
  "gw_prioqueue_create junk =
     (let q = make_bigger junk \<lparr> pq_tab = [], pq_size = 0, pq_len = 0, producers = 0 \<rparr> 1
      in q\<lparr> pq_tab := (pq_tab q)[0 := None], pq_len := pq_len q + 1 \<rparr>)"

definition gw_prioqueue_len :: "'a prioqueue \<Rightarrow> int" where
  "gw_prioqueue_len q = int (pq_len q) - 1"

definition gw_prioqueue_insert :: "'a option \<Rightarrow> 'a cmp \<Rightarrow> 'a prioqueue \<Rightarrow> 'a \<Rightarrow> 'a prioqueue option" where
  "gw_prioqueue_insert junk cmp q item = do {
     let q1 = make_bigger junk q 1;
     let q2 = q1\<lparr> pq_tab := (pq_tab q1)[pq_len q1 := Some item] \<rparr>;
     q3 \<leftarrow> upheap cmp q2 (pq_len q2);
     Some (q3\<lparr> pq_len := pq_len q3 + 1 \<rparr>) }"

definition gw_prioqueue_foreach :: "'a prioqueue \<Rightarrow> ('a option \<times> nat) list" where
  "gw_prioqueue_foreach q = map (\<lambda>i. (cell (pq_tab q) i, i - 1)) [1..<pq_len q]"

definition take_top :: "'a cmp \<Rightarrow> 'a prioqueue \<Rightarrow> ('a option \<times> 'a prioqueue) option" where
  "take_top cmp q = do {
     let ret = cell (pq_tab q) 1;
     let len' = pq_len q - 1;
     let q1 = q\<lparr> pq_tab := (pq_tab q)[1 := cell (pq_tab q) len'], pq_len := len' \<rparr>;
     q2 \<leftarrow> downheap cmp q1 1;
     Some (ret, q2) }"

definition gw_prioqueue_remove :: "'a cmp \<Rightarrow> 'a prioqueue \<Rightarrow> ('a option \<times> 'a prioqueue) option" where
  "gw_prioqueue_remove cmp q = (if pq_len q \<le> 1 then Some (None, q) else take_top cmp q)"

definition gw_prioqueue_get :: "'a prioqueue \<Rightarrow> 'a option" where
  "gw_prioqueue_get q = (if pq_len q > 1 then cell (pq_tab q) 1 else None)"

text \<open>
  \<^verbatim>\<open>gw_prioqueue_consume\<close> waits on the condition variable while the queue is empty and has a
  producer: \<open>Waits\<close> is that state, left when another thread inserts or the producers leave.
\<close>

datatype 'r blocking = Waits | Returns 'r

definition gw_prioqueue_consume ::
    "'a cmp \<Rightarrow> 'a prioqueue \<Rightarrow> ('a option \<times> 'a prioqueue) blocking option" where
  "gw_prioqueue_consume cmp q =
     (if pq_len q = 1 \<and> producers q > 0 then Some Waits
      else if pq_len q > 1 then map_option Returns (take_top cmp q)
      else Some (Returns (None, q)))"

definition gw_prioqueue_add_producer :: "'a prioqueue \<Rightarrow> 'a prioqueue" where
  "gw_prioqueue_add_producer q = q\<lparr> producers := producers q + 1 \<rparr>"

definition gw_prioqueue_remove_producer :: "'a prioqueue \<Rightarrow> 'a prioqueue option" where
  "gw_prioqueue_remove_producer q =
     (if producers q > 0 then Some (q\<lparr> producers := producers q - 1 \<rparr>) else None)"

definition gw_prioqueue_producer_count :: "'a prioqueue \<Rightarrow> int" where
  "gw_prioqueue_producer_count q = producers q"

text \<open>\<^verbatim>\<open>gw_prioqueue_destroy\<close>: the items handed to the destructor, in order.\<close>

fun drain_queue :: "('q \<Rightarrow> ('a option \<times> 'q) option) \<Rightarrow> nat \<Rightarrow> 'q \<Rightarrow> 'a list option" where
  "drain_queue rem 0 q = None"
| "drain_queue rem (Suc fuel) q = do {
     (item, q') \<leftarrow> rem q;
     (case item of None \<Rightarrow> Some []
      | Some x \<Rightarrow> do { xs \<leftarrow> drain_queue rem fuel q'; Some (x # xs) }) }"

definition gw_prioqueue_destroy :: "'a cmp \<Rightarrow> 'a prioqueue \<Rightarrow> 'a list option" where
  "gw_prioqueue_destroy cmp q = drain_queue (gw_prioqueue_remove cmp) (Suc (pq_len q)) q"

section \<open>The heap order\<close>

definition cmp_spec :: "'a cmp \<Rightarrow> bool" where
  "cmp_spec cmp \<longleftrightarrow> (\<forall>a b. cmp a b \<le> 0 \<longleftrightarrow> 0 \<le> cmp b a) \<and>
     (\<forall>a b c. 0 \<le> cmp a b \<longrightarrow> 0 \<le> cmp b c \<longrightarrow> 0 \<le> cmp a c)"

lemma cmp_specD:
  assumes "cmp_spec cmp"
  shows "0 \<le> cmp a a" and "cmp a b \<le> 0 \<Longrightarrow> 0 \<le> cmp b a" and "\<not> cmp a b \<le> 0 \<Longrightarrow> 0 \<le> cmp a b"
    and "\<not> 0 \<le> cmp a b \<Longrightarrow> 0 \<le> cmp b a"
    and "0 \<le> cmp a b \<Longrightarrow> 0 \<le> cmp b c \<Longrightarrow> 0 \<le> cmp a c"
  using assms unfolding cmp_spec_def by (meson linear, meson, linarith, meson linear, blast)

text \<open>The used cells: items at 1 to \<open>m - 1\<close>, the marker at 0.\<close>

definition filled :: "'a option list \<Rightarrow> nat \<Rightarrow> bool" where
  "filled t m \<longleftrightarrow> 1 \<le> m \<and> m \<le> length t \<and> t ! 0 = None \<and> (\<forall>i. 1 \<le> i \<and> i < m \<longrightarrow> t ! i \<noteq> None)"

definition ge_at :: "'a cmp \<Rightarrow> 'a option list \<Rightarrow> nat \<Rightarrow> nat \<Rightarrow> bool" where
  "ge_at cmp t i j \<longleftrightarrow> 0 \<le> cmp (the (t ! i)) (the (t ! j))"

definition heap_at :: "'a cmp \<Rightarrow> 'a option list \<Rightarrow> nat \<Rightarrow> bool" where
  "heap_at cmp t m \<longleftrightarrow> (\<forall>i. 2 \<le> i \<and> i < m \<longrightarrow> ge_at cmp t (i div 2) i)"

definition items_of :: "'a option list \<Rightarrow> nat \<Rightarrow> 'a option multiset" where
  "items_of t m = mset (tl (take m t))"

lemma filled_update: "filled t m \<Longrightarrow> 1 \<le> i \<Longrightarrow> i < length t \<Longrightarrow> filled (t[i := Some v]) m"
  by (auto simp: filled_def nth_list_update)

lemma items_swap:
  assumes "1 \<le> i" "i < m" "1 \<le> j" "j < m" "m \<le> length t"
  shows "items_of (t[i := t ! j, j := t ! i]) m = items_of t m"
proof -
  have upd: "tl (take m (s[k := x])) = (tl (take m s))[k - 1 := x]" if "1 \<le> k" for s :: "'a option list" and k x
    using that by (cases s; cases m; cases k) (auto simp: take_update_swap)
  have nth: "tl (take m t) ! (k - 1) = t ! k" if "1 \<le> k" "k < m" for k
    using that assms(5) by (simp add: nth_tl)
  let ?u = "tl (take m t)"
  have "tl (take m (t[i := t ! j, j := t ! i])) = ?u[i - 1 := ?u ! (j - 1), j - 1 := ?u ! (i - 1)]"
    unfolding nth [OF assms(1,2)] nth [OF assms(3,4)] by (simp add: upd assms(1,3) del: One_nat_def)
  moreover have "i - 1 < length ?u" "j - 1 < length ?u" using assms by auto
  ultimately show ?thesis
    by (simp add: items_of_def mset_swap)
qed


section \<open>Sifting up\<close>

text \<open>
  While \<^verbatim>\<open>upheap\<close> runs, the array with the inserted item written at the index is a heap but for
  the order of the index and its parent, and the children of the index are below its parent.
\<close>

definition up_inv :: "'a cmp \<Rightarrow> 'a option list \<Rightarrow> nat \<Rightarrow> nat \<Rightarrow> bool" where
  "up_inv cmp s m k \<longleftrightarrow> filled s m \<and> 1 \<le> k \<and> k < m \<and>
     (\<forall>i. 2 \<le> i \<and> i < m \<and> i \<noteq> k \<longrightarrow> ge_at cmp s (i div 2) i) \<and>
     (\<forall>i. 2 \<le> k \<and> i < m \<and> i div 2 = k \<longrightarrow> ge_at cmp s (k div 2) i)"

lemma up_inv_step:
  assumes C: "cmp_spec cmp" and inv: "up_inv cmp s m k" and k: "2 \<le> k"
    and le: "cmp (the (s ! (k div 2))) (the (s ! k)) \<le> 0"
  shows "up_inv cmp (s[k := s ! (k div 2), k div 2 := s ! k]) m (k div 2)"
proof -
  let ?p = "k div 2"
  let ?s = "s[k := s ! ?p, ?p := s ! k]"
  have len: "m \<le> length s" "k < m" "?p < k" "1 \<le> ?p" using inv k by (auto simp: up_inv_def filled_def)
  have nth: "?s ! i = (if i = ?p then s ! k else if i = k then s ! ?p else s ! i)" if "i < m" for i
    using len that by (simp add: nth_list_update)
  have rel: "ge_at cmp s (i div 2) i" if "2 \<le> i" "i < m" "i \<noteq> k" for i
    using inv that by (simp add: up_inv_def)
  have grand: "ge_at cmp s ?p i" if "i < m" "i div 2 = k" for i
    using inv that k by (simp add: up_inv_def)
  have kp: "0 \<le> cmp (the (s ! k)) (the (s ! ?p))" using cmp_specD(2) [OF C le] .
  have f: "filled ?s m"
    using inv len nth by (auto simp: up_inv_def filled_def)
  have r: "ge_at cmp ?s (i div 2) i" if i: "2 \<le> i" "i < m" "i \<noteq> ?p" for i
  proof (cases "i = k")
    case True
    with kp nth len show ?thesis by (simp add: ge_at_def)
  next
    case False
    have b: "ge_at cmp s (i div 2) i" using rel i False by blast
    show ?thesis
      using b grand [of i] cmp_specD(5) [OF C kp] i False len
      by (cases "i div 2 = k"; cases "i div 2 = ?p") (auto simp: ge_at_def nth)
  qed
  have g: "ge_at cmp ?s (?p div 2) i" if i: "2 \<le> ?p" "i < m" "i div 2 = ?p" for i
  proof -
    have a: "ge_at cmp s (?p div 2) ?p" using rel [of ?p] i len by auto
    have q: "?p div 2 < ?p" "?p div 2 < m" "?p div 2 \<noteq> k" "i \<noteq> ?p" "2 \<le> i" using i len by auto
    show ?thesis
    proof (cases "i = k")
      case True
      with a q len kp show ?thesis by (auto simp: ge_at_def nth)
    next
      case False
      then have "ge_at cmp s ?p i" using rel [of i] i q by simp
      with a False q len i show ?thesis
        by (auto simp: ge_at_def nth intro: cmp_specD(5) [OF C])
    qed
  qed
  show ?thesis using f r g len by (simp add: up_inv_def)
qed

lemma up_inv_done:
  assumes "up_inv cmp s m k" and "k = 1 \<or> ge_at cmp s (k div 2) k"
  shows "heap_at cmp s m"
  using assms by (auto simp: up_inv_def heap_at_def)

lemma upheap_loop_correct:
  assumes C: "cmp_spec cmp"
  shows "up_inv cmp (t[k := Some v]) m k \<Longrightarrow>
    \<exists>t'. upheap_loop cmp t k v = Some t' \<and> filled t' m \<and> heap_at cmp t' m \<and>
      items_of t' m = items_of (t[k := Some v]) m \<and> length t' = length t"
proof (induction k arbitrary: t rule: less_induct)
  case (less k)
  let ?s = "t[k := Some v]" and ?p = "k div 2"
  have len: "m \<le> length t" "k < m" "1 \<le> k" and f: "filled ?s m" and t0: "t ! 0 = None"
    using less.prems by (auto simp: up_inv_def filled_def)
  show ?case
  proof (cases "k = 1")
    case True
    then have "upheap_loop cmp t k v = Some ?s"
      using t0 len by (simp add: upheap_loop.simps [of cmp t "Suc 0" v] cell_def)
    with f up_inv_done [OF less.prems] True show ?thesis by simp
  next
    case False
    with len have k: "2 \<le> k" "?p < k" "1 \<le> ?p" by auto
    then obtain u where u: "t ! ?p = Some u" using f len by (auto simp: filled_def)
    then have c: "cell t ?p = Some u" using len k by (simp add: cell_def)
    have sp: "?s ! ?p = Some u" "?s ! k = Some v" using u k len by auto
    show ?thesis
    proof (cases "cmp u v \<le> 0")
      case True
      let ?t = "t[k := Some u]"
      have e: "?t[?p := Some v] = ?s[k := ?s ! ?p, ?p := ?s ! k]" using sp by simp
      have "up_inv cmp (?t[?p := Some v]) m ?p"
        unfolding e by (rule up_inv_step [OF C less.prems k(1)]) (use sp True in simp)
      from less.IH [OF k(2) this] obtain t' where
        t': "upheap_loop cmp ?t ?p v = Some t'" "filled t' m" "heap_at cmp t' m"
          "items_of t' m = items_of (?t[?p := Some v]) m" "length t' = length t"
        by auto
      moreover have "items_of (?t[?p := Some v]) m = items_of ?s m"
        unfolding e by (rule items_swap) (use k len in auto)
      moreover have "upheap_loop cmp t k v = upheap_loop cmp ?t ?p v"
        using c True k len by (simp add: upheap_loop.simps [of cmp t k v])
      ultimately show ?thesis by simp
    next
      case False
      then have "upheap_loop cmp t k v = Some ?s"
        using c by (simp add: upheap_loop.simps [of cmp t k v])
      moreover have "heap_at cmp ?s m"
        by (rule up_inv_done [OF less.prems]) (use sp cmp_specD(3) [OF C False] in \<open>simp add: ge_at_def\<close>)
      ultimately show ?thesis using f by simp
    qed
  qed
qed

section \<open>Sifting down\<close>

text \<open>
  While \<^verbatim>\<open>downheap\<close> runs, the array with the moved item written at the index is a heap but for
  the order of the index and its children, the children of the index are below its parent, and
  the cell just past the end still holds the moved item: the loop may compare with it.
\<close>

definition down_inv :: "'a cmp \<Rightarrow> 'a option list \<Rightarrow> nat \<Rightarrow> nat \<Rightarrow> bool" where
  "down_inv cmp s m k \<longleftrightarrow> filled s m \<and> 1 \<le> k \<and> k < m \<and>
     (\<forall>i. 2 \<le> i \<and> i < m \<and> i div 2 \<noteq> k \<longrightarrow> ge_at cmp s (i div 2) i) \<and>
     (\<forall>i. 2 \<le> k \<and> i < m \<and> i div 2 = k \<longrightarrow> ge_at cmp s (k div 2) i)"

lemma down_inv_step:
  assumes C: "cmp_spec cmp" and inv: "down_inv cmp s m k"
    and j: "j div 2 = k" "j < m"
    and big: "\<And>i. i < m \<Longrightarrow> i div 2 = k \<Longrightarrow> ge_at cmp s j i"
    and gt: "\<not> 0 \<le> cmp (the (s ! k)) (the (s ! j))"
  shows "down_inv cmp (s[k := s ! j, j := s ! k]) m j"
proof -
  let ?s = "s[k := s ! j, j := s ! k]"
  have len: "m \<le> length s" "k < m" "1 \<le> k" "k < j" "2 \<le> j"
    using inv j by (auto simp: down_inv_def filled_def)
  have nth: "?s ! i = (if i = j then s ! k else if i = k then s ! j else s ! i)" if "i < m" for i
    using len that by (simp add: nth_list_update)
  have rel: "ge_at cmp s (i div 2) i" if "2 \<le> i" "i < m" "i div 2 \<noteq> k" for i
    using inv that by (simp add: down_inv_def)
  have grand: "ge_at cmp s (k div 2) i" if "i < m" "i div 2 = k" "2 \<le> k" for i
    using inv that by (simp add: down_inv_def)
  have jk: "0 \<le> cmp (the (s ! j)) (the (s ! k))" using cmp_specD(4) [OF C gt] .
  have f: "filled ?s m"
    using inv len j nth by (auto simp: down_inv_def filled_def)
  have r: "ge_at cmp ?s (i div 2) i" if i: "2 \<le> i" "i < m" "i div 2 \<noteq> j" for i
  proof (cases "i div 2 = k")
    case True
    then show ?thesis using big [of i] jk i j len by (cases "i = j") (auto simp: ge_at_def nth)
  next
    case False
    have h: "i div 2 < m" "i \<noteq> j" using i False j by auto
    have ik: "i = k \<Longrightarrow> 2 \<le> k" using i by simp
    show ?thesis
      using rel [OF i(1,2) False] grand [OF j(2,1)] i h False j ik len
      by (cases "i = k") (auto simp: ge_at_def nth)
  qed
  have g: "ge_at cmp ?s (j div 2) i" if i: "i < m" "i div 2 = j" for i
    using rel [of i] i j len by (auto simp: ge_at_def nth)
  show ?thesis using f r g len j by (simp add: down_inv_def)
qed

lemma down_inv_done:
  assumes "down_inv cmp s m k" and "\<And>i. i < m \<Longrightarrow> i div 2 = k \<Longrightarrow> ge_at cmp s k i"
  shows "heap_at cmp s m"
  using assms by (auto simp: down_inv_def heap_at_def)


lemma downheap_child:
  assumes C: "cmp_spec cmp" and inv: "down_inv cmp (t[k := Some v]) m k"
    and last: "m < length t" "t ! m = Some v" and k: "k \<le> m div 2"
  shows "\<exists>j c. bigger_child cmp t m k = Some j \<and> cell t j = Some c \<and> j div 2 = k \<and> j \<le> m \<and>
     (t[k := Some v]) ! j = Some c \<and> (j = m \<longrightarrow> c = v) \<and>
     (\<forall>i. i < m \<and> i div 2 = k \<longrightarrow> 0 \<le> cmp c (the ((t[k := Some v]) ! i)))"
proof -
  let ?s = "t[k := Some v]"
  have k1: "1 \<le> k" "k < m" and f: "filled ?s m" using inv by (auto simp: down_inv_def)
  have ce: "cell t i = Some (the (?s ! i)) \<and> ?s ! i = Some (the (?s ! i))" if "1 \<le> i" "i \<le> m" "i \<noteq> k" for i
    using that f last k1 by (cases "i = m") (auto simp: filled_def cell_def)
  have sm: "the (?s ! m) = v" using last k1 by simp
  have refl: "0 \<le> cmp a a" for a by (rule cmp_specD(1) [OF C])
  have kids: "i = 2 * k \<or> i = 2 * k + 1" if "i div 2 = k" for i using that by auto
  show ?thesis
  proof (cases "2 * k < m")
    case False
    with k have e: "2 * k = m" by simp
    then have "bigger_child cmp t m k = Some m" by (simp add: bigger_child_def)
    moreover have "\<forall>i. i < m \<and> i div 2 = k \<longrightarrow> 0 \<le> cmp v (the (?s ! i))" using kids e by force
    ultimately show ?thesis using ce [of m] sm e k1 by auto
  next
    case True
    define a where "a = the (?s ! (2 * k))"
    define b where "b = the (?s ! (2 * k + 1))"
    have ca: "cell t (2 * k) = Some a" "?s ! (2 * k) = Some a"
      and cb: "cell t (2 * k + 1) = Some b" "?s ! (2 * k + 1) = Some b"
      using ce [of "2 * k"] ce [of "2 * k + 1"] True k1 by (auto simp: a_def b_def)
    have bc: "bigger_child cmp t m k = Some (if cmp a b < 0 then 2 * k + 1 else 2 * k)"
      using True ca cb by (simp add: bigger_child_def)
    have mm: "2 * k + 1 = m \<Longrightarrow> b = v" using sm by (simp add: b_def)
    show ?thesis
    proof (cases "cmp a b < 0")
      case lt: True
      have "0 \<le> cmp b a" using cmp_specD(2) [OF C, of a b] lt by simp
      with bc lt cb ca refl kids mm True show ?thesis
        by (intro exI [of _ "2 * k + 1"] exI [of _ b]) fastforce
    next
      case ge: False
      then have "0 \<le> cmp a b" by simp
      with bc ge cb ca refl kids mm True show ?thesis
        by (intro exI [of _ "2 * k"] exI [of _ a]) fastforce
    qed
  qed
qed

lemma downheap_loop_correct:
  assumes C: "cmp_spec cmp"
  shows "down_inv cmp (t[k := Some v]) m k \<Longrightarrow> m < length t \<Longrightarrow> t ! m = Some v \<Longrightarrow>
    \<exists>t'. downheap_loop cmp m t k v = Some t' \<and> filled t' m \<and> heap_at cmp t' m \<and>
      items_of t' m = items_of (t[k := Some v]) m \<and> length t' = length t"
proof (induction "m + 1 - k" arbitrary: t k rule: less_induct)
  case less
  let ?s = "t[k := Some v]"
  note inv = less.prems(1) and last = less.prems(2,3)
  have k1: "1 \<le> k" "k < m" and f: "filled ?s m" using inv by (auto simp: down_inv_def)
  have sk: "?s ! k = Some v" using k1 last by simp
  show ?case
  proof (cases "k \<le> m div 2")
    case False
    then have "downheap_loop cmp m t k v = Some ?s" by (simp add: downheap_loop.simps [of cmp m t k v])
    moreover have "heap_at cmp ?s m" by (rule down_inv_done [OF inv]) (use False in auto)
    ultimately show ?thesis using f by simp
  next
    case True
    obtain j c where j: "bigger_child cmp t m k = Some j" "cell t j = Some c" "j div 2 = k" "j \<le> m"
        "?s ! j = Some c" "j = m \<longrightarrow> c = v"
      and big: "\<And>i. i < m \<Longrightarrow> i div 2 = k \<Longrightarrow> 0 \<le> cmp c (the (?s ! i))"
      using downheap_child [OF C inv last True] by blast
    show ?thesis
    proof (cases "0 \<le> cmp v c")
      case stop: True
      then have "downheap_loop cmp m t k v = Some ?s"
        using True j k1 by (simp add: downheap_loop.simps [of cmp m t k v])
      moreover have "heap_at cmp ?s m"
        by (rule down_inv_done [OF inv]) (use cmp_specD(5) [OF C stop] big sk in \<open>auto simp: ge_at_def\<close>)
      ultimately show ?thesis using f by simp
    next
      case go: False
      have jm: "j < m" using go j cmp_specD(1) [OF C, of v] by (cases "j = m") auto
      have kj: "k < j" using j k1 by auto
      let ?t = "t[k := Some c]"
      have e: "?t[j := Some v] = ?s[k := ?s ! j, j := ?s ! k]" using j(5) sk by simp
      have "down_inv cmp (?t[j := Some v]) m j"
        unfolding e by (rule down_inv_step [OF C inv j(3) jm])
          (use big go j(5) sk in \<open>auto simp: ge_at_def\<close>)
      moreover have "m < length ?t" "?t ! m = Some v" using last k1 by auto
      moreover have "m + 1 - j < m + 1 - k" using kj jm by simp
      ultimately obtain t' where t': "downheap_loop cmp m ?t j v = Some t'" "filled t' m" "heap_at cmp t' m"
          "items_of t' m = items_of (?t[j := Some v]) m" "length t' = length t"
        using less.hyps [of j ?t] by auto
      moreover have "items_of (?t[j := Some v]) m = items_of ?s m"
        unfolding e by (rule items_swap) (use k1 kj jm last in auto)
      moreover have "downheap_loop cmp m t k v = downheap_loop cmp m ?t j v"
        using True j go k1 by (simp add: downheap_loop.simps [of cmp m t k v])
      ultimately show ?thesis by simp
    qed
  qed
qed


section \<open>The queue as a multiset\<close>

definition pq_inv :: "'a cmp \<Rightarrow> 'a prioqueue \<Rightarrow> bool" where
  "pq_inv cmp q \<longleftrightarrow> filled (pq_tab q) (pq_len q) \<and> heap_at cmp (pq_tab q) (pq_len q) \<and>
     pq_size q = sizeof_ptr * length (pq_tab q)"

definition pq_items :: "'a prioqueue \<Rightarrow> 'a multiset" where
  "pq_items q = image_mset the (items_of (pq_tab q) (pq_len q))"

lemma make_bigger_1:
  fixes junk :: "'a option"
  assumes "pq_inv cmp q"
  defines "q' \<equiv> make_bigger junk q 1"
  shows "pq_len q' = pq_len q" "producers q' = producers q" "pq_len q < length (pq_tab q')"
    "pq_size q' = sizeof_ptr * length (pq_tab q')" "take (pq_len q) (pq_tab q') = take (pq_len q) (pq_tab q)"
  using assms
  by (auto simp: make_bigger_def pq_inv_def sizeof_ptr_def filled_def Let_def)

lemma filled_take_cong:
  "take m s = take m t \<Longrightarrow> m \<le> length s \<Longrightarrow> filled t m \<Longrightarrow> filled s m"
  unfolding filled_def by (metis (no_types, lifting) length_take min_absorb2 nth_take less_le_trans zero_less_one)

lemma heap_at_take_cong:
  assumes "take m s = take m t" "heap_at cmp t m"
  shows "heap_at cmp s m"
proof -
  have "s ! i = t ! i" if "i < m" for i using assms(1) that by (metis nth_take)
  with assms(2) show ?thesis by (auto simp: heap_at_def ge_at_def)
qed

lemma items_of_snoc:
  assumes "1 \<le> m" "m < length s"
  shows "items_of s (m + 1) = items_of s m + {# s ! m #}"
proof -
  have "take (m + 1) s = take m s @ [s ! m]" using assms by (simp add: take_Suc_conv_app_nth)
  moreover have "take m s \<noteq> []" using assms by auto
  ultimately show ?thesis by (simp add: items_of_def)
qed

lemma insert_correct:
  assumes C: "cmp_spec cmp" and inv: "pq_inv cmp q"
  shows "\<exists>q'. gw_prioqueue_insert junk cmp q item = Some q' \<and> pq_inv cmp q' \<and>
     pq_items q' = pq_items q + {#item#} \<and> pq_len q' = pq_len q + 1 \<and> producers q' = producers q"
proof -
  define t where "t = pq_tab (make_bigger junk q 1)"
  define m where "m = pq_len q"
  note B = make_bigger_1 [OF inv, of junk, folded t_def m_def]
  have f: "filled (pq_tab q) m" and h: "heap_at cmp (pq_tab q) m" using inv by (auto simp: pq_inv_def m_def)
  let ?s = "t[m := Some item]"
  have tk: "take m ?s = take m (pq_tab q)" using B by simp
  have fm: "filled ?s m" and hm: "heap_at cmp ?s m"
    using filled_take_cong [OF tk _ f] heap_at_take_cong [OF tk h] B by auto
  have m1: "1 \<le> m" using f by (simp add: filled_def)
  have up: "up_inv cmp (?s[m := Some item]) (m + 1) m"
    using fm hm B m1 by (auto simp: up_inv_def heap_at_def filled_def less_Suc_eq)
  obtain t' where t': "upheap_loop cmp ?s m item = Some t'" "filled t' (m + 1)" "heap_at cmp t' (m + 1)"
      "items_of t' (m + 1) = items_of ?s (m + 1)" "length t' = length ?s"
    using upheap_loop_correct [OF C up] by auto
  have it: "items_of ?s (m + 1) = items_of (pq_tab q) m + {#Some item#}"
    using items_of_snoc [OF m1, of ?s] B tk by (simp add: items_of_def)
  have "gw_prioqueue_insert junk cmp q item =
      Some ((make_bigger junk q 1)\<lparr>pq_tab := t', pq_len := m + 1\<rparr>)"
    using t' B by (simp add: gw_prioqueue_insert_def upheap_def cell_def t_def [symmetric] m_def Let_def
        del: One_nat_def)
  with t' it B show ?thesis by (auto simp: pq_inv_def pq_items_def m_def)
qed

lemma heap_top:
  assumes C: "cmp_spec cmp" and h: "heap_at cmp t m"
  shows "1 \<le> i \<Longrightarrow> i < m \<Longrightarrow> ge_at cmp t 1 i"
proof (induction i rule: less_induct)
  case (less i)
  show ?case
  proof (cases "i = 1")
    case True
    then show ?thesis by (simp add: ge_at_def cmp_specD(1) [OF C])
  next
    case False
    with less.prems have i: "2 \<le> i" by simp
    then have "ge_at cmp t (i div 2) i" using h less.prems by (simp add: heap_at_def)
    moreover have "ge_at cmp t 1 (i div 2)" using less i by auto
    ultimately show ?thesis unfolding ge_at_def by (blast intro: cmp_specD(5) [OF C])
  qed
qed

lemma top_is_max:
  assumes C: "cmp_spec cmp" and inv: "pq_inv cmp q" and x: "x \<in># pq_items q"
  shows "0 \<le> cmp (the (pq_tab q ! 1)) x"
proof -
  obtain y where y: "y \<in> set (tl (take (pq_len q) (pq_tab q)))" "x = the y"
    using x by (auto simp: pq_items_def items_of_def)
  then obtain k where k: "k < length (tl (take (pq_len q) (pq_tab q)))" "y = tl (take (pq_len q) (pq_tab q)) ! k"
    by (metis in_set_conv_nth)
  then have "y = pq_tab q ! Suc k" "Suc k < pq_len q" by (auto simp: nth_tl)
  then show ?thesis
    using heap_top [OF C, of "pq_tab q" "pq_len q" "Suc k"] inv y by (simp add: pq_inv_def ge_at_def)
qed

lemma take_top_correct:
  assumes C: "cmp_spec cmp" and inv: "pq_inv cmp q" and len: "1 < pq_len q"
  shows "\<exists>x q'. take_top cmp q = Some (Some x, q') \<and> pq_inv cmp q' \<and> pq_tab q ! 1 = Some x \<and>
     pq_items q = pq_items q' + {#x#} \<and> pq_len q' = pq_len q - 1 \<and> producers q' = producers q"
proof -
  define m where "m = pq_len q - 1"
  define t where "t = pq_tab q"
  have f: "filled t (m + 1)" and h: "heap_at cmp t (m + 1)" and ln: "pq_len q = m + 1"
    using inv len by (auto simp: pq_inv_def m_def t_def)
  have m1: "1 \<le> m" and ml: "m < length t" using len f by (auto simp: m_def filled_def)
  obtain v where v: "t ! m = Some v" using f m1 by (auto simp: filled_def)
  obtain x where x: "t ! 1 = Some x" using f m1 by (auto simp: filled_def)
  let ?t = "t[1 := Some v]"
  have ft: "filled ?t m" using f m1 ml by (auto simp: filled_def nth_list_update)
  have "\<exists>t'. downheap_loop cmp m ?t 1 v = Some t' \<and> filled t' m \<and> heap_at cmp t' m \<and>
      items_of t' m = items_of ?t m \<and> length t' = length ?t"
  proof (cases "m = 1")
    case True
    with ft show ?thesis by (simp add: downheap_loop.simps [of cmp "Suc 0" _ "Suc 0"] heap_at_def)
  next
    case False
    with m1 have m2: "1 < m" by simp
    have r: "ge_at cmp ?t (i div 2) i" if "2 \<le> i" "i < m" "i div 2 \<noteq> 1" for i
      using that h by (auto simp: heap_at_def ge_at_def)
    have "down_inv cmp (?t[1 := Some v]) m 1" using ft r m2 by (simp add: down_inv_def)
    from downheap_loop_correct [OF C this] ml v m2 show ?thesis by simp
  qed
  then obtain t' where t': "downheap_loop cmp m ?t 1 v = Some t'" "filled t' m" "heap_at cmp t' m"
      "items_of t' m = items_of ?t m" "length t' = length ?t" by blast
  have it: "items_of t (m + 1) = items_of ?t m + {#Some x#}"
  proof (cases "m = 1")
    case True
    then show ?thesis using items_of_snoc [OF m1 ml] x True by (simp add: items_of_def take_Suc tl_take)
  next
    case False
    let ?u = "tl (take m t)"
    have u: "tl (take m ?t) = ?u[0 := Some v]" "0 < length ?u" "?u ! 0 = Some x"
      using m1 ml False x by (cases t; cases m; auto simp: take_update_swap nth_tl)+
    have "mset (?u[0 := Some v]) = add_mset (Some v) (mset ?u - {#?u ! 0#})" using u(2) by (rule mset_update)
    moreover have "?u ! 0 \<in># mset ?u" using u(2) by (simp only: set_mset_mset nth_mem)
    ultimately show ?thesis
      using items_of_snoc [OF m1 ml] u v by (simp add: items_of_def)
  qed
  have "take_top cmp q = Some (Some x, q\<lparr>pq_tab := t', pq_len := m\<rparr>)"
    using t' v x ml m1
    by (simp add: take_top_def downheap_def t_def [symmetric] ln cell_def Let_def)
  with t' it inv x ln show ?thesis by (auto simp: pq_inv_def pq_items_def t_def)
qed


lemma pq_items_size: "pq_inv cmp q \<Longrightarrow> size (pq_items q) = pq_len q - 1"
  by (auto simp: pq_items_def items_of_def pq_inv_def filled_def)

lemma create_inv [simp]: "pq_inv cmp (gw_prioqueue_create junk)"
  by (simp add: gw_prioqueue_create_def make_bigger_def pq_inv_def filled_def heap_at_def
      sizeof_ptr_def Let_def)

lemma create_items [simp]: "pq_items (gw_prioqueue_create junk) = {#}"
  by (simp add: gw_prioqueue_create_def make_bigger_def pq_items_def items_of_def sizeof_ptr_def Let_def)

lemma remove_correct:
  assumes C: "cmp_spec cmp" and inv: "pq_inv cmp q"
  shows "pq_items q = {#} \<Longrightarrow> gw_prioqueue_remove cmp q = Some (None, q)"
    and "pq_items q \<noteq> {#} \<Longrightarrow> \<exists>x q'. gw_prioqueue_remove cmp q = Some (Some x, q') \<and> pq_inv cmp q' \<and>
      pq_items q = pq_items q' + {#x#} \<and> (\<forall>y \<in># pq_items q. 0 \<le> cmp x y)"
proof -
  have sz: "size (pq_items q) = pq_len q - 1" using inv by (rule pq_items_size)
  show "pq_items q = {#} \<Longrightarrow> gw_prioqueue_remove cmp q = Some (None, q)"
    using sz by (simp add: gw_prioqueue_remove_def)
  assume "pq_items q \<noteq> {#}"
  then have l: "1 < pq_len q" using sz by (cases "pq_items q") auto
  obtain x q' where *: "take_top cmp q = Some (Some x, q')" "pq_inv cmp q'" "pq_tab q ! 1 = Some x"
      "pq_items q = pq_items q' + {#x#}"
    using take_top_correct [OF C inv l] by blast
  have "gw_prioqueue_remove cmp q = Some (Some x, q')" using l *(1) by (simp add: gw_prioqueue_remove_def)
  moreover have "\<forall>y \<in># pq_items q. 0 \<le> cmp x y" using top_is_max [OF C inv] *(3) by simp
  ultimately show "\<exists>x q'. gw_prioqueue_remove cmp q = Some (Some x, q') \<and> pq_inv cmp q' \<and>
      pq_items q = pq_items q' + {#x#} \<and> (\<forall>y \<in># pq_items q. 0 \<le> cmp x y)"
    using * by blast
qed

section \<open>The contract of a priority queue\<close>

fun insert_all :: "('q \<Rightarrow> 'a \<Rightarrow> 'q option) \<Rightarrow> 'q \<Rightarrow> 'a list \<Rightarrow> 'q option" where
  "insert_all ins q [] = Some q"
| "insert_all ins q (x # xs) = do { q' \<leftarrow> ins q x; insert_all ins q' xs }"

locale max_queue =
  fixes ins :: "'q \<Rightarrow> 'a \<Rightarrow> 'q option"
    and rem :: "'q \<Rightarrow> ('a option \<times> 'q) option"
    and ge :: "'a \<Rightarrow> 'a \<Rightarrow> bool"
    and invar :: "'q \<Rightarrow> bool"
    and items :: "'q \<Rightarrow> 'a multiset"
  assumes ins_law: "invar q \<Longrightarrow> \<exists>q'. ins q x = Some q' \<and> invar q' \<and> items q' = items q + {#x#}"
    and rem_empty: "invar q \<Longrightarrow> items q = {#} \<Longrightarrow> \<exists>q'. rem q = Some (None, q')"
    and rem_law: "invar q \<Longrightarrow> items q \<noteq> {#} \<Longrightarrow>
      \<exists>x q'. rem q = Some (Some x, q') \<and> invar q' \<and> items q = items q' + {#x#} \<and>
        (\<forall>y \<in># items q. ge x y)"
begin

lemma insert_all_items:
  "invar q \<Longrightarrow> \<exists>q'. insert_all ins q xs = Some q' \<and> invar q' \<and> items q' = items q + mset xs"
proof (induction xs arbitrary: q)
  case Nil
  then show ?case by simp
next
  case (Cons x xs)
  obtain q1 where q1: "ins q x = Some q1" "invar q1" "items q1 = items q + {#x#}"
    using ins_law [OF Cons.prems] by blast
  from Cons.IH [OF q1(2)] q1 show ?case by auto
qed

lemma drain_sorted:
  "invar q \<Longrightarrow> size (items q) < fuel \<Longrightarrow>
     \<exists>xs. drain_queue rem fuel q = Some xs \<and> mset xs = items q \<and> sorted_wrt ge xs"
proof (induction fuel arbitrary: q)
  case 0
  then show ?case by simp
next
  case (Suc fuel)
  show ?case
  proof (cases "items q = {#}")
    case True
    with rem_empty [OF Suc.prems(1)] show ?thesis by auto
  next
    case False
    then obtain x q' where x: "rem q = Some (Some x, q')" "invar q'" "items q = items q' + {#x#}"
        "\<forall>y \<in># items q. ge x y"
      using rem_law [OF Suc.prems(1)] by blast
    with Suc.prems(2) have "size (items q') < fuel" by simp
    then obtain xs where "drain_queue rem fuel q' = Some xs" "mset xs = items q'" "sorted_wrt ge xs"
      using Suc.IH [OF x(2)] by blast
    moreover from this have "\<forall>y \<in> set xs. ge x y" using x(3,4) by (metis set_mset_mset union_iff)
    ultimately show ?thesis using x by simp
  qed
qed

end

lemma prioqueue_is_max_queue:
  assumes C: "cmp_spec cmp"
  shows "max_queue (gw_prioqueue_insert junk cmp) (gw_prioqueue_remove cmp) (\<lambda>x y. 0 \<le> cmp x y)
    (pq_inv cmp) pq_items"
proof
  fix q :: "'a prioqueue" and x
  assume inv: "pq_inv cmp q"
  show "\<exists>q'. gw_prioqueue_insert junk cmp q x = Some q' \<and> pq_inv cmp q' \<and> pq_items q' = pq_items q + {#x#}"
    using insert_correct [OF C inv, of junk x] by blast
  show "pq_items q = {#} \<Longrightarrow> \<exists>q'. gw_prioqueue_remove cmp q = Some (None, q')"
    using remove_correct(1) [OF C inv] by blast
  show "pq_items q \<noteq> {#} \<Longrightarrow> \<exists>x q'. gw_prioqueue_remove cmp q = Some (Some x, q') \<and> pq_inv cmp q' \<and>
      pq_items q = pq_items q' + {#x#} \<and> (\<forall>y \<in># pq_items q. 0 \<le> cmp x y)"
    by (rule remove_correct(2) [OF C inv])
qed

lemma cmp_int_spec [simp]: "cmp_spec (\<lambda>a b. a - b :: int)"
  by (simp add: cmp_spec_def)

interpretation pq: max_queue "gw_prioqueue_insert None (\<lambda>a b. a - b :: int)"
  "gw_prioqueue_remove (\<lambda>a b. a - b)" "\<lambda>x y. 0 \<le> x - y" "pq_inv (\<lambda>a b. a - b)" pq_items
  by (rule prioqueue_is_max_queue) simp

section \<open>Properties\<close>

text \<open>
  Insertion.  On every well-formed queue \<^verbatim>\<open>gw_prioqueue_insert\<close> comes back (the sift-up loop
  stops, all array accesses are in bounds, also when the array has to grow), keeps the heap
  invariant, adds exactly the new item and adds one to the length.
\<close>

theorem prioqueue_insert_ok:
  assumes "cmp_spec cmp" and "pq_inv cmp q"
  shows "\<exists>q'. gw_prioqueue_insert junk cmp q item = Some q' \<and> pq_inv cmp q' \<and>
     pq_items q' = pq_items q + {#item#} \<and> gw_prioqueue_len q' = gw_prioqueue_len q + 1"
  using insert_correct [OF assms, of junk item] by (auto simp: gw_prioqueue_len_def)

theorem prioqueue_insert_ok_witness:
  "pq_inv (\<lambda>a b. a - b) (gw_prioqueue_create None :: int prioqueue) \<and>
   (\<exists>q'. gw_prioqueue_insert None (\<lambda>a b. a - b) (gw_prioqueue_create None) (7::int) = Some q' \<and>
      pq_items q' = {#7#} \<and> gw_prioqueue_len q' = 1)"
proof -
  have l: "gw_prioqueue_len (gw_prioqueue_create None :: int prioqueue) = 0"
    by (simp add: gw_prioqueue_len_def gw_prioqueue_create_def make_bigger_def sizeof_ptr_def)
  show ?thesis
    using prioqueue_insert_ok [OF cmp_int_spec create_inv, of None None 7] by (auto simp: l)
qed

text \<open>
  Removal.  \<^verbatim>\<open>gw_prioqueue_remove\<close> answers null exactly on an empty queue; otherwise it returns
  an item that no stored item outranks, removes just that item and keeps the heap invariant,
  although the sift-down loop may compare with the stale cell behind the end; it is the item
  \<^verbatim>\<open>gw_prioqueue_get\<close> shows, and \<^verbatim>\<open>gw_prioqueue_consume\<close> takes the same without waiting.
\<close>

theorem prioqueue_remove_max:
  assumes "cmp_spec cmp" and "pq_inv cmp q"
  shows "(pq_items q = {#} \<and> gw_prioqueue_remove cmp q = Some (None, q) \<and> gw_prioqueue_get q = None) \<or>
     (\<exists>x q'. gw_prioqueue_remove cmp q = Some (Some x, q') \<and> gw_prioqueue_get q = Some x \<and>
        gw_prioqueue_consume cmp q = Some (Returns (Some x, q')) \<and> pq_inv cmp q' \<and>
        pq_items q = pq_items q' + {#x#} \<and> (\<forall>y \<in># pq_items q. cmp y x \<le> 0))"
proof (cases "pq_items q = {#}")
  case True
  with pq_items_size [OF assms(2)] remove_correct(1) [OF assms] show ?thesis
    by (simp add: gw_prioqueue_get_def)
next
  case False
  then have l: "1 < pq_len q" using pq_items_size [OF assms(2)] by (cases "pq_items q") auto
  obtain x q' where *: "take_top cmp q = Some (Some x, q')" "pq_inv cmp q'" "pq_tab q ! 1 = Some x"
      "pq_items q = pq_items q' + {#x#}"
    using take_top_correct [OF assms l] by blast
  have "1 < length (pq_tab q)" using assms(2) l by (simp add: pq_inv_def filled_def)
  then have "gw_prioqueue_get q = Some x" using l * by (simp add: gw_prioqueue_get_def cell_def)
  moreover have "\<forall>y \<in># pq_items q. cmp y x \<le> 0"
    using top_is_max [OF assms] assms(1) *(3) by (simp add: cmp_spec_def)
  ultimately show ?thesis
    using * l by (simp add: gw_prioqueue_remove_def gw_prioqueue_consume_def)
qed

theorem prioqueue_remove_max_witness:
  "\<exists>q. insert_all (gw_prioqueue_insert None (\<lambda>a b. a - b)) (gw_prioqueue_create None) [3, 9, 5 :: int] = Some q \<and>
     pq_inv (\<lambda>a b. a - b) q \<and> (\<exists>q'. gw_prioqueue_remove (\<lambda>a b. a - b) q = Some (Some 9, q'))"
proof -
  obtain q where q: "insert_all (gw_prioqueue_insert None (\<lambda>a b. a - b)) (gw_prioqueue_create None)
      [3, 9, 5 :: int] = Some q" "pq_inv (\<lambda>a b. a - b) q" "pq_items q = {#3, 9, 5#}"
    using pq.insert_all_items [OF create_inv, of None "[3, 9, 5]"] by auto
  from prioqueue_remove_max [OF cmp_int_spec q(2)] q(3)
  obtain x q' where r: "gw_prioqueue_remove (\<lambda>a b. a - b) q = Some (Some x, q')"
      "pq_items q = pq_items q' + {#x#}" "\<forall>y \<in># pq_items q. y - x \<le> 0"
    by (metis add_mset_not_empty)
  have "x \<in># pq_items q" unfolding r(2) by simp
  then have "x = 3 \<or> x = 9 \<or> x = 5" by (auto simp: q(3))
  moreover have "9 - x \<le> 0" using r(3) by (simp add: q(3))
  ultimately have "x = 9" by linarith
  with q r show ?thesis by blast
qed

text \<open>
  Destruction.  \<^verbatim>\<open>gw_prioqueue_destroy\<close> terminates on a queue filled by any sequence of
  insertions and hands every inserted item to the destructor exactly once, in descending priority.
\<close>

theorem prioqueue_destroy_sorts:
  assumes C: "cmp_spec cmp"
  shows "\<exists>q ys. insert_all (gw_prioqueue_insert junk cmp) (gw_prioqueue_create junk) xs = Some q \<and>
     gw_prioqueue_destroy cmp q = Some ys \<and> mset ys = mset xs \<and> sorted_wrt (\<lambda>a b. 0 \<le> cmp a b) ys"
proof -
  note Q = prioqueue_is_max_queue [OF C, of junk]
  obtain q where q: "insert_all (gw_prioqueue_insert junk cmp) (gw_prioqueue_create junk) xs = Some q"
      "pq_inv cmp q" "pq_items q = mset xs"
    using max_queue.insert_all_items [OF Q create_inv, of junk xs] by auto
  have "size (pq_items q) < Suc (pq_len q)" using pq_items_size [OF q(2)] by simp
  from max_queue.drain_sorted [OF Q q(2) this] q show ?thesis
    by (auto simp: gw_prioqueue_destroy_def)
qed

theorem prioqueue_destroy_sorts_witness:
  "cmp_spec (\<lambda>a b. a - b :: int) \<and>
   (\<exists>q ys. insert_all (gw_prioqueue_insert None (\<lambda>a b. a - b)) (gw_prioqueue_create None) [2, 8 :: int] = Some q \<and>
     gw_prioqueue_destroy (\<lambda>a b. a - b) q = Some ys \<and> mset ys = {#2, 8#} \<and> sorted_wrt (\<lambda>a b. 0 \<le> a - b) ys)"
  using prioqueue_destroy_sorts [OF cmp_int_spec, of None "[2, 8]"] cmp_int_spec by simp

end
