(* ===== verification/Cfg.thy ===== *)
theory Cfg
  imports Prelude "HOL-Library.AList"
begin

text \<open>
  \<^verbatim>\<open>gwlib/cfg.c\<close> and \<^verbatim>\<open>gwlib/cfg.def\<close>: reading the configuration file into groups of variables, and the
  lookups in a group.  The dictionaries of a group and of the configuration are association lists
  with one entry per key (theory Dict shows that \<^verbatim>\<open>gwlib/dict.c\<close> implements a finite map; a null
  value is never stored here).  A result \<open>None\<close> of a lookup is a \<^verbatim>\<open>panic\<close>; a null
  pointer inside a result is again \<open>None\<close>.
\<close>

section \<open>The table of groups\<close>

datatype group_def = SINGLE_GROUP octstr "octstr list" | MULTI_GROUP octstr "octstr list"

definition cfg_def :: "group_def list" where
  "cfg_def = [
    SINGLE_GROUP ''core''
      [''dndcheck_flag'', ''admin-port'', ''admin-password'', ''esme-file-path'',
       ''dlr-storage'', ''log-file'', ''log-level'', ''trans-mode-port'', ''recv-mode-port'',
       ''transrecv-mode-port'', ''connect-allow-ip'', ''connect-deny-ip'',
       ''global-allow-prefix'', ''global-deny-prefix'', ''admin-interface'', ''admin-password'',
       ''status-password'', ''admin-allow-ip'', ''admin-deny-ip'', ''gsm-series'',
       ''cdma-series'', ''int-series'', ''default-series'', ''access-log'', ''dbbox-host'',
       ''dbbox-port'', ''dbbox-reconnect-delay'', ''smsc-host'', ''smsc-forward-port'',
       ''smsc-reverse-port'', ''dbdata-port'', ''smsc-reconnect-delay'',
       ''dbbox-unconnect-q-limit'', ''smsc-unconnect-q-limit'', ''dbbox-ping-delay'',
       ''dbbox-pingack-timeout'', ''dbbox-client-timeout'', ''smsc-ping-delay'',
       ''smsc-pingack-timeout'', ''smsc-client-timeout'', ''log-file-size'', ''log-interval'',
       ''access-log'', ''access-log-time'', ''access-log-format'', ''access-log-clean''],
    SINGLE_GROUP ''SMPP-Client''
      [''admin-port'', ''admin-interface'', ''admin-password'', ''status-password'',
       ''admin-deny-ip'', ''admin-allow-ip'', ''msg-retry-limit'', ''sys-info-resend-freq'',
       ''msg-resend-freq'', ''compare-esm-smscid'', ''msg-failed-log'', ''max-msg-duration'',
       ''global-q-min'', ''global-q-max''],
    MULTI_GROUP ''smpp-client''
      [''mode'', ''account-name'', ''password'', ''validfrom'', ''validto'',
       ''enquire-link-interval'', ''log-file'', ''log-level'', ''account-allow-prefix'',
       ''account-deny-prefix'', ''preferred-smsc'', ''dedicated-smsc'', ''rx-allowed'',
       ''max-submits-unconnect'', ''max-submits'', ''max-tps'', ''dnd-check'', ''rx-log-file'',
       ''max-tx-sessions'', ''max-rx-sessions'', ''valid_time_from'', ''valid_time_to''],
    MULTI_GROUP ''smsc''
      [''smsc'', ''smsc-id'', ''smsc-type'', ''allowed-prefix'', ''denied-prefix'', ''log-file'',
       ''log-level'', ''our-host'', ''alt-dcs'', ''alt-charset'', ''host'', ''port'',
       ''smsc-username'', ''smsc-password'', ''validityperiod'', ''our-port'', ''receive-port'',
       ''connect-allow-ip'', ''system-id'', ''system-type'', ''address-range'', ''wait-ack'',
       ''wait-ack-expire'', ''source-addr-ton'', ''source-addr-npi'', ''dest-addr-ton'',
       ''dest-addr-npi'', ''bind-addr-ton'', ''bind-addr-npi'', ''service-type'',
       ''source-addr-autodetect'', ''enquire-link-interval'', ''max-pending-submits'',
       ''reconnect-delay'', ''transceiver-mode'', ''interface-version'', ''priority'',
       ''msg-id-type'', ''connection-timeout'', ''allowed-prefix-regex'',
       ''denied-prefix-regex'', ''alt-addr-charset'', ''masking-prefix'', ''tx-smsc-id'',
       ''deliver-sm-source'', ''max-q-len''],
    SINGLE_GROUP ''testsmsc''
      [''smsc'', ''smsc-id'', ''log-file'', ''log-level'', ''host'', ''port'', ''smsc-username'',
       ''smsc-password'', ''receive-port'', ''system-type'', ''address-range'',
       ''source-addr-ton'', ''source-addr-npi'', ''dest-addr-ton'', ''dest-addr-npi'',
       ''service-type'', ''enquire-link-interval'', ''transceiver-mode'', ''interface-version'',
       ''input-file'', ''global-sender'', ''global-receiver'', ''core-file'', ''max-messages'',
       ''global-text''],
    MULTI_GROUP ''mysql-connection''
      [''id'', ''host'', ''port'', ''username'', ''password'', ''database'', ''socket'',
       ''max-connections''],
    SINGLE_GROUP ''dlr-db''
      [''id'', ''table'', ''field-EsmeAccountName'', ''field-EsmeMsgId'', ''field-SmscId'',
       ''field-SmscMsgId'', ''field-DatetimeSubmit''],
    SINGLE_GROUP ''dlr-db-mis''
      [''id'', ''table'', ''field-EsmeAccountName'', ''field-EsmeMsgId'', ''field-SmscId'',
       ''field-SmscMsgId'', ''field-SubmitStat'', ''field-DatetimeRecv'',
       ''field-DatetimeSubmit'', ''field-SourceAddr'', ''field-DestAddr'', ''field-MsgContent'',
       ''field-UDH'', ''field-RetryValue'', ''field-client-ip''],
    SINGLE_GROUP ''dlr-db-status''
      [''id'', ''table'', ''field-SmscId'', ''field-SmscMsgId'', ''field-DestAddr'',
       ''field-DelieverStat'', ''field-DatetimeDeliver''],
    SINGLE_GROUP ''dlr-db-smpp-esme''
      [''id'', ''table'', ''field-EsmeAccountName'', ''field-EsmeMsgId'', ''field-SubmitStat'',
       ''field-DatetimeRecv'', ''field-SourceAddr'', ''field-DestAddr'', ''field-MsgContent'',
       ''field-UDH'', ''field-RetryValue'', ''allowed_smsc'', ''field-dnd-flag'',
       ''preferred_smsc'', ''field-data-coding'', ''field-esm-class'',
       ''field-more-messages-to-send'']]"

fun core_is_allowed_in_group :: "octstr_ops \<Rightarrow> group_def list \<Rightarrow> octstr \<Rightarrow> octstr \<Rightarrow> int" where
  "core_is_allowed_in_group X [] grpname variable = 0"
| "core_is_allowed_in_group X (SINGLE_GROUP name vars # defs) grpname variable =
     (if octstr_compare X name grpname = 0
      then if octstr_compare X ''group'' variable = 0 then 1
           else if list_ex (\<lambda>f. octstr_compare X f variable = 0) vars then 1 else 0
      else core_is_allowed_in_group X defs grpname variable)"
| "core_is_allowed_in_group X (MULTI_GROUP name vars # defs) grpname variable =
     (if octstr_compare X name grpname = 0
      then if octstr_compare X ''group'' variable = 0 then 1
           else if list_ex (\<lambda>f. octstr_compare X f variable = 0) vars then 1 else 0
      else core_is_allowed_in_group X defs grpname variable)"

fun core_is_single_group :: "octstr_ops \<Rightarrow> group_def list \<Rightarrow> octstr \<Rightarrow> int" where
  "core_is_single_group X [] query = 0"
| "core_is_single_group X (SINGLE_GROUP name vars # defs) query =
     (if octstr_compare X name query = 0 then 1 else core_is_single_group X defs query)"
| "core_is_single_group X (MULTI_GROUP name vars # defs) query =
     (if octstr_compare X name query = 0 then 0 else core_is_single_group X defs query)"

record cfg_hooks =
  allowed_hooks :: "(octstr \<Rightarrow> octstr \<Rightarrow> int) list"
  single_hooks :: "(octstr \<Rightarrow> int) list"

text \<open>The hook lists that \<^verbatim>\<open>cfg_create\<close> sets up, and the addition of a module's own hooks.\<close>

definition core_hooks :: "octstr_ops \<Rightarrow> cfg_hooks" where
  "core_hooks X = \<lparr> allowed_hooks = [core_is_allowed_in_group X cfg_def],
     single_hooks = [core_is_single_group X cfg_def] \<rparr>"

definition cfg_add_hooks ::
    "cfg_hooks \<Rightarrow> (octstr \<Rightarrow> octstr \<Rightarrow> int) \<Rightarrow> (octstr \<Rightarrow> int) \<Rightarrow> cfg_hooks" where
  "cfg_add_hooks H allowed single =
     \<lparr> allowed_hooks = allowed_hooks H @ [allowed], single_hooks = single_hooks H @ [single] \<rparr>"

definition is_allowed_in_group :: "cfg_hooks \<Rightarrow> octstr \<Rightarrow> octstr \<Rightarrow> bool" where
  "is_allowed_in_group H grpname variable \<longleftrightarrow> sum_list (map (\<lambda>h. h grpname variable) (allowed_hooks H)) > 0"

definition is_single_group :: "cfg_hooks \<Rightarrow> octstr \<Rightarrow> bool" where
  "is_single_group H query \<longleftrightarrow> sum_list (map (\<lambda>h. h query) (single_hooks H)) > 0"

section \<open>Groups and lookups\<close>

record cfg_group =
  grp_name :: "octstr option"
  grp_vars :: "(octstr \<times> octstr) list"
  grp_configfile :: "octstr option"

definition create_group :: cfg_group where
  "create_group = \<lparr> grp_name = None, grp_vars = [], grp_configfile = None \<rparr>"

definition set_group_name :: "cfg_group \<Rightarrow> octstr \<Rightarrow> cfg_group" where
  "set_group_name grp name = grp\<lparr>grp_name := Some name\<rparr>"

text \<open>
  What the lookups call outside the repository, the number parser, the case-insensitive comparison
  and the splitting into words, beside the hooks in force.
\<close>

record cfg_env =
  cfg_hook_lists :: cfg_hooks
  octstr_parse_long :: "octstr \<Rightarrow> int option"
  octstr_case_compare :: "octstr \<Rightarrow> octstr \<Rightarrow> int"
  octstr_split_words :: "octstr \<Rightarrow> octstr list"

definition cfg_get :: "'z cfg_env_scheme \<Rightarrow> cfg_group \<Rightarrow> octstr \<Rightarrow> octstr option option" where
  "cfg_get E grp varname =
     (case grp_name grp of
        None \<Rightarrow> Some (map_of (grp_vars grp) varname)
      | Some name \<Rightarrow>
          (if \<not> is_allowed_in_group (cfg_hook_lists E) name varname then None
           else Some (map_of (grp_vars grp) varname)))"

definition cfg_get_integer :: "'z cfg_env_scheme \<Rightarrow> cfg_group \<Rightarrow> octstr \<Rightarrow> int option option" where
  "cfg_get_integer E grp varname = do {
     os \<leftarrow> cfg_get E grp varname;
     Some (case os of None \<Rightarrow> None | Some s \<Rightarrow> octstr_parse_long E s) }"

definition cfg_get_bool :: "'z cfg_env_scheme \<Rightarrow> cfg_group \<Rightarrow> octstr \<Rightarrow> int option" where
  "cfg_get_bool E grp varname = do {
     os \<leftarrow> cfg_get E grp varname;
     Some (case os of None \<Rightarrow> 0
       | Some s \<Rightarrow>
           (if octstr_case_compare E s ''true'' = 0 \<or> octstr_case_compare E s ''yes'' = 0
               \<or> octstr_case_compare E s ''on'' = 0 \<or> octstr_case_compare E s ''1'' = 0 then 1
            else if octstr_case_compare E s ''false'' = 0 \<or> octstr_case_compare E s ''no'' = 0
               \<or> octstr_case_compare E s ''off'' = 0 \<or> octstr_case_compare E s ''0'' = 0 then 0
            else 1)) }"

definition cfg_get_list :: "'z cfg_env_scheme \<Rightarrow> cfg_group \<Rightarrow> octstr \<Rightarrow> octstr list option option" where
  "cfg_get_list E grp varname = do {
     os \<leftarrow> cfg_get E grp varname;
     Some (map_option (octstr_split_words E) os) }"

definition cfg_set :: "cfg_group \<Rightarrow> octstr \<Rightarrow> octstr \<Rightarrow> cfg_group" where
  "cfg_set grp varname value = grp\<lparr>grp_vars := AList.update varname value (grp_vars grp)\<rparr>"

section \<open>The configuration\<close>

record cfg =
  cfg_filename :: octstr
  single_groups :: "(octstr \<times> cfg_group) list"
  multi_groups :: "(octstr \<times> cfg_group list) list"

definition cfg_create :: "octstr \<Rightarrow> cfg" where
  "cfg_create filename = \<lparr> cfg_filename = filename, single_groups = [], multi_groups = [] \<rparr>"

text \<open>
  \<^verbatim>\<open>add_group\<close> returns -1 and leaves the configuration as it was, or returns 0 and the
  configuration with the group; the keys are read in the order the dictionary lists them.
\<close>

definition add_group :: "'z cfg_env_scheme \<Rightarrow> cfg \<Rightarrow> cfg_group \<Rightarrow> (int \<times> cfg) option" where
  "add_group E c grp = do {
     groupname \<leftarrow> cfg_get E grp ''group'';
     (case groupname of
        None \<Rightarrow> Some (-1, c)
      | Some gname \<Rightarrow>
          (let grp' = set_group_name grp gname
           in if list_ex (\<lambda>nm. \<not> is_allowed_in_group (cfg_hook_lists E) gname nm) (map fst (grp_vars grp'))
              then Some (-1, c)
              else if is_single_group (cfg_hook_lists E) gname
              then Some (0, c\<lparr>single_groups := AList.update gname grp' (single_groups c)\<rparr>)
              else Some (0, c\<lparr>multi_groups := AList.update gname
                     ((case map_of (multi_groups c) gname of None \<Rightarrow> [] | Some l \<Rightarrow> l) @ [grp'])
                     (multi_groups c)\<rparr>))) }"

definition cfg_get_single_group :: "cfg \<Rightarrow> octstr \<Rightarrow> cfg_group option" where
  "cfg_get_single_group c gname = map_of (single_groups c) gname"

definition cfg_get_multi_group :: "cfg \<Rightarrow> octstr \<Rightarrow> cfg_group list option" where
  "cfg_get_multi_group c gname = map_of (multi_groups c) gname"

section \<open>Parsing\<close>

text \<open>The loop of \<^verbatim>\<open>parse_value\<close> that resolves the escapes; \<open>fuel\<close> bounds its rounds.\<close>

fun unescape :: "octstr_ops \<Rightarrow> nat \<Rightarrow> octstr \<Rightarrow> octstr \<Rightarrow> octstr option" where
  "unescape X 0 temp value = (if length temp > 0 then None else Some value)"
| "unescape X (Suc fuel) temp value =
     (if \<not> length temp > 0 then Some value
      else let c = octstr_get_char X temp 0; temp1 = octstr_delete X temp 0 1
           in if c \<noteq> 92 \<or> length temp1 = 0
              then unescape X fuel temp1 (octstr_append_char X value c)
              else let d = octstr_get_char X temp1 0; temp2 = octstr_delete X temp1 0 1
                   in if d = 92 \<or> d = 34
                      then unescape X fuel temp2 (octstr_append_char X value d)
                      else unescape X fuel temp2
                             (octstr_append_char X (octstr_append_char X value 92) d))"

definition parse_value :: "octstr_ops \<Rightarrow> octstr \<Rightarrow> octstr option" where
  "parse_value X value =
     (let value1 = octstr_strip_blanks X value; len = length value1
      in if octstr_get_char X value1 0 \<noteq> 34 \<or> octstr_get_char X value1 (len - 1) \<noteq> 34
         then Some value1
         else let value2 = octstr_delete X value1 (len - 1) 1;
                  value3 = octstr_delete X value2 0 1
              in unescape X (length value3) value3 [])"

record cfgloc =
  loc_filename :: octstr
  line_no :: int
  loc_line :: octstr

text \<open>
  \<^verbatim>\<open>expand_file\<close> puts the locations of a file at the end of the list or, for an included file,
  at its front; the location being filled, when there is one, is the one added last.
\<close>

definition add_loc :: "bool \<Rightarrow> cfgloc list \<Rightarrow> cfgloc \<Rightarrow> cfgloc list" where
  "add_loc forward expand loc = (if forward then expand @ [loc] else loc # expand)"

definition append_to_loc :: "octstr_ops \<Rightarrow> bool \<Rightarrow> cfgloc list \<Rightarrow> octstr \<Rightarrow> cfgloc list" where
  "append_to_loc X forward expand line =
     (let i = (if forward then length expand - 1 else 0)
      in expand[i := (expand ! i)\<lparr>loc_line := octstr_append X (loc_line (expand ! i)) line\<rparr>])"

fun expand_lines ::
    "octstr_ops \<Rightarrow> octstr \<Rightarrow> bool \<Rightarrow> octstr list \<Rightarrow> bool \<Rightarrow> int \<Rightarrow> cfgloc list \<Rightarrow> int \<times> cfgloc list" where
  "expand_lines X file forward [] loc_open lineno expand = (lineno, expand)"
| "expand_lines X file forward (line # lines) loc_open lineno expand =
     (let lineno1 = (if loc_open then lineno else lineno + 1);
          expand1 = (if loc_open then expand
                     else add_loc forward expand
                       \<lparr> loc_filename = file, line_no = lineno1, loc_line = [] \<rparr>)
      in if octstr_get_char X line (length line - 1) = 92
         then let line1 = octstr_delete X line (length line - 1) 1
              in expand_lines X file forward lines
                   (octstr_get_char X line1 (length line1 - 1) \<noteq> 92) lineno1
                   (append_to_loc X forward expand1 line1)
         else expand_lines X file forward lines False lineno1 (append_to_loc X forward expand1 line))"

text \<open>
  The file system: the contents of a file, whether a name is a directory, and the names of the
  entries of a directory in the order of \<^verbatim>\<open>readdir\<close>.
\<close>

record filesystem =
  octstr_read_file :: "octstr \<Rightarrow> octstr option"
  is_dir :: "octstr \<Rightarrow> bool"
  dir_entries :: "octstr \<Rightarrow> octstr list"

definition expand_file :: "octstr_ops \<Rightarrow> filesystem \<Rightarrow> octstr \<Rightarrow> bool \<Rightarrow> cfgloc list option" where
  "expand_file X F file forward =
     (case octstr_read_file F file of
        None \<Rightarrow> None
      | Some os \<Rightarrow>
          (case expand_lines X file forward (octstr_split X os [CHR 0x0A]) False 0 [] of
             (lineno, expand) \<Rightarrow>
               Some (if lineno > 0
                     then add_loc forward expand
                       \<lparr> loc_filename = file, line_no = lineno, loc_line = [CHR 0x0A] \<rparr>
                     else expand)))"

text \<open>The files an \<^verbatim>\<open>include\<close> line stands for: inserted one by one at the front of the list.\<close>

definition include_files :: "octstr_ops \<Rightarrow> filesystem \<Rightarrow> octstr \<Rightarrow> octstr list" where
  "include_files X F filename =
     (if is_dir F filename
      then rev (filter (\<lambda>f. \<not> is_dir F f)
             (map (\<lambda>d. octstr_append X (octstr_append X filename ''/'') d) (dir_entries F filename)))
      else [filename])"

fun include_all :: "octstr_ops \<Rightarrow> filesystem \<Rightarrow> octstr list \<Rightarrow> cfgloc list \<Rightarrow> octstr list \<Rightarrow>
    (cfgloc list \<times> octstr list) option" where
  "include_all X F [] lines stack = Some (lines, stack)"
| "include_all X F (file # files) lines stack =
     (case expand_file X F file False of
        None \<Rightarrow> None
      | Some expand \<Rightarrow> include_all X F files (rev expand @ lines) (file # stack))"

record read_state =
  rd_cfg :: cfg
  rd_grp :: "cfg_group option"
  rd_lines :: "cfgloc list"
  rd_stack :: "octstr list"
  error_lineno :: int

text \<open>One line of the main loop of \<^verbatim>\<open>cfg_read\<close>; \<open>None\<close> is a panic.\<close>

definition read_line ::
    "'z cfg_env_scheme \<Rightarrow> octstr_ops \<Rightarrow> octstr gwlist_ops \<Rightarrow> filesystem \<Rightarrow> cfgloc \<Rightarrow> read_state \<Rightarrow> read_state option" where
  "read_line E X G F loc st =
     (let line = octstr_strip_blanks X (loc_line loc)
      in if length line = 0
         then (case rd_grp st of
                 None \<Rightarrow> Some st
               | Some grp \<Rightarrow> do {
                   (r, c) \<leftarrow> add_group E (rd_cfg st) grp;
                   Some (st\<lparr>rd_cfg := c, rd_grp := None,
                     error_lineno := (if r = -1 then line_no loc else error_lineno st)\<rparr>) })
         else if octstr_get_char X line 0 = 35 then Some st
         else (case octstr_search_char X line CHR 0x3D of
                 None \<Rightarrow> Some (st\<lparr>error_lineno := line_no loc\<rparr>)
               | Some equals \<Rightarrow>
                   if octstr_search X line ''include'' \<noteq> None
                   then do {
                     filename \<leftarrow> parse_value X (octstr_copy X line (equals + 1) (length line));
                     (if gwlist_search G (rd_stack st) (\<lambda>f. octstr_item_match X f filename) \<noteq> None
                      then None
                      else do {
                        (lines, stack) \<leftarrow>
                          include_all X F (include_files X F filename) (rd_lines st) (rd_stack st);
                        Some (st\<lparr>rd_lines := lines, rd_stack := stack\<rparr>) }) }
                   else do {
                     value \<leftarrow> parse_value X (octstr_copy X line (equals + 1) (length line));
                     let nm = octstr_strip_blanks X (octstr_copy X line 0 equals);
                     let grp = (case rd_grp st of None \<Rightarrow> create_group | Some g \<Rightarrow> g);
                     Some (st\<lparr>rd_grp := Some (cfg_set
                       (grp\<lparr>grp_configfile := Some (cfg_filename (rd_cfg st))\<rparr>) nm value)\<rparr>) }))"

datatype read_result = Panic | Finished int cfg

text \<open>The main loop: \<open>None\<close> only when the fuel is used up.\<close>

fun read_lines ::
    "'z cfg_env_scheme \<Rightarrow> octstr_ops \<Rightarrow> octstr gwlist_ops \<Rightarrow> filesystem \<Rightarrow> nat \<Rightarrow> read_state \<Rightarrow> read_result option" where
  "read_lines E X G F 0 st = None"
| "read_lines E X G F (Suc fuel) st =
     (if error_lineno st \<noteq> 0 \<or> rd_lines st = []
      then (case rd_grp st of
              None \<Rightarrow> Some (Finished (if error_lineno st \<noteq> 0 then -1 else 0) (rd_cfg st))
            | Some grp \<Rightarrow>
                (case add_group E (rd_cfg st) grp of
                   None \<Rightarrow> Some Panic
                 | Some (r, c) \<Rightarrow> Some (Finished (if r = -1 \<or> error_lineno st \<noteq> 0 then -1 else 0) c)))
      else (case read_line E X G F (hd (rd_lines st)) (st\<lparr>rd_lines := tl (rd_lines st)\<rparr>) of
              None \<Rightarrow> Some Panic
            | Some st' \<Rightarrow> read_lines E X G F fuel st'))"

definition cfg_read ::
    "'z cfg_env_scheme \<Rightarrow> octstr_ops \<Rightarrow> octstr gwlist_ops \<Rightarrow> filesystem \<Rightarrow> nat \<Rightarrow> cfg \<Rightarrow> read_result option" where
  "cfg_read E X G F fuel c =
     (case expand_file X F (cfg_filename c) True of
        None \<Rightarrow> Some Panic
      | Some lines \<Rightarrow> read_lines E X G F fuel
          \<lparr> rd_cfg = c, rd_grp = None, rd_lines = lines, rd_stack = [cfg_filename c], error_lineno = 0 \<rparr>)"

section \<open>Values\<close>

text \<open>How a value is written inside quotes.\<close>

fun escape :: "octstr \<Rightarrow> octstr" where
  "escape [] = []"
| "escape (c # cs) =
     (if of_char c = (92 :: nat) \<or> of_char c = (34 :: nat) then CHR 0x5C # c # escape cs else c # escape cs)"

definition quote :: "octstr \<Rightarrow> octstr" where
  "quote s = CHR 0x22 # escape s @ [CHR 0x22]"

lemma of_char_special:
  "(of_char c :: int) = 92 \<longleftrightarrow> (of_char c :: nat) = 92" "(of_char c :: int) = 34 \<longleftrightarrow> (of_char c :: nat) = 34"
  by (simp_all add: of_char_int)

lemma unescape_escape:
  assumes X: "octstr_spec X"
  shows "length (escape s) \<le> fuel \<Longrightarrow> unescape X fuel (escape s) val = Some (val @ s)"
proof (induction s arbitrary: fuel val)
  case Nil
  then show ?case by (cases fuel) simp_all
next
  case (Cons c s)
  then obtain f where f: "fuel = Suc f" by (cases fuel) (auto split: if_splits)
  show ?case
  proof (cases "of_char c = (92 :: nat) \<or> of_char c = (34 :: nat)")
    case True
    with Cons f have "unescape X f (escape s) (val @ [c]) = Some ((val @ [c]) @ s)" by simp
    moreover have "(of_char c :: int) = 92 \<or> (of_char c :: int) = 34"
      using True by (simp add: of_char_special)
    ultimately show ?thesis
      using True f X by (auto simp: gw_simps Let_def)
  next
    case False
    with Cons f have "unescape X f (escape s) (val @ [c]) = Some ((val @ [c]) @ s)" by simp
    moreover have "(of_char c :: int) \<noteq> 92" using False by (simp add: of_char_special)
    ultimately show ?thesis
      using False f X by (simp add: gw_simps Let_def)
  qed
qed

lemma strip_id: "s \<noteq> [] \<Longrightarrow> \<not> is_blank (hd s) \<Longrightarrow> \<not> is_blank (last s) \<Longrightarrow> strip s = s"
proof -
  assume a: "s \<noteq> []" "\<not> is_blank (hd s)" "\<not> is_blank (last s)"
  then have "dropWhile is_blank s = s" by (cases s) auto
  moreover have "dropWhile is_blank (rev s) = rev s" using a by (cases "rev s") (auto simp: hd_rev [symmetric])
  ultimately show "strip s = s" by (simp add: strip_def)
qed

lemma strip_blanks_around:
  assumes "list_all is_blank a" "list_all is_blank b"
  shows "strip (a @ s @ b) = strip s"
proof -
  have "dropWhile is_blank (a @ s @ b) = dropWhile is_blank (s @ b)"
    using assms(1) by (auto simp: list_all_iff intro!: dropWhile_append2)
  moreover have "rev (dropWhile is_blank (rev (dropWhile is_blank (s @ b)))) = strip s"
  proof (cases "list_all is_blank s")
    case True
    with assms(2) have "dropWhile is_blank (s @ b) = []" "dropWhile is_blank s = []"
      by (auto simp: list_all_iff dropWhile_eq_Nil_conv)
    then show ?thesis by (simp only: strip_def)
  next
    case False
    then have "dropWhile is_blank (s @ b) = dropWhile is_blank s @ b"
      by (auto simp: list_all_iff dropWhile_append1)
    moreover have "dropWhile is_blank (rev b @ r) = dropWhile is_blank r" for r
      using assms(2) by (auto simp: list_all_iff intro!: dropWhile_append2)
    ultimately show ?thesis by (simp add: strip_def)
  qed
  ultimately show ?thesis by (simp add: strip_def)
qed

lemma parse_value_quote:
  assumes X: "octstr_spec X" and b: "list_all is_blank a" "list_all is_blank b"
  shows "parse_value X (a @ quote s @ b) = Some s"
proof -
  have n: "\<not> is_blank CHR 0x22" by (simp add: is_blank_def)
  have "strip (quote s) = quote s"
    by (rule strip_id) (simp_all add: quote_def n)
  then have "octstr_strip_blanks X (a @ quote s @ b) = quote s"
    by (simp add: octstr_strip_blanks_spec [OF X] strip_blanks_around [OF b])
  then show ?thesis
    using X unescape_escape [OF X, of s "length (escape s)" "[]"]
    by (simp add: parse_value_def Let_def quote_def gw_simps nth_append)
qed

section \<open>Reading a group\<close>

text \<open>
  A group as it is written in a file: one line per variable, the value quoted.  A name is plain
  when it is not empty, starts and ends with no blank, does not start a comment and holds no equals
  sign.
\<close>

definition var_line :: "octstr \<times> octstr \<Rightarrow> octstr" where
  "var_line kv = fst kv @ '' = '' @ quote (snd kv)"

definition plain_name :: "octstr \<Rightarrow> bool" where
  "plain_name k \<longleftrightarrow> k \<noteq> [] \<and> \<not> is_blank (hd k) \<and> \<not> is_blank (last k) \<and> hd k \<noteq> CHR 0x23 \<and> CHR 0x3D \<notin> set k"

lemma read_line_var:
  assumes X: "octstr_spec X" and k: "plain_name k" and l: "loc_line loc = var_line (k, v)"
    and inc: "octstr_search X (var_line (k, v)) ''include'' = None"
  shows "read_line E X G F loc st = Some (st\<lparr>rd_grp := Some (cfg_set
    ((case rd_grp st of None \<Rightarrow> create_group | Some g \<Rightarrow> g)\<lparr>grp_configfile := Some (cfg_filename (rd_cfg st))\<rparr>)
    k v)\<rparr>)"
proof -
  let ?l = "var_line (k, v)"
  have n: "\<not> is_blank CHR 0x22" by (simp add: is_blank_def)
  have ne: "?l \<noteq> []" "hd ?l = hd k" "last ?l = CHR 0x22"
    using k by (auto simp: var_line_def quote_def plain_name_def)
  with k n have s: "strip ?l = ?l" by (intro strip_id) (auto simp: plain_name_def)
  have eq: "first_pos (\<lambda>d. d = CHR 0x3D) ?l = Some (length k + 1)"
    using first_pos_append [of "k @ '' ''" "\<lambda>d. d = CHR 0x3D" "CHR 0x3D" "'' '' @ quote v"] k
    by (auto simp: var_line_def plain_name_def)
  have hash: "octstr_get_char X ?l 0 \<noteq> 35"
    using ne k X of_char_eq_iff [where 'a = int, of "hd k" "CHR 0x23"]
    by (auto simp: gw_simps plain_name_def hd_conv_nth simp flip: ne(2))
  have val: "parse_value X (octstr_copy X ?l (length k + 1 + 1) (length ?l)) = Some v"
    using parse_value_quote [OF X, of "'' ''" "[]" v] X
    by (simp add: gw_simps var_line_def is_blank_def)
  have nm: "octstr_strip_blanks X (octstr_copy X ?l 0 (length k + 1)) = k"
    using strip_blanks_around [of "[]" "'' ''" k] strip_id [of k] k X
    by (simp add: gw_simps var_line_def is_blank_def plain_name_def)
  show ?thesis
    using X ne(1) hash inc val nm
    by (simp add: read_line_def l gw_simps s eq Let_def)
qed


text \<open>The variables as the lines set them, one after the other.\<close>

definition set_vars :: "octstr \<Rightarrow> (octstr \<times> octstr) list \<Rightarrow> cfg_group option \<Rightarrow> cfg_group option" where
  "set_vars file kvs g = foldl (\<lambda>g (k, v). Some (cfg_set
     ((case g of None \<Rightarrow> create_group | Some g' \<Rightarrow> g')\<lparr>grp_configfile := Some file\<rparr>) k v)) g kvs"

lemma read_lines_vars:
  assumes X: "octstr_spec X"
  shows "map loc_line locs = map var_line kvs \<Longrightarrow> \<forall>kv \<in> set kvs. plain_name (fst kv) \<and>
      octstr_search X (var_line kv) ''include'' = None \<Longrightarrow>
    read_lines E X G F (length kvs + fuel)
      \<lparr> rd_cfg = c, rd_grp = g, rd_lines = locs @ rest, rd_stack = stack, error_lineno = 0 \<rparr> =
    read_lines E X G F fuel
      \<lparr> rd_cfg = c, rd_grp = set_vars (cfg_filename c) kvs g, rd_lines = rest, rd_stack = stack, error_lineno = 0 \<rparr>"
proof (induction kvs arbitrary: locs g)
  case Nil
  then show ?case by (simp add: set_vars_def)
next
  case (Cons kv kvs)
  obtain k v where kv: "kv = (k, v)" by fastforce
  from Cons.prems(1) obtain l ls where l: "locs = l # ls" "loc_line l = var_line (k, v)"
    "map loc_line ls = map var_line kvs"
    by (auto simp: kv)
  have k: "plain_name k" and inc: "octstr_search X (var_line (k, v)) ''include'' = None"
    using Cons.prems(2) kv by auto
  note step = read_line_var [OF X k l(2) inc]
  show ?case
    using Cons.IH [OF l(3)] Cons.prems(2)
    by (simp add: l(1) kv step set_vars_def)
qed

text \<open>
  A group written line by line, every value quoted, and closed by an empty line is read back:
  the values with all their quotes and backslashes, a later line for the same name replacing the
  earlier one, and the group goes through \<^verbatim>\<open>add_group\<close>; the read then goes on with what follows.
  A line that contains the word \<^verbatim>\<open>include\<close> anywhere is excluded: \<^verbatim>\<open>cfg_read\<close> takes it for an include.
\<close>

theorem cfg_read_group:
  assumes X: "octstr_spec X" and kvs: "kvs \<noteq> []" and locs: "map loc_line locs = map var_line kvs"
    and names: "\<forall>kv \<in> set kvs. plain_name (fst kv) \<and> octstr_search X (var_line kv) ''include'' = None"
    and blank: "list_all is_blank (loc_line nl)"
    and add: "add_group E c (the (set_vars (cfg_filename c) kvs None)) = Some (0, c')"
  shows "read_lines E X G F (length kvs + Suc fuel)
      \<lparr> rd_cfg = c, rd_grp = None, rd_lines = locs @ nl # rest, rd_stack = stack, error_lineno = 0 \<rparr> =
    read_lines E X G F fuel
      \<lparr> rd_cfg = c', rd_grp = None, rd_lines = rest, rd_stack = stack, error_lineno = 0 \<rparr>
    \<and> map_of (grp_vars (the (set_vars (cfg_filename c) kvs None))) = map_of (rev kvs)"
proof
  have "\<exists>g. set_vars (cfg_filename c) kvs None = Some g"
    using kvs by (cases kvs rule: rev_cases) (auto simp: set_vars_def split: prod.splits)
  then obtain g where g: "set_vars (cfg_filename c) kvs None = Some g" ..
  have "strip (loc_line nl) = []"
    using strip_blanks_around [OF blank, of "[]" "[]"] by (simp add: strip_def)
  then show "read_lines E X G F (length kvs + Suc fuel)
      \<lparr> rd_cfg = c, rd_grp = None, rd_lines = locs @ nl # rest, rd_stack = stack, error_lineno = 0 \<rparr> =
    read_lines E X G F fuel
      \<lparr> rd_cfg = c', rd_grp = None, rd_lines = rest, rd_stack = stack, error_lineno = 0 \<rparr>"
    using add X by (simp only: read_lines_vars [OF X locs names] g)
      (simp add: read_line_def gw_simps g)
  show "map_of (grp_vars (the (set_vars (cfg_filename c) kvs None))) = map_of (rev kvs)"
    using kvs
  proof (induction kvs rule: rev_nonempty_induct)
    case (single kv)
    then show ?case by (cases kv) (simp add: set_vars_def cfg_set_def create_group_def)
  next
    case (snoc kv kvs)
    have "\<exists>g. set_vars (cfg_filename c) kvs None = Some g"
      using snoc(1) by (cases kvs rule: rev_cases) (auto simp: set_vars_def split: prod.splits)
    with snoc show ?case
      by (cases kv) (auto simp: set_vars_def cfg_set_def update_conv)
  qed
qed


definition sample_cfg_env :: cfg_env where
  "sample_cfg_env = \<lparr> cfg_hook_lists = core_hooks octstr_ref, octstr_parse_long = (\<lambda>_. None),
     octstr_case_compare = (\<lambda>a b. if a = b then 0 else 1), octstr_split_words = (\<lambda>s. [s]) \<rparr>"

lemma allowed_smsc_vars:
  "is_allowed_in_group (core_hooks octstr_ref) ''smsc'' ''group''"
  "is_allowed_in_group (core_hooks octstr_ref) ''smsc'' ''host''"
  "\<not> is_single_group (core_hooks octstr_ref) ''smsc''"
  by code_simp+

theorem cfg_read_group_witness:
  "\<forall>F. read_lines sample_cfg_env octstr_ref gwlist_ref F 4
     \<lparr> rd_cfg = cfg_create ''m'', rd_grp = None,
       rd_lines = [\<lparr> loc_filename = ''m'', line_no = 1, loc_line = var_line (''group'', ''smsc'') \<rparr>,
         \<lparr> loc_filename = ''m'', line_no = 2, loc_line = var_line (''host'', [CHR 0x22, CHR 0x5C]) \<rparr>,
         \<lparr> loc_filename = ''m'', line_no = 3, loc_line = '' '' \<rparr>],
       rd_stack = [''m''], error_lineno = 0 \<rparr>
   = Some (Finished 0 \<lparr> cfg_filename = ''m'', single_groups = [], multi_groups = [(''smsc'',
       [\<lparr> grp_name = Some ''smsc'', grp_vars = [(''group'', ''smsc''), (''host'', [CHR 0x22, CHR 0x5C])],
          grp_configfile = Some ''m'' \<rparr>])] \<rparr>)"
  (is "\<forall>F. ?P F")
proof
  fix F
  let ?kvs = "[(''group'', ''smsc''), (''host'', [CHR 0x22, CHR 0x5C])]"
  let ?g = "\<lparr> grp_name = None, grp_vars = ?kvs, grp_configfile = Some ''m'' \<rparr>"
  let ?c = "\<lparr> cfg_filename = ''m'', single_groups = [], multi_groups = [(''smsc'', [set_group_name ?g ''smsc''])] \<rparr>"
  let ?l = "\<lambda>n t. \<lparr> loc_filename = ''m'', line_no = n, loc_line = t \<rparr>"
  have g: "set_vars (cfg_filename (cfg_create ''m'')) ?kvs None = Some ?g"
    by (simp add: set_vars_def cfg_set_def create_group_def cfg_create_def)
  have add: "add_group sample_cfg_env (cfg_create ''m'') (the (set_vars (cfg_filename (cfg_create ''m'')) ?kvs None))
      = Some (0, ?c)"
    unfolding g by (simp add: add_group_def cfg_get_def sample_cfg_env_def allowed_smsc_vars
        set_group_name_def cfg_create_def)
  have names: "\<forall>kv \<in> set ?kvs. plain_name (fst kv) \<and> octstr_search octstr_ref (var_line kv) ''include'' = None"
    by code_simp
  have "read_lines sample_cfg_env octstr_ref gwlist_ref F (length ?kvs + Suc 1)
      \<lparr> rd_cfg = cfg_create ''m'', rd_grp = None,
        rd_lines = [?l 1 (var_line (''group'', ''smsc'')), ?l 2 (var_line (''host'', [CHR 0x22, CHR 0x5C]))]
          @ ?l 3 '' '' # [],
        rd_stack = [''m''], error_lineno = 0 \<rparr>
    = read_lines sample_cfg_env octstr_ref gwlist_ref F 1
        \<lparr> rd_cfg = ?c, rd_grp = None, rd_lines = [], rd_stack = [''m''], error_lineno = 0 \<rparr>"
    by (rule cfg_read_group [OF octstr_ref_spec _ _ names _ add, THEN conjunct1])
      (simp_all add: is_blank_def)
  then show "?P F" by (simp add: set_group_name_def numeral_eq_Suc)
qed

section \<open>Includes\<close>

text \<open>A directory \<^verbatim>\<open>d\<close> with one file that includes the directory, and a main file that includes it.\<close>

definition loop_line :: octstr where
  "loop_line = ''include = d''"

definition loop_files :: filesystem where
  "loop_files = \<lparr> octstr_read_file = (\<lambda>f. if f = ''m'' \<or> f = ''d/x'' then Some loop_line else None),
     is_dir = (\<lambda>f. f = ''d''), dir_entries = (\<lambda>f. if f = ''d'' then [''x''] else []) \<rparr>"

definition loop_locs :: "octstr \<Rightarrow> cfgloc list" where
  "loop_locs f = [\<lparr> loc_filename = f, line_no = 1, loc_line = loop_line \<rparr>,
     \<lparr> loc_filename = f, line_no = 1, loc_line = [CHR 0x0A] \<rparr>]"

lemma loop_expand:
  "expand_file octstr_ref loop_files ''m'' True = Some (loop_locs ''m'')"
  "expand_file octstr_ref loop_files ''d/x'' False = Some (rev (loop_locs ''d/x''))"
  by code_simp+

lemma loop_include: "include_files octstr_ref loop_files ''d'' = [''d/x'']"
  by code_simp

lemma loop_parse:
  "octstr_strip_blanks octstr_ref loop_line = loop_line"
  "octstr_get_char octstr_ref loop_line 0 = 105"
  "octstr_search_char octstr_ref loop_line CHR 0x3D = Some 8"
  "octstr_search octstr_ref loop_line ''include'' = Some 0"
  "parse_value octstr_ref (octstr_copy octstr_ref loop_line 9 (length loop_line)) = Some ''d''"
  "length loop_line = 11" "loop_line \<noteq> []"
  by code_simp+

lemma loop_step:
  assumes "''d'' \<notin> set (rd_stack st)" "loc_line loc = loop_line"
  shows "read_line E octstr_ref gwlist_ref loop_files loc st =
    Some (st\<lparr>rd_lines := loop_locs ''d/x'' @ rd_lines st, rd_stack := ''d/x'' # rd_stack st\<rparr>)"
proof -
  have "gwlist_search gwlist_ref (rd_stack st) (\<lambda>f. octstr_item_match octstr_ref f ''d'') = None"
    using assms(1) by (auto simp: gw_simps first_pos_None)
  then show ?thesis
    using loop_parse assms(2)
    by (simp add: read_line_def Let_def loop_include loop_expand)
qed

lemma loop_forever:
  assumes "error_lineno st = 0" "rd_lines st \<noteq> []" "loc_line (hd (rd_lines st)) = loop_line"
    "''d'' \<notin> set (rd_stack st)"
  shows "read_lines E octstr_ref gwlist_ref loop_files fuel st = None"
  using assms
proof (induction fuel arbitrary: st)
  case 0
  then show ?case by simp
next
  case (Suc fuel)
  let ?st = "st\<lparr>rd_lines := tl (rd_lines st)\<rparr>"
  have step: "read_line E octstr_ref gwlist_ref loop_files (hd (rd_lines st)) ?st =
      Some (?st\<lparr>rd_lines := loop_locs ''d/x'' @ rd_lines ?st, rd_stack := ''d/x'' # rd_stack ?st\<rparr>)"
    by (rule loop_step) (use Suc.prems in simp_all)
  show ?case
    using Suc.prems Suc.IH step by (simp add: loop_locs_def)
qed

text \<open>
  The check against cyclic includes compares the name on the line with the files already read,
  and an included directory is not among them: a file of a directory that includes its directory is
  read again and again, and \<^verbatim>\<open>cfg_read\<close> never returns, however much fuel the model is given.
\<close>

theorem cfg_read_directory_loop:
  "\<exists>F c. \<forall>fuel. cfg_read sample_cfg_env octstr_ref gwlist_ref F fuel c = None"
proof -
  have "cfg_read sample_cfg_env octstr_ref gwlist_ref loop_files fuel (cfg_create ''m'') = None" for fuel
    unfolding cfg_read_def
    by (simp add: cfg_create_def loop_expand) (rule loop_forever, simp_all add: loop_locs_def)
  then show ?thesis by blast
qed

end
