(* ===== verification/Accounts.thy ===== *)
theory Accounts
  imports Cfg
begin

text \<open>
  \<^verbatim>\<open>smpp-esme/config.c\<close>: the client accounts of the server, read from the \<^verbatim>\<open>smpp-client\<close> groups
  of the configuration file, with the lookups of theory Cfg.  A result \<open>None\<close> is a \<^verbatim>\<open>panic\<close>; the null pointer inside a
  result is again \<open>None\<close>.
\<close>

section \<open>Log files\<close>

text \<open>
  The lookups of theory Cfg, and the log files (their names with the time appended, the latest file
  of a name, the index a log gets when it is opened), which are outside the repository.
\<close>

record account_env = cfg_env +
  logfile_append_time :: "octstr \<Rightarrow> octstr"
  get_latst_logfile :: "octstr \<Rightarrow> octstr option"
  log_open :: "octstr \<Rightarrow> int \<Rightarrow> int"

section \<open>Accounts\<close>

record smsc_client =
  account_name :: octstr
  password :: octstr
  validfrom :: octstr
  validto :: octstr
  log_file :: "octstr option"
  rx_log_file :: "octstr option"
  allowed_prefix :: "octstr option"
  denied_prefix :: "octstr option"
  dedicated_smsc :: "octstr option"
  preferred_smsc :: "octstr list option"
  preferred_smsc_tmp :: "octstr option"
  log_level :: int
  log_idx :: int
  rx_log_idx :: int
  enquire_link_interval :: int
  max_submits_unconnect :: int
  max_submits :: int
  max_tps :: int
  rx_allowed :: int
  allowed_mode :: int
  dnds_check :: int
  max_tx_sessions :: int
  max_rx_sessions :: int
  valid_time_from :: int
  valid_time_to :: int

definition SMPP_ENQUIRE_LINK_INTERVAL :: int where
  "SMPP_ENQUIRE_LINK_INTERVAL = 30"

definition get_or :: "account_env \<Rightarrow> cfg_group \<Rightarrow> octstr \<Rightarrow> int \<Rightarrow> int option" where
  "get_or E grp varname dflt = map_option (case_option dflt id) (cfg_get_integer E grp varname)"

text \<open>Opening the log of an account: the latest file of the time-stamped name, or that name.\<close>

definition open_account_log :: "account_env \<Rightarrow> octstr \<Rightarrow> int \<Rightarrow> int" where
  "open_account_log E file level =
     (let logfile = logfile_append_time E file
      in case get_latst_logfile E logfile of
           Some templogfile \<Rightarrow> log_open E templogfile level
         | None \<Rightarrow> log_open E logfile level)"

definition account_mode :: "octstr_ops \<Rightarrow> octstr \<Rightarrow> int \<Rightarrow> int option" where
  "account_mode X mode rx =
     (if octstr_compare X mode ''tx'' = 0 \<and> rx = 1 then Some 4
      else if octstr_compare X mode ''tx'' = 0 then Some 1
      else if octstr_compare X mode ''rx'' = 0 then Some 2
      else if octstr_compare X mode ''txrx'' = 0 then Some 3
      else None)"

text \<open>
  The structure \<^verbatim>\<open>ot\<close> while \<^verbatim>\<open>create_onetrans\<close> fills it from the group, before its checks: the
  mandatory strings may still be null.
\<close>

record onetrans =
  ot_mode :: "octstr option"
  ot_account_name :: "octstr option"
  ot_password :: "octstr option"
  ot_validfrom :: "octstr option"
  ot_validto :: "octstr option"
  ot_log_file :: "octstr option"
  ot_allowed_prefix :: "octstr option"
  ot_denied_prefix :: "octstr option"
  ot_dedicated_smsc :: "octstr option"
  ot_preferred_smsc :: "octstr option"
  ot_log_level :: int
  ot_log_idx :: int
  ot_interval :: int
  ot_dnd :: int
  ot_rx_allowed :: int
  ot_unconnect :: int
  ot_submits :: int
  ot_max_tx :: int
  ot_max_rx :: int
  ot_tps :: int
  ot_time_from :: int
  ot_time_to :: int

definition read_onetrans :: "account_env \<Rightarrow> cfg_group \<Rightarrow> onetrans option" where
  "read_onetrans E grp = do {
     mode_v \<leftarrow> cfg_get E grp ''mode'';
     name_v \<leftarrow> cfg_get E grp ''account-name'';
     password_v \<leftarrow> cfg_get E grp ''password'';
     from_v \<leftarrow> cfg_get E grp ''validfrom'';
     to_v \<leftarrow> cfg_get E grp ''validto'';
     log_v \<leftarrow> cfg_get E grp ''log-file'';
     allow_v \<leftarrow> cfg_get E grp ''account-allow-prefix'';
     deny_v \<leftarrow> cfg_get E grp ''account-deny-prefix'';
     dedicated_v \<leftarrow> cfg_get E grp ''dedicated-smsc'';
     preferred_v \<leftarrow> cfg_get E grp ''preferred-smsc'';
     level \<leftarrow> get_or E grp ''log-level'' 0;
     let idx = (case log_v of None \<Rightarrow> -1 | Some f \<Rightarrow> open_account_log E f level);
     interval \<leftarrow> get_or E grp ''enquire-link-interval'' SMPP_ENQUIRE_LINK_INTERVAL;
     dnd \<leftarrow> get_or E grp ''dnd-check'' 0;
     rx \<leftarrow> cfg_get_bool E grp ''rx-allowed'';
     unconnect \<leftarrow> get_or E grp ''max-submits-unconnect'' (-1);
     submits \<leftarrow> get_or E grp ''max-submits'' (-1);
     max_tx \<leftarrow> get_or E grp ''max-tx-sessions'' (-1);
     max_rx \<leftarrow> get_or E grp ''max-rx-sessions'' (-1);
     tps \<leftarrow> get_or E grp ''max-tps'' (-1);
     time_from \<leftarrow> get_or E grp ''valid_time_from'' (-1);
     time_to \<leftarrow> get_or E grp ''valid_time_to'' (-1);
     Some \<lparr> ot_mode = mode_v, ot_account_name = name_v, ot_password = password_v,
       ot_validfrom = from_v, ot_validto = to_v, ot_log_file = log_v, ot_allowed_prefix = allow_v,
       ot_denied_prefix = deny_v, ot_dedicated_smsc = dedicated_v, ot_preferred_smsc = preferred_v,
       ot_log_level = level, ot_log_idx = idx, ot_interval = interval, ot_dnd = dnd,
       ot_rx_allowed = rx, ot_unconnect = unconnect, ot_submits = submits, ot_max_tx = max_tx,
       ot_max_rx = max_rx, ot_tps = tps, ot_time_from = time_from, ot_time_to = time_to \<rparr> }"

definition check_onetrans ::
    "account_env \<Rightarrow> octstr_ops \<Rightarrow> cfg_group \<Rightarrow> onetrans \<Rightarrow> smsc_client option option" where
  "check_onetrans E X grp ot =
     (case ot_account_name ot of None \<Rightarrow> Some None | Some name \<Rightarrow>
      case ot_password ot of None \<Rightarrow> Some None | Some pw \<Rightarrow>
      case ot_mode ot of None \<Rightarrow> Some None | Some mode \<Rightarrow>
      case ot_validfrom ot of None \<Rightarrow> Some None | Some from \<Rightarrow>
      case ot_validto ot of None \<Rightarrow> Some None | Some to \<Rightarrow>
        if ot_rx_allowed ot = 1 \<and> octstr_compare X mode ''tx'' \<noteq> 0 then Some None
        else do {
          rx_log_v \<leftarrow> (if ot_rx_allowed ot = 1 then cfg_get E grp ''rx-log-file'' else Some None);
          Some (case account_mode X mode (ot_rx_allowed ot) of
             None \<Rightarrow> None
           | Some m \<Rightarrow> Some
              \<lparr> account_name = name, password = pw, validfrom = from, validto = to,
                log_file = ot_log_file ot, rx_log_file = rx_log_v,
                allowed_prefix = ot_allowed_prefix ot, denied_prefix = ot_denied_prefix ot,
                dedicated_smsc = ot_dedicated_smsc ot,
                preferred_smsc = map_option (\<lambda>s. octstr_split X s '';'') (ot_preferred_smsc ot),
                preferred_smsc_tmp = ot_preferred_smsc ot,
                log_level = ot_log_level ot, log_idx = ot_log_idx ot,
                rx_log_idx = (case rx_log_v of None \<Rightarrow> -1
                              | Some f \<Rightarrow> open_account_log E f (ot_log_level ot)),
                enquire_link_interval = ot_interval ot, max_submits_unconnect = ot_unconnect ot,
                max_submits = ot_submits ot, max_tps = ot_tps ot, rx_allowed = ot_rx_allowed ot,
                allowed_mode = m, dnds_check = ot_dnd ot, max_tx_sessions = ot_max_tx ot,
                max_rx_sessions = ot_max_rx ot, valid_time_from = ot_time_from ot,
                valid_time_to = ot_time_to ot \<rparr>) })"

definition create_onetrans :: "account_env \<Rightarrow> octstr_ops \<Rightarrow> cfg_group \<Rightarrow> smsc_client option option" where
  "create_onetrans E X grp =
     (case grp_name grp of
        None \<Rightarrow> Some None
      | Some grpname \<Rightarrow>
          if octstr_compare X grpname ''smpp-client'' \<noteq> 0 then Some None
          else do { ot \<leftarrow> read_onetrans E grp; check_onetrans E X grp ot })"

section \<open>The list of accounts\<close>

text \<open>
  The \<^verbatim>\<open>Smsc_Client_List\<close>; its two dictionaries are created and destroyed but never used, so the
  list is what the structure holds.
\<close>

type_synonym accounts = "smsc_client list"

definition smpp_client_create :: accounts where
  "smpp_client_create = []"

definition smpp_client_add_one ::
    "account_env \<Rightarrow> octstr_ops \<Rightarrow> smsc_client gwlist_ops \<Rightarrow> accounts \<Rightarrow> cfg_group \<Rightarrow> (int \<times> accounts) option" where
  "smpp_client_add_one E X G accs grp = do {
     ot \<leftarrow> create_onetrans E X grp;
     Some (case ot of None \<Rightarrow> (-1, accs) | Some t \<Rightarrow> (0, gwlist_append G accs t)) }"

text \<open>
  \<^verbatim>\<open>smpp_client_add_cfg\<close> takes the groups that \<^verbatim>\<open>cfg_get_multi_group\<close> returned, one by one, and
  stops at the first group that cannot be used.
\<close>

fun smpp_client_add_cfg ::
    "account_env \<Rightarrow> octstr_ops \<Rightarrow> smsc_client gwlist_ops \<Rightarrow> accounts \<Rightarrow> cfg_group list \<Rightarrow> (int \<times> accounts) option" where
  "smpp_client_add_cfg E X G accs [] = Some (0, accs)"
| "smpp_client_add_cfg E X G accs (grp # list) = do {
     (ret, accs') \<leftarrow> smpp_client_add_one E X G accs grp;
     (if ret = -1 then Some (-1, accs') else smpp_client_add_cfg E X G accs' list) }"

definition smpp_client_find_username :: "octstr_ops \<Rightarrow> accounts \<Rightarrow> octstr \<Rightarrow> smsc_client option" where
  "smpp_client_find_username X accs name =
     List.find (\<lambda>t. octstr_compare X name (account_name t) = 0) accs"

definition get_smpp_client :: "accounts \<Rightarrow> nat \<Rightarrow> smsc_client option" where
  "get_smpp_client accs pos = (if pos \<ge> length accs then None else Some (accs ! pos))"

definition smpp_client_len :: "accounts \<Rightarrow> nat" where
  "smpp_client_len accs = length accs"

text \<open>The two nested loops that look for a name at two positions.\<close>

definition names_clash :: "octstr_ops \<Rightarrow> octstr list \<Rightarrow> bool" where
  "names_clash X names \<longleftrightarrow>
     list_ex (\<lambda>i. list_ex (\<lambda>j. octstr_compare X (names ! i) (names ! j) = 0 \<and> i \<noteq> j)
       [0..<length names]) [0..<length names]"

definition preferred_clash :: "octstr_ops \<Rightarrow> octstr gwlist_ops \<Rightarrow> octstr list \<Rightarrow> smsc_client \<Rightarrow> bool" where
  "preferred_clash X G dedicated t =
     (case preferred_smsc t of None \<Rightarrow> False
      | Some l \<Rightarrow> list_ex (\<lambda>p. gwlist_search G dedicated (\<lambda>d. octstr_item_match X d p) \<noteq> None) l)"

definition verify_config_para :: "octstr_ops \<Rightarrow> octstr gwlist_ops \<Rightarrow> accounts \<Rightarrow> int" where
  "verify_config_para X G accs =
     (if length accs = 0 then 0
      else if names_clash X (map account_name accs) then -1
      else let dedicated = concat (map (\<lambda>t. case dedicated_smsc t of None \<Rightarrow> [] | Some d \<Rightarrow> [d]) accs)
           in if list_ex (preferred_clash X G dedicated) accs then -1 else 0)"

section \<open>Lemmas\<close>

lemma bind_eq_SomeE: "m \<bind> f = Some y \<Longrightarrow> (\<And>x. m = Some x \<Longrightarrow> f x = Some y \<Longrightarrow> P) \<Longrightarrow> P"
  by (auto simp: bind_eq_Some_conv)

lemma bind_total:
  "\<exists>x. m = Some x \<Longrightarrow> (\<And>x. m = Some x \<Longrightarrow> \<exists>y. f x = Some y) \<Longrightarrow> \<exists>y. m \<bind> f = Some y"
  by (auto simp: bind_eq_Some_conv)

lemma account_mode_range: "account_mode X mode rx = Some m \<Longrightarrow> m \<in> {1, 2, 3, 4}"
  by (auto simp: account_mode_def split: if_splits)

lemma account_mode_rx:
  "account_mode X mode rx = Some m \<Longrightarrow> m = 4 \<longleftrightarrow> octstr_compare X mode ''tx'' = 0 \<and> rx = 1"
  by (auto simp: account_mode_def split: if_splits)

lemma find_username_Some:
  assumes "octstr_spec X" "smpp_client_find_username X accs name = Some t"
  shows "t \<in> set accs" "account_name t = name"
  using assms by (auto simp: smpp_client_find_username_def find_Some_iff octstr_compare_spec)

lemma find_username_None:
  assumes "octstr_spec X"
  shows "smpp_client_find_username X accs name = None \<longleftrightarrow> name \<notin> account_name ` set accs"
  using assms by (auto simp: smpp_client_find_username_def find_None_iff octstr_compare_spec)

lemma names_clash_distinct:
  assumes "octstr_spec X"
  shows "names_clash X names \<longleftrightarrow> \<not> distinct names"
proof -
  have "names_clash X names \<longleftrightarrow> (\<exists>i < length names. \<exists>j < length names. names ! i = names ! j \<and> i \<noteq> j)"
    by (simp add: names_clash_def list_ex_iff octstr_compare_spec [OF assms] Bex_def)
  then show ?thesis unfolding distinct_conv_nth by blast
qed

lemma find_username_unique:
  assumes X: "octstr_spec X" and "distinct (map account_name accs)" and "t \<in> set accs"
  shows "smpp_client_find_username X accs (account_name t) = Some t"
proof -
  obtain t' where t': "smpp_client_find_username X accs (account_name t) = Some t'"
    using find_username_None [OF X, of accs "account_name t"] assms(3) by fastforce
  from find_username_Some [OF X t'] have "t' \<in> set accs" "account_name t' = account_name t" .
  with assms(2,3) have "t' = t" by (metis (mono_tags, lifting) distinct_map inj_onD)
  with t' show ?thesis by simp
qed


lemma verify_config_sound:
  assumes X: "octstr_spec X" and G: "gwlist_spec G" and ok: "verify_config_para X G accs = 0"
  shows "distinct (map account_name accs)"
    and "\<And>t u p l. t \<in> set accs \<Longrightarrow> u \<in> set accs \<Longrightarrow> preferred_smsc t = Some l \<Longrightarrow> p \<in> set l \<Longrightarrow>
      dedicated_smsc u \<noteq> Some p"
proof -
  show "distinct (map account_name accs)"
    using ok by (auto simp: verify_config_para_def names_clash_distinct [OF X] split: if_splits)
  fix t u p l
  assume t: "t \<in> set accs" and u: "u \<in> set accs" and l: "preferred_smsc t = Some l" and p: "p \<in> set l"
  show "dedicated_smsc u \<noteq> Some p"
  proof
    assume d: "dedicated_smsc u = Some p"
    let ?D = "concat (map (\<lambda>t. case dedicated_smsc t of None \<Rightarrow> [] | Some d \<Rightarrow> [d]) accs)"
    have "p \<in> set ?D" using u d by (auto intro!: bexI [of _ u])
    then have "first_pos (\<lambda>d. d = p) ?D \<noteq> None" by (simp add: first_pos_None)
    then have "preferred_clash X G ?D t"
      using l p X G by (auto simp: preferred_clash_def list_ex_iff gw_simps)
    then have "list_ex (preferred_clash X G ?D) accs" using t by (auto simp: list_ex_iff)
    moreover have "accs \<noteq> []" using t by auto
    ultimately show False using ok by (auto simp: verify_config_para_def Let_def split: if_splits)
  qed
qed

text \<open>The accounts that the configuration reader keeps.\<close>

lemma check_onetrans_fields:
  assumes "check_onetrans E X grp ot = Some (Some t)"
  shows "ot_account_name ot = Some (account_name t) \<and> ot_password ot = Some (password t) \<and>
     rx_allowed t = ot_rx_allowed ot \<and>
     (\<exists>mode. ot_mode ot = Some mode \<and> account_mode X mode (rx_allowed t) = Some (allowed_mode t) \<and>
        (rx_allowed t = 1 \<longrightarrow> octstr_compare X mode ''tx'' = 0))"
  using assms
  by (auto simp: check_onetrans_def bind_eq_Some_conv split: option.splits if_splits)

lemma read_onetrans_fields:
  assumes "read_onetrans E grp = Some ot"
  shows "ot_account_name ot = map_of (grp_vars grp) ''account-name''"
    and "ot_password ot = map_of (grp_vars grp) ''password''"
    and "ot_mode ot = map_of (grp_vars grp) ''mode''"
proof -
  have g: "cfg_get E grp v = Some r \<Longrightarrow> r = map_of (grp_vars grp) v" for v r
    by (auto simp: cfg_get_def split: option.splits if_splits)
  from assms obtain mode_v name_v password_v where
    "cfg_get E grp ''mode'' = Some mode_v" "cfg_get E grp ''account-name'' = Some name_v"
    "cfg_get E grp ''password'' = Some password_v"
    "ot_mode ot = mode_v" "ot_account_name ot = name_v" "ot_password ot = password_v"
    unfolding read_onetrans_def by (elim bind_eq_SomeE) (simp add: Let_def, elim bind_eq_SomeE, auto)
  with g show "ot_account_name ot = map_of (grp_vars grp) ''account-name''"
    "ot_password ot = map_of (grp_vars grp) ''password''" "ot_mode ot = map_of (grp_vars grp) ''mode''"
    by metis+
qed

lemma create_onetrans_fields:
  assumes "create_onetrans E X grp = Some (Some t)"
  shows "map_of (grp_vars grp) ''account-name'' = Some (account_name t)"
    and "map_of (grp_vars grp) ''password'' = Some (password t)"
    and "\<exists>mode. map_of (grp_vars grp) ''mode'' = Some mode \<and>
      account_mode X mode (rx_allowed t) = Some (allowed_mode t) \<and>
      (rx_allowed t = 1 \<longrightarrow> octstr_compare X mode ''tx'' = 0)"
proof -
  obtain ot where r: "read_onetrans E grp = Some ot" and c: "check_onetrans E X grp ot = Some (Some t)"
    using assms by (auto simp: create_onetrans_def bind_eq_Some_conv split: option.splits if_splits)
  note f = check_onetrans_fields [OF c] and g = read_onetrans_fields [OF r]
  show "map_of (grp_vars grp) ''account-name'' = Some (account_name t)"
    "map_of (grp_vars grp) ''password'' = Some (password t)"
    "\<exists>mode. map_of (grp_vars grp) ''mode'' = Some mode \<and>
      account_mode X mode (rx_allowed t) = Some (allowed_mode t) \<and>
      (rx_allowed t = 1 \<longrightarrow> octstr_compare X mode ''tx'' = 0)"
    using f g by auto
qed

lemma add_one_ok:
  assumes "gwlist_spec G" "smpp_client_add_one E X G accs grp = Some (0, accs')"
  shows "\<exists>t. create_onetrans E X grp = Some (Some t) \<and> accs' = accs @ [t]"
  using assms by (auto simp: smpp_client_add_one_def bind_eq_Some_conv gw_simps split: option.splits)

lemma add_cfg_accounts:
  assumes "gwlist_spec G" "smpp_client_add_cfg E X G accs grps = Some (0, accs')"
  shows "\<exists>ts. accs' = accs @ ts \<and> list_all2 (\<lambda>grp t. create_onetrans E X grp = Some (Some t)) grps ts"
  using assms(2)
proof (induction grps arbitrary: accs)
  case Nil
  then show ?case by simp
next
  case (Cons grp grps)
  then obtain ret accs1 where 1: "smpp_client_add_one E X G accs grp = Some (ret, accs1)" "ret \<noteq> -1"
    "smpp_client_add_cfg E X G accs1 grps = Some (0, accs')"
    by (auto simp: bind_eq_Some_conv split: if_splits)
  then have "ret = 0" by (auto simp: smpp_client_add_one_def bind_eq_Some_conv split: option.splits)
  with 1 add_one_ok [OF assms(1)] obtain t where
    "create_onetrans E X grp = Some (Some t)" "accs1 = accs @ [t]" by blast
  with Cons.IH [OF 1(3)] show ?case by auto
qed

lemma verify_config_complete:
  assumes X: "octstr_spec X" and G: "gwlist_spec G" and d: "distinct (map account_name accs)"
    and p: "\<forall>t \<in> set accs. \<forall>u \<in> set accs. \<forall>l. preferred_smsc t = Some l \<longrightarrow>
      (\<forall>p \<in> set l. dedicated_smsc u \<noteq> Some p)"
  shows "verify_config_para X G accs = 0"
proof -
  let ?D = "concat (map (\<lambda>t. case dedicated_smsc t of None \<Rightarrow> [] | Some d \<Rightarrow> [d]) accs)"
  have "\<not> preferred_clash X G ?D t" if t: "t \<in> set accs" for t
  proof
    assume "preferred_clash X G ?D t"
    then obtain l q where l: "preferred_smsc t = Some l" "q \<in> set l"
      "gwlist_search G ?D (\<lambda>d. octstr_item_match X d q) \<noteq> None"
      by (auto simp: preferred_clash_def list_ex_iff split: option.splits)
    from l(3) have "first_pos (\<lambda>d. d = q) ?D \<noteq> None" using X G by (simp add: gw_simps)
    then have "q \<in> set ?D" unfolding first_pos_None by blast
    then obtain u where "u \<in> set accs" "dedicated_smsc u = Some q"
      by (auto split: option.splits)
    with p t l show False by blast
  qed
  then have "\<not> list_ex (preferred_clash X G ?D) accs" by (simp add: list_ex_iff)
  with d show ?thesis by (simp add: verify_config_para_def names_clash_distinct [OF X] Let_def)
qed

section \<open>Properties\<close>

text \<open>
  C22: \<^verbatim>\<open>verify_config_para\<close> accepts the accounts exactly when no two of them have the same name
  and no account prefers an SMSC that is dedicated to an account.
\<close>

theorem verify_config_iff:
  assumes "octstr_spec X" "gwlist_spec G"
  shows "verify_config_para X G accs = 0 \<longleftrightarrow>
    distinct (map account_name accs) \<and>
    (\<forall>t \<in> set accs. \<forall>u \<in> set accs. \<forall>l. preferred_smsc t = Some l \<longrightarrow>
       (\<forall>p \<in> set l. dedicated_smsc u \<noteq> Some p))"
  using verify_config_sound [OF assms] verify_config_complete [OF assms] by blast

definition sample_account :: smsc_client where
  "sample_account =
     \<lparr> account_name = ''acme'', password = ''pw'', validfrom = ''a'', validto = ''b'',
       log_file = None, rx_log_file = None, allowed_prefix = None, denied_prefix = None,
       dedicated_smsc = Some ''s1'', preferred_smsc = Some [''s2''], preferred_smsc_tmp = Some ''s2'',
       log_level = 0, log_idx = -1, rx_log_idx = -1, enquire_link_interval = 30,
       max_submits_unconnect = -1, max_submits = -1, max_tps = -1, rx_allowed = 1,
       allowed_mode = 4, dnds_check = 0, max_tx_sessions = -1, max_rx_sessions = -1,
       valid_time_from = -1, valid_time_to = -1 \<rparr>"

theorem verify_config_iff_witness:
  "verify_config_para octstr_ref gwlist_ref
     [sample_account, sample_account\<lparr>account_name := ''beta'', preferred_smsc := Some [''s2'']\<rparr>] = 0
   \<and> verify_config_para octstr_ref gwlist_ref
     [sample_account, sample_account\<lparr>account_name := ''beta'', preferred_smsc := Some [''s1'']\<rparr>] \<noteq> 0"
  by (simp add: verify_config_iff sample_account_def)

lemma configured_account_result:
  assumes X: "octstr_spec X" and G: "gwlist_spec G" and G': "gwlist_spec G'"
    and load: "smpp_client_add_cfg E X G smpp_client_create grps = Some (0, accs)"
    and verify: "verify_config_para X G' accs = 0"
    and grp: "grp \<in> set grps"
  shows "\<exists>t mode. smpp_client_find_username X accs (the (map_of (grp_vars grp) ''account-name'')) = Some t
    \<and> map_of (grp_vars grp) ''account-name'' = Some (account_name t)
    \<and> map_of (grp_vars grp) ''password'' = Some (password t)
    \<and> map_of (grp_vars grp) ''mode'' = Some mode
    \<and> (mode = ''tx'' \<and> allowed_mode t = (if rx_allowed t = 1 then 4 else 1)
       \<or> mode = ''rx'' \<and> allowed_mode t = 2 \<and> rx_allowed t \<noteq> 1
       \<or> mode = ''txrx'' \<and> allowed_mode t = 3 \<and> rx_allowed t \<noteq> 1)"
proof -
  from add_cfg_accounts [OF G load]
  have "list_all2 (\<lambda>grp t. create_onetrans E X grp = Some (Some t)) grps accs"
    by (simp add: smpp_client_create_def)
  with grp obtain t where t: "t \<in> set accs" and c: "create_onetrans E X grp = Some (Some t)"
    by (blast dest: list_all2_partner)
  have "smpp_client_find_username X accs (account_name t) = Some t"
    by (rule find_username_unique [OF X verify_config_sound(1) [OF X G' verify] t])
  with create_onetrans_fields [OF c] show ?thesis
    by (auto simp: account_mode_def octstr_compare_spec [OF X] split: if_splits)
qed

text \<open>
  Once the configuration is loaded and verified, every \<^verbatim>\<open>smpp-client\<close> group is an account
  that the login lookup finds under the group's name, with the group's password and with the mode
  its \<^verbatim>\<open>mode\<close> and \<^verbatim>\<open>rx-allowed\<close> variables mean; no other mode word is accepted, and
  \<^verbatim>\<open>rx-allowed\<close> only with \<^verbatim>\<open>tx\<close>.
\<close>

theorem configured_account_found:
  assumes X: "octstr_spec X" and G: "gwlist_spec G" and G': "gwlist_spec G'"
    and load: "smpp_client_add_cfg E X G smpp_client_create grps = Some (0, accs)"
    and verify: "verify_config_para X G' accs = 0"
    and grp: "grp \<in> set grps"
  shows "\<exists>t mode. smpp_client_find_username X accs (the (map_of (grp_vars grp) ''account-name'')) = Some t
    \<and> map_of (grp_vars grp) ''account-name'' = Some (account_name t)
    \<and> map_of (grp_vars grp) ''password'' = Some (password t)
    \<and> map_of (grp_vars grp) ''mode'' = Some mode
    \<and> (mode = ''tx'' \<and> allowed_mode t = (if rx_allowed t = 1 then 4 else 1)
       \<or> mode = ''rx'' \<and> allowed_mode t = 2 \<and> rx_allowed t \<noteq> 1
       \<or> mode = ''txrx'' \<and> allowed_mode t = 3 \<and> rx_allowed t \<noteq> 1)"
  by (rule configured_account_result [OF assms])

definition client_vars :: "octstr list" where
  "client_vars = [''mode'', ''account-name'', ''password'', ''validfrom'', ''validto'', ''log-file'',
     ''account-allow-prefix'', ''account-deny-prefix'', ''dedicated-smsc'', ''preferred-smsc'', ''log-level'',
     ''enquire-link-interval'', ''dnd-check'', ''rx-allowed'', ''max-submits-unconnect'', ''max-submits'',
     ''max-tx-sessions'', ''max-rx-sessions'', ''max-tps'', ''valid_time_from'', ''valid_time_to'', ''rx-log-file'']"

lemma client_vars_allowed:
  assumes X: "octstr_spec X" and v: "v \<in> set client_vars"
  shows "is_allowed_in_group (core_hooks X) ''smpp-client'' v"
proof -
  have "core_is_allowed_in_group X cfg_def ''smpp-client'' v = 1"
    using v unfolding client_vars_def cfg_def_def
    by (auto simp: octstr_compare_spec [OF X])
  then show ?thesis by (simp add: is_allowed_in_group_def core_hooks_def)
qed

lemma client_lookups:
  assumes X: "octstr_spec X" and E: "cfg_hook_lists E = core_hooks X"
    and g: "grp_name grp = Some ''smpp-client''" and v: "v \<in> set client_vars"
  shows "cfg_get E grp v = Some (map_of (grp_vars grp) v)"
    and "\<exists>r. get_or E grp v d = Some r" and "\<exists>r. cfg_get_bool E grp v = Some r"
proof -
  show c: "cfg_get E grp v = Some (map_of (grp_vars grp) v)"
    using client_vars_allowed [OF X v] by (simp add: cfg_get_def g E)
  show "\<exists>r. get_or E grp v d = Some r" "\<exists>r. cfg_get_bool E grp v = Some r"
    by (simp_all add: get_or_def cfg_get_integer_def cfg_get_bool_def c)
qed

text \<open>
  Reading a client group never panics: every variable that \<^verbatim>\<open>create_onetrans\<close> asks for is one
  that the table of groups allows, so the only outcomes are an account or a refused group.
\<close>

theorem create_onetrans_no_panic:
  assumes X: "octstr_spec X" and E: "cfg_hook_lists E = core_hooks X"
  shows "\<exists>r. create_onetrans E X grp = Some r"
proof (cases "grp_name grp = Some ''smpp-client''")
  case True
  note look = client_lookups [OF X E True]
  have look_ex: "v \<in> set client_vars \<Longrightarrow> \<exists>r. cfg_get E grp v = Some r" for v by (simp add: look(1))
  have "\<exists>ot. read_onetrans E grp = Some ot"
    unfolding read_onetrans_def Let_def
    by (intro bind_total look_ex look(2,3)) (simp_all add: client_vars_def)
  then obtain ot where ot: "read_onetrans E grp = Some ot" ..
  have "\<exists>r. check_onetrans E X grp ot = Some r"
    by (auto simp: check_onetrans_def look(1) client_vars_def split: option.splits)
  with ot show ?thesis by (simp add: create_onetrans_def True)
next
  case False
  then show ?thesis
    by (auto simp: create_onetrans_def octstr_compare_spec [OF X] split: option.splits)
qed

definition sample_env :: account_env where
  "sample_env = \<lparr> cfg_hook_lists = core_hooks octstr_ref, octstr_parse_long = (\<lambda>_. None),
     octstr_case_compare = (\<lambda>a b. if a = b then 0 else 1), octstr_split_words = (\<lambda>s. [s]), logfile_append_time = id,
     get_latst_logfile = (\<lambda>_. None), log_open = (\<lambda>_ _. 3) \<rparr>"

definition sample_group :: cfg_group where
  "sample_group = \<lparr> grp_name = Some ''smpp-client'',
     grp_vars = [(''account-name'', ''acme''), (''password'', ''pw''), (''mode'', ''tx''),
       (''rx-allowed'', ''true''), (''validfrom'', ''a''), (''validto'', ''b'')],
     grp_configfile = Some ''smpp.conf'' \<rparr>"

theorem create_onetrans_no_panic_witness: "\<exists>r. create_onetrans sample_env octstr_ref sample_group = Some r"
  by (rule create_onetrans_no_panic) (simp_all add: sample_env_def)

lemma sample_loads:
  "smpp_client_add_cfg sample_env octstr_ref gwlist_ref smpp_client_create [sample_group] =
     Some (0, [sample_account\<lparr>dedicated_smsc := None, preferred_smsc := None, preferred_smsc_tmp := None\<rparr>])"
  by code_simp

lemma sample_verifies:
  "verify_config_para octstr_ref gwlist_ref
     [sample_account\<lparr>dedicated_smsc := None, preferred_smsc := None, preferred_smsc_tmp := None\<rparr>] = 0"
  by (simp add: verify_config_para_def names_clash_def preferred_clash_def sample_account_def)

theorem configured_account_found_witness:
  "\<exists>t. smpp_client_find_username octstr_ref
      [sample_account\<lparr>dedicated_smsc := None, preferred_smsc := None, preferred_smsc_tmp := None\<rparr>]
      ''acme'' = Some t \<and> password t = ''pw'' \<and> allowed_mode t = 4"
  using configured_account_found [OF octstr_ref_spec gwlist_ref_spec gwlist_ref_spec sample_loads
      sample_verifies, of sample_group]
  by (auto simp: sample_group_def sample_account_def smpp_client_find_username_def octstr_ref_def)

end
