(* ===== verification/Date.thy ===== *)
theory Date
  imports Prelude
begin

text \<open>
  \<^verbatim>\<open>gwlib/date.c\<close>: conversion of broken-down dates and the check of an account's validity period.
  The fields of \<^verbatim>\<open>struct universaltime\<close> are \<^verbatim>\<open>long\<close>s; they are unbounded integers here.  The
  one narrower value, the \<^verbatim>\<open>int\<close> product \<^verbatim>\<open>leapyears * DAY\<close>, is checked: where it leaves its type
  the behaviour is undefined, \<open>None\<close>.  Division truncates as in C.
\<close>

section \<open>Broken-down dates\<close>

record universaltime =
  day :: int
  month :: int
  year :: int
  hour :: int
  minute :: int
  second :: int

definition c_div :: "int \<Rightarrow> int \<Rightarrow> int" where
  "c_div a b = sgn a * sgn b * (\<bar>a\<bar> div \<bar>b\<bar>)"

definition monthstart :: "int list" where
  "monthstart = [0, 31, 59, 90, 120, 151, 181, 212, 243, 273, 304, 334]"

definition MINUTE :: int where "MINUTE = 60"
definition HOUR :: int where "HOUR = 60 * MINUTE"
definition DAY :: int where "DAY = 24 * HOUR"

definition leapyears :: "int \<Rightarrow> int \<Rightarrow> int" where
  "leapyears y mon =
     (let y' = (if mon \<le> 1 then y - 1 else y) in c_div y' 4 - c_div y' 100 + c_div y' 400 - 477)"

definition int_ok :: "int \<Rightarrow> bool" where
  "int_ok i \<longleftrightarrow> - (2 ^ 31) \<le> i \<and> i < 2 ^ 31"

text \<open>\<open>None\<close>: the month is outside the table, or an \<^verbatim>\<open>int\<close> overflows.\<close>

definition date_convert_universal :: "universaltime \<Rightarrow> int option" where
  "date_convert_universal t =
     (if month t < 0 \<or> month t > 11 \<or> \<not> int_ok (leapyears (year t) (month t))
         \<or> \<not> int_ok (leapyears (year t) (month t) * DAY) then None
      else Some ((year t - 1970) * (365 * DAY) + leapyears (year t) (month t) * DAY
        + monthstart ! nat (month t) * DAY + (day t - 1) * DAY + hour t * HOUR
        + minute t * MINUTE + second t))"

section \<open>Validity of an account\<close>

datatype date_result =
    Your_Account_Will_Valid_After_Sometime
  | Your_Account_Is_Valid
  | Your_Account_Is_Not_Valid
  | Invalid_Date

text \<open>
  The clock and the C library's date parser: \<open>now\<close> is \<^verbatim>\<open>time(NULL)\<close>, \<open>strptime_dmy\<close> is
  \<^verbatim>\<open>strptime\<close> with the format of the code, \<open>None\<close> for a null result.
\<close>

record 'tm date_env =
  now :: int
  strptime_dmy :: "octstr \<Rightarrow> 'tm option"
  gw_mktime :: "'tm \<Rightarrow> int"

definition to_seconds :: "'tm date_env \<Rightarrow> octstr \<Rightarrow> int" where
  "to_seconds D date = (case strptime_dmy D date of None \<Rightarrow> 0 | Some storage \<Rightarrow> gw_mktime D storage)"

definition compare_date :: "'tm date_env \<Rightarrow> octstr option \<Rightarrow> octstr option \<Rightarrow> date_result" where
  "compare_date D date1 date3 =
     (case (date1, date3) of
        (Some s1, Some s3) \<Rightarrow>
          (let d1 = to_seconds D s1; d3 = to_seconds D s3; d2 = now D
           in if d2 < d1 then Your_Account_Will_Valid_After_Sometime
              else if d2 > d3 then Your_Account_Is_Not_Valid
              else if d3 < d1 then Invalid_Date
              else Your_Account_Is_Valid)
      | _ \<Rightarrow> Your_Account_Is_Valid)"

section \<open>The calendar\<close>

text \<open>
  The reference: days are counted one year after the other, a leap year having one more, and one
  month after the other.
\<close>

definition leap :: "int \<Rightarrow> bool" where
  "leap y \<longleftrightarrow> y mod 4 = 0 \<and> (y mod 100 \<noteq> 0 \<or> y mod 400 = 0)"

definition month_days :: "int \<Rightarrow> nat \<Rightarrow> int" where
  "month_days y m = (if m = 1 then (if leap y then 29 else 28)
     else if m \<in> {3, 5, 8, 10} then 30 else 31)"

fun days_before_year :: "nat \<Rightarrow> int" where
  "days_before_year 0 = 0"
| "days_before_year (Suc k) = days_before_year k + (if leap (1970 + int k) then 366 else 365)"

definition days_before_month :: "int \<Rightarrow> nat \<Rightarrow> int" where
  "days_before_month y m = (\<Sum>k<m. month_days y k)"

definition calendar_days :: "universaltime \<Rightarrow> int" where
  "calendar_days t = days_before_year (nat (year t - 1970)) + days_before_month (year t) (nat (month t))
     + (day t - 1)"

lemma c_div_pos: "0 \<le> a \<Longrightarrow> 0 < b \<Longrightarrow> c_div a b = a div b"
  by (cases "a = 0") (auto simp: c_div_def)

text \<open>Leap days up to the end of a year, counted from 1970, against the closed formula.\<close>

lemma div_step:
  fixes y :: int
  assumes "0 < k"
  shows "(y + 1) div k = y div k + (if (y + 1) mod k = 0 then 1 else 0)"
proof -
  have m: "0 \<le> y mod k" "y mod k < k" using assms by simp_all
  have y: "y + 1 = (y mod k + 1) + (y div k) * k" by simp
  have d: "(y + 1) div k = y div k + (y mod k + 1) div k"
    using assms div_mult_self1 [of k "y mod k + 1" "y div k"] unfolding y [symmetric] by simp
  have e: "(y + 1) mod k = (y mod k + 1) mod k" by (simp add: mod_simps)
  show ?thesis
  proof (cases "y mod k + 1 = k")
    case True
    with d e assms show ?thesis by simp
  next
    case False
    with m have "0 \<le> y mod k + 1" "y mod k + 1 < k" by linarith+
    then have "(y mod k + 1) div k = 0" "(y mod k + 1) mod k = y mod k + 1" by simp_all
    with d e m show ?thesis by simp
  qed
qed

definition leap_count :: "int \<Rightarrow> int" where
  "leap_count y = y div 4 - y div 100 + y div 400 - 477"

lemma leap_count_cases:
  fixes a b c :: int
  assumes "q \<Longrightarrow> p" "r \<Longrightarrow> q"
  shows "(a + (if p then 1 else 0)) - (b + (if q then 1 else 0)) + (c + (if r then 1 else 0)) - 477
    = a - b + c - 477 + (if p \<and> (\<not> q \<or> r) then 1 else 0)"
  using assms by (cases p; cases q; cases r) auto

lemma leap_count_step: "leap_count (y + 1) = leap_count y + (if leap (y + 1) then 1 else 0)"
proof -
  have d: "(y + 1) div 4 = y div 4 + (if (y + 1) mod 4 = 0 then 1 else 0)"
    "(y + 1) div 100 = y div 100 + (if (y + 1) mod 100 = 0 then 1 else 0)"
    "(y + 1) div 400 = y div 400 + (if (y + 1) mod 400 = 0 then 1 else 0)"
    by (rule div_step, simp)+
  have "(y + 1) mod 100 = 0 \<Longrightarrow> (y + 1) mod 4 = 0" "(y + 1) mod 400 = 0 \<Longrightarrow> (y + 1) mod 100 = 0"
    using dvd_trans [of 4 100 "y + 1"] dvd_trans [of 100 400 "y + 1"] by (simp_all add: dvd_eq_mod_eq_0)
  then show ?thesis
    unfolding leap_count_def leap_def d by (rule leap_count_cases)
qed

lemma days_before_year_formula: "days_before_year k = 365 * int k + leap_count (1969 + int k)"
proof (induction k)
  case 0
  then show ?case by (simp add: leap_count_def)
next
  case (Suc k)
  have "leap_count (1969 + int (Suc k)) = leap_count (1969 + int k) + (if leap (1970 + int k) then 1 else 0)"
    using leap_count_step [of "1969 + int k"] by (simp add: ac_simps)
  with Suc show ?case by simp
qed

lemma days_before_month_table:
  assumes "m < 12"
  shows "days_before_month y m = monthstart ! m + (if leap y \<and> 2 \<le> m then 1 else 0)"
proof -
  have "m = 0 \<or> m = 1 \<or> m = 2 \<or> m = 3 \<or> m = 4 \<or> m = 5 \<or> m = 6 \<or> m = 7 \<or> m = 8 \<or> m = 9 \<or> m = 10 \<or> m = 11"
    using assms by presburger
  then show ?thesis
    by (elim disjE) (simp_all add: days_before_month_def month_days_def monthstart_def
        numeral_eq_Suc lessThan_Suc)
qed

lemma leapyears_count:
  assumes "1970 \<le> y" "0 \<le> mon"
  shows "leapyears y mon = leap_count (if mon \<le> 1 then y - 1 else y)"
  using assms by (simp add: leapyears_def leap_count_def c_div_pos Let_def)

lemma leapyears_int:
  assumes "1970 \<le> y" "y \<le> 9999" "0 \<le> mon"
  shows "int_ok (leapyears y mon)" "int_ok (leapyears y mon * DAY)"
proof -
  have b: "-477 \<le> leap_count z \<and> leap_count z \<le> 2499" if "1969 \<le> z" "z \<le> 9999" for z
  proof -
    have "z div 4 \<le> 2499" "z div 400 \<le> 24" "z div 100 \<le> 99" "19 \<le> z div 100" "492 \<le> z div 4"
      "4 \<le> z div 400"
      using that zdiv_mono1 [of z 9999 4] zdiv_mono1 [of z 9999 400] zdiv_mono1 [of z 9999 100]
        zdiv_mono1 [of 1969 z 4] zdiv_mono1 [of 1969 z 100] zdiv_mono1 [of 1969 z 400] by simp_all
    then show ?thesis unfolding leap_count_def by linarith
  qed
  have "-477 \<le> leapyears y mon \<and> leapyears y mon \<le> 2499"
    using b [of y] b [of "y - 1"] assms by (simp add: leapyears_count)
  then show "int_ok (leapyears y mon)" "int_ok (leapyears y mon * DAY)"
    by (auto simp: int_ok_def DAY_def HOUR_def MINUTE_def)
qed

text \<open>
  \<^verbatim>\<open>date_convert_universal\<close> is the number of seconds since the start of 1970: its leap year
  formula and its month table agree with the days of the Gregorian calendar counted one by one,
  for every month and every year from 1970 to 9999, where no \<^verbatim>\<open>int\<close> overflows.
\<close>

theorem date_convert_universal_calendar:
  assumes "1970 \<le> year t" "year t \<le> 9999" "0 \<le> month t" "month t \<le> 11"
  shows "date_convert_universal t =
    Some (DAY * calendar_days t + hour t * HOUR + minute t * MINUTE + second t)"
proof -
  let ?y = "year t"
  have y: "days_before_year (nat (?y - 1970)) = 365 * (?y - 1970) + leap_count (?y - 1)"
    using assms by (simp add: days_before_year_formula)
  have m: "days_before_month ?y (nat (month t)) =
      monthstart ! nat (month t) + (if leap ?y \<and> 1 < month t then 1 else 0)"
    using days_before_month_table [of "nat (month t)" ?y] assms by (auto simp: nat_le_iff le_nat_iff)
  have l: "leapyears ?y (month t) = leap_count (?y - 1) + (if leap ?y \<and> 1 < month t then 1 else 0)"
    using leapyears_count [of ?y "month t"] leap_count_step [of "?y - 1"] assms by auto
  have "date_convert_universal t = Some ((365 * (?y - 1970) + leapyears ?y (month t)
      + monthstart ! nat (month t) + (day t - 1)) * DAY + hour t * HOUR + minute t * MINUTE + second t)"
    using assms leapyears_int [of ?y "month t"]
    by (simp add: date_convert_universal_def algebra_simps)
  then show ?thesis
    unfolding calendar_days_def y m l by (simp add: algebra_simps)
qed

theorem date_convert_universal_calendar_witness:
  "date_convert_universal \<lparr> day = 29, month = 1, year = 2000, hour = 12, minute = 30, second = 5 \<rparr>
     = Some 951827405"
proof -
  let ?t = "\<lparr> day = 29, month = 1, year = 2000, hour = 12, minute = 30, second = 5 \<rparr>"
  have "calendar_days ?t = 11016"
    by (simp add: calendar_days_def days_before_year_formula days_before_month_table leap_count_def
        monthstart_def)
  then show ?thesis
    using date_convert_universal_calendar [of ?t] by (simp add: DAY_def HOUR_def MINUTE_def)
qed

text \<open>
  \<^verbatim>\<open>compare_date\<close> reports a valid account exactly when the period is open (one bound missing) or the
  current time lies in it, bounds included, and its last answer, \<^verbatim>\<open>Invalid_Date\<close>, is never given.
\<close>

theorem compare_date_valid:
  "(compare_date D (Some a) (Some b) = Your_Account_Is_Valid \<longleftrightarrow>
      to_seconds D a \<le> now D \<and> now D \<le> to_seconds D b)
   \<and> compare_date D None x = Your_Account_Is_Valid \<and> compare_date D x None = Your_Account_Is_Valid
   \<and> compare_date D x y \<noteq> Invalid_Date"
  by (auto simp: compare_date_def Let_def split: option.splits)

end
