(* ===== verification/Routing.thy ===== *)
theory Routing
  imports Accounts
begin

text \<open>
  \<^verbatim>\<open>smpp-esme/esme.c\<close>: the prefixes and series read from the core group, the list of SMSCs that the
  client process reports, and \<^verbatim>\<open>rout_pdu\<close>, which chooses the SMSCs for a message.  The two arrays
  of \<^verbatim>\<open>rout_pdu\<close> hold 256 values of type \<^verbatim>\<open>char\<close>, signed as on the platforms the program is built for; \<open>None\<close> is
  an access outside an array, or a null pointer given to the octet string library.
\<close>

section \<open>Settings of the core group\<close>

record settings =
  allowed_ip :: octstr
  denied_ip :: octstr
  global_allowed_prefix :: octstr
  global_denied_prefix :: "octstr option"
  gsm_series :: octstr
  cdma_series :: octstr
  int_series :: octstr
  default_series :: octstr

text \<open>\<open>Some None\<close>: there is no core group, and every setting keeps its initial null value.\<close>

definition init_connect_ip :: "'z cfg_env_scheme \<Rightarrow> octstr_ops \<Rightarrow> cfg \<Rightarrow> settings option option" where
  "init_connect_ip E X c =
     (case cfg_get_single_group c ''core'' of
        None \<Rightarrow> Some None
      | Some grp \<Rightarrow> do {
          allow_ip \<leftarrow> cfg_get E grp ''connect-allow-ip'';
          deny_ip \<leftarrow> cfg_get E grp ''connect-deny-ip'';
          allow_prefix \<leftarrow> cfg_get E grp ''global-allow-prefix'';
          deny_prefix \<leftarrow> cfg_get E grp ''global-deny-prefix'';
          gsm \<leftarrow> cfg_get E grp ''gsm-series'';
          cdma \<leftarrow> cfg_get E grp ''cdma-series'';
          intl \<leftarrow> cfg_get E grp ''int-series'';
          dflt \<leftarrow> cfg_get E grp ''default-series'';
          Some (Some
            \<lparr> allowed_ip = case_option '' '' id allow_ip,
              denied_ip = case_option '' '' id deny_ip,
              global_allowed_prefix = case_option [] id allow_prefix,
              global_denied_prefix = deny_prefix,
              gsm_series = case_option [] id gsm,
              cdma_series = case_option [] id cdma,
              int_series = case_option [] id intl,
              default_series = (case dflt of
                 None \<Rightarrow> ''gsm''
               | Some d \<Rightarrow>
                   if \<not> (octstr_compare X d ''gsm'' = 0 \<or> octstr_compare X d ''cdma'' = 0
                        \<or> octstr_compare X d ''int'' = 0 \<or> octstr_compare X d ''all'' = 0)
                   then ''gsm'' else d) \<rparr>) })"

section \<open>The list of SMSCs\<close>

record smsc_conn =
  smsc_id :: octstr
  smsc_type :: octstr
  conn_status :: int
  conn_mode :: int

text \<open>The part of a \<^verbatim>\<open>Conn_Msg\<close> that reports an SMSC has the same fields.\<close>

definition smsc_conn_create :: "octstr \<Rightarrow> int \<Rightarrow> octstr \<Rightarrow> int \<Rightarrow> smsc_conn" where
  "smsc_conn_create i status nt mode =
     \<lparr> smsc_id = i, smsc_type = nt, conn_status = status, conn_mode = mode \<rparr>"

definition prepare_smsc_list :: "smsc_conn gwlist_ops \<Rightarrow> smsc_conn \<Rightarrow> smsc_conn list \<Rightarrow> smsc_conn list" where
  "prepare_smsc_list G msg smscs =
     gwlist_append G smscs (smsc_conn_create (smsc_id msg) (conn_status msg) (smsc_type msg) (conn_mode msg))"

fun update_smsc_list :: "octstr_ops \<Rightarrow> smsc_conn \<Rightarrow> smsc_conn list \<Rightarrow> smsc_conn list" where
  "update_smsc_list X msg [] = []"
| "update_smsc_list X msg (s # smscs) =
     (if octstr_compare X (smsc_id msg) (smsc_id s) = 0
      then s\<lparr>conn_status := conn_status msg\<rparr> # smscs
      else s # update_smsc_list X msg smscs)"

fun is_smsc_present_loop :: "smsc_conn list \<Rightarrow> int \<Rightarrow> int" where
  "is_smsc_present_loop [] return_result = return_result"
| "is_smsc_present_loop (s # smscs) return_result =
     (if conn_mode s = 1 \<or> conn_mode s = 3
      then if conn_status s = 1 then 2 else is_smsc_present_loop smscs 1
      else is_smsc_present_loop smscs return_result)"

definition is_smsc_present :: "smsc_conn list \<Rightarrow> int" where
  "is_smsc_present smscs = is_smsc_present_loop smscs 0"

fun smsc_conn_status :: "octstr_ops \<Rightarrow> octstr \<Rightarrow> smsc_conn list \<Rightarrow> int" where
  "smsc_conn_status X i [] = 0"
| "smsc_conn_status X i (s # smscs) =
     (if octstr_compare X i (smsc_id s) = 0 then conn_status s else smsc_conn_status X i smscs)"

definition check_smsc_conn :: "octstr_ops \<Rightarrow> octstr option \<Rightarrow> accounts \<Rightarrow> smsc_conn list \<Rightarrow> int" where
  "check_smsc_conn X username translations smscs =
     (case username of None \<Rightarrow> 0
      | Some u \<Rightarrow> if smpp_client_find_username X translations u = None then 0 else is_smsc_present smscs)"

definition smsc_list_len :: "smsc_conn list \<Rightarrow> int" where
  "smsc_list_len smscs = int (length smscs)"

fun connected_smsc_list_len :: "smsc_conn list \<Rightarrow> int" where
  "connected_smsc_list_len [] = 0"
| "connected_smsc_list_len (s # smscs) =
     (if conn_status s = 1 then 1 else 0) + connected_smsc_list_len smscs"

section \<open>Choosing the SMSCs for a message\<close>

text \<open>The type of a destination number; \<open>does_prefix_match\<close> is a function outside the repository.\<close>

definition number_type ::
    "(octstr \<Rightarrow> octstr \<Rightarrow> int) \<Rightarrow> settings option \<Rightarrow> octstr \<Rightarrow> octstr option" where
  "number_type does_prefix_match S dest_addr =
     (let gsm = map_option gsm_series S; cdma = map_option cdma_series S;
          intl = map_option int_series S; dflt = map_option default_series S;
          t1 = (if gsm = None \<and> cdma = None \<and> intl = None then dflt else None);
          t2 = (if gsm \<noteq> None \<and> t1 = None
                then if does_prefix_match (the gsm) dest_addr = 1 then Some ''gsm'' else t1
                else if cdma \<noteq> None \<and> t1 = None
                then if does_prefix_match (the cdma) dest_addr = 1 then Some ''cdma'' else t1
                else if intl \<noteq> None \<and> t1 = None
                then if does_prefix_match (the intl) dest_addr = 1 then Some ''int'' else t1
                else t1)
      in if t2 = None then dflt else t2)"

definition supports :: "octstr_ops \<Rightarrow> octstr \<Rightarrow> smsc_conn \<Rightarrow> bool" where
  "supports X nt s \<longleftrightarrow>
     (octstr_compare X nt (smsc_type s) = 0 \<or> octstr_compare X (smsc_type s) ''all'' = 0) \<and>
     (conn_mode s = 1 \<or> conn_mode s = 3)"

definition schar :: "int \<Rightarrow> int" where
  "schar i = (i + 128) mod 256 - 128"

text \<open>An array of indices and the number of cells in use.\<close>

type_synonym indices = "int list \<times> nat"

definition no_indices :: indices where
  "no_indices = (replicate 256 (-1), 0)"

definition put_index :: "indices \<Rightarrow> nat \<Rightarrow> indices option" where
  "put_index a i = (case a of (arr, k) \<Rightarrow>
     if k < length arr then Some (arr[k := schar (int i)], k + 1) else None)"

text \<open>The loop over the list that stores the first SMSC of a given id that can take the message.\<close>

definition put_smsc :: "octstr_ops \<Rightarrow> octstr \<Rightarrow> smsc_conn list \<Rightarrow> octstr \<Rightarrow> indices \<Rightarrow> indices option" where
  "put_smsc X nt smscs i a =
     (case first_pos (\<lambda>s. octstr_compare X i (smsc_id s) = 0 \<and> supports X nt s) smscs of
        None \<Rightarrow> Some a
      | Some j \<Rightarrow> put_index a j)"

fun put_preferred :: "octstr_ops \<Rightarrow> octstr \<Rightarrow> smsc_conn list \<Rightarrow> octstr list \<Rightarrow> indices \<Rightarrow> indices option" where
  "put_preferred X nt smscs [] a = Some a"
| "put_preferred X nt smscs (i # is) a = do {
     a' \<leftarrow> put_smsc X nt smscs i a;
     put_preferred X nt smscs is a' }"

text \<open>
  Whether an index is among the preferred ones: the loop reads one cell more than are in use.
\<close>

definition already_preferred :: "indices \<Rightarrow> nat \<Rightarrow> bool option" where
  "already_preferred p i = (case p of (arr, k) \<Rightarrow>
     if \<not> k > 0 then Some False
     else if list_ex (\<lambda>c. c = int i) (take (k + 1) arr) then Some True
     else if k < length arr then Some False else None)"

fun put_allowed :: "octstr_ops \<Rightarrow> octstr \<Rightarrow> indices \<Rightarrow> smsc_conn list \<Rightarrow> nat \<Rightarrow> indices \<Rightarrow> indices option" where
  "put_allowed X nt p [] i a = Some a"
| "put_allowed X nt p (s # smscs) i a = do {
     skip \<leftarrow> already_preferred p i;
     (if skip then put_allowed X nt p smscs (i + 1) a
      else if supports X nt s
      then do { a' \<leftarrow> put_index a i; put_allowed X nt p smscs (i + 1) a' }
      else put_allowed X nt p smscs (i + 1) a) }"

definition append_indices :: "octstr_ops \<Rightarrow> indices \<Rightarrow> octstr" where
  "append_indices X a = foldl (octstr_append_char X) [] (take (snd a) (fst a))"

definition rout_indices ::
    "octstr_ops \<Rightarrow> octstr \<Rightarrow> smsc_client \<Rightarrow> smsc_conn list \<Rightarrow> (indices \<times> indices) option" where
  "rout_indices X nt t smscs = do {
     p1 \<leftarrow> (case dedicated_smsc t of None \<Rightarrow> Some no_indices
            | Some d \<Rightarrow> put_smsc X nt smscs d no_indices);
     p \<leftarrow> (case preferred_smsc t of None \<Rightarrow> Some p1 | Some l \<Rightarrow> put_preferred X nt smscs l p1);
     a \<leftarrow> put_allowed X nt p smscs 0 no_indices;
     Some (p, a) }"

text \<open>
  The result: the return value and, when the SMSC lists were written, the preferred and the allowed
  indices as strings.
\<close>

definition rout_pdu ::
    "octstr_ops \<Rightarrow> (octstr \<Rightarrow> octstr \<Rightarrow> int) \<Rightarrow> settings option \<Rightarrow> smsc_conn list \<Rightarrow>
     accounts option \<Rightarrow> octstr option \<Rightarrow> octstr option \<Rightarrow> (int \<times> (octstr \<times> octstr) option) option" where
  "rout_pdu X does_prefix_match S smscs translations dest_addr username =
     (case (translations, dest_addr, username) of
        (Some accs, Some dest, Some user) \<Rightarrow>
          (case smpp_client_find_username X accs user of
             None \<Rightarrow> Some (-1, None)
           | Some t \<Rightarrow> do {
               nt \<leftarrow> number_type does_prefix_match S dest;
               (p, a) \<leftarrow> rout_indices X nt t smscs;
               Some (if snd p > 0 \<or> snd a > 0 then 0 else -1,
                     Some (append_indices X p, append_indices X a)) })
      | _ \<Rightarrow> Some (-1, None))"

section \<open>What the routing promises\<close>

text \<open>
  The reference: the SMSCs that can take the message, the first of them with a given id, the ones
  the account names (its dedicated SMSC, then its preferred ones), and the rest.
\<close>

definition can_take :: "octstr \<Rightarrow> smsc_conn \<Rightarrow> bool" where
  "can_take nt s \<longleftrightarrow> (smsc_type s = nt \<or> smsc_type s = ''all'') \<and> conn_mode s \<in> {1, 3}"

definition eligible :: "octstr \<Rightarrow> smsc_conn list \<Rightarrow> nat list" where
  "eligible nt smscs = filter (\<lambda>i. can_take nt (smscs ! i)) [0..<length smscs]"

definition first_with_id :: "octstr \<Rightarrow> smsc_conn list \<Rightarrow> octstr \<Rightarrow> nat list" where
  "first_with_id nt smscs i =
     (case first_pos (\<lambda>s. smsc_id s = i \<and> can_take nt s) smscs of None \<Rightarrow> [] | Some j \<Rightarrow> [j])"

definition named_smscs :: "smsc_client \<Rightarrow> octstr list" where
  "named_smscs t = case_option [] (\<lambda>d. [d]) (dedicated_smsc t) @ case_option [] id (preferred_smsc t)"

definition spec_preferred :: "octstr \<Rightarrow> smsc_client \<Rightarrow> smsc_conn list \<Rightarrow> nat list" where
  "spec_preferred nt t smscs = concat (map (first_with_id nt smscs) (named_smscs t))"

definition spec_allowed :: "octstr \<Rightarrow> smsc_client \<Rightarrow> smsc_conn list \<Rightarrow> nat list" where
  "spec_allowed nt t smscs =
     filter (\<lambda>i. i \<notin> set (spec_preferred nt t smscs)) (eligible nt smscs)"

lemma supports_can_take: "octstr_spec X \<Longrightarrow> supports X nt s \<longleftrightarrow> can_take nt s"
  by (auto simp: supports_def can_take_def gw_simps)

lemma first_with_id_eligible: "set (first_with_id nt smscs i) \<subseteq> set (eligible nt smscs)"
  by (auto simp: first_with_id_def eligible_def split: option.splits dest!: first_pos_SomeD [OF sym])

lemma spec_preferred_eligible: "set (spec_preferred nt t smscs) \<subseteq> set (eligible nt smscs)"
  using first_with_id_eligible by (fastforce simp: spec_preferred_def)

lemma spec_lists_empty:
  "spec_preferred nt t smscs = [] \<and> spec_allowed nt t smscs = [] \<longleftrightarrow> eligible nt smscs = []"
  using spec_preferred_eligible [of nt t smscs]
  by (auto simp: spec_allowed_def filter_empty_conv)

section \<open>Refinement\<close>

text \<open>An array of indices stands for a list of numbers below 256.\<close>

definition holds :: "indices \<Rightarrow> nat list \<Rightarrow> bool" where
  "holds a xs \<longleftrightarrow> length (fst a) = 256 \<and> snd a = length xs \<and> length xs \<le> 256 \<and>
     take (length xs) (fst a) = map (\<lambda>i. schar (int i)) xs \<and> (\<forall>j. length xs \<le> j \<longrightarrow> j < 256 \<longrightarrow> fst a ! j = -1)"

lemma holds_empty: "holds no_indices []"
  by (simp add: holds_def no_indices_def)

lemma put_index_holds:
  assumes "holds a xs" "length xs < 256"
  shows "\<exists>a'. put_index a i = Some a' \<and> holds a' (xs @ [i])"
proof -
  obtain arr k where a: "a = (arr, k)" by fastforce
  let ?arr = "arr[k := schar (int i)]"
  have k: "k = length xs" "length arr = 256" "take k arr = map (\<lambda>i. schar (int i)) xs"
    using assms by (auto simp: holds_def a)
  have "take (Suc k) ?arr = take k arr @ [schar (int i)]"
    using k assms by (simp add: take_Suc_conv_app_nth)
  then have "holds (?arr, k + 1) (xs @ [i])"
    using assms k by (auto simp: holds_def a)
  then show ?thesis using k assms by (auto simp: put_index_def a)
qed

lemma schar_small: "0 \<le> i \<Longrightarrow> i < 128 \<Longrightarrow> schar i = i"
  by (simp add: schar_def)

lemma schar_large: "128 \<le> i \<Longrightarrow> i < 256 \<Longrightarrow> schar i = i - 256"
  unfolding schar_def using mod_add_self2 [of "i - 128" 256] by (simp add: add.commute)

lemma schar_eq:
  assumes "x < 256" "i < 256"
  shows "schar (int x) = int i \<longleftrightarrow> x = i \<and> i < 128"
proof (cases "x < 128")
  case True
  then show ?thesis by (auto simp: schar_small)
next
  case False
  with assms show ?thesis by (auto simp: schar_large)
qed

lemma already_preferred_holds:
  assumes p: "holds p xs" and xs: "\<forall>x \<in> set xs. x < 256" and i: "i < 256" and len: "length xs < 256"
  shows "already_preferred p i = Some (i \<in> set xs \<and> i < 128)"
proof -
  obtain arr k where a: "p = (arr, k)" by fastforce
  have k: "k = length xs" "length arr = 256" "take k arr = map (\<lambda>i. schar (int i)) xs" "arr ! k = -1"
    using p len by (auto simp: holds_def a)
  have "take (k + 1) arr = map (\<lambda>i. schar (int i)) xs @ [-1]"
    using k len by (simp add: take_Suc_conv_app_nth)
  then have "list_ex (\<lambda>c. c = int i) (take (k + 1) arr) \<longleftrightarrow> (\<exists>x \<in> set xs. schar (int x) = int i)"
    by (auto simp: list_ex_iff image_iff eq_commute [of "int i"])
  also have "\<dots> \<longleftrightarrow> i \<in> set xs \<and> i < 128" using xs i by (auto simp: schar_eq)
  finally show ?thesis using k len by (auto simp: already_preferred_def a)
qed

lemma put_smsc_holds:
  assumes X: "octstr_spec X" and a: "holds a xs" "length xs < 256"
  shows "\<exists>a'. put_smsc X nt smscs i a = Some a' \<and> holds a' (xs @ first_with_id nt smscs i)"
proof -
  have f: "(\<lambda>s. octstr_compare X i (smsc_id s) = 0 \<and> supports X nt s) = (\<lambda>s. smsc_id s = i \<and> can_take nt s)"
    using X by (auto simp: supports_can_take gw_simps)
  show ?thesis
    using put_index_holds [OF a] a
    by (cases "first_pos (\<lambda>s. smsc_id s = i \<and> can_take nt s) smscs") (simp_all add: put_smsc_def f first_with_id_def)
qed

lemma first_with_id_len: "length (first_with_id nt smscs i) \<le> 1"
  by (simp add: first_with_id_def split: option.split)

lemma first_with_ids_len: "length (concat (map (first_with_id nt smscs) l)) \<le> length l"
proof (induction l)
  case (Cons i l)
  with first_with_id_len [of nt smscs i] show ?case by simp
qed simp

lemma put_preferred_holds:
  assumes X: "octstr_spec X"
  shows "holds a xs \<Longrightarrow> length xs + length is \<le> 256 \<Longrightarrow>
    \<exists>a'. put_preferred X nt smscs is a = Some a' \<and> holds a' (xs @ concat (map (first_with_id nt smscs) is))"
proof (induction "is" arbitrary: a xs)
  case Nil
  then show ?case by simp
next
  case (Cons i "is")
  then obtain a' where a': "put_smsc X nt smscs i a = Some a'" "holds a' (xs @ first_with_id nt smscs i)"
    using put_smsc_holds [OF X, of a xs nt smscs i] by auto
  have "length (xs @ first_with_id nt smscs i) + length is \<le> 256"
    using Cons.prems first_with_id_len [of nt smscs i] by simp
  from Cons.IH [OF a'(2) this] a'(1) show ?case by auto
qed

lemma put_allowed_holds:
  assumes X: "octstr_spec X" and p: "holds p ps" "\<forall>x \<in> set ps. x < 256" "length ps < 256"
  shows "holds a xs \<Longrightarrow> i + length smscs \<le> 256 \<Longrightarrow> length xs \<le> i \<Longrightarrow>
    \<exists>a'. put_allowed X nt p smscs i a = Some a' \<and>
      holds a' (xs @ filter (\<lambda>j. \<not> (j \<in> set ps \<and> j < 128) \<and> can_take nt (smscs ! (j - i))) [i..<i + length smscs])"
proof (induction smscs arbitrary: a xs i)
  case Nil
  then show ?case by simp
next
  case (Cons s smscs)
  let ?f = "\<lambda>j. \<not> (j \<in> set ps \<and> j < 128) \<and> can_take nt ((s # smscs) ! (j - i))"
  let ?rest = "filter (\<lambda>j. \<not> (j \<in> set ps \<and> j < 128) \<and> can_take nt (smscs ! (j - Suc i))) [Suc i..<Suc i + length smscs]"
  have "[i..<i + length (s # smscs)] = i # [Suc i..<Suc i + length smscs]"
    using upt_conv_Cons [of i "i + length (s # smscs)"] by simp
  then have "filter ?f [i..<i + length (s # smscs)] =
      (if ?f i then [i] else []) @ filter ?f [Suc i..<Suc i + length smscs]"
    by (simp only: filter.simps) simp
  also have "filter ?f [Suc i..<Suc i + length smscs] = ?rest"
    by (rule filter_cong) (auto simp: nth_Cons' Suc_diff_Suc)
  finally have split: "filter ?f [i..<i + length (s # smscs)] = (if ?f i then [i] else []) @ ?rest" .
  have i: "already_preferred p i = Some (i \<in> set ps \<and> i < 128)"
    by (rule already_preferred_holds) (use p Cons.prems in auto)
  show ?case
  proof (cases "?f i")
    case True
    obtain a' where a': "put_index a i = Some a'" "holds a' (xs @ [i])"
      using put_index_holds [OF Cons.prems(1), of i] Cons.prems that by auto
    obtain b where "put_allowed X nt p smscs (Suc i) a' = Some b" "holds b ((xs @ [i]) @ ?rest)"
      using Cons.IH [OF a'(2), of "Suc i"] Cons.prems(2,3) by auto
    moreover have "supports X nt s" "already_preferred p i = Some False" using True i X by (auto simp: supports_can_take)
    ultimately show ?thesis unfolding split if_P [OF True] using a'(1) by simp
  next
    case False
    obtain b where b: "put_allowed X nt p smscs (Suc i) a = Some b" "holds b (xs @ ?rest)"
      using Cons.IH [OF Cons.prems(1), of "Suc i"] Cons.prems(2,3) by auto
    have "already_preferred p i = Some True \<or> already_preferred p i = Some False \<and> \<not> supports X nt s"
      using False i X by (auto simp: supports_can_take)
    then have "put_allowed X nt p (s # smscs) i a = Some b" using b(1) by auto
    with b(2) show ?thesis unfolding split if_not_P [OF False] append_Nil by blast
  qed
qed

text \<open>The general result: up to 256 SMSCs; an index from 128 on is not recognised as preferred.\<close>

lemma rout_indices_holds:
  assumes X: "octstr_spec X" and len: "length smscs \<le> 256" and nm: "length (named_smscs t) < 256"
  shows "\<exists>p a. rout_indices X nt t smscs = Some (p, a) \<and> holds p (spec_preferred nt t smscs) \<and>
    holds a (filter (\<lambda>i. \<not> (i \<in> set (spec_preferred nt t smscs) \<and> i < 128)) (eligible nt smscs))"
proof -
  let ?ps = "spec_preferred nt t smscs"
  obtain p1 where p1: "(case dedicated_smsc t of None \<Rightarrow> Some no_indices
      | Some d \<Rightarrow> put_smsc X nt smscs d no_indices) = Some p1"
    "holds p1 (case_option [] (first_with_id nt smscs) (dedicated_smsc t))"
    using put_smsc_holds [OF X holds_empty, of nt smscs "the (dedicated_smsc t)"] holds_empty that
    by (cases "dedicated_smsc t") auto
  have l1: "length (case_option [] (first_with_id nt smscs) (dedicated_smsc t))
      + length (case_option [] id (preferred_smsc t)) \<le> 256"
  proof (cases "dedicated_smsc t")
    case None
    with nm show ?thesis by (simp add: named_smscs_def)
  next
    case (Some d)
    with nm first_with_id_len [of nt smscs d] show ?thesis by (simp add: named_smscs_def)
  qed
  obtain p where p: "(case preferred_smsc t of None \<Rightarrow> Some p1 | Some l \<Rightarrow> put_preferred X nt smscs l p1) = Some p"
    "holds p ?ps"
    using put_preferred_holds [OF X p1(2) l1, of nt smscs] p1(2)
    by (cases "preferred_smsc t"; cases "dedicated_smsc t") (auto simp: spec_preferred_def named_smscs_def)
  have small: "\<forall>x \<in> set ?ps. x < 256"
    using spec_preferred_eligible [of nt t smscs] len by (auto simp: eligible_def)
  have "length ?ps < 256"
    using nm first_with_ids_len [of nt smscs "named_smscs t"] by (simp add: spec_preferred_def)
  from put_allowed_holds [OF X p(2) small this holds_empty, of 0 smscs nt] len
  obtain a where a: "put_allowed X nt p smscs 0 no_indices = Some a"
    "holds a (filter (\<lambda>j. \<not> (j \<in> set ?ps \<and> j < 128) \<and> can_take nt (smscs ! j)) [0..<length smscs])"
    by auto
  then show ?thesis
    using p1(1) p by (auto simp: rout_indices_def eligible_def filter_filter conj_commute)
qed

lemma append_indices_holds:
  assumes X: "octstr_spec X" and a: "holds a xs" and xs: "\<forall>x \<in> set xs. x < 128"
  shows "append_indices X a = map char_of xs"
proof -
  have m: "map (\<lambda>i. schar (int i)) xs = map (\<lambda>i. of_char (char_of i :: char)) xs"
    using xs by (auto simp: schar_small of_char_int)
  have f: "foldl (octstr_append_char X) acc (map (\<lambda>i. of_char (char_of i :: char)) ys) = acc @ map char_of ys"
    for acc and ys :: "nat list"
    by (induction ys arbitrary: acc) (simp_all add: octstr_append_char_spec [OF X])
  show ?thesis
    using a f [of "[]" xs] by (simp add: append_indices_def holds_def m)
qed

lemma eligible_lt: "i \<in> set (eligible nt smscs) \<Longrightarrow> i < length smscs"
  by (simp add: eligible_def)

lemma number_type_gsm:
  "number_type pm (Some S) dest = Some (if pm (gsm_series S) dest = 1 then ''gsm'' else default_series S)"
  by (simp add: number_type_def)

section \<open>Properties\<close>


definition sample_smscs :: "smsc_conn list" where
  "sample_smscs = [\<lparr> smsc_id = ''s0'', smsc_type = ''gsm'', conn_status = 1, conn_mode = 1 \<rparr>,
     \<lparr> smsc_id = ''s1'', smsc_type = ''all'', conn_status = 0, conn_mode = 3 \<rparr>,
     \<lparr> smsc_id = ''s2'', smsc_type = ''gsm'', conn_status = 1, conn_mode = 2 \<rparr>,
     \<lparr> smsc_id = ''s2'', smsc_type = ''gsm'', conn_status = 1, conn_mode = 3 \<rparr>]"

definition sample_settings :: settings where
  "sample_settings = \<lparr> allowed_ip = '' '', denied_ip = '' '', global_allowed_prefix = [],
     global_denied_prefix = None, gsm_series = ''91'', cdma_series = [], int_series = [],
     default_series = ''gsm'' \<rparr>"


text \<open>
  The indices are stored as signed characters: with more than 128 SMSCs, one from position 128
  on that the account names is stored as a negative value and, not being recognised, is listed
  again among the allowed ones.
\<close>

theorem rout_pdu_index_wraps:
  assumes X: "octstr_spec X" and len: "length smscs \<le> 256" and nm: "length (named_smscs t) < 256"
    and i: "spec_preferred nt t smscs ! k = i" "k < length (spec_preferred nt t smscs)" "128 \<le> i"
  shows "\<exists>p a. rout_indices X nt t smscs = Some (p, a) \<and> fst p ! k = int i - 256 \<and>
    int i - 256 \<in> set (take (snd a) (fst a))"
proof -
  let ?ps = "spec_preferred nt t smscs"
  let ?as = "filter (\<lambda>i. \<not> (i \<in> set (spec_preferred nt t smscs) \<and> i < 128)) (eligible nt smscs)"
  obtain p a where r: "rout_indices X nt t smscs = Some (p, a)" "holds p ?ps" "holds a ?as"
    using rout_indices_holds [OF X len nm] by blast
  have "i \<in> set ?ps" using i by auto
  then have e: "i \<in> set (eligible nt smscs)" using spec_preferred_eligible by blast
  then have "i < 256" using len eligible_lt by (meson less_le_trans)
  with i have w: "schar (int i) = int i - 256" by (simp add: schar_large)
  have "fst p ! k = take (length ?ps) (fst p) ! k" using i by simp
  also have "\<dots> = schar (int i)" using r(2) i by (simp add: holds_def)
  finally have "fst p ! k = int i - 256" by (simp add: w)
  moreover have "schar (int i) \<in> set (take (snd a) (fst a))"
    using r(3) e i(3) by (auto simp: holds_def)
  ultimately show ?thesis using r(1) w by auto
qed

definition many_smscs :: "smsc_conn list" where
  "many_smscs = replicate 128 \<lparr> smsc_id = ''x'', smsc_type = ''cdma'', conn_status = 1, conn_mode = 1 \<rparr>
     @ [\<lparr> smsc_id = ''s1'', smsc_type = ''gsm'', conn_status = 1, conn_mode = 1 \<rparr>]"

lemma many_preferred: "spec_preferred ''gsm'' sample_account many_smscs = [128]"
proof -
  have "first_pos P (replicate n x @ [y]) = (if P y then Some n else None)" if "\<not> P x"
    for P and n and x y :: smsc_conn
    using that by (induction n) auto
  then show ?thesis
    by (simp add: spec_preferred_def named_smscs_def sample_account_def first_with_id_def many_smscs_def can_take_def)
qed

theorem rout_pdu_index_wraps_witness:
  "\<exists>p a. rout_indices octstr_ref ''gsm'' sample_account many_smscs = Some (p, a) \<and> fst p ! 0 = - 128 \<and>
     - 128 \<in> set (take (snd a) (fst a))"
proof -
  have l: "length many_smscs \<le> 256" "length (named_smscs sample_account) < 256"
    by (simp_all add: named_smscs_def sample_account_def many_smscs_def)
  show ?thesis
    using rout_pdu_index_wraps [OF octstr_ref_spec l, of "''gsm''" 0 128] by (simp add: many_preferred)
qed

text \<open>
  Once the settings are initialised the series of CDMA and of international numbers play no part
  in the classification: a number that does not match the GSM series has the default type whatever those
  series hold.
\<close>

theorem number_type_ignores_series:
  "number_type pm (Some (S\<lparr>cdma_series := c, int_series := i\<rparr>)) dest = number_type pm (Some S) dest \<and>
   (number_type pm (Some S) dest = Some ''cdma'' \<longrightarrow> default_series S = ''cdma'')"
  by (simp add: number_type_gsm)

theorem number_type_ignores_series_witness:
  "number_type (\<lambda>_ _. 1) (Some (sample_settings\<lparr>cdma_series := ''92'', int_series := ''00''\<rparr>)) ''92123'' =
     number_type (\<lambda>_ _. 1) (Some sample_settings) ''92123''"
  by (rule number_type_ignores_series [THEN conjunct1])

lemma is_smsc_present_eq:
  "is_smsc_present smscs =
     (if \<exists>s \<in> set smscs. conn_mode s \<in> {1, 3} \<and> conn_status s = 1 then 2
      else if \<exists>s \<in> set smscs. conn_mode s \<in> {1, 3} then 1 else 0)"
proof -
  have "is_smsc_present_loop smscs r =
      (if \<exists>s \<in> set smscs. conn_mode s \<in> {1, 3} \<and> conn_status s = 1 then 2
       else if \<exists>s \<in> set smscs. conn_mode s \<in> {1, 3} then 1 else r)" for r
    by (induction smscs arbitrary: r) auto
  then show ?thesis by (simp add: is_smsc_present_def)
qed

lemma is_smsc_present_range: "is_smsc_present smscs \<in> {0, 1, 2}"
  by (simp add: is_smsc_present_eq)

lemma is_smsc_present_connected:
  "is_smsc_present smscs = 2 \<longleftrightarrow> (\<exists>s \<in> set smscs. conn_mode s \<in> {1, 3} \<and> conn_status s = 1)"
  by (simp add: is_smsc_present_eq)

text \<open>
  \<^verbatim>\<open>is_smsc_present\<close> answers 2 exactly when some transmitting SMSC is connected, 1 exactly when there
  are transmitting SMSCs and none of them is connected, and 0 otherwise.
\<close>

theorem is_smsc_present_cases:
  "(is_smsc_present smscs = 2 \<longleftrightarrow> (\<exists>s \<in> set smscs. conn_mode s \<in> {1, 3} \<and> conn_status s = 1))
   \<and> (is_smsc_present smscs = 1 \<longleftrightarrow> (\<exists>s \<in> set smscs. conn_mode s \<in> {1, 3}) \<and>
        (\<nexists>s. s \<in> set smscs \<and> conn_mode s \<in> {1, 3} \<and> conn_status s = 1))
   \<and> is_smsc_present smscs \<in> {0, 1, 2}"
  by (auto simp: is_smsc_present_eq)

end
