(* ===== verification/Registry.thy ===== *)
theory Registry
  imports Routing Counter Date
begin

text \<open>
  \<^verbatim>\<open>smpp-esme/esme.c\<close> and \<^verbatim>\<open>esme.h\<close>: the list of bound ESMEs with their transmitter and receiver sessions,
  the authorisation of a bind, the allocation of session numbers, and the operations that look
  sessions up and take them out.  An \<^verbatim>\<open>ESME *\<close> is a reference number given when the structure is
  allocated; a connection is the number of its descriptor.  \<open>None\<close> is a panic or the use of a
  pointer that is null or whose structure has been freed.  Every operation holds the lock of the
  list while it runs, except \<^verbatim>\<open>authorise_user\<close>, whose two critical sections are separate definitions.
\<close>

section \<open>Sessions and ESMEs\<close>

datatype esme_status =
    ESME_UNCONNECTED
  | ESME_BINDED
  | ESME_DISCONNECT
  | ESME_SEND_UNBIND
  | ESME_SMSC_UNCONNECTED

record tempconn =
  tc_conn :: nat
  tc_client_ip :: octstr
  tc_client_port :: int
  tc_listen_port :: int
  bind_successful :: int
  tc_log_idx :: int
  tc_mode :: int
  tc_session_id :: int

text \<open>A message on its way to a client, as it waits in the queue of a session.\<close>

record msg_deliver =
  md_smsc_id :: octstr
  md_smsc_msg_id :: octstr
  md_account_msg_id :: octstr
  md_os :: octstr

record esme_tx =
  tx_conn :: nat
  tx_msg_received :: counter
  tx_msg_sent :: counter
  tx_msg_rejected :: counter
  submits_unconnect :: counter
  tx_session_id :: int
  tx_seq_number :: counter
  tx_client_ip :: octstr
  tx_client_port :: int
  tx_listen_port :: int
  tx_start_time :: int
  tx_status :: esme_status
  tx_quit :: int
  tx_mode :: int
  tx_thread_id :: int
  tx_data_to_write :: "msg_deliver list"

record esme_rx =
  rx_conn :: nat
  rx_client_ip :: octstr
  rx_client_port :: int
  rx_listen_port :: int
  rx_data_to_write :: "msg_deliver list"
  rx_msg_sent :: counter
  rx_seq_number :: counter
  rx_start_time :: int
  rx_thread_id :: int
  rx_status :: esme_status
  rx_quit :: int
  rx_session_id :: int
  rx_mode :: int

text \<open>\<open>e_rx_log_idx\<close> is \<open>None\<close> while the code has not initialised it.\<close>

record esme =
  esme_ref :: nat
  system_id :: octstr
  e_password :: "octstr option"
  e_system_type :: "octstr option"
  e_address_range :: "octstr option"
  e_interface_version :: int
  e_addr_ton :: int
  e_addr_npi :: int
  e_enquire_link_interval :: int
  e_allowed_prefix :: "octstr option"
  e_denied_prefix :: "octstr option"
  e_log_file :: "octstr option"
  e_log_level :: int
  e_log_idx :: int
  e_rx_log_file :: "octstr option"
  e_rx_log_idx :: "int option"
  tx_esme :: "esme_tx list"
  rx_esme :: "esme_rx list"
  e_max_submits_unconnect :: int
  e_max_submits :: int
  e_max_tps :: int
  msg_count :: int
  e_dnd_check :: int
  esm_time :: int
  e_valid_time_from :: int
  e_valid_time_to :: int

record registry =
  esme_list :: "esme list"
  next_ref :: nat

text \<open>The bind PDU, as far as the authorisation reads it.\<close>

record bind_pdu =
  bind_system_id :: "octstr option"
  bind_password :: "octstr option"
  bind_system_type :: "octstr option"
  bind_interface_version :: int
  bind_addr_ton :: int
  bind_addr_npi :: int
  bind_address_range :: "octstr option"
  bind_sequence_number :: ulong

text \<open>
  The list and octet string functions in use, with \<^verbatim>\<open>int_item_match\<close>, the match of two numbers.
\<close>

record reg_ops =
  reg_octstr :: octstr_ops
  reg_esme :: "esme gwlist_ops"
  reg_tx :: "esme_tx gwlist_ops"
  reg_rx :: "esme_rx gwlist_ops"
  reg_int :: "int gwlist_ops"
  int_item_match :: "int \<Rightarrow> int \<Rightarrow> bool"

definition reg_spec :: "reg_ops \<Rightarrow> bool" where
  "reg_spec R \<longleftrightarrow> octstr_spec (reg_octstr R) \<and> gwlist_spec (reg_esme R) \<and> gwlist_spec (reg_tx R) \<and>
     gwlist_spec (reg_rx R) \<and> gwlist_spec (reg_int R) \<and> (\<forall>a b. int_item_match R a b \<longleftrightarrow> a = b)"

definition reg_ref :: reg_ops where
  "reg_ref = \<lparr> reg_octstr = octstr_ref, reg_esme = gwlist_ref, reg_tx = gwlist_ref, reg_rx = gwlist_ref,
     reg_int = gwlist_ref, int_item_match = (=) \<rparr>"

section \<open>Temporary connections\<close>

definition tempconn_create :: "nat \<Rightarrow> octstr \<Rightarrow> int \<Rightarrow> int \<Rightarrow> int \<Rightarrow> tempconn" where
  "tempconn_create conn client_ip client_port listen_port mode =
     \<lparr> tc_conn = conn, tc_client_ip = client_ip, tc_client_port = client_port,
       tc_listen_port = listen_port, bind_successful = 0, tc_log_idx = 0, tc_mode = mode, tc_session_id = 0 \<rparr>"

text \<open>The connections that are destroyed.\<close>

definition tempconn_destroy :: "tempconn option \<Rightarrow> nat list" where
  "tempconn_destroy temp_conn =
     (case temp_conn of None \<Rightarrow> [] | Some tc \<Rightarrow> if bind_successful tc = 0 then [tc_conn tc] else [])"

section \<open>Lookups\<close>

definition esme_init :: registry where
  "esme_init = \<lparr> esme_list = [], next_ref = 0 \<rparr>"

definition add_esme :: "reg_ops \<Rightarrow> esme \<Rightarrow> registry \<Rightarrow> registry" where
  "add_esme R e g = g\<lparr>esme_list := gwlist_append (reg_esme R) (esme_list g) e\<rparr>"

definition esme_list_len :: "registry \<Rightarrow> int" where
  "esme_list_len g = int (length (esme_list g))"

text \<open>The structure a pointer refers to.\<close>

definition deref :: "registry \<Rightarrow> nat \<Rightarrow> esme option" where
  "deref g r = List.find (\<lambda>e. esme_ref e = r) (esme_list g)"

definition is_present_esme :: "reg_ops \<Rightarrow> octstr \<Rightarrow> registry \<Rightarrow> nat option" where
  "is_present_esme R i g =
     map_option esme_ref
       (List.find (\<lambda>e. octstr_compare (reg_octstr R) (system_id e) i = 0) (esme_list g))"

definition get_esme :: "nat \<Rightarrow> registry \<Rightarrow> nat option" where
  "get_esme pos g = (if int pos \<ge> esme_list_len g then None else Some (esme_ref (esme_list g ! pos)))"

definition extract_log_idx :: "reg_ops \<Rightarrow> octstr \<Rightarrow> registry \<Rightarrow> int" where
  "extract_log_idx R name g =
     (case List.find (\<lambda>e. octstr_compare (reg_octstr R) (system_id e) name = 0) (esme_list g) of
        None \<Rightarrow> -1 | Some e \<Rightarrow> e_log_idx e)"

text \<open>\<open>None\<close>: without a user name the function returns no value.\<close>

definition init_log_file :: "octstr_ops \<Rightarrow> octstr option \<Rightarrow> accounts \<Rightarrow> int \<Rightarrow> int option" where
  "init_log_file X username translations mode =
     (case username of None \<Rightarrow> None
      | Some u \<Rightarrow>
          (case smpp_client_find_username X translations u of
             None \<Rightarrow> Some (-1)
           | Some t \<Rightarrow>
               if mode = 1 \<and> log_file t \<noteq> None then Some (log_idx t)
               else if mode = 2 \<and> rx_log_file t \<noteq> None then Some (rx_log_idx t)
               else Some (-1)))"

datatype session = Tx esme_tx | Rx esme_rx

definition get_session_str :: "esme option \<Rightarrow> int \<Rightarrow> int \<Rightarrow> session option" where
  "get_session_str e mode session_id =
     (case e of None \<Rightarrow> None
      | Some s \<Rightarrow>
          if session_id < 1 \<or> mode < 1 \<or> mode > 3 then None
          else if mode = 1 \<or> mode = 3
          then map_option Tx (List.find (\<lambda>t. tx_session_id t = session_id) (tx_esme s))
          else if mode = 2
          then map_option Rx (List.find (\<lambda>t. rx_session_id t = session_id) (rx_esme s))
          else None)"

text \<open>
  A session that can receive a message: \<open>rand\<close> is the sequence of values of \<^verbatim>\<open>gw_rand\<close>.  The loop over
  the transmitter list draws a position in every round.
\<close>

fun draw_trx :: "(nat \<Rightarrow> nat) \<Rightarrow> esme_tx list \<Rightarrow> nat \<Rightarrow> nat \<Rightarrow> esme_tx option" where
  "draw_trx rand txs j 0 = None"
| "draw_trx rand txs j (Suc rounds) =
     (let t = txs ! (rand j mod length txs)
      in if tx_mode t = 3 then Some t else draw_trx rand txs (j + 1) rounds)"

definition extract_esme :: "reg_ops \<Rightarrow> (nat \<Rightarrow> nat) \<Rightarrow> octstr \<Rightarrow> registry \<Rightarrow> session option \<times> int" where
  "extract_esme R rand i g =
     (case List.find (\<lambda>e. octstr_compare (reg_octstr R) (system_id e) i = 0) (esme_list g) of
        None \<Rightarrow> (None, 0)
      | Some e \<Rightarrow>
          if length (rx_esme e) > 0
          then (Some (Rx (rx_esme e ! (rand 0 mod length (rx_esme e)))), 2)
          else if length (tx_esme e) > 0
          then (case draw_trx rand (tx_esme e) 0 (length (tx_esme e)) of
                  None \<Rightarrow> (None, 0) | Some t \<Rightarrow> (Some (Tx t), 3))
          else (None, 0))"

section \<open>Session numbers\<close>

fun lowest_session :: "int list \<Rightarrow> int" where
  "lowest_session [] = 0"
| "lowest_session (x # xs) = foldl (\<lambda>lowest s. if s < lowest then s else lowest) x xs"

text \<open>The loop that tries the numbers after the lowest one.\<close>

fun search_session :: "reg_ops \<Rightarrow> int list \<Rightarrow> int \<Rightarrow> nat \<Rightarrow> nat \<Rightarrow> int" where
  "search_session R sessions lowest i 0 = lowest + int (length sessions)"
| "search_session R sessions lowest i (Suc rounds) =
     (let new_no = lowest + int i + 1
      in if gwlist_search (reg_int R) sessions (\<lambda>s. int_item_match R s new_no) = None then new_no
         else search_session R sessions lowest (i + 1) rounds)"

definition allocate_session_id :: "reg_ops \<Rightarrow> int list \<Rightarrow> int" where
  "allocate_session_id R sessions =
     (let lowest = lowest_session sessions
      in if lowest \<noteq> 1 then 1 else search_session R sessions lowest 0 (length sessions - 1))"

section \<open>Authorisation of a bind\<close>

text \<open>
  The first part, up to the write lock: the checks on the account and the limits on its sessions, as
  the list is when they are made.  \<open>Inl\<close> is the return value that refuses the bind; \<open>Inr\<close> holds the
  account and the structure the second part goes on with.
\<close>

definition authorise_check ::
    "reg_ops \<Rightarrow> 'tm date_env \<Rightarrow> accounts option \<Rightarrow> bind_pdu option \<Rightarrow> int \<Rightarrow> tempconn option \<Rightarrow> registry \<Rightarrow>
     (int + smsc_client \<times> nat option) option" where
  "authorise_check R D translations pdu mode temp_conn g =
     (if mode > 4 \<or> mode < 1 then Some (Inl (-1))
      else if pdu = None \<or> translations = None \<or> temp_conn = None then Some (Inl (-1))
      else case bind_system_id (the pdu) of None \<Rightarrow> None | Some name \<Rightarrow>
       (case smpp_client_find_username (reg_octstr R) (the translations) name of
          None \<Rightarrow> Some (Inl 1)
        | Some t \<Rightarrow>
            if bind_password (the pdu) \<noteq> None
               \<and> octstr_compare (reg_octstr R) (the (bind_password (the pdu))) (password t) \<noteq> 0
            then Some (Inl 2)
            else if allowed_mode t < 4 \<and> mode \<noteq> allowed_mode t then Some (Inl 3)
            else if mode = 3 \<and> allowed_mode t = 4 then Some (Inl 3)
            else
              (let date_result = compare_date D (Some (validfrom t)) (Some (validto t));
                   present = is_present_esme R name g
               in if date_result = Your_Account_Will_Valid_After_Sometime then Some (Inl 4)
                  else if date_result = Your_Account_Is_Not_Valid then Some (Inl 5)
                  else if (mode = 1 \<or> mode = 3) \<and> present = None \<and> max_tx_sessions t = 0
                  then Some (Inl 10)
                  else if (mode = 1 \<or> mode = 3) \<and> present \<noteq> None
                    \<and> int (length (tx_esme (the (deref g (the present))))) = max_tx_sessions t
                  then Some (Inl 10)
                  else if mode = 2 \<and> present = None \<and> max_rx_sessions t = 0 then Some (Inl 10)
                  else if mode = 2 \<and> present \<noteq> None
                    \<and> int (length (rx_esme (the (deref g (the present))))) = max_rx_sessions t
                  then Some (Inl 10)
                  else Some (Inr (t, present)))))"

text \<open>The common structure of an account that is not in the list yet.\<close>

definition new_esme :: "'tm date_env \<Rightarrow> smsc_client \<Rightarrow> bind_pdu \<Rightarrow> nat \<Rightarrow> esme" where
  "new_esme D t pdu r =
     \<lparr> esme_ref = r, system_id = the (bind_system_id pdu), e_password = bind_password pdu,
       e_system_type = bind_system_type pdu, e_address_range = bind_address_range pdu,
       e_interface_version = bind_interface_version pdu, e_addr_ton = bind_addr_ton pdu,
       e_addr_npi = bind_addr_npi pdu, e_enquire_link_interval = enquire_link_interval t,
       e_allowed_prefix = allowed_prefix t, e_denied_prefix = denied_prefix t,
       e_log_file = log_file t,
       e_log_level = (if log_file t \<noteq> None \<or> rx_log_file t \<noteq> None then log_level t else -1),
       e_log_idx = (if log_file t \<noteq> None then log_idx t else -1),
       e_rx_log_file = rx_log_file t,
       e_rx_log_idx = (if rx_log_file t \<noteq> None then Some (rx_log_idx t) else None),
       tx_esme = [], rx_esme = [], e_max_submits_unconnect = max_submits_unconnect t,
       e_max_submits = max_submits t, e_max_tps = max_tps t, msg_count = 0,
       e_dnd_check = dnds_check t, esm_time = now D,
       e_valid_time_from = valid_time_from t, e_valid_time_to = valid_time_to t \<rparr>"

definition new_tx ::
    "reg_ops \<Rightarrow> 'tm date_env \<Rightarrow> int \<Rightarrow> accounts \<Rightarrow> smsc_conn list \<Rightarrow> bind_pdu \<Rightarrow> int \<Rightarrow> tempconn \<Rightarrow> int list \<Rightarrow> esme_tx" where
  "new_tx R D self accs smscs pdu mode tc sessions =
     \<lparr> tx_conn = tc_conn tc, tx_msg_received = counter_create, tx_msg_sent = counter_create,
       tx_msg_rejected = counter_create, submits_unconnect = counter_create,
       tx_session_id = allocate_session_id R sessions,
       tx_seq_number = snd (counter_set counter_create (bind_sequence_number pdu)),
       tx_client_ip = tc_client_ip tc, tx_client_port = tc_client_port tc,
       tx_listen_port = tc_listen_port tc, tx_start_time = now D,
       tx_status = (if check_smsc_conn (reg_octstr R) (bind_system_id pdu) accs smscs = 0
                       \<or> check_smsc_conn (reg_octstr R) (bind_system_id pdu) accs smscs = 1
                    then ESME_SMSC_UNCONNECTED else ESME_BINDED),
       tx_quit = 0, tx_mode = mode, tx_thread_id = self, tx_data_to_write = [] \<rparr>"

definition new_rx :: "reg_ops \<Rightarrow> 'tm date_env \<Rightarrow> int \<Rightarrow> bind_pdu \<Rightarrow> tempconn \<Rightarrow> int list \<Rightarrow> esme_rx" where
  "new_rx R D self pdu tc sessions =
     \<lparr> rx_conn = tc_conn tc, rx_client_ip = tc_client_ip tc, rx_client_port = tc_client_port tc,
       rx_listen_port = tc_listen_port tc, rx_data_to_write = [], rx_msg_sent = counter_create,
       rx_seq_number = snd (counter_set counter_create (bind_sequence_number pdu)),
       rx_start_time = now D, rx_thread_id = self, rx_status = ESME_BINDED, rx_quit = 0,
       rx_session_id = allocate_session_id R sessions, rx_mode = 2 \<rparr>"

text \<open>The update of the structure a pointer refers to; \<open>None\<close> when it has been freed.\<close>

definition update_esme :: "nat \<Rightarrow> (esme \<Rightarrow> esme) \<Rightarrow> registry \<Rightarrow> registry option" where
  "update_esme r f g =
     (case first_pos (\<lambda>e. esme_ref e = r) (esme_list g) of
        None \<Rightarrow> None
      | Some i \<Rightarrow> Some (g\<lparr>esme_list := (esme_list g)[i := f (esme_list g ! i)]\<rparr>))"

text \<open>The second part, under the write lock.\<close>

definition authorise_commit ::
    "reg_ops \<Rightarrow> 'tm date_env \<Rightarrow> int \<Rightarrow> accounts \<Rightarrow> smsc_conn list \<Rightarrow> smsc_client \<Rightarrow> bind_pdu \<Rightarrow> int \<Rightarrow> tempconn \<Rightarrow>
     nat option \<Rightarrow> registry \<Rightarrow> (registry \<times> tempconn \<times> nat) option" where
  "authorise_commit R D self accs smscs t pdu mode tc present g =
     (let r = (case present of None \<Rightarrow> next_ref g | Some p \<Rightarrow> p);
          g1 = (case present of
                  None \<Rightarrow> g\<lparr>esme_list := gwlist_append (reg_esme R) (esme_list g) (new_esme D t pdu r),
                            next_ref := next_ref g + 1\<rparr>
                | Some p \<Rightarrow> g)
      in case deref g1 r of None \<Rightarrow> None | Some e \<Rightarrow>
         if mode = 1 \<or> mode = 3
         then (let tx = new_tx R D self accs smscs pdu mode tc (map tx_session_id (tx_esme e))
               in do {
                 g2 \<leftarrow> update_esme r (\<lambda>e. e\<lparr>tx_esme := gwlist_append (reg_tx R) (tx_esme e) tx\<rparr>) g1;
                 Some (g2, tc\<lparr>tc_mode := mode, tc_session_id := tx_session_id tx\<rparr>, r) })
         else if mode = 2
         then (let rx = new_rx R D self pdu tc (map rx_session_id (rx_esme e))
               in do {
                 g2 \<leftarrow> update_esme r (\<lambda>e. e\<lparr>rx_esme := gwlist_append (reg_rx R) (rx_esme e) rx\<rparr>) g1;
                 Some (g2, tc\<lparr>tc_mode := mode, tc_session_id := rx_session_id rx\<rparr>, r) })
         else Some (g1, tc, r))"

text \<open>The whole function when no other thread comes between its two parts.\<close>

definition authorise_user ::
    "reg_ops \<Rightarrow> 'tm date_env \<Rightarrow> int \<Rightarrow> accounts option \<Rightarrow> smsc_conn list \<Rightarrow> bind_pdu option \<Rightarrow> int \<Rightarrow> tempconn option \<Rightarrow>
     registry \<Rightarrow> (int \<times> registry \<times> tempconn option \<times> nat option) option" where
  "authorise_user R D self translations smscs pdu mode temp_conn g =
     (case authorise_check R D translations pdu mode temp_conn g of
        None \<Rightarrow> None
      | Some (Inl code) \<Rightarrow> Some (code, g, temp_conn, None)
      | Some (Inr (t, present)) \<Rightarrow> do {
          (g', tc, r) \<leftarrow> authorise_commit R D self (the translations) smscs t (the pdu) mode
             (the temp_conn) present g;
          Some (0, g', Some tc, Some r) })"

section \<open>Removal of a session\<close>

text \<open>
  \<^verbatim>\<open>esme_destroy\<close>: the connections it destroys and the list afterwards.  The structure is looked up in
  the list by its system id; a session that is not in its list is a null pointer that is read.
\<close>

definition drop_session :: "'s gwlist_ops \<Rightarrow> ('s \<Rightarrow> int) \<Rightarrow> int \<Rightarrow> 's list \<Rightarrow> ('s \<times> 's list) option" where
  "drop_session G sid session_id l =
     (case first_pos (\<lambda>s. sid s = session_id) l of
        None \<Rightarrow> None
      | Some i \<Rightarrow> Some (l ! i, gwlist_delete G l i 1))"

definition esme_destroy ::
    "reg_ops \<Rightarrow> nat option \<Rightarrow> int \<Rightarrow> int \<Rightarrow> registry \<Rightarrow> (nat list \<times> registry) option" where
  "esme_destroy R ptr mode session_id g =
     (case ptr of None \<Rightarrow> Some ([], g)
      | Some r \<Rightarrow>
       (case deref g r of None \<Rightarrow> None
        | Some e \<Rightarrow>
          (case first_pos (\<lambda>e1. octstr_compare (reg_octstr R) (system_id e) (system_id e1) = 0) (esme_list g) of
             None \<Rightarrow> Some ([], g)
           | Some found_esme \<Rightarrow> do {
               (conns, e') \<leftarrow>
                 (if mode = 1 \<and> session_id > 0
                  then do {
                    (s, l) \<leftarrow> drop_session (reg_tx R) tx_session_id session_id (tx_esme e);
                    Some ([tx_conn s], e\<lparr>tx_esme := l\<rparr>) }
                  else if mode = 2 \<and> session_id > 0
                  then do {
                    (s, l) \<leftarrow> drop_session (reg_rx R) rx_session_id session_id (rx_esme e);
                    Some ([rx_conn s], e\<lparr>rx_esme := l\<rparr>) }
                  else Some ([], e));
               g' \<leftarrow> update_esme r (\<lambda>_. e') g;
               Some (conns,
                 if tx_esme e' = [] \<and> rx_esme e' = []
                 then g'\<lparr>esme_list := gwlist_delete (reg_esme R) (esme_list g') found_esme 1\<rparr>
                 else g') })))"

section \<open>Sessions and the state of the SMSCs\<close>

definition update_session :: "int \<Rightarrow> esme_tx \<Rightarrow> esme_tx" where
  "update_session present tx =
     (if present = 0 \<or> present = 1
      then if tx_status tx \<noteq> ESME_SMSC_UNCONNECTED then tx\<lparr>tx_status := ESME_SMSC_UNCONNECTED\<rparr> else tx
      else if present = 2
      then if tx_status tx = ESME_SMSC_UNCONNECTED
           then tx\<lparr>tx_status := ESME_BINDED, submits_unconnect := snd (counter_set (submits_unconnect tx) 0)\<rparr>
           else tx
      else tx)"

definition update_esme_conn :: "reg_ops \<Rightarrow> accounts \<Rightarrow> smsc_conn list \<Rightarrow> registry \<Rightarrow> registry" where
  "update_esme_conn R translations smscs g =
     g\<lparr>esme_list := map (\<lambda>e. e\<lparr>tx_esme := map (update_session
         (check_smsc_conn (reg_octstr R) (Some (system_id e)) translations smscs)) (tx_esme e)\<rparr>) (esme_list g)\<rparr>"

text \<open>The sum is kept in an \<^verbatim>\<open>int\<close>.\<close>

definition max_submits_unct_account :: "esme option \<Rightarrow> int" where
  "max_submits_unct_account e =
     (case e of None \<Rightarrow> 0
      | Some s \<Rightarrow>
          if length (tx_esme s) = 0 then 0
          else sint (foldl (\<lambda>(number :: 32 word) tx. number + ucast (counter_value (submits_unconnect tx))) 0
                 (tx_esme s)))"

section \<open>Operations on fields that are never set\<close>

text \<open>
  \<^verbatim>\<open>stop_esme\<close> and \<^verbatim>\<open>extract_connection\<close> read \<^verbatim>\<open>mode\<close>, \<^verbatim>\<open>esmetx\<close>, \<^verbatim>\<open>esmerx\<close> and the thread ids of the
  common structure, which \<^verbatim>\<open>authorise_user\<close> allocates and does not set: \<open>None\<close> when they are read.  The
  first component of the state of \<^verbatim>\<open>stop_esme\<close> is the number of read locks held on the list.
\<close>

definition stop_esme :: "reg_ops \<Rightarrow> octstr \<Rightarrow> registry \<Rightarrow> nat \<Rightarrow> (int \<times> nat) option" where
  "stop_esme R name g readers =
     (if first_pos (\<lambda>e. octstr_compare (reg_octstr R) (system_id e) name = 0) (esme_list g) = None
      then Some (-1, readers + 1)
      else None)"

definition extract_connection :: "reg_ops \<Rightarrow> octstr \<Rightarrow> registry \<Rightarrow> nat option option" where
  "extract_connection R name g =
     (if first_pos (\<lambda>e. octstr_compare (reg_octstr R) (system_id e) name = 0) (esme_list g) = None
      then Some None
      else None)"

section \<open>Session numbers, as the registry uses them\<close>

definition ids_ok :: "int list \<Rightarrow> bool" where
  "ids_ok l \<longleftrightarrow> distinct l \<and> (\<forall>i \<in> set l. 1 \<le> i)"

text \<open>
  What the registry relies on: the number is new, and every smaller one is taken.
\<close>

locale session_numbers =
  fixes alloc :: "int list \<Rightarrow> int"
  assumes fresh: "ids_ok l \<Longrightarrow> alloc l \<notin> set l \<and> 1 \<le> alloc l"
    and least: "ids_ok l \<Longrightarrow> 1 \<le> m \<Longrightarrow> m < alloc l \<Longrightarrow> m \<in> set l"
begin

lemma opened_ok: "ids_ok l \<Longrightarrow> ids_ok (l @ [alloc l])"
  using fresh [of l] by (auto simp: ids_ok_def)

lemma alloc_bound: "ids_ok l \<Longrightarrow> alloc l \<le> int (length l) + 1"
proof -
  assume l: "ids_ok l"
  have "{1..alloc l - 1} \<subseteq> set l" using least [OF l] by auto
  then have "card {1..alloc l - 1} \<le> card (set l)" by (intro card_mono) auto
  also have "\<dots> \<le> length l" by (rule card_length)
  finally show "alloc l \<le> int (length l) + 1" by simp
qed

text \<open>With at most \<open>n\<close> sessions open at a time, every number is at most \<open>n\<close>.\<close>

lemma opened_bound:
  "ids_ok l \<Longrightarrow> \<forall>i \<in> set l. i \<le> n \<Longrightarrow> int (length l) < n \<Longrightarrow> \<forall>i \<in> set (l @ [alloc l]). i \<le> n"
  using alloc_bound [of l] by auto

end

lemma lowest_session_Min: "l \<noteq> [] \<Longrightarrow> lowest_session l = Min (set l)"
proof -
  have "foldl (\<lambda>lowest s. if s < lowest then s else lowest) x xs = Min (insert x (set xs))" for x xs
  proof (induction xs arbitrary: x)
    case (Cons y xs)
    have "(if y < x then y else x) = min x y" by auto
    then show ?case by (cases "xs = []") (simp_all add: Cons.IH min.assoc)
  qed simp
  then show "l \<noteq> [] \<Longrightarrow> lowest_session l = Min (set l)" by (cases l) auto
qed

lemma search_session_least:
  assumes R: "reg_spec R"
  shows "{1..1 + int i} \<subseteq> set l \<Longrightarrow> i + rounds + 1 = length l \<Longrightarrow>
    search_session R l 1 i rounds \<notin> set l \<and> 1 \<le> search_session R l 1 i rounds \<and>
    (\<forall>m. 1 \<le> m \<longrightarrow> m < search_session R l 1 i rounds \<longrightarrow> m \<in> set l)"
proof (induction rounds arbitrary: i)
  case 0
  have sub: "{1..int (length l)} \<subseteq> set l" using 0 by auto
  have "card (set l) \<le> card {1..int (length l)}" by (simp add: card_length)
  with sub have "set l = {1..int (length l)}" by (metis List.finite_set card_seteq)
  then show ?case by auto
next
  case (Suc rounds)
  let ?n = "1 + int i + 1"
  have g: "gwlist_search (reg_int R) l (\<lambda>s. int_item_match R s ?n) = None \<longleftrightarrow> ?n \<notin> set l"
    using R by (auto simp: reg_spec_def gw_simps first_pos_None)
  show ?case
  proof (cases "?n \<in> set l")
    case True
    have e: "{1..1 + int (i + 1)} = insert ?n {1..1 + int i}" by auto
    have "{1..1 + int (i + 1)} \<subseteq> set l" unfolding e using True Suc.prems(1) by simp
    with Suc.IH [of "i + 1"] Suc.prems(2) True g show ?thesis by (simp add: Let_def)
  next
    case False
    with Suc.prems(1) g show ?thesis by (auto simp: Let_def)
  qed
qed

lemma allocate_session_numbers:
  assumes R: "reg_spec R"
  shows "session_numbers (allocate_session_id R)"
proof -
  have *: "allocate_session_id R l \<notin> set l \<and> 1 \<le> allocate_session_id R l \<and>
      (\<forall>m. 1 \<le> m \<longrightarrow> m < allocate_session_id R l \<longrightarrow> m \<in> set l)" if l: "ids_ok l" for l
  proof (cases "lowest_session l = 1")
    case True
    then have ne: "l \<noteq> []" by auto
    then have "1 \<in> set l" using True lowest_session_Min by (metis List.finite_set Min_in set_empty)
    then have "{1..1 + int 0} \<subseteq> set l" by auto
    from search_session_least [OF R this, of "length l - 1"] ne True show ?thesis
      by (simp add: allocate_session_id_def)
  next
    case False
    have "1 \<notin> set l"
    proof
      assume 1: "1 \<in> set l"
      then have "Min (set l) = 1" using l by (intro Min_eqI) (auto simp: ids_ok_def)
      with False 1 show False by (metis lowest_session_Min empty_iff list.set(1))
    qed
    with False show ?thesis by (auto simp: allocate_session_id_def Let_def)
  qed
  show ?thesis by unfold_locales (use * in blast)+
qed

lemma reg_ref_spec [simp, intro!]: "reg_spec reg_ref"
  by (simp add: reg_spec_def reg_ref_def)

interpretation sessions: session_numbers "allocate_session_id reg_ref"
  by (rule allocate_session_numbers) simp

section \<open>The invariant of the registry\<close>

definition esme_ok :: "esme \<Rightarrow> bool" where
  "esme_ok e \<longleftrightarrow> ids_ok (map tx_session_id (tx_esme e)) \<and> ids_ok (map rx_session_id (rx_esme e)) \<and>
     (tx_esme e \<noteq> [] \<or> rx_esme e \<noteq> []) \<and> (\<forall>s \<in> set (tx_esme e). tx_mode s \<in> {1, 3}) \<and>
     (\<forall>s \<in> set (rx_esme e). rx_mode s = 2)"

definition reg_inv :: "registry \<Rightarrow> bool" where
  "reg_inv g \<longleftrightarrow> distinct (map esme_ref (esme_list g)) \<and> distinct (map system_id (esme_list g)) \<and>
     (\<forall>e \<in> set (esme_list g). esme_ref e < next_ref g \<and> esme_ok e)"

text \<open>The limits of the accounts: the number of sessions, and the session numbers themselves.\<close>

definition within :: "int \<Rightarrow> int list \<Rightarrow> bool" where
  "within limit ids \<longleftrightarrow> (0 \<le> limit \<longrightarrow> int (length ids) \<le> limit \<and> (\<forall>i \<in> set ids. i \<le> limit))"

definition limits_ok :: "octstr_ops \<Rightarrow> accounts \<Rightarrow> registry \<Rightarrow> bool" where
  "limits_ok X accs g \<longleftrightarrow> (\<forall>e \<in> set (esme_list g). \<exists>t. smpp_client_find_username X accs (system_id e) = Some t \<and>
     within (max_tx_sessions t) (map tx_session_id (tx_esme e)) \<and>
     within (max_rx_sessions t) (map rx_session_id (rx_esme e)))"

lemma find_ref:
  assumes "distinct (map esme_ref l)"
  shows "List.find (\<lambda>e. esme_ref e = r) l = Some e \<longleftrightarrow> e \<in> set l \<and> esme_ref e = r"
proof
  assume a: "e \<in> set l \<and> esme_ref e = r"
  then obtain e' where e': "List.find (\<lambda>e. esme_ref e = r) l = Some e'"
    by (cases "List.find (\<lambda>e. esme_ref e = r) l") (auto simp: find_None_iff)
  then have "e' \<in> set l" "esme_ref e' = r" by (auto simp: find_Some_iff)
  with a assms e' show "List.find (\<lambda>e. esme_ref e = r) l = Some e"
    by (metis (mono_tags, lifting) distinct_map inj_onD)
qed (auto simp: find_Some_iff)

lemma deref_Some: "reg_inv g \<Longrightarrow> deref g r = Some e \<longleftrightarrow> e \<in> set (esme_list g) \<and> esme_ref e = r"
  by (simp add: deref_def find_ref reg_inv_def)

lemma is_present_None:
  "reg_spec R \<Longrightarrow> is_present_esme R i g = None \<longleftrightarrow> i \<notin> system_id ` set (esme_list g)"
  by (auto simp: is_present_esme_def find_None_iff reg_spec_def gw_simps)

lemma is_present_Some:
  "reg_spec R \<Longrightarrow> reg_inv g \<Longrightarrow> is_present_esme R i g = Some r \<Longrightarrow>
     \<exists>e \<in> set (esme_list g). esme_ref e = r \<and> system_id e = i \<and> deref g r = Some e"
  by (auto simp: is_present_esme_def find_Some_iff reg_spec_def gw_simps deref_Some)

text \<open>Replacing a structure by one with the same reference and the same name.\<close>

lemma update_esme_at:
  assumes d: "deref g r = Some e"
  shows "\<exists>i < length (esme_list g). esme_list g ! i = e \<and> esme_ref e = r \<and>
    update_esme r f g = Some (g\<lparr>esme_list := (esme_list g)[i := f e]\<rparr>)"
proof -
  from d obtain i where "first_pos (\<lambda>e. esme_ref e = r) (esme_list g) = Some i" "esme_list g ! i = e"
    by (auto simp: deref_def find_first_pos split: option.splits)
  with first_pos_SomeD [OF this(1)] show ?thesis by (auto simp: update_esme_def)
qed

lemma map_update_same: "i < length l \<Longrightarrow> f x = f (l ! i) \<Longrightarrow> map f (l[i := x]) = map f l"
  by (simp add: map_update list_update_same_conv)

lemma reg_inv_replace:
  assumes "reg_inv g" "i < length (esme_list g)" "esme_ref e' = esme_ref (esme_list g ! i)"
    "system_id e' = system_id (esme_list g ! i)" "esme_ok e'"
  shows "reg_inv (g\<lparr>esme_list := (esme_list g)[i := e']\<rparr>)"
  using assms set_update_subset_insert [of "esme_list g" i e']
  by (auto simp: reg_inv_def map_update_same)

lemma limits_replace:
  assumes "limits_ok X accs g" "smpp_client_find_username X accs (system_id e') = Some t"
    "within (max_tx_sessions t) (map tx_session_id (tx_esme e'))"
    "within (max_rx_sessions t) (map rx_session_id (rx_esme e'))"
  shows "limits_ok X accs (g\<lparr>esme_list := (esme_list g)[i := e']\<rparr>)"
  using assms set_update_subset_insert [of "esme_list g" i e'] by (auto simp: limits_ok_def)

section \<open>The list as a set of bindings\<close>

text \<open>
  The abstract view: who is bound, as transmitter or receiver, under which session number, on which
  connection.
\<close>

definition esme_bindings :: "esme \<Rightarrow> (octstr \<times> bool \<times> int \<times> nat) set" where
  "esme_bindings e =
     (\<lambda>s. (system_id e, False, tx_session_id s, tx_conn s)) ` set (tx_esme e) \<union>
     (\<lambda>s. (system_id e, True, rx_session_id s, rx_conn s)) ` set (rx_esme e)"

definition bindings :: "registry \<Rightarrow> (octstr \<times> bool \<times> int \<times> nat) set" where
  "bindings g = (\<Union>e \<in> set (esme_list g). esme_bindings e)"

lemma reg_inv_distinct: "reg_inv g \<Longrightarrow> distinct (esme_list g)"
  by (auto simp: reg_inv_def distinct_map)

lemma esme_bindings_disjoint:
  assumes "reg_inv g" "e \<in> set (esme_list g)" "e' \<in> set (esme_list g)" "e \<noteq> e'"
  shows "esme_bindings e \<inter> esme_bindings e' = {}"
proof -
  have "system_id e \<noteq> system_id e'" using assms by (auto simp: reg_inv_def distinct_map inj_on_def)
  then show ?thesis by (auto simp: esme_bindings_def)
qed

lemma bindings_replace:
  assumes g: "reg_inv g" and i: "i < length (esme_list g)"
  shows "bindings (g\<lparr>esme_list := (esme_list g)[i := e']\<rparr>) =
    (bindings g - esme_bindings (esme_list g ! i)) \<union> esme_bindings e'"
proof -
  have s: "set ((esme_list g)[i := e']) = insert e' (set (esme_list g) - {esme_list g ! i})"
    by (rule set_update_distinct [OF reg_inv_distinct [OF g] i])
  have "(\<Union>e \<in> set (esme_list g) - {esme_list g ! i}. esme_bindings e) = bindings g - esme_bindings (esme_list g ! i)"
    unfolding bindings_def by (rule UN_remove) (use esme_bindings_disjoint [OF g] i in auto)
  then show ?thesis by (auto simp: bindings_def s)
qed

section \<open>A bind, without interference\<close>

text \<open>What a successful bind does to the structure of its account.\<close>

definition with_session ::
    "reg_ops \<Rightarrow> 'tm date_env \<Rightarrow> int \<Rightarrow> accounts \<Rightarrow> smsc_conn list \<Rightarrow> bind_pdu \<Rightarrow> int \<Rightarrow> tempconn \<Rightarrow> esme \<Rightarrow> esme" where
  "with_session R D self accs smscs pdu mode tc e =
     (if mode = 1 \<or> mode = 3
      then e\<lparr>tx_esme := tx_esme e @ [new_tx R D self accs smscs pdu mode tc (map tx_session_id (tx_esme e))]\<rparr>
      else e\<lparr>rx_esme := rx_esme e @ [new_rx R D self pdu tc (map rx_session_id (rx_esme e))]\<rparr>)"

definition open_ids :: "int \<Rightarrow> esme \<Rightarrow> int list" where
  "open_ids mode e =
     (if mode = 1 \<or> mode = 3 then map tx_session_id (tx_esme e) else map rx_session_id (rx_esme e))"

definition session_limit :: "int \<Rightarrow> smsc_client \<Rightarrow> int" where
  "session_limit mode t = (if mode = 1 \<or> mode = 3 then max_tx_sessions t else max_rx_sessions t)"

lemma with_session_same [simp]:
  "esme_ref (with_session R D self accs smscs pdu mode tc e) = esme_ref e"
  "system_id (with_session R D self accs smscs pdu mode tc e) = system_id e"
  by (simp_all add: with_session_def)

lemma open_ids_with_session:
  "open_ids mode (with_session R D self accs smscs pdu mode tc e) = open_ids mode e @ [allocate_session_id R (open_ids mode e)]"
  by (auto simp: open_ids_def with_session_def new_tx_def new_rx_def)

lemma with_session_bindings:
  "mode \<in> {1, 2, 3} \<Longrightarrow> esme_bindings (with_session R D self accs smscs pdu mode tc e) =
     insert (system_id e, mode = 2, allocate_session_id R (open_ids mode e), tc_conn tc) (esme_bindings e)"
  by (auto simp: esme_bindings_def with_session_def open_ids_def new_tx_def new_rx_def)

lemma with_session_ok:
  assumes R: "reg_spec R" and e: "esme_ok e \<or> (tx_esme e = [] \<and> rx_esme e = [])" and m: "mode \<in> {1, 2, 3}"
  shows "esme_ok (with_session R D self accs smscs pdu mode tc e)"
proof -
  have ids: "ids_ok (map tx_session_id (tx_esme e))" "ids_ok (map rx_session_id (rx_esme e))"
    using e by (auto simp: esme_ok_def ids_ok_def)
  note opened = this [THEN session_numbers.opened_ok [OF allocate_session_numbers [OF R]]]
  show ?thesis
    using ids opened e m by (auto simp: esme_ok_def with_session_def new_tx_def new_rx_def)
qed

lemma with_session_within:
  assumes R: "reg_spec R" and ids: "ids_ok (open_ids mode e)"
    and w: "within (max_tx_sessions t) (map tx_session_id (tx_esme e))"
      "within (max_rx_sessions t) (map rx_session_id (rx_esme e))"
    and lim: "int (length (open_ids mode e)) \<noteq> session_limit mode t" and m: "mode \<in> {1, 2, 3}"
  shows "within (max_tx_sessions t) (map tx_session_id (tx_esme (with_session R D self accs smscs pdu mode tc e)))"
    and "within (max_rx_sessions t) (map rx_session_id (rx_esme (with_session R D self accs smscs pdu mode tc e)))"
proof -
  let ?e = "with_session R D self accs smscs pdu mode tc e"
  have o: "within (session_limit mode t) (open_ids mode e)"
    using w by (simp add: session_limit_def open_ids_def)
  have o': "within (session_limit mode t) (open_ids mode ?e)"
    unfolding open_ids_with_session
  proof -
    show "within (session_limit mode t) (open_ids mode e @ [allocate_session_id R (open_ids mode e)])"
      using o lim session_numbers.opened_bound [OF allocate_session_numbers [OF R] ids, of "session_limit mode t"]
      by (auto simp: within_def)
  qed
  show "within (max_tx_sessions t) (map tx_session_id (tx_esme ?e))"
    "within (max_rx_sessions t) (map rx_session_id (rx_esme ?e))"
    using o' w m by (auto simp: session_limit_def open_ids_def with_session_def split: if_splits)
qed

lemma authorise_commit_result:
  assumes R: "reg_spec R" and m: "mode \<in> {1, 2, 3}"
    and d: "deref (case present of None \<Rightarrow> g\<lparr>esme_list := esme_list g @ [new_esme D t pdu (next_ref g)], next_ref := next_ref g + 1\<rparr>
        | Some p \<Rightarrow> g) (case present of None \<Rightarrow> next_ref g | Some p \<Rightarrow> p) = Some e" (is "deref ?g ?r = _")
  shows "\<exists>i < length (esme_list ?g). esme_list ?g ! i = e \<and>
    authorise_commit R D self accs smscs t pdu mode tc present g =
      Some (?g\<lparr>esme_list := (esme_list ?g)[i := with_session R D self accs smscs pdu mode tc e]\<rparr>,
        tc\<lparr>tc_mode := mode, tc_session_id := allocate_session_id R (open_ids mode e)\<rparr>, ?r)"
proof -
  have G: "gwlist_spec (reg_esme R)" "gwlist_spec (reg_tx R)" "gwlist_spec (reg_rx R)"
    using R by (auto simp: reg_spec_def)
  obtain i where i: "i < length (esme_list ?g)" "esme_list ?g ! i = e"
    "update_esme ?r (with_session R D self accs smscs pdu mode tc) ?g =
       Some (?g\<lparr>esme_list := (esme_list ?g)[i := with_session R D self accs smscs pdu mode tc e]\<rparr>)"
    using update_esme_at [OF d] by blast
  have u: "update_esme ?r f ?g = update_esme ?r (with_session R D self accs smscs pdu mode tc) ?g"
    if "f e = with_session R D self accs smscs pdu mode tc e" for f
    using update_esme_at [OF d, of f] update_esme_at [OF d, of "with_session R D self accs smscs pdu mode tc"]
      that d by (auto simp: update_esme_def deref_def find_first_pos split: option.splits)
  have c: "authorise_commit R D self accs smscs t pdu mode tc present g = do {
      g2 \<leftarrow> update_esme ?r (\<lambda>e'. if mode = 1 \<or> mode = 3
          then e'\<lparr>tx_esme := tx_esme e' @ [new_tx R D self accs smscs pdu mode tc (map tx_session_id (tx_esme e))]\<rparr>
          else e'\<lparr>rx_esme := rx_esme e' @ [new_rx R D self pdu tc (map rx_session_id (rx_esme e))]\<rparr>) ?g;
      Some (g2, tc\<lparr>tc_mode := mode, tc_session_id := allocate_session_id R (open_ids mode e)\<rparr>, ?r) }"
  proof (cases present)
    case None
    then show ?thesis
      using d m by (simp add: authorise_commit_def Let_def gwlist_append_spec [OF G(1)] gwlist_append_spec [OF G(2)]
          gwlist_append_spec [OF G(3)] open_ids_def) (auto simp: new_tx_def new_rx_def)
  next
    case (Some p)
    then show ?thesis
      using d m by (simp add: authorise_commit_def Let_def gwlist_append_spec [OF G(1)] gwlist_append_spec [OF G(2)]
          gwlist_append_spec [OF G(3)] open_ids_def) (auto simp: new_tx_def new_rx_def)
  qed
  have "authorise_commit R D self accs smscs t pdu mode tc present g = do {
      g2 \<leftarrow> update_esme ?r (with_session R D self accs smscs pdu mode tc) ?g;
      Some (g2, tc\<lparr>tc_mode := mode, tc_session_id := allocate_session_id R (open_ids mode e)\<rparr>, ?r) }"
    unfolding c by (subst u) (simp_all add: with_session_def)
  with i show ?thesis by auto
qed

text \<open>The conditions under which a bind is to be accepted.\<close>

definition open_sessions :: "int \<Rightarrow> octstr \<Rightarrow> registry \<Rightarrow> int list" where
  "open_sessions mode name g =
     (case List.find (\<lambda>e. system_id e = name) (esme_list g) of None \<Rightarrow> [] | Some e \<Rightarrow> open_ids mode e)"

definition mode_allowed :: "int \<Rightarrow> smsc_client \<Rightarrow> bool" where
  "mode_allowed mode t \<longleftrightarrow> (allowed_mode t < 4 \<longrightarrow> mode = allowed_mode t) \<and> \<not> (mode = 3 \<and> allowed_mode t = 4)"

definition bind_allowed ::
    "'tm date_env \<Rightarrow> smsc_client \<Rightarrow> octstr option \<Rightarrow> int \<Rightarrow> int list \<Rightarrow> bool" where
  "bind_allowed D t pw mode sessions \<longleftrightarrow>
     (pw = None \<or> pw = Some (password t)) \<and> mode_allowed mode t \<and>
     to_seconds D (validfrom t) \<le> now D \<and> now D \<le> to_seconds D (validto t) \<and>
     int (length sessions) \<noteq> session_limit mode t"

lemma if_merge: "(if a then x else if b then x else y) = (if a \<or> b then x else y)"
  by simp

lemma authorise_check_cases:
  assumes R: "reg_spec R" and g: "reg_inv g" and m: "mode \<in> {1, 2, 3}" and n: "bind_system_id pdu = Some name"
  shows "case smpp_client_find_username (reg_octstr R) accs name of
      None \<Rightarrow> authorise_check R D (Some accs) (Some pdu) mode (Some tc) g = Some (Inl 1)
    | Some t \<Rightarrow>
        (if bind_allowed D t (bind_password pdu) mode (open_sessions mode name g)
         then authorise_check R D (Some accs) (Some pdu) mode (Some tc) g = Some (Inr (t, is_present_esme R name g))
         else \<exists>c. c \<noteq> 0 \<and> authorise_check R D (Some accs) (Some pdu) mode (Some tc) g = Some (Inl c))"
proof (cases "smpp_client_find_username (reg_octstr R) accs name")
  case None
  then show ?thesis using m n by (auto simp: authorise_check_def)
next
  case (Some t)
  have X: "octstr_spec (reg_octstr R)" using R by (simp add: reg_spec_def)
  have pr: "is_present_esme R name g = map_option esme_ref (List.find (\<lambda>e. system_id e = name) (esme_list g))"
    using X by (simp add: is_present_esme_def gw_simps)
  have dr: "deref g (esme_ref e) = Some e" if "List.find (\<lambda>e. system_id e = name) (esme_list g) = Some e" for e
    using that g by (auto simp: deref_Some find_Some_iff)
  have lim: "(mode = 1 \<or> mode = 3) \<and> is_present_esme R name g = None \<and> max_tx_sessions t = 0
      \<or> (mode = 1 \<or> mode = 3) \<and> is_present_esme R name g \<noteq> None
          \<and> int (length (tx_esme (the (deref g (the (is_present_esme R name g)))))) = max_tx_sessions t
      \<or> mode = 2 \<and> is_present_esme R name g = None \<and> max_rx_sessions t = 0
      \<or> mode = 2 \<and> is_present_esme R name g \<noteq> None
          \<and> int (length (rx_esme (the (deref g (the (is_present_esme R name g)))))) = max_rx_sessions t
    \<longleftrightarrow> int (length (open_sessions mode name g)) = session_limit mode t"
    using m by (cases "List.find (\<lambda>e. system_id e = name) (esme_list g)")
      (auto simp: pr dr open_sessions_def open_ids_def session_limit_def)
  have pw: "(bind_password pdu \<noteq> None \<and> octstr_compare (reg_octstr R) (the (bind_password pdu)) (password t) \<noteq> 0)
      \<longleftrightarrow> \<not> (bind_password pdu = None \<or> bind_password pdu = Some (password t))"
    using X by (auto simp: gw_simps)
  have date: "compare_date D (Some (validfrom t)) (Some (validto t)) =
      (if now D < to_seconds D (validfrom t) then Your_Account_Will_Valid_After_Sometime
       else if now D > to_seconds D (validto t) then Your_Account_Is_Not_Valid else Your_Account_Is_Valid)"
    by (auto simp: compare_date_def Let_def)
  have d4: "compare_date D (Some (validfrom t)) (Some (validto t)) = Your_Account_Will_Valid_After_Sometime \<longleftrightarrow>
      now D < to_seconds D (validfrom t)"
    and d5: "(if now D < to_seconds D (validfrom t) then x
        else if compare_date D (Some (validfrom t)) (Some (validto t)) = Your_Account_Is_Not_Valid then y else z) =
      (if now D < to_seconds D (validfrom t) then x else if now D > to_seconds D (validto t) then y else z)"
    for x y z :: "(int + smsc_client \<times> nat option) option"
    by (auto simp: date)
  have mode: "allowed_mode t < 4 \<and> mode \<noteq> allowed_mode t \<or> mode = 3 \<and> allowed_mode t = 4 \<longleftrightarrow> \<not> mode_allowed mode t"
    by (auto simp: mode_allowed_def)
  have r: "(mode > 4 \<or> mode < 1) = False" using m by auto
  let ?check = "authorise_check R D (Some accs) (Some pdu) mode (Some tc) g"
  have "?check =
     (if \<not> (bind_password pdu = None \<or> bind_password pdu = Some (password t)) then Some (Inl 2)
      else if \<not> mode_allowed mode t then Some (Inl 3)
      else if now D < to_seconds D (validfrom t) then Some (Inl 4)
      else if now D > to_seconds D (validto t) then Some (Inl 5)
      else if int (length (open_sessions mode name g)) = session_limit mode t then Some (Inl 10)
      else Some (Inr (t, is_present_esme R name g)))"
    unfolding authorise_check_def
    by (simp only: r n Some Let_def option.case option.sel option.distinct if_False simp_thms if_merge
        disj_assoc lim pw mode d4 d5)
  then show ?thesis by (auto simp: Some bind_allowed_def)
qed

lemma open_sessions_None:
  "is_present_esme R name g = None \<Longrightarrow> reg_spec R \<Longrightarrow> open_sessions mode name g = []"
  by (auto simp: open_sessions_def is_present_None find_Some_iff split: option.splits)

lemma open_sessions_deref:
  assumes "reg_spec R" "reg_inv g" "is_present_esme R name g = Some p" "deref g p = Some e"
  shows "open_sessions mode name g = open_ids mode e" "system_id e = name"
proof -
  have "is_present_esme R name g = map_option esme_ref (List.find (\<lambda>e. system_id e = name) (esme_list g))"
    using assms(1) by (simp add: is_present_esme_def reg_spec_def gw_simps)
  with assms obtain e' where e': "List.find (\<lambda>e. system_id e = name) (esme_list g) = Some e'" "esme_ref e' = p"
    by auto
  then have "deref g p = Some e'" using assms(2) by (auto simp: deref_Some find_Some_iff)
  with e' assms(4) show "open_sessions mode name g = open_ids mode e" "system_id e = name"
    by (simp_all add: open_sessions_def) (auto simp: find_Some_iff)
qed

text \<open>The structure a bind ends up in, and the list with it.\<close>

lemma authorise_commit_ok:
  assumes R: "reg_spec R" and g: "reg_inv g" and lim: "limits_ok (reg_octstr R) accs g"
    and m: "mode \<in> {1, 2, 3}" and n: "bind_system_id pdu = Some name"
    and t: "smpp_client_find_username (reg_octstr R) accs name = Some t"
    and allowed: "int (length (open_sessions mode name g)) \<noteq> session_limit mode t"
  shows "\<exists>g' tc' r e. authorise_commit R D self accs smscs t pdu mode tc (is_present_esme R name g) g = Some (g', tc', r)
    \<and> reg_inv g' \<and> limits_ok (reg_octstr R) accs g'
    \<and> e \<in> set (esme_list g') \<and> esme_ref e = r \<and> system_id e = name
    \<and> open_ids mode e = open_sessions mode name g @ [tc_session_id tc']
    \<and> bindings g' = insert (name, mode = 2, tc_session_id tc', tc_conn tc) (bindings g)"
proof (cases "is_present_esme R name g")
  case None
  let ?e = "new_esme D t pdu (next_ref g)"
  let ?g = "g\<lparr>esme_list := esme_list g @ [?e], next_ref := next_ref g + 1\<rparr>"
  have nn: "name \<notin> system_id ` set (esme_list g)" using None R by (simp add: is_present_None)
  have "deref ?g (next_ref g) = Some ?e"
  proof -
    have "distinct (map esme_ref (esme_list g @ [?e]))"
      using g by (auto simp: reg_inv_def new_esme_def)
    then show ?thesis by (simp add: deref_def find_ref) (simp add: new_esme_def)
  qed
  with authorise_commit_result [OF R m, where present = None and g = g and D = D and t = t and pdu = pdu and e = ?e
      and self = self and accs = accs and smscs = smscs and tc = tc] obtain i where
    i: "i < length (esme_list ?g)" "esme_list ?g ! i = ?e"
      "authorise_commit R D self accs smscs t pdu mode tc None g =
        Some (?g\<lparr>esme_list := (esme_list ?g)[i := with_session R D self accs smscs pdu mode tc ?e]\<rparr>,
          tc\<lparr>tc_mode := mode, tc_session_id := allocate_session_id R (open_ids mode ?e)\<rparr>, next_ref g)"
    by auto
  have "i = length (esme_list g)"
  proof (rule ccontr)
    assume "i \<noteq> length (esme_list g)"
    with i(1,2) have "i < length (esme_list g)" "esme_list g ! i = ?e" by (simp_all add: nth_append)
    then have "?e \<in> set (esme_list g)" by (metis nth_mem)
    with g show False by (auto simp: reg_inv_def new_esme_def)
  qed
  let ?w = "with_session R D self accs smscs pdu mode tc ?e"
  have l: "(esme_list ?g)[i := ?w] = esme_list g @ [?w]" using \<open>i = _\<close> by simp
  have f: "tx_esme ?e = []" "rx_esme ?e = []" "esme_ref ?e = next_ref g" "system_id ?e = name"
    using n by (simp_all add: new_esme_def)
  have o: "open_ids mode ?e = []" "open_sessions mode name g = []"
    using f None R by (simp_all add: open_ids_def open_sessions_None)
  have ok: "esme_ok ?w" using with_session_ok [OF R _ m] f by blast
  have ids: "ids_ok (open_ids mode ?e)" and tl: "within (max_tx_sessions t) (map tx_session_id (tx_esme ?e))"
    "within (max_rx_sessions t) (map rx_session_id (rx_esme ?e))"
    using f o by (simp_all add: ids_ok_def within_def)
  from with_session_within [OF R ids tl _ m] allowed o
  have w: "within (max_tx_sessions t) (map tx_session_id (tx_esme ?w))"
    "within (max_rx_sessions t) (map rx_session_id (rx_esme ?w))" by simp_all
  let ?g' = "?g\<lparr>esme_list := (esme_list ?g)[i := ?w]\<rparr>"
  have "reg_inv ?g'"
    unfolding l using g ok f nn by (auto simp: reg_inv_def less_SucI)
  moreover have "limits_ok (reg_octstr R) accs ?g'"
    unfolding l using lim w t f by (auto simp: limits_ok_def)
  moreover have "?w \<in> set (esme_list ?g')" unfolding l by simp
  moreover have "open_ids mode ?w = open_sessions mode name g @ [allocate_session_id R (open_ids mode ?e)]"
    using o by (simp add: open_ids_with_session)
  moreover have "bindings ?g' = insert (name, mode = 2, allocate_session_id R (open_ids mode ?e), tc_conn tc) (bindings g)"
  proof -
    have "esme_bindings ?e = {}" using f by (simp add: esme_bindings_def)
    then show ?thesis unfolding bindings_def l by (simp add: with_session_bindings [OF m] f)
  qed
  ultimately show ?thesis using i(3) None f by fastforce
next
  case (Some p)
  obtain e where e: "e \<in> set (esme_list g)" "esme_ref e = p" "system_id e = name" "deref g p = Some e"
    using is_present_Some [OF R g Some] by blast
  with authorise_commit_result [OF R m, where present = "Some p" and g = g and D = D and t = t and pdu = pdu and e = e
      and self = self and accs = accs and smscs = smscs and tc = tc] obtain i where
    i: "i < length (esme_list g)" "esme_list g ! i = e"
      "authorise_commit R D self accs smscs t pdu mode tc (Some p) g =
        Some (g\<lparr>esme_list := (esme_list g)[i := with_session R D self accs smscs pdu mode tc e]\<rparr>,
          tc\<lparr>tc_mode := mode, tc_session_id := allocate_session_id R (open_ids mode e)\<rparr>, p)"
    by auto
  let ?w = "with_session R D self accs smscs pdu mode tc e"
  let ?g' = "g\<lparr>esme_list := (esme_list g)[i := ?w]\<rparr>"
  have eok: "esme_ok e" using g e by (simp add: reg_inv_def)
  have o: "open_sessions mode name g = open_ids mode e"
    by (rule open_sessions_deref [OF R g Some e(4)])
  have tl: "within (max_tx_sessions t) (map tx_session_id (tx_esme e))"
    "within (max_rx_sessions t) (map rx_session_id (rx_esme e))"
    using lim e(1,3) t by (auto simp: limits_ok_def)
  have "ids_ok (open_ids mode e)" using eok by (simp add: esme_ok_def open_ids_def)
  from with_session_within [OF R this tl _ m] allowed o
  have w: "within (max_tx_sessions t) (map tx_session_id (tx_esme ?w))"
    "within (max_rx_sessions t) (map rx_session_id (rx_esme ?w))" by simp_all
  have "reg_inv ?g'"
    by (rule reg_inv_replace [OF g i(1) _ _ with_session_ok [OF R disjI1 [OF eok] m]]) (simp_all add: i(2))
  moreover have "limits_ok (reg_octstr R) accs ?g'"
    by (rule limits_replace [OF lim _ w]) (use t e in simp)
  moreover have "?w \<in> set (esme_list ?g')" using i by (auto intro!: set_update_memI)
  moreover have "open_ids mode ?w = open_sessions mode name g @ [allocate_session_id R (open_ids mode e)]"
    by (simp add: open_ids_with_session o)
  moreover have "bindings ?g' = insert (name, mode = 2, allocate_session_id R (open_ids mode e), tc_conn tc) (bindings g)"
  proof -
    have "esme_bindings e \<subseteq> bindings g" using e(1) by (auto simp: bindings_def)
    then show ?thesis
      unfolding bindings_replace [OF g i(1)] i(2) with_session_bindings [OF m] e(3) by blast
  qed
  ultimately show ?thesis using i(3) Some e by fastforce
qed

section \<open>Properties of a bind\<close>

lemma authorise_user_result:
  assumes R: "reg_spec R" and g: "reg_inv g" and lim: "limits_ok (reg_octstr R) accs g"
    and m: "mode \<in> {1, 2, 3}" and n: "bind_system_id pdu = Some name"
  shows "\<exists>code g' tc' r. authorise_user R D self (Some accs) smscs (Some pdu) mode (Some tc) g = Some (code, g', tc', r)
    \<and> reg_inv g' \<and> limits_ok (reg_octstr R) accs g'
    \<and> (code = 0 \<longleftrightarrow> (\<exists>t. smpp_client_find_username (reg_octstr R) accs name = Some t
         \<and> bind_allowed D t (bind_password pdu) mode (open_sessions mode name g)))
    \<and> (code \<noteq> 0 \<longrightarrow> g' = g)
    \<and> (code = 0 \<longrightarrow> (\<exists>e \<in> set (esme_list g'). r = Some (esme_ref e) \<and> system_id e = name
         \<and> open_ids mode e = open_sessions mode name g @ [tc_session_id (the tc')])
       \<and> bindings g' = insert (name, mode = 2, tc_session_id (the tc'), tc_conn tc) (bindings g))"
proof (cases "\<exists>t. smpp_client_find_username (reg_octstr R) accs name = Some t
         \<and> bind_allowed D t (bind_password pdu) mode (open_sessions mode name g)")
  case True
  then obtain t where t: "smpp_client_find_username (reg_octstr R) accs name = Some t"
    and b: "bind_allowed D t (bind_password pdu) mode (open_sessions mode name g)" by blast
  have c: "authorise_check R D (Some accs) (Some pdu) mode (Some tc) g = Some (Inr (t, is_present_esme R name g))"
    using authorise_check_cases [OF R g m n, where accs = accs and D = D and tc = tc] t b by simp
  obtain g' tc' r e where "authorise_commit R D self accs smscs t pdu mode tc (is_present_esme R name g) g = Some (g', tc', r)"
    "reg_inv g'" "limits_ok (reg_octstr R) accs g'" "e \<in> set (esme_list g')" "esme_ref e = r" "system_id e = name"
    "open_ids mode e = open_sessions mode name g @ [tc_session_id tc']"
    "bindings g' = insert (name, mode = 2, tc_session_id tc', tc_conn tc) (bindings g)"
    using authorise_commit_ok [OF R g lim m n t, where D = D and self = self and smscs = smscs and tc = tc] b by (auto simp: bind_allowed_def)
  with c True show ?thesis by (auto simp: authorise_user_def)
next
  case False
  then obtain c where "c \<noteq> 0" "authorise_check R D (Some accs) (Some pdu) mode (Some tc) g = Some (Inl c)"
    using authorise_check_cases [OF R g m n, where accs = accs and D = D and tc = tc]
    by (auto split: option.splits if_splits)
  with False g lim show ?thesis by (auto simp: authorise_user_def)
qed

text \<open>
  C9: \<^verbatim>\<open>authorise_user\<close>, run without interference, always returns; it accepts a bind exactly when the
  account exists, a password, if one is given, is the account's, the mode is allowed, the current time
  lies in the period of the account and the limit on its sessions is not reached.  A refused bind leaves the list as
  it was.  After an accepted one the account has one more session of that kind, whose number is
  written to the connection, and in every case the list keeps its invariant: one structure per account, none
  without sessions, session numbers distinct, positive and, like the number of sessions, within the limits.
\<close>

theorem authorise_user_correct:
  assumes R: "reg_spec R" and g: "reg_inv g" and lim: "limits_ok (reg_octstr R) accs g"
    and m: "mode \<in> {1, 2, 3}" and n: "bind_system_id pdu = Some name"
  shows "\<exists>code g' tc' r. authorise_user R D self (Some accs) smscs (Some pdu) mode (Some tc) g = Some (code, g', tc', r)
    \<and> reg_inv g' \<and> limits_ok (reg_octstr R) accs g'
    \<and> (code = 0 \<longleftrightarrow> (\<exists>t. smpp_client_find_username (reg_octstr R) accs name = Some t
         \<and> bind_allowed D t (bind_password pdu) mode (open_sessions mode name g)))
    \<and> (code \<noteq> 0 \<longrightarrow> g' = g)
    \<and> (code = 0 \<longrightarrow> (\<exists>e \<in> set (esme_list g'). r = Some (esme_ref e) \<and> system_id e = name
         \<and> open_ids mode e = open_sessions mode name g @ [tc_session_id (the tc')])
       \<and> bindings g' = insert (name, mode = 2, tc_session_id (the tc'), tc_conn tc) (bindings g))"
  by (rule authorise_user_result [OF assms])

lemma esme_init_inv [simp]: "reg_inv esme_init" "limits_ok X accs esme_init"
  by (simp_all add: reg_inv_def limits_ok_def esme_init_def)

definition sample_dates :: "int date_env" where
  "sample_dates = \<lparr> now = 50, strptime_dmy = (\<lambda>s. if s = ''a'' then Some 10 else if s = ''b'' then Some 90 else None),
     gw_mktime = id \<rparr>"

definition sample_bind :: bind_pdu where
  "sample_bind = \<lparr> bind_system_id = Some ''acme'', bind_password = Some ''pw'', bind_system_type = None,
     bind_interface_version = 52, bind_addr_ton = 0, bind_addr_npi = 0, bind_address_range = None,
     bind_sequence_number = 7 \<rparr>"

lemma sample_find: "smpp_client_find_username (reg_octstr reg_ref) [sample_account] ''acme'' = Some sample_account"
  by (simp add: smpp_client_find_username_def reg_ref_def octstr_ref_def sample_account_def)

lemma sample_bind_allowed:
  "bind_allowed sample_dates sample_account (bind_password sample_bind) 1 (open_sessions 1 ''acme'' esme_init)"
  by (simp add: bind_allowed_def sample_dates_def sample_account_def sample_bind_def open_sessions_def
      esme_init_def mode_allowed_def to_seconds_def session_limit_def)

theorem authorise_user_correct_witness:
  "\<exists>g' tc' r. authorise_user reg_ref sample_dates 9 (Some [sample_account]) sample_smscs (Some sample_bind) 1
     (Some (tempconn_create 4 ''10.0.0.1'' 1025 3000 1)) esme_init = Some (0, g', tc', r)
   \<and> reg_inv g' \<and> limits_ok (reg_octstr reg_ref) [sample_account] g'
   \<and> (\<exists>e \<in> set (esme_list g'). system_id e = ''acme'' \<and> length (tx_esme e) = 1)"
proof -
  have n: "bind_system_id sample_bind = Some ''acme''" and m: "(1 :: int) \<in> {1, 2, 3}"
    by (simp_all add: sample_bind_def)
  let ?a = "authorise_user reg_ref sample_dates 9 (Some [sample_account]) sample_smscs (Some sample_bind) 1
     (Some (tempconn_create 4 ''10.0.0.1'' 1025 3000 1)) esme_init"
  obtain code g' tc' r where c: "?a = Some (code, g', tc', r)" "reg_inv g'"
    "limits_ok (reg_octstr reg_ref) [sample_account] g'"
    and acc: "code = 0 \<longleftrightarrow> (\<exists>t. smpp_client_find_username (reg_octstr reg_ref) [sample_account] ''acme'' = Some t
         \<and> bind_allowed sample_dates t (bind_password sample_bind) 1 (open_sessions 1 ''acme'' esme_init))"
    and e: "code = 0 \<longrightarrow> (\<exists>e \<in> set (esme_list g'). r = Some (esme_ref e) \<and> system_id e = ''acme''
         \<and> open_ids 1 e = open_sessions 1 ''acme'' esme_init @ [tc_session_id (the tc')])
       \<and> bindings g' = insert (''acme'', (1 :: int) = 2, tc_session_id (the tc'),
           tc_conn (tempconn_create 4 ''10.0.0.1'' 1025 3000 1)) (bindings esme_init)"
    using authorise_user_correct [OF reg_ref_spec esme_init_inv m n, where accs = "[sample_account]"
        and D = sample_dates and self = 9 and smscs = sample_smscs and tc = "tempconn_create 4 ''10.0.0.1'' 1025 3000 1"]
    by (elim exE conjE) (rule that)
  have "code = 0" unfolding acc using sample_find sample_bind_allowed by blast
  moreover have "open_sessions 1 ''acme'' esme_init = []" by (simp add: open_sessions_def esme_init_def)
  ultimately have "\<exists>e \<in> set (esme_list g'). system_id e = ''acme'' \<and> length (tx_esme e) = 1"
    using e by (auto simp: open_ids_def dest: arg_cong [where f = length] split: if_splits)
  with c \<open>code = 0\<close> show ?thesis by auto
qed

text \<open>
  When two threads authorise binds of the same account and both finish the first part before either enters
  the second, each appends a structure of its own: the account is in the list twice, and the limit on its
  sessions, checked before the lock is taken, is not enforced.
\<close>

theorem authorise_user_race:
  assumes R: "reg_spec R" and n: "bind_system_id pdu = Some name"
    and c1: "authorise_check R D (Some accs) (Some pdu) 1 (Some tc1) g = Some (Inr (t, None))"
    and c2: "authorise_check R D (Some accs) (Some pdu) 1 (Some tc2) g = Some (Inr (t, None))"
    and inv: "reg_inv g"
  shows "\<exists>g1 tc1' r1 g2 tc2' r2.
    authorise_commit R D self1 accs smscs t pdu 1 tc1 None g = Some (g1, tc1', r1) \<and>
    authorise_commit R D self2 accs smscs t pdu 1 tc2 None g1 = Some (g2, tc2', r2) \<and>
    \<not> distinct (map system_id (esme_list g2)) \<and> \<not> reg_inv g2"
proof -
  have step: "\<exists>g' tc' r. authorise_commit R D self accs smscs t pdu 1 tc None h = Some (g', tc', r) \<and>
      map system_id (esme_list g') = map system_id (esme_list h) @ [name] \<and>
      map esme_ref (esme_list g') = map esme_ref (esme_list h) @ [next_ref h] \<and> next_ref g' = next_ref h + 1"
    if h: "distinct (map esme_ref (esme_list h))" "\<forall>r \<in> set (map esme_ref (esme_list h)). r < next_ref h"
    for h self tc
  proof -
    let ?e = "new_esme D t pdu (next_ref h)"
    let ?h = "h\<lparr>esme_list := esme_list h @ [?e], next_ref := next_ref h + 1\<rparr>"
    have "distinct (map esme_ref (esme_list h @ [?e]))" using h by (auto simp: new_esme_def)
    then have d: "deref ?h (next_ref h) = Some ?e" by (simp add: deref_def find_ref) (simp add: new_esme_def)
    obtain i where i: "i < length (esme_list ?h)" "esme_list ?h ! i = ?e"
      "authorise_commit R D self accs smscs t pdu 1 tc None h =
        Some (?h\<lparr>esme_list := (esme_list ?h)[i := with_session R D self accs smscs pdu 1 tc ?e]\<rparr>,
          tc\<lparr>tc_mode := 1, tc_session_id := allocate_session_id R (open_ids 1 ?e)\<rparr>, next_ref h)"
      using authorise_commit_result [OF R, where mode = 1 and present = None and g = h and D = D and t = t
          and pdu = pdu and e = ?e and self = self and accs = accs and smscs = smscs and tc = tc] d by auto
    let ?l = "(esme_list ?h)[i := with_session R D self accs smscs pdu 1 tc ?e]"
    have "map f ?l = map f (esme_list ?h)" if "\<And>e. f (with_session R D self accs smscs pdu 1 tc e) = f e" for f :: "esme \<Rightarrow> 'b"
      using i(1,2) that by (intro map_update_same) simp_all
    from this [of system_id] this [of esme_ref] i(3) n show ?thesis by (simp add: new_esme_def)
  qed
  have inv': "distinct (map esme_ref (esme_list g))" "\<forall>r \<in> set (map esme_ref (esme_list g)). r < next_ref g"
    using inv by (auto simp: reg_inv_def)
  from step [OF inv', of self1 tc1] obtain g1 tc1' r1 where
    g1: "authorise_commit R D self1 accs smscs t pdu 1 tc1 None g = Some (g1, tc1', r1)"
      "map system_id (esme_list g1) = map system_id (esme_list g) @ [name]"
      "map esme_ref (esme_list g1) = map esme_ref (esme_list g) @ [next_ref g]" "next_ref g1 = next_ref g + 1"
    by blast
  have inv1: "distinct (map esme_ref (esme_list g1))" "\<forall>r \<in> set (map esme_ref (esme_list g1)). r < next_ref g1"
    unfolding g1 using inv' by auto
  from step [OF inv1, of self2 tc2] obtain g2 tc2' r2 where
    g2: "authorise_commit R D self2 accs smscs t pdu 1 tc2 None g1 = Some (g2, tc2', r2)"
      "map system_id (esme_list g2) = map system_id (esme_list g1) @ [name]"
    by blast
  have "\<not> distinct (map system_id (esme_list g2))" unfolding g2(2) g1(2) by simp
  with g1(1) g2(1) show ?thesis unfolding reg_inv_def by blast
qed

lemma sample_check:
  "authorise_check reg_ref sample_dates (Some [sample_account]) (Some sample_bind) 1 (Some tc) esme_init =
     Some (Inr (sample_account, None))"
proof -
  have n: "bind_system_id sample_bind = Some ''acme''" and m: "(1 :: int) \<in> {1, 2, 3}"
    by (simp_all add: sample_bind_def)
  have "is_present_esme reg_ref ''acme'' esme_init = None"
    by (simp add: is_present_esme_def esme_init_def)
  then show ?thesis
    using authorise_check_cases [OF reg_ref_spec esme_init_inv(1) m n, where accs = "[sample_account]"
        and D = sample_dates and tc = tc] sample_find sample_bind_allowed by simp
qed

theorem authorise_user_race_witness:
  "\<exists>g1 tc1' r1 g2 tc2' r2.
    authorise_commit reg_ref sample_dates 8 [sample_account] sample_smscs sample_account sample_bind 1
      (tempconn_create 4 ''10.0.0.1'' 1025 3000 1) None esme_init = Some (g1, tc1', r1) \<and>
    authorise_commit reg_ref sample_dates 9 [sample_account] sample_smscs sample_account sample_bind 1
      (tempconn_create 5 ''10.0.0.1'' 1026 3000 1) None g1 = Some (g2, tc2', r2) \<and>
    \<not> distinct (map system_id (esme_list g2)) \<and> \<not> reg_inv g2"
  by (rule authorise_user_race [OF reg_ref_spec _ sample_check sample_check esme_init_inv(1)])
    (simp add: sample_bind_def)

text \<open>
  The number given to a new session is positive, not in use among the open sessions and the lowest such
  number.
\<close>

theorem allocate_session_id_lowest:
  assumes "reg_spec R" "\<forall>i \<in> set sessions. 1 \<le> i" "distinct sessions"
  shows "allocate_session_id R sessions \<notin> set sessions \<and> 1 \<le> allocate_session_id R sessions \<and>
    (\<forall>m. 1 \<le> m \<longrightarrow> m < allocate_session_id R sessions \<longrightarrow> m \<in> set sessions)"
proof -
  have "ids_ok sessions" using assms by (simp add: ids_ok_def)
  with session_numbers.fresh [OF allocate_session_numbers [OF assms(1)]]
    session_numbers.least [OF allocate_session_numbers [OF assms(1)]]
  show ?thesis by blast
qed

theorem allocate_session_id_lowest_witness:
  "allocate_session_id reg_ref [4, 1, 2] = 3 \<and> 3 \<notin> set [4, 1, 2 :: int]"
proof -
  have "allocate_session_id reg_ref [4, 1, 2] = 3" by code_simp
  with allocate_session_id_lowest [OF reg_ref_spec, of "[4, 1, 2]"] show ?thesis by simp
qed

section \<open>The end of a session\<close>

lemma reg_inv_remove:
  assumes g: "reg_inv g" and i: "i < length (esme_list g)"
  shows "reg_inv (g\<lparr>esme_list := take i (esme_list g) @ drop (Suc i) (esme_list g)\<rparr>)"
    and "bindings (g\<lparr>esme_list := take i (esme_list g) @ drop (Suc i) (esme_list g)\<rparr>) =
      bindings g - esme_bindings (esme_list g ! i)"
proof -
  have s: "set (take i (esme_list g) @ drop (Suc i) (esme_list g)) = set (esme_list g) - {esme_list g ! i}"
    by (rule set_remove_nth [OF reg_inv_distinct [OF g] i])
  show "reg_inv (g\<lparr>esme_list := take i (esme_list g) @ drop (Suc i) (esme_list g)\<rparr>)"
    using g s distinct_map_remove_nth [of esme_ref "esme_list g" i] distinct_map_remove_nth [of system_id "esme_list g" i] i
    by (simp add: reg_inv_def del: set_append map_append distinct_append)
  show "bindings (g\<lparr>esme_list := take i (esme_list g) @ drop (Suc i) (esme_list g)\<rparr>) =
      bindings g - esme_bindings (esme_list g ! i)"
    unfolding bindings_def by (simp add: s del: set_append, rule UN_remove)
      (use esme_bindings_disjoint [OF g] i in auto)
qed

lemma drop_session_ok:
  assumes G: "gwlist_spec G" and ids: "ids_ok (map sid l)" and s: "s \<in> set l" "sid s = session_id"
  shows "\<exists>l'. drop_session G sid session_id l = Some (s, l') \<and> set l' = set l - {s} \<and> ids_ok (map sid l') \<and>
    length l' < length l"
proof -
  have d: "distinct (map sid l)" using ids by (simp add: ids_ok_def)
  obtain j where j: "j < length l" "l ! j = s" using s by (auto simp: in_set_conv_nth)
  have f: "first_pos (\<lambda>s. sid s = session_id) l = Some j"
    using first_pos_key [OF d j(1)] j(2) s(2) by simp
  let ?l = "take j l @ drop (Suc j) l"
  have sl: "set ?l = set l - {s}" using set_remove_nth(1) [of l j] d j by (auto simp: distinct_map)
  have "distinct (map sid ?l)" by (rule distinct_map_remove_nth [OF d j(1)])
  moreover have "set (map sid ?l) \<subseteq> set (map sid l)" unfolding set_map sl by auto
  ultimately have "ids_ok (map sid ?l)" using ids unfolding ids_ok_def by blast
  then show ?thesis
    using f G j sl by (auto simp: drop_session_def gw_simps)
qed

lemma within_shrink:
  "within limit (map f l) \<Longrightarrow> length l' \<le> length l \<Longrightarrow> set l' \<subseteq> set l \<Longrightarrow> within limit (map f l')"
  by (auto simp: within_def)

text \<open>What is left of a structure when one of its sessions goes.\<close>

lemma drop_from_esme:
  assumes R: "reg_spec R" and e: "esme_ok e" and m: "mode \<in> {1, 2}" and s: "session_id \<in> set (open_ids mode e)"
  shows "\<exists>conn e'. (if mode = 1 \<and> session_id > 0
        then do {
          (s, l) \<leftarrow> drop_session (reg_tx R) tx_session_id session_id (tx_esme e);
          Some ([tx_conn s], e\<lparr>tx_esme := l\<rparr>) }
        else if mode = 2 \<and> session_id > 0
        then do {
          (s, l) \<leftarrow> drop_session (reg_rx R) rx_session_id session_id (rx_esme e);
          Some ([rx_conn s], e\<lparr>rx_esme := l\<rparr>) }
        else Some ([], e)) = Some ([conn], e')
    \<and> esme_ref e' = esme_ref e \<and> system_id e' = system_id e
    \<and> esme_bindings e' = esme_bindings e - {(system_id e, mode = 2, session_id, conn)}
    \<and> (system_id e, mode = 2, session_id, conn) \<in> esme_bindings e
    \<and> (tx_esme e' \<noteq> [] \<or> rx_esme e' \<noteq> [] \<longrightarrow> esme_ok e')
    \<and> (\<forall>k. within k (map tx_session_id (tx_esme e)) \<longrightarrow> within k (map tx_session_id (tx_esme e')))
    \<and> (\<forall>k. within k (map rx_session_id (rx_esme e)) \<longrightarrow> within k (map rx_session_id (rx_esme e')))"
proof (cases "mode = 1")
  case True
  have G: "gwlist_spec (reg_tx R)" using R by (simp add: reg_spec_def)
  from True obtain x where x: "x \<in> set (tx_esme e)" "tx_session_id x = session_id"
    using s by (auto simp: open_ids_def)
  have ids: "ids_ok (map tx_session_id (tx_esme e))" using e by (simp add: esme_ok_def)
  obtain l where l: "drop_session (reg_tx R) tx_session_id session_id (tx_esme e) = Some (x, l)"
    "set l = set (tx_esme e) - {x}" "ids_ok (map tx_session_id l)" "length l < length (tx_esme e)"
    using drop_session_ok [OF G ids x] by blast
  have inj: "inj_on tx_session_id (set (tx_esme e))" using ids by (simp add: ids_ok_def distinct_map)
  have pos: "session_id > 0" using ids x by (force simp: ids_ok_def)
  have "esme_bindings (e\<lparr>tx_esme := l\<rparr>) = esme_bindings e - {(system_id e, False, session_id, tx_conn x)}"
    using inj x l(2) by (auto simp: esme_bindings_def inj_on_def)
  moreover have "(system_id e, False, session_id, tx_conn x) \<in> esme_bindings e"
    using x by (auto simp: esme_bindings_def)
  moreover have "tx_esme (e\<lparr>tx_esme := l\<rparr>) \<noteq> [] \<or> rx_esme (e\<lparr>tx_esme := l\<rparr>) \<noteq> [] \<longrightarrow> esme_ok (e\<lparr>tx_esme := l\<rparr>)"
    using e l(2,3) by (auto simp: esme_ok_def)
  moreover have "\<forall>k. within k (map tx_session_id (tx_esme e)) \<longrightarrow> within k (map tx_session_id l)"
    using l(2,4) by (intro allI impI) (erule within_shrink, auto)
  ultimately show ?thesis
    using True pos l(1) by (intro exI [of _ "tx_conn x"] exI [of _ "e\<lparr>tx_esme := l\<rparr>"]) simp
next
  case False
  have G: "gwlist_spec (reg_rx R)" using R by (simp add: reg_spec_def)
  from False m have m2: "mode = 2" by simp
  then obtain x where x: "x \<in> set (rx_esme e)" "rx_session_id x = session_id"
    using s by (auto simp: open_ids_def)
  have ids: "ids_ok (map rx_session_id (rx_esme e))" using e by (simp add: esme_ok_def)
  obtain l where l: "drop_session (reg_rx R) rx_session_id session_id (rx_esme e) = Some (x, l)"
    "set l = set (rx_esme e) - {x}" "ids_ok (map rx_session_id l)" "length l < length (rx_esme e)"
    using drop_session_ok [OF G ids x] by blast
  have inj: "inj_on rx_session_id (set (rx_esme e))" using ids by (simp add: ids_ok_def distinct_map)
  have pos: "session_id > 0" using ids x by (force simp: ids_ok_def)
  have "esme_bindings (e\<lparr>rx_esme := l\<rparr>) = esme_bindings e - {(system_id e, True, session_id, rx_conn x)}"
    using inj x l(2) by (auto simp: esme_bindings_def inj_on_def)
  moreover have "(system_id e, True, session_id, rx_conn x) \<in> esme_bindings e"
    using x by (auto simp: esme_bindings_def)
  moreover have "tx_esme (e\<lparr>rx_esme := l\<rparr>) \<noteq> [] \<or> rx_esme (e\<lparr>rx_esme := l\<rparr>) \<noteq> [] \<longrightarrow> esme_ok (e\<lparr>rx_esme := l\<rparr>)"
    using e l(2,3) by (auto simp: esme_ok_def)
  moreover have "\<forall>k. within k (map rx_session_id (rx_esme e)) \<longrightarrow> within k (map rx_session_id l)"
    using l(2,4) by (intro allI impI) (erule within_shrink, auto)
  ultimately show ?thesis
    using m2 pos l(1) by (intro exI [of _ "rx_conn x"] exI [of _ "e\<lparr>rx_esme := l\<rparr>"]) simp
qed

lemma esme_destroy_result:
  assumes R: "reg_spec R" and g: "reg_inv g" and lim: "limits_ok (reg_octstr R) accs g"
    and d: "deref g r = Some e" and m: "mode \<in> {1, 2}" and s: "session_id \<in> set (open_ids mode e)"
  shows "\<exists>conn g'. esme_destroy R (Some r) mode session_id g = Some ([conn], g')
    \<and> reg_inv g' \<and> limits_ok (reg_octstr R) accs g'
    \<and> (system_id e, mode = 2, session_id, conn) \<in> bindings g
    \<and> bindings g' = bindings g - {(system_id e, mode = 2, session_id, conn)}"
proof -
  have e: "e \<in> set (esme_list g)" "esme_ref e = r" and eok: "esme_ok e"
    using d g by (auto simp: deref_Some reg_inv_def)
  obtain conn e' where drop: "(if mode = 1 \<and> session_id > 0
        then do {
          (s, l) \<leftarrow> drop_session (reg_tx R) tx_session_id session_id (tx_esme e);
          Some ([tx_conn s], e\<lparr>tx_esme := l\<rparr>) }
        else if mode = 2 \<and> session_id > 0
        then do {
          (s, l) \<leftarrow> drop_session (reg_rx R) rx_session_id session_id (rx_esme e);
          Some ([rx_conn s], e\<lparr>rx_esme := l\<rparr>) }
        else Some ([], e)) = Some ([conn], e')"
    and e': "esme_ref e' = esme_ref e" "system_id e' = system_id e"
      "esme_bindings e' = esme_bindings e - {(system_id e, mode = 2, session_id, conn)}"
      "(system_id e, mode = 2, session_id, conn) \<in> esme_bindings e"
      "tx_esme e' \<noteq> [] \<or> rx_esme e' \<noteq> [] \<longrightarrow> esme_ok e'"
      "\<forall>k. within k (map tx_session_id (tx_esme e)) \<longrightarrow> within k (map tx_session_id (tx_esme e'))"
      "\<forall>k. within k (map rx_session_id (rx_esme e)) \<longrightarrow> within k (map rx_session_id (rx_esme e'))"
    using drop_from_esme [OF R eok m s] by blast
  obtain i where i: "i < length (esme_list g)" "esme_list g ! i = e"
    "update_esme r (\<lambda>_. e') g = Some (g\<lparr>esme_list := (esme_list g)[i := e']\<rparr>)"
    using update_esme_at [OF d, of "\<lambda>_. e'"] by blast
  have "first_pos (\<lambda>e1. system_id e1 = system_id e) (esme_list g) = Some i"
    using first_pos_key [of system_id "esme_list g" i] g i(1,2) by (simp add: reg_inv_def)
  then have fp: "first_pos (\<lambda>e1. octstr_compare (reg_octstr R) (system_id e) (system_id e1) = 0) (esme_list g) = Some i"
    using R by (simp add: reg_spec_def gw_simps eq_commute [of "system_id e"])
  let ?g1 = "g\<lparr>esme_list := (esme_list g)[i := e']\<rparr>"
  let ?g2 = "if tx_esme e' = [] \<and> rx_esme e' = []
      then ?g1\<lparr>esme_list := gwlist_delete (reg_esme R) (esme_list ?g1) i 1\<rparr> else ?g1"
  have r: "esme_destroy R (Some r) mode session_id g = Some ([conn], ?g2)"
    unfolding esme_destroy_def by (simp add: d fp drop i(3) del: if_split)
  obtain t where t: "smpp_client_find_username (reg_octstr R) accs (system_id e) = Some t"
    "within (max_tx_sessions t) (map tx_session_id (tx_esme e))"
    "within (max_rx_sessions t) (map rx_session_id (rx_esme e))"
    using lim e(1) by (auto simp: limits_ok_def)
  have eb: "esme_bindings e \<subseteq> bindings g" using e(1) by (auto simp: bindings_def)
  have "reg_inv ?g2 \<and> limits_ok (reg_octstr R) accs ?g2 \<and> bindings ?g2 = bindings g - {(system_id e, mode = 2, session_id, conn)}"
  proof (cases "tx_esme e' = [] \<and> rx_esme e' = []")
    case True
    have "gwlist_delete (reg_esme R) ((esme_list g)[i := e']) i 1 = take i (esme_list g) @ drop (Suc i) (esme_list g)"
      using R i(1) by (simp add: reg_spec_def gw_simps)
    then have g2: "?g2 = g\<lparr>esme_list := take i (esme_list g) @ drop (Suc i) (esme_list g)\<rparr>" using True by simp
    have "esme_bindings e = {(system_id e, mode = 2, session_id, conn)}"
      using True e'(3,4) by (auto simp: esme_bindings_def)
    then show ?thesis
      unfolding g2 using reg_inv_remove [OF g i(1)] lim i(2)
      by (auto simp: limits_ok_def dest: in_set_takeD in_set_dropD)
  next
    case False
    have "reg_inv ?g1" by (rule reg_inv_replace [OF g i(1)]) (use e' False i(2) in auto)
    moreover have "limits_ok (reg_octstr R) accs ?g1"
      by (rule limits_replace [OF lim]) (use e' t in auto)
    moreover have "bindings ?g1 = bindings g - {(system_id e, mode = 2, session_id, conn)}"
      unfolding bindings_replace [OF g i(1)] i(2) e'(3) using eb e'(4) esme_bindings_disjoint [OF g] by auto
    ultimately show ?thesis using False by auto
  qed
  with r eb e'(4) show ?thesis by blast
qed

text \<open>
  C24: \<^verbatim>\<open>esme_destroy\<close> of an open session returns; it destroys the connection of that session and
  no other, takes exactly this binding out of the list, and drops the structure of the account with its last session, so
  that the invariant and the limits still hold.
\<close>

theorem esme_destroy_correct:
  assumes R: "reg_spec R" and g: "reg_inv g" and lim: "limits_ok (reg_octstr R) accs g"
    and d: "deref g r = Some e" and m: "mode \<in> {1, 2}" and s: "session_id \<in> set (open_ids mode e)"
  shows "\<exists>conn g'. esme_destroy R (Some r) mode session_id g = Some ([conn], g')
    \<and> reg_inv g' \<and> limits_ok (reg_octstr R) accs g'
    \<and> (system_id e, mode = 2, session_id, conn) \<in> bindings g
    \<and> bindings g' = bindings g - {(system_id e, mode = 2, session_id, conn)}"
  by (rule esme_destroy_result [OF assms])

definition sample_esme :: esme where
  "sample_esme = with_session reg_ref sample_dates 9 [sample_account] sample_smscs sample_bind 1
     (tempconn_create 4 ''10.0.0.1'' 1025 3000 1) (new_esme sample_dates sample_account sample_bind 0)"

definition sample_registry :: registry where
  "sample_registry = \<lparr> esme_list = [sample_esme], next_ref = 1 \<rparr>"

lemma sample_esme_facts:
  "esme_ok sample_esme" "esme_ref sample_esme = 0" "system_id sample_esme = ''acme''" "open_ids 1 sample_esme = [1]"
proof -
  show "esme_ok sample_esme"
    unfolding sample_esme_def by (rule with_session_ok) (simp_all add: new_esme_def)
  show "esme_ref sample_esme = 0" "system_id sample_esme = ''acme''"
    by (simp_all add: sample_esme_def new_esme_def sample_bind_def)
  have "open_ids 1 (new_esme sample_dates sample_account sample_bind 0) = []"
    by (simp add: open_ids_def new_esme_def)
  then show "open_ids 1 sample_esme = [1]"
    unfolding sample_esme_def open_ids_with_session by (simp add: allocate_session_id_def)
qed

lemma sample_registry_inv:
  "reg_inv sample_registry" "limits_ok (reg_octstr reg_ref) [sample_account] sample_registry"
  "deref sample_registry 0 = Some sample_esme"
proof -
  show "reg_inv sample_registry" by (simp add: reg_inv_def sample_registry_def sample_esme_facts)
  show "deref sample_registry 0 = Some sample_esme"
    by (simp add: deref_def sample_registry_def sample_esme_facts)
  show "limits_ok (reg_octstr reg_ref) [sample_account] sample_registry"
    using sample_find
    by (auto simp: limits_ok_def sample_registry_def sample_esme_facts within_def sample_account_def)
qed

theorem esme_destroy_correct_witness:
  "\<exists>conn g'. esme_destroy reg_ref (Some 0) 1 1 sample_registry = Some ([conn], g') \<and> reg_inv g'"
proof -
  have "(1 :: int) \<in> {1, 2}" "(1 :: int) \<in> set (open_ids 1 sample_esme)" by (simp_all add: sample_esme_facts)
  from esme_destroy_correct [OF reg_ref_spec sample_registry_inv this] show ?thesis by blast
qed

section \<open>The life of the list\<close>

lemma update_session_same [simp]:
  "tx_session_id (update_session p tx) = tx_session_id tx" "tx_conn (update_session p tx) = tx_conn tx"
  "tx_mode (update_session p tx) = tx_mode tx"
  by (simp_all add: update_session_def)

lemma update_esme_conn_keeps:
  assumes "reg_inv g"
  shows "reg_inv (update_esme_conn R accs smscs g)"
    and "bindings (update_esme_conn R accs smscs g) = bindings g"
    and "limits_ok X accs' g \<Longrightarrow> limits_ok X accs' (update_esme_conn R accs smscs g)"
proof -
  have m: "map tx_session_id (map (update_session p) l) = map tx_session_id l" for p l by simp
  show "reg_inv (update_esme_conn R accs smscs g)"
    using assms by (auto simp: reg_inv_def update_esme_conn_def esme_ok_def m comp_def)
  show "bindings (update_esme_conn R accs smscs g) = bindings g"
    by (simp add: bindings_def update_esme_conn_def esme_bindings_def image_image)
  show "limits_ok X accs' g \<Longrightarrow> limits_ok X accs' (update_esme_conn R accs smscs g)"
    by (simp add: limits_ok_def update_esme_conn_def comp_def)
qed

text \<open>
  The operations on the list, one after the other: binds, ends of sessions and reports on the SMSCs, at any time
  and with any state of the SMSCs.
\<close>

inductive reg_step :: "reg_ops \<Rightarrow> accounts \<Rightarrow> registry \<Rightarrow> registry \<Rightarrow> bool" for R accs where
  bind: "reg_step R accs g g'"
    if "authorise_user R (D :: int date_env) self (Some accs) smscs (Some pdu) mode (Some tc) g = Some (code, g', tc', r)"
      and "mode \<in> {1, 2, 3}"
| unbind: "reg_step R accs g g'"
    if "deref g r = Some e" and "mode \<in> {1, 2}" and "session_id \<in> set (open_ids mode e)"
      and "esme_destroy R (Some r) mode session_id g = Some (conns, g')"
| smsc_report: "reg_step R accs g (update_esme_conn R accs smscs g)"

inductive reg_reachable :: "reg_ops \<Rightarrow> accounts \<Rightarrow> registry \<Rightarrow> bool" for R accs where
  start: "reg_reachable R accs esme_init"
| step: "reg_reachable R accs g \<Longrightarrow> reg_step R accs g g' \<Longrightarrow> reg_reachable R accs g'"

lemma authorise_user_name:
  "authorise_user R D self (Some accs) smscs (Some pdu) mode (Some tc) g = Some res \<Longrightarrow> mode \<in> {1, 2, 3} \<Longrightarrow>
     \<exists>name. bind_system_id pdu = Some name"
  by (cases "bind_system_id pdu") (auto simp: authorise_user_def authorise_check_def)

lemma authorise_user_keeps [inv_intros]:
  assumes R: "reg_spec R" and g: "reg_inv g" and lim: "limits_ok (reg_octstr R) accs g" and m: "mode \<in> {1, 2, 3}"
    and a: "authorise_user R D self (Some accs) smscs (Some pdu) mode (Some tc) g = Some (code, g', tc', r)"
  shows "reg_inv g' \<and> limits_ok (reg_octstr R) accs g'"
proof -
  obtain name where n: "bind_system_id pdu = Some name" using authorise_user_name [OF a m] ..
  show ?thesis
    using authorise_user_result [OF R g lim m n, where D = D and self = self and smscs = smscs and tc = tc] a by auto
qed

lemma reg_step_keeps [inv_intros]:
  assumes R: "reg_spec R" and st: "reg_step R accs g g'" and inv: "reg_inv g" "limits_ok (reg_octstr R) accs g"
  shows "reg_inv g' \<and> limits_ok (reg_octstr R) accs g'"
  using st
proof (cases rule: reg_step.cases)
  case bind
  then show ?thesis using authorise_user_keeps [OF R inv] by blast
next
  case (unbind r e mode session_id conns)
  then show ?thesis using esme_destroy_result [OF R inv, of r e mode session_id] by auto
next
  case smsc_report
  then show ?thesis using update_esme_conn_keeps [OF inv(1)] inv(2) by blast
qed


lemma sample_reachable:
  "\<exists>g. reg_reachable reg_ref [sample_account] g \<and> bindings g = {(''acme'', False, 1, 4)}"
proof -
  have n: "bind_system_id sample_bind = Some ''acme''" and m: "(1 :: int) \<in> {1, 2, 3}"
    by (simp_all add: sample_bind_def)
  let ?tc = "tempconn_create 4 ''10.0.0.1'' 1025 3000 1"
  have o: "open_sessions 1 ''acme'' esme_init = []" "is_present_esme reg_ref ''acme'' esme_init = None"
    by (simp_all add: open_sessions_def esme_init_def is_present_esme_def)
  have "int (length (open_sessions 1 ''acme'' esme_init)) \<noteq> session_limit 1 sample_account"
    using sample_bind_allowed by (simp add: bind_allowed_def)
  from authorise_commit_ok [OF reg_ref_spec esme_init_inv m n sample_find this, where D = sample_dates
      and self = 9 and smscs = sample_smscs and tc = ?tc]
  obtain g' tc' r e where c: "authorise_commit reg_ref sample_dates 9 [sample_account] sample_smscs sample_account sample_bind 1 ?tc
      None esme_init = Some (g', tc', r)" and b: "bindings g' = insert (''acme'', False, tc_session_id tc', tc_conn ?tc) (bindings esme_init)"
    and s: "open_ids 1 e = [tc_session_id tc']" "e \<in> set (esme_list g')" "reg_inv g'"
    by (auto simp: o)
  have "authorise_user reg_ref sample_dates 9 (Some [sample_account]) sample_smscs (Some sample_bind) 1 (Some ?tc) esme_init
      = Some (0, g', Some tc', Some r)"
    using c by (simp add: authorise_user_def sample_check)
  then have "reg_reachable reg_ref [sample_account] g'"
    by (rule reg_reachable.step [OF reg_reachable.start reg_step.bind [OF _ m]])
  moreover have "tc_session_id tc' = 1"
  proof -
    have "deref \<lparr> esme_list = [new_esme sample_dates sample_account sample_bind 0], next_ref = 1 \<rparr> 0
        = Some (new_esme sample_dates sample_account sample_bind 0)" by (simp add: deref_def new_esme_def)
    then show ?thesis
      using c by (auto simp: authorise_commit_def esme_init_def gw_simps reg_ref_def new_esme_def new_tx_def
          allocate_session_id_def bind_eq_Some_conv deref_def Let_def)
  qed
  ultimately show ?thesis using b by (auto simp: bindings_def esme_init_def tempconn_create_def)
qed


text \<open>
  After \<^verbatim>\<open>update_esme_conn\<close> a transmitter session is marked as without SMSC exactly when its account is unknown or no
  transmitting SMSC is connected, whatever its state was: a request to unbind or to disconnect the
  session that is still pending in its state is overwritten.
\<close>

theorem update_esme_conn_status:
  assumes "octstr_spec (reg_octstr R)" "e \<in> set (esme_list (update_esme_conn R accs smscs g))" "tx \<in> set (tx_esme e)"
  shows "tx_status tx = ESME_SMSC_UNCONNECTED \<longleftrightarrow>
    \<not> (system_id e \<in> account_name ` set accs \<and> (\<exists>s \<in> set smscs. conn_mode s \<in> {1, 3} \<and> conn_status s = 1))"
proof -
  from assms(2) obtain e0 where e0: "e0 \<in> set (esme_list g)"
    "e = e0\<lparr>tx_esme := map (update_session (check_smsc_conn (reg_octstr R) (Some (system_id e0)) accs smscs)) (tx_esme e0)\<rparr>"
    by (auto simp: update_esme_conn_def)
  let ?p = "check_smsc_conn (reg_octstr R) (Some (system_id e)) accs smscs"
  from e0 assms(3) obtain tx0 where tx0: "tx = update_session ?p tx0" by auto
  have p: "?p = (if system_id e \<in> account_name ` set accs then is_smsc_present smscs else 0)"
    using find_username_None [OF assms(1), of accs "system_id e"] by (simp add: check_smsc_conn_def)
  have "?p \<in> {0, 1, 2}" using is_smsc_present_range [of smscs] by (auto simp: p)
  then have "tx_status tx = ESME_SMSC_UNCONNECTED \<longleftrightarrow> ?p \<noteq> 2"
    unfolding tx0 by (auto simp: update_session_def)
  also have "\<dots> \<longleftrightarrow> \<not> (system_id e \<in> account_name ` set accs \<and> (\<exists>s \<in> set smscs. conn_mode s \<in> {1, 3} \<and> conn_status s = 1))"
    unfolding p using is_smsc_present_connected [of smscs] by auto
  finally show ?thesis .
qed

theorem update_esme_conn_status_witness:
  "\<forall>tx0. tx_status (hd (tx_esme (hd (esme_list (update_esme_conn reg_ref [sample_account] []
       \<lparr> esme_list = [sample_esme\<lparr>tx_esme := [tx0\<lparr>tx_status := ESME_SEND_UNBIND\<rparr>]\<rparr>], next_ref = 1 \<rparr>))))) =
     ESME_SMSC_UNCONNECTED"
proof
  fix tx0
  let ?g = "\<lparr> esme_list = [sample_esme\<lparr>tx_esme := [tx0\<lparr>tx_status := ESME_SEND_UNBIND\<rparr>]\<rparr>], next_ref = 1 \<rparr>"
  let ?u = "update_esme_conn reg_ref [sample_account] [] ?g"
  have "octstr_spec (reg_octstr reg_ref)" by (simp add: reg_ref_def)
  moreover have "hd (esme_list ?u) \<in> set (esme_list ?u)" "hd (tx_esme (hd (esme_list ?u))) \<in> set (tx_esme (hd (esme_list ?u)))"
    by (simp_all add: update_esme_conn_def)
  ultimately show "tx_status (hd (tx_esme (hd (esme_list ?u)))) = ESME_SMSC_UNCONNECTED"
    using update_esme_conn_status by simp
qed

section \<open>Choosing a session for a delivery\<close>

lemma draw_trx_Some: "draw_trx rand txs j rounds = Some t \<Longrightarrow> txs \<noteq> [] \<Longrightarrow> t \<in> set txs \<and> tx_mode t = 3"
  by (induction rounds arbitrary: j) (auto simp: Let_def split: if_splits)

lemma draw_trx_None: "draw_trx rand txs j rounds = None \<longleftrightarrow> (\<forall>k < rounds. tx_mode (txs ! (rand (j + k) mod length txs)) \<noteq> 3)"
proof (induction rounds arbitrary: j)
  case 0
  then show ?case by simp
next
  case (Suc rounds)
  have "(\<forall>k < Suc rounds. P k) \<longleftrightarrow> P 0 \<and> (\<forall>k < rounds. P (Suc k))" for P :: "nat \<Rightarrow> bool"
    by (auto simp: less_Suc_eq_0_disj)
  then show ?case using Suc by (simp add: Let_def)
qed

text \<open>
  A session that \<^verbatim>\<open>extract_esme\<close> returns belongs to the account and can receive: a receiver session, when the account has
  one, or else a transceiver session; with receiver sessions open it always returns one.
\<close>

theorem extract_esme_sound:
  assumes "reg_spec R" "reg_inv g" "extract_esme R rand name g = (Some s, mode)"
  shows "\<exists>e \<in> set (esme_list g). system_id e = name \<and>
    (mode = 2 \<and> (\<exists>x \<in> set (rx_esme e). s = Rx x) \<or>
     mode = 3 \<and> rx_esme e = [] \<and> (\<exists>x \<in> set (tx_esme e). s = Tx x \<and> tx_mode x = 3))"
proof -
  from assms(1,3) obtain e where e: "List.find (\<lambda>e. system_id e = name) (esme_list g) = Some e"
    by (auto simp: extract_esme_def reg_spec_def gw_simps split: option.splits)
  then have "e \<in> set (esme_list g)" "system_id e = name" by (auto simp: find_Some_iff)
  moreover have "mode = 2 \<and> (\<exists>x \<in> set (rx_esme e). s = Rx x) \<or>
     mode = 3 \<and> rx_esme e = [] \<and> (\<exists>x \<in> set (tx_esme e). s = Tx x \<and> tx_mode x = 3)"
    using assms(1,3) e
    by (auto simp: extract_esme_def reg_spec_def gw_simps split: option.splits if_splits dest!: draw_trx_Some)
  ultimately show ?thesis by blast
qed

definition sample_trx :: "int \<Rightarrow> esme_tx" where
  "sample_trx mode = (new_tx reg_ref sample_dates 9 [sample_account] sample_smscs sample_bind mode
     (tempconn_create 4 ''10.0.0.1'' 1025 5000 3) [])"

definition trx_registry :: "esme_tx list \<Rightarrow> registry" where
  "trx_registry txs = \<lparr> esme_list = [(new_esme sample_dates sample_account sample_bind 0)\<lparr>tx_esme := txs\<rparr>], next_ref = 1 \<rparr>"

lemma trx_registry_find:
  "List.find (\<lambda>e. system_id e = ''acme'') (esme_list (trx_registry txs)) =
     Some ((new_esme sample_dates sample_account sample_bind 0)\<lparr>tx_esme := txs\<rparr>)"
  by (simp add: trx_registry_def new_esme_def sample_bind_def)

theorem extract_esme_sound_witness:
  "extract_esme reg_ref (\<lambda>_. 5) ''acme'' (trx_registry [sample_trx 3]) = (Some (Tx (sample_trx 3)), 3) \<and>
   tx_mode (sample_trx 3) = 3"
proof -
  have x: "extract_esme reg_ref (\<lambda>_. 5) ''acme'' (trx_registry [sample_trx 3]) = (Some (Tx (sample_trx 3)), 3)"
    by (simp add: extract_esme_def trx_registry_def new_esme_def sample_bind_def reg_ref_def octstr_ref_def
        sample_trx_def new_tx_def)
  have "reg_inv (trx_registry [sample_trx 3])"
    by (simp add: reg_inv_def trx_registry_def new_esme_def esme_ok_def ids_ok_def sample_trx_def new_tx_def
        allocate_session_id_def)
  from extract_esme_sound [OF reg_ref_spec this x] x show ?thesis by auto
qed

text \<open>
  With transceiver sessions only, \<^verbatim>\<open>extract_esme\<close> draws as many random positions as there are transmitter sessions and
  gives up when none of them is a transceiver, so that it can miss a transceiver session that is there.
\<close>

theorem extract_esme_can_miss:
  assumes "reg_spec R" "List.find (\<lambda>e. system_id e = name) (esme_list g) = Some e" "rx_esme e = []" "tx_esme e \<noteq> []"
  shows "extract_esme R rand name g = (None, 0) \<longleftrightarrow>
    (\<forall>k < length (tx_esme e). tx_mode (tx_esme e ! (rand k mod length (tx_esme e))) \<noteq> 3)"
  using assms draw_trx_None [of rand "tx_esme e" 0 "length (tx_esme e)"]
  by (auto simp: extract_esme_def reg_spec_def gw_simps split: option.splits)

theorem extract_esme_can_miss_witness:
  "extract_esme reg_ref (\<lambda>_. 0) ''acme'' (trx_registry [sample_trx 1, sample_trx 3]) = (None, 0)"
proof -
  have "rx_esme ((new_esme sample_dates sample_account sample_bind 0)\<lparr>tx_esme := [sample_trx 1, sample_trx 3]\<rparr>) = []"
    "tx_esme ((new_esme sample_dates sample_account sample_bind 0)\<lparr>tx_esme := [sample_trx 1, sample_trx 3]\<rparr>) \<noteq> []"
    by (simp_all add: new_esme_def)
  from extract_esme_can_miss [OF reg_ref_spec trx_registry_find this, of "\<lambda>_. 0"]
  show ?thesis by (simp add: sample_trx_def new_tx_def)
qed

section \<open>Sums and locks\<close>



text \<open>
  \<^verbatim>\<open>stop_esme\<close> for an account that is not bound returns -1 with the read lock on the list still held.
\<close>

theorem stop_esme_keeps_lock:
  assumes "reg_spec R" "name \<notin> system_id ` set (esme_list g)"
  shows "stop_esme R name g readers = Some (-1, readers + 1)"
  using assms by (auto simp: stop_esme_def reg_spec_def gw_simps first_pos_None)

theorem stop_esme_keeps_lock_witness: "stop_esme reg_ref ''acme'' esme_init 0 = Some (-1, 1)"
  using stop_esme_keeps_lock [OF reg_ref_spec, of "''acme''" esme_init 0] by (simp add: esme_init_def)

end
