(* ===== verification/Submit.thy ===== *)
theory Submit
  imports Registry
begin

text \<open>
  A \<^verbatim>\<open>submit_sm\<close> on its way through the server: the checks of \<^verbatim>\<open>smpp-esme/esme.c\<close> on its parameters and
  \<^verbatim>\<open>handle_submit_sm\<close> of \<^verbatim>\<open>smpp-esme/smpp_esme.c\<close>, with every counter it moves and every message it sends
  to the other processes.  \<open>None\<close> is a null or wild pointer, a buffer overrun or the use of
  uninitialised memory.
\<close>

unbundle bit_operations_syntax

section \<open>Parameters\<close>

text \<open>The numbers that the SMPP and GSM headers of the gateway library define.\<close>

record smpp_codes =
  ROK :: int
  RINVSRCADR :: int
  RINVDSTADR :: int
  RINVSRCTON :: int
  RINVSRCNPI :: int
  RINVDSTTON :: int
  RINVDSTNPI :: int
  RINVPRTFLG :: int
  RINVSUBREP :: int
  RMSGQFUL :: int
  RCANCELFAIL :: int
  RSUBMITFAIL :: int
  RBINDFAIL :: int
  RINVCMDID :: int
  RINVSYSID :: int
  RINVPASWD :: int
  RALYNBD :: int
  RINVEXPIRY :: int
  RINVMSGID :: int
  RREPLACEFAIL :: int
  RQUERYFAIL :: int
  MAX_SOURCE_ADDR_LEN :: int
  MAX_DEST_ADDR_LEN :: int
  UDH_INDICATOR :: int
  TON_INTERNATIONAL :: int
  TON_NATIONAL :: int
  TON_ALPHANUMERIC :: int

text \<open>The success code is zero, every error code is not, and the types of number differ.\<close>

definition codes_spec :: "smpp_codes \<Rightarrow> bool" where
  "codes_spec K \<longleftrightarrow> ROK K = 0 \<and> RINVSRCADR K \<noteq> 0 \<and> RINVDSTADR K \<noteq> 0 \<and> RINVSRCTON K \<noteq> 0 \<and> RINVSRCNPI K \<noteq> 0 \<and>
     RINVDSTTON K \<noteq> 0 \<and> RINVDSTNPI K \<noteq> 0 \<and> RINVPRTFLG K \<noteq> 0 \<and> RINVSUBREP K \<noteq> 0 \<and> RMSGQFUL K \<noteq> 0 \<and>
     RCANCELFAIL K \<noteq> 0 \<and> RSUBMITFAIL K \<noteq> 0 \<and> RBINDFAIL K \<noteq> 0 \<and> RINVCMDID K \<noteq> 0 \<and> RINVSYSID K \<noteq> 0 \<and>
     RINVPASWD K \<noteq> 0 \<and> RALYNBD K \<noteq> 0 \<and> RINVEXPIRY K \<noteq> 0 \<and> RINVMSGID K \<noteq> 0 \<and>
     RREPLACEFAIL K \<noteq> 0 \<and> RQUERYFAIL K \<noteq> 0 \<and>
     distinct [TON_INTERNATIONAL K, TON_NATIONAL K, TON_ALPHANUMERIC K]"

record submit_sm =
  source_addr :: "octstr option"
  destination_addr :: "octstr option"
  source_addr_ton :: int
  source_addr_npi :: int
  dest_addr_ton :: int
  dest_addr_npi :: int
  priority_flag :: int
  replace_if_present_flag :: int
  esm_class :: int
  data_coding :: int
  short_message :: "octstr option"
  more_messages_to_send :: int
  user_response_code :: int
  submit_sequence_number :: ulong

text \<open>
  What the code calls outside the repository: the character test, the prefix and pattern matches, the
  output of a shell command as \<^verbatim>\<open>fgets\<close> splits it into lines, the packing of a PDU, the conversion to hexadecimal digits,
  the formatting of numbers and of the time, and the status a freshly created response has.
\<close>

record submit_env =
  ops :: octstr_ops
  codes :: smpp_codes
  gw_isdigit :: "char \<Rightarrow> bool"
  does_prefix_match :: "octstr \<Rightarrow> octstr \<Rightarrow> int"
  pattern_list_matches_ip :: "octstr option \<Rightarrow> octstr \<Rightarrow> bool"
  popen_lines :: "octstr \<Rightarrow> octstr list option"
  smpp_pdu_pack :: "submit_sm \<Rightarrow> octstr"
  octstr_binary_to_hex :: "octstr option \<Rightarrow> octstr option"
  format_ld :: "int \<Rightarrow> octstr"
  format_ld_ld_ld :: "int \<Rightarrow> int \<Rightarrow> int \<Rightarrow> octstr"
  current_datetime :: octstr
  created_status :: int

definition submit_spec :: "submit_env \<Rightarrow> bool" where
  "submit_spec E \<longleftrightarrow> octstr_spec (ops E) \<and> codes_spec (codes E) \<and> created_status E = 0 \<and>
     (\<forall>c. gw_isdigit E c \<longleftrightarrow> of_char c \<in> {48..57 :: nat})"

section \<open>Addresses\<close>

definition convert_addr_from_pdu :: "submit_env \<Rightarrow> octstr option \<Rightarrow> int \<Rightarrow> int \<Rightarrow> int" where
  "convert_addr_from_pdu E addr ton npi =
     (case addr of None \<Rightarrow> 1
      | Some a \<Rightarrow>
          if ton > 6 \<or> ton < 0 then 1
          else if \<not> (npi = 0 \<or> npi = 1 \<or> npi = 3 \<or> npi = 4 \<or> npi = 6 \<or> npi = 8 \<or> npi = 9 \<or> npi = 10 \<or> npi = 14) then 2
          else if ton = TON_INTERNATIONAL (codes E)
          then if int (length a) < 7 then 3
               else if octstr_get_char (ops E) a 0 = 43 \<and> \<not> octstr_check_range (ops E) a 1 256 (gw_isdigit E) then 3
               else if octstr_get_char (ops E) a 0 \<noteq> 43 \<and> \<not> octstr_check_range (ops E) a 0 256 (gw_isdigit E) then 3
               else 0
          else if ton = TON_NATIONAL (codes E)
          then if int (length a) < 10 then 3 else 0
          else if ton = TON_ALPHANUMERIC (codes E)
          then if int (length a) > 11 then 3 else 0
          else 0)"

section \<open>The two HTTP services\<close>

text \<open>
  The answer of a service is the last line of the output of a shell command, built by \<^verbatim>\<open>sprintf\<close> in a buffer of 1035
  characters.  A command that cannot be started leaves a null stream, which is read.
\<close>

definition sender_command :: "octstr \<Rightarrow> octstr \<Rightarrow> octstr" where
  "sender_command account source = ''curl -s '' @ [CHR 0x22]
     @ ''http://192.168.1.27:8081/fonadaSmpp/admin/sndridsts?userid='' @ account @ ''&senderid='' @ source @ [CHR 0x22]"

definition dnd_command :: "octstr \<Rightarrow> octstr" where
  "dnd_command dest = ''curl -s '' @ [CHR 0x22]
     @ ''http://192.168.1.95:8080/dndFilter/dnd/filterbyno?number='' @ dest @ [CHR 0x22]"

definition check_sender_api :: "submit_env \<Rightarrow> octstr \<Rightarrow> octstr \<Rightarrow> int option" where
  "check_sender_api E account source =
     (if length (sender_command account source) \<ge> 1035 then None
      else case popen_lines E (sender_command account source) of
             None \<Rightarrow> None
           | Some lines \<Rightarrow>
               (let path = (if lines = [] then [] else last lines)
                in Some (if path = ''True'' then 1 else 0)))"

text \<open>Here the buffer is not initialised: with no output it is read as it was.\<close>

definition check_dnd_api :: "submit_env \<Rightarrow> octstr \<Rightarrow> int option" where
  "check_dnd_api E dest =
     (if length (dnd_command dest) \<ge> 1035 then None
      else case popen_lines E (dnd_command dest) of
             None \<Rightarrow> None
           | Some lines \<Rightarrow>
               if lines = [] then None
               else Some (if last lines = ''nondnd'' then 1 else 0))"

section \<open>The parameters of a message\<close>

text \<open>The national number: the part after a trunk or country prefix, by length.\<close>

definition national_number :: "submit_env \<Rightarrow> octstr \<Rightarrow> octstr" where
  "national_number E dest =
     (if length dest = 10 then dest
      else if length dest = 11 then octstr_from_position (ops E) dest 1
      else if length dest = 12 then octstr_from_position (ops E) dest 2
      else if length dest = 13 then octstr_from_position (ops E) dest 3
      else dest)"

text \<open>The checks from the length of the number on.\<close>

definition verify_flags :: "submit_env \<Rightarrow> submit_sm \<Rightarrow> octstr \<Rightarrow> int option" where
  "verify_flags E pdu dest =
     (if int (length dest) < 10 then Some 0x401
      else if priority_flag pdu < 0 \<or> priority_flag pdu > 3 then Some (RINVPRTFLG (codes E))
      else if replace_if_present_flag pdu > 0 then Some (RINVSUBREP (codes E))
      else if esm_class pdu AND UDH_INDICATOR (codes E) \<noteq> 0
      then (case short_message pdu of None \<Rightarrow> None
            | Some m \<Rightarrow>
                if octstr_get_char (ops E) m 0 + 1 > int (length m) then Some 0x403
                else Some (ROK (codes E)))
      else Some (ROK (codes E)))"

text \<open>The sender: known for the account, or accepted by the service, which the account then remembers.\<close>

definition verify_sender ::
    "submit_env \<Rightarrow> esme \<Rightarrow> submit_sm \<Rightarrow> octstr \<Rightarrow> octstr \<Rightarrow> (int \<times> esme \<times> (octstr \<times> octstr) option) option" where
  "verify_sender E e pdu dest source =
     (if pattern_list_matches_ip E (e_allowed_prefix e) source
      then do { r \<leftarrow> verify_flags E pdu dest; Some (r, e, Some (dest, source)) }
      else do {
        ret \<leftarrow> check_sender_api E (system_id e) source;
        (if ret = 0 then Some (0x401, e, Some (dest, source))
         else do {
           r \<leftarrow> verify_flags E pdu dest;
           Some (r, e\<lparr>e_allowed_prefix := Some source\<rparr>, Some (dest, source)) }) })"

text \<open>
  \<^verbatim>\<open>verify_pdu_para\<close>: the status, the structure of the account (which remembers the sender that the service
  has accepted) and, from the point where they are set on, the destination and source addresses.
\<close>

definition verify_pdu_para ::
    "submit_env \<Rightarrow> esme \<Rightarrow> submit_sm \<Rightarrow> (int \<times> esme \<times> (octstr \<times> octstr) option) option" where
  "verify_pdu_para E e pdu =
     (let K = codes E in
      if source_addr pdu = None
         \<or> (case source_addr pdu of None \<Rightarrow> False | Some s \<Rightarrow> int (length s) > MAX_SOURCE_ADDR_LEN K)
      then Some (RINVSRCADR K, e, None)
      else if destination_addr pdu = None
         \<or> (case destination_addr pdu of None \<Rightarrow> False | Some d \<Rightarrow> int (length d) > MAX_DEST_ADDR_LEN K)
      then Some (RINVDSTADR K, e, None)
      else
      let src = convert_addr_from_pdu E (source_addr pdu) (source_addr_ton pdu) (source_addr_npi pdu);
          dst = convert_addr_from_pdu E (destination_addr pdu) (dest_addr_ton pdu) (dest_addr_npi pdu)
      in if src = 1 then Some (RINVSRCTON K, e, None)
      else if src = 2 then Some (RINVSRCNPI K, e, None)
      else if src = 3 then Some (RINVSRCADR K, e, None)
      else if dst = 1 then Some (RINVDSTTON K, e, None)
      else if dst = 2 then Some (RINVDSTNPI K, e, None)
      else if dst = 3 then Some (RINVDSTADR K, e, None)
      else
      verify_sender E e pdu (national_number E (the (destination_addr pdu))) (the (source_addr pdu)))"

section \<open>The state of the server\<close>

datatype program_status =
    PROGRAM_RUNNING
  | PROGRAM_ISOLATED
  | PROGRAM_SUSPENDED
  | PROGRAM_SHUTDOWN
  | PROGRAM_DEAD
  | PROGRAM_FULL

text \<open>A connection to another process: whether it is up, and the length of its queue of messages.\<close>

record process_client =
  process_connected :: bool
  send_list_len :: int

record server =
  program_status :: program_status
  dbbox_client :: "process_client option"
  forward_client :: "process_client option"
  reverse_client :: "process_client option"
  smsc_q_limit :: int
  dbbox_connected_to_client :: int
  global_q_limit :: int
  trans_port :: int
  recv_port :: int
  trans_recv_port :: int
  dndcheck_flag :: int
  num_from_esme :: counter
  last_from_esme :: int
  submit_counter :: int
  sv_settings :: "settings option"
  sv_smscs :: "smsc_conn list"
  sv_translations :: accounts

text \<open>\<open>submit_counter\<close> is the static variable \<^verbatim>\<open>counter\<close> of \<^verbatim>\<open>handle_submit_sm\<close>.\<close>

definition check_server_connections :: "server \<Rightarrow> int" where
  "check_server_connections S =
     (case (dbbox_client S, forward_client S, reverse_client S) of
        (Some d, Some f, Some r) \<Rightarrow>
          if dbbox_connected_to_client S \<noteq> 1 then -1
          else if \<not> process_connected d \<or> \<not> process_connected f \<or> \<not> process_connected r then -1
          else 0
      | _ \<Rightarrow> -1)"

section \<open>Messages to the other processes\<close>

record submit_msg =
  sm_preferred_smsc :: octstr
  sm_allowed_smsc :: octstr
  sm_req_time :: octstr
  sm_account_name :: octstr
  sm_account_msg_id :: octstr
  sm_destination_addr :: octstr
  sm_source_addr :: octstr
  sm_pdu :: octstr
  sm_ip :: octstr

record esme_msg =
  em_account_name :: octstr
  em_account_msg_id :: octstr
  em_req_time :: octstr
  em_source_addr :: "octstr option"
  em_dest_addr :: "octstr option"
  em_msg_content :: "octstr option"
  em_submit_status :: int
  em_esm_class :: int
  em_data_coding :: int
  em_more_messages :: int
  em_ip :: octstr
  em_dnd_flag :: int
  em_retry_value :: int

record mis_msg =
  mm_account_name :: octstr
  mm_account_msg_id :: octstr
  mm_smsc_id :: octstr
  mm_smsc_msg_id :: octstr
  mm_req_time :: octstr
  mm_source_addr :: "octstr option"
  mm_dest_addr :: "octstr option"
  mm_submit_status :: int
  mm_esm_class :: int
  mm_message_len :: int
  mm_msg_content :: "octstr option"
  mm_retry_value :: int
  mm_ip :: octstr

datatype conn_msg = Submit_msg submit_msg | Esme_msg esme_msg | Mis_msg mis_msg

text \<open>What is done with a message: sent on one of the connections, or only written to the log.\<close>

datatype effect = To_forward conn_msg | To_dbbox conn_msg | Logged conn_msg

definition send_msg_dbbox_server :: "server \<Rightarrow> conn_msg \<Rightarrow> int \<Rightarrow> effect list" where
  "send_msg_dbbox_server S msg mode =
     (if mode = 0 \<and> dbbox_client S \<noteq> None then [To_dbbox msg]
      else case msg of Esme_msg m \<Rightarrow> [Logged msg] | Mis_msg m \<Rightarrow> [Logged msg] | Submit_msg m \<Rightarrow> [])"

definition retry_value :: "submit_sm \<Rightarrow> int" where
  "retry_value pdu = (if user_response_code pdu \<noteq> -1 then user_response_code pdu else 0)"

text \<open>The row for a rejected message; \<^verbatim>\<open>octstr_len\<close> of a null pointer is zero.\<close>

definition mis_db_insert ::
    "submit_env \<Rightarrow> server \<Rightarrow> octstr \<Rightarrow> octstr \<Rightarrow> submit_sm \<Rightarrow> int \<Rightarrow> octstr \<Rightarrow> effect list" where
  "mis_db_insert E S acc acc_msg_id pdu submit_status ip =
     send_msg_dbbox_server S (Mis_msg
       \<lparr> mm_account_name = acc, mm_account_msg_id = acc_msg_id, mm_smsc_id = [],
         mm_smsc_msg_id = [], mm_req_time = current_datetime E, mm_source_addr = source_addr pdu,
         mm_dest_addr = destination_addr pdu, mm_submit_status = submit_status,
         mm_esm_class = esm_class pdu,
         mm_message_len = (case short_message pdu of None \<Rightarrow> 0 | Some m \<Rightarrow> int (length m)),
         mm_msg_content = short_message pdu, mm_retry_value = retry_value pdu, mm_ip = ip \<rparr>) 0"

section \<open>The handler\<close>

record submit_resp =
  sr_sequence_number :: ulong
  sr_command_status :: int
  sr_message_id :: octstr

text \<open>
  The readings of the clock: at the start, the hour in local time, after the pause that throttles an account,
  and the time stamp of the message id.
\<close>

record submit_clock =
  t_start :: int
  t_hour :: int
  t_after :: int
  t_stamp :: int

text \<open>A session of the account's transmitter list is updated in place.\<close>

definition find_tx :: "esme \<Rightarrow> int \<Rightarrow> esme_tx option" where
  "find_tx e session_id = List.find (\<lambda>t. tx_session_id t = session_id) (tx_esme e)"

definition map_tx :: "int \<Rightarrow> (esme_tx \<Rightarrow> esme_tx) \<Rightarrow> esme \<Rightarrow> esme" where
  "map_tx session_id f e =
     (case first_pos (\<lambda>t. tx_session_id t = session_id) (tx_esme e) of
        None \<Rightarrow> e | Some i \<Rightarrow> e\<lparr>tx_esme := (tx_esme e)[i := f (tx_esme e ! i)]\<rparr>)"

definition incr_rejected :: "esme_tx \<Rightarrow> esme_tx" where
  "incr_rejected t = t\<lparr>tx_msg_rejected := snd (counter_increase (tx_msg_rejected t))\<rparr>"

definition incr_received :: "esme_tx \<Rightarrow> esme_tx" where
  "incr_received t = t\<lparr>tx_msg_received := snd (counter_increase (tx_msg_received t))\<rparr>"

definition incr_sent :: "esme_tx \<Rightarrow> esme_tx" where
  "incr_sent t = t\<lparr>tx_msg_sent := snd (counter_increase (tx_msg_sent t))\<rparr>"

definition incr_unconnect :: "esme_tx \<Rightarrow> esme_tx" where
  "incr_unconnect t = t\<lparr>submits_unconnect := snd (counter_increase (submits_unconnect t))\<rparr>"

text \<open>The throttling at the start: the message count of the account against its rate.\<close>

definition throttle :: "submit_clock \<Rightarrow> esme \<Rightarrow> esme" where
  "throttle T e = (if msg_count e > e_max_tps e then e\<lparr>esm_time := t_after T, msg_count := 0\<rparr> else e)"

text \<open>
  The checks that come before the parameters, in their order: the status of the rejection, or \<open>None\<close> to go on, and
  the structure with the counters they move.
\<close>

definition admission :: "submit_env \<Rightarrow> server \<Rightarrow> esme \<Rightarrow> int \<Rightarrow> (int option \<times> esme) option" where
  "admission E S e session_id =
     (case find_tx e session_id of None \<Rightarrow> None | Some tx \<Rightarrow>
      if program_status S \<noteq> PROGRAM_RUNNING then Some (Some 0x407, map_tx session_id incr_rejected e)
      else case (reverse_client S, forward_client S) of
        (Some rev_c, Some fwd) \<Rightarrow>
          if (\<not> process_connected rev_c \<or> \<not> process_connected fwd)
             \<and> smsc_q_limit S \<noteq> -1 \<and> send_list_len fwd = smsc_q_limit S
          then Some (Some 0x409, map_tx session_id incr_rejected e)
          else if global_q_limit S = 1 then Some (Some 0x40A, map_tx session_id incr_rejected e)
          else if tx_status tx = ESME_SMSC_UNCONNECTED
          then if e_max_submits_unconnect e \<noteq> -1
                  \<and> max_submits_unct_account (Some e) \<ge> e_max_submits_unconnect e
               then Some (Some (RMSGQFUL (codes E)), map_tx session_id incr_rejected e)
               else Some (None, map_tx session_id incr_unconnect e)
          else if tx_status tx = ESME_BINDED
          then if e_max_submits e \<noteq> -1
                  \<and> counter_value (tx_msg_received tx) \<ge> word_of_int (e_max_submits e)
               then Some (Some (RMSGQFUL (codes E)), map_tx session_id incr_rejected e)
               else Some (None, map_tx session_id incr_unconnect e)
          else Some (None, e)
      | _ \<Rightarrow> None)"

text \<open>
  The rest of the decision: the parameters, the hours of the account and the routing.  The result is the status
  of a rejection or the message that goes to the SMSC process.
\<close>

definition decide ::
    "submit_env \<Rightarrow> server \<Rightarrow> submit_clock \<Rightarrow> esme \<Rightarrow> submit_sm \<Rightarrow> int \<Rightarrow> octstr \<Rightarrow> ((int + submit_msg) \<times> esme) option" where
  "decide E S T e pdu session_id message_id =
     (case admission E S e session_id of
        None \<Rightarrow> None
      | Some (Some code, e1) \<Rightarrow> Some (Inl code, e1)
      | Some (None, e1) \<Rightarrow>
        (case verify_pdu_para E e1 pdu of None \<Rightarrow> None
         | Some (reason, e2, addrs) \<Rightarrow>
           if t_hour T \<le> e_valid_time_from e2 \<or> t_hour T \<ge> e_valid_time_to e2
           then Some (Inl (RCANCELFAIL (codes E)), map_tx session_id incr_rejected e2)
           else if reason \<noteq> ROK (codes E) then Some (Inl reason, map_tx session_id incr_rejected e2)
           else (case rout_pdu (ops E) (does_prefix_match E) (sv_settings S) (sv_smscs S)
                     (Some (sv_translations S)) (map_option fst addrs) (Some (system_id e2)) of
                   None \<Rightarrow> None
                 | Some (ret, strings) \<Rightarrow>
                   if ret = -1 then Some (Inl (RSUBMITFAIL (codes E)), map_tx session_id incr_rejected e2)
                   else (case (strings, addrs, find_tx e2 session_id) of
                           (Some (preferred, allowed), Some (dest, source), Some tx) \<Rightarrow>
                             Some (Inr \<lparr> sm_preferred_smsc = preferred, sm_allowed_smsc = allowed,
                               sm_req_time = current_datetime E, sm_account_name = system_id e2,
                               sm_account_msg_id = message_id, sm_destination_addr = dest,
                               sm_source_addr = source, sm_pdu = smpp_pdu_pack E pdu,
                               sm_ip = tx_client_ip tx \<rparr>,
                               (map_tx session_id incr_sent e2)\<lparr>msg_count := msg_count e2 + 1\<rparr>)
                         | _ \<Rightarrow> None))))"

text \<open>The record of the message for the database, sent whatever the outcome is.\<close>

definition esme_record ::
    "submit_env \<Rightarrow> server \<Rightarrow> esme \<Rightarrow> submit_sm \<Rightarrow> int \<Rightarrow> octstr \<Rightarrow> octstr \<Rightarrow> esme_msg" where
  "esme_record E S e pdu status message_id ip =
     \<lparr> em_account_name = system_id e, em_account_msg_id = message_id, em_req_time = current_datetime E,
       em_source_addr = source_addr pdu, em_dest_addr = destination_addr pdu,
       em_msg_content = (if data_coding pdu \<noteq> 0 then octstr_binary_to_hex E (short_message pdu)
                         else short_message pdu),
       em_submit_status = status, em_esm_class = esm_class pdu, em_data_coding = data_coding pdu,
       em_more_messages = more_messages_to_send pdu, em_ip = ip,
       em_dnd_flag = (if dndcheck_flag S = 0 then -1 else 0), em_retry_value = retry_value pdu \<rparr>"

text \<open>
  On a receiver session (mode 2) the code goes to the common end, which takes the client address through a pointer of
  the transmitter type: the field is another one in the receiver structure, and the value there is no string.
\<close>

definition handle_submit_sm ::
    "submit_env \<Rightarrow> submit_clock \<Rightarrow> server \<Rightarrow> esme \<Rightarrow> submit_sm \<Rightarrow> int \<Rightarrow> int \<Rightarrow>
     (submit_resp \<times> server \<times> esme \<times> effect list) option" where
  "handle_submit_sm E T S e pdu mode session_id =
     (let S1 = S\<lparr>num_from_esme := snd (counter_increase (num_from_esme S)), last_from_esme := t_start T\<rparr>;
          e1 = throttle T e
      in if mode = 2 then None
         else case find_tx e1 session_id of None \<Rightarrow> None | Some tx \<Rightarrow>
          (let S2 = S1\<lparr>submit_counter := submit_counter S1 + 1\<rparr>;
               message_id = format_ld_ld_ld E (sint (counter_value (tx_msg_received tx))) (t_stamp T)
                 (submit_counter S2)
           in case decide E S2 T e1 pdu session_id message_id of None \<Rightarrow> None
              | Some (outcome, e2) \<Rightarrow>
                (let status = (case outcome of Inl code \<Rightarrow> code | Inr m \<Rightarrow> created_status E);
                     forwarded = (case outcome of Inl code \<Rightarrow> []
                       | Inr m \<Rightarrow> if dndcheck_flag S2 = 0 then [To_forward (Submit_msg m)] else []);
                     recorded = send_msg_dbbox_server S2
                       (Esme_msg (esme_record E S2 e2 pdu status message_id (tx_client_ip tx))) 0;
                     rejected = (if status = 0 then []
                       else mis_db_insert E S2 (system_id e2) message_id pdu status (tx_client_ip tx));
                     e3 = (if mode = 1 then map_tx session_id incr_received e2 else e2)
                 in Some (\<lparr> sr_sequence_number = submit_sequence_number pdu, sr_command_status = status,
                            sr_message_id = message_id \<rparr>, S2, e3, forwarded @ recorded @ rejected))))"

section \<open>Lemmas\<close>

lemma find_map_tx:
  assumes "\<And>t. tx_session_id (f t) = tx_session_id t"
  shows "find_tx (map_tx session_id f e) session_id = map_option f (find_tx e session_id)"
proof (cases "first_pos (\<lambda>t. tx_session_id t = session_id) (tx_esme e)")
  case None
  then show ?thesis by (simp add: map_tx_def find_tx_def find_first_pos)
next
  case (Some i)
  note fp = first_pos_SomeD [OF Some]
  have "List.find (\<lambda>t. tx_session_id t = session_id) ((tx_esme e)[i := f (tx_esme e ! i)]) = Some (f (tx_esme e ! i))"
    unfolding find_Some_iff using fp assms by (intro exI [of _ i]) auto
  with Some show ?thesis by (simp add: map_tx_def find_tx_def find_first_pos)
qed

lemma incr_keeps [simp]:
  "tx_session_id (incr_rejected t) = tx_session_id t" "tx_session_id (incr_received t) = tx_session_id t"
  "tx_session_id (incr_sent t) = tx_session_id t" "tx_session_id (incr_unconnect t) = tx_session_id t"
  by (simp_all add: incr_rejected_def incr_received_def incr_sent_def incr_unconnect_def)

lemmas find_incr = find_map_tx [of incr_rejected, simplified] find_map_tx [of incr_received, simplified]
  find_map_tx [of incr_sent, simplified] find_map_tx [of incr_unconnect, simplified]

lemma map_tx_common [simp]:
  "system_id (map_tx i f e) = system_id e" "e_valid_time_from (map_tx i f e) = e_valid_time_from e"
  "e_valid_time_to (map_tx i f e) = e_valid_time_to e" "e_allowed_prefix (map_tx i f e) = e_allowed_prefix e"
  by (simp_all add: map_tx_def split: option.splits)

lemma verify_pdu_para_esme:
  assumes "verify_pdu_para E e pdu = Some (r, e', a)"
  shows "e' = e \<or> (\<exists>s. source_addr pdu = Some s \<and> e' = e\<lparr>e_allowed_prefix := Some s\<rparr>)"
proof -
  from assms have "e' = e \<or> (source_addr pdu \<noteq> None \<and>
      verify_sender E e pdu (national_number E (the (destination_addr pdu))) (the (source_addr pdu)) = Some (r, e', a))"
    unfolding verify_pdu_para_def Let_def by (simp split: if_splits)
  moreover have "e' = e \<or> e' = e\<lparr>e_allowed_prefix := Some src\<rparr>"
    if "verify_sender E e pdu dest src = Some (r, e', a)" for dest src
    using that by (auto simp: verify_sender_def bind_eq_Some_conv split: if_splits)
  ultimately show ?thesis by fastforce
qed

lemma verify_pdu_para_keeps:
  assumes "verify_pdu_para E e pdu = Some (r, e', a)"
  shows "tx_esme e' = tx_esme e" "find_tx e' i = find_tx e i" "system_id e' = system_id e"
    "e_valid_time_from e' = e_valid_time_from e" "e_valid_time_to e' = e_valid_time_to e" "msg_count e' = msg_count e"
  using verify_pdu_para_esme [OF assms] by (auto simp: find_tx_def)

text \<open>What the checks before the parameters do to the counters of the session.\<close>

lemma admission_counters:
  assumes "admission E S e i = Some (c, e1)" "find_tx e i = Some tx"
  shows "\<exists>tx1. find_tx e1 i = Some tx1 \<and> tx_msg_received tx1 = tx_msg_received tx \<and> tx_msg_sent tx1 = tx_msg_sent tx \<and>
    tx_msg_rejected tx1 = (if c = None then tx_msg_rejected tx else snd (counter_increase (tx_msg_rejected tx)))
    \<and> system_id e1 = system_id e \<and> e_valid_time_from e1 = e_valid_time_from e \<and> e_valid_time_to e1 = e_valid_time_to e"
  using assms
  by (auto simp: admission_def find_incr incr_rejected_def incr_unconnect_def split: if_splits option.splits)

lemma decide_counters:
  assumes d: "decide E S T e pdu i m = Some (outcome, e2)" and tx: "find_tx e i = Some tx"
  shows "\<exists>tx2. find_tx e2 i = Some tx2 \<and> tx_msg_received tx2 = tx_msg_received tx \<and>
    (case outcome of
       Inl c \<Rightarrow> tx_msg_sent tx2 = tx_msg_sent tx \<and> tx_msg_rejected tx2 = snd (counter_increase (tx_msg_rejected tx))
     | Inr msg \<Rightarrow> tx_msg_sent tx2 = snd (counter_increase (tx_msg_sent tx)) \<and> tx_msg_rejected tx2 = tx_msg_rejected tx)"
proof -
  obtain c e1 where a: "admission E S e i = Some (c, e1)" using d by (auto simp: decide_def split: option.splits)
  from admission_counters [OF a tx] obtain tx1 where tx1: "find_tx e1 i = Some tx1"
    "tx_msg_received tx1 = tx_msg_received tx" "tx_msg_sent tx1 = tx_msg_sent tx"
    "tx_msg_rejected tx1 = (if c = None then tx_msg_rejected tx else snd (counter_increase (tx_msg_rejected tx)))"
    by blast
  show ?thesis
  proof (cases c)
    case (Some code)
    with d a tx1 show ?thesis by (auto simp: decide_def)
  next
    case None
    with d a obtain reason ev addrs where v: "verify_pdu_para E e1 pdu = Some (reason, ev, addrs)"
      by (auto simp: decide_def split: option.splits)
    note k = verify_pdu_para_keeps [OF v]
    have f: "find_tx (e\<lparr>msg_count := n\<rparr>) i = find_tx e i" for n e by (simp add: find_tx_def)
    from d a None v tx1 k(2) [of i] show ?thesis
      by (auto simp: decide_def find_incr f incr_rejected_def incr_sent_def split: option.splits if_splits)
  qed
qed

section \<open>What an acceptable message is\<close>

definition digit :: "char \<Rightarrow> bool" where
  "digit c \<longleftrightarrow> of_char c \<in> {48..57 :: nat}"

definition address_ok :: "smpp_codes \<Rightarrow> octstr \<Rightarrow> int \<Rightarrow> int \<Rightarrow> bool" where
  "address_ok K a ton npi \<longleftrightarrow> ton \<in> {0..6} \<and> npi \<in> {0, 1, 3, 4, 6, 8, 9, 10, 14} \<and>
     (ton = TON_INTERNATIONAL K \<longrightarrow> 7 \<le> length a \<and>
        list_all digit (take 256 (if hd a = CHR 0x2B then tl a else a))) \<and>
     (ton = TON_NATIONAL K \<longrightarrow> 10 \<le> length a) \<and>
     (ton = TON_ALPHANUMERIC K \<longrightarrow> length a \<le> 11)"

definition national :: "octstr \<Rightarrow> octstr" where
  "national d = (if length d \<in> {11, 12, 13} then drop (length d - 10) d else d)"

definition message_ok :: "submit_env \<Rightarrow> esme \<Rightarrow> submit_sm \<Rightarrow> bool" where
  "message_ok E e pdu \<longleftrightarrow> (\<exists>s d. source_addr pdu = Some s \<and> destination_addr pdu = Some d \<and>
     int (length s) \<le> MAX_SOURCE_ADDR_LEN (codes E) \<and> int (length d) \<le> MAX_DEST_ADDR_LEN (codes E) \<and>
     address_ok (codes E) s (source_addr_ton pdu) (source_addr_npi pdu) \<and>
     address_ok (codes E) d (dest_addr_ton pdu) (dest_addr_npi pdu) \<and>
     (pattern_list_matches_ip E (e_allowed_prefix e) s \<or> check_sender_api E (system_id e) s = Some 1) \<and>
     10 \<le> length (national d) \<and> priority_flag pdu \<in> {0..3} \<and> replace_if_present_flag pdu \<le> 0 \<and>
     (esm_class pdu AND UDH_INDICATOR (codes E) \<noteq> 0 \<longrightarrow>
        (\<exists>m. short_message pdu = Some m \<and> (m = [] \<or> of_char (hd m) + 1 \<le> length m))))"

lemma convert_addr_ok:
  assumes E: "submit_spec E"
  shows "convert_addr_from_pdu E (Some a) ton npi = 0 \<longleftrightarrow> address_ok (codes E) a ton npi"
    and "convert_addr_from_pdu E x ton npi \<in> {0, 1, 2, 3}"
proof -
  have X: "octstr_spec (ops E)" and K: "codes_spec (codes E)" and dg: "gw_isdigit E = digit"
    using E by (auto simp: submit_spec_def digit_def)
  have plus: "octstr_get_char (ops E) a 0 = 43 \<longleftrightarrow> a \<noteq> [] \<and> hd a = CHR 0x2B"
    using X of_char_eq_iff [where 'a = int, of "hd a" "CHR 0x2B"] by (auto simp: gw_simps hd_conv_nth)
  have chk: "octstr_check_range (ops E) a 1 256 (gw_isdigit E) = list_all digit (take 256 (tl a))"
    "octstr_check_range (ops E) a 0 256 (gw_isdigit E) = list_all digit (take 256 a)"
    using X by (simp_all add: gw_simps dg drop_Suc)
  show "convert_addr_from_pdu E (Some a) ton npi = 0 \<longleftrightarrow> address_ok (codes E) a ton npi"
    using K by (auto simp: convert_addr_from_pdu_def address_ok_def plus chk codes_spec_def split: if_splits)
  show "convert_addr_from_pdu E x ton npi \<in> {0, 1, 2, 3}"
    by (auto simp: convert_addr_from_pdu_def split: option.splits)
qed

lemma national_number_national: "submit_spec E \<Longrightarrow> national_number E d = national d"
  by (auto simp: national_number_def national_def submit_spec_def gw_simps)

lemma verify_flags_ok:
  assumes E: "submit_spec E" and v: "verify_flags E pdu d = Some r"
  shows "r = 0 \<longleftrightarrow> 10 \<le> length d \<and> priority_flag pdu \<in> {0..3} \<and> replace_if_present_flag pdu \<le> 0 \<and>
     (esm_class pdu AND UDH_INDICATOR (codes E) \<noteq> 0 \<longrightarrow>
        (\<exists>m. short_message pdu = Some m \<and> (m = [] \<or> of_char (hd m) + 1 \<le> length m)))"
proof -
  have X: "octstr_spec (ops E)" and K: "codes_spec (codes E)"
    using E by (auto simp: submit_spec_def)
  have u: "int (length m) \<le> octstr_get_char (ops E) m 0 \<longleftrightarrow> \<not> (m = [] \<or> Suc (of_char (hd m)) \<le> length m)" for m
    using X by (auto simp: gw_simps hd_conv_nth of_char_int)
  show ?thesis
    using v K by (auto simp: verify_flags_def u codes_spec_def split: if_splits option.splits)
qed

lemma verify_pdu_para_result:
  assumes E: "submit_spec E" and v: "verify_pdu_para E e pdu = Some (r, e', addrs)"
  shows "(r = ROK (codes E) \<longleftrightarrow> message_ok E e pdu) \<and>
    (r = ROK (codes E) \<longrightarrow> addrs = Some (national (the (destination_addr pdu)), the (source_addr pdu)))"
proof -
  have K: "codes_spec (codes E)" using E by (simp add: submit_spec_def)
  note conv = convert_addr_ok [OF E]
  show ?thesis
  proof (cases "source_addr pdu = None \<or> destination_addr pdu = None")
    case True
    with v K show ?thesis
      by (auto simp: verify_pdu_para_def Let_def message_ok_def codes_spec_def split: if_splits option.splits)
  next
    case False
    then obtain s d where sd: "source_addr pdu = Some s" "destination_addr pdu = Some d" by auto
    show ?thesis
    proof (cases "int (length s) \<le> MAX_SOURCE_ADDR_LEN (codes E) \<and> int (length d) \<le> MAX_DEST_ADDR_LEN (codes E) \<and>
        address_ok (codes E) s (source_addr_ton pdu) (source_addr_npi pdu) \<and>
        address_ok (codes E) d (dest_addr_ton pdu) (dest_addr_npi pdu)")
      case True
      then have c: "convert_addr_from_pdu E (Some s) (source_addr_ton pdu) (source_addr_npi pdu) = 0"
        "convert_addr_from_pdu E (Some d) (dest_addr_ton pdu) (dest_addr_npi pdu) = 0" by (simp_all add: conv)
      have api: "x = 0 \<or> x = 1" if "check_sender_api E a b = Some x" for a b x
        using that by (auto simp: check_sender_api_def Let_def split: if_splits option.splits)
      from v True c sd K have
        "(r = 0 \<longleftrightarrow> (pattern_list_matches_ip E (e_allowed_prefix e) s \<or> check_sender_api E (system_id e) s = Some 1) \<and>
            verify_flags E pdu (national d) = Some 0) \<and> (r = 0 \<longrightarrow> addrs = Some (national d, s))"
        by (auto simp: verify_pdu_para_def verify_sender_def Let_def national_number_national [OF E] bind_eq_Some_conv
            split: if_splits dest: api)
      moreover have "verify_flags E pdu (national d) = Some 0 \<longleftrightarrow> 10 \<le> length (national d) \<and> priority_flag pdu \<in> {0..3}
         \<and> replace_if_present_flag pdu \<le> 0 \<and>
         (esm_class pdu AND UDH_INDICATOR (codes E) \<noteq> 0 \<longrightarrow>
            (\<exists>m. short_message pdu = Some m \<and> (m = [] \<or> of_char (hd m) + 1 \<le> length m)))"
      proof (cases "verify_flags E pdu (national d)")
        case None
        then show ?thesis by (auto simp: verify_flags_def split: if_splits option.splits)
      next
        case (Some r')
        with verify_flags_ok [OF E Some] show ?thesis by simp
      qed
      ultimately show ?thesis
        using True sd K by (auto simp: message_ok_def codes_spec_def)
    next
      case False
      then have "r \<noteq> 0"
        using v sd K conv(1) [of s] conv(1) [of d] conv(2) [of "Some s" "source_addr_ton pdu" "source_addr_npi pdu"]
          conv(2) [of "Some d" "dest_addr_ton pdu" "dest_addr_npi pdu"]
        by (auto simp: verify_pdu_para_def Let_def codes_spec_def split: if_splits)
      with False sd K show ?thesis by (auto simp: message_ok_def codes_spec_def)
    qed
  qed
qed

text \<open>
  C31: when \<^verbatim>\<open>verify_pdu_para\<close> returns, it reports success exactly for a message whose addresses are present, not too long and well formed for
  their type of number, whose sender is known for the account or accepted by the sender service, whose destination has ten digits at
  least, and whose flags and user data header are in order; the destination it then hands on is the number without
  its trunk or country prefix.
\<close>

theorem verify_pdu_para_correct:
  assumes "submit_spec E" "verify_pdu_para E e pdu = Some (r, e', addrs)"
  shows "(r = ROK (codes E) \<longleftrightarrow> message_ok E e pdu) \<and>
    (r = ROK (codes E) \<longrightarrow> addrs = Some (national (the (destination_addr pdu)), the (source_addr pdu)))"
  using assms by (rule verify_pdu_para_result)

definition smpp34_codes :: smpp_codes where
  "smpp34_codes = \<lparr> ROK = 0, RINVSRCADR = 0x0A, RINVDSTADR = 0x0B, RINVSRCTON = 0x48, RINVSRCNPI = 0x49,
     RINVDSTTON = 0x50, RINVDSTNPI = 0x51, RINVPRTFLG = 0x06, RINVSUBREP = 0x66, RMSGQFUL = 0x14,
     RCANCELFAIL = 0x11, RSUBMITFAIL = 0x45, RBINDFAIL = 0x0D, RINVCMDID = 0x03, RINVSYSID = 0x0F,
     RINVPASWD = 0x0E, RALYNBD = 0x05, RINVEXPIRY = 0x62, RINVMSGID = 0x0C, RREPLACEFAIL = 0x13, RQUERYFAIL = 0x67, MAX_SOURCE_ADDR_LEN = 21,
     MAX_DEST_ADDR_LEN = 21, UDH_INDICATOR = 0x40, TON_INTERNATIONAL = 1, TON_NATIONAL = 2,
     TON_ALPHANUMERIC = 5 \<rparr>"

definition sample_submit_env :: submit_env where
  "sample_submit_env = \<lparr> ops = octstr_ref, codes = smpp34_codes, gw_isdigit = (\<lambda>c. of_char c \<in> {48..57 :: nat}),
     does_prefix_match = (\<lambda>_ _. 0), pattern_list_matches_ip = (\<lambda>p s. p = Some s), popen_lines = (\<lambda>_. Some [''True'']),
     smpp_pdu_pack = (\<lambda>_. ''pdu''), octstr_binary_to_hex = id, format_ld = (\<lambda>_. ''1''),
     format_ld_ld_ld = (\<lambda>_ _ _. ''id''), current_datetime = ''20240101000000'', created_status = 0 \<rparr>"

definition sample_pdu :: submit_sm where
  "sample_pdu = \<lparr> source_addr = Some ''SHOP'', destination_addr = Some ''919812345678'', source_addr_ton = 5,
     source_addr_npi = 0, dest_addr_ton = 1, dest_addr_npi = 1, priority_flag = 0, replace_if_present_flag = 0,
     esm_class = 0, data_coding = 0, short_message = Some ''hello'', more_messages_to_send = 0,
     user_response_code = -1, submit_sequence_number = 12 \<rparr>"

lemma sample_submit_spec [simp]: "submit_spec sample_submit_env"
  by (simp add: submit_spec_def sample_submit_env_def codes_spec_def smpp34_codes_def)

lemma sample_verify:
  "verify_pdu_para sample_submit_env e sample_pdu =
     Some (0, if e_allowed_prefix e = Some ''SHOP'' then e else e\<lparr>e_allowed_prefix := Some ''SHOP''\<rparr>,
       Some (''9812345678'', ''SHOP''))"
  if "length (system_id e) \<le> 16"
proof -
  have l: "length (sender_command (system_id e) ''SHOP'') < 1035" using that by (simp add: sender_command_def)
  have a: "check_sender_api sample_submit_env (system_id e) ''SHOP'' = Some 1"
    using l by (simp add: check_sender_api_def) (simp add: sample_submit_env_def)
  have c: "convert_addr_from_pdu sample_submit_env (Some ''SHOP'') 5 0 = 0"
    "convert_addr_from_pdu sample_submit_env (Some ''919812345678'') 1 1 = 0"
    "national_number sample_submit_env ''919812345678'' = ''9812345678''"
    "verify_flags sample_submit_env sample_pdu ''9812345678'' = Some 0"
    by code_simp+
  have s: "verify_sender sample_submit_env e sample_pdu ''9812345678'' ''SHOP'' =
      Some (0, if e_allowed_prefix e = Some ''SHOP'' then e else e\<lparr>e_allowed_prefix := Some ''SHOP''\<rparr>,
        Some (''9812345678'', ''SHOP''))"
    using a c(4) by (simp add: verify_sender_def) (simp add: sample_submit_env_def)
  have f: "source_addr sample_pdu = Some ''SHOP''" "destination_addr sample_pdu = Some ''919812345678''"
    "source_addr_ton sample_pdu = 5" "source_addr_npi sample_pdu = 0" "dest_addr_ton sample_pdu = 1" "dest_addr_npi sample_pdu = 1"
    "MAX_SOURCE_ADDR_LEN (codes sample_submit_env) = 21" "MAX_DEST_ADDR_LEN (codes sample_submit_env) = 21"
    by (simp_all add: sample_pdu_def sample_submit_env_def smpp34_codes_def)
  show ?thesis using c s by (simp add: verify_pdu_para_def f)
qed

theorem verify_pdu_para_correct_witness: "message_ok sample_submit_env sample_esme sample_pdu"
proof -
  have "length (system_id sample_esme) \<le> 16" by (simp add: sample_esme_facts)
  from verify_pdu_para_correct [OF sample_submit_spec sample_verify [OF this]]
  show ?thesis by (simp add: sample_submit_env_def smpp34_codes_def)
qed

section \<open>Properties of the handler\<close>

lemma decide_rejects:
  assumes E: "submit_spec E" and d: "decide E S T e pdu i m = Some (Inl c, e2)"
  shows "c \<noteq> 0"
proof -
  have K: "codes_spec (codes E)" using E by (simp add: submit_spec_def)
  have a: "code \<noteq> 0" if "admission E S e i = Some (Some code, e1)" for code e1
    using that K by (auto simp: admission_def codes_spec_def split: if_splits option.splits)
  show ?thesis
    using d K a [of 0] by (auto simp: decide_def codes_spec_def split: option.splits if_splits)
qed

lemma throttle_find [simp]: "find_tx (throttle T e) i = find_tx e i"
  by (simp add: throttle_def find_tx_def)

lemma throttle_system_id [simp]: "system_id (throttle T e) = system_id e"
  by (simp add: throttle_def)

lemma admission_system_id: "admission E S e i = Some (c, e1) \<Longrightarrow> system_id e1 = system_id e"
  by (auto simp: admission_def split: if_splits option.splits)

lemma decide_system_id:
  assumes d: "decide E S T e pdu i m = Some (outcome, e2)"
  shows "system_id e2 = system_id e"
proof -
  obtain c e1 where a: "admission E S e i = Some (c, e1)" using d by (auto simp: decide_def split: option.splits)
  then show ?thesis
    using d admission_system_id [OF a] verify_pdu_para_keeps(3) [of E e1 pdu]
    by (auto simp: decide_def split: option.splits if_splits)
qed

lemma decide_accepts:
  assumes d: "decide E S T e pdu i m = Some (Inr msg, e2)"
  shows "sm_account_msg_id msg = m" "sm_account_name msg = system_id e"
proof -
  obtain c e1 where a: "admission E S e i = Some (c, e1)" using d by (auto simp: decide_def split: option.splits)
  then show "sm_account_msg_id msg = m" "sm_account_name msg = system_id e"
    using d admission_system_id [OF a] verify_pdu_para_keeps(3) [of E e1 pdu]
    by (auto simp: decide_def split: option.splits if_splits)
qed

text \<open>The parts of a call that returns.\<close>

lemma handle_submit_parts:
  assumes "handle_submit_sm E T S e pdu mode i = Some (resp, S', e', effs)"
  shows "\<exists>tx outcome e2. mode \<noteq> 2 \<and> find_tx e i = Some tx \<and>
    decide E S' T (throttle T e) pdu i (sr_message_id resp) = Some (outcome, e2) \<and>
    sr_command_status resp = (case outcome of Inl c \<Rightarrow> c | Inr m \<Rightarrow> created_status E) \<and>
    sr_sequence_number resp = submit_sequence_number pdu \<and>
    e' = (if mode = 1 then map_tx i incr_received e2 else e2) \<and>
    S' = S\<lparr>num_from_esme := snd (counter_increase (num_from_esme S)), last_from_esme := t_start T,
           submit_counter := submit_counter S + 1\<rparr> \<and>
    effs = (case outcome of Inl c \<Rightarrow> [] | Inr m \<Rightarrow> if dndcheck_flag S' = 0 then [To_forward (Submit_msg m)] else [])
      @ send_msg_dbbox_server S' (Esme_msg (esme_record E S' e2 pdu (sr_command_status resp) (sr_message_id resp) (tx_client_ip tx))) 0
      @ (if sr_command_status resp = 0 then []
         else mis_db_insert E S' (system_id e2) (sr_message_id resp) pdu (sr_command_status resp) (tx_client_ip tx))"
  using assms by (auto simp: handle_submit_sm_def Let_def split: if_splits option.splits)

definition sample_tx :: esme_tx where
  "sample_tx = \<lparr> tx_conn = 4, tx_msg_received = counter_create, tx_msg_sent = counter_create, tx_msg_rejected = counter_create,
     submits_unconnect = counter_create, tx_session_id = 1, tx_seq_number = counter_create, tx_client_ip = ''10.0.0.1'',
     tx_client_port = 1025, tx_listen_port = 3000, tx_start_time = 0, tx_status = ESME_BINDED, tx_quit = 0, tx_mode = 1,
     tx_thread_id = 9, tx_data_to_write = [] \<rparr>"

definition open_esme :: esme where
  "open_esme = \<lparr> esme_ref = 0, system_id = ''acme'', e_password = Some ''pw'', e_system_type = None, e_address_range = None,
     e_interface_version = 52, e_addr_ton = 0, e_addr_npi = 0, e_enquire_link_interval = 30,
     e_allowed_prefix = Some ''SHOP'', e_denied_prefix = None, e_log_file = None, e_log_level = 0, e_log_idx = 0,
     e_rx_log_file = None, e_rx_log_idx = None, tx_esme = [sample_tx], rx_esme = [], e_max_submits_unconnect = -1,
     e_max_submits = -1, e_max_tps = 10, msg_count = 0, e_dnd_check = 0, esm_time = 0, e_valid_time_from = 8,
     e_valid_time_to = 20 \<rparr>"

definition sample_server :: server where
  "sample_server = \<lparr> program_status = PROGRAM_RUNNING, dbbox_client = Some \<lparr> process_connected = True, send_list_len = 0 \<rparr>,
     forward_client = Some \<lparr> process_connected = True, send_list_len = 0 \<rparr>,
     reverse_client = Some \<lparr> process_connected = True, send_list_len = 0 \<rparr>, smsc_q_limit = -1,
     dbbox_connected_to_client = 1, global_q_limit = 0, trans_port = 3000, recv_port = 3001, trans_recv_port = 3002,
     dndcheck_flag = 0, num_from_esme = counter_create, last_from_esme = 0, submit_counter = 0,
     sv_settings = Some sample_settings, sv_smscs = sample_smscs, sv_translations = [sample_account] \<rparr>"

definition sample_clock :: submit_clock where
  "sample_clock = \<lparr> t_start = 100, t_hour = 12, t_after = 101, t_stamp = 100 \<rparr>"

lemma sample_submit:
  "map_option (\<lambda>(resp, S', e', effs). sr_command_status resp)
     (handle_submit_sm sample_submit_env sample_clock sample_server open_esme sample_pdu 1 1) = Some 0"
  by code_simp

lemma sample_submit_runs:
  obtains resp S' e' effs where
    "handle_submit_sm sample_submit_env sample_clock sample_server open_esme sample_pdu 1 1 = Some (resp, S', e', effs)"
    "sr_command_status resp = 0"
  using sample_submit by auto

lemma sample_session: "find_tx open_esme 1 = Some sample_tx"
  by code_simp

text \<open>
  C1: on a transmitter session every \<^verbatim>\<open>submit_sm\<close> whose handling returns is counted once as received, and once more,
  as sent when the response reports success and as rejected otherwise: none is lost and none is counted twice.
\<close>

theorem submit_accounting:
  assumes E: "submit_spec E" and h: "handle_submit_sm E T S e pdu 1 i = Some (resp, S', e', effs)"
  shows "\<exists>tx tx'. find_tx e i = Some tx \<and> find_tx e' i = Some tx' \<and>
    counter_value (tx_msg_received tx') = counter_value (tx_msg_received tx) + 1 \<and>
    (if sr_command_status resp = 0
     then counter_value (tx_msg_sent tx') = counter_value (tx_msg_sent tx) + 1 \<and> tx_msg_rejected tx' = tx_msg_rejected tx
     else counter_value (tx_msg_rejected tx') = counter_value (tx_msg_rejected tx) + 1 \<and> tx_msg_sent tx' = tx_msg_sent tx)"
proof -
  from handle_submit_parts [OF h] obtain tx outcome e2 where p: "find_tx e i = Some tx"
    "decide E S' T (throttle T e) pdu i (sr_message_id resp) = Some (outcome, e2)"
    "sr_command_status resp = (case outcome of Inl c \<Rightarrow> c | Inr m \<Rightarrow> created_status E)" "e' = map_tx i incr_received e2"
    by auto
  from decide_counters [OF p(2)] p(1) obtain tx2 where tx2: "find_tx e2 i = Some tx2"
    "tx_msg_received tx2 = tx_msg_received tx"
    "case outcome of
       Inl c \<Rightarrow> tx_msg_sent tx2 = tx_msg_sent tx \<and> tx_msg_rejected tx2 = snd (counter_increase (tx_msg_rejected tx))
     | Inr msg \<Rightarrow> tx_msg_sent tx2 = snd (counter_increase (tx_msg_sent tx)) \<and> tx_msg_rejected tx2 = tx_msg_rejected tx"
    by auto
  have "sr_command_status resp = 0 \<longleftrightarrow> \<not> isl outcome"
    using p(3) decide_rejects [OF E, of S' T "throttle T e" pdu i] p(2) E
    by (auto simp: submit_spec_def split: sum.splits)
  with p(1) p(4) tx2 show ?thesis
    by (cases outcome) (auto simp: find_incr incr_received_def counter_increase_def counter_value_def)
qed

theorem submit_accounting_witness:
  "\<exists>resp S' e' effs tx'. handle_submit_sm sample_submit_env sample_clock sample_server open_esme sample_pdu 1 1 =
     Some (resp, S', e', effs) \<and> find_tx e' 1 = Some tx' \<and> counter_value (tx_msg_sent tx') = 1"
proof (rule sample_submit_runs)
  fix resp S' e' effs
  assume h: "handle_submit_sm sample_submit_env sample_clock sample_server open_esme sample_pdu 1 1 = Some (resp, S', e', effs)"
    and z: "sr_command_status resp = 0"
  from submit_accounting [OF sample_submit_spec h] z sample_session
  show ?thesis by (auto simp: h sample_tx_def)
qed

text \<open>
  C2: with the database process attached, a message is sent on to the SMSC process exactly once when it is accepted and no
  do-not-disturb check is pending, and never when it is rejected; exactly one record of it goes to the database whatever the outcome, one
  more for the reports exactly when it is rejected, and all of them carry the message id and the status of the response.
\<close>

theorem submit_effects:
  assumes E: "submit_spec E" and h: "handle_submit_sm E T S e pdu mode i = Some (resp, S', e', effs)"
    and db: "dbbox_client S \<noteq> None"
  shows "\<exists>m r q. effs =
      (if sr_command_status resp = 0 \<and> dndcheck_flag S = 0 then [To_forward (Submit_msg m)] else []) @
      [To_dbbox (Esme_msg r)] @ (if sr_command_status resp = 0 then [] else [To_dbbox (Mis_msg q)]) \<and>
    sm_account_msg_id m = sr_message_id resp \<and> sm_account_name m = system_id e \<and>
    em_account_msg_id r = sr_message_id resp \<and> em_submit_status r = sr_command_status resp \<and> em_account_name r = system_id e \<and>
    mm_account_msg_id q = sr_message_id resp \<and> mm_submit_status q = sr_command_status resp \<and> mm_account_name q = system_id e"
  (is "\<exists>m r q. ?effs m r q \<and> ?m m \<and> ?m' m \<and> ?r r \<and> ?r' r \<and> ?r'' r \<and> ?q q \<and> ?q' q \<and> ?q'' q")
proof -
  from handle_submit_parts [OF h] obtain tx outcome e2 where p: "find_tx e i = Some tx"
    "decide E S' T (throttle T e) pdu i (sr_message_id resp) = Some (outcome, e2)"
    "sr_command_status resp = (case outcome of Inl c \<Rightarrow> c | Inr m \<Rightarrow> created_status E)"
    and S': "dndcheck_flag S' = dndcheck_flag S" "dbbox_client S' = dbbox_client S"
    and effs: "effs = (case outcome of Inl c \<Rightarrow> [] | Inr m \<Rightarrow> if dndcheck_flag S' = 0 then [To_forward (Submit_msg m)] else [])
      @ send_msg_dbbox_server S' (Esme_msg (esme_record E S' e2 pdu (sr_command_status resp) (sr_message_id resp) (tx_client_ip tx))) 0
      @ (if sr_command_status resp = 0 then []
         else mis_db_insert E S' (system_id e2) (sr_message_id resp) pdu (sr_command_status resp) (tx_client_ip tx))"
    by auto
  have st: "sr_command_status resp = 0 \<longleftrightarrow> \<not> isl outcome"
    using p(3) decide_rejects [OF E, of S' T "throttle T e" pdu i] p(2) E
    by (auto simp: submit_spec_def split: sum.splits)
  have sys: "system_id e2 = system_id e" using decide_system_id [OF p(2)] by simp
  have msg: "sm_account_msg_id m = sr_message_id resp \<and> sm_account_name m = system_id e" if "outcome = Inr m" for m
    using decide_accepts [OF p(2) [unfolded that]] by simp
  define q where "q = \<lparr> mm_account_name = system_id e, mm_account_msg_id = sr_message_id resp, mm_smsc_id = [],
         mm_smsc_msg_id = [], mm_req_time = current_datetime E, mm_source_addr = source_addr pdu,
         mm_dest_addr = destination_addr pdu, mm_submit_status = sr_command_status resp,
         mm_esm_class = esm_class pdu,
         mm_message_len = (case short_message pdu of None \<Rightarrow> 0 | Some m \<Rightarrow> int (length m)),
         mm_msg_content = short_message pdu, mm_retry_value = retry_value pdu, mm_ip = tx_client_ip tx \<rparr>"
  define r where "r = esme_record E S' e2 pdu (sr_command_status resp) (sr_message_id resp) (tx_client_ip tx)"
  obtain m where m: "?m m \<and> ?m' m" "outcome = Inr m \<or> isl outcome"
  proof (cases outcome)
    case (Inl c)
    then show ?thesis
      using that [of "\<lparr> sm_preferred_smsc = [], sm_allowed_smsc = [], sm_req_time = [], sm_account_name = system_id e,
        sm_account_msg_id = sr_message_id resp, sm_destination_addr = [], sm_source_addr = [], sm_pdu = [], sm_ip = [] \<rparr>"] by simp
  next
    case (Inr m)
    then show ?thesis using that [of m] msg by simp
  qed
  have "?effs m r q"
    using m(2) st db S' sys
    by (cases outcome) (auto simp: effs send_msg_dbbox_server_def mis_db_insert_def q_def r_def)
  moreover have "?r r \<and> ?r' r \<and> ?r'' r" "?q q \<and> ?q' q \<and> ?q'' q" by (simp_all add: r_def q_def esme_record_def sys)
  ultimately show ?thesis using m(1) by blast
qed

theorem submit_effects_witness:
  "\<exists>resp S' e' m r. handle_submit_sm sample_submit_env sample_clock sample_server open_esme sample_pdu 1 1 =
     Some (resp, S', e', [To_forward (Submit_msg m), To_dbbox (Esme_msg r)]) \<and> sm_account_name m = ''acme''"
proof (rule sample_submit_runs)
  fix resp S' e' effs
  assume h: "handle_submit_sm sample_submit_env sample_clock sample_server open_esme sample_pdu 1 1 = Some (resp, S', e', effs)"
    and z: "sr_command_status resp = 0"
  have "dbbox_client sample_server \<noteq> None" "dndcheck_flag sample_server = 0" by (simp_all add: sample_server_def)
  moreover have "system_id open_esme = ''acme''" by (simp add: open_esme_def)
  ultimately show ?thesis using submit_effects [OF sample_submit_spec h] z h by auto
qed

text \<open>What lets a session submit at all.\<close>

definition may_submit :: "server \<Rightarrow> esme \<Rightarrow> esme_tx \<Rightarrow> bool" where
  "may_submit S e tx \<longleftrightarrow> program_status S = PROGRAM_RUNNING \<and> global_q_limit S \<noteq> 1 \<and>
     (\<exists>r f. reverse_client S = Some r \<and> forward_client S = Some f \<and>
        (process_connected r \<and> process_connected f \<or> smsc_q_limit S = -1 \<or> send_list_len f \<noteq> smsc_q_limit S)) \<and>
     (tx_status tx = ESME_SMSC_UNCONNECTED \<longrightarrow>
        e_max_submits_unconnect e = -1 \<or> max_submits_unct_account (Some e) < e_max_submits_unconnect e) \<and>
     (tx_status tx = ESME_BINDED \<longrightarrow>
        e_max_submits e = -1 \<or> counter_value (tx_msg_received tx) < word_of_int (e_max_submits e))"

lemma admission_may_submit:
  assumes "admission E S e i = Some (c, e1)" "find_tx e i = Some tx"
  shows "c = None \<longleftrightarrow> may_submit S e tx"
  using assms by (auto simp: admission_def may_submit_def split: if_splits option.splits)

lemma admission_keeps:
  assumes "admission E S e i = Some (c, e1)"
  shows "system_id e1 = system_id e" "e_valid_time_from e1 = e_valid_time_from e" "e_valid_time_to e1 = e_valid_time_to e"
    "e_allowed_prefix e1 = e_allowed_prefix e"
  using assms by (auto simp: admission_def split: if_splits option.splits)

text \<open>
  C8: a message is accepted exactly when the server is running with room in its queues, the limits of the session are not
  reached, the hour lies strictly inside the hours of the account, the parameters of the message are in order and its
  destination can be routed to an SMSC.
\<close>

theorem submit_accepted_iff:
  assumes E: "submit_spec E" and h: "handle_submit_sm E T S e pdu mode i = Some (resp, S', e', effs)"
    and tx: "find_tx e i = Some tx"
  shows "sr_command_status resp = 0 \<longleftrightarrow>
    may_submit S (throttle T e) tx \<and> e_valid_time_from e < t_hour T \<and> t_hour T < e_valid_time_to e \<and> message_ok E e pdu \<and>
    (\<exists>ret strings. rout_pdu (ops E) (does_prefix_match E) (sv_settings S) (sv_smscs S) (Some (sv_translations S))
       (Some (national (the (destination_addr pdu)))) (Some (system_id e)) = Some (ret, strings) \<and> ret \<noteq> -1)"
proof -
  from handle_submit_parts [OF h] obtain outcome e2 where
    d: "decide E S' T (throttle T e) pdu i (sr_message_id resp) = Some (outcome, e2)"
    and st: "sr_command_status resp = (case outcome of Inl c \<Rightarrow> c | Inr m \<Rightarrow> created_status E)"
    and S': "may_submit S' = may_submit S" "sv_settings S' = sv_settings S" "sv_smscs S' = sv_smscs S"
      "sv_translations S' = sv_translations S"
    by (auto simp: may_submit_def fun_eq_iff)
  have st: "sr_command_status resp = 0 \<longleftrightarrow> \<not> isl outcome"
    using st decide_rejects [OF E, of S' T "throttle T e" pdu i] d E by (auto simp: submit_spec_def split: sum.splits)
  have th: "message_ok E (throttle T e) pdu = message_ok E e pdu" "system_id (throttle T e) = system_id e"
    "e_valid_time_from (throttle T e) = e_valid_time_from e" "e_valid_time_to (throttle T e) = e_valid_time_to e"
    by (simp_all add: throttle_def message_ok_def)
  obtain c e1 where a: "admission E S' (throttle T e) i = Some (c, e1)" using d by (auto simp: decide_def split: option.splits)
  note k = admission_keeps [OF a] and c = admission_may_submit [OF a, of tx, unfolded S' throttle_find, OF tx]
  show ?thesis
  proof (cases c)
    case (Some code)
    with d a st c show ?thesis by (auto simp: decide_def)
  next
    case None
    with d a obtain reason ev addrs where v: "verify_pdu_para E e1 pdu = Some (reason, ev, addrs)"
      by (auto simp: decide_def split: option.splits)
    note kv = verify_pdu_para_keeps [OF v]
    have ok: "reason = ROK (codes E) \<longleftrightarrow> message_ok E e pdu"
      "reason = ROK (codes E) \<longrightarrow> addrs = Some (national (the (destination_addr pdu)), the (source_addr pdu))"
      using verify_pdu_para_result [OF E v] k th(1) by (simp_all add: message_ok_def throttle_def)
    show ?thesis
      using d a None v kv k th st c ok S' by (auto simp: decide_def split: option.splits if_splits)
  qed
qed

theorem submit_accepted_iff_witness:
  "may_submit sample_server (throttle sample_clock open_esme) sample_tx \<and> message_ok sample_submit_env open_esme sample_pdu"
proof (rule sample_submit_runs)
  fix resp S' e' effs
  assume h: "handle_submit_sm sample_submit_env sample_clock sample_server open_esme sample_pdu 1 1 = Some (resp, S', e', effs)"
    and z: "sr_command_status resp = 0"
  from submit_accepted_iff [OF sample_submit_spec h sample_session] z show ?thesis by blast
qed

text \<open>
  An account configured without hours, which the configuration reader stores as -1 and -1, is never open: every message it
  submits is rejected, whatever the hour.
\<close>

theorem submit_default_hours:
  assumes E: "submit_spec E" and h: "handle_submit_sm E T S e pdu mode i = Some (resp, S', e', effs)"
    and hours: "e_valid_time_from e = -1" "e_valid_time_to e = -1" "0 \<le> t_hour T"
  shows "sr_command_status resp \<noteq> 0"
proof -
  from handle_submit_parts [OF h] obtain outcome e2 where
    d: "decide E S' T (throttle T e) pdu i (sr_message_id resp) = Some (outcome, e2)"
    and st: "sr_command_status resp = (case outcome of Inl c \<Rightarrow> c | Inr m \<Rightarrow> created_status E)" by auto
  have "isl outcome"
  proof -
    obtain c e1 where a: "admission E S' (throttle T e) i = Some (c, e1)" using d by (auto simp: decide_def split: option.splits)
    have k: "e_valid_time_to e1 = -1" using admission_keeps(3) [OF a] hours by (simp add: throttle_def)
    have "t_hour T \<ge> e_valid_time_to ev" if "verify_pdu_para E e1 pdu = Some (r, ev, x)" for r ev x
      using verify_pdu_para_keeps(5) [OF that] k hours by simp
    then show ?thesis
      using d a by (auto simp: decide_def split: option.splits if_splits)
  qed
  then show ?thesis using decide_rejects [OF E] d st by (cases outcome) auto
qed

theorem submit_default_hours_witness:
  "\<exists>resp S' e' effs. handle_submit_sm sample_submit_env sample_clock sample_server
     (open_esme\<lparr>e_valid_time_from := -1, e_valid_time_to := -1\<rparr>) sample_pdu 1 1 = Some (resp, S', e', effs) \<and>
     sr_command_status resp \<noteq> 0"
proof -
  let ?e = "open_esme\<lparr>e_valid_time_from := -1, e_valid_time_to := -1\<rparr>"
  have "handle_submit_sm sample_submit_env sample_clock sample_server ?e sample_pdu 1 1 \<noteq> None" by code_simp
  then obtain resp S' e' effs where
    h: "handle_submit_sm sample_submit_env sample_clock sample_server ?e sample_pdu 1 1 = Some (resp, S', e', effs)" by auto
  have "0 \<le> t_hour sample_clock" by (simp add: sample_clock_def)
  with submit_default_hours [OF sample_submit_spec h] h show ?thesis by simp
qed

end
