(* ===== verification/Deliver.thy ===== *)
theory Deliver
  imports Submit
begin

text \<open>
  Delivery of messages to the clients, \<^verbatim>\<open>update_info\<close> and \<^verbatim>\<open>write_esme_conn\<close> of \<^verbatim>\<open>smpp-esme/esme.c\<close>: the rewriting of a
  delivery receipt by \<^verbatim>\<open>sscanf\<close> and \<^verbatim>\<open>octstr_format\<close>, with the sizes of the buffers it scans into, and the loop
  that empties the queue of a session onto its connection.  \<open>None\<close> is a buffer overrun, the use of uninitialised or
  freed memory, or a null pointer given to the octet string library.
\<close>

section \<open>Scanning with a format\<close>

text \<open>
  The directives of the one format in use: an ordinary character, white space, a word, and a run of characters from a
  set of limited length; the last two with the size of the array they are stored into.
\<close>

datatype directive =
    Lit char
  | Space
  | Scan_s nat
  | Scan_set nat "char \<Rightarrow> bool" nat

definition is_space :: "char \<Rightarrow> bool" where
  "is_space c \<longleftrightarrow> c \<in> {CHR 0x20, CHR 0x09, CHR 0x0A, CHR 0x0B, CHR 0x0C, CHR 0x0D}"

text \<open>\<^verbatim>\<open>sscanf\<close>: the values stored before the first directive that does not match.\<close>

fun sscanf :: "directive list \<Rightarrow> octstr \<Rightarrow> octstr list option" where
  "sscanf [] s = Some []"
| "sscanf (Lit c # ds) s =
     (case s of [] \<Rightarrow> Some [] | x # xs \<Rightarrow> if x = c then sscanf ds xs else Some [])"
| "sscanf (Space # ds) s = sscanf ds (dropWhile is_space s)"
| "sscanf (Scan_s sz # ds) s =
     (let s' = dropWhile is_space s; w = takeWhile (\<lambda>c. \<not> is_space c) s'
      in if w = [] then Some []
         else if length w \<ge> sz then None
         else map_option ((#) w) (sscanf ds (drop (length w) s')))"
| "sscanf (Scan_set n P sz # ds) s =
     (let w = takeWhile P (take n s)
      in if w = [] then Some []
         else if length w \<ge> sz then None
         else map_option ((#) w) (sscanf ds (drop (length w) s)))"

definition is_digit :: "char \<Rightarrow> bool" where
  "is_digit c \<longleftrightarrow> of_char c \<in> {48..57 :: nat}"

definition receipt_format :: "directive list" where
  "receipt_format =
     map Lit ''id:'' @ [Scan_set 64 (\<lambda>c. c \<noteq> CHR ''s'') 64] @
     Space # map Lit ''sub:'' @ [Scan_s 4] @
     Space # map Lit ''dlvrd:'' @ [Scan_s 4] @
     Space # map Lit ''submit'' @ Space # map Lit ''date:'' @ [Scan_set 12 is_digit 12] @
     Space # map Lit ''done'' @ Space # map Lit ''date:'' @ [Scan_set 12 is_digit 12] @
     Space # map Lit ''stat:'' @ [Scan_set 10 (\<lambda>c. c \<noteq> CHR ''e'') 20] @
     Space # map Lit ''err:'' @ [Scan_s 4]"

section \<open>Rewriting a receipt\<close>

text \<open>
  The fields of a \<^verbatim>\<open>deliver_sm\<close> that the code reads or writes; \<open>d_rest\<close> stands for the others.  \<open>payload_freed\<close> records that the
  string of \<open>message_payload\<close> has been freed while the field still points to it.
\<close>

record deliver_sm =
  d_sequence_number :: ulong
  d_short_message :: "octstr option"
  d_message_payload :: "octstr option"
  d_receipted_message_id :: "octstr option"
  payload_freed :: bool
  d_rest :: octstr

definition opt_len :: "octstr option \<Rightarrow> nat" where
  "opt_len s = (case s of None \<Rightarrow> 0 | Some t \<Rightarrow> length t)"

definition receipt_status :: "octstr \<Rightarrow> int" where
  "receipt_status stat =
     (if stat = ''DELIVRD'' then 1
      else if stat = ''EXPIRED'' then 2
      else if stat = ''DELETED'' then 3
      else if stat = ''UNDELIV'' then 4
      else if stat = ''ACCEPTD'' then 5
      else if stat = ''UNKNOWN'' then 6
      else if stat = ''REJECTD'' then 7
      else 10)"

definition format_receipt :: "octstr \<Rightarrow> octstr list \<Rightarrow> octstr" where
  "format_receipt account_msg_id vals =
     (case vals of
        [_, sub, dlvrd, submit_date, done_date, stat, err] \<Rightarrow>
          ''id:'' @ c_string account_msg_id @ '' sub:'' @ sub @ '' dlvrd:'' @ dlvrd @ '' submit date:'' @
          (if length submit_date < 1 then done_date else submit_date) @ '' done date:'' @ done_date @
          '' stat:'' @ stat @ '' err:'' @ err @ ''  text:''
      | _ \<Rightarrow> [])"

definition update_info :: "deliver_sm \<Rightarrow> octstr \<Rightarrow> (deliver_sm \<times> int) option" where
  "update_info pdu account_msg_id =
     (let from_payload = (opt_len (d_short_message pdu) = 0);
          short_msg = (if from_payload then d_message_payload pdu else d_short_message pdu)
      in case short_msg of None \<Rightarrow> None
         | Some msg \<Rightarrow>
           (case sscanf receipt_format (c_string msg) of None \<Rightarrow> None
            | Some vals \<Rightarrow>
                if length vals \<noteq> 7 then None
                else Some (pdu\<lparr>d_receipted_message_id := Some account_msg_id,
                               d_short_message := Some (format_receipt account_msg_id vals),
                               payload_freed := from_payload\<rparr>,
                           receipt_status (vals ! 5))))"

section \<open>Emptying the queue of a session\<close>

text \<open>
  A packed PDU without its length field is a \<^verbatim>\<open>deliver_sm\<close> or another PDU, which is passed on unchanged.
\<close>

datatype queued_pdu = Q_deliver deliver_sm | Q_other octstr

text \<open>
  What the code calls outside the repository: unpacking, packing, and the sizes of the two arrays of \<^verbatim>\<open>struct db_extract_values\<close> that
  the ids are copied into.
\<close>

record deliver_env =
  smpp_pdu_unpack :: "octstr \<Rightarrow> queued_pdu option"
  pack_queued :: "queued_pdu \<Rightarrow> octstr"
  db_smsc_id_size :: nat
  db_smsc_msg_id_size :: nat

definition db_copy_ok :: "deliver_env \<Rightarrow> msg_deliver \<Rightarrow> bool" where
  "db_copy_ok V m \<longleftrightarrow> length (c_string (md_smsc_id m)) < db_smsc_id_size V \<and>
     length (c_string (md_smsc_msg_id m)) < db_smsc_msg_id_size V"

text \<open>
  One message of the queue: the string written on the connection, none when the message cannot be unpacked, and the
  counter of sequence numbers.
\<close>

definition write_one :: "octstr_ops \<Rightarrow> deliver_env \<Rightarrow> msg_deliver \<Rightarrow> counter \<Rightarrow> (octstr option \<times> counter) option" where
  "write_one X V m seq =
     (case smpp_pdu_unpack V (octstr_from_position X (md_os m) 4) of
        None \<Rightarrow> Some (None, seq)
      | Some (Q_other os) \<Rightarrow> Some (Some (pack_queued V (Q_other os)), seq)
      | Some (Q_deliver pdu) \<Rightarrow>
          (let (n, seq') = counter_increase seq
           in case update_info (pdu\<lparr>d_sequence_number := n\<rparr>) (md_account_msg_id m) of
                None \<Rightarrow> None
              | Some (pdu', status) \<Rightarrow>
                  if status \<noteq> 5 \<and> \<not> db_copy_ok V m then None
                  else if payload_freed pdu' then None
                  else Some (Some (pack_queued V (Q_deliver pdu')), seq')))"

fun write_queue ::
    "octstr_ops \<Rightarrow> deliver_env \<Rightarrow> msg_deliver list \<Rightarrow> counter \<Rightarrow> counter \<Rightarrow> (octstr list \<times> counter \<times> counter) option" where
  "write_queue X V [] seq sent = Some ([], seq, sent)"
| "write_queue X V (m # ms) seq sent =
     (case write_one X V m seq of
        None \<Rightarrow> None
      | Some (None, seq') \<Rightarrow> write_queue X V ms seq' sent
      | Some (Some os, seq') \<Rightarrow>
          map_option (\<lambda>(oss, r). (os # oss, r)) (write_queue X V ms seq' (snd (counter_increase sent))))"

text \<open>
  The whole function on the structure of a session: the strings written, and the session.  Only a receiver counts the
  messages it has sent.  The list of a session is never null.
\<close>

definition write_tx :: "octstr_ops \<Rightarrow> deliver_env \<Rightarrow> esme_tx \<Rightarrow> (octstr list \<times> esme_tx) option" where
  "write_tx X V s =
     (case write_queue X V (tx_data_to_write s) (tx_seq_number s) counter_create of
        None \<Rightarrow> None
      | Some (oss, seq, sent) \<Rightarrow> Some (oss, s\<lparr>tx_data_to_write := [], tx_seq_number := seq\<rparr>))"

definition write_rx :: "octstr_ops \<Rightarrow> deliver_env \<Rightarrow> esme_rx \<Rightarrow> (octstr list \<times> esme_rx) option" where
  "write_rx X V s =
     (case write_queue X V (rx_data_to_write s) (rx_seq_number s) (rx_msg_sent s) of
        None \<Rightarrow> None
      | Some (oss, seq, sent) \<Rightarrow>
          Some (oss, s\<lparr>rx_data_to_write := [], rx_seq_number := seq, rx_msg_sent := sent\<rparr>))"

definition map_rx :: "int \<Rightarrow> (esme_rx \<Rightarrow> esme_rx) \<Rightarrow> esme \<Rightarrow> esme" where
  "map_rx session_id f e =
     (case first_pos (\<lambda>t. rx_session_id t = session_id) (rx_esme e) of
        None \<Rightarrow> e | Some i \<Rightarrow> e\<lparr>rx_esme := (rx_esme e)[i := f (rx_esme e ! i)]\<rparr>)"

definition find_rx :: "esme \<Rightarrow> int \<Rightarrow> esme_rx option" where
  "find_rx e session_id = List.find (\<lambda>t. rx_session_id t = session_id) (rx_esme e)"

definition write_esme_conn ::
    "octstr_ops \<Rightarrow> deliver_env \<Rightarrow> esme \<Rightarrow> int \<Rightarrow> int \<Rightarrow> (octstr list \<times> esme) option" where
  "write_esme_conn X V e mode session_id =
     (if mode = 1
      then (case find_tx e session_id of None \<Rightarrow> Some ([], e)
            | Some s \<Rightarrow> map_option (\<lambda>(oss, s'). (oss, map_tx session_id (\<lambda>_. s') e)) (write_tx X V s))
      else (case find_rx e session_id of None \<Rightarrow> Some ([], e)
            | Some s \<Rightarrow> map_option (\<lambda>(oss, s'). (oss, map_rx session_id (\<lambda>_. s') e)) (write_rx X V s)))"

section \<open>Lemmas on scanning\<close>

lemma sscanf_lits [simp]: "sscanf (map Lit l @ ds) (l @ s) = sscanf ds s"
  by (induction l) simp_all

lemma sscanf_space [simp]:
  "\<not> is_space c \<Longrightarrow> sscanf (Space # ds) (CHR 0x20 # c # s) = sscanf ds (c # s)"
  "\<not> is_space c \<Longrightarrow> sscanf (Space # ds) (c # s) = sscanf ds (c # s)"
  by (simp_all add: is_space_def)

lemma sscanf_skip: "sscanf (Space # ds) (CHR 0x20 # s) = sscanf (Space # ds) s"
  by (simp add: is_space_def)

lemma takeWhile_run: "list_all P w \<Longrightarrow> \<not> P c \<Longrightarrow> takeWhile P (w @ c # s) = w"
  by (induction w) simp_all

lemma takeWhile_run_end: "list_all P w \<Longrightarrow> s = [] \<or> \<not> P (hd s) \<Longrightarrow> takeWhile P (w @ s) = w"
  by (cases s) (auto simp: takeWhile_run list_all_iff)

lemma sscanf_set:
  assumes "list_all P w" "\<not> P c" "w \<noteq> []" "length w \<le> n" "length w < sz"
  shows "sscanf (Scan_set n P sz # ds) (w @ c # s) = map_option ((#) w) (sscanf ds (c # s))"
proof -
  have "takeWhile P (take n (w @ c # s)) = w"
    using assms by (cases "n - length w") (simp_all add: takeWhile_run list_all_iff takeWhile_eq_all_conv)
  with assms show ?thesis by (simp add: Let_def)
qed

lemma sscanf_word:
  assumes "list_all (\<lambda>c. \<not> is_space c) w" "s = [] \<or> is_space (hd s)" "w \<noteq> []" "length w < sz"
  shows "sscanf (Scan_s sz # ds) (w @ s) = map_option ((#) w) (sscanf ds s)"
proof -
  have "dropWhile is_space (w @ s) = w @ s" using assms by (cases w) auto
  moreover have "takeWhile (\<lambda>c. \<not> is_space c) (w @ s) = w" using assms by (simp add: takeWhile_run_end)
  ultimately show ?thesis using assms by (simp add: Let_def)
qed

text \<open>The text of a delivery receipt, as the SMPP specification lays it out, and the fields the buffers have room for.\<close>

record receipt =
  rc_id :: octstr
  rc_sub :: octstr
  rc_dlvrd :: octstr
  rc_submit_date :: octstr
  rc_done_date :: octstr
  rc_stat :: octstr
  rc_err :: octstr
  rc_tail :: octstr

definition receipt_text :: "receipt \<Rightarrow> octstr" where
  "receipt_text r = ''id:'' @ rc_id r @ '' sub:'' @ rc_sub r @ '' dlvrd:'' @ rc_dlvrd r @ '' submit date:'' @
     rc_submit_date r @ '' done date:'' @ rc_done_date r @ '' stat:'' @ rc_stat r @ '' err:'' @ rc_err r @ rc_tail r"

definition word_field :: "nat \<Rightarrow> octstr \<Rightarrow> bool" where
  "word_field n w \<longleftrightarrow> w \<noteq> [] \<and> length w < n \<and> list_all (\<lambda>c. \<not> is_space c) w"

definition date_field :: "octstr \<Rightarrow> bool" where
  "date_field w \<longleftrightarrow> w \<noteq> [] \<and> length w < 12 \<and> list_all is_digit w"

definition receipt_ok :: "receipt \<Rightarrow> bool" where
  "receipt_ok r \<longleftrightarrow> length (rc_id r) < 63 \<and> list_all (\<lambda>c. c \<noteq> CHR ''s'') (rc_id r) \<and>
     word_field 4 (rc_sub r) \<and> word_field 4 (rc_dlvrd r) \<and> date_field (rc_submit_date r) \<and> date_field (rc_done_date r) \<and>
     length (rc_stat r) < 10 \<and> list_all (\<lambda>c. c \<noteq> CHR ''e'') (rc_stat r) \<and> word_field 4 (rc_err r) \<and>
     (rc_tail r = [] \<or> is_space (hd (rc_tail r))) \<and> list_all (\<lambda>c. c \<noteq> CHR 0x00) (receipt_text r)"

lemma not_space_letters:
  "\<not> is_space (CHR ''s'')" "\<not> is_space (CHR ''d'')" "\<not> is_space (CHR ''e'')" "is_space (CHR 0x20)" "\<not> is_digit (CHR 0x20)"
  by (simp_all add: is_space_def is_digit_def)

text \<open>One field of the format at a time, from the back.\<close>

lemma scan_word_field:
  assumes "word_field n w" "s = [] \<or> is_space (hd s)" and that: "\<not> is_space c"
  shows "sscanf (Space # map Lit (c # l) @ Scan_s n # ds) (CHR 0x20 # (c # l) @ w @ s) =
    map_option ((#) w) (sscanf ds s)"
proof -
  have "sscanf (Space # map Lit (c # l) @ Scan_s n # ds) (CHR 0x20 # (c # l) @ w @ s) =
      sscanf (map Lit (c # l) @ Scan_s n # ds) ((c # l) @ w @ s)"
    using sscanf_space(1) [OF that] by simp
  also have "\<dots> = sscanf (Scan_s n # ds) (w @ s)" by (rule sscanf_lits)
  also have "\<dots> = map_option ((#) w) (sscanf ds s)"
    by (rule sscanf_word) (use assms in \<open>simp_all add: word_field_def\<close>)
  finally show ?thesis .
qed

lemma scan_date_field:
  assumes "date_field w" "\<not> is_space c"
  shows "sscanf (Space # map Lit (c # l) @ Space # map Lit ''date:'' @ Scan_set 12 is_digit 12 # ds)
      (CHR 0x20 # (c # l) @ '' date:'' @ w @ CHR 0x20 # s) = map_option ((#) w) (sscanf ds (CHR 0x20 # s))"
proof -
  have "sscanf (Space # map Lit (c # l) @ Space # map Lit ''date:'' @ Scan_set 12 is_digit 12 # ds)
      (CHR 0x20 # (c # l) @ '' date:'' @ w @ CHR 0x20 # s) =
      sscanf (map Lit (c # l) @ Space # map Lit ''date:'' @ Scan_set 12 is_digit 12 # ds) ((c # l) @ '' date:'' @ w @ CHR 0x20 # s)"
    using sscanf_space(1) [OF assms(2)] by simp
  also have "\<dots> = sscanf (Space # map Lit ''date:'' @ Scan_set 12 is_digit 12 # ds) ('' date:'' @ w @ CHR 0x20 # s)"
    by (rule sscanf_lits)
  also have "\<dots> = sscanf (map Lit ''date:'' @ Scan_set 12 is_digit 12 # ds) (''date:'' @ w @ CHR 0x20 # s)"
    using sscanf_space(1) [OF not_space_letters(2)] by simp
  also have "\<dots> = sscanf (Scan_set 12 is_digit 12 # ds) (w @ CHR 0x20 # s)" by (rule sscanf_lits)
  also have "\<dots> = map_option ((#) w) (sscanf ds (CHR 0x20 # s))"
    by (rule sscanf_set) (use assms in \<open>simp_all add: date_field_def not_space_letters\<close>)
  finally show ?thesis .
qed

lemma scan_err_field:
  assumes "word_field 4 err" "tail = [] \<or> is_space (hd tail)"
  shows "sscanf (Space # map Lit ''err:'' @ [Scan_s 4]) (''err:'' @ err @ tail) = Some [err]"
  using scan_word_field [of 4 err tail "CHR ''e''" "''rr:''" "[]"] assms
    sscanf_skip [of "map Lit ''err:'' @ [Scan_s 4]" "''err:'' @ err @ tail"]
  by (simp add: not_space_letters del: sscanf.simps) simp

lemma scan_stat_field:
  assumes "list_all (\<lambda>c. c \<noteq> CHR ''e'') st" "length st < 10"
  shows "sscanf (Space # map Lit ''stat:'' @ Scan_set 10 (\<lambda>c. c \<noteq> CHR ''e'') 20 # ds) ('' stat:'' @ st @ '' e'' @ s) =
    map_option ((#) (st @ '' '')) (sscanf ds (CHR ''e'' # s))"
proof -
  have "sscanf (Space # map Lit ''stat:'' @ Scan_set 10 (\<lambda>c. c \<noteq> CHR ''e'') 20 # ds) ('' stat:'' @ st @ '' e'' @ s) =
      sscanf (map Lit ''stat:'' @ Scan_set 10 (\<lambda>c. c \<noteq> CHR ''e'') 20 # ds) (''stat:'' @ st @ '' e'' @ s)"
    using sscanf_space(1) [OF not_space_letters(1)] by simp
  also have "\<dots> = sscanf (Scan_set 10 (\<lambda>c. c \<noteq> CHR ''e'') 20 # ds) ((st @ '' '') @ CHR ''e'' # s)"
    unfolding sscanf_lits by simp
  also have "\<dots> = map_option ((#) (st @ '' '')) (sscanf ds (CHR ''e'' # s))"
    by (rule sscanf_set) (use assms in auto)
  finally show ?thesis .
qed

lemma scan_receipt:
  assumes "receipt_ok r"
  shows "sscanf receipt_format (receipt_text r) =
    Some [rc_id r @ '' '', rc_sub r, rc_dlvrd r, rc_submit_date r, rc_done_date r, rc_stat r @ '' '', rc_err r]"
proof -
  note ok = assms [unfolded receipt_ok_def]
  define err where "err = Space # map Lit ''err:'' @ [Scan_s 4]"
  define stat where "stat = Space # map Lit ''stat:'' @ Scan_set 10 (\<lambda>c. c \<noteq> CHR ''e'') 20 # err"
  define ddate where "ddate = Space # map Lit ''done'' @ Space # map Lit ''date:'' @ Scan_set 12 is_digit 12 # stat"
  define sdate where "sdate = Space # map Lit ''submit'' @ Space # map Lit ''date:'' @ Scan_set 12 is_digit 12 # ddate"
  define dlvrd where "dlvrd = Space # map Lit ''dlvrd:'' @ Scan_s 4 # sdate"
  define sub where "sub = Space # map Lit ''sub:'' @ Scan_s 4 # dlvrd"
  define t1 where "t1 = '' err:'' @ rc_err r @ rc_tail r"
  define t2 where "t2 = '' stat:'' @ rc_stat r @ t1"
  define t3 where "t3 = '' done date:'' @ rc_done_date r @ t2"
  define t4 where "t4 = '' submit date:'' @ rc_submit_date r @ t3"
  define t5 where "t5 = '' dlvrd:'' @ rc_dlvrd r @ t4"
  define t6 where "t6 = '' sub:'' @ rc_sub r @ t5"
  have f: "receipt_format = map Lit ''id:'' @ Scan_set 64 (\<lambda>c. c \<noteq> CHR ''s'') 64 # sub"
    unfolding receipt_format_def sub_def dlvrd_def sdate_def ddate_def stat_def err_def by simp
  have t: "receipt_text r = ''id:'' @ rc_id r @ t6"
    unfolding receipt_text_def t6_def t5_def t4_def t3_def t2_def t1_def by simp
  have st: "sscanf stat t2 = Some [rc_stat r @ '' '', rc_err r]"
    using scan_stat_field [of "rc_stat r" err "''rr:'' @ rc_err r @ rc_tail r"] scan_err_field [of "rc_err r" "rc_tail r"] ok
    unfolding stat_def err_def t2_def t1_def by (simp del: sscanf.simps)
  have dd: "sscanf ddate t3 = Some [rc_done_date r, rc_stat r @ '' '', rc_err r]"
    using scan_date_field [of "rc_done_date r" "CHR ''d''" "''one''" stat "''stat:'' @ rc_stat r @ t1"] ok st
    unfolding ddate_def t3_def t2_def by (simp add: not_space_letters)
  have sd: "sscanf sdate t4 = Some [rc_submit_date r, rc_done_date r, rc_stat r @ '' '', rc_err r]"
    using scan_date_field [of "rc_submit_date r" "CHR ''s''" "''ubmit''" ddate "''done date:'' @ rc_done_date r @ t2"] ok dd
    unfolding sdate_def t4_def t3_def by (simp add: not_space_letters)
  have dl: "sscanf dlvrd t5 = Some [rc_dlvrd r, rc_submit_date r, rc_done_date r, rc_stat r @ '' '', rc_err r]"
    using scan_word_field [of 4 "rc_dlvrd r" t4 "CHR ''d''" "''lvrd:''" sdate] ok sd
    unfolding dlvrd_def t5_def t4_def by (simp add: not_space_letters)
  have su: "sscanf sub t6 = Some [rc_sub r, rc_dlvrd r, rc_submit_date r, rc_done_date r, rc_stat r @ '' '', rc_err r]"
    using scan_word_field [of 4 "rc_sub r" t5 "CHR ''s''" "''ub:''" dlvrd] ok dl
    unfolding sub_def t6_def t5_def by (simp add: not_space_letters)
  have su': "sscanf sub (CHR ''s'' # ''ub:'' @ rc_sub r @ t5) = sscanf sub t6"
    using sscanf_skip [of "map Lit ''sub:'' @ Scan_s 4 # dlvrd" "''sub:'' @ rc_sub r @ t5"]
    unfolding sub_def t6_def by (simp del: sscanf.simps)
  have "sscanf receipt_format (receipt_text r) =
      sscanf (Scan_set 64 (\<lambda>c. c \<noteq> CHR ''s'') 64 # sub) ((rc_id r @ '' '') @ CHR ''s'' # ''ub:'' @ rc_sub r @ t5)"
    unfolding f t sscanf_lits t6_def by simp
  also have "\<dots> = map_option ((#) (rc_id r @ '' '')) (sscanf sub (CHR ''s'' # ''ub:'' @ rc_sub r @ t5))"
    by (rule sscanf_set) (use ok in auto)
  finally show ?thesis using su su' by simp
qed

section \<open>Properties\<close>

lemma receipt_status_blank: "receipt_status (s @ '' '') = 10"
proof -
  have "s @ '' '' \<noteq> w" if "last w \<noteq> CHR '' ''" for w using that by auto
  then show ?thesis by (simp add: receipt_status_def)
qed

lemma update_info_receipt_result:
  assumes "receipt_ok r" "d_short_message pdu = Some (receipt_text r)"
  shows "update_info pdu account_msg_id = Some (pdu\<lparr>d_receipted_message_id := Some account_msg_id, payload_freed := False,
    d_short_message := Some (receipt_text (r\<lparr>rc_id := c_string account_msg_id, rc_stat := rc_stat r @ '' '', rc_tail := ''  text:''\<rparr>))\<rparr>, 10)"
proof -
  have "opt_len (d_short_message pdu) \<noteq> 0" using assms(2) by (simp add: opt_len_def receipt_text_def)
  moreover have "c_string (receipt_text r) = receipt_text r" using assms(1) by (simp add: receipt_ok_def c_string_id)
  moreover have "rc_submit_date r \<noteq> []" using assms(1) by (simp add: receipt_ok_def date_field_def)
  ultimately show ?thesis
    using assms(2) scan_receipt [OF assms(1)] receipt_status_blank [of "rc_stat r"]
    by (simp add: update_info_def Let_def format_receipt_def receipt_text_def)
qed

text \<open>
  A delivery receipt whose fields fit the buffers is passed on with the message id of the account in place of the one of
  the SMSC and its other fields unchanged, but for a blank added after the state and a text that is dropped.  The blank comes from the
  scan of the state, which runs up to the next letter e: no state is ever recognised, and the status is 10 whatever the receipt says.
\<close>

theorem update_info_receipt:
  assumes "receipt_ok r" "d_short_message pdu = Some (receipt_text r)"
  shows "update_info pdu account_msg_id = Some (pdu\<lparr>d_receipted_message_id := Some account_msg_id, payload_freed := False,
    d_short_message := Some (receipt_text (r\<lparr>rc_id := c_string account_msg_id, rc_stat := rc_stat r @ '' '', rc_tail := ''  text:''\<rparr>))\<rparr>, 10)"
  using assms by (rule update_info_receipt_result)

definition sample_receipt :: receipt where
  "sample_receipt = \<lparr> rc_id = ''0A1B'', rc_sub = ''001'', rc_dlvrd = ''001'', rc_submit_date = ''2401010900'',
     rc_done_date = ''2401010901'', rc_stat = ''DELIVRD'', rc_err = ''000'', rc_tail = '' text:hello'' \<rparr>"

definition sample_deliver :: deliver_sm where
  "sample_deliver = \<lparr> d_sequence_number = 0, d_short_message = Some (receipt_text sample_receipt), d_message_payload = None,
     d_receipted_message_id = None, payload_freed = False, d_rest = [] \<rparr>"

lemma sample_receipt_ok: "receipt_ok sample_receipt" "d_short_message sample_deliver = Some (receipt_text sample_receipt)"
  by code_simp+

theorem update_info_receipt_witness:
  "map_option (\<lambda>(pdu, status). (d_short_message pdu, status)) (update_info sample_deliver ''77'') =
     Some (Some ''id:77 sub:001 dlvrd:001 submit date:2401010900 done date:2401010901 stat:DELIVRD  err:000  text:'', 10)"
  using update_info_receipt [OF sample_receipt_ok, of "''77''"]
  by (simp add: receipt_text_def) (simp add: sample_receipt_def c_string_def)

text \<open>
  A message to a client that is not a receipt makes \<^verbatim>\<open>update_info\<close> use memory it has not initialised: no message
  whose text does not begin with the word id and a colon is passed on as it was sent.
\<close>

theorem update_info_plain_message:
  assumes "d_short_message pdu = Some (c # text)" "c \<noteq> CHR ''i''"
  shows "update_info pdu account_msg_id = None"
proof -
  have "sscanf receipt_format (c_string (c # text)) = Some []"
    using assms(2) by (simp add: receipt_format_def c_string_def)
  with assms(1) show ?thesis by (simp add: update_info_def opt_len_def)
qed

theorem update_info_plain_message_witness: "update_info (sample_deliver\<lparr>d_short_message := Some ''hello''\<rparr>) ''77'' = None"
  by (rule update_info_plain_message [of _ "CHR ''h''" "''ello''"]) simp_all

definition unpacked :: "octstr_ops \<Rightarrow> deliver_env \<Rightarrow> msg_deliver \<Rightarrow> queued_pdu option" where
  "unpacked X V m = smpp_pdu_unpack V (octstr_from_position X (md_os m) 4)"

definition is_deliver :: "queued_pdu option \<Rightarrow> bool" where
  "is_deliver q \<longleftrightarrow> (\<exists>d. q = Some (Q_deliver d))"

text \<open>The messages of the queue that the code can handle: no \<^verbatim>\<open>deliver_sm\<close>, or a receipt in its short message.\<close>

definition item_ok :: "octstr_ops \<Rightarrow> deliver_env \<Rightarrow> msg_deliver \<Rightarrow> bool" where
  "item_ok X V m \<longleftrightarrow> (\<forall>d. unpacked X V m = Some (Q_deliver d) \<longrightarrow>
     (\<exists>r. receipt_ok r \<and> d_short_message d = Some (receipt_text r)) \<and> db_copy_ok V m)"

fun delivers :: "queued_pdu list \<Rightarrow> deliver_sm list" where
  "delivers [] = []"
| "delivers (Q_deliver d # qs) = d # delivers qs"
| "delivers (Q_other os # qs) = delivers qs"

text \<open>What is written for a queue: the PDUs, numbered from a counter on, for the messages of the queue in order.\<close>

definition wrote :: "octstr_ops \<Rightarrow> deliver_env \<Rightarrow> msg_deliver list \<Rightarrow> ulong \<Rightarrow> queued_pdu list \<Rightarrow> bool" where
  "wrote X V ms n qs \<longleftrightarrow>
     length qs = length (filter (\<lambda>m. unpacked X V m \<noteq> None) ms) \<and>
     map d_sequence_number (delivers qs) = map (\<lambda>k. n + of_nat k) [0..<length (delivers qs)] \<and>
     map d_receipted_message_id (delivers qs) =
       map (\<lambda>m. Some (md_account_msg_id m)) (filter (\<lambda>m. is_deliver (unpacked X V m)) ms)"

lemma wrote_Nil: "wrote X V [] n []"
  by (simp add: wrote_def)

lemma wrote_skip: "unpacked X V m = None \<Longrightarrow> wrote X V (m # ms) n qs \<longleftrightarrow> wrote X V ms n qs"
  by (simp add: wrote_def is_deliver_def)

lemma wrote_other: "unpacked X V m = Some (Q_other os) \<Longrightarrow> wrote X V (m # ms) n (Q_other os # qs) \<longleftrightarrow> wrote X V ms n qs"
  by (simp add: wrote_def is_deliver_def)

lemma wrote_deliver:
  assumes "unpacked X V m = Some (Q_deliver d0)" "wrote X V ms (n + 1) qs"
    "d_sequence_number d = n" "d_receipted_message_id d = Some (md_account_msg_id m)"
  shows "wrote X V (m # ms) n (Q_deliver d # qs)"
proof -
  have "map (\<lambda>k. n + 1 + of_nat k) [0..<j] = map (\<lambda>k. n + of_nat k) [1..<Suc j]" for j
    by (rule nth_equalityI) (simp_all add: algebra_simps del: upt_Suc)
  then show ?thesis
    using assms by (simp add: wrote_def is_deliver_def upt_conv_Cons del: upt_Suc)
qed

lemma write_one_ok:
  assumes "item_ok X V m"
  shows "write_one X V m seq = (case unpacked X V m of
      None \<Rightarrow> Some (None, seq)
    | Some (Q_other os) \<Rightarrow> Some (Some (pack_queued V (Q_other os)), seq)
    | Some (Q_deliver pdu) \<Rightarrow> Some (Some (pack_queued V (Q_deliver (fst (the
         (update_info (pdu\<lparr>d_sequence_number := counter_value seq\<rparr>) (md_account_msg_id m)))))), snd (counter_increase seq)))"
proof (cases "is_deliver (unpacked X V m)")
  case True
  then obtain d where d: "unpacked X V m = Some (Q_deliver d)" by (auto simp: is_deliver_def)
  with assms obtain r where r: "receipt_ok r" "d_short_message d = Some (receipt_text r)" "db_copy_ok V m"
    by (auto simp: item_ok_def)
  have "d_short_message (d\<lparr>d_sequence_number := n\<rparr>) = Some (receipt_text r)" for n using r(2) by simp
  from update_info_receipt_result [OF r(1) this] d r(3) show ?thesis
    by (simp add: write_one_def unpacked_def counter_increase_def counter_value_def)
next
  case False
  then show ?thesis
    by (auto simp: write_one_def unpacked_def is_deliver_def split: option.splits queued_pdu.splits)
qed

lemma update_info_fields:
  assumes "update_info pdu a = Some (pdu', st)"
  shows "d_sequence_number pdu' = d_sequence_number pdu" "d_receipted_message_id pdu' = Some a"
  using assms by (auto simp: update_info_def Let_def split: option.splits if_splits)

lemma write_queue_ok:
  assumes "list_all (item_ok X V) ms"
  shows "\<exists>qs seq' sent'. write_queue X V ms seq sent = Some (map (pack_queued V) qs, seq', sent') \<and>
    wrote X V ms (counter_value seq) qs \<and> counter_value seq' = counter_value seq + of_nat (length (delivers qs)) \<and>
    counter_value sent' = counter_value sent + of_nat (length qs)"
  using assms
proof (induction ms arbitrary: seq sent)
  case Nil
  show ?case by (intro exI [of _ "[]"]) (simp add: wrote_Nil)
next
  case (Cons m ms)
  then have m: "item_ok X V m" and ms: "list_all (item_ok X V) ms" by simp_all
  note w = write_one_ok [OF m, of seq] and IH = Cons.IH [OF ms]
  show ?case
  proof (cases "unpacked X V m")
    case None
    with w IH [of seq sent] show ?thesis by (auto simp: wrote_skip)
  next
    case (Some q)
    show ?thesis
    proof (cases q)
      case (Q_other os)
      obtain qs seq' sent' where r: "write_queue X V ms seq (snd (counter_increase sent)) = Some (map (pack_queued V) qs, seq', sent')"
        "wrote X V ms (counter_value seq) qs" "counter_value seq' = counter_value seq + of_nat (length (delivers qs))"
        "counter_value sent' = counter_value (snd (counter_increase sent)) + of_nat (length qs)"
        using IH by blast
      show ?thesis
        by (rule exI [of _ "Q_other os # qs"]) (use Some Q_other w r in \<open>simp add: wrote_other algebra_simps\<close>)
    next
      case (Q_deliver d)
      with m Some obtain rc where rc: "receipt_ok rc" "d_short_message (d\<lparr>d_sequence_number := counter_value seq\<rparr>) = Some (receipt_text rc)"
        by (auto simp: item_ok_def)
      obtain d' st where d': "update_info (d\<lparr>d_sequence_number := counter_value seq\<rparr>) (md_account_msg_id m) = Some (d', st)"
        using update_info_receipt_result [OF rc] by blast
      obtain qs seq' sent' where r: "write_queue X V ms (snd (counter_increase seq)) (snd (counter_increase sent)) =
          Some (map (pack_queued V) qs, seq', sent')" "wrote X V ms (counter_value seq + 1) qs"
        "counter_value seq' = counter_value seq + 1 + of_nat (length (delivers qs))"
        "counter_value sent' = counter_value (snd (counter_increase sent)) + of_nat (length qs)"
        using IH [of "snd (counter_increase seq)" "snd (counter_increase sent)"] by auto
      show ?thesis
        by (rule exI [of _ "Q_deliver d' # qs"])
          (use Some Q_deliver w r d' update_info_fields [OF d'] in \<open>simp add: wrote_deliver algebra_simps\<close>)
    qed
  qed
qed

lemma find_map_rx:
  assumes "\<And>t. rx_session_id t = session_id \<Longrightarrow> rx_session_id (f t) = session_id"
  shows "find_rx (map_rx session_id f e) session_id = map_option f (find_rx e session_id)"
proof (cases "first_pos (\<lambda>t. rx_session_id t = session_id) (rx_esme e)")
  case None
  then show ?thesis by (simp add: map_rx_def find_rx_def find_first_pos)
next
  case (Some i)
  note fp = first_pos_SomeD [OF Some]
  have "List.find (\<lambda>t. rx_session_id t = session_id) ((rx_esme e)[i := f (rx_esme e ! i)]) = Some (f (rx_esme e ! i))"
    unfolding find_Some_iff using fp assms by (intro exI [of _ i]) auto
  with Some show ?thesis by (simp add: map_rx_def find_rx_def find_first_pos)
qed

lemma find_rx_id: "find_rx e i = Some s \<Longrightarrow> rx_session_id s = i"
  by (auto simp: find_rx_def find_Some_iff)

lemma find_tx_id: "find_tx e i = Some s \<Longrightarrow> tx_session_id s = i"
  by (auto simp: find_tx_def find_Some_iff)


definition sample_deliver_env :: deliver_env where
  "sample_deliver_env = \<lparr> smpp_pdu_unpack = (\<lambda>os. if os = ''receipt'' then Some (Q_deliver sample_deliver) else None),
     pack_queued = (\<lambda>q. case q of Q_deliver d \<Rightarrow> case_option [] id (d_short_message d) | Q_other os \<Rightarrow> os),
     db_smsc_id_size = 64, db_smsc_msg_id_size = 64 \<rparr>"

definition sample_rx :: esme_rx where
  "sample_rx = \<lparr> rx_conn = 5, rx_client_ip = ''10.0.0.1'', rx_client_port = 1025, rx_listen_port = 3001,
     rx_data_to_write = [\<lparr> md_smsc_id = ''s0'', md_smsc_msg_id = ''0A1B'', md_account_msg_id = ''77'', md_os = ''XXXXreceipt'' \<rparr>],
     rx_msg_sent = counter_create, rx_seq_number = counter_create, rx_start_time = 0, rx_thread_id = 9,
     rx_status = ESME_BINDED, rx_quit = 0, rx_session_id = 1, rx_mode = 2 \<rparr>"


end
