(* ===== verification/Server.thy ===== *)
theory Server
  imports Deliver
begin

text \<open>
  \<^verbatim>\<open>smpp-esme/smpp_esme.c\<close>: the handlers of binds and of the other PDUs, their tables, the reading of PDUs from a
  connection and \<^verbatim>\<open>receive_smpp_thread\<close>, the thread that serves one client from its bind to the end of its session.
  \<open>None\<close> is a null or wild pointer or the use of uninitialised memory.
\<close>

section \<open>PDUs\<close>

text \<open>The PDUs a client sends; \<open>Other_pdu\<close> are those no table has.  The first component is the sequence number.\<close>

datatype pdu =
    Bind_transmitter bind_pdu
  | Bind_receiver bind_pdu
  | Bind_transceiver bind_pdu
  | Generic_nack ulong int
  | Enquire_link ulong
  | Enquire_link_resp ulong
  | Submit_sm submit_sm
  | Deliver_sm_resp ulong
  | Unbind ulong
  | Unbind_resp ulong
  | Cancel_sm ulong
  | Replace_sm ulong
  | Query_sm ulong
  | Other_pdu ulong

fun sequence_number :: "pdu \<Rightarrow> ulong" where
  "sequence_number (Bind_transmitter b) = bind_sequence_number b"
| "sequence_number (Bind_receiver b) = bind_sequence_number b"
| "sequence_number (Bind_transceiver b) = bind_sequence_number b"
| "sequence_number (Generic_nack n _) = n"
| "sequence_number (Enquire_link n) = n"
| "sequence_number (Enquire_link_resp n) = n"
| "sequence_number (Submit_sm s) = submit_sequence_number s"
| "sequence_number (Deliver_sm_resp n) = n"
| "sequence_number (Unbind n) = n"
| "sequence_number (Unbind_resp n) = n"
| "sequence_number (Cancel_sm n) = n"
| "sequence_number (Replace_sm n) = n"
| "sequence_number (Query_sm n) = n"
| "sequence_number (Other_pdu n) = n"

record bind_resp =
  br_sequence_number :: ulong
  br_command_status :: int
  br_system_id :: octstr
  br_sc_interface_version :: int

text \<open>What the server writes on a connection; \<open>Packed\<close> is a message of the queue of the session.\<close>

datatype out_pdu =
    Bind_transmitter_resp bind_resp
  | Bind_receiver_resp bind_resp
  | Bind_transceiver_resp bind_resp
  | Submit_sm_resp submit_resp
  | Out_enquire_link_resp ulong
  | Out_unbind_resp ulong
  | Cancel_sm_resp ulong int
  | Replace_sm_resp ulong int
  | Query_sm_resp ulong int
  | Out_generic_nack ulong int
  | Out_enquire_link ulong
  | Out_unbind ulong
  | Packed octstr

section \<open>Binds\<close>

text \<open>
  The environment of a thread: the functions outside the repository, the clock at a bind, the id of the thread, the configured
  name of the server, and the readings of the clocks, numbered in the order in which the thread takes them.
\<close>

record server_env =
  se_submit :: submit_env
  se_deliver :: deliver_env
  se_reg :: reg_ops
  se_dates :: "int date_env"
  se_self :: int
  smsc_system_id :: octstr
  se_now :: "nat \<Rightarrow> int"
  se_clock :: "nat \<Rightarrow> submit_clock"

text \<open>The status of a response, from the return value of \<^verbatim>\<open>authorise_user\<close>.\<close>

definition transmitter_status :: "submit_env \<Rightarrow> int \<Rightarrow> bool \<Rightarrow> int" where
  "transmitter_status E ret has_esme =
     (let K = codes E in
      if ret = 0 \<and> has_esme then 0
      else if ret = 1 then RBINDFAIL K
      else if ret = 2 then RBINDFAIL K
      else if ret = 3 then RBINDFAIL K
      else if ret = 6 then RBINDFAIL K
      else if ret = 4 \<or> ret = 5 then RBINDFAIL K
      else if ret = 7 then RBINDFAIL K
      else if ret = 8 then RBINDFAIL K
      else if ret = 9 then RBINDFAIL K
      else if ret = 10 then RBINDFAIL K
      else if ret = -1 then RBINDFAIL K
      else created_status E)"

definition receiver_status :: "submit_env \<Rightarrow> int \<Rightarrow> int" where
  "receiver_status E ret =
     (let K = codes E in
      if ret = 0 then 0
      else if ret = 1 then RINVSYSID K
      else if ret = 2 then RINVPASWD K
      else if ret = 3 then RINVCMDID K
      else if ret = 6 then RALYNBD K
      else if ret = 4 \<or> ret = 5 then RINVEXPIRY K
      else if ret = 7 then RINVMSGID K
      else if ret = 8 then RINVPRTFLG K
      else if ret = 9 then RINVPRTFLG K
      else if ret = 10 then RBINDFAIL K
      else created_status E)"

text \<open>The call of \<^verbatim>\<open>authorise_user\<close> and the flag it sets on the connection, by the sessions of the kind asked for.\<close>

definition bind_sessions :: "int \<Rightarrow> esme \<Rightarrow> nat" where
  "bind_sessions mode e = (if mode = 2 then length (rx_esme e) else length (tx_esme e))"

definition bind_authorise ::
    "server_env \<Rightarrow> server \<Rightarrow> int \<Rightarrow> tempconn \<Rightarrow> bind_pdu \<Rightarrow> registry \<Rightarrow> (int \<times> nat option \<times> tempconn \<times> registry) option" where
  "bind_authorise W S mode tc pdu g =
     (case authorise_user (se_reg W) (se_dates W) (se_self W) (Some (sv_translations S)) (sv_smscs S) (Some pdu) mode (Some tc) g of
        None \<Rightarrow> None
      | Some (ret, g', tc', r) \<Rightarrow>
          (case tc' of None \<Rightarrow> None
           | Some tc1 \<Rightarrow>
              (let present = (case r of None \<Rightarrow> False
                 | Some p \<Rightarrow> (case deref g' p of None \<Rightarrow> False | Some e \<Rightarrow> bind_sessions mode e > 0))
               in Some (ret, r, tc1\<lparr>bind_successful := (if ret = 0 \<and> present then 1 else 0)\<rparr>, g'))))"

definition make_bind_resp :: "server_env \<Rightarrow> bind_pdu \<Rightarrow> int \<Rightarrow> bind_resp" where
  "make_bind_resp W pdu status =
     \<lparr> br_sequence_number = bind_sequence_number pdu, br_command_status = status,
       br_system_id = smsc_system_id W, br_sc_interface_version = 0x34 \<rparr>"

definition handle_bind_transmitter ::
    "server_env \<Rightarrow> server \<Rightarrow> tempconn \<Rightarrow> bind_pdu \<Rightarrow> registry \<Rightarrow> (out_pdu \<times> nat option \<times> tempconn \<times> registry) option" where
  "handle_bind_transmitter W S tc pdu g =
     (let E = se_submit W; resp = (\<lambda>status. Bind_transmitter_resp (make_bind_resp W pdu status)) in
      if program_status S \<noteq> PROGRAM_RUNNING then Some (resp (RBINDFAIL (codes E)), None, tc, g)
      else if tc_listen_port tc \<noteq> trans_port S then Some (resp (RBINDFAIL (codes E)), None, tc, g)
      else if check_server_connections S = -1 then Some (resp (RBINDFAIL (codes E)), None, tc, g)
      else (case bind_authorise W S 1 tc pdu g of None \<Rightarrow> None
            | Some (ret, r, tc', g') \<Rightarrow> Some (resp (transmitter_status E ret (r \<noteq> None)), r, tc', g')))"

definition handle_bind_receiver ::
    "server_env \<Rightarrow> server \<Rightarrow> tempconn \<Rightarrow> bind_pdu \<Rightarrow> registry \<Rightarrow> (out_pdu \<times> nat option \<times> tempconn \<times> registry) option" where
  "handle_bind_receiver W S tc pdu g =
     (let E = se_submit W; resp = (\<lambda>status. Bind_receiver_resp (make_bind_resp W pdu status)) in
      if program_status S \<noteq> PROGRAM_RUNNING then Some (resp (RBINDFAIL (codes E)), None, tc, g)
      else if tc_listen_port tc \<noteq> recv_port S then Some (resp (RINVCMDID (codes E)), None, tc, g)
      else if check_server_connections S = -1 then Some (resp (RINVCMDID (codes E)), None, tc, g)
      else (case bind_authorise W S 2 tc pdu g of None \<Rightarrow> None
            | Some (ret, r, tc', g') \<Rightarrow> Some (resp (receiver_status E ret), r, tc', g')))"

definition handle_bind_transceiver ::
    "server_env \<Rightarrow> server \<Rightarrow> tempconn \<Rightarrow> bind_pdu \<Rightarrow> registry \<Rightarrow> (out_pdu \<times> nat option \<times> tempconn \<times> registry) option" where
  "handle_bind_transceiver W S tc pdu g =
     (let E = se_submit W; resp = (\<lambda>status. Bind_transceiver_resp (make_bind_resp W pdu status)) in
      if program_status S \<noteq> PROGRAM_RUNNING then Some (resp (RBINDFAIL (codes E)), None, tc, g)
      else if tc_listen_port tc \<noteq> trans_recv_port S then Some (resp (RINVCMDID (codes E)), None, tc, g)
      else if check_server_connections S = -1 then Some (resp (RINVCMDID (codes E)), None, tc, g)
      else (case bind_authorise W S 3 tc pdu g of None \<Rightarrow> None
            | Some (ret, r, tc', g') \<Rightarrow> Some (resp (receiver_status E ret), r, tc', g')))"

text \<open>
  The table of binds; every other PDU is refused.  Before a bind is handled the thread is connected to the log of the
  account, which needs a user name.
\<close>

definition handle_pdu_bind ::
    "server_env \<Rightarrow> server \<Rightarrow> tempconn \<Rightarrow> pdu \<Rightarrow> registry \<Rightarrow>
     ((nat \<times> out_pdu) list \<times> nat option \<times> tempconn \<times> registry) option" where
  "handle_pdu_bind W S tc pdu g =
     (let log = (\<lambda>b. init_log_file (ops (se_submit W)) (bind_system_id b) (sv_translations S) (tc_mode tc));
          finish = map_option (\<lambda>(resp, r, tc', g'). ([(tc_conn tc, resp)], r, tc', g'))
      in case pdu of
           Bind_transmitter b \<Rightarrow> if log b = None then None else finish (handle_bind_transmitter W S tc b g)
         | Bind_receiver b \<Rightarrow> if log b = None then None else finish (handle_bind_receiver W S tc b g)
         | Bind_transceiver b \<Rightarrow> if log b = None then None else finish (handle_bind_transceiver W S tc b g)
         | _ \<Rightarrow> Some ([(tc_conn tc, Out_generic_nack (sequence_number pdu) (RINVCMDID (codes (se_submit W))))], None, tc, g))"

section \<open>The other handlers\<close>

text \<open>The response, if there is one, the server, the account structure, and the messages sent to the other processes.\<close>

type_synonym handled = "(out_pdu option \<times> server \<times> esme \<times> effect list) option"

type_synonym handler = "server_env \<Rightarrow> submit_clock \<Rightarrow> server \<Rightarrow> esme \<Rightarrow> pdu \<Rightarrow> int \<Rightarrow> int \<Rightarrow> handled"

text \<open>The session a pointer refers to, by the kind of the thread.\<close>

definition session_open :: "esme \<Rightarrow> int \<Rightarrow> int \<Rightarrow> bool" where
  "session_open e mode session_id \<longleftrightarrow>
     (if mode = 1 then find_tx e session_id \<noteq> None else if mode = 2 then find_rx e session_id \<noteq> None else True)"

definition map_session :: "int \<Rightarrow> int \<Rightarrow> (esme_tx \<Rightarrow> esme_tx) \<Rightarrow> (esme_rx \<Rightarrow> esme_rx) \<Rightarrow> esme \<Rightarrow> esme" where
  "map_session mode session_id f h e =
     (if mode = 1 then map_tx session_id f e else if mode = 2 then map_rx session_id h e else e)"

definition handle_deliver_sm_resp :: handler where
  "handle_deliver_sm_resp W T S e pdu mode session_id = Some (None, S, e, [])"

definition handle_unbind_resp :: handler where
  "handle_unbind_resp W T S e pdu mode session_id =
     (if \<not> session_open e mode session_id then None
      else Some (None, S, map_session mode session_id (\<lambda>t. t\<lparr>tx_quit := 1\<rparr>) (\<lambda>t. t\<lparr>rx_quit := 1\<rparr>) e, []))"

definition handle_enquire_link :: handler where
  "handle_enquire_link W T S e pdu mode session_id = Some (Some (Out_enquire_link_resp (sequence_number pdu)), S, e, [])"

definition handle_enquire_link_resp :: handler where
  "handle_enquire_link_resp W T S e pdu mode session_id = Some (None, S, e, [])"

definition handle_generic_nack :: handler where
  "handle_generic_nack W T S e pdu mode session_id = Some (None, S, e, [])"

definition handle_unbind :: handler where
  "handle_unbind W T S e pdu mode session_id =
     (if \<not> session_open e mode session_id then None
      else Some (Some (Out_unbind_resp (sequence_number pdu)), S,
             map_session mode session_id (\<lambda>t. t\<lparr>tx_status := ESME_UNCONNECTED\<rparr>) (\<lambda>t. t\<lparr>rx_status := ESME_UNCONNECTED\<rparr>) e, []))"

definition handle_cancel_sm :: handler where
  "handle_cancel_sm W T S e pdu mode session_id =
     Some (Some (Cancel_sm_resp (sequence_number pdu) (RCANCELFAIL (codes (se_submit W)))), S, e, [])"

definition handle_replace_sm :: handler where
  "handle_replace_sm W T S e pdu mode session_id =
     Some (Some (Replace_sm_resp (sequence_number pdu) (RREPLACEFAIL (codes (se_submit W)))), S, e, [])"

definition handle_query_sm :: handler where
  "handle_query_sm W T S e pdu mode session_id =
     Some (Some (Query_sm_resp (sequence_number pdu) (RQUERYFAIL (codes (se_submit W)))), S, e, [])"

text \<open>The table of handlers, by the type of the PDU; \<open>None\<close> for a type that is not in it.\<close>

definition handlers :: "pdu \<Rightarrow> handler option" where
  "handlers pdu =
     (case pdu of
        Generic_nack _ _ \<Rightarrow> Some handle_generic_nack
      | Enquire_link _ \<Rightarrow> Some handle_enquire_link
      | Enquire_link_resp _ \<Rightarrow> Some handle_enquire_link_resp
      | Submit_sm sm \<Rightarrow> Some (\<lambda>W T S e _ mode session_id.
          map_option (\<lambda>(resp, S', e', effs). (Some (Submit_sm_resp resp), S', e', effs))
            (handle_submit_sm (se_submit W) T S e sm mode session_id))
      | Deliver_sm_resp _ \<Rightarrow> Some handle_deliver_sm_resp
      | Unbind _ \<Rightarrow> Some handle_unbind
      | Unbind_resp _ \<Rightarrow> Some handle_unbind_resp
      | Cancel_sm _ \<Rightarrow> Some handle_cancel_sm
      | Replace_sm _ \<Rightarrow> Some handle_replace_sm
      | Query_sm _ \<Rightarrow> Some handle_query_sm
      | _ \<Rightarrow> None)"

text \<open>Writing on the connection of the session; a thread of neither kind writes nothing.\<close>

definition write_session :: "esme \<Rightarrow> int \<Rightarrow> int \<Rightarrow> out_pdu \<Rightarrow> (nat \<times> out_pdu) list option" where
  "write_session e mode session_id out =
     (if mode = 1 then map_option (\<lambda>s. [(tx_conn s, out)]) (find_tx e session_id)
      else if mode = 2 then map_option (\<lambda>s. [(rx_conn s, out)]) (find_rx e session_id)
      else Some [])"

definition handle_pdu ::
    "server_env \<Rightarrow> submit_clock \<Rightarrow> server \<Rightarrow> esme \<Rightarrow> pdu \<Rightarrow> int \<Rightarrow> int \<Rightarrow>
     ((nat \<times> out_pdu) list \<times> server \<times> esme \<times> effect list) option" where
  "handle_pdu W T S e pdu mode session_id =
     (case handlers pdu of
        Some handler \<Rightarrow>
          (case handler W T S e pdu mode session_id of None \<Rightarrow> None
           | Some (None, S', e', effs) \<Rightarrow> Some ([], S', e', effs)
           | Some (Some resp, S', e', effs) \<Rightarrow>
               map_option (\<lambda>out. (out, S', e', effs)) (write_session e' mode session_id resp))
      | None \<Rightarrow>
          map_option (\<lambda>out. (out, S, e, []))
            (write_session e mode session_id (Out_generic_nack (sequence_number pdu) (RINVCMDID (codes (se_submit W))))))"

section \<open>Reading PDUs\<close>

text \<open>
  A connection as the thread sees it: the bytes that have arrived and not been read, and whether it is at its end or broken.
  Reading the length and the data of a PDU is outside the repository.
\<close>

record conn_in =
  inbuf :: octstr
  in_closed :: bool

record pdu_ops =
  smpp_pdu_read_len :: "octstr \<Rightarrow> int \<times> octstr"
  smpp_pdu_read_data :: "octstr \<Rightarrow> int \<Rightarrow> octstr option \<times> octstr"
  unpack_pdu :: "octstr \<Rightarrow> pdu option"

text \<open>
  What the two functions promise: 0 and null mean that not enough has arrived, and then nothing is consumed; any other result
  does not depend on what arrives later.  A length takes bytes off the connection.
\<close>

definition pdu_ops_spec :: "pdu_ops \<Rightarrow> bool" where
  "pdu_ops_spec P \<longleftrightarrow>
     (\<forall>b. fst (smpp_pdu_read_len P b) = 0 \<longrightarrow> snd (smpp_pdu_read_len P b) = b) \<and>
     (\<forall>b n b' c. smpp_pdu_read_len P b = (n, b') \<longrightarrow> n \<noteq> 0 \<longrightarrow>
        length b' < length b \<and> smpp_pdu_read_len P (b @ c) = (n, b' @ c)) \<and>
     (\<forall>b n. fst (smpp_pdu_read_data P b n) = None \<longrightarrow> snd (smpp_pdu_read_data P b n) = b) \<and>
     (\<forall>b n d b' c. smpp_pdu_read_data P b n = (Some d, b') \<longrightarrow>
        length b' \<le> length b \<and> smpp_pdu_read_data P (b @ c) n = (Some d, b' @ c))"

text \<open>The return value, the length kept for the next call, the PDU, and the connection.\<close>

definition read_pdu :: "pdu_ops \<Rightarrow> int \<Rightarrow> conn_in \<Rightarrow> int \<times> int \<times> pdu option \<times> conn_in" where
  "read_pdu P len c =
     (let (len1, buf1) = (if len = 0 then smpp_pdu_read_len P (inbuf c) else (len, inbuf c));
          c1 = c\<lparr>inbuf := buf1\<rparr>
      in if len = 0 \<and> len1 = -1 then (-1, len1, None, c1)
         else if len = 0 \<and> len1 = 0 then (if in_closed c then -1 else 0, len1, None, c1)
         else (case smpp_pdu_read_data P buf1 len1 of
                 (None, buf2) \<Rightarrow> (if in_closed c then -1 else 0, len1, None, c1\<lparr>inbuf := buf2\<rparr>)
               | (Some os, buf2) \<Rightarrow>
                   (case unpack_pdu P os of
                      None \<Rightarrow> (-1, 0, None, c1\<lparr>inbuf := buf2\<rparr>)
                    | Some pdu \<Rightarrow> (1, 0, Some pdu, c1\<lparr>inbuf := buf2\<rparr>))))"

text \<open>
  The loop that reads and handles PDUs while there are any; \<open>step\<close> is the body, on a state of its own.  The bound on the number
  of rounds is never reached when it exceeds the number of bytes that have arrived by more than one.
\<close>

fun read_loop ::
    "pdu_ops \<Rightarrow> (pdu \<Rightarrow> 's \<Rightarrow> 's option) \<Rightarrow> nat \<Rightarrow> int \<Rightarrow> conn_in \<Rightarrow> 's \<Rightarrow> (int \<times> int \<times> conn_in \<times> 's) option" where
  "read_loop P step 0 len c s = None"
| "read_loop P step (Suc rounds) len c s =
     (case read_pdu P len c of (ret, len', pdu, c') \<Rightarrow>
        if ret = 1
        then (case step (the pdu) s of None \<Rightarrow> None | Some s' \<Rightarrow> read_loop P step rounds len' c' s')
        else Some (ret, len', c', s))"

definition read_all ::
    "pdu_ops \<Rightarrow> (pdu \<Rightarrow> 's \<Rightarrow> 's option) \<Rightarrow> int \<Rightarrow> conn_in \<Rightarrow> 's \<Rightarrow> (int \<times> int \<times> conn_in \<times> 's) option" where
  "read_all P step len c s = read_loop P step (length (inbuf c) + 2) len c s"

section \<open>Framing\<close>

definition arrive :: "conn_in \<Rightarrow> octstr \<Rightarrow> conn_in" where
  "arrive c b = c\<lparr>inbuf := inbuf c @ b\<rparr>"

definition unread :: "int \<Rightarrow> conn_in \<Rightarrow> nat" where
  "unread len c = length (inbuf c) + (if len = 0 then 0 else 1)"

lemma read_pdu_ret: "fst (read_pdu P len c) \<in> {-1, 0, 1}"
  by (auto simp: read_pdu_def Let_def split: prod.splits option.splits)

lemma read_pdu_parts:
  assumes "(if len = 0 then smpp_pdu_read_len P (inbuf c) else (len, inbuf c)) = (n, b)" "smpp_pdu_read_data P b n = (d, b2)"
  shows "read_pdu P len c =
    (if len = 0 \<and> n = -1 then (-1, n, None, c\<lparr>inbuf := b\<rparr>)
     else if len = 0 \<and> n = 0 then (if in_closed c then -1 else 0, n, None, c\<lparr>inbuf := b\<rparr>)
     else case d of
            None \<Rightarrow> (if in_closed c then -1 else 0, n, None, c\<lparr>inbuf := b2\<rparr>)
          | Some os \<Rightarrow> (case unpack_pdu P os of
              None \<Rightarrow> (-1, 0, None, c\<lparr>inbuf := b2\<rparr>) | Some pdu \<Rightarrow> (1, 0, Some pdu, c\<lparr>inbuf := b2\<rparr>)))"
  using assms by (auto simp: read_pdu_def Let_def split: option.splits)

lemma read_pdu_consumes:
  assumes P: "pdu_ops_spec P" and r: "read_pdu P len c = (1, len', pdu, c')"
  shows "len' = 0" "unread len' c' < unread len c" "in_closed c' = in_closed c"
proof -
  obtain n b where n: "(if len = 0 then smpp_pdu_read_len P (inbuf c) else (len, inbuf c)) = (n, b)" by fastforce
  obtain d b2 where d: "smpp_pdu_read_data P b n = (d, b2)" by fastforce
  note rp = r [unfolded read_pdu_parts [OF n d]]
  from rp obtain os where os: "d = Some os" "c' = c\<lparr>inbuf := b2\<rparr>" "len' = 0" "len = 0 \<longrightarrow> n \<noteq> 0"
    by (auto split: if_splits option.splits)
  have "length b2 \<le> length b" using P d os(1) by (auto simp: pdu_ops_spec_def)
  moreover have "len = 0 \<longrightarrow> length b < length (inbuf c)" using P n os(4) by (auto simp: pdu_ops_spec_def)
  moreover have "len \<noteq> 0 \<longrightarrow> b = inbuf c" using n by auto
  ultimately show "len' = 0" "unread len' c' < unread len c" "in_closed c' = in_closed c"
    using os by (auto simp: unread_def)
qed

text \<open>A result other than 0 stays when more bytes arrive; after 0 the next call goes on where this one stopped.\<close>

lemma read_pdu_arrive:
  assumes P: "pdu_ops_spec P" and c: "\<not> in_closed c" and r: "read_pdu P len c = (ret, len', pdu, c')"
  shows "ret \<noteq> 0 \<Longrightarrow> read_pdu P len (arrive c b) = (ret, len', pdu, arrive c' b)"
    and "ret = 0 \<Longrightarrow> read_pdu P len (arrive c b) = read_pdu P len' (arrive c' b)"
proof -
  obtain n b1 where n: "(if len = 0 then smpp_pdu_read_len P (inbuf c) else (len, inbuf c)) = (n, b1)" by fastforce
  have a: "(if len = 0 then smpp_pdu_read_len P (inbuf (arrive c b)) else (len, inbuf (arrive c b))) = (n, b1 @ b)"
    if "n \<noteq> 0" using P n that by (auto simp: pdu_ops_spec_def arrive_def split: if_splits)
  have z: "b1 = inbuf c" if "n = 0" using P n that by (auto simp: pdu_ops_spec_def split: if_splits) (metis fst_conv snd_conv)
  obtain d b2 where d: "smpp_pdu_read_data P b1 n = (d, b2)" by fastforce
  have da: "smpp_pdu_read_data P (b1 @ b) n = (d, b2 @ b)" if "d \<noteq> None"
    using P d that by (auto simp: pdu_ops_spec_def)
  have dn: "b2 = b1" if "d = None" using P d that by (auto simp: pdu_ops_spec_def) (metis fst_conv snd_conv)
  have len0: "len \<noteq> 0 \<Longrightarrow> n \<noteq> 0" using n by auto
  note rp = r [unfolded read_pdu_parts [OF n d]]
  have cl: "in_closed (arrive c b) = in_closed c" by (simp add: arrive_def)
  show "read_pdu P len (arrive c b) = (ret, len', pdu, arrive c' b)" if "ret \<noteq> 0"
  proof -
    have nz: "n \<noteq> 0" using rp c that len0 by (auto split: if_splits)
    show ?thesis
    proof (cases "len = 0 \<and> n = -1")
      case True
      with rp read_pdu_parts [OF a [OF nz] surjective_pairing] show ?thesis by (auto simp: arrive_def)
    next
      case False
      then have "d \<noteq> None" using rp c that nz by (auto split: option.splits if_splits)
      with rp read_pdu_parts [OF a [OF nz] da] False nz show ?thesis
        by (auto simp: arrive_def split: option.splits if_splits)
    qed
  qed
  show "read_pdu P len (arrive c b) = read_pdu P len' (arrive c' b)" if "ret = 0"
  proof (cases "n = 0")
    case True
    with rp n z len0 c that have "len' = len" "c' = c" by (auto split: if_splits)
    then show ?thesis by simp
  next
    case False
    have nm: "\<not> (len = 0 \<and> n = -1)" using rp that by (auto split: if_splits)
    have d0: "d = None" using rp c that False nm by (auto split: option.splits if_splits)
    then have l: "len' = n" "inbuf c' = b1" "arrive c' b = (arrive c b)\<lparr>inbuf := b1 @ b\<rparr>"
      using rp dn c that False nm by (auto simp: arrive_def split: if_splits)
    obtain d' b' where d': "smpp_pdu_read_data P (b1 @ b) n = (d', b')" by fastforce
    have n': "(if len' = 0 then smpp_pdu_read_len P (inbuf (arrive c' b)) else (len', inbuf (arrive c' b))) = (n, b1 @ b)"
      using l False by (simp add: arrive_def)
    show ?thesis
      unfolding read_pdu_parts [OF a [OF False] d'] read_pdu_parts [OF n' d'] using nm False l cl
      by (auto split: option.splits)
  qed
qed

lemma read_loop_fuel:
  assumes P: "pdu_ops_spec P"
  shows "unread len c < n \<Longrightarrow> unread len c < m \<Longrightarrow> read_loop P step n len c s = read_loop P step m len c s"
proof (induction n arbitrary: m len c s)
  case (Suc n)
  obtain m' where m: "m = Suc m'" using Suc.prems by (cases m) auto
  obtain ret len' pdu c' where r: "read_pdu P len c = (ret, len', pdu, c')" by (metis prod_cases4)
  show ?case
  proof (cases "ret = 1")
    case True
    have "unread len' c' < unread len c" using read_pdu_consumes(2) [OF P] r True by simp
    then have "unread len' c' < n" "unread len' c' < m'" using Suc.prems m by simp_all
    then show ?thesis
      using Suc.IH [of len' c' m'] r m True by (cases "step (the pdu) s") simp_all
  qed (use r m in simp)
qed simp

lemma read_pdu_shrinks:
  assumes P: "pdu_ops_spec P" and r: "read_pdu P len c = (ret, len', pdu, c')"
  shows "unread len' c' \<le> unread len c"
proof -
  obtain n b where n: "(if len = 0 then smpp_pdu_read_len P (inbuf c) else (len, inbuf c)) = (n, b)" by fastforce
  obtain d b2 where d: "smpp_pdu_read_data P b n = (d, b2)" by fastforce
  have "length b2 \<le> length b"
    using P d by (cases d) (auto simp: pdu_ops_spec_def, metis fst_conv snd_conv order_refl)
  moreover have "len = 0 \<longrightarrow> n = 0 \<and> b = inbuf c \<or> length b < length (inbuf c)"
    using P n by (cases "n = 0") (auto simp: pdu_ops_spec_def, metis fst_conv snd_conv)
  moreover have "len \<noteq> 0 \<longrightarrow> b = inbuf c \<and> n = len" using n by auto
  ultimately show ?thesis
    using r [unfolded read_pdu_parts [OF n d]] by (auto simp: unread_def split: option.splits if_splits)
qed

lemma read_loop_shrinks:
  assumes P: "pdu_ops_spec P"
  shows "read_loop P step n len c s = Some (ret, len', c', s') \<Longrightarrow> unread len' c' \<le> unread len c"
proof (induction n arbitrary: len c s)
  case (Suc n)
  obtain r1 l1 p1 c1 where r: "read_pdu P len c = (r1, l1, p1, c1)" by (metis prod_cases4)
  from Suc r read_pdu_shrinks [OF P r] show ?case by (fastforce split: if_splits option.splits)
qed simp

lemma read_loop_arrive:
  assumes P: "pdu_ops_spec P"
  shows "\<not> in_closed c \<Longrightarrow> unread len c < n \<Longrightarrow> unread len (arrive c b) < m \<Longrightarrow>
    read_loop P step m len (arrive c b) s =
      (case read_loop P step n len c s of None \<Rightarrow> None
       | Some (ret, len', c', s') \<Rightarrow>
           if ret = 0 then read_loop P step m len' (arrive c' b) s' else Some (ret, len', arrive c' b, s'))"
proof (induction n arbitrary: m len c s)
  case (Suc n)
  obtain m' where m: "m = Suc m'" using Suc.prems by (cases m) auto
  obtain ret len' pdu c' where r: "read_pdu P len c = (ret, len', pdu, c')" by (metis prod_cases4)
  note more = read_pdu_arrive [OF P Suc.prems(1) r, of b]
  show ?case
  proof (cases "ret = 0")
    case True
    then show ?thesis using more(2) r m by simp
  next
    case False
    note a = more(1) [OF False]
    show ?thesis
    proof (cases "ret = 1")
      case True
      note k = read_pdu_consumes [OF P r [unfolded True]] and k' = read_pdu_consumes [OF P a [unfolded True]]
      have u: "unread len' c' < n" "unread len' (arrive c' b) < m'" "\<not> in_closed c'"
        using k k' Suc.prems m by simp_all
      have f: "unread l (arrive d b) < m' \<Longrightarrow> read_loop P step m l (arrive d b) t = read_loop P step m' l (arrive d b) t" for l d t
        using read_loop_fuel [OF P] m by (metis less_SucI)
      show ?thesis
      proof (cases "step (the pdu) s")
        case None
        with r a True m show ?thesis by simp
      next
        case (Some s')
        from Suc.IH [OF u(3,1,2), of s'] show ?thesis
        proof (cases "read_loop P step n len' c' s'")
          case None
          with Suc.IH [OF u(3,1,2), of s'] Some r a True m show ?thesis by simp
        next
          case (Some res)
          obtain ret2 len2 c2 s2 where res: "res = (ret2, len2, c2, s2)" by (metis prod_cases4)
          have "unread len2 (arrive c2 b) < m'" if "ret2 = 0"
            using read_loop_shrinks [OF P Some [unfolded res]] u(2) by (simp add: unread_def arrive_def)
          with Suc.IH [OF u(3,1,2), of s'] Some \<open>step (the pdu) s = Some s'\<close> res r a True m f show ?thesis by simp
        qed
      qed
    qed (use r a False m in simp)
  qed
qed simp

text \<open>
  C14: the PDUs a thread handles, and what it is left with, do not depend on how the bytes of the connection are cut into
  pieces: reading the first piece until nothing more can be read and then the rest gives the same result as reading all of it
  at once, and an error found in the first piece is the error found in the whole.
\<close>

theorem read_framing:
  assumes P: "pdu_ops_spec P" and c: "\<not> in_closed c"
  shows "read_all P step len (arrive c b) s =
    (case read_all P step len c s of None \<Rightarrow> None
     | Some (ret, len', c', s') \<Rightarrow>
         if ret = 0 then read_all P step len' (arrive c' b) s' else Some (ret, len', arrive c' b, s'))"
proof -
  have u: "unread len c < length (inbuf c) + 2" "unread len (arrive c b) < length (inbuf (arrive c b)) + 2" for len c b
    by (simp_all add: unread_def)
  note l = read_loop_arrive [OF P c u(1) u(2), where len = len and b = b and step = step and s = s]
  show ?thesis
  proof (cases "read_all P step len c s")
    case None
    with l show ?thesis by (simp add: read_all_def)
  next
    case (Some res)
    obtain ret len' c' s' where res: "res = (ret, len', c', s')" by (metis prod_cases4)
    have "unread len' (arrive c' b) < length (inbuf (arrive c b)) + 2"
      using read_loop_shrinks [OF P Some [unfolded read_all_def res]] by (simp add: unread_def arrive_def split: if_splits)
    from read_loop_fuel [OF P this u(2), of step s'] l Some res show ?thesis
      by (simp add: read_all_def del: read_loop.simps)
  qed
qed

definition sample_pdu_ops :: pdu_ops where
  "sample_pdu_ops =
     \<lparr> smpp_pdu_read_len = (\<lambda>b. case b of [] \<Rightarrow> (0, b) | c # b' \<Rightarrow> (int (of_char c) + 1, b')),
       smpp_pdu_read_data = (\<lambda>b n. if int (length b) < n - 1 then (None, b) else (Some (take (nat (n - 1)) b), drop (nat (n - 1)) b)),
       unpack_pdu = (\<lambda>os. if os = ''unbind'' then Some (Unbind 7) else if os = ''ping'' then Some (Enquire_link 6) else None) \<rparr>"

lemma sample_pdu_ops_spec: "pdu_ops_spec sample_pdu_ops"
  by (auto simp: pdu_ops_spec_def sample_pdu_ops_def split: list.splits)

theorem read_framing_witness:
  "read_all sample_pdu_ops (\<lambda>pdu s. Some (s @ [pdu])) 0 (arrive \<lparr> inbuf = CHR 0x04 # ''pi'', in_closed = False \<rparr> ''ng'') [] =
     read_all sample_pdu_ops (\<lambda>pdu s. Some (s @ [pdu])) 5 \<lparr> inbuf = ''ping'', in_closed = False \<rparr> []"
proof -
  have c: "\<not> in_closed \<lparr> inbuf = CHR 0x04 # ''pi'', in_closed = False \<rparr>" by simp
  have "read_all sample_pdu_ops (\<lambda>pdu s. Some (s @ [pdu])) 0 \<lparr> inbuf = CHR 0x04 # ''pi'', in_closed = False \<rparr> [] =
      Some (0, 5, \<lparr> inbuf = ''pi'', in_closed = False \<rparr>, [])"
    by (simp add: read_all_def read_pdu_def numeral_2_eq_2) (simp add: sample_pdu_ops_def)
  with read_framing [OF sample_pdu_ops_spec c, of "\<lambda>pdu s. Some (s @ [pdu])" 0 "''ng''" "[]"] show ?thesis
    by (simp add: arrive_def)
qed

text \<open>
  The reading loop of a thread ends: as long as the handlers return, it stops after fewer rounds than bytes have arrived plus
  two, with the value that means no more PDU yet or the one that means an error.
\<close>

theorem read_all_terminates:
  assumes P: "pdu_ops_spec P" and t: "\<forall>pdu s. step pdu s \<noteq> None"
  shows "\<exists>ret len' c' s'. read_all P step len c s = Some (ret, len', c', s') \<and> ret \<in> {-1, 0}"
proof -
  have "\<exists>ret len' c' s'. read_loop P step n len c s = Some (ret, len', c', s') \<and> ret \<in> {-1, 0}" if "unread len c < n" for n
    using that
  proof (induction n arbitrary: len c s)
    case (Suc n)
    obtain ret len' pdu c' where r: "read_pdu P len c = (ret, len', pdu, c')" by (metis prod_cases4)
    show ?case
    proof (cases "ret = 1")
      case True
      obtain s' where s': "step (the pdu) s = Some s'" using t by (meson not_None_eq)
      have "unread len' c' < n" using read_pdu_consumes(2) [OF P] r True Suc.prems by fastforce
      with Suc.IH r True s' show ?thesis by simp
    next
      case False
      with r read_pdu_ret [of P len c] show ?thesis by simp
    qed
  qed simp
  from this [of "length (inbuf c) + 2"] show ?thesis unfolding read_all_def by (simp add: unread_def)
qed

theorem read_all_terminates_witness:
  "\<exists>ret len' c' s'. read_all sample_pdu_ops (\<lambda>pdu n. Some (n + 1 :: nat)) 0 \<lparr> inbuf = CHR 0x06 # ''unbind'', in_closed = True \<rparr> 0 =
     Some (ret, len', c', s') \<and> ret \<in> {-1, 0}"
  by (rule read_all_terminates [OF sample_pdu_ops_spec]) simp

end
