(* ===== verification/Session.thy ===== *)
theory Session
  imports Server
begin

text \<open>
  \<^verbatim>\<open>receive_smpp_thread\<close> of \<^verbatim>\<open>smpp-esme/smpp_esme.c\<close>, the thread that serves one connection: the bind it waits for, the loop that
  reads PDUs, empties the queue and keeps the link alive, the farewell when the server ends the session, and the
  release of the session.  What happens outside the thread, bytes that arrive, ends of waiting and readings of the clocks, is an
  argument; the operations of other threads on the list are the steps of theory \<open>Registry\<close>.
\<close>

section \<open>The state of a thread\<close>

text \<open>
  The shared state, what has been written on the connections and sent to the other processes so far, the time of the last
  \<^verbatim>\<open>enquire_link\<close> and the number of clock readings taken.
\<close>

record thread_state =
  th_reg :: registry
  th_server :: server
  th_out :: "(nat \<times> out_pdu) list"
  th_effects :: "effect list"
  th_last_enquire :: int
  th_ticks :: nat

definition session_status :: "esme \<Rightarrow> int \<Rightarrow> int \<Rightarrow> esme_status option" where
  "session_status e mode session_id =
     (if mode = 1 then map_option tx_status (find_tx e session_id) else map_option rx_status (find_rx e session_id))"

definition session_quit :: "esme \<Rightarrow> int \<Rightarrow> int \<Rightarrow> int option" where
  "session_quit e mode session_id =
     (if mode = 1 then map_option tx_quit (find_tx e session_id) else map_option rx_quit (find_rx e session_id))"

text \<open>The next sequence number of the session.\<close>

definition next_seq :: "esme \<Rightarrow> int \<Rightarrow> int \<Rightarrow> (ulong \<times> esme) option" where
  "next_seq e mode session_id =
     (if mode = 1
      then map_option (\<lambda>s. (fst (counter_increase (tx_seq_number s)),
             map_tx session_id (\<lambda>t. t\<lparr>tx_seq_number := snd (counter_increase (tx_seq_number t))\<rparr>) e)) (find_tx e session_id)
      else map_option (\<lambda>s. (fst (counter_increase (rx_seq_number s)),
             map_rx session_id (\<lambda>t. t\<lparr>rx_seq_number := snd (counter_increase (rx_seq_number t))\<rparr>) e)) (find_rx e session_id))"

definition send_enquire_link ::
    "int \<Rightarrow> int \<Rightarrow> int \<Rightarrow> esme \<Rightarrow> int \<Rightarrow> ((nat \<times> out_pdu) list \<times> esme \<times> int) option" where
  "send_enquire_link t mode session_id e last_sent =
     (if t - last_sent < e_enquire_link_interval e then Some ([], e, last_sent)
      else (case next_seq e mode session_id of None \<Rightarrow> None
            | Some (n, e') \<Rightarrow>
                map_option (\<lambda>out. (out, e', t)) (write_session e' mode session_id (Out_enquire_link n))))"

definition send_unbind :: "int \<Rightarrow> int \<Rightarrow> esme \<Rightarrow> ((nat \<times> out_pdu) list \<times> esme) option" where
  "send_unbind mode session_id e =
     (case next_seq e mode session_id of None \<Rightarrow> None
      | Some (n, e') \<Rightarrow> map_option (\<lambda>out. (out, e')) (write_session e' mode session_id (Out_unbind n)))"

text \<open>The queue of the session, written on its connection.\<close>

definition session_conn :: "esme \<Rightarrow> int \<Rightarrow> int \<Rightarrow> nat option" where
  "session_conn e mode session_id =
     (if mode = 1 then map_option tx_conn (find_tx e session_id) else map_option rx_conn (find_rx e session_id))"

definition write_queued :: "server_env \<Rightarrow> int \<Rightarrow> int \<Rightarrow> esme \<Rightarrow> ((nat \<times> out_pdu) list \<times> esme) option" where
  "write_queued W mode session_id e =
     (case (session_conn e mode session_id, write_esme_conn (ops (se_submit W)) (se_deliver W) e mode session_id) of
        (Some conn, Some (oss, e')) \<Rightarrow> Some (map (\<lambda>os. (conn, Packed os)) oss, e')
      | _ \<Rightarrow> None)"

definition link_alive :: "esme_status option \<Rightarrow> bool" where
  "link_alive st \<longleftrightarrow> st = Some ESME_BINDED \<or> st = Some ESME_SMSC_UNCONNECTED"

text \<open>An \<^verbatim>\<open>enquire_link\<close> when the session is alive and one is due.\<close>

definition keep_alive :: "server_env \<Rightarrow> nat \<Rightarrow> int \<Rightarrow> int \<Rightarrow> thread_state \<Rightarrow> thread_state option" where
  "keep_alive W r mode session_id st =
     (case deref (th_reg st) r of None \<Rightarrow> None
      | Some e \<Rightarrow>
          if link_alive (session_status e mode session_id)
          then (case send_enquire_link (se_now W (th_ticks st)) mode session_id e (th_last_enquire st) of
                  None \<Rightarrow> None
                | Some (out, e', sent) \<Rightarrow> map_option (\<lambda>g. st\<lparr>th_reg := g, th_out := th_out st @ out,
                    th_last_enquire := sent, th_ticks := th_ticks st + 1\<rparr>) (update_esme r (\<lambda>_. e') (th_reg st)))
          else Some st)"

definition serve_pdu :: "server_env \<Rightarrow> nat \<Rightarrow> int \<Rightarrow> int \<Rightarrow> pdu \<Rightarrow> thread_state \<Rightarrow> thread_state option" where
  "serve_pdu W r mode session_id pdu st =
     (case deref (th_reg st) r of None \<Rightarrow> None
      | Some e \<Rightarrow>
         (case handle_pdu W (se_clock W (th_ticks st)) (th_server st) e pdu mode session_id of None \<Rightarrow> None
          | Some (out, S, e', effs) \<Rightarrow> map_option (\<lambda>g. st\<lparr>th_reg := g, th_server := S, th_out := th_out st @ out,
              th_effects := th_effects st @ effs, th_ticks := th_ticks st + 1\<rparr>) (update_esme r (\<lambda>_. e') (th_reg st))))"

definition serve_queue :: "server_env \<Rightarrow> nat \<Rightarrow> int \<Rightarrow> int \<Rightarrow> thread_state \<Rightarrow> thread_state option" where
  "serve_queue W r mode session_id st =
     (case deref (th_reg st) r of None \<Rightarrow> None
      | Some e \<Rightarrow>
         (case write_queued W mode session_id e of None \<Rightarrow> None
          | Some (out, e') \<Rightarrow> map_option (\<lambda>g. st\<lparr>th_reg := g, th_out := th_out st @ out\<rparr>)
              (update_esme r (\<lambda>_. e') (th_reg st))))"

text \<open>The body of the reading loop.\<close>

definition serve_step :: "server_env \<Rightarrow> nat \<Rightarrow> int \<Rightarrow> int \<Rightarrow> pdu \<Rightarrow> thread_state \<Rightarrow> thread_state option" where
  "serve_step W r mode session_id pdu st = do {
     st1 \<leftarrow> serve_pdu W r mode session_id pdu st;
     st2 \<leftarrow> serve_queue W r mode session_id st1;
     keep_alive W r mode session_id st2 }"

section \<open>The farewell\<close>

text \<open>
  After an \<^verbatim>\<open>unbind\<close> of the server the thread goes on reading until the response comes, the connection breaks or the time is
  over: the list holds what arrives in each round before the last two ends.
\<close>

fun unbind_loop ::
    "server_env \<Rightarrow> pdu_ops \<Rightarrow> nat \<Rightarrow> int \<Rightarrow> int \<Rightarrow> (octstr \<times> bool) list \<Rightarrow> int \<Rightarrow> conn_in \<Rightarrow> thread_state \<Rightarrow> thread_state option" where
  "unbind_loop W P r mode session_id [] len c st = Some st"
| "unbind_loop W P r mode session_id ((b, eof) # polls) len c st =
     (case deref (th_reg st) r of None \<Rightarrow> None
      | Some e \<Rightarrow>
          if session_quit e mode session_id = Some 1 then Some st
          else (case read_pdu P len ((arrive c b)\<lparr>in_closed := eof\<rparr>) of (ret, len', pdu, c') \<Rightarrow>
                  if ret = 1
                  then (case serve_pdu W r mode session_id (the pdu) st of None \<Rightarrow> None
                        | Some st' \<Rightarrow> unbind_loop W P r mode session_id polls len' c' st')
                  else unbind_loop W P r mode session_id polls len' c' st))"

section \<open>The loop of the session\<close>

text \<open>
  What happens in one round: the result of waiting, the bytes that arrive with the end of the connection, and, for a session that the
  server ends, the rounds of the farewell.
\<close>

record round_in =
  ro_wait :: int
  ro_input :: octstr
  ro_eof :: bool
  ro_farewell :: "(octstr \<times> bool) list"

text \<open>\<open>True\<close>: the thread leaves the loop.\<close>

definition session_round ::
    "server_env \<Rightarrow> pdu_ops \<Rightarrow> nat \<Rightarrow> int \<Rightarrow> int \<Rightarrow> round_in \<Rightarrow> int \<Rightarrow> conn_in \<Rightarrow> thread_state \<Rightarrow>
     (bool \<times> int \<times> conn_in \<times> thread_state) option" where
  "session_round W P r mode session_id ro len c st =
     (if ro_wait ro = -1 then Some (True, len, c, st)
      else
      let c1 = (arrive c (ro_input ro))\<lparr>in_closed := ro_eof ro\<rparr> in
      case deref (th_reg st) r of None \<Rightarrow> None
      | Some e \<Rightarrow>
          if session_status e mode session_id = Some ESME_DISCONNECT \<or> session_status e mode session_id = Some ESME_SEND_UNBIND
          then do {
            (out, e') \<leftarrow> send_unbind mode session_id e;
            g \<leftarrow> update_esme r (\<lambda>_. e') (th_reg st);
            st' \<leftarrow> unbind_loop W P r mode session_id (ro_farewell ro) len c1 (st\<lparr>th_reg := g, th_out := th_out st @ out\<rparr>);
            Some (True, len, c1, st') }
          else do {
            st1 \<leftarrow> keep_alive W r mode session_id st;
            (ret, len', c', st2) \<leftarrow> read_all P (serve_step W r mode session_id) len c1 st1;
            e2 \<leftarrow> deref (th_reg st2) r;
            (if session_status e2 mode session_id = Some ESME_UNCONNECTED then Some (True, len', c', st2)
             else if ret = -1 \<and> len' = -1 then Some (True, len', c', st2)
             else if ret = -1 \<and> len' = 0 then Some (True, len', c', st2)
             else if in_closed c' then Some (True, len', c', st2)
             else do {
               st3 \<leftarrow> serve_queue W r mode session_id st2;
               Some (False, len', c', st3) }) })"

text \<open>The rounds until the thread leaves the loop; \<open>False\<close> when it is still in it after the last one given.\<close>

fun session_rounds ::
    "server_env \<Rightarrow> pdu_ops \<Rightarrow> nat \<Rightarrow> int \<Rightarrow> int \<Rightarrow> round_in list \<Rightarrow> int \<Rightarrow> conn_in \<Rightarrow> thread_state \<Rightarrow> (bool \<times> thread_state) option" where
  "session_rounds W P r mode session_id [] len c st = Some (False, st)"
| "session_rounds W P r mode session_id (ro # ros) len c st =
     (case session_round W P r mode session_id ro len c st of None \<Rightarrow> None
      | Some (stop, len', c', st') \<Rightarrow>
          if stop then Some (True, st') else session_rounds W P r mode session_id ros len' c' st')"

section \<open>The thread\<close>

text \<open>What arrives before the bind: the result of waiting for five seconds, and the bytes.\<close>

record first_in =
  fi_wait :: int
  fi_input :: octstr
  fi_eof :: bool

text \<open>The session, from the structure it has been given on: the connections destroyed, whether the thread has ended, and the state.\<close>

definition serve_session ::
    "server_env \<Rightarrow> pdu_ops \<Rightarrow> bool \<Rightarrow> nat \<Rightarrow> tempconn \<Rightarrow> round_in list \<Rightarrow> conn_in \<Rightarrow> thread_state \<Rightarrow>
     (nat list \<times> bool \<times> thread_state) option" where
  "serve_session W P quitting r tc rounds c st =
     (case get_session_str (deref (th_reg st) r) (tc_mode tc) (tc_session_id tc) of None \<Rightarrow> None
      | Some _ \<Rightarrow>
          (let mode = (if tc_mode tc = 2 then 2 else 1);
               st1 = st\<lparr>th_last_enquire := se_now W (th_ticks st), th_ticks := th_ticks st + 1\<rparr>
           in case (if quitting then Some (True, st1)
                    else session_rounds W P r mode (tc_session_id tc) rounds 0 c st1) of
                None \<Rightarrow> None
              | Some (False, st2) \<Rightarrow> Some ([], False, st2)
              | Some (True, st2) \<Rightarrow>
                  map_option (\<lambda>(conns, g). (conns, True, st2\<lparr>th_reg := g\<rparr>))
                    (esme_destroy (se_reg W) (Some r) mode (tc_session_id tc) (th_reg st2))))"

text \<open>
  The whole thread.  The pointer to the account structure is not initialised: when the first bytes do not make up a PDU and the
  connection is not at its end, it is read all the same.
\<close>

definition receive_smpp_thread ::
    "server_env \<Rightarrow> pdu_ops \<Rightarrow> bool \<Rightarrow> tempconn \<Rightarrow> first_in \<Rightarrow> round_in list \<Rightarrow> thread_state \<Rightarrow>
     (nat list \<times> bool \<times> thread_state) option" where
  "receive_smpp_thread W P quitting tc first rounds st =
     (if fi_wait first = 1 \<or> fi_wait first = -1 then Some (tempconn_destroy (Some tc), True, st)
      else case read_pdu P 0 \<lparr> inbuf = fi_input first, in_closed = fi_eof first \<rparr> of (ret, len, pdu, c) \<Rightarrow>
        if ret = 1
        then (case handle_pdu_bind W (th_server st) tc (the pdu) (th_reg st) of None \<Rightarrow> None
              | Some (out, ptr, tc', g) \<Rightarrow>
                 (let st1 = st\<lparr>th_reg := g, th_out := th_out st @ out\<rparr> in
                  if bind_successful tc' = 0 then Some (tempconn_destroy (Some tc'), True, st1)
                  else if in_closed c then Some (tempconn_destroy (Some tc'), True, st1)
                  else (case ptr of None \<Rightarrow> Some (tempconn_destroy (Some tc'), True, st1)
                        | Some r \<Rightarrow> serve_session W P quitting r tc' rounds c st1)))
        else if ret = -1 \<and> (len = 0 \<or> len = -1) then Some (tempconn_destroy (Some tc), True, st)
        else if in_closed c then Some (tempconn_destroy (Some tc), True, st)
        else None)"

section \<open>What the handlers leave alone\<close>

text \<open>The identity of an account and of its sessions, with their connections and modes.\<close>

definition same_sessions :: "esme \<Rightarrow> esme \<Rightarrow> bool" where
  "same_sessions e e' \<longleftrightarrow> esme_ref e' = esme_ref e \<and> system_id e' = system_id e \<and>
     map (\<lambda>s. (tx_session_id s, tx_conn s, tx_mode s)) (tx_esme e') = map (\<lambda>s. (tx_session_id s, tx_conn s, tx_mode s)) (tx_esme e) \<and>
     map (\<lambda>s. (rx_session_id s, rx_conn s, rx_mode s)) (rx_esme e') = map (\<lambda>s. (rx_session_id s, rx_conn s, rx_mode s)) (rx_esme e)"

lemma same_sessions_refl [simp]: "same_sessions e e"
  by (simp add: same_sessions_def)

lemma same_sessions_trans: "same_sessions e e1 \<Longrightarrow> same_sessions e1 e2 \<Longrightarrow> same_sessions e e2"
  by (simp add: same_sessions_def)

lemma map_tx_same:
  assumes "\<And>t. tx_session_id t = i \<Longrightarrow> tx_session_id (f t) = tx_session_id t \<and> tx_conn (f t) = tx_conn t \<and> tx_mode (f t) = tx_mode t"
  shows "same_sessions e (map_tx i f e)"
proof (cases "first_pos (\<lambda>t. tx_session_id t = i) (tx_esme e)")
  case (Some k)
  from first_pos_SomeD [OF Some] assms have "map (\<lambda>s. (tx_session_id s, tx_conn s, tx_mode s)) ((tx_esme e)[k := f (tx_esme e ! k)])
      = map (\<lambda>s. (tx_session_id s, tx_conn s, tx_mode s)) (tx_esme e)"
    by (intro map_update_same) auto
  with Some show ?thesis by (simp add: map_tx_def same_sessions_def)
qed (simp add: map_tx_def)

lemma map_rx_same:
  assumes "\<And>t. rx_session_id t = i \<Longrightarrow> rx_session_id (f t) = rx_session_id t \<and> rx_conn (f t) = rx_conn t \<and> rx_mode (f t) = rx_mode t"
  shows "same_sessions e (map_rx i f e)"
proof (cases "first_pos (\<lambda>t. rx_session_id t = i) (rx_esme e)")
  case (Some k)
  from first_pos_SomeD [OF Some] assms have "map (\<lambda>s. (rx_session_id s, rx_conn s, rx_mode s)) ((rx_esme e)[k := f (rx_esme e ! k)])
      = map (\<lambda>s. (rx_session_id s, rx_conn s, rx_mode s)) (rx_esme e)"
    by (intro map_update_same) auto
  with Some show ?thesis by (simp add: map_rx_def same_sessions_def)
qed (simp add: map_rx_def)

lemma map_tx_incr_same [simp]:
  "same_sessions e (map_tx i incr_rejected e)" "same_sessions e (map_tx i incr_received e)"
  "same_sessions e (map_tx i incr_sent e)" "same_sessions e (map_tx i incr_unconnect e)"
  by (rule map_tx_same; simp add: incr_rejected_def incr_received_def incr_sent_def incr_unconnect_def)+

lemma verify_pdu_para_same: "verify_pdu_para E e pdu = Some (r, e', a) \<Longrightarrow> same_sessions e e'"
  by (drule verify_pdu_para_esme) (auto simp: same_sessions_def)

lemma admission_same: "admission E S e i = Some (c, e') \<Longrightarrow> same_sessions e e'"
  by (auto simp: admission_def split: if_splits option.splits)

lemma decide_same:
  assumes d: "decide E S T e pdu i m = Some (outcome, e')"
  shows "same_sessions e e'"
proof -
  obtain c e1 where a: "admission E S e i = Some (c, e1)" using d by (auto simp: decide_def split: option.splits)
  note a1 = admission_same [OF a]
  show ?thesis
  proof (cases c)
    case (Some code)
    with d a a1 show ?thesis by (auto simp: decide_def)
  next
    case None
    with d a obtain reason ev addrs where v: "verify_pdu_para E e1 pdu = Some (reason, ev, addrs)"
      by (auto simp: decide_def split: option.splits)
    have sv: "same_sessions e ev" by (rule same_sessions_trans [OF a1 verify_pdu_para_same [OF v]])
    have m: "same_sessions x (x'\<lparr>msg_count := n\<rparr>) \<longleftrightarrow> same_sessions x x'" for x x' n by (simp add: same_sessions_def)
    have k: "same_sessions e (map_tx i incr_rejected ev)" "same_sessions e (map_tx i incr_sent ev)"
      by (rule same_sessions_trans [OF sv], simp)+
    from d a None v k show ?thesis
      by (auto simp: decide_def m split: option.splits if_splits)
  qed
qed

lemma throttle_same: "same_sessions e (throttle T e)"
  by (simp add: throttle_def same_sessions_def)

lemma handle_submit_same:
  assumes "handle_submit_sm E T S e pdu mode i = Some (resp, S', e', effs)"
  shows "same_sessions e e'"
proof -
  from handle_submit_parts [OF assms] obtain outcome e2 where
    d: "decide E S' T (throttle T e) pdu i (sr_message_id resp) = Some (outcome, e2)"
    and e': "e' = (if mode = 1 then map_tx i incr_received e2 else e2)" by auto
  have "same_sessions e e2" by (rule same_sessions_trans [OF throttle_same decide_same [OF d]])
  with e' same_sessions_trans [OF this map_tx_incr_same(2)] show ?thesis by simp
qed

lemma map_session_same:
  assumes "\<And>t. tx_session_id (f t) = tx_session_id t \<and> tx_conn (f t) = tx_conn t \<and> tx_mode (f t) = tx_mode t"
    and "\<And>t. rx_session_id (h t) = rx_session_id t \<and> rx_conn (h t) = rx_conn t \<and> rx_mode (h t) = rx_mode t"
  shows "same_sessions e (map_session mode i f h e)"
  using assms map_tx_same map_rx_same by (simp add: map_session_def)

lemmas small_handlers = handle_deliver_sm_resp_def handle_unbind_resp_def handle_enquire_link_def handle_enquire_link_resp_def
  handle_generic_nack_def handle_unbind_def handle_cancel_sm_def handle_replace_sm_def handle_query_sm_def

lemma handlers_same:
  assumes "handlers pdu = Some h" "h W T S e pdu mode i = Some (resp, S', e', effs)"
  shows "same_sessions e e'"
proof (cases "\<exists>sm. pdu = Submit_sm sm")
  case True
  with assms show ?thesis by (auto simp: handlers_def dest: handle_submit_same)
next
  case False
  with assms show ?thesis
    by (cases pdu) (auto simp: handlers_def small_handlers intro!: map_session_same split: if_splits)
qed

lemma handle_pdu_same:
  assumes "handle_pdu W T S e pdu mode i = Some (out, S', e', effs)"
  shows "same_sessions e e'"
proof (cases "handlers pdu")
  case None
  with assms show ?thesis by (auto simp: handle_pdu_def)
next
  case (Some h)
  with assms obtain resp where "h W T S e pdu mode i = Some (resp, S', e', effs)"
    by (auto simp: handle_pdu_def split: option.splits)
  from handlers_same [OF Some this] show ?thesis .
qed

lemma write_esme_conn_same:
  assumes "write_esme_conn X V e mode i = Some (oss, e')"
  shows "same_sessions e e'"
proof (cases "mode = 1")
  case True
  have "same_sessions e (map_tx i (\<lambda>_. s') e)" if s: "find_tx e i = Some s" and w: "write_tx X V s = Some (oss, s')" for s s'
  proof -
    have "tx_session_id s' = tx_session_id s \<and> tx_conn s' = tx_conn s \<and> tx_mode s' = tx_mode s"
      using w by (auto simp: write_tx_def split: option.splits)
    with s show ?thesis by (auto simp: same_sessions_def map_tx_def find_tx_def find_first_pos map_update split: option.splits
        intro!: list_update_same_conv [THEN iffD2] dest!: first_pos_SomeD)
  qed
  with assms True show ?thesis by (auto simp: write_esme_conn_def split: option.splits)
next
  case False
  have "same_sessions e (map_rx i (\<lambda>_. s') e)" if s: "find_rx e i = Some s" and w: "write_rx X V s = Some (oss, s')" for s s'
  proof -
    have "rx_session_id s' = rx_session_id s \<and> rx_conn s' = rx_conn s \<and> rx_mode s' = rx_mode s"
      using w by (auto simp: write_rx_def split: option.splits)
    with s show ?thesis by (auto simp: same_sessions_def map_rx_def find_rx_def find_first_pos map_update split: option.splits
        intro!: list_update_same_conv [THEN iffD2] dest!: first_pos_SomeD)
  qed
  with assms False show ?thesis by (auto simp: write_esme_conn_def split: option.splits)
qed

lemma next_seq_same: "next_seq e mode i = Some (n, e') \<Longrightarrow> same_sessions e e'"
  using map_tx_same map_rx_same by (auto simp: next_seq_def split: if_splits)

lemma send_enquire_link_same: "send_enquire_link t mode i e l = Some (out, e', l') \<Longrightarrow> same_sessions e e'"
  by (auto simp: send_enquire_link_def split: if_splits option.splits dest: next_seq_same)

lemma send_unbind_same: "send_unbind mode i e = Some (out, e') \<Longrightarrow> same_sessions e e'"
  by (auto simp: send_unbind_def split: option.splits dest: next_seq_same)

lemma write_queued_same: "write_queued W mode i e = Some (out, e') \<Longrightarrow> same_sessions e e'"
  by (auto simp: write_queued_def split: option.splits dest: write_esme_conn_same)

section \<open>The session stays registered while it is served\<close>

lemma same_bindings: "same_sessions e e' \<Longrightarrow> esme_bindings e' = esme_bindings e"
proof -
  have b: "esme_bindings d =
      (\<lambda>(i, c, m). (system_id d, False, i, c)) ` set (map (\<lambda>s. (tx_session_id s, tx_conn s, tx_mode s)) (tx_esme d)) \<union>
      (\<lambda>(i, c, m). (system_id d, True, i, c)) ` set (map (\<lambda>s. (rx_session_id s, rx_conn s, rx_mode s)) (rx_esme d))" for d
    by (simp add: esme_bindings_def image_image)
  show "same_sessions e e' \<Longrightarrow> esme_bindings e' = esme_bindings e" unfolding b by (simp only: same_sessions_def)
qed

lemma same_ids:
  assumes "same_sessions e e'"
  shows "map tx_session_id (tx_esme e') = map tx_session_id (tx_esme e)" "map rx_session_id (rx_esme e') = map rx_session_id (rx_esme e)"
    "map tx_mode (tx_esme e') = map tx_mode (tx_esme e)" "map rx_mode (rx_esme e') = map rx_mode (rx_esme e)"
    "open_ids mode e' = open_ids mode e"
proof -
  have t: "map tx_session_id l = map fst (map (\<lambda>s. (tx_session_id s, tx_conn s, tx_mode s)) l)"
    "map tx_mode l = map (snd \<circ> snd) (map (\<lambda>s. (tx_session_id s, tx_conn s, tx_mode s)) l)" for l by simp_all
  have r: "map rx_session_id l = map fst (map (\<lambda>s. (rx_session_id s, rx_conn s, rx_mode s)) l)"
    "map rx_mode l = map (snd \<circ> snd) (map (\<lambda>s. (rx_session_id s, rx_conn s, rx_mode s)) l)" for l by simp_all
  show "map tx_session_id (tx_esme e') = map tx_session_id (tx_esme e)" "map rx_session_id (rx_esme e') = map rx_session_id (rx_esme e)"
    "map tx_mode (tx_esme e') = map tx_mode (tx_esme e)" "map rx_mode (rx_esme e') = map rx_mode (rx_esme e)"
    unfolding t r using assms by (simp_all only: same_sessions_def)
  then show "open_ids mode e' = open_ids mode e" by (simp add: open_ids_def)
qed

lemma same_ok:
  assumes "same_sessions e e'" "esme_ok e"
  shows "esme_ok e'"
proof -
  note i = same_ids [OF assms(1)]
  have l: "tx_esme e' = [] \<longleftrightarrow> tx_esme e = []" "rx_esme e' = [] \<longleftrightarrow> rx_esme e = []"
    using i(1,2) by (metis Nil_is_map_conv)+
  have m: "tx_mode ` set (tx_esme e') = tx_mode ` set (tx_esme e)" "rx_mode ` set (rx_esme e') = rx_mode ` set (rx_esme e)"
    using i(3,4) by (metis list.set_map)+
  have "(\<forall>s \<in> set k. f s \<in> A) \<longleftrightarrow> f ` set k \<subseteq> A" for k and f :: "'z \<Rightarrow> int" and A by auto
  note q = this [of "tx_esme _" tx_mode "{1, 3}"] this [of "rx_esme _" rx_mode "{2}", simplified]
  from assms(2) show ?thesis unfolding esme_ok_def q i(1,2) l m .
qed

definition served ::
    "reg_ops \<Rightarrow> accounts \<Rightarrow> (octstr \<times> bool \<times> int \<times> nat) set \<Rightarrow> octstr \<Rightarrow> nat \<Rightarrow> int \<Rightarrow> int \<Rightarrow> registry \<Rightarrow> bool" where
  "served R accs B name r mode i g \<longleftrightarrow> reg_inv g \<and> limits_ok (reg_octstr R) accs g \<and> bindings g = B \<and>
     (\<exists>e. deref g r = Some e \<and> system_id e = name \<and> i \<in> set (open_ids mode e))"

lemma served_update [inv_intros]:
  assumes g: "served R accs B name r mode i g" and e: "deref g r = Some e" "same_sessions e e'"
    and u: "update_esme r (\<lambda>_. e') g = Some g'"
  shows "served R accs B name r mode i g'"
proof -
  have inv: "reg_inv g" "limits_ok (reg_octstr R) accs g" "bindings g = B" "system_id e = name" "i \<in> set (open_ids mode e)"
    using g e(1) by (auto simp: served_def)
  from update_esme_at [OF e(1), of "\<lambda>_. e'"] u obtain k where k: "k < length (esme_list g)" "esme_list g ! k = e" "esme_ref e = r"
    and g': "g' = g\<lparr>esme_list := (esme_list g)[k := e']\<rparr>" by auto
  have same: "esme_ref e' = esme_ref e" "system_id e' = system_id e" using e(2) by (simp_all add: same_sessions_def)
  have ok: "esme_ok e" using inv(1) k by (auto simp: reg_inv_def)
  have r: "reg_inv g'" unfolding g' by (rule reg_inv_replace [OF inv(1) k(1)]) (use same k same_ok [OF e(2) ok] in auto)
  obtain t where t: "smpp_client_find_username (reg_octstr R) accs (system_id e) = Some t"
    "within (max_tx_sessions t) (map tx_session_id (tx_esme e))" "within (max_rx_sessions t) (map rx_session_id (rx_esme e))"
    using inv(2) nth_mem [OF k(1)] k(2) by (auto simp: limits_ok_def)
  have l: "limits_ok (reg_octstr R) accs g'"
    unfolding g' by (rule limits_replace [OF inv(2), of e' t]) (use same t same_ids [OF e(2)] in auto)
  have "esme_bindings e \<subseteq> bindings g" using nth_mem [OF k(1)] k(2) by (auto simp: bindings_def)
  then have b: "bindings g' = B"
    unfolding g' bindings_replace [OF inv(1) k(1)] k(2) same_bindings [OF e(2)] using inv(3) by auto
  have "e' \<in> set (esme_list g')" unfolding g' using k(1) by (simp add: set_update_memI)
  then have "deref g' r = Some e'" using deref_Some [OF r, of r e'] same k(3) by simp
  with r l b inv same same_ids(5) [OF e(2)] show ?thesis by (auto simp: served_def)
qed

lemma serve_pdu_served:
  assumes "served R accs B name r mode i (th_reg st)" "serve_pdu W r mode i pdu st = Some st'"
  shows "served R accs B name r mode i (th_reg st')"
  using assms by (auto simp: serve_pdu_def split: option.splits intro: served_update handle_pdu_same)

lemma serve_queue_served:
  assumes "served R accs B name r mode i (th_reg st)" "serve_queue W r mode i st = Some st'"
  shows "served R accs B name r mode i (th_reg st')"
  using assms by (auto simp: serve_queue_def split: option.splits intro: served_update write_queued_same)

lemma keep_alive_served:
  assumes "served R accs B name r mode i (th_reg st)" "keep_alive W r mode i st = Some st'"
  shows "served R accs B name r mode i (th_reg st')"
  using assms by (auto simp: keep_alive_def split: option.splits if_splits intro: served_update send_enquire_link_same)

lemma serve_step_served:
  assumes "served R accs B name r mode i (th_reg st)" "serve_step W r mode i pdu st = Some st'"
  shows "served R accs B name r mode i (th_reg st')"
proof -
  from assms(2) obtain st1 st2 where s: "serve_pdu W r mode i pdu st = Some st1" "serve_queue W r mode i st1 = Some st2"
    "keep_alive W r mode i st2 = Some st'" by (auto simp: serve_step_def bind_eq_Some_conv)
  from keep_alive_served [OF serve_queue_served [OF serve_pdu_served [OF assms(1) s(1)] s(2)] s(3)] show ?thesis .
qed

lemma read_loop_invariant:
  assumes "\<And>pdu s s'. I s \<Longrightarrow> step pdu s = Some s' \<Longrightarrow> I s'"
  shows "I s \<Longrightarrow> read_loop P step n len c s = Some (ret, len', c', s') \<Longrightarrow> I s'"
proof (induction n arbitrary: len c s)
  case (Suc n)
  obtain r1 l1 p1 c1 where r: "read_pdu P len c = (r1, l1, p1, c1)" by (metis prod_cases4)
  show ?case
  proof (cases "r1 = 1")
    case True
    with Suc.prems(2) r obtain s1 where "step (the p1) s = Some s1" "read_loop P step n l1 c1 s1 = Some (ret, len', c', s')"
      by (auto split: option.splits)
    with Suc.IH assms [OF Suc.prems(1)] show ?thesis by blast
  qed (use Suc.prems r in simp)
qed simp

lemma unbind_loop_served:
  "served R accs B name r mode i (th_reg st) \<Longrightarrow> unbind_loop W P r mode i polls len c st = Some st' \<Longrightarrow>
     served R accs B name r mode i (th_reg st')"
proof (induction polls arbitrary: len c st)
  case (Cons p polls)
  obtain b eof where p: "p = (b, eof)" by fastforce
  obtain ret l pdu c1 where r: "read_pdu P len ((arrive c b)\<lparr>in_closed := eof\<rparr>) = (ret, l, pdu, c1)" by (metis prod_cases4)
  show ?case
    using Cons.prems(2) Cons.IH [OF Cons.prems(1)] Cons.IH [OF serve_pdu_served [OF Cons.prems(1)]] Cons.prems(1)
    by (auto simp: p r split: option.splits if_splits)
qed simp

lemma session_round_served:
  assumes sv: "served R accs B name r mode i (th_reg st)" and ro: "session_round W P r mode i ro len c st = Some (stop, len', c', st')"
  shows "served R accs B name r mode i (th_reg st')"
proof (cases "ro_wait ro = -1")
  case True
  with sv ro show ?thesis by (simp add: session_round_def)
next
  case False
  obtain e where e: "deref (th_reg st) r = Some e" using sv by (auto simp: served_def)
  let ?c = "(arrive c (ro_input ro))\<lparr>in_closed := ro_eof ro\<rparr>"
  show ?thesis
  proof (cases "session_status e mode i = Some ESME_DISCONNECT \<or> session_status e mode i = Some ESME_SEND_UNBIND")
    case True
    with ro e False obtain out e' g where u: "send_unbind mode i e = Some (out, e')" "update_esme r (\<lambda>_. e') (th_reg st) = Some g"
      "unbind_loop W P r mode i (ro_farewell ro) len ?c (st\<lparr>th_reg := g, th_out := th_out st @ out\<rparr>) = Some st'"
      by (auto simp: session_round_def Let_def bind_eq_Some_conv)
    have "served R accs B name r mode i g" by (rule served_update [OF sv e send_unbind_same [OF u(1)] u(2)])
    with unbind_loop_served [OF _ u(3)] show ?thesis by simp
  next
    case nu: False
    with ro e False obtain st1 ret l c2 st2 where k: "keep_alive W r mode i st = Some st1"
      "read_all P (serve_step W r mode i) len ?c st1 = Some (ret, l, c2, st2)"
      "st' = st2 \<or> serve_queue W r mode i st2 = Some st'"
      by (auto simp: session_round_def Let_def bind_eq_Some_conv split: if_splits)
    have "served R accs B name r mode i (th_reg st2)"
      by (rule read_loop_invariant [where I = "\<lambda>s. served R accs B name r mode i (th_reg s)", OF _ _ k(2) [unfolded read_all_def]])
        (use serve_step_served keep_alive_served [OF sv k(1)] in auto)
    with k(3) serve_queue_served show ?thesis by blast
  qed
qed

lemma session_rounds_served:
  "served R accs B name r mode i (th_reg st) \<Longrightarrow> session_rounds W P r mode i ros len c st = Some (stop, st') \<Longrightarrow>
     served R accs B name r mode i (th_reg st')"
proof (induction ros arbitrary: len c st)
  case (Cons ro ros)
  then show ?case by (auto split: option.splits if_splits dest: session_round_served)
qed simp

section \<open>Binds\<close>

lemma authorise_user_tempconn:
  assumes "authorise_user R D self (Some accs) smscs (Some pdu) mode (Some tc) g = Some (code, g', tc', r)" "mode \<in> {1, 2, 3}"
  shows "\<exists>tc1. tc' = Some tc1 \<and> tc_conn tc1 = tc_conn tc"
  using assms
  by (auto simp: authorise_user_def authorise_commit_def Let_def bind_eq_Some_conv split: option.splits sum.splits prod.splits if_splits)

lemma authorise_check_code: "authorise_check R D accs pdu mode tc g = Some (Inl code) \<Longrightarrow> code \<noteq> 0"
  unfolding authorise_check_def Let_def by (auto split: option.splits if_splits)

lemma authorise_user_mode:
  assumes "authorise_user R D self (Some accs) smscs (Some pdu) mode (Some tc) g = Some (code, g', Some tc', r)" "mode \<in> {1, 2, 3}"
    "code = 0"
  shows "tc_mode tc' = mode"
  using assms
  by (auto simp: authorise_user_def authorise_commit_def Let_def bind_eq_Some_conv dest: authorise_check_code
      split: option.splits sum.splits prod.splits if_splits)

lemma open_sessions_bindings:
  assumes g: "reg_inv g" and b: "(name, mode = 2, i, c) \<in> bindings g" and m: "mode \<in> {1, 2, 3}"
  shows "i \<in> set (open_sessions mode name g)"
proof -
  from b obtain e where e: "e \<in> set (esme_list g)" "(name, mode = 2, i, c) \<in> esme_bindings e" by (auto simp: bindings_def)
  then have n: "system_id e = name" and i: "i \<in> set (open_ids mode e)"
    using m by (auto simp: esme_bindings_def open_ids_def)
  have "List.find (\<lambda>e. system_id e = name) (esme_list g) = Some e"
  proof -
    obtain e' where e': "List.find (\<lambda>e. system_id e = name) (esme_list g) = Some e'"
      using e(1) n by (cases "List.find (\<lambda>e. system_id e = name) (esme_list g)") (auto simp: find_None_iff)
    then have "e' \<in> set (esme_list g)" "system_id e' = name" by (auto simp: find_Some_iff)
    with e(1) n g have "e' = e" by (auto simp: reg_inv_def distinct_map inj_on_def)
    with e' show ?thesis by simp
  qed
  with i show ?thesis by (simp add: open_sessions_def)
qed

text \<open>A bind that is accepted registers a session that was not there; one that is refused changes nothing.\<close>

definition bound :: "server_env \<Rightarrow> accounts \<Rightarrow> tempconn \<Rightarrow> registry \<Rightarrow> nat option \<Rightarrow> tempconn \<Rightarrow> registry \<Rightarrow> bool" where
  "bound W accs tc g ptr tc' g' \<longleftrightarrow> tc_conn tc' = tc_conn tc \<and>
     (if bind_successful tc' = 0 then g' = g
      else \<exists>r name. ptr = Some r \<and> tc_mode tc' \<in> {1, 2, 3} \<and>
        served (se_reg W) accs (insert (name, tc_mode tc' = 2, tc_session_id tc', tc_conn tc) (bindings g)) name r
          (tc_mode tc') (tc_session_id tc') g' \<and>
        (\<forall>c. (name, tc_mode tc' = 2, tc_session_id tc', c) \<notin> bindings g))"

lemma bind_authorise_bound:
  assumes R: "reg_spec (se_reg W)" and g: "reg_inv g" and lim: "limits_ok (reg_octstr (se_reg W)) (sv_translations S) g"
    and m: "mode \<in> {1, 2, 3}" and n: "bind_system_id pdu = Some name"
    and b: "bind_authorise W S mode tc pdu g = Some (ret, ptr, tc', g')"
  shows "bound W (sv_translations S) tc g ptr tc' g'" and "bind_successful tc' = 1 \<longleftrightarrow> ret = 0"
proof -
  from b obtain tc1 where a: "authorise_user (se_reg W) (se_dates W) (se_self W) (Some (sv_translations S)) (sv_smscs S)
      (Some pdu) mode (Some tc) g = Some (ret, g', Some tc1, ptr)"
    and tc': "tc' = tc1\<lparr>bind_successful := (if ret = 0 \<and> (case ptr of None \<Rightarrow> False
       | Some p \<Rightarrow> (case deref g' p of None \<Rightarrow> False | Some e \<Rightarrow> bind_sessions mode e > 0)) then 1 else 0)\<rparr>"
    by (auto simp: bind_authorise_def Let_def split: option.splits prod.splits)
  note res = authorise_user_result [OF R g lim m n, where D = "se_dates W" and self = "se_self W"
      and smscs = "sv_smscs S" and tc = tc]
  note conn = authorise_user_tempconn [OF a m]
  show "bound W (sv_translations S) tc g ptr tc' g'" and "bind_successful tc' = 1 \<longleftrightarrow> ret = 0"
  proof -
    have goal: "bound W (sv_translations S) tc g ptr tc' g' \<and> (bind_successful tc' = 1 \<longleftrightarrow> ret = 0)"
    proof (cases "ret = 0")
      case False
      with res a have "g' = g" by auto
      with False tc' conn show ?thesis by (auto simp: bound_def)
    next
      case True
      with res a have inv: "reg_inv g'" "limits_ok (reg_octstr (se_reg W)) (sv_translations S) g'"
        "bindings g' = insert (name, mode = 2, tc_session_id tc1, tc_conn tc) (bindings g)" by auto
      from True res a obtain e where e: "e \<in> set (esme_list g')" "ptr = Some (esme_ref e)" "system_id e = name"
        "open_ids mode e = open_sessions mode name g @ [tc_session_id tc1]" by auto
      have d: "deref g' (esme_ref e) = Some e" using deref_Some [OF inv(1)] e(1) by simp
      have "bind_sessions mode e > 0" using e(4) m by (auto simp: bind_sessions_def open_ids_def split: if_splits)
      then have s: "tc' = tc1\<lparr>bind_successful := 1\<rparr>" using tc' True e(2) d by simp
      have "esme_ok e" using inv(1) e(1) by (simp add: reg_inv_def)
      then have "distinct (open_ids mode e)" by (auto simp: esme_ok_def ids_ok_def open_ids_def)
      then have "tc_session_id tc1 \<notin> set (open_sessions mode name g)" using e(4) by simp
      then have f: "\<forall>c. (name, mode = 2, tc_session_id tc1, c) \<notin> bindings g"
        using open_sessions_bindings [OF g _ m] by blast
      have "tc_mode tc1 = mode" "tc_conn tc1 = tc_conn tc" using authorise_user_mode [OF a m True] conn by auto
      with s e d inv f m True show ?thesis by (auto simp: bound_def served_def)
    qed
    then show "bound W (sv_translations S) tc g ptr tc' g'" "bind_successful tc' = 1 \<longleftrightarrow> ret = 0" by blast+
  qed
qed

lemma handle_pdu_bind_bound:
  assumes R: "reg_spec (se_reg W)" and g: "reg_inv g" and lim: "limits_ok (reg_octstr (se_reg W)) (sv_translations S) g"
    and z: "bind_successful tc = 0" and h: "handle_pdu_bind W S tc pdu g = Some (out, ptr, tc', g')"
  shows "bound W (sv_translations S) tc g ptr tc' g'"
proof -
  have refused: "bound W (sv_translations S) tc g p tc g" for p using z by (simp add: bound_def)
  have name: "\<exists>name. bind_system_id b = Some name" if "init_log_file X (bind_system_id b) accs m = Some y" for X b accs m y
    using that by (cases "bind_system_id b") (auto simp: init_log_file_def)
  note step = bind_authorise_bound(1) [OF R g lim]
  show ?thesis
  proof (cases pdu)
    case (Bind_transmitter b)
    with h obtain n where "bind_system_id b = Some n" by (auto simp: handle_pdu_bind_def Let_def split: if_splits dest!: name)
    with Bind_transmitter h step [of 1 b] refused show ?thesis
      by (auto simp: handle_pdu_bind_def handle_bind_transmitter_def Let_def split: if_splits option.splits)
  next
    case (Bind_receiver b)
    with h obtain n where "bind_system_id b = Some n" by (auto simp: handle_pdu_bind_def Let_def split: if_splits dest!: name)
    with Bind_receiver h step [of 2 b] refused show ?thesis
      by (auto simp: handle_pdu_bind_def handle_bind_receiver_def Let_def split: if_splits option.splits)
  next
    case (Bind_transceiver b)
    with h obtain n where "bind_system_id b = Some n" by (auto simp: handle_pdu_bind_def Let_def split: if_splits dest!: name)
    with Bind_transceiver h step [of 3 b] refused show ?thesis
      by (auto simp: handle_pdu_bind_def handle_bind_transceiver_def Let_def split: if_splits option.splits)
  qed (use h refused in \<open>auto simp: handle_pdu_bind_def\<close>)
qed

section \<open>Properties of a thread\<close>

lemma serve_session_ends:
  assumes R: "reg_spec (se_reg W)" and m: "tc_mode tc \<in> {1, 2, 3}"
    and sv: "served (se_reg W) accs (insert (name, tc_mode tc = 2, tc_session_id tc, conn) B) name r (tc_mode tc) (tc_session_id tc) (th_reg st)"
    and fresh: "\<forall>c. (name, tc_mode tc = 2, tc_session_id tc, c) \<notin> B"
    and s: "serve_session W P quitting r tc rounds c st = Some (conns, ended, st')"
  shows "if ended then conns = [conn] \<and> reg_inv (th_reg st') \<and> limits_ok (reg_octstr (se_reg W)) accs (th_reg st') \<and> bindings (th_reg st') = B
    else conns = [] \<and> served (se_reg W) accs (insert (name, tc_mode tc = 2, tc_session_id tc, conn) B) name r (tc_mode tc) (tc_session_id tc) (th_reg st')"
proof -
  let ?B = "insert (name, tc_mode tc = 2, tc_session_id tc, conn) B"
  let ?mode = "if tc_mode tc = 2 then 2 else 1 :: int"
  let ?st = "st\<lparr>th_last_enquire := se_now W (th_ticks st), th_ticks := th_ticks st + 1\<rparr>"
  have ids: "open_ids ?mode e = open_ids (tc_mode tc) e" for e using m by (auto simp: open_ids_def)
  have sm: "served R' accs' B' name' r' ?mode i g = served R' accs' B' name' r' (tc_mode tc) i g" for R' accs' B' name' r' i g
    unfolding served_def ids ..
  have m': "?mode \<in> {1, 2}" "(?mode = 2) = (tc_mode tc = 2)" by simp_all
  from s obtain stop st2 where l: "(if quitting then Some (True, ?st)
      else session_rounds W P r ?mode (tc_session_id tc) rounds 0 c ?st) = Some (stop, st2)"
    and fin: "if stop then \<exists>g. esme_destroy (se_reg W) (Some r) ?mode (tc_session_id tc) (th_reg st2) = Some (conns, g) \<and> ended
         \<and> st' = st2\<lparr>th_reg := g\<rparr> else conns = [] \<and> \<not> ended \<and> st' = st2"
    unfolding serve_session_def Let_def by (auto split: option.splits bool.splits prod.splits)
  have "served (se_reg W) accs ?B name r ?mode (tc_session_id tc) (th_reg st2)"
  proof (cases quitting)
    case True
    with l sv show ?thesis unfolding sm by auto
  next
    case False
    have "served (se_reg W) accs ?B name r ?mode (tc_session_id tc) (th_reg ?st)" unfolding sm using sv by simp
    with False l session_rounds_served [of "se_reg W" accs ?B name r ?mode "tc_session_id tc" ?st] show ?thesis by simp
  qed
  then obtain e where e: "reg_inv (th_reg st2)" "limits_ok (reg_octstr (se_reg W)) accs (th_reg st2)" "bindings (th_reg st2) = ?B"
    "deref (th_reg st2) r = Some e" "system_id e = name" "tc_session_id tc \<in> set (open_ids ?mode e)"
    and sv2: "served (se_reg W) accs ?B name r (tc_mode tc) (tc_session_id tc) (th_reg st2)"
    unfolding sm by (auto simp: served_def ids)
  show ?thesis
  proof (cases stop)
    case True
    from esme_destroy_result [OF R e(1,2,4) m'(1) e(6)] obtain conn' g' where
      d: "esme_destroy (se_reg W) (Some r) ?mode (tc_session_id tc) (th_reg st2) = Some ([conn'], g')" "reg_inv g'"
      "limits_ok (reg_octstr (se_reg W)) accs g'" "(name, tc_mode tc = 2, tc_session_id tc, conn') \<in> ?B"
      "bindings g' = ?B - {(name, tc_mode tc = 2, tc_session_id tc, conn')}"
      unfolding m'(2) e(3,5) by blast
    have "conn' = conn" using d(4) fresh by blast
    with True fin d fresh show ?thesis by auto
  next
    case False
    with fin sv2 show ?thesis by simp
  qed
qed

lemma read_pdu_closed: "read_pdu P len c = (ret, len', pdu, c') \<Longrightarrow> in_closed c' = in_closed c"
  by (auto simp: read_pdu_def Let_def split: prod.splits option.splits if_splits)


text \<open>
  A client that binds and closes its connection at once leaves its session behind: the thread ends without destroying the
  connection or the session, so that the session counts against the limit of the account for as long as the server runs.
\<close>

theorem thread_leaks_session:
  assumes R: "reg_spec (se_reg W)" and g: "reg_inv (th_reg st)"
    and lim: "limits_ok (reg_octstr (se_reg W)) (sv_translations (th_server st)) (th_reg st)"
    and tc: "bind_successful tc = 0" and eof: "fi_eof first" "fi_wait first = 0"
    and r: "read_pdu P 0 \<lparr> inbuf = fi_input first, in_closed = True \<rparr> = (1, len, Some pdu, c)"
    and h: "handle_pdu_bind W (th_server st) tc pdu (th_reg st) = Some (out, ptr, tc', g')" "bind_successful tc' = 1"
  shows "\<exists>st' name receiver i. receive_smpp_thread W P quitting tc first rounds st = Some ([], True, st') \<and>
    (name, receiver, i, tc_conn tc) \<notin> bindings (th_reg st) \<and>
    bindings (th_reg st') = insert (name, receiver, i, tc_conn tc) (bindings (th_reg st))"
proof -
  have cl: "in_closed c" using read_pdu_closed [OF r] by simp
  have "receive_smpp_thread W P quitting tc first rounds st = Some ([], True, st\<lparr>th_reg := g', th_out := th_out st @ out\<rparr>)"
    using eof r h cl by (simp add: receive_smpp_thread_def tempconn_destroy_def Let_def)
  moreover from handle_pdu_bind_bound [OF R g lim tc h(1)] h(2) obtain name where
    "\<forall>c. (name, tc_mode tc' = 2, tc_session_id tc', c) \<notin> bindings (th_reg st)"
    "bindings g' = insert (name, tc_mode tc' = 2, tc_session_id tc', tc_conn tc) (bindings (th_reg st))"
    by (auto simp: bound_def served_def)
  ultimately show ?thesis by fastforce
qed

definition sample_server_env :: server_env where
  "sample_server_env = \<lparr> se_submit = sample_submit_env, se_deliver = sample_deliver_env, se_reg = reg_ref, se_dates = sample_dates,
     se_self = 9, smsc_system_id = ''Fonada SMPP'', se_now = (\<lambda>n. int n), se_clock = (\<lambda>n. sample_clock) \<rparr>"

definition sample_thread_ops :: pdu_ops where
  "sample_thread_ops = sample_pdu_ops\<lparr>unpack_pdu := (\<lambda>os. if os = ''bind'' then Some (Bind_transmitter sample_bind)
     else if os = ''unbind'' then Some (Unbind 7) else None)\<rparr>"

definition sample_thread :: thread_state where
  "sample_thread = \<lparr> th_reg = esme_init, th_server = sample_server, th_out = [], th_effects = [], th_last_enquire = 0, th_ticks = 0 \<rparr>"

definition sample_first :: "bool \<Rightarrow> first_in" where
  "sample_first eof = \<lparr> fi_wait = 0, fi_input = CHR 0x04 # ''bind'', fi_eof = eof \<rparr>"

definition sample_round :: round_in where
  "sample_round = \<lparr> ro_wait = 0, ro_input = CHR 0x06 # ''unbind'', ro_eof = False, ro_farewell = [] \<rparr>"

definition sample_tempconn :: tempconn where
  "sample_tempconn = tempconn_create 4 ''10.0.0.1'' 1025 3000 1"

lemma sample_thread_runs:
  "map_option (\<lambda>(conns, ended, st). (conns, ended))
     (receive_smpp_thread sample_server_env sample_thread_ops False sample_tempconn (sample_first False) [sample_round] sample_thread) =
     Some ([4], True)"
  by code_simp

lemma sample_thread_inv:
  "reg_spec (se_reg sample_server_env)" "reg_inv (th_reg sample_thread)" "bind_successful sample_tempconn = 0"
  "limits_ok (reg_octstr (se_reg sample_server_env)) (sv_translations (th_server sample_thread)) (th_reg sample_thread)"
  by (simp_all add: sample_server_env_def sample_thread_def sample_tempconn_def tempconn_create_def)


lemma sample_bind_accepted:
  "map_option (\<lambda>(out, ptr, tc', g'). bind_successful tc') (handle_pdu_bind sample_server_env (th_server sample_thread) sample_tempconn
     (Bind_transmitter sample_bind) (th_reg sample_thread)) = Some 1"
  by code_simp

theorem thread_leaks_session_witness:
  "\<exists>st' name receiver i. receive_smpp_thread sample_server_env sample_thread_ops False sample_tempconn (sample_first True) [] sample_thread =
     Some ([], True, st') \<and> bindings (th_reg st') = {(name, receiver, i, 4)}"
proof -
  obtain out ptr tc' g' where h: "handle_pdu_bind sample_server_env (th_server sample_thread) sample_tempconn
      (Bind_transmitter sample_bind) (th_reg sample_thread) = Some (out, ptr, tc', g')" "bind_successful tc' = 1"
    using sample_bind_accepted by auto
  have r: "read_pdu sample_thread_ops 0 \<lparr> inbuf = fi_input (sample_first True), in_closed = True \<rparr> =
      (1, 0, Some (Bind_transmitter sample_bind), \<lparr> inbuf = [], in_closed = True \<rparr>)"
    by (simp add: read_pdu_def sample_thread_ops_def sample_pdu_ops_def sample_first_def)
  have f: "fi_eof (sample_first True)" "fi_wait (sample_first True) = 0" "tc_conn sample_tempconn = 4" "bindings (th_reg sample_thread) = {}"
    by (simp_all add: sample_first_def sample_tempconn_def tempconn_create_def sample_thread_def bindings_def esme_init_def)
  show ?thesis
    using thread_leaks_session [OF sample_thread_inv(1,2,4,3) f(1,2) r h, of False "[]"] unfolding f(3,4) by blast
qed

section \<open>Responses\<close>

fun out_sequence :: "out_pdu \<Rightarrow> ulong option" where
  "out_sequence (Bind_transmitter_resp r) = Some (br_sequence_number r)"
| "out_sequence (Bind_receiver_resp r) = Some (br_sequence_number r)"
| "out_sequence (Bind_transceiver_resp r) = Some (br_sequence_number r)"
| "out_sequence (Submit_sm_resp r) = Some (sr_sequence_number r)"
| "out_sequence (Out_enquire_link_resp n) = Some n"
| "out_sequence (Out_unbind_resp n) = Some n"
| "out_sequence (Cancel_sm_resp n _) = Some n"
| "out_sequence (Replace_sm_resp n _) = Some n"
| "out_sequence (Query_sm_resp n _) = Some n"
| "out_sequence (Out_generic_nack n _) = Some n"
| "out_sequence (Out_enquire_link n) = Some n"
| "out_sequence (Out_unbind n) = Some n"
| "out_sequence (Packed _) = None"

text \<open>The PDUs that are themselves answers.\<close>

fun is_answer :: "pdu \<Rightarrow> bool" where
  "is_answer (Generic_nack _ _) = True"
| "is_answer (Enquire_link_resp _) = True"
| "is_answer (Deliver_sm_resp _) = True"
| "is_answer (Unbind_resp _) = True"
| "is_answer _ = False"

lemma same_session_conn:
  assumes "same_sessions e e'" "mode \<in> {1, 2}"
  shows "session_conn e' mode i = session_conn e mode i"
proof -
  have f: "map_option g (List.find (\<lambda>s. k s = i) l) = map_option (fst \<circ> snd) (List.find (\<lambda>t. fst t = i) (map (\<lambda>s. (k s, g s, m s)) l))"
    for k :: "'a \<Rightarrow> int" and g :: "'a \<Rightarrow> nat" and m :: "'a \<Rightarrow> int" and l
    by (induction l) auto
  show ?thesis
    unfolding session_conn_def find_tx_def find_rx_def f [of tx_conn tx_session_id _ tx_mode] f [of rx_conn rx_session_id _ rx_mode]
    using assms(1) by (simp add: same_sessions_def)
qed

lemma write_session_conn:
  "mode \<in> {1, 2} \<Longrightarrow> write_session e mode i out = map_option (\<lambda>c. [(c, out)]) (session_conn e mode i)"
  by (auto simp: write_session_def session_conn_def option.map_comp comp_def)

lemma handler_responds:
  assumes h: "handlers pdu = Some f" "f W T S e pdu mode i = Some (resp, S', e', effs)"
  shows "if is_answer pdu then resp = None else \<exists>out. resp = Some out \<and> out_sequence out = Some (sequence_number pdu)"
  using assms
  by (cases pdu) (auto simp: handlers_def small_handlers split: if_splits dest: handle_submit_parts)

text \<open>
  C25: on an open session every PDU but a \<^verbatim>\<open>submit_sm\<close> is handled to the end, and every request that is handled, one that
  no table knows included, gets exactly one answer, on the connection of the session and with the sequence number of the
  request; an answer is not answered.
\<close>

theorem handle_pdu_responds:
  assumes m: "mode \<in> {1, 2}" and c: "session_conn e mode i = Some conn"
  shows "((\<forall>sm. pdu \<noteq> Submit_sm sm) \<longrightarrow> handle_pdu W T S e pdu mode i \<noteq> None) \<and>
    (\<forall>out S' e' effs. handle_pdu W T S e pdu mode i = Some (out, S', e', effs) \<longrightarrow>
       (if is_answer pdu then out = []
        else \<exists>resp. out = [(conn, resp)] \<and> out_sequence resp = Some (sequence_number pdu)))"
proof -
  have o: "session_open e mode i" using m c by (auto simp: session_open_def session_conn_def)
  have w: "write_session e' mode i out = Some [(conn, out)]" if "same_sessions e e'" for e' out
    using write_session_conn [OF m] same_session_conn [OF that m] c by simp
  show ?thesis
  proof (cases "handlers pdu")
    case None
    then have "\<not> is_answer pdu" by (cases pdu) (auto simp: handlers_def)
    with None w [of e] show ?thesis by (simp add: handle_pdu_def)
  next
    case (Some f)
    have total: "f W T S e pdu mode i \<noteq> None" if "\<forall>sm. pdu \<noteq> Submit_sm sm"
      using Some that o by (cases pdu) (auto simp: handlers_def small_handlers)
    show ?thesis
    proof (cases "f W T S e pdu mode i")
      case None
      with total Some show ?thesis by (auto simp: handle_pdu_def)
    next
      case res: (Some x)
      obtain resp S' e' effs where x: "x = (resp, S', e', effs)" by (metis prod_cases4)
      note r = handler_responds [OF Some res [unfolded x]] and s = handlers_same [OF Some res [unfolded x]]
      show ?thesis
      proof (cases resp)
        case None
        with Some res x r show ?thesis by (auto simp: handle_pdu_def split: if_splits)
      next
        case (Some out)
        with \<open>handlers pdu = Some f\<close> res x r w [OF s] show ?thesis by (auto simp: handle_pdu_def split: if_splits)
      qed
    qed
  qed
qed

theorem handle_pdu_responds_witness:
  "\<exists>S' e' effs. handle_pdu sample_server_env sample_clock sample_server open_esme (Other_pdu 3) 1 1 =
     Some ([(4, Out_generic_nack 3 3)], S', e', effs)"
proof -
  have c: "session_conn open_esme 1 1 = Some 4" by code_simp
  have r: "RINVCMDID (codes (se_submit sample_server_env)) = 3"
    by (simp add: sample_server_env_def sample_submit_env_def smpp34_codes_def)
  have "handle_pdu sample_server_env sample_clock sample_server open_esme (Other_pdu 3) 1 1 \<noteq> None"
    using handle_pdu_responds [OF _ c, of "Other_pdu 3" sample_server_env sample_clock sample_server] by simp
  with write_session_conn [of 1 open_esme 1] c r show ?thesis by (simp add: handle_pdu_def handlers_def)
qed

lemma authorise_user_codes:
  assumes "authorise_user R D self (Some accs) smscs (Some pdu) mode (Some tc) g = Some (code, g', tc', r)" "mode \<in> {1, 2, 3}"
  shows "code \<in> {0, 1, 2, 3, 4, 5, 10}"
  using assms
  by (auto simp: authorise_user_def authorise_check_def Let_def bind_eq_Some_conv
      split: option.splits sum.splits prod.splits if_splits)

fun bind_status :: "out_pdu \<Rightarrow> int option" where
  "bind_status (Bind_transmitter_resp r) = Some (br_command_status r)"
| "bind_status (Bind_receiver_resp r) = Some (br_command_status r)"
| "bind_status (Bind_transceiver_resp r) = Some (br_command_status r)"
| "bind_status _ = None"

lemma bind_authorise_codes:
  "bind_authorise W S mode tc pdu g = Some (ret, ptr, tc', g') \<Longrightarrow> mode \<in> {1, 2, 3} \<Longrightarrow> ret \<in> {0, 1, 2, 3, 4, 5, 10}"
  by (auto simp: bind_authorise_def Let_def split: option.splits prod.splits dest: authorise_user_codes)

lemma status_truthful:
  assumes "submit_spec E" "ret \<in> {0, 1, 2, 3, 4, 5, 10}"
  shows "receiver_status E ret = 0 \<longleftrightarrow> ret = 0" "p \<Longrightarrow> transmitter_status E ret p = 0 \<longleftrightarrow> ret = 0"
    "ret \<noteq> 0 \<Longrightarrow> transmitter_status E ret q \<noteq> 0"
  using assms by (auto simp: receiver_status_def transmitter_status_def submit_spec_def codes_spec_def Let_def)

lemma bind_result:
  assumes E: "submit_spec (se_submit W)" and R: "reg_spec (se_reg W)" and g: "reg_inv g"
    and lim: "limits_ok (reg_octstr (se_reg W)) (sv_translations S) g" and m: "mode \<in> {1, 2, 3}" and n: "bind_system_id b = Some name"
    and a: "bind_authorise W S mode tc b g = Some (ret, ptr, tc', g')"
  shows "(receiver_status (se_submit W) ret = 0 \<longleftrightarrow> bind_successful tc' = 1) \<and>
    (transmitter_status (se_submit W) ret (ptr \<noteq> None) = 0 \<longleftrightarrow> bind_successful tc' = 1) \<and>
    (bind_successful tc' \<noteq> 1 \<longrightarrow> g' = g)"
proof -
  note b = bind_authorise_bound [OF R g lim m n a] and c = status_truthful [OF E bind_authorise_codes [OF a m]]
  have z: "bind_successful tc' = 0 \<or> bind_successful tc' = 1"
    using a by (auto simp: bind_authorise_def Let_def split: option.splits prod.splits if_splits)
  have "ret = 0 \<Longrightarrow> ptr \<noteq> None" using b by (auto simp: bound_def)
  with b c(1) c(2) [of "ptr \<noteq> None"] c(3) [of "ptr \<noteq> None"] z show ?thesis by (auto simp: bound_def)
qed



end
