(* ===== verification/Control.thy ===== *)
theory Control
  imports Session Dict
begin

text \<open>
  What the other processes tell the server, \<^verbatim>\<open>handle_request\<close> of \<^verbatim>\<open>smpp-esme/smpp_esme.c\<close>, and what the server does with the
  messages in its queues when it is shut down, \<^verbatim>\<open>save_dbbox_q_msgs\<close> and \<^verbatim>\<open>quit\<close>.  \<open>None\<close> is a null pointer that is read.
\<close>

section \<open>Requests\<close>

record deliver_req =
  dr_smsc_id :: octstr
  dr_smsc_msg_id :: octstr
  dr_dest_addr :: octstr
  dr_pdu :: octstr

record values_got =
  vg_result :: int
  vg_account_name :: octstr
  vg_account_msg_id :: octstr
  vg_smsc_msg_id :: octstr
  vg_dest_addr :: octstr
  vg_pdu :: octstr

datatype request =
    Admin int octstr
  | No_of_smsc int
  | Info_smsc smsc_conn
  | Global_q_msg int
  | Deliver_req deliver_req
  | Values_got values_got
  | Other_request

text \<open>The numbers of two administrative commands, which a header outside the repository defines, and the list functions in use.\<close>

record control_env =
  ce_reg :: reg_ops
  ce_smscs :: "smsc_conn gwlist_ops"
  ce_items :: "(octstr \<times> octstr) gwlist_ops"
  admin_cmd_dbbox_disconnected :: int
  admin_cmd_dbbox_connected :: int

definition control_spec :: "control_env \<Rightarrow> bool" where
  "control_spec C \<longleftrightarrow> reg_spec (ce_reg C) \<and> gwlist_spec (ce_smscs C) \<and> gwlist_spec (ce_items C) \<and>
     admin_cmd_dbbox_disconnected C \<noteq> admin_cmd_dbbox_connected C"

text \<open>
  The state the requests change: the server with its list of SMSCs, the sessions, the two static variables of \<^verbatim>\<open>handle_request\<close>, the
  dictionary of messages waiting for their account, and the name of the process that sends the requests.
\<close>

record control =
  ct_server :: server
  ct_reg :: registry
  total_smsc :: int
  smsc_data_received :: int
  pending_deliver_sm :: "octstr dict"
  ct_conn_id :: "octstr option"

section \<open>Operations\<close>

definition smsc_init :: "smsc_conn list" where
  "smsc_init = []"

text \<open>A message for a session: it is put at the end of the queue of the session that was found.\<close>

definition queue_message :: "reg_ops \<Rightarrow> octstr \<Rightarrow> session \<Rightarrow> msg_deliver \<Rightarrow> registry \<Rightarrow> registry" where
  "queue_message R name s m g =
     (case first_pos (\<lambda>e. octstr_compare (reg_octstr R) (system_id e) name = 0) (esme_list g) of
        None \<Rightarrow> g
      | Some k \<Rightarrow>
          g\<lparr>esme_list := (esme_list g)[k :=
            (case s of
               Rx rx \<Rightarrow> map_rx (rx_session_id rx) (\<lambda>t. t\<lparr>rx_data_to_write := rx_data_to_write t @ [m]\<rparr>) (esme_list g ! k)
             | Tx tx \<Rightarrow> map_tx (tx_session_id tx) (\<lambda>t. t\<lparr>tx_data_to_write := tx_data_to_write t @ [m]\<rparr>) (esme_list g ! k))]\<rparr>)"

definition deliver_message :: "values_got \<Rightarrow> msg_deliver" where
  "deliver_message v =
     \<lparr> md_smsc_id = vg_dest_addr v, md_smsc_msg_id = vg_smsc_msg_id v, md_account_msg_id = vg_account_msg_id v, md_os = vg_pdu v \<rparr>"

definition handle_admin :: "control_env \<Rightarrow> int \<Rightarrow> octstr \<Rightarrow> control \<Rightarrow> control" where
  "handle_admin C command conn_id ct =
     (let ct1 = (if command = 1 then ct\<lparr>ct_conn_id := Some conn_id\<rparr> else ct)
      in if command = admin_cmd_dbbox_disconnected C
         then ct1\<lparr>ct_server := (ct_server ct1)\<lparr>dbbox_connected_to_client := 0\<rparr>\<rparr>
         else if command = admin_cmd_dbbox_connected C
         then ct1\<lparr>ct_server := (ct_server ct1)\<lparr>dbbox_connected_to_client := 1\<rparr>\<rparr>
         else ct1)"

definition handle_info_smsc :: "control_env \<Rightarrow> smsc_conn \<Rightarrow> control \<Rightarrow> control" where
  "handle_info_smsc C msg ct =
     (let S = ct_server ct; X = reg_octstr (ce_reg C) in
      if smsc_data_received ct < total_smsc ct - 1
      then ct\<lparr>smsc_data_received := smsc_data_received ct + 1,
              ct_server := S\<lparr>sv_smscs := prepare_smsc_list (ce_smscs C) msg (sv_smscs S)\<rparr>\<rparr>
      else (let smscs = update_smsc_list X msg (sv_smscs S)
            in ct\<lparr>ct_server := S\<lparr>sv_smscs := smscs\<rparr>,
                  ct_reg := update_esme_conn (ce_reg C) (sv_translations S) smscs (ct_reg ct)\<rparr>))"

definition handle_deliver :: "control_env \<Rightarrow> deliver_req \<Rightarrow> control \<Rightarrow> control option" where
  "handle_deliver C d ct =
     (case dbbox_client (ct_server ct) of None \<Rightarrow> None
      | Some db \<Rightarrow>
          if process_connected db
          then (let key = c_string (dr_smsc_msg_id d) @ c_string (dr_dest_addr d)
                in map_option (\<lambda>(pending, destroyed). ct\<lparr>pending_deliver_sm := pending\<rparr>)
                     (dict_put (reg_octstr (ce_reg C)) (ce_items C) (pending_deliver_sm ct) key (Some (dr_pdu d))))
          else Some ct)"

definition handle_values_got :: "control_env \<Rightarrow> (nat \<Rightarrow> nat) \<Rightarrow> values_got \<Rightarrow> control \<Rightarrow> control" where
  "handle_values_got C rand v ct =
     (if vg_result v = 1
      then (case extract_esme (ce_reg C) rand (vg_account_name v) (ct_reg ct) of
              (None, mode) \<Rightarrow> ct
            | (Some s, mode) \<Rightarrow>
                ct\<lparr>ct_reg := queue_message (ce_reg C) (vg_account_name v) s (deliver_message v) (ct_reg ct)\<rparr>)
      else ct)"

definition handle_request :: "control_env \<Rightarrow> (nat \<Rightarrow> nat) \<Rightarrow> request \<Rightarrow> control \<Rightarrow> control option" where
  "handle_request C rand msg ct =
     (if program_status (ct_server ct) \<noteq> PROGRAM_RUNNING then Some ct
      else case msg of
        Admin command conn_id \<Rightarrow> Some (handle_admin C command conn_id ct)
      | No_of_smsc n \<Rightarrow>
          Some (ct\<lparr>total_smsc := n, smsc_data_received := -1, ct_server := (ct_server ct)\<lparr>sv_smscs := smsc_init\<rparr>\<rparr>)
      | Info_smsc s \<Rightarrow> Some (handle_info_smsc C s ct)
      | Global_q_msg limit \<Rightarrow> Some (ct\<lparr>ct_server := (ct_server ct)\<lparr>global_q_limit := limit\<rparr>\<rparr>)
      | Deliver_req d \<Rightarrow> handle_deliver C d ct
      | Values_got v \<Rightarrow> Some (handle_values_got C rand v ct)
      | Other_request \<Rightarrow> Some ct)"

text \<open>A sequence of requests; \<open>rand\<close> gives the random numbers for each of them.\<close>

fun handle_requests :: "control_env \<Rightarrow> (nat \<Rightarrow> nat) \<Rightarrow> request list \<Rightarrow> control \<Rightarrow> control option" where
  "handle_requests C rand [] ct = Some ct"
| "handle_requests C rand (m # ms) ct =
     (case handle_request C rand m ct of None \<Rightarrow> None | Some ct' \<Rightarrow> handle_requests C rand ms ct')"

section \<open>Shutdown\<close>

text \<open>
  The messages in the queue to the SMSC process are reported as rejected, through the database process when the SMSC process
  is not connected, and only in the log otherwise; then the queue to the database process, these
  reports included, is written to the log when that process is not connected.  \<open>unpack\<close> reads a packed \<^verbatim>\<open>submit_sm\<close>.
\<close>

fun save_forward_q ::
    "submit_env \<Rightarrow> (octstr \<Rightarrow> submit_sm option) \<Rightarrow> server \<Rightarrow> process_client \<Rightarrow> conn_msg list \<Rightarrow> effect list option" where
  "save_forward_q E unpack S fwd [] = Some []"
| "save_forward_q E unpack S fwd (Submit_msg m # q) =
     (case unpack (octstr_from_position (ops E) (sm_pdu m) 4) of None \<Rightarrow> None
      | Some pdu \<Rightarrow>
          map_option ((@) (if \<not> process_connected fwd
              then mis_db_insert E S (sm_account_name m) (sm_account_msg_id m) pdu 0x408 (sm_account_name m)
              else [Logged (Submit_msg m)]))
            (save_forward_q E unpack S fwd q))"
| "save_forward_q E unpack S fwd (m # q) = save_forward_q E unpack S fwd q"

fun to_dbbox :: "effect list \<Rightarrow> conn_msg list" where
  "to_dbbox [] = []"
| "to_dbbox (To_dbbox m # effs) = m # to_dbbox effs"
| "to_dbbox (eff # effs) = to_dbbox effs"

definition save_dbbox_q_msgs ::
    "submit_env \<Rightarrow> (octstr \<Rightarrow> submit_sm option) \<Rightarrow> server \<Rightarrow> conn_msg list \<Rightarrow> conn_msg list \<Rightarrow> effect list option" where
  "save_dbbox_q_msgs E unpack S forward_q dbbox_q =
     (case forward_client S of None \<Rightarrow> Some []
      | Some fwd \<Rightarrow>
         (case save_forward_q E unpack S fwd forward_q of None \<Rightarrow> None
          | Some effs \<Rightarrow>
              (let q = dbbox_q @ to_dbbox effs
               in Some (effs @ (case dbbox_client S of None \<Rightarrow> []
                    | Some db \<Rightarrow>
                        if \<not> process_connected db \<and> length q > 0
                        then concat (map (\<lambda>m. case m of Submit_msg _ \<Rightarrow> [] | _ \<Rightarrow> send_msg_dbbox_server S m 1) q)
                        else [])))))"

definition quit :: "server \<Rightarrow> server" where
  "quit S = S\<lparr>program_status := PROGRAM_DEAD\<rparr>"

section \<open>The list of SMSCs\<close>

lemma prepare_smsc_append: "gwlist_spec G \<Longrightarrow> prepare_smsc_list G m smscs = smscs @ [m]"
  by (simp add: prepare_smsc_list_def smsc_conn_create_def gw_simps)

lemma infos_collected:
  assumes C: "control_spec C"
  shows "program_status (ct_server ct) = PROGRAM_RUNNING \<Longrightarrow> smsc_data_received ct + int (length ms) \<le> total_smsc ct - 1 \<Longrightarrow>
    handle_requests C rand (map Info_smsc ms) ct =
      Some (ct\<lparr>smsc_data_received := smsc_data_received ct + int (length ms),
               ct_server := (ct_server ct)\<lparr>sv_smscs := sv_smscs (ct_server ct) @ ms\<rparr>\<rparr>)"
proof (induction ms arbitrary: ct)
  case (Cons m ms)
  let ?ct = "ct\<lparr>smsc_data_received := smsc_data_received ct + 1,
       ct_server := (ct_server ct)\<lparr>sv_smscs := sv_smscs (ct_server ct) @ [m]\<rparr>\<rparr>"
  have "handle_request C rand (Info_smsc m) ct = Some ?ct"
    using Cons.prems C by (simp add: handle_request_def handle_info_smsc_def Let_def control_spec_def prepare_smsc_append)
  moreover have "handle_requests C rand (map Info_smsc ms) ?ct =
      Some (?ct\<lparr>smsc_data_received := smsc_data_received ?ct + int (length ms),
               ct_server := (ct_server ?ct)\<lparr>sv_smscs := sv_smscs (ct_server ?ct) @ ms\<rparr>\<rparr>)"
    by (rule Cons.IH) (use Cons.prems in auto)
  ultimately show ?case by (simp add: algebra_simps)
qed simp

text \<open>
  After the SMSC process has announced a number of SMSCs and described that many, the server has exactly these, in this order,
  whatever it had before, and the sessions are as they were; every later description only sets the status of the first SMSC with its id
  and brings the status of the sessions into line.
\<close>

theorem smsc_list_protocol:
  assumes C: "control_spec C" and run: "program_status (ct_server ct) = PROGRAM_RUNNING"
  shows "\<exists>ct'. handle_requests C rand (No_of_smsc (int (length ms)) # map Info_smsc ms) ct = Some ct' \<and>
    sv_smscs (ct_server ct') = ms \<and> ct_reg ct' = ct_reg ct \<and>
    (\<exists>ct''. handle_request C rand (Info_smsc m) ct' = Some ct'' \<and>
       sv_smscs (ct_server ct'') = update_smsc_list (reg_octstr (ce_reg C)) m ms \<and>
       ct_reg ct'' = update_esme_conn (ce_reg C) (sv_translations (ct_server ct)) (sv_smscs (ct_server ct'')) (ct_reg ct))"
proof -
  let ?ct = "ct\<lparr>total_smsc := int (length ms), smsc_data_received := -1, ct_server := (ct_server ct)\<lparr>sv_smscs := []\<rparr>\<rparr>"
  have "handle_request C rand (No_of_smsc (int (length ms))) ct = Some ?ct"
    using run by (simp add: handle_request_def smsc_init_def)
  moreover have "handle_requests C rand (map Info_smsc ms) ?ct =
      Some (?ct\<lparr>smsc_data_received := -1 + int (length ms), ct_server := (ct_server ?ct)\<lparr>sv_smscs := ms\<rparr>\<rparr>)"
    using infos_collected [OF C, of ?ct ms rand] run by simp
  ultimately show ?thesis using run by (simp add: handle_request_def handle_info_smsc_def Let_def)
qed

definition sample_control_env :: control_env where
  "sample_control_env = \<lparr> ce_reg = reg_ref, ce_smscs = gwlist_ref, ce_items = gwlist_ref,
     admin_cmd_dbbox_disconnected = 5, admin_cmd_dbbox_connected = 6 \<rparr>"

definition sample_control :: control where
  "sample_control = \<lparr> ct_server = sample_server, ct_reg = esme_init, total_smsc = -1, smsc_data_received = -1,
     pending_deliver_sm = dict_create 100 False, ct_conn_id = None \<rparr>"

lemma sample_control_spec: "control_spec sample_control_env" "program_status (ct_server sample_control) = PROGRAM_RUNNING"
  by (simp_all add: control_spec_def sample_control_env_def sample_control_def sample_server_def)

theorem smsc_list_protocol_witness:
  "\<exists>ct'. handle_requests sample_control_env (\<lambda>_. 0) (No_of_smsc 4 # map Info_smsc sample_smscs) sample_control = Some ct' \<and>
     sv_smscs (ct_server ct') = sample_smscs"
proof -
  have "int (length sample_smscs) = 4" by (simp add: sample_smscs_def)
  with smsc_list_protocol [OF sample_control_spec, where ms = sample_smscs and rand = "\<lambda>_. 0"] show ?thesis by auto
qed

section \<open>Messages waiting for their account\<close>

lemma handle_request_pending:
  assumes C: "control_spec C" and inv: "dict_inv (reg_octstr (ce_reg C)) (pending_deliver_sm ct)"
    and h: "handle_request C rand m ct = Some ct'"
  shows "dict_inv (reg_octstr (ce_reg C)) (pending_deliver_sm ct') \<and>
    set (dict_keys (pending_deliver_sm ct)) \<subseteq> set (dict_keys (pending_deliver_sm ct'))"
proof (cases "\<exists>d. m = Deliver_req d \<and> pending_deliver_sm ct' \<noteq> pending_deliver_sm ct")
  case False
  then have "pending_deliver_sm ct' = pending_deliver_sm ct"
    using h by (auto simp: handle_request_def handle_admin_def handle_info_smsc_def handle_values_got_def Let_def
        split: if_splits request.splits prod.splits option.splits)
  with inv show ?thesis by simp
next
  case True
  then obtain d where d: "m = Deliver_req d" "pending_deliver_sm ct' \<noteq> pending_deliver_sm ct" by blast
  let ?key = "c_string (dr_smsc_msg_id d) @ c_string (dr_dest_addr d)"
  have X: "octstr_spec (reg_octstr (ce_reg C))" "gwlist_spec (ce_items C)" using C by (simp_all add: control_spec_def reg_spec_def)
  obtain q destroyed where q: "dict_put (reg_octstr (ce_reg C)) (ce_items C) (pending_deliver_sm ct) ?key (Some (dr_pdu d)) = Some (q, destroyed)"
    "dict_inv (reg_octstr (ce_reg C)) q" "dict_map (reg_octstr (ce_reg C)) q = (dict_map (reg_octstr (ce_reg C)) (pending_deliver_sm ct))(?key \<mapsto> dr_pdu d)"
    using dict_put_map [OF X inv, of ?key "dr_pdu d"] by blast
  have "pending_deliver_sm ct' = q"
    using h d q(1) by (auto simp: handle_request_def handle_deliver_def Let_def split: if_splits option.splits)
  with q(2,3) dict_keys_dom(1) [OF inv] dict_keys_dom(1) [OF q(2)] show ?thesis by auto
qed

text \<open>
  No request ever takes a message out of the dictionary of waiting messages, not even the one that delivers it: whatever
  requests are handled, every key that was in it stays.
\<close>

theorem pending_never_shrinks:
  assumes C: "control_spec C" and inv: "dict_inv (reg_octstr (ce_reg C)) (pending_deliver_sm ct)"
    and h: "handle_requests C rand ms ct = Some ct'"
  shows "set (dict_keys (pending_deliver_sm ct)) \<subseteq> set (dict_keys (pending_deliver_sm ct'))"
  using inv h
proof (induction ms arbitrary: ct)
  case (Cons m ms)
  from Cons.prems(2) obtain ct1 where ct1: "handle_request C rand m ct = Some ct1" "handle_requests C rand ms ct1 = Some ct'"
    by (auto split: option.splits)
  from handle_request_pending [OF C Cons.prems(1) ct1(1)] Cons.IH [OF _ ct1(2)] show ?case by blast
qed simp

definition sample_deliver_req :: deliver_req where
  "sample_deliver_req = \<lparr> dr_smsc_id = ''s0'', dr_smsc_msg_id = ''0A1B'', dr_dest_addr = ''919812345678'', dr_pdu = ''pdu'' \<rparr>"

definition sample_values :: values_got where
  "sample_values = \<lparr> vg_result = 1, vg_account_name = ''acme'', vg_account_msg_id = ''77'', vg_smsc_msg_id = ''0A1B'',
     vg_dest_addr = ''919812345678'', vg_pdu = ''XXXXreceipt'' \<rparr>"

theorem pending_never_shrinks_witness:
  "\<exists>ct1 ct2. handle_request sample_control_env (\<lambda>_. 0) (Deliver_req sample_deliver_req) sample_control = Some ct1 \<and>
     handle_requests sample_control_env (\<lambda>_. 0) [Values_got sample_values] ct1 = Some ct2 \<and>
     set (dict_keys (pending_deliver_sm ct1)) \<subseteq> set (dict_keys (pending_deliver_sm ct2)) \<and> dict_keys (pending_deliver_sm ct1) \<noteq> []"
proof -
  let ?X = "reg_octstr (ce_reg sample_control_env)"
  have i: "dict_inv ?X (pending_deliver_sm sample_control)"
    by (simp add: sample_control_def sample_control_env_def dict_create_inv)
  have "map_option (\<lambda>ct. dict_keys (pending_deliver_sm ct))
      (handle_request sample_control_env (\<lambda>_. 0) (Deliver_req sample_deliver_req) sample_control) = Some [''0A1B919812345678'']"
    by code_simp
  then obtain ct1 where ct1: "handle_request sample_control_env (\<lambda>_. 0) (Deliver_req sample_deliver_req) sample_control = Some ct1"
    "dict_keys (pending_deliver_sm ct1) = [''0A1B919812345678'']" by auto
  have i1: "dict_inv ?X (pending_deliver_sm ct1)" using handle_request_pending [OF sample_control_spec(1) i ct1(1)] by blast
  obtain ct2 where ct2: "handle_requests sample_control_env (\<lambda>_. 0) [Values_got sample_values] ct1 = Some ct2"
    by (cases "program_status (ct_server ct1) = PROGRAM_RUNNING") (simp_all add: handle_request_def)
  have "dict_keys (pending_deliver_sm ct1) \<noteq> []" using ct1(2) by simp
  with pending_never_shrinks [OF sample_control_spec(1) i1 ct2] ct1(1) ct2 show ?thesis by blast
qed

section \<open>Messages for a session\<close>

lemma map_rx_eq:
  assumes "distinct (map rx_session_id (rx_esme e))" "s \<in> set (rx_esme e)"
  shows "find_rx e (rx_session_id s) = Some s"
    and "find_rx (map_rx (rx_session_id s) (\<lambda>t. t\<lparr>rx_data_to_write := q t\<rparr>) e) i =
      (if i = rx_session_id s then Some (s\<lparr>rx_data_to_write := q s\<rparr>) else find_rx e i)"
proof -
  let ?f = "\<lambda>t. t\<lparr>rx_data_to_write := q t\<rparr>"
  show f: "find_rx e (rx_session_id s) = Some s"
  proof -
    obtain s' where s': "find_rx e (rx_session_id s) = Some s'"
      using assms(2) by (cases "find_rx e (rx_session_id s)") (auto simp: find_rx_def find_None_iff)
    then have "s' \<in> set (rx_esme e)" "rx_session_id s' = rx_session_id s" by (auto simp: find_rx_def find_Some_iff)
    with assms s' show ?thesis by (auto simp: distinct_map inj_on_def)
  qed
  have other: "List.find (\<lambda>t. rx_session_id t = i) (l[k := x]) = List.find (\<lambda>t. rx_session_id t = i) l"
    if "k < length l" "rx_session_id (l ! k) \<noteq> i" "rx_session_id x \<noteq> i" for l k and x :: esme_rx
    using that by (induction l arbitrary: k) (auto simp: less_Suc_eq_0_disj split: nat.splits)
  show "find_rx (map_rx (rx_session_id s) ?f e) i =
      (if i = rx_session_id s then Some (s\<lparr>rx_data_to_write := q s\<rparr>) else find_rx e i)"
  proof (cases "i = rx_session_id s")
    case True
    with f find_map_rx [of "rx_session_id s" ?f e] show ?thesis by simp
  next
    case False
    obtain k where k: "first_pos (\<lambda>t. rx_session_id t = rx_session_id s) (rx_esme e) = Some k"
      using f by (auto simp: find_rx_def find_first_pos split: option.splits)
    from first_pos_SomeD [OF k] False k show ?thesis by (auto simp: map_rx_def find_rx_def other)
  qed
qed

text \<open>
  When the database process names the account of a message and that account has a receiver session, the message is put at the
  end of the queue of exactly one of its receiver sessions; every other session of the account and every other account stays as it is.
\<close>

theorem delivery_queued_once:
  assumes C: "control_spec C" and g: "reg_inv (ct_reg ct)" and run: "program_status (ct_server ct) = PROGRAM_RUNNING"
    and v: "vg_result v = 1" and e: "e \<in> set (esme_list (ct_reg ct))" "system_id e = vg_account_name v" "rx_esme e \<noteq> []"
  shows "\<exists>ct' s e'. handle_request C rand (Values_got v) ct = Some ct' \<and> s \<in> set (rx_esme e) \<and>
    set (esme_list (ct_reg ct')) = insert e' (set (esme_list (ct_reg ct)) - {e}) \<and> tx_esme e' = tx_esme e \<and>
    (\<forall>i. find_rx e' i = (if i = rx_session_id s
       then Some (s\<lparr>rx_data_to_write := rx_data_to_write s @ [deliver_message v]\<rparr>) else find_rx e i))"
proof -
  let ?R = "ce_reg C" and ?g = "ct_reg ct"
  have X: "octstr_spec (reg_octstr ?R)" using C by (simp add: control_spec_def reg_spec_def)
  have p: "(\<lambda>e. octstr_compare (reg_octstr ?R) (system_id e) (vg_account_name v) = 0) = (\<lambda>e. system_id e = vg_account_name v)"
    using X by (auto simp: gw_simps)
  obtain k where k: "k < length (esme_list ?g)" "esme_list ?g ! k = e" using e(1) by (auto simp: in_set_conv_nth)
  have fk: "first_pos (\<lambda>e. system_id e = vg_account_name v) (esme_list ?g) = Some k"
    using first_pos_key [of system_id "esme_list ?g" k] g k e(2) by (auto simp: reg_inv_def)
  define s where "s = rx_esme e ! (rand 0 mod length (rx_esme e))"
  have s: "s \<in> set (rx_esme e)" using e(3) by (simp add: s_def)
  have "extract_esme ?R rand (vg_account_name v) ?g = (Some (Rx s), 2)"
    using fk k e(3) by (simp add: extract_esme_def p find_first_pos s_def)
  then have h: "handle_request C rand (Values_got v) ct = Some (ct\<lparr>ct_reg := queue_message ?R (vg_account_name v) (Rx s) (deliver_message v) ?g\<rparr>)"
    using run v by (simp add: handle_request_def handle_values_got_def)
  let ?e = "map_rx (rx_session_id s) (\<lambda>t. t\<lparr>rx_data_to_write := rx_data_to_write t @ [deliver_message v]\<rparr>) e"
  have "esme_list (queue_message ?R (vg_account_name v) (Rx s) (deliver_message v) ?g) = (esme_list ?g)[k := ?e]"
    using fk k by (simp add: queue_message_def p)
  then have l: "set (esme_list (queue_message ?R (vg_account_name v) (Rx s) (deliver_message v) ?g)) = insert ?e (set (esme_list ?g) - {e})"
    using set_update_distinct [OF reg_inv_distinct [OF g] k(1)] k(2) by simp
  have "esme_ok e" using g e(1) by (simp add: reg_inv_def)
  then have d: "distinct (map rx_session_id (rx_esme e))" by (simp add: esme_ok_def ids_ok_def)
  have "tx_esme ?e = tx_esme e" by (simp add: map_rx_def split: option.splits)
  with h l s map_rx_eq(2) [OF d s, of "\<lambda>t. rx_data_to_write t @ [deliver_message v]"] show ?thesis by fastforce
qed

definition receiver_esme :: esme where
  "receiver_esme = open_esme\<lparr>rx_esme := [sample_rx]\<rparr>"

definition receiver_control :: control where
  "receiver_control = sample_control\<lparr>ct_reg := \<lparr> esme_list = [receiver_esme], next_ref = 1 \<rparr>\<rparr>"

theorem delivery_queued_once_witness:
  "\<exists>ct' e'. handle_request sample_control_env (\<lambda>_. 0) (Values_got sample_values) receiver_control = Some ct' \<and>
     set (esme_list (ct_reg ct')) = {e'} \<and> map_option (length \<circ> rx_data_to_write) (find_rx e' 1) = Some 2"
proof -
  have g: "reg_inv (ct_reg receiver_control)"
    by (simp add: receiver_control_def receiver_esme_def reg_inv_def esme_ok_def ids_ok_def open_esme_def sample_tx_def sample_rx_def)
  have r: "program_status (ct_server receiver_control) = PROGRAM_RUNNING" using sample_control_spec(2) by (simp add: receiver_control_def)
  have e: "receiver_esme \<in> set (esme_list (ct_reg receiver_control))" "system_id receiver_esme = vg_account_name sample_values"
    "rx_esme receiver_esme \<noteq> []" "vg_result sample_values = 1" "set (esme_list (ct_reg receiver_control)) = {receiver_esme}"
    "rx_esme receiver_esme = [sample_rx]" "length (rx_data_to_write sample_rx) = 1" "rx_session_id sample_rx = 1"
    by (simp_all add: receiver_control_def receiver_esme_def open_esme_def sample_values_def sample_rx_def)
  from delivery_queued_once [OF sample_control_spec(1) g r e(4,1,2,3), of "\<lambda>_. 0"] show ?thesis
    using e(5-8) by fastforce
qed

section \<open>Nothing is lost at shutdown\<close>

fun submits :: "conn_msg list \<Rightarrow> submit_msg list" where
  "submits [] = []"
| "submits (Submit_msg m # q) = m # submits q"
| "submits (_ # q) = submits q"

fun mis_rows :: "conn_msg list \<Rightarrow> mis_msg list" where
  "mis_rows [] = []"
| "mis_rows (Mis_msg m # q) = m # mis_rows q"
| "mis_rows (_ # q) = mis_rows q"

fun logged_reports :: "effect list \<Rightarrow> mis_msg list" where
  "logged_reports [] = []"
| "logged_reports (Logged (Mis_msg m) # effs) = m # logged_reports effs"
| "logged_reports (_ # effs) = logged_reports effs"

lemma logged_reports_append [simp]: "logged_reports (a @ b) = logged_reports a @ logged_reports b"
  by (induction a rule: logged_reports.induct) auto

lemma mis_rows_append [simp]: "mis_rows (a @ b) = mis_rows a @ mis_rows b"
  by (induction a rule: mis_rows.induct) auto

lemma logged_queue:
  "logged_reports (concat (map (\<lambda>m. case m of Submit_msg _ \<Rightarrow> [] | _ \<Rightarrow> send_msg_dbbox_server S m 1) q)) = mis_rows q"
  by (induction q rule: mis_rows.induct) (auto simp: send_msg_dbbox_server_def)

lemma save_forward_reports:
  assumes d: "dbbox_client S \<noteq> None" and f: "\<not> process_connected fwd"
  shows "\<forall>m \<in> set (submits q). unpack (octstr_from_position (ops E) (sm_pdu m) 4) \<noteq> None \<Longrightarrow>
    \<exists>effs. save_forward_q E unpack S fwd q = Some effs \<and> logged_reports effs = [] \<and>
      map (\<lambda>r. (mm_account_msg_id r, mm_submit_status r, mm_ip r)) (mis_rows (to_dbbox effs)) =
        map (\<lambda>m. (sm_account_msg_id m, 0x408, sm_account_name m)) (submits q)"
  using d f by (induction q rule: submits.induct) (auto simp: mis_db_insert_def send_msg_dbbox_server_def)

text \<open>
  When the server is shut down while neither the SMSC process nor the database process is connected, no message is lost without
  a trace: the log gets one report for every message that waits for the SMSC process, in order, with its message id and the status of a
  shutdown, after the reports that were waiting already.  The field for the address of the client holds the name of the account.
\<close>

theorem shutdown_reports_all:
  assumes f: "forward_client S = Some fwd" "\<not> process_connected fwd" and d: "dbbox_client S = Some db" "\<not> process_connected db"
    and u: "\<forall>m \<in> set (submits forward_q). unpack (octstr_from_position (ops E) (sm_pdu m) 4) \<noteq> None"
  shows "\<exists>effs reports. save_dbbox_q_msgs E unpack S forward_q dbbox_q = Some effs \<and>
    logged_reports effs = mis_rows dbbox_q @ reports \<and>
    map (\<lambda>r. (mm_account_msg_id r, mm_submit_status r, mm_ip r)) reports =
      map (\<lambda>m. (sm_account_msg_id m, 0x408, sm_account_name m)) (submits forward_q)"
proof -
  have "dbbox_client S \<noteq> None" using d(1) by simp
  from save_forward_reports [OF this f(2) u] obtain effs where e: "save_forward_q E unpack S fwd forward_q = Some effs"
    "logged_reports effs = []" "map (\<lambda>r. (mm_account_msg_id r, mm_submit_status r, mm_ip r)) (mis_rows (to_dbbox effs)) =
        map (\<lambda>m. (sm_account_msg_id m, 0x408, sm_account_name m)) (submits forward_q)" by blast
  show ?thesis
  proof (cases "dbbox_q @ to_dbbox effs = []")
    case True
    with e f d show ?thesis by (auto simp: save_dbbox_q_msgs_def Let_def)
  next
    case False
    then have "save_dbbox_q_msgs E unpack S forward_q dbbox_q =
        Some (effs @ concat (map (\<lambda>m. case m of Submit_msg _ \<Rightarrow> [] | _ \<Rightarrow> send_msg_dbbox_server S m 1) (dbbox_q @ to_dbbox effs)))"
      using e f d by (auto simp: save_dbbox_q_msgs_def Let_def)
    then show ?thesis using e(2,3) logged_queue [of S "dbbox_q @ to_dbbox effs"] by (auto simp del: map_append concat_append)
  qed
qed

definition sample_submit_msg :: submit_msg where
  "sample_submit_msg = \<lparr> sm_preferred_smsc = [], sm_allowed_smsc = [], sm_req_time = [], sm_account_name = ''acme'', sm_account_msg_id = ''9'',
     sm_destination_addr = ''9812345678'', sm_source_addr = ''SHOP'', sm_pdu = ''XXXXpdu'', sm_ip = ''10.0.0.1'' \<rparr>"

definition down_server :: server where
  "down_server = sample_server\<lparr>forward_client := Some \<lparr> process_connected = False, send_list_len = 1 \<rparr>,
     dbbox_client := Some \<lparr> process_connected = False, send_list_len = 0 \<rparr>\<rparr>"

theorem shutdown_reports_all_witness:
  "\<exists>effs. save_dbbox_q_msgs sample_submit_env (\<lambda>_. Some sample_pdu) down_server [Submit_msg sample_submit_msg] [] = Some effs \<and>
     map mm_ip (logged_reports effs) = [''acme'']"
proof -
  have c: "forward_client down_server = Some \<lparr> process_connected = False, send_list_len = 1 \<rparr>"
    "dbbox_client down_server = Some \<lparr> process_connected = False, send_list_len = 0 \<rparr>"
    "sm_account_name sample_submit_msg = ''acme''" by (simp_all add: down_server_def sample_submit_msg_def)
  from shutdown_reports_all [OF c(1) _ c(2), of "[Submit_msg sample_submit_msg]" "\<lambda>_. Some sample_pdu" sample_submit_env "[]"] c(3)
  show ?thesis by auto
qed

end
