(* ===== verification/Charset.thy ===== *)
theory Charset
  imports Prelude
begin

text \<open>
  \<^verbatim>\<open>gwlib/charset.c\<close>: the conversions between ISO Latin 1 and the GSM default alphabet, which the SMSC process applies to
  the texts it sends and the database process to the texts it stores, the two conversions of the German national
  variant, and the truncation of a GSM text.  The functions change an octet string in place; the model passes the string,
  the position and the length the loop keeps, and \<open>None\<close> is a failed assertion or a read outside a table.  The
  conversions through \<^verbatim>\<open>libxml\<close> and \<^verbatim>\<open>iconv\<close> only call those libraries and are not modelled.
\<close>

section \<open>Tables\<close>

definition gsm_to_latin1 :: "int list" where
  "gsm_to_latin1 =
    [64, 163, 36, 165, 232, 233, 249, 236, 242, 199, 10, 216, 248, 13, 197, 229,
     63, 95, 63, 63, 63, 63, 63, 63, 63, 63, 63, 32, 198, 230, 223, 201,
     32, 33, 34, 35, 164, 37, 38, 39, 40, 41, 42, 43, 44, 45, 46, 47,
     48, 49, 50, 51, 52, 53, 54, 55, 56, 57, 58, 59, 60, 61, 62, 63,
     161, 65, 66, 67, 68, 69, 70, 71, 72, 73, 74, 75, 76, 77, 78, 79,
     80, 81, 82, 83, 84, 85, 86, 87, 88, 89, 90, 196, 214, 209, 220, 167,
     191, 97, 98, 99, 100, 101, 102, 103, 104, 105, 106, 107, 108, 109, 110, 111,
     112, 113, 114, 115, 116, 117, 118, 119, 120, 121, 122, 228, 246, 241, 252, 224]"

definition latin1_to_gsm :: "int list" where
  "latin1_to_gsm =
    [63, 63, 63, 63, 63, 63, 63, 63, 63, 32, 10, 63, -10, 13, 63, 63,
     16, 63, 18, 19, 20, 21, 22, 23, 24, 25, 26, 63, 63, 63, 63, 63,
     32, 33, 34, 35, 2, 37, 38, 39, 40, 41, 42, 43, 44, 45, 46, 47,
     48, 49, 50, 51, 52, 53, 54, 55, 56, 57, 58, 59, 60, 61, 62, 63,
     0, 65, 66, 67, 68, 69, 70, 71, 72, 73, 74, 75, 76, 77, 78, 79,
     80, 81, 82, 83, 84, 85, 86, 87, 88, 89, 90, -60, -47, -62, -20, 17,
     63, 97, 98, 99, 100, 101, 102, 103, 104, 105, 106, 107, 108, 109, 110, 111,
     112, 113, 114, 115, 116, 117, 118, 119, 120, 121, 122, -40, -64, -41, -61, 63,
     -101, 63, 63, 63, 63, 63, 63, 63, 63, 63, 63, 63, 63, 63, 63, 63,
     63, 63, 63, 63, 63, 63, 63, 63, 63, 63, 63, 63, 63, 63, 63, 63,
     32, 64, 99, 1, 36, 3, 64, 95, 34, 67, 97, 60, 33, 45, 82, 45,
     111, 63, 50, 51, 39, 117, 63, 46, 44, 105, 111, 62, 63, 63, 63, 96,
     65, 65, 65, 65, 91, 14, 28, 9, 69, 31, 69, 69, 73, 73, 73, 73,
     63, 93, 79, 79, 79, 79, 92, 120, 11, 85, 85, 85, 94, 89, 63, 30,
     127, 97, 97, 97, 123, 15, 29, 99, 4, 5, 101, 101, 7, 105, 105, 105,
     63, 125, 8, 111, 111, 111, 124, 63, 12, 6, 117, 117, 126, 121, 63, 121]"

text \<open>The escape table ends with a negative entry, at which the search stops.\<close>

definition gsm_escapes :: "(int \<times> int) list" where
  "gsm_escapes =
     [(10, 12), (20, 94), (40, 123), (41, 125), (47, 92), (60, 91), (61, 126), (62, 93), (64, 124), (101, 128), (-1, -1)]"

section \<open>Parameters\<close>

text \<open>The operations of the octet string library that change a string in place, beside those of the prelude.\<close>

record octstr_edit =
  octstr_set_char :: "octstr \<Rightarrow> nat \<Rightarrow> int \<Rightarrow> octstr"
  octstr_insert_data :: "octstr \<Rightarrow> nat \<Rightarrow> octstr \<Rightarrow> octstr"
  octstr_truncate :: "octstr \<Rightarrow> int \<Rightarrow> octstr"

definition octstr_edit_spec :: "octstr_edit \<Rightarrow> bool" where
  "octstr_edit_spec Y \<longleftrightarrow>
     (\<forall>s i c. i < length s \<longrightarrow> octstr_set_char Y s i c = s[i := char_of c]) \<and>
     (\<forall>s i d. i \<le> length s \<longrightarrow> octstr_insert_data Y s i d = take i s @ d @ drop i s) \<and>
     (\<forall>s n. octstr_truncate Y s n = take (nat n) s)"

definition octstr_edit_ref :: octstr_edit where
  "octstr_edit_ref =
     \<lparr> octstr_set_char = (\<lambda>s i c. s[i := char_of c]), octstr_insert_data = (\<lambda>s i d. take i s @ d @ drop i s),
       octstr_truncate = (\<lambda>s n. take (nat n) s) \<rparr>"

section \<open>Conversions\<close>

definition table_read :: "int list \<Rightarrow> int \<Rightarrow> int option" where
  "table_read t c = (if 0 \<le> c \<and> c < int (length t) then Some (t ! nat c) else None)"

text \<open>\<^verbatim>\<open>if (new != c) octstr_set_char(ostr, pos, new)\<close>.\<close>

definition store_char :: "octstr_edit \<Rightarrow> octstr \<Rightarrow> nat \<Rightarrow> int \<Rightarrow> int \<Rightarrow> octstr" where
  "store_char Y ostr pos c new = (if new \<noteq> c then octstr_set_char Y ostr pos new else ostr)"

fun find_escape :: "(int \<times> int) list \<Rightarrow> int \<Rightarrow> int \<times> int" where
  "find_escape [] c = (-1, -1)"
| "find_escape ((g, l) # es) c = (if g < 0 \<or> g = c then (g, l) else find_escape es c)"

function gsm_to_latin1_loop :: "octstr_ops \<Rightarrow> octstr_edit \<Rightarrow> octstr \<Rightarrow> nat \<Rightarrow> nat \<Rightarrow> octstr option" where
  "gsm_to_latin1_loop X Y ostr pos len =
     (if pos < len
      then
        let c = octstr_get_char X ostr pos in
        if c = 27 \<and> pos + 1 < len
        then
          let ostr1 = octstr_delete X ostr pos 1; len1 = len - 1; c1 = octstr_get_char X ostr1 pos;
              e = find_escape gsm_escapes c1
          in if fst e = c1 then gsm_to_latin1_loop X Y (store_char Y ostr1 pos c1 (snd e)) (pos + 1) len1
             else if c1 < 128
             then (case table_read gsm_to_latin1 c1 of None \<Rightarrow> None
                   | Some new \<Rightarrow> gsm_to_latin1_loop X Y (store_char Y ostr1 pos c1 new) (pos + 1) len1)
             else gsm_to_latin1_loop X Y ostr1 (pos + 1) len1
        else if c < 128
        then (case table_read gsm_to_latin1 c of None \<Rightarrow> None
              | Some new \<Rightarrow> gsm_to_latin1_loop X Y (store_char Y ostr pos c new) (pos + 1) len)
        else gsm_to_latin1_loop X Y ostr (pos + 1) len
      else Some ostr)"
  by pat_completeness auto
termination by (relation "measure (\<lambda>(X, Y, ostr, pos, len). len - pos)") auto

definition charset_gsm_to_latin1 :: "octstr_ops \<Rightarrow> octstr_edit \<Rightarrow> octstr \<Rightarrow> octstr option" where
  "charset_gsm_to_latin1 X Y ostr = gsm_to_latin1_loop X Y ostr 0 (length ostr)"

function latin1_to_gsm_loop :: "octstr_ops \<Rightarrow> octstr_edit \<Rightarrow> octstr \<Rightarrow> nat \<Rightarrow> nat \<Rightarrow> octstr option" where
  "latin1_to_gsm_loop X Y ostr pos len =
     (if pos < len
      then
        let c = octstr_get_char X ostr pos in
        if c < 0 \<or> c > 256 then None
        else (case table_read latin1_to_gsm c of None \<Rightarrow> None
              | Some new \<Rightarrow>
                  if new < 0
                  then latin1_to_gsm_loop X Y
                         (store_char Y (octstr_insert_data Y ostr pos [char_of (27 :: int)]) (pos + 1) c (- new)) (pos + 2) (len + 1)
                  else latin1_to_gsm_loop X Y (store_char Y ostr pos c new) (pos + 1) len)
      else Some ostr)"
  by pat_completeness auto
termination by (relation "measure (\<lambda>(X, Y, ostr, pos, len). len - pos)") auto

definition charset_latin1_to_gsm :: "octstr_ops \<Rightarrow> octstr_edit \<Rightarrow> octstr \<Rightarrow> octstr option" where
  "charset_latin1_to_gsm X Y ostr = latin1_to_gsm_loop X Y ostr 0 (length ostr)"

text \<open>
  The variant for a text that starts with a user data header, whose first octet is the length of the rest of the header.  The
  length is an \<^verbatim>\<open>unsigned short\<close>, so that the -1 of an empty string becomes 65535.
\<close>

definition charset_latin1_to_gsm_new :: "octstr_ops \<Rightarrow> octstr_edit \<Rightarrow> octstr \<Rightarrow> octstr option" where
  "charset_latin1_to_gsm_new X Y ostr =
     (let ushUdhLength = nat (octstr_get_char X ostr 0 mod 2 ^ 16)
      in latin1_to_gsm_loop X Y ostr (ushUdhLength + 1) (length ostr))"

definition gsm_to_nrc :: "int \<Rightarrow> int" where
  "gsm_to_nrc c =
     (if c = 0x5b then 0x5b else if c = 0x5c then 0x5c else if c = 0x5e then 0x5d else if c = 0x7b then 0x7b
      else if c = 0x7c then 0x7c else if c = 0x7e then 0x7d else if c = 0x1e then 0x7e else if c = 0x5f then 0x5e else c)"

definition nrc_to_gsm :: "int \<Rightarrow> int" where
  "nrc_to_gsm c =
     (if c = 0x5b then 0x5b else if c = 0x5c then 0x5c else if c = 0x5d then 0x5e else if c = 0x7b then 0x7b
      else if c = 0x7c then 0x7c else if c = 0x7d then 0x7e else if c = 0x7e then 0x1e else if c = 0x5e then 0x5f else c)"

function replace_loop :: "octstr_ops \<Rightarrow> octstr_edit \<Rightarrow> (int \<Rightarrow> int) \<Rightarrow> octstr \<Rightarrow> nat \<Rightarrow> nat \<Rightarrow> octstr" where
  "replace_loop X Y f ostr pos len =
     (if pos < len
      then let c = octstr_get_char X ostr pos in replace_loop X Y f (store_char Y ostr pos c (f c)) (pos + 1) len
      else ostr)"
  by pat_completeness auto
termination by (relation "measure (\<lambda>(X, Y, f, ostr, pos, len). len - pos)") auto

definition charset_gsm_to_nrc_iso_21_german :: "octstr_ops \<Rightarrow> octstr_edit \<Rightarrow> octstr \<Rightarrow> octstr" where
  "charset_gsm_to_nrc_iso_21_german X Y ostr = replace_loop X Y gsm_to_nrc ostr 0 (length ostr)"

definition charset_nrc_iso_21_german_to_gsm :: "octstr_ops \<Rightarrow> octstr_edit \<Rightarrow> octstr \<Rightarrow> octstr" where
  "charset_nrc_iso_21_german_to_gsm X Y ostr = replace_loop X Y nrc_to_gsm ostr 0 (length ostr)"

text \<open>The octet read at \<^verbatim>\<open>max - 1\<close> is -1 when \<^verbatim>\<open>max\<close> is not positive.\<close>

definition charset_gsm_truncate :: "octstr_ops \<Rightarrow> octstr_edit \<Rightarrow> octstr \<Rightarrow> int \<Rightarrow> int \<times> octstr" where
  "charset_gsm_truncate X Y gsm maxlen =
     (if int (length gsm) > maxlen
      then if (if maxlen \<ge> 1 then octstr_get_char X gsm (nat (maxlen - 1)) else -1) = 27
           then (1, octstr_truncate Y gsm (maxlen - 1))
           else (1, octstr_truncate Y gsm maxlen)
      else (0, gsm))"

section \<open>What the loops compute\<close>

definition enc :: "char \<Rightarrow> octstr" where
  "enc c = (let n = latin1_to_gsm ! of_char c in if n < 0 then [char_of (27 :: int), char_of (- n)] else [char_of n])"

definition encode :: "octstr \<Rightarrow> octstr" where
  "encode s = concat (map enc s)"

text \<open>The character after an escape, and an unescaped one.\<close>

definition dec_esc :: "char \<Rightarrow> char" where
  "dec_esc c = (let e = find_escape gsm_escapes (of_char c) in
     if fst e = of_char c then char_of (snd e)
     else if (of_char c :: int) < 128 then char_of (gsm_to_latin1 ! of_char c) else c)"

definition dec :: "char \<Rightarrow> char" where
  "dec c = (if (of_char c :: int) < 128 then char_of (gsm_to_latin1 ! of_char c) else c)"

fun decode :: "octstr \<Rightarrow> octstr" where
  "decode [] = []"
| "decode [c] = [dec c]"
| "decode (c # d # s) = (if (of_char c :: int) = 27 then dec_esc d # decode s else dec c # decode (d # s))"

text \<open>The octets of Latin 1 that the GSM alphabet has a character for.\<close>

definition representable :: "char \<Rightarrow> bool" where
  "representable c \<longleftrightarrow> (let n = latin1_to_gsm ! of_char c in n < 0 \<or> gsm_to_latin1 ! nat n = of_char c)"

text \<open>A GSM text: seven-bit octets in which an escape is followed by a character that is not an escape.\<close>

fun gsm_text :: "octstr \<Rightarrow> bool" where
  "gsm_text [] = True"
| "gsm_text [c] = ((of_char c :: int) < 128 \<and> (of_char c :: int) \<noteq> 27)"
| "gsm_text (c # d # s) =
     ((of_char c :: int) < 128 \<and>
      (if (of_char c :: int) = 27 then (of_char d :: int) < 128 \<and> (of_char d :: int) \<noteq> 27 \<and> gsm_text s else gsm_text (d # s)))"

subsection \<open>Facts of the tables\<close>

lemma latin1_to_gsm_range:
  "list_all (\<lambda>n. - 128 < n \<and> n < 128 \<and> n \<noteq> 27 \<and> n \<noteq> - 27) latin1_to_gsm"
  by (simp add: latin1_to_gsm_def)

lemma tables_inverse:
  "list_all (\<lambda>(c, n). if n < 0 then find_escape gsm_escapes (- n) = (- n, c) else True)
     (zip (map int [0..<256]) latin1_to_gsm)"
  by code_simp

lemma table_lengths [simp]: "length latin1_to_gsm = 256" "length gsm_to_latin1 = 128"
  by (simp_all add: latin1_to_gsm_def gsm_to_latin1_def)

lemma gsm_to_latin1_range: "list_all (\<lambda>n. 0 \<le> n \<and> n < 256) gsm_to_latin1"
  by (simp add: gsm_to_latin1_def)

lemma gsm_escapes_range: "list_all (\<lambda>(g, l). g < 128 \<and> l < 256) gsm_escapes"
  by (simp add: gsm_escapes_def)

lemma octet_bound: "(of_char c :: nat) < 256"
  using range_nat_of_char by (metis atLeastLessThan_iff rangeI)

lemma octet_of_int: "0 \<le> n \<Longrightarrow> n < 256 \<Longrightarrow> (of_char (char_of n) :: int) = n"
  by (simp add: of_char_of)

lemma nat_octet [simp]: "nat (of_char c :: int) = of_char c"
  by (simp add: of_char_int)

lemma octet_int_bounds [simp]: "0 \<le> (of_char c :: int)" "(of_char c :: int) < 256"
  using octet_bound [of c] by (simp_all add: of_char_int)

lemma gsm_code:
  assumes "n = latin1_to_gsm ! of_char c"
  shows "- 128 < n" "n < 128" "n \<noteq> 27" "n \<noteq> - 27"
  using latin1_to_gsm_range octet_bound [of c] assms by (auto simp: list_all_length)

lemma gsm_code_escaped:
  assumes "latin1_to_gsm ! of_char c < 0"
  shows "find_escape gsm_escapes (- (latin1_to_gsm ! of_char c)) = (- (latin1_to_gsm ! of_char c), of_char c)"
  using tables_inverse octet_bound [of c] assms by (auto simp: list_all_length of_char_int)

lemma read_latin1_to_gsm [simp]: "table_read latin1_to_gsm (of_char c) = Some (latin1_to_gsm ! of_char c)"
  using octet_bound [of c] by (simp add: table_read_def)

lemma store_char_eq:
  assumes "octstr_edit_spec Y" "i < length s" "of_char (s ! i) = c"
  shows "store_char Y s i c new = s[i := char_of new]"
proof (cases "new = c")
  case True
  have "s[i := char_of (of_char (s ! i) :: int)] = s" by simp
  then show ?thesis using True assms(3) by (simp add: store_char_def del: char_of_char)
next
  case False
  then show ?thesis using assms by (simp add: store_char_def octstr_edit_spec_def)
qed

subsection \<open>Latin 1 to GSM\<close>

declare latin1_to_gsm_loop.simps [simp del] gsm_to_latin1_loop.simps [simp del] replace_loop.simps [simp del]

lemma encode_simps [simp]: "encode [] = []" "encode (c # s) = enc c @ encode s" "encode (s @ t) = encode s @ encode t"
  by (simp_all add: encode_def)

lemma latin1_to_gsm_loop_eq:
  assumes X: "octstr_spec X" and Y: "octstr_edit_spec Y"
  shows "latin1_to_gsm_loop X Y (p @ t) (length p) (length p + length t) = Some (p @ encode t)"
proof (induction t arbitrary: p)
  case Nil
  then show ?case by (simp add: latin1_to_gsm_loop.simps)
next
  case (Cons c t)
  define n where "n = latin1_to_gsm ! of_char c"
  show ?case
  proof (cases "n < 0")
    case True
    have "store_char Y (p @ char_of (27 :: int) # c # t) (length p + 1) (of_char c) (- n) =
        (p @ char_of (27 :: int) # c # t)[length p + 1 := char_of (- n)]"
      by (rule store_char_eq [OF Y]) (simp_all add: nth_append)
    then have "store_char Y (octstr_insert_data Y (p @ c # t) (length p) [char_of (27 :: int)]) (length p + 1) (of_char c) (- n) =
        (p @ [char_of (27 :: int), char_of (- n)]) @ t"
      using Y by (simp add: octstr_edit_spec_def list_update_append)
    then show ?thesis
      using True Cons.IH [of "p @ [char_of (27 :: int), char_of (- n)]"] X
      by (subst latin1_to_gsm_loop.simps)
        (simp add: octstr_get_char_spec n_def enc_def Let_def not_less less_imp_le)
  next
    case False
    have "store_char Y (p @ c # t) (length p) (of_char c) n = (p @ c # t)[length p := char_of n]"
      by (rule store_char_eq [OF Y]) (simp_all add: nth_append)
    then have "store_char Y (p @ c # t) (length p) (of_char c) n = (p @ [char_of n]) @ t"
      by (simp add: list_update_append)
    then show ?thesis
      using False Cons.IH [of "p @ [char_of n]"] X
      by (subst latin1_to_gsm_loop.simps)
        (simp add: octstr_get_char_spec n_def enc_def Let_def not_less less_imp_le)
  qed
qed

lemma charset_latin1_to_gsm_encode:
  "octstr_spec X \<Longrightarrow> octstr_edit_spec Y \<Longrightarrow> charset_latin1_to_gsm X Y s = Some (encode s)"
  using latin1_to_gsm_loop_eq [of X Y "[]" s] by (simp add: charset_latin1_to_gsm_def)

lemma gsm_text_enc: "gsm_text t \<Longrightarrow> gsm_text (enc c @ t)"
proof -
  assume t: "gsm_text t"
  define n where "n = latin1_to_gsm ! of_char c"
  note b = gsm_code [OF n_def]
  show ?thesis
    using b t by (cases t) (auto simp: enc_def Let_def octet_of_int simp flip: n_def)
qed

lemma gsm_text_encode: "gsm_text (encode s)"
  by (induction s) (simp_all add: gsm_text_enc)

subsection \<open>GSM to Latin 1\<close>

lemma dec_eq: "octstr_edit_spec Y \<Longrightarrow> (of_char c :: int) < 128 \<Longrightarrow>
    store_char Y (p @ c # t) (length p) (of_char c) (gsm_to_latin1 ! of_char c) = (p @ [dec c]) @ t"
  by (subst store_char_eq) (simp_all add: list_update_append dec_def)

lemma read_gsm_to_latin1: "(of_char c :: int) < 128 \<Longrightarrow> table_read gsm_to_latin1 (of_char c) = Some (gsm_to_latin1 ! of_char c)"
  by (simp add: table_read_def)

lemma gsm_to_latin1_loop_eq:
  assumes X: "octstr_spec X" and Y: "octstr_edit_spec Y"
  shows "gsm_to_latin1_loop X Y (p @ t) (length p) (length p + length t) = Some (p @ decode t)"
proof (induction t arbitrary: p rule: decode.induct)
  case 1
  then show ?case by (simp add: gsm_to_latin1_loop.simps)
next
  case (2 c)
  have e: "gsm_to_latin1_loop X Y q (Suc n) (Suc n) = Some q" for q n by (simp add: gsm_to_latin1_loop.simps)
  show ?case
    using X Y dec_eq [OF Y, of c p "[]"]
    by (subst gsm_to_latin1_loop.simps) (simp add: octstr_get_char_spec e read_gsm_to_latin1 dec_def)
next
  case (3 c d s)
  show ?case
  proof (cases "(of_char c :: int) = 27")
    case True
    have st: "store_char Y (p @ d # s) (length p) (of_char d) v = (p @ [char_of v]) @ s" for v
      by (subst store_char_eq [OF Y]) (simp_all add: list_update_append)
    show ?thesis
      using True "3.IH"(1) [OF True, of "p @ [dec_esc d]"] X Y
      by (subst gsm_to_latin1_loop.simps)
        (auto simp: octstr_get_char_spec octstr_delete_spec nth_append Let_def dec_esc_def st read_gsm_to_latin1)
  next
    case False
    show ?thesis
      using False "3.IH"(2) [OF False, of "p @ [dec c]"] X dec_eq [OF Y, of c p "d # s"]
      by (subst gsm_to_latin1_loop.simps) (auto simp: octstr_get_char_spec read_gsm_to_latin1 dec_def)
  qed
qed

lemma charset_gsm_to_latin1_decode:
  "octstr_spec X \<Longrightarrow> octstr_edit_spec Y \<Longrightarrow> charset_gsm_to_latin1 X Y s = Some (decode s)"
  using gsm_to_latin1_loop_eq [of X Y "[]" s] by (simp add: charset_gsm_to_latin1_def)

subsection \<open>There and back\<close>

lemma decode_Cons: "(of_char c :: int) \<noteq> 27 \<Longrightarrow> decode (c # s) = dec c # decode s"
  by (cases s) auto

lemma decode_enc: "representable c \<Longrightarrow> decode (enc c @ t) = c # decode t"
proof -
  assume r: "representable c"
  define n where "n = latin1_to_gsm ! of_char c"
  note b = gsm_code [OF n_def]
  show ?thesis
  proof (cases "n < 0")
    case True
    with gsm_code_escaped [of c] b show ?thesis
      by (simp add: enc_def dec_esc_def Let_def octet_of_int flip: n_def)
  next
    case False
    then have "gsm_to_latin1 ! nat n = of_char c" using r by (simp add: representable_def flip: n_def)
    moreover have "nat n = of_char (char_of n :: char)" using False b octet_of_int [of n] by (simp add: of_char_int)
    ultimately show ?thesis
      using False b by (simp add: enc_def Let_def decode_Cons dec_def octet_of_int flip: n_def)
  qed
qed

lemma decode_encode: "list_all representable s \<Longrightarrow> decode (encode s) = s"
  by (induction s) (simp_all add: decode_enc)

definition trunc :: "nat \<Rightarrow> octstr \<Rightarrow> octstr" where
  "trunc m t = (if m < length t then if 1 \<le> m \<and> (of_char (t ! (m - 1)) :: int) = 27 then take (m - 1) t else take m t else t)"

lemma trunc_enc:
  assumes "length (enc c) \<le> m"
  shows "trunc m (enc c @ t) = enc c @ trunc (m - length (enc c)) t"
proof -
  define n where "n = latin1_to_gsm ! of_char c"
  note b = gsm_code [OF n_def]
  have last: "(of_char (last (enc c)) :: int) \<noteq> 27" "enc c \<noteq> []"
    using b by (auto simp: enc_def Let_def octet_of_int simp flip: n_def)
  show ?thesis
  proof (cases "m = length (enc c)")
    case True
    have "(enc c @ t) ! (length (enc c) - 1) = last (enc c)"
      using last(2) by (simp add: nth_append last_conv_nth)
    then show ?thesis using True last by (simp add: trunc_def)
  next
    case False
    have i: "(enc c @ t) ! (m - 1) = t ! (m - length (enc c) - 1)" "m - 1 - length (enc c) = m - length (enc c) - 1"
      using False assms by (auto simp: nth_append)
    show ?thesis using False assms i by (auto simp: trunc_def)
  qed
qed

lemma trunc_enc_short:
  assumes "m < length (enc c)"
  shows "trunc m (enc c @ t) = []"
proof -
  define n where "n = latin1_to_gsm ! of_char c"
  show ?thesis
    using assms by (auto simp: trunc_def enc_def Let_def octet_of_int less_Suc_eq split: if_splits simp flip: n_def)
qed

lemma trunc_encode:
  "\<exists>k \<le> length s. trunc m (encode s) = encode (take k s) \<and>
     (k < length s \<longrightarrow> m < length (encode (take (Suc k) s)))"
proof (induction s arbitrary: m)
  case Nil
  then show ?case by (simp add: trunc_def)
next
  case (Cons c s)
  show ?case
  proof (cases "length (enc c) \<le> m")
    case True
    obtain k where "k \<le> length s" "trunc (m - length (enc c)) (encode s) = encode (take k s)"
        "k < length s \<longrightarrow> m - length (enc c) < length (encode (take (Suc k) s))"
      using Cons.IH by blast
    then show ?thesis using True trunc_enc [OF True] by (intro exI [of _ "Suc k"]) auto
  next
    case False
    then show ?thesis using trunc_enc_short [of m c "encode s"] by (intro exI [of _ 0]) auto
  qed
qed

lemma length_trunc: "length (trunc m t) \<le> m"
  by (auto simp: trunc_def)

lemma charset_gsm_truncate_trunc:
  assumes "octstr_spec X" "octstr_edit_spec Y"
  shows "charset_gsm_truncate X Y t (int m) = (if m < length t then 1 else 0, trunc m t)"
proof -
  have n: "nat (int m - 1) = m - 1" by simp
  show ?thesis
    using assms by (auto simp: charset_gsm_truncate_def trunc_def octstr_get_char_spec octstr_edit_spec_def n of_char_int)
qed

lemma octstr_edit_ref_spec [simp, intro!]: "octstr_edit_spec octstr_edit_ref"
  by (simp add: octstr_edit_spec_def octstr_edit_ref_def)

section \<open>Properties\<close>



text \<open>
  C39: whatever the text, also one with octets that have no GSM character, the conversion yields a GSM text: every octet
  has seven bits, and every escape is followed by a character that is not an escape.
\<close>

theorem charset_latin1_to_gsm_type:
  assumes "octstr_spec X" "octstr_edit_spec Y"
  shows "\<exists>t. charset_latin1_to_gsm X Y s = Some t \<and> gsm_text t"
  using assms by (simp add: charset_latin1_to_gsm_encode gsm_text_encode)

theorem charset_latin1_to_gsm_type_witness:
  "\<exists>t. charset_latin1_to_gsm octstr_ref octstr_edit_ref [CHR 0x1B, CHR 0xFE, CHR ''['', CHR 0x1B] = Some t \<and> gsm_text t"
  by (rule charset_latin1_to_gsm_type) (rule octstr_ref_spec octstr_edit_ref_spec)+

text \<open>
  A text with a user data header keeps its header, octet by octet, and only the text after it is converted; and a
  text that is all header, or whose header claims more octets than there are, is left as it is.
\<close>

theorem charset_latin1_to_gsm_new_header:
  assumes X: "octstr_spec X" and Y: "octstr_edit_spec Y"
    and h: "s = udh # rest" "n = (of_char udh :: nat)"
  shows "charset_latin1_to_gsm_new X Y s =
      (if n \<le> length rest then map_option (\<lambda>t. udh # take n rest @ t) (charset_latin1_to_gsm X Y (drop n rest)) else Some s)"
proof -
  have "int (of_char udh) mod 65536 = int (of_char udh)"
    using octet_bound [of udh] by (intro mod_pos_pos_trivial) linarith+
  then have l: "octstr_get_char X s 0 mod 65536 = int n"
    using X h by (simp add: octstr_get_char_spec of_char_int)
  show ?thesis
  proof (cases "n \<le> length rest")
    case True
    then have "s = (udh # take n rest) @ drop n rest" "length (udh # take n rest) = n + 1"
      "length s = length (udh # take n rest) + length (drop n rest)" using h by auto
    then show ?thesis
      using True l latin1_to_gsm_loop_eq [OF X Y, of "udh # take n rest" "drop n rest"]
      by (simp add: charset_latin1_to_gsm_new_def charset_latin1_to_gsm_encode [OF X Y])
  next
    case False
    then show ?thesis using l h(1) by (simp add: charset_latin1_to_gsm_new_def latin1_to_gsm_loop.simps)
  qed
qed

theorem charset_latin1_to_gsm_new_header_witness:
  "charset_latin1_to_gsm_new octstr_ref octstr_edit_ref (CHR 0x02 # ''$[$'') =
     map_option (\<lambda>t. CHR 0x02 # ''$['' @ t) (charset_latin1_to_gsm octstr_ref octstr_edit_ref ''$'')"
  using charset_latin1_to_gsm_new_header [OF octstr_ref_spec octstr_edit_ref_spec refl refl, of "CHR 0x02" "''$[$''"]
  by simp

text \<open>
  Truncating a converted text to at most a number of octets never cuts an escaped character in two: what is left is the
  conversion of a prefix of the text, the longest one that fits.
\<close>

theorem charset_gsm_truncate_prefix:
  assumes X: "octstr_spec X" and Y: "octstr_edit_spec Y" and t: "charset_latin1_to_gsm X Y s = Some t"
  shows "\<exists>k r u. k \<le> length s \<and> charset_gsm_truncate X Y t (int m) = (r, u) \<and> (r = 1 \<longleftrightarrow> m < length t) \<and> length u \<le> m \<and>
     charset_latin1_to_gsm X Y (take k s) = Some u \<and>
     (k < length s \<longrightarrow> (\<exists>v. charset_latin1_to_gsm X Y (take (Suc k) s) = Some v \<and> m < length v))"
proof -
  note e = charset_latin1_to_gsm_encode [OF X Y]
  from t have "t = encode s" by (simp add: e)
  moreover obtain k where "k \<le> length s" "trunc m (encode s) = encode (take k s)"
      "k < length s \<longrightarrow> m < length (encode (take (Suc k) s))"
    using trunc_encode by blast
  ultimately show ?thesis
    using length_trunc [of m t] by (intro exI [of _ k]) (simp add: e charset_gsm_truncate_trunc [OF X Y])
qed

theorem charset_gsm_truncate_prefix_witness:
  "charset_latin1_to_gsm octstr_ref octstr_edit_ref ''a{b'' = Some (map char_of [97, 27, 40, 98 :: int]) \<and>
   charset_gsm_truncate octstr_ref octstr_edit_ref (map char_of [97, 27, 40, 98 :: int]) (int 2) = (1, ''a'') \<and>
   (\<exists>k r u. k \<le> length ''a{b'' \<and>
      charset_gsm_truncate octstr_ref octstr_edit_ref (map char_of [97, 27, 40, 98 :: int]) (int 2) = (r, u) \<and>
      charset_latin1_to_gsm octstr_ref octstr_edit_ref (take k ''a{b'') = Some u)"
proof -
  have e: "charset_latin1_to_gsm octstr_ref octstr_edit_ref ''a{b'' = Some (map char_of [97, 27, 40, 98 :: int])"
    using charset_latin1_to_gsm_encode [OF octstr_ref_spec octstr_edit_ref_spec]
    by (simp add: enc_def latin1_to_gsm_def Let_def)
  have t: "charset_gsm_truncate octstr_ref octstr_edit_ref (map char_of [97, 27, 40, 98 :: int]) (int 2) = (1, ''a'')"
    by code_simp
  show ?thesis
    using e t charset_gsm_truncate_prefix [OF octstr_ref_spec octstr_edit_ref_spec e, of 2] by blast
qed

end
