(* ===== verification/Smscconn.thy ===== *)
theory Smscconn
  imports Counter Dict Charset
begin

text \<open>
  \<^verbatim>\<open>smpp-smsc/smscconn.c\<close>, \<^verbatim>\<open>msg.c\<close> and the parts of \<^verbatim>\<open>smpp_smsc.c\<close> and \<^verbatim>\<open>smsc.c\<close> they call: the messages of the SMSC process, the
  connections to the message centres of the operators with the queues and tables each of them keeps, what happens to a
  message that was sent or that failed, and the messages to the database process and to the ESME process.  The pointers
  \<^verbatim>\<open>sm_info\<close> and \<^verbatim>\<open>routing_info\<close> of a message are set by \<^verbatim>\<open>msg_create\<close>, the only function that makes a message, and
  cleared by none, so the structures are part of the message.  \<open>None\<close> is a null pointer that is followed, a position
  outside a list or an array, or a panic.  A lock makes what it protects one step; the readings of the clock are arguments.
\<close>

unbundle bit_operations_syntax

section \<open>Messages\<close>

datatype msg_state = MSG_NOT_ROUTED | MSG_NOT_SENT | MSG_SENT_NORESP | MSG_SENT_RESP

record sm_info =
  i_pdu :: "octstr option"
  i_account_name :: "octstr option"
  i_account_msg_id :: "octstr option"
  i_req_time :: "octstr option"
  i_client_ip :: "octstr option"

text \<open>The fields of \<^verbatim>\<open>struct forward_queue_data\<close> that the process reads; the two arrays end with -1.\<close>

record routing_info =
  r_source_addr :: octstr
  r_destination_addr :: octstr
  r_preferred_smsc :: "int list"
  r_allowed_smsc :: "int list"
  r_data_coding :: int
  r_esm_class :: int
  r_more_messages_to_send :: int
  r_content :: "octstr option"

record msg =
  sm_info :: sm_info
  routing_info :: routing_info
  m_retries :: int
  m_state :: msg_state
  m_retry_time :: int
  m_failed_smsc_id :: "octstr option"

text \<open>The structure is filled in by the caller; the octets \<^verbatim>\<open>msg_create\<close> leaves uninitialised are the argument.\<close>

definition msg_create :: "routing_info \<Rightarrow> msg" where
  "msg_create uninit =
     \<lparr> sm_info = \<lparr> i_pdu = None, i_account_name = None, i_account_msg_id = None, i_req_time = None, i_client_ip = None \<rparr>,
       routing_info = uninit, m_retries = 0, m_state = MSG_NOT_ROUTED, m_retry_time = 0, m_failed_smsc_id = None \<rparr>"

text \<open>The copy has fresh strings; a null string is copied as one.\<close>

definition msg_duplicate :: "msg \<Rightarrow> msg" where
  "msg_duplicate m =
     (let new = msg_create (routing_info m) in
      new\<lparr> sm_info := (sm_info new)\<lparr> i_pdu := i_pdu (sm_info m), i_account_name := i_account_name (sm_info m),
             i_account_msg_id := i_account_msg_id (sm_info m), i_req_time := i_req_time (sm_info m),
             i_client_ip := i_client_ip (sm_info m) \<rparr>,
           routing_info := routing_info m, m_state := m_state m, m_retries := m_retries m, m_retry_time := m_retry_time m,
           m_failed_smsc_id := (if m_failed_smsc_id m \<noteq> None then m_failed_smsc_id m else m_failed_smsc_id new) \<rparr>)"

text \<open>The PDUs of the process: what it submits, with the fields it reads or sets.\<close>

record submit_pdu =
  p_sequence_number :: ulong
  p_service_type :: "octstr option"
  p_source_addr_ton :: int
  p_source_addr_npi :: int
  p_source_addr :: "octstr option"
  p_dest_addr_ton :: int
  p_dest_addr_npi :: int
  p_destination_addr :: "octstr option"
  p_esm_class :: int
  p_priority_flag :: int
  p_registered_delivery :: int
  p_data_coding :: int
  p_sm_length :: int
  p_short_message :: "octstr option"
  p_more_messages_to_send :: int
  p_user_response_code :: int

text \<open>Any other PDU that a client's octets may hold, with its sequence number.\<close>

datatype sent_pdu = Submit_sm_pdu submit_pdu | Some_pdu ulong octstr

section \<open>Connections\<close>

datatype conn_status =
    SMSCCONN_CONNECTING | SMSCCONN_ACTIVE | SMSCCONN_ACTIVE_RECV | SMSCCONN_RECONNECTING | SMSCCONN_DISCONNECTED | SMSCCONN_DEAD

datatype killed =
    SMSCCONN_ALIVE | SMSCCONN_KILLED_WRONG_PASSWORD | SMSCCONN_KILLED_CANNOT_CONNECT | SMSCCONN_KILLED_SHUTDOWN

datatype failure =
    SMSCCONN_SUCCESS | SMSCCONN_FAILED_SHUTDOWN | SMSCCONN_FAILED_REJECTED | SMSCCONN_FAILED_MALFORMED
  | SMSCCONN_FAILED_TEMPORARILY | SMSCCONN_FAILED_DISCARDED | SMSCCONN_FAILED_QFULL

record smpp_msg =
  sent_time :: int
  sent_msg :: msg

text \<open>
  \<^verbatim>\<open>SMPP\<close> of \<^verbatim>\<open>smsc_smpp.c\<close>, the \<^verbatim>\<open>data\<close> of a connection: the messages waiting to be sent, those sent and waiting for a response, by
  their sequence number, the counter the sequence numbers come from, and the settings.
\<close>

record smpp =
  msgs_to_send :: "msg list"
  sent_msgs :: "smpp_msg dict"
  message_id_counter :: counter
  s_quitting :: bool
  throttling_err_time :: int
  s_system_type :: "octstr option"
  s_username :: octstr
  s_password :: octstr
  s_address_range :: "octstr option"
  s_service_type :: "octstr option"
  masking_prefix :: "octstr option"
  s_source_addr_ton :: int
  s_source_addr_npi :: int
  s_dest_addr_ton :: int
  s_dest_addr_npi :: int
  s_bind_addr_ton :: int
  s_bind_addr_npi :: int
  enquire_link_interval :: int
  max_pending_submits :: int
  s_version :: int
  s_priority :: int
  smpp_msg_id_type :: int
  alt_charset :: "octstr option"
  connection_timeout :: int
  wait_ack :: int
  wait_ack_action :: int
  deliver_sm_source :: int

record smscconn =
  c_status :: conn_status
  c_load :: int
  c_bind_sent :: int
  c_why_killed :: killed
  c_connect_time :: int
  c_received :: counter
  c_sent :: counter
  c_failed :: counter
  c_is_stopped :: bool
  c_id :: octstr
  c_allowed_prefix :: "octstr option"
  c_denied_prefix :: "octstr option"
  c_allowed_prefix_regex :: "octstr option"
  c_denied_prefix_regex :: "octstr option"
  c_smsc_type :: octstr
  c_mode :: int
  c_data :: smpp

section \<open>The process\<close>

datatype client_status = CLIENT_RUNNING | CLIENT_SUSPENDED | CLIENT_SHUTDOWN | CLIENT_DEAD | CLIENT_FULL

text \<open>The messages to the database process, and those to the ESME process on the reverse port.\<close>

record insert_mis =
  im_account_name :: "octstr option"
  im_account_msg_id :: "octstr option"
  im_req_time :: "octstr option"
  im_smsc_id :: octstr
  im_smsc_msg_id :: octstr
  im_source_addr :: "octstr option"
  im_dest_addr :: "octstr option"
  im_submit_status :: int
  im_esm_class :: int
  im_message_len :: int
  im_msg_content :: "octstr option"
  im_retry_value :: int
  im_ip :: "octstr option"

record insert_status =
  is_smsc_id :: octstr
  is_smsc_msg_id :: "octstr option"
  is_dest_addr :: "octstr option"
  is_deliver_status :: int
  is_pdu :: octstr

datatype db_msg = Insert_mis insert_mis | Insert_status insert_status

record info_smsc =
  is_id :: octstr
  is_type :: octstr
  is_conn_status :: int
  is_conn_mode :: int

datatype reverse_msg = Global_q_msg int | No_of_smsc int | Info_smsc info_smsc

text \<open>
  The globals of the process.  \<open>dbbox_client\<close> says whether the database process is connected and holds the list of messages for it;
  \<open>list_readers\<close> counts the read locks of \<^verbatim>\<open>smsc_list_lock\<close> that the operations have taken and not released.  \<open>dropped\<close> are the messages for it that were only written to the log.  \<open>reverse_clients\<close> has, for every client of the reverse port, the messages sent to it.
\<close>

record client =
  outgoing_msg :: "msg list"
  smsc_list :: "smscconn list"
  list_readers :: nat
  smsc_running :: bool
  client_status :: client_status
  outgoing_msg_counter :: counter
  incoming_msg_counter :: counter
  global_q_min :: int
  global_q_max :: int
  max_retry_limit :: int
  max_msg_duration :: int
  dbbox_client :: "(bool \<times> db_msg list) option"
  dbbox_q_limit :: int
  dropped :: "db_msg list"
  reverse_clients :: "reverse_msg list list"

text \<open>
  What the process calls outside the repository: the octet string and list functions, the matching of prefixes and patterns, the
  test of a number, the packing and unpacking of a \<^verbatim>\<open>submit_sm\<close>, and the formatting of an \<^verbatim>\<open>unsigned long\<close>.
\<close>

record client_ops =
  x_ops :: octstr_ops
  x_edit :: octstr_edit
  x_msgs :: "msg gwlist_ops"
  x_items :: "smpp_msg item gwlist_ops"
  gwlist_produce :: "msg list \<Rightarrow> msg \<Rightarrow> msg list"
  prefix_match :: "octstr \<Rightarrow> octstr \<Rightarrow> int"
  gw_regex_match_pre :: "octstr \<Rightarrow> octstr \<Rightarrow> int"
  octstr_isnum :: "octstr \<Rightarrow> int"
  format_ulong :: "ulong \<Rightarrow> octstr"
  pdu_unpack :: "octstr \<Rightarrow> sent_pdu option"
  pdu_pack :: "sent_pdu \<Rightarrow> octstr option"

definition client_ops_spec :: "client_ops \<Rightarrow> bool" where
  "client_ops_spec E \<longleftrightarrow> octstr_spec (x_ops E) \<and> octstr_edit_spec (x_edit E) \<and> gwlist_spec (x_msgs E) \<and> gwlist_spec (x_items E) \<and>
     (\<forall>l m. gwlist_produce E l m = l @ [m]) \<and> inj (format_ulong E)"

section \<open>Messages to the other processes\<close>

text \<open>\<^verbatim>\<open>mode\<close> is 1 when the process writes the rest of the list to the log at the end of its shutdown.\<close>

definition send_msg_dbbox_server :: "db_msg \<Rightarrow> int \<Rightarrow> client \<Rightarrow> int \<times> client" where
  "send_msg_dbbox_server m mode C =
     (case dbbox_client C of
        None \<Rightarrow> (0, C)
      | Some (connected, send_list) \<Rightarrow>
          if mode = 1 \<or> (\<not> connected \<and> dbbox_q_limit C \<noteq> -1 \<and> int (length send_list) \<ge> dbbox_q_limit C)
          then (-1, C\<lparr>dropped := dropped C @ [m]\<rparr>)
          else (1, C\<lparr>dbbox_client := Some (connected, send_list @ [m])\<rparr>))"

definition send_msg_reverse_server :: "reverse_msg \<Rightarrow> client \<Rightarrow> int \<times> client" where
  "send_msg_reverse_server m C =
     (if client_status C \<noteq> CLIENT_RUNNING then (-1, C)
      else case reverse_clients C of
             [] \<Rightarrow> (-1, C)
           | r # rs \<Rightarrow> (0, C\<lparr>reverse_clients := (r @ [m]) # rs\<rparr>))"

text \<open>The PDU of a message, unpacked after its length field; the fields of another PDU are not those of a \<^verbatim>\<open>submit_sm\<close>.\<close>

definition unpacked :: "client_ops \<Rightarrow> msg \<Rightarrow> submit_pdu option" where
  "unpacked E m =
     (case i_pdu (sm_info m) of None \<Rightarrow> None
      | Some os \<Rightarrow>
          (case pdu_unpack E (octstr_from_position (x_ops E) os 4) of Some (Submit_sm_pdu p) \<Rightarrow> Some p | _ \<Rightarrow> None))"

definition mis_db_insert ::
    "octstr option \<Rightarrow> octstr option \<Rightarrow> octstr option \<Rightarrow> octstr option \<Rightarrow> octstr option \<Rightarrow> submit_pdu option \<Rightarrow> int \<Rightarrow> octstr option
     \<Rightarrow> client \<Rightarrow> client option" where
  "mis_db_insert acc acc_msg_id req_time smsc_id smsc_msg_id pdu submit_status ip C =
     (case pdu of None \<Rightarrow> None
      | Some p \<Rightarrow>
         Some (snd (send_msg_dbbox_server (Insert_mis
           \<lparr> im_account_name = acc, im_account_msg_id = acc_msg_id, im_req_time = req_time,
             im_smsc_id = (case smsc_id of None \<Rightarrow> [] | Some s \<Rightarrow> s), im_smsc_msg_id = (case smsc_msg_id of None \<Rightarrow> [] | Some s \<Rightarrow> s),
             im_source_addr = p_source_addr p, im_dest_addr = p_destination_addr p, im_submit_status = submit_status,
             im_esm_class = p_esm_class p,
             im_message_len = (case p_short_message p of None \<Rightarrow> 0 | Some s \<Rightarrow> int (length s)),
             im_msg_content = p_short_message p,
             im_retry_value = (if p_user_response_code p \<noteq> -1 then p_user_response_code p else 0), im_ip = ip \<rparr>) 0 C)))"

definition produce_outgoing_msg :: "client_ops \<Rightarrow> msg \<Rightarrow> client \<Rightarrow> client" where
  "produce_outgoing_msg E sms C =
     (let C1 = C\<lparr>outgoing_msg := gwlist_produce E (outgoing_msg C) sms\<rparr>
      in if global_q_max C1 \<noteq> -1 \<and> int (length (outgoing_msg C1)) \<ge> global_q_max C1
         then snd (send_msg_reverse_server (Global_q_msg 1) C1)
         else C1)"

section \<open>Operations of a connection\<close>

definition smscconn_start :: "smscconn \<Rightarrow> smscconn" where
  "smscconn_start conn =
     (if c_status conn = SMSCCONN_DEAD \<or> \<not> c_is_stopped conn then conn else conn\<lparr>c_is_stopped := False\<rparr>)"

definition smscconn_stop :: "smscconn \<Rightarrow> int \<times> smscconn" where
  "smscconn_stop conn =
     (if c_status conn = SMSCCONN_DEAD \<or> c_is_stopped conn \<or> c_why_killed conn \<noteq> SMSCCONN_ALIVE then (-1, conn)
      else (0, conn\<lparr>c_is_stopped := True\<rparr>))"

text \<open>A null \<^verbatim>\<open>pdu\<close> is followed for the line of the access log.\<close>

definition smscconn_sent :: "submit_pdu option \<Rightarrow> smscconn \<Rightarrow> client \<Rightarrow> (smscconn \<times> client) option" where
  "smscconn_sent pdu conn C =
     (case pdu of None \<Rightarrow> None
      | Some _ \<Rightarrow> Some (conn\<lparr>c_sent := snd (counter_increase (c_sent conn))\<rparr>,
                        C\<lparr>outgoing_msg_counter := snd (counter_increase (outgoing_msg_counter C))\<rparr>))"

definition mark_failed :: "smscconn \<Rightarrow> int \<Rightarrow> msg \<Rightarrow> msg" where
  "mark_failed conn time_now sms =
     sms\<lparr>m_retry_time := (if m_retry_time sms = 0 then time_now else m_retry_time sms), m_failed_smsc_id := Some (c_id conn)\<rparr>"

definition smscconn_send_failed :: "client_ops \<Rightarrow> int \<Rightarrow> msg \<Rightarrow> failure \<Rightarrow> smscconn \<Rightarrow> client \<Rightarrow> smscconn \<times> client" where
  "smscconn_send_failed E time_now sms reason conn C =
     (case reason of
        SMSCCONN_FAILED_TEMPORARILY \<Rightarrow> (conn, produce_outgoing_msg E (mark_failed conn time_now sms) C)
      | SMSCCONN_FAILED_SHUTDOWN \<Rightarrow> (conn, produce_outgoing_msg E (mark_failed conn time_now sms) C)
      | _ \<Rightarrow> (conn\<lparr>c_failed := snd (counter_increase (c_failed conn))\<rparr>, C))"

definition reset_smpp_counters :: "smscconn \<Rightarrow> smscconn" where
  "reset_smpp_counters conn =
     conn\<lparr>c_sent := snd (counter_set (c_sent conn) 0), c_received := snd (counter_set (c_received conn) 0),
          c_failed := snd (counter_set (c_failed conn) 0)\<rparr>"

text \<open>\<^verbatim>\<open>send_msg_cb\<close> of \<^verbatim>\<open>smsc_smpp.c\<close>, which \<^verbatim>\<open>conn->send_msg\<close> points to, and \<^verbatim>\<open>smscconn_send\<close>.\<close>

definition send_msg_cb :: "client_ops \<Rightarrow> smscconn \<Rightarrow> msg \<Rightarrow> int \<times> smscconn" where
  "send_msg_cb E conn m =
     (0, conn\<lparr>c_data := (c_data conn)\<lparr>msgs_to_send := gwlist_produce E (msgs_to_send (c_data conn)) (msg_duplicate m)\<rparr>,
              c_received := snd (counter_increase (c_received conn))\<rparr>)"

definition smscconn_send :: "client_ops \<Rightarrow> smscconn \<Rightarrow> msg \<Rightarrow> int \<times> smscconn" where
  "smscconn_send E conn m =
     (if c_status conn = SMSCCONN_DEAD \<or> c_why_killed conn \<noteq> SMSCCONN_ALIVE then (-1, conn) else send_msg_cb E conn m)"

text \<open>The tests of \<^verbatim>\<open>smscconn_usable\<close> on the prefixes, and those on the patterns, in their order.\<close>

definition prefix_refused :: "client_ops \<Rightarrow> octstr option \<Rightarrow> octstr option \<Rightarrow> octstr \<Rightarrow> bool" where
  "prefix_refused E allowed denied receiver \<longleftrightarrow>
     (case (allowed, denied) of
        (Some a, None) \<Rightarrow> prefix_match E a receiver \<noteq> 1
      | (None, Some d) \<Rightarrow> prefix_match E d receiver = 1
      | (Some a, Some d) \<Rightarrow>
          prefix_match E a receiver = 1 \<and> prefix_match E d receiver = 1 \<or> prefix_match E a receiver \<noteq> 1 \<and> prefix_match E d receiver = 1
      | (None, None) \<Rightarrow> False)"

definition regex_refused :: "client_ops \<Rightarrow> octstr option \<Rightarrow> octstr option \<Rightarrow> octstr \<Rightarrow> bool" where
  "regex_refused E allowed denied receiver \<longleftrightarrow>
     (case (allowed, denied) of
        (None, Some d) \<Rightarrow> gw_regex_match_pre E d receiver = 1
      | (Some a, Some d) \<Rightarrow> gw_regex_match_pre E a receiver = 0 \<and> gw_regex_match_pre E d receiver = 1
      | _ \<Rightarrow> False)"

definition smscconn_usable :: "client_ops \<Rightarrow> smscconn \<Rightarrow> routing_info \<Rightarrow> int" where
  "smscconn_usable E conn r =
     (let receiver = r_destination_addr r
      in if c_status conn = SMSCCONN_DEAD \<or> c_why_killed conn \<noteq> SMSCCONN_ALIVE then -1
         else if prefix_refused E (c_allowed_prefix conn) (c_denied_prefix conn) receiver then -1
         else if regex_refused E (c_allowed_prefix_regex conn) (c_denied_prefix_regex conn) receiver then -1
         else 0)"

text \<open>
  \<^verbatim>\<open>queued_cb\<close> and \<^verbatim>\<open>waiting_cb\<close> of \<^verbatim>\<open>smsc_smpp.c\<close>; the first also refreshes the load of the connection, an \<^verbatim>\<open>int\<close>, from the
  counter of messages it has received, an \<^verbatim>\<open>unsigned long\<close>.
\<close>

definition load_of :: "smscconn \<Rightarrow> int" where
  "load_of conn = sint (ucast (counter_value (c_received conn)) :: 32 word)"

definition queued_cb :: "smscconn \<Rightarrow> int \<times> smscconn" where
  "queued_cb conn =
     (if c_status conn \<noteq> SMSCCONN_DEAD then (int (length (msgs_to_send (c_data conn))), conn\<lparr>c_load := load_of conn\<rparr>)
      else (0, conn))"

definition waiting_cb :: "smscconn \<Rightarrow> int" where
  "waiting_cb conn = (if c_status conn \<noteq> SMSCCONN_DEAD then dict_key_count (sent_msgs (c_data conn)) else 0)"

record status_info =
  si_status :: conn_status
  si_mode :: int
  si_killed :: killed
  si_is_stopped :: bool
  si_online :: int
  si_sent :: ulong
  si_received :: ulong
  si_failed :: ulong
  si_queued :: int
  si_waiting :: int
  si_load :: int

definition smscconn_info :: "int \<Rightarrow> smscconn \<Rightarrow> status_info \<times> smscconn" where
  "smscconn_info time_now conn =
     (let (queued, conn') = queued_cb conn
      in (\<lparr> si_status = c_status conn, si_mode = c_mode conn, si_killed = c_why_killed conn, si_is_stopped = c_is_stopped conn,
            si_online = time_now - c_connect_time conn, si_sent = counter_value (c_sent conn),
            si_received = counter_value (c_received conn), si_failed = counter_value (c_failed conn), si_queued = queued,
            si_waiting = waiting_cb conn', si_load = c_load conn' \<rparr>, conn'))"

end
