(* ===== verification/Router.thy ===== *)
theory Router
  imports Smscconn
begin

text \<open>
  \<^verbatim>\<open>smpp-smsc/smsc.c\<close> and \<^verbatim>\<open>handle_request\<close> of \<^verbatim>\<open>smpp_smsc.c\<close>: the choice of a connection for a message, the thread that tries the
  messages again that could not be sent, and the operations on the list of connections.  A reading of an uninitialised
  local variable is an argument of the definitions.
\<close>

section \<open>Choosing a connection\<close>

definition conn_at :: "client \<Rightarrow> int \<Rightarrow> smscconn option" where
  "conn_at C p = (if 0 \<le> p \<and> p < int (length (smsc_list C)) then Some (smsc_list C ! nat p) else None)"

definition put_conn :: "int \<Rightarrow> smscconn \<Rightarrow> client \<Rightarrow> client" where
  "put_conn p conn C = C\<lparr>smsc_list := (smsc_list C)[nat p := conn]\<rparr>"

text \<open>
  The loop over the preferred connections.  The first component of the result is the value returned from within the loop, if any;
  the message comes back because its state may have been set.
\<close>

fun rout_preferred :: "client_ops \<Rightarrow> int \<Rightarrow> int list \<Rightarrow> msg \<Rightarrow> client \<Rightarrow> (int option \<times> msg \<times> client) option" where
  "rout_preferred E t [] m C = None"
| "rout_preferred E t (p # ps) m C =
     (if p = -1 then Some (None, m, C)
      else case conn_at C p of None \<Rightarrow> None
        | Some conn \<Rightarrow>
           (let (info, conn1) = smscconn_info t conn; C1 = put_conn p conn1 C
            in if si_status info \<noteq> SMSCCONN_ACTIVE
               then if client_status C1 \<noteq> CLIENT_SHUTDOWN then rout_preferred E t ps m C1 else Some (Some (-1), m, C1)
               else if smscconn_usable E conn1 (routing_info m) = -1 then rout_preferred E t ps m C1
               else
                 let m1 = m\<lparr>m_state := MSG_NOT_SENT\<rparr>; (ret, conn2) = smscconn_send E conn1 m1; C2 = put_conn p conn2 C1
                 in if ret = -1 then rout_preferred E t ps m1 C2 else Some (Some 1, m1, C2)))"

text \<open>\<^verbatim>\<open>allowed_smsc_len\<close>, which stays uninitialised when the first entry ends the array.\<close>

definition allowed_smsc_len :: "int \<Rightarrow> int list \<Rightarrow> int option" where
  "allowed_smsc_len uninit arr =
     (case first_pos (\<lambda>p. p = -1) arr of None \<Rightarrow> None
      | Some n \<Rightarrow> if n = 0 then Some uninit else Some (int n))"

text \<open>The loop over the allowed connections: the best one so far with its load, and \<^verbatim>\<open>bad_found\<close>.\<close>

fun rout_allowed ::
    "client_ops \<Rightarrow> int \<Rightarrow> int list \<Rightarrow> routing_info \<Rightarrow> (int \<times> int) option \<Rightarrow> bool \<Rightarrow> client \<Rightarrow> ((int \<times> int) option \<times> bool \<times> client) option"
  where
  "rout_allowed E t [] r best bad C = Some (best, bad, C)"
| "rout_allowed E t (p # ps) r best bad C =
     (case conn_at C p of None \<Rightarrow> None
      | Some conn \<Rightarrow>
         (let (info, conn1) = smscconn_info t conn; C1 = put_conn p conn1 C
          in if si_status info \<noteq> SMSCCONN_ACTIVE then rout_allowed E t ps r best True C1
             else if smscconn_usable E conn1 r = -1 then rout_allowed E t ps r best False C1
             else if (case best of None \<Rightarrow> True | Some (_, bo_sent) \<Rightarrow> si_load info < bo_sent)
             then rout_allowed E t ps r (Some (p, si_load info)) False C1
             else rout_allowed E t ps r best False C1))"

text \<open>\<^verbatim>\<open>smsc2_rout\<close>; the message is destroyed when 1 is returned, queued when 0 is, and forgotten when -1 is.\<close>

partial_function (option) smsc2_rout :: "client_ops \<Rightarrow> int \<Rightarrow> int \<Rightarrow> msg \<Rightarrow> client \<Rightarrow> (int \<times> client) option" where
  "smsc2_rout E t uninit m C =
     (if smsc_list C = [] then Some (-1, C)
      else Option.bind (rout_preferred E t (r_preferred_smsc (routing_info m)) m C) (\<lambda>(r, m1, C1).
        case r of Some ret \<Rightarrow> Some (ret, C1)
        | None \<Rightarrow>
           Option.bind (allowed_smsc_len uninit (r_allowed_smsc (routing_info m1))) (\<lambda>len.
            if len > int (length (r_allowed_smsc (routing_info m1))) then None
            else Option.bind (rout_allowed E t (take (nat len) (r_allowed_smsc (routing_info m1))) (routing_info m1) None False C1)
              (\<lambda>(best, bad, C2).
                 case best of
                   Some (p, _) \<Rightarrow>
                     (let m2 = m1\<lparr>m_state := MSG_NOT_SENT\<rparr>; (ret, conn) = smscconn_send E (smsc_list C2 ! nat p) m2;
                          C3 = put_conn p conn C2
                      in if ret = -1 then smsc2_rout E t uninit m2 C3 else Some (1, C3))
                 | None \<Rightarrow>
                     if bad then Some (0, if client_status C2 \<noteq> CLIENT_SHUTDOWN then produce_outgoing_msg E m1 C2 else C2)
                     else if client_status C2 = CLIENT_SHUTDOWN then Some (0, C2) else Some (-1, C2)))))"

section \<open>Trying again\<close>

text \<open>\<^verbatim>\<open>smsc_length\<close>: the number of active connections; asking refreshes their loads.\<close>

definition smsc_length :: "int \<Rightarrow> client \<Rightarrow> int \<times> client" where
  "smsc_length t C =
     (int (length (filter (\<lambda>conn. si_status (fst (smscconn_info t conn)) = SMSCCONN_ACTIVE) (smsc_list C))),
      C\<lparr>smsc_list := map (\<lambda>conn. snd (smscconn_info t conn)) (smsc_list C)\<rparr>)"

text \<open>The number of entries of an array; the variable keeps its old value when there are none.\<close>

definition count_entries :: "nat \<Rightarrow> int list \<Rightarrow> nat option" where
  "count_entries old arr =
     (case first_pos (\<lambda>p. p = -1) arr of None \<Rightarrow> None | Some n \<Rightarrow> Some (if n = 0 then old else n))"

text \<open>The loop that moves the preferred connections behind the allowed ones.\<close>

fun move_preferred :: "nat \<Rightarrow> nat \<Rightarrow> nat \<Rightarrow> int list \<Rightarrow> int list \<Rightarrow> (int list \<times> int list) option" where
  "move_preferred 0 j ret pref allow = (if ret < length allow then Some (pref, allow[ret := -1]) else None)"
| "move_preferred (Suc k) j ret pref allow =
     (if j < length pref \<and> ret < length allow
      then move_preferred k (Suc j) (Suc ret) (pref[j := -1]) (allow[ret := pref ! j])
      else None)"

definition report :: "client_ops \<Rightarrow> msg \<Rightarrow> int \<Rightarrow> client \<Rightarrow> client option" where
  "report E m status C =
     mis_db_insert (i_account_name (sm_info m)) (i_account_msg_id (sm_info m)) (i_req_time (sm_info m)) (m_failed_smsc_id m) None
       (unpacked E m) status (i_client_ip (sm_info m)) C"

text \<open>
  One message of the list.  \<open>pn\<close> and \<open>an\<close> are \<^verbatim>\<open>preferred_nos\<close> and \<^verbatim>\<open>allowed_nos\<close>, which the thread keeps from one message
  to the next.
\<close>

definition router_msg ::
    "client_ops \<Rightarrow> int \<Rightarrow> int \<Rightarrow> msg \<Rightarrow> nat \<times> nat \<Rightarrow> client \<Rightarrow> ((nat \<times> nat) \<times> client) option" where
  "router_msg E t uninit m nos C =
     (if i_pdu (sm_info m) = None then Some (nos, C)
      else if m_state m = MSG_SENT_NORESP then map_option (Pair nos) (report E m 0x405 C)
      else if m_retries m = max_retry_limit C then map_option (Pair nos) (report E m 0x404 C)
      else if max_msg_duration C \<noteq> -1 \<and> t - m_retry_time m > max_msg_duration C then map_option (Pair nos) (report E m 0x404 C)
      else
        let (n, C1) = smsc_length t C
        in if n > 0
           then do {
             pn \<leftarrow> count_entries (fst nos) (r_preferred_smsc (routing_info m));
             an \<leftarrow> count_entries (snd nos) (r_allowed_smsc (routing_info m));
             (pref, allow) \<leftarrow> move_preferred pn 0 an (r_preferred_smsc (routing_info m)) (r_allowed_smsc (routing_info m));
             (_, C2) \<leftarrow> smsc2_rout E t uninit
               (m\<lparr>routing_info := (routing_info m)\<lparr>r_preferred_smsc := pref, r_allowed_smsc := allow\<rparr>\<rparr>) C1;
             Some ((pn, an), C2) }
           else
             let (n2, C2) = smsc_length t C1
             in Some (nos, if n2 = 0 then C2\<lparr>outgoing_msg := gwlist_produce E (outgoing_msg C2) m\<rparr> else C2))"

fun router_msgs :: "client_ops \<Rightarrow> int \<Rightarrow> int \<Rightarrow> nat \<Rightarrow> nat \<times> nat \<Rightarrow> client \<Rightarrow> ((nat \<times> nat) \<times> client) option" where
  "router_msgs E t uninit 0 nos C = Some (nos, C)"
| "router_msgs E t uninit (Suc k) nos C =
     (case gwlist_extract_first (x_msgs E) (outgoing_msg C) of
        (None, l) \<Rightarrow> router_msgs E t uninit k nos (C\<lparr>outgoing_msg := l\<rparr>)
      | (Some m, l) \<Rightarrow>
          (case router_msg E t uninit m nos (C\<lparr>outgoing_msg := l\<rparr>) of None \<Rightarrow> None
           | Some (nos', C') \<Rightarrow> router_msgs E t uninit k nos' C'))"

text \<open>One round of \<^verbatim>\<open>msg_router\<close>.\<close>

definition msg_router :: "client_ops \<Rightarrow> int \<Rightarrow> int \<Rightarrow> nat \<times> nat \<Rightarrow> client \<Rightarrow> ((nat \<times> nat) \<times> client) option" where
  "msg_router E t uninit nos C =
     (if outgoing_msg C \<noteq> []
      then map_option
             (\<lambda>(nos', C').
                (nos', if global_q_min C' \<noteq> -1 \<and> int (length (outgoing_msg C')) < global_q_min C'
                       then snd (send_msg_reverse_server (Global_q_msg 2) C') else C'))
             (router_msgs E t uninit (length (outgoing_msg C)) nos C)
      else Some (nos, C))"

text \<open>The end of the thread: what is left in memory is reported.\<close>

fun router_flush :: "client_ops \<Rightarrow> nat \<Rightarrow> client \<Rightarrow> client option" where
  "router_flush E 0 C = Some C"
| "router_flush E (Suc k) C =
     (case gwlist_extract_first (x_msgs E) (outgoing_msg C) of
        (None, l) \<Rightarrow> router_flush E k (C\<lparr>outgoing_msg := l\<rparr>)
      | (Some m, l) \<Rightarrow>
          if i_pdu (sm_info m) = None then router_flush E k (C\<lparr>outgoing_msg := l\<rparr>)
          else case report E m (if m_state m = MSG_SENT_NORESP then 0x405 else 0x406) (C\<lparr>outgoing_msg := l\<rparr>) of
                 None \<Rightarrow> None | Some C' \<Rightarrow> router_flush E k C')"

definition router_end :: "client_ops \<Rightarrow> client \<Rightarrow> client option" where
  "router_end E C = map_option (\<lambda>C'. C'\<lparr>smsc_running := False\<rparr>) (router_flush E (length (outgoing_msg C)) C)"

section \<open>Requests of the ESME process\<close>

record submit_req =
  q_pdu :: "octstr option"
  q_account_name :: octstr
  q_account_msg_id :: octstr
  q_req_time :: octstr
  q_destination_addr :: octstr
  q_source_addr :: octstr
  q_data_coding :: int
  q_esm_class :: int
  q_more_messages_to_send :: int
  q_preferred_smsc :: octstr
  q_allowed_smsc :: octstr
  q_content :: "octstr option"
  q_ip :: "octstr option"

datatype smsc_request = Req_admin int octstr | Req_submit submit_req | Req_other

text \<open>\<^verbatim>\<open>strcpy\<close> copies up to the first null octet.\<close>

definition cstr :: "octstr \<Rightarrow> octstr" where
  "cstr s = takeWhile (\<lambda>c. c \<noteq> CHR 0x00) s"

text \<open>An array of \<^verbatim>\<open>MAX_NO_SMSC / 2\<close> entries, filled from the octets and then with -1.\<close>

definition fill_array :: "nat \<Rightarrow> int list \<Rightarrow> int list option" where
  "fill_array cap ps = (if length ps < cap then Some (ps @ replicate (cap - length ps) (-1)) else None)"

definition request_msg :: "client_ops \<Rightarrow> nat \<Rightarrow> int \<Rightarrow> submit_req \<Rightarrow> msg option" where
  "request_msg E cap dndcheck_flag q = do {
     pref \<leftarrow> fill_array cap (map (\<lambda>i. if dndcheck_flag = 0 then octstr_get_char (x_ops E) (q_preferred_smsc q) i else 0)
               [0..<length (q_preferred_smsc q)]);
     allow \<leftarrow> fill_array cap (map (octstr_get_char (x_ops E) (q_allowed_smsc q)) [0..<length (q_allowed_smsc q)]);
     Some ((msg_create
       \<lparr> r_source_addr = cstr (q_source_addr q), r_destination_addr = cstr (q_destination_addr q), r_preferred_smsc = pref,
         r_allowed_smsc = allow, r_data_coding = q_data_coding q, r_esm_class = q_esm_class q,
         r_more_messages_to_send = q_more_messages_to_send q, r_content = q_content q \<rparr>)
       \<lparr> sm_info := \<lparr> i_pdu = (if dndcheck_flag = 0 then q_pdu q else None), i_account_name = Some (q_account_name q),
           i_account_msg_id = Some (q_account_msg_id q), i_req_time = Some (q_req_time q), i_client_ip = q_ip q \<rparr> \<rparr>) }"

definition handle_request ::
    "client_ops \<Rightarrow> nat \<Rightarrow> int \<Rightarrow> int \<Rightarrow> int \<Rightarrow> smsc_request \<Rightarrow> client \<Rightarrow> client option" where
  "handle_request E cap dndcheck_flag t uninit req C =
     (case req of
        Req_submit q0 \<Rightarrow>
          if client_status C \<noteq> CLIENT_RUNNING
          then (case q_pdu q0 of None \<Rightarrow> None
                | Some os \<Rightarrow>
                   mis_db_insert (Some (q_account_name q0)) (Some (q_account_msg_id q0)) (Some (q_req_time q0)) None None
                     (case pdu_unpack E (octstr_from_position (x_ops E) os 4) of Some (Submit_sm_pdu p) \<Rightarrow> Some p | _ \<Rightarrow> None)
                     0x40B (q_ip q0) C)
          else
            let q = (if dndcheck_flag = 1 then q0\<lparr>q_preferred_smsc := ''0'', q_allowed_smsc := []\<rparr> else q0)
            in if q_preferred_smsc q = [] \<and> q_allowed_smsc q = [] then Some C
               else if dndcheck_flag = 0 \<and> q_pdu q = None then Some C
               else do { m \<leftarrow> request_msg E cap dndcheck_flag q; (_, C') \<leftarrow> smsc2_rout E t uninit m C; Some C' }
      | _ \<Rightarrow> Some C)"

section \<open>The list of connections\<close>

text \<open>\<^verbatim>\<open>smsc2_find\<close>: the first position from \<^verbatim>\<open>start\<close> on with this id.\<close>

definition smsc2_find :: "client_ops \<Rightarrow> octstr \<Rightarrow> int \<Rightarrow> client \<Rightarrow> int" where
  "smsc2_find E smscid start C =
     (if start > int (length (smsc_list C)) \<or> start < 0 then -1
      else case first_pos (\<lambda>conn. octstr_compare (x_ops E) (c_id conn) smscid = 0) (drop (nat start) (smsc_list C)) of
             None \<Rightarrow> -1 | Some i \<Rightarrow> start + int i)"

definition smsc2_resume :: "client \<Rightarrow> client" where
  "smsc2_resume C = (if \<not> smsc_running C then C else C\<lparr>smsc_list := map smscconn_start (smsc_list C)\<rparr>)"

definition smsc2_suspend :: "client \<Rightarrow> client" where
  "smsc2_suspend C =
     (if \<not> smsc_running C then C else C\<lparr>smsc_list := map (\<lambda>conn. snd (smscconn_stop conn)) (smsc_list C)\<rparr>)"

definition set_shutdown_status :: "client \<Rightarrow> client" where
  "set_shutdown_status C = C\<lparr>client_status := CLIENT_SHUTDOWN\<rparr>"

definition smpp_client_suspend :: "client \<Rightarrow> int \<times> client" where
  "smpp_client_suspend C = (if client_status C \<noteq> CLIENT_RUNNING then (-1, C) else (0, C\<lparr>client_status := CLIENT_SUSPENDED\<rparr>))"

definition smpp_client_resume :: "client \<Rightarrow> int \<times> client" where
  "smpp_client_resume C =
     (if client_status C \<noteq> CLIENT_SUSPENDED then (-1, C) else (0, (smsc2_resume C)\<lparr>client_status := CLIENT_RUNNING\<rparr>))"

text \<open>The state of every connection, sent to the ESME process when it connects; the number of connections goes first.\<close>

definition info_of :: "int \<Rightarrow> smscconn \<Rightarrow> info_smsc" where
  "info_of t conn =
     (let info = fst (smscconn_info t conn)
      in \<lparr> is_id = c_id conn, is_type = c_smsc_type conn,
           is_conn_status = (if si_status info = SMSCCONN_ACTIVE then 1 else 0), is_conn_mode = si_mode info \<rparr>)"

fun send_infos :: "int \<Rightarrow> smscconn list \<Rightarrow> client \<Rightarrow> client" where
  "send_infos t [] C = C"
| "send_infos t (conn # conns) C = send_infos t conns (snd (send_msg_reverse_server (Info_smsc (info_of t conn)) C))"

text \<open>
  The loop stays at a connection until its thread has sent a bind, and the lock is released only when the list is empty; \<open>None\<close> is a
  loop that does not end.
\<close>

definition send_system_info_init :: "int \<Rightarrow> client \<Rightarrow> client option" where
  "send_system_info_init t C0 =
     (let C = C0\<lparr>list_readers := list_readers C0 + 1\<rparr>
      in if smsc_list C = [] then Some (C\<lparr>list_readers := list_readers C - 1\<rparr>)
         else if list_all (\<lambda>conn. c_bind_sent conn = 1) (smsc_list C)
         then let C1 = snd (send_msg_reverse_server (No_of_smsc (int (length (smsc_list C)))) C);
                  C2 = send_infos t (smsc_list C1) C1
              in Some (C2\<lparr>smsc_list := map (\<lambda>conn. snd (smscconn_info t conn)) (smsc_list C2)\<rparr>)
         else None)"

section \<open>What the choice is\<close>

definition conn_ok :: "client_ops \<Rightarrow> routing_info \<Rightarrow> smscconn \<Rightarrow> bool" where
  "conn_ok E r conn \<longleftrightarrow> c_status conn = SMSCCONN_ACTIVE \<and> smscconn_usable E conn r \<noteq> -1"

definition entries :: "int list \<Rightarrow> int list" where
  "entries = takeWhile (\<lambda>p. p \<noteq> -1)"

text \<open>The first of the candidates with the least load.\<close>

definition least_loaded :: "client \<Rightarrow> int list \<Rightarrow> int" where
  "least_loaded C ps =
     hd (filter (\<lambda>p. \<forall>q \<in> set ps. load_of (smsc_list C ! nat p) \<le> load_of (smsc_list C ! nat q)) ps)"

datatype decision = Deliver_to int | Hold | Lose

definition route_decision :: "client_ops \<Rightarrow> client \<Rightarrow> routing_info \<Rightarrow> decision" where
  "route_decision E C r =
     (let ok = (\<lambda>p. conn_ok E r (smsc_list C ! nat p)); allowed = entries (r_allowed_smsc r)
      in case List.find ok (entries (r_preferred_smsc r)) of
           Some p \<Rightarrow> Deliver_to p
         | None \<Rightarrow>
             if filter ok allowed \<noteq> [] then Deliver_to (least_loaded C (filter ok allowed))
             else if allowed \<noteq> [] \<and> c_status (smsc_list C ! nat (last allowed)) \<noteq> SMSCCONN_ACTIVE then Hold
             else Lose)"

text \<open>The arrays end with -1 and name connections of the list.\<close>

definition routable :: "client \<Rightarrow> routing_info \<Rightarrow> bool" where
  "routable C r \<longleftrightarrow> -1 \<in> set (r_preferred_smsc r) \<and> -1 \<in> set (r_allowed_smsc r) \<and>
     (\<forall>p \<in> set (entries (r_preferred_smsc r)) \<union> set (entries (r_allowed_smsc r)). 0 \<le> p \<and> p < int (length (smsc_list C)))"

text \<open>The state up to the loads the connections have cached.\<close>

definition unloaded :: "smscconn \<Rightarrow> smscconn" where
  "unloaded conn = conn\<lparr>c_load := 0\<rparr>"

definition norm_load :: "client \<Rightarrow> client" where
  "norm_load C = C\<lparr>smsc_list := map unloaded (smsc_list C)\<rparr>"

definition enqueue :: "client_ops \<Rightarrow> int \<Rightarrow> msg \<Rightarrow> client \<Rightarrow> client" where
  "enqueue E p m C = put_conn p (snd (send_msg_cb E (smsc_list C ! nat p) m)) C"

lemma msg_duplicate_same [simp]: "msg_duplicate m = m"
  by (cases m, cases "sm_info m") (simp add: msg_duplicate_def msg_create_def Let_def)

lemma unloaded_fields [simp]:
  "c_status (unloaded c) = c_status c" "c_why_killed (unloaded c) = c_why_killed c" "c_received (unloaded c) = c_received c"
  "smscconn_usable E (unloaded c) r = smscconn_usable E c r" "load_of (unloaded c) = load_of c" "c_data (unloaded c) = c_data c"
  by (simp_all add: unloaded_def smscconn_usable_def load_of_def Let_def cong: if_cong)

lemma info_conn: "smscconn_info t conn = (i, conn') \<Longrightarrow> unloaded conn' = unloaded conn \<and> si_status i = c_status conn
    \<and> (c_status conn = SMSCCONN_ACTIVE \<longrightarrow> si_load i = load_of conn)"
  by (auto simp: smscconn_info_def queued_cb_def unloaded_def split: if_splits)

lemma norm_load_fields [simp]:
  "client_status (norm_load C) = client_status C" "length (smsc_list (norm_load C)) = length (smsc_list C)"
  by (simp_all add: norm_load_def)

lemma norm_load_eqD:
  assumes "norm_load C' = norm_load C"
  shows "client_status C' = client_status C" "length (smsc_list C') = length (smsc_list C)"
    and "i < length (smsc_list C) \<Longrightarrow> unloaded (smsc_list C' ! i) = unloaded (smsc_list C ! i)"
proof -
  show "client_status C' = client_status C" "length (smsc_list C') = length (smsc_list C)"
    using assms by (metis norm_load_fields)+
  then show "unloaded (smsc_list C' ! i) = unloaded (smsc_list C ! i)" if "i < length (smsc_list C)"
    using assms that by (metis norm_load_def nth_map client.select_convs(2) client.surjective client.update_convs(2))
qed

lemma norm_put: "norm_load (put_conn p conn C) = put_conn p (unloaded conn) (norm_load C)"
  by (simp add: norm_load_def put_conn_def map_update)

lemma put_same: "nat p < length (smsc_list C) \<Longrightarrow> unloaded conn = unloaded (smsc_list C ! nat p) \<Longrightarrow>
    norm_load (put_conn p conn C) = norm_load C"
  by (simp add: norm_load_def put_conn_def map_update) (metis length_map list_update_id nth_map)

lemma send_unloaded: "unloaded (snd (send_msg_cb E c m)) = snd (send_msg_cb E (unloaded c) m)"
  by (simp add: send_msg_cb_def unloaded_def)

lemma enqueue_norm:
  assumes "norm_load C' = norm_load C" "nat p < length (smsc_list C)"
  shows "norm_load (enqueue E p m C') = norm_load (enqueue E p m C)"
  using assms norm_load_eqD(3) [OF assms] by (simp add: enqueue_def norm_put send_unloaded)

definition valid_pos :: "client \<Rightarrow> int \<Rightarrow> bool" where
  "valid_pos C p \<longleftrightarrow> 0 \<le> p \<and> p < int (length (smsc_list C))"

definition ok_at :: "client_ops \<Rightarrow> routing_info \<Rightarrow> client \<Rightarrow> int \<Rightarrow> bool" where
  "ok_at E r C p = conn_ok E r (smsc_list C ! nat p)"

lemma valid_at: "valid_pos C p \<Longrightarrow> conn_at C p = Some (smsc_list C ! nat p) \<and> nat p < length (smsc_list C)"
  by (auto simp: valid_pos_def conn_at_def)

lemma norm_at:
  assumes "norm_load C' = norm_load C" "valid_pos C p"
  shows "valid_pos C' p" "ok_at E r C' p = ok_at E r C p" "load_of (smsc_list C' ! nat p) = load_of (smsc_list C ! nat p)"
    "c_status (smsc_list C' ! nat p) = c_status (smsc_list C ! nat p)"
proof -
  have u: "unloaded (smsc_list C' ! nat p) = unloaded (smsc_list C ! nat p)"
    using assms valid_at norm_load_eqD(3) by blast
  show "valid_pos C' p" using assms norm_load_eqD(2) [OF assms(1)] by (simp add: valid_pos_def)
  show "ok_at E r C' p = ok_at E r C p" using u unfolding ok_at_def conn_ok_def by (metis unloaded_fields(1,4))
  show "load_of (smsc_list C' ! nat p) = load_of (smsc_list C ! nat p)" using u by (metis unloaded_fields(5))
  show "c_status (smsc_list C' ! nat p) = c_status (smsc_list C ! nat p)" using u by (metis unloaded_fields(1))
qed

lemma info_put:
  assumes "valid_pos C p" "smscconn_info t (smsc_list C ! nat p) = (i, conn1)"
  shows "norm_load (put_conn p conn1 C) = norm_load C" "si_status i = c_status (smsc_list C ! nat p)"
    "smscconn_usable E conn1 r = smscconn_usable E (smsc_list C ! nat p) r"
    "c_status (smsc_list C ! nat p) = SMSCCONN_ACTIVE \<Longrightarrow> si_load i = load_of (smsc_list C ! nat p)"
    "smsc_list (put_conn p conn1 C) ! nat p = conn1"
proof -
  note ic = info_conn [OF assms(2)] and va = valid_at [OF assms(1)]
  show "norm_load (put_conn p conn1 C) = norm_load C" using ic va put_same [of p C conn1] by simp
  show "si_status i = c_status (smsc_list C ! nat p)" using ic by simp
  show "smscconn_usable E conn1 r = smscconn_usable E (smsc_list C ! nat p) r" using ic by (metis unloaded_fields(4))
  show "c_status (smsc_list C ! nat p) = SMSCCONN_ACTIVE \<Longrightarrow> si_load i = load_of (smsc_list C ! nat p)" using ic by simp
  show "smsc_list (put_conn p conn1 C) ! nat p = conn1" using va by (simp add: put_conn_def)
qed

lemma usable_send:
  assumes "smscconn_usable E conn r \<noteq> -1"
  shows "smscconn_send E conn m = send_msg_cb E conn m" "fst (send_msg_cb E conn m) = 0"
proof -
  have "\<not> (c_status conn = SMSCCONN_DEAD \<or> c_why_killed conn \<noteq> SMSCCONN_ALIVE)"
    using assms by (auto simp: smscconn_usable_def Let_def split: if_splits)
  then show "smscconn_send E conn m = send_msg_cb E conn m" "fst (send_msg_cb E conn m) = 0"
    by (auto simp: smscconn_send_def send_msg_cb_def)
qed

lemma entries_simps [simp]: "entries (p # ps) = (if p = -1 then [] else p # entries ps)" "entries [] = []"
  by (simp_all add: entries_def)

lemma find_ok_norm:
  assumes "norm_load C' = norm_load C" "\<forall>p \<in> set ps. valid_pos C p"
  shows "List.find (ok_at E r C') ps = List.find (ok_at E r C) ps"
  using assms(2) by (induction ps) (simp_all add: norm_at(2) [OF assms(1)])

lemma rout_preferred_result:
  assumes "-1 \<in> set ps" "\<forall>p \<in> set (entries ps). valid_pos C p" "client_status C \<noteq> CLIENT_SHUTDOWN"
  shows "\<exists>C1. norm_load C1 =
      (case List.find (ok_at E (routing_info m) C) (entries ps) of
         None \<Rightarrow> norm_load C | Some p \<Rightarrow> norm_load (enqueue E p (m\<lparr>m_state := MSG_NOT_SENT\<rparr>) C)) \<and>
      rout_preferred E t ps m C =
        (case List.find (ok_at E (routing_info m) C) (entries ps) of
           None \<Rightarrow> Some (None, m, C1) | Some p \<Rightarrow> Some (Some 1, m\<lparr>m_state := MSG_NOT_SENT\<rparr>, C1))"
  using assms
proof (induction ps arbitrary: C)
  case Nil
  then show ?case by simp
next
  case (Cons p ps)
  show ?case
  proof (cases "p = -1")
    case True
    then show ?thesis by auto
  next
    case False
    then have v: "valid_pos C p" using Cons.prems by simp
    obtain i conn1 where i: "smscconn_info t (smsc_list C ! nat p) = (i, conn1)" by fastforce
    define C1 where "C1 = put_conn p conn1 C"
    note ip = info_put [OF v i]
    have n: "norm_load C1 = norm_load C" using ip(1) by (simp add: C1_def)
    have v1: "\<forall>q \<in> set (entries ps). valid_pos C q" "\<forall>q \<in> set (entries ps). valid_pos C1 q"
      using Cons.prems False norm_at(1) [OF n] by auto
    have IH: "\<exists>D. norm_load D = (case List.find (ok_at E (routing_info m) C) (entries ps) of
         None \<Rightarrow> norm_load C | Some q \<Rightarrow> norm_load (enqueue E q (m\<lparr>m_state := MSG_NOT_SENT\<rparr>) C)) \<and>
       rout_preferred E t ps m C1 = (case List.find (ok_at E (routing_info m) C) (entries ps) of
           None \<Rightarrow> Some (None, m, D) | Some q \<Rightarrow> Some (Some 1, m\<lparr>m_state := MSG_NOT_SENT\<rparr>, D))"
    proof -
      have "List.find (ok_at E (routing_info m) C1) (entries ps) = List.find (ok_at E (routing_info m) C) (entries ps)"
        by (rule find_ok_norm [OF n v1(1)])
      moreover have "norm_load (enqueue E q m' C1) = norm_load (enqueue E q m' C)"
        if "List.find (ok_at E (routing_info m) C) (entries ps) = Some q" for q m'
        using enqueue_norm [OF n] v1(1) that valid_at by (metis find_Some_iff nth_mem)
      ultimately show ?thesis
        using Cons.IH [of C1] Cons.prems(1,3) v1(2) False norm_load_eqD(1) [OF n] n
        by (auto split: option.splits)
    qed
    show ?thesis
    proof (cases "ok_at E (routing_info m) C p")
      case True
      define conn2 where "conn2 = snd (send_msg_cb E conn1 (m\<lparr>m_state := MSG_NOT_SENT\<rparr>))"
      have u: "smscconn_usable E conn1 (routing_info m) \<noteq> -1" using True ip by (simp add: ok_at_def conn_ok_def)
      have sc: "send_msg_cb E conn1 (m\<lparr>m_state := MSG_NOT_SENT\<rparr>) = (0, conn2)"
        by (simp add: conn2_def prod_eq_iff usable_send(2) [OF u])
      have e: "put_conn p conn2 C1 = enqueue E p (m\<lparr>m_state := MSG_NOT_SENT\<rparr>) C1"
        using ip(5) by (simp add: enqueue_def conn2_def C1_def)
      have "norm_load (put_conn p conn2 C1) = norm_load (enqueue E p (m\<lparr>m_state := MSG_NOT_SENT\<rparr>) C)"
        unfolding e by (rule enqueue_norm [OF n]) (use valid_at [OF v] in simp)
      moreover have "rout_preferred E t (p # ps) m C = Some (Some 1, m\<lparr>m_state := MSG_NOT_SENT\<rparr>, put_conn p conn2 C1)"
        using True False u usable_send(1) [OF u] sc valid_at [OF v] i ip(2)
        by (simp add: ok_at_def conn_ok_def C1_def Let_def)
      ultimately show ?thesis using True False by auto
    next
      case notok: False
      then have "rout_preferred E t (p # ps) m C = rout_preferred E t ps m C1"
        using False valid_at [OF v] i ip(2,3) norm_load_eqD(1) [OF n] Cons.prems(3)
        by (auto simp: ok_at_def conn_ok_def C1_def Let_def)
      then show ?thesis using IH notok False by simp
    qed
  qed
qed

text \<open>The loop over the allowed connections.\<close>

definition pick :: "(int \<Rightarrow> int) \<Rightarrow> int \<Rightarrow> (int \<times> int) option \<Rightarrow> (int \<times> int) option" where
  "pick load p best = (case best of None \<Rightarrow> Some (p, load p) | Some (_, b) \<Rightarrow> if load p < b then Some (p, load p) else best)"

definition first_min :: "(int \<Rightarrow> int) \<Rightarrow> int list \<Rightarrow> int" where
  "first_min load ps = hd (filter (\<lambda>p. \<forall>q \<in> set ps. load p \<le> load q) ps)"

lemma first_min_Cons: "first_min f (q # p # ps) = first_min f ((if f p < f q then p else q) # ps)"
proof (cases "f p < f q")
  case True
  then have e: "(\<forall>y \<in> set (q # p # ps). f x \<le> f y) = (\<forall>y \<in> set (p # ps). f x \<le> f y)" for x by fastforce
  show ?thesis using True unfolding first_min_def by (simp only: e if_True) simp
next
  case False
  then have e: "(\<forall>y \<in> set (q # p # ps). f x \<le> f y) = (\<forall>y \<in> set (q # ps). f x \<le> f y)" for x by fastforce
  have "hd (filter P (q # p # ps)) = hd (filter P (q # ps))" if "\<not> P q \<longrightarrow> \<not> P p" for P :: "int \<Rightarrow> bool"
    using that by auto
  then show ?thesis using False unfolding first_min_def by (simp only: e if_False) fastforce
qed

lemma fold_pick: "fold (pick f) ps (Some (q, f q)) = Some (first_min f (q # ps), f (first_min f (q # ps)))"
proof (induction ps arbitrary: q)
  case Nil
  then show ?case by (simp add: first_min_def)
next
  case (Cons p ps)
  have "pick f p (Some (q, f q)) = Some (if f p < f q then p else q, f (if f p < f q then p else q))"
    by (simp add: pick_def)
  then show ?case using Cons.IH first_min_Cons [of f q p ps] by simp
qed

lemma fold_pick_None: "fold (pick f) ps None = (if ps = [] then None else Some (first_min f ps, f (first_min f ps)))"
  by (cases ps) (simp_all add: fold_pick, simp add: pick_def fold_pick)

definition load_at :: "client \<Rightarrow> int \<Rightarrow> int" where
  "load_at C p = load_of (smsc_list C ! nat p)"

lemma rout_allowed_result:
  assumes "\<forall>p \<in> set ps. valid_pos C p"
  shows "\<exists>C1. norm_load C1 = norm_load C \<and>
     rout_allowed E t ps r best bad C =
       Some (fold (pick (load_at C)) (filter (ok_at E r C) ps) best,
             if ps = [] then bad else c_status (smsc_list C ! nat (last ps)) \<noteq> SMSCCONN_ACTIVE, C1)"
  using assms
proof (induction ps arbitrary: C best bad)
  case Nil
  then show ?case by auto
next
  case (Cons p ps)
  have v: "valid_pos C p" using Cons.prems by simp
  obtain i conn1 where i: "smscconn_info t (smsc_list C ! nat p) = (i, conn1)" by fastforce
  define C1 where "C1 = put_conn p conn1 C"
  note ip = info_put [OF v i]
  have n: "norm_load C1 = norm_load C" using ip(1) by (simp add: C1_def)
  have va: "\<forall>q \<in> set ps. valid_pos C q" and v1: "\<forall>q \<in> set ps. valid_pos C1 q"
    using Cons.prems norm_at(1) [OF n] by auto
  have f: "filter (ok_at E r C1) ps = filter (ok_at E r C) ps"
    using va norm_at(2) [OF n] by (intro filter_cong) auto
  have "load_at C1 q = load_at C q" if "q \<in> set ps" for q
    using va norm_at(3) [OF n] that by (simp add: load_at_def)
  then have "fold (pick (load_at C1)) (filter (ok_at E r C) ps) b = fold (pick (load_at C)) (filter (ok_at E r C) ps) b" for b
    by (intro fold_cong) (auto simp: pick_def fun_eq_iff split: option.splits)
  moreover have "c_status (smsc_list C1 ! nat (last ps)) = c_status (smsc_list C ! nat (last ps))" if "ps \<noteq> []"
    using va norm_at(4) [OF n] that by simp
  ultimately have IH: "\<exists>D. norm_load D = norm_load C \<and> rout_allowed E t ps r b bd C1 =
      Some (fold (pick (load_at C)) (filter (ok_at E r C) ps) b,
            if ps = [] then bd else c_status (smsc_list C ! nat (last ps)) \<noteq> SMSCCONN_ACTIVE, D)" for b bd
    using Cons.IH [OF v1, of b bd] n f by (cases "ps = []") auto
  define st where "st = c_status (smsc_list C ! nat p)"
  have step: "rout_allowed E t (p # ps) r best bad C =
      (if st \<noteq> SMSCCONN_ACTIVE then rout_allowed E t ps r best True C1
       else rout_allowed E t ps r (if ok_at E r C p then pick (load_at C) p best else best) False C1)"
    using v i ip(2,3,4) valid_at [OF v]
    by (auto simp: st_def C1_def Let_def ok_at_def conn_ok_def pick_def load_at_def split: option.splits)
  have nok: "ok_at E r C p \<Longrightarrow> st = SMSCCONN_ACTIVE" by (simp add: ok_at_def conn_ok_def st_def)
  show ?case
  proof (cases "st = SMSCCONN_ACTIVE")
    case True
    then show ?thesis using step IH [of "if ok_at E r C p then pick (load_at C) p best else best" False] by (auto simp: st_def)
  next
    case False
    then show ?thesis using step IH [of best True] nok by (auto simp: st_def)
  qed
qed

lemma entries_take: "first_pos (\<lambda>p. p = -1) arr = Some n \<Longrightarrow> take n arr = entries arr \<and> (n = 0 \<longleftrightarrow> entries arr = []) \<and> n \<le> length arr"
proof (induction arr arbitrary: n)
  case Nil
  then show ?case by simp
next
  case (Cons p arr)
  then show ?case by (cases n) (auto split: if_splits)
qed

lemma allowed_len_result:
  assumes "-1 \<in> set arr" "entries arr \<noteq> [] \<or> uninit \<le> 0"
  shows "\<exists>len. allowed_smsc_len uninit arr = Some len \<and> len \<le> int (length arr) \<and> take (nat len) arr = entries arr"
proof -
  obtain n where n: "first_pos (\<lambda>p. p = -1) arr = Some n" using first_pos_Ex [OF assms(1), of "\<lambda>p. p = -1"] by auto
  then show ?thesis using entries_take [OF n] assms(2) by (auto simp: allowed_smsc_len_def)
qed

lemma decision_alt:
  "route_decision E C r =
     (case List.find (ok_at E r C) (entries (r_preferred_smsc r)) of
        Some p \<Rightarrow> Deliver_to p
      | None \<Rightarrow>
          if filter (ok_at E r C) (entries (r_allowed_smsc r)) \<noteq> []
          then Deliver_to (first_min (load_at C) (filter (ok_at E r C) (entries (r_allowed_smsc r))))
          else if entries (r_allowed_smsc r) \<noteq> [] \<and> c_status (smsc_list C ! nat (last (entries (r_allowed_smsc r)))) \<noteq> SMSCCONN_ACTIVE
          then Hold else Lose)"
proof -
  have a: "ok_at E r C = (\<lambda>p. conn_ok E r (smsc_list C ! nat p))" by (simp add: ok_at_def fun_eq_iff)
  have b: "least_loaded C ps = first_min (load_at C) ps" for ps by (simp add: least_loaded_def first_min_def load_at_def)
  show ?thesis unfolding route_decision_def Let_def a b ..
qed

lemma first_min_mem: "ps \<noteq> [] \<Longrightarrow> first_min f ps \<in> set ps"
proof -
  assume "ps \<noteq> []"
  then obtain x where "x \<in> set ps" "\<forall>q \<in> set ps. f x \<le> f q"
    using arg_min_if_finite [of "set ps" f] by (metis List.finite_set linorder_not_less set_empty)
  then have "filter (\<lambda>p. \<forall>q \<in> set ps. f p \<le> f q) ps \<noteq> []" by (auto simp: filter_empty_conv)
  then show ?thesis unfolding first_min_def by (metis filter_is_subset hd_in_set subsetD)
qed

lemma produce_norm:
  assumes "norm_load C' = norm_load C"
  shows "norm_load (produce_outgoing_msg E m C') = norm_load (produce_outgoing_msg E m C)"
proof -
  have p: "norm_load (produce_outgoing_msg E m D) = produce_outgoing_msg E m (norm_load D)" for D
    by (simp add: produce_outgoing_msg_def send_msg_reverse_server_def norm_load_def Let_def split: list.splits)
  show ?thesis by (simp add: p assms)
qed

text \<open>What \<^verbatim>\<open>smsc2_rout\<close> does, for a process that is not shutting down.\<close>

lemma smsc2_rout_result:
  assumes r: "routable C (routing_info m)" and st: "client_status C \<noteq> CLIENT_SHUTDOWN" and ne: "smsc_list C \<noteq> []"
    and u: "entries (r_allowed_smsc (routing_info m)) \<noteq> [] \<or> uninit \<le> 0"
  shows "\<exists>C'. smsc2_rout E t uninit m C =
      Some (case route_decision E C (routing_info m) of Deliver_to _ \<Rightarrow> 1 | Hold \<Rightarrow> 0 | Lose \<Rightarrow> -1, C') \<and>
    norm_load C' = norm_load (case route_decision E C (routing_info m) of
        Deliver_to p \<Rightarrow> enqueue E p (m\<lparr>m_state := MSG_NOT_SENT\<rparr>) C
      | Hold \<Rightarrow> produce_outgoing_msg E m C
      | Lose \<Rightarrow> C)"
proof -
  define R where "R = routing_info m"
  have vp: "\<forall>p \<in> set (entries (r_preferred_smsc R)). valid_pos C p" "\<forall>p \<in> set (entries (r_allowed_smsc R)). valid_pos C p"
    and m1: "-1 \<in> set (r_preferred_smsc R)" "-1 \<in> set (r_allowed_smsc R)"
    using r by (auto simp: routable_def valid_pos_def R_def)
  obtain C1 where C1: "norm_load C1 = (case List.find (ok_at E R C) (entries (r_preferred_smsc R)) of
         None \<Rightarrow> norm_load C | Some p \<Rightarrow> norm_load (enqueue E p (m\<lparr>m_state := MSG_NOT_SENT\<rparr>) C))"
      "rout_preferred E t (r_preferred_smsc R) m C = (case List.find (ok_at E R C) (entries (r_preferred_smsc R)) of
           None \<Rightarrow> Some (None, m, C1) | Some p \<Rightarrow> Some (Some 1, m\<lparr>m_state := MSG_NOT_SENT\<rparr>, C1))"
    using rout_preferred_result [OF m1(1) vp(1) st, of E m t] by (auto simp: R_def)
  show ?thesis
  proof (cases "List.find (ok_at E R C) (entries (r_preferred_smsc R))")
    case (Some p)
    then show ?thesis using C1 ne by (subst smsc2_rout.simps) (simp add: decision_alt flip: R_def)
  next
    case None
    then have n1: "norm_load C1 = norm_load C" using C1 by simp
    obtain len where len: "allowed_smsc_len uninit (r_allowed_smsc R) = Some len" "len \<le> int (length (r_allowed_smsc R))"
        "take (nat len) (r_allowed_smsc R) = entries (r_allowed_smsc R)"
      using allowed_len_result [OF m1(2)] u by (auto simp: R_def)
    define A where "A = entries (r_allowed_smsc R)"
    define oks where "oks = filter (ok_at E R C) A"
    have v1: "\<forall>p \<in> set A. valid_pos C1 p" using vp(2) norm_at(1) [OF n1] by (auto simp: A_def)
    have same: "filter (ok_at E R C1) A = oks" "\<forall>p \<in> set A. load_at C1 p = load_at C p"
        "A \<noteq> [] \<Longrightarrow> c_status (smsc_list C1 ! nat (last A)) = c_status (smsc_list C ! nat (last A))"
      using vp(2) norm_at(2,3,4) [OF n1] by (auto simp: A_def oks_def load_at_def intro!: filter_cong)
    obtain C2 where C2: "norm_load C2 = norm_load C1"
        "rout_allowed E t A R None False C1 = Some (fold (pick (load_at C1)) oks None,
            if A = [] then False else c_status (smsc_list C ! nat (last A)) \<noteq> SMSCCONN_ACTIVE, C2)"
      using rout_allowed_result [OF v1, of E t R None False] same by (auto split: if_splits)
    have n2: "norm_load C2 = norm_load C" using C2 n1 by simp
    have fm: "first_min (load_at C1) oks = first_min (load_at C) oks"
    proof -
      have "load_at C1 p = load_at C p" if "p \<in> set oks" for p using same(2) that by (auto simp: oks_def)
      then have "filter (\<lambda>p. \<forall>q \<in> set oks. load_at C1 p \<le> load_at C1 q) oks = filter (\<lambda>p. \<forall>q \<in> set oks. load_at C p \<le> load_at C q) oks"
        by (intro filter_cong) auto
      then show ?thesis by (simp add: first_min_def)
    qed
    note unf = smsc2_rout.simps [of E t uninit m C]
    show ?thesis
    proof (cases "oks = []")
      case True
      then have dec: "route_decision E C R = (if A \<noteq> [] \<and> c_status (smsc_list C ! nat (last A)) \<noteq> SMSCCONN_ACTIVE then Hold else Lose)"
        using None by (simp add: decision_alt flip: A_def oks_def)
      have "client_status C2 \<noteq> CLIENT_SHUTDOWN" using st norm_load_eqD(1) [OF n2] by simp
      then show ?thesis
        using True None C1(2) ne len C2(2) produce_norm [OF n2, of E m] n2 dec
        by (simp add: unf flip: R_def A_def)
    next
      case False
      define p where "p = first_min (load_at C) oks"
      have pin: "p \<in> set A" "ok_at E R C p" using first_min_mem [OF False, of "load_at C"] by (auto simp: p_def oks_def)
      then have pv: "valid_pos C p" using vp(2) by (simp add: A_def)
      have dec: "route_decision E C R = Deliver_to p"
        using None False by (simp add: decision_alt p_def flip: A_def oks_def)
      have "smscconn_usable E (smsc_list C2 ! nat p) R \<noteq> -1"
        using norm_at(2) [OF n2 pv, of E R] pin(2) by (simp add: ok_at_def conn_ok_def)
      note us = usable_send [OF this]
      obtain conn where sc: "send_msg_cb E (smsc_list C2 ! nat p) (m\<lparr>m_state := MSG_NOT_SENT\<rparr>) = (0, conn)"
        using us(2) by (metis prod.collapse)
      have "smsc2_rout E t uninit m C = Some (1, enqueue E p (m\<lparr>m_state := MSG_NOT_SENT\<rparr>) C2)"
        using None C1(2) ne len C2(2) False fm us(1) sc
        by (simp add: unf fold_pick_None enqueue_def Let_def flip: R_def A_def p_def)
      then show ?thesis
        using dec enqueue_norm [OF n2, of p E "m\<lparr>m_state := MSG_NOT_SENT\<rparr>"] valid_at [OF pv] by (simp flip: R_def)
    qed
  qed
qed

section \<open>Where the messages are\<close>

text \<open>
  A message is told by the account and the id the ESME process gave it.  It is in flight while it waits for the router, for the thread of
  a connection or for a response; it is reported when a record of it has been handed over for the database or, when the database
  process cannot take it, to the log.
\<close>

type_synonym msg_key = "octstr option \<times> octstr option"

definition key :: "msg \<Rightarrow> msg_key" where
  "key m = (i_account_name (sm_info m), i_account_msg_id (sm_info m))"

definition conn_keys :: "smscconn \<Rightarrow> msg_key multiset" where
  "conn_keys conn = mset (map key (msgs_to_send (c_data conn))) + mset (map (key \<circ> sent_msg) (dict_values (sent_msgs (c_data conn))))"

definition in_flight :: "client \<Rightarrow> msg_key multiset" where
  "in_flight C = mset (map key (outgoing_msg C)) + sum_list (map conn_keys (smsc_list C))"

fun mis_keys :: "db_msg list \<Rightarrow> msg_key multiset" where
  "mis_keys [] = {#}"
| "mis_keys (Insert_mis r # ms) = {# (im_account_name r, im_account_msg_id r) #} + mis_keys ms"
| "mis_keys (Insert_status r # ms) = mis_keys ms"

definition reported :: "client \<Rightarrow> msg_key multiset" where
  "reported C = (case dbbox_client C of None \<Rightarrow> {#} | Some (_, l) \<Rightarrow> mis_keys l) + mis_keys (dropped C)"

lemma mis_keys_append [simp]: "mis_keys (xs @ ys) = mis_keys xs + mis_keys ys"
  by (induction xs rule: mis_keys.induct) (simp_all add: ac_simps)

lemma sum_list_update_mset:
  fixes xs :: "'a multiset list"
  shows "i < length xs \<Longrightarrow> sum_list (xs[i := x]) + xs ! i = sum_list xs + x"
proof (induction xs arbitrary: i)
  case Nil
  then show ?case by simp
next
  case (Cons y ys)
  then show ?case by (cases i) (simp_all add: ac_simps)
qed

lemma put_in_flight:
  assumes "nat p < length (smsc_list C)" "conn_keys conn = conn_keys (smsc_list C ! nat p) + K"
  shows "in_flight (put_conn p conn C) = in_flight C + K"
proof -
  have "sum_list ((map conn_keys (smsc_list C))[nat p := conn_keys conn]) + conn_keys (smsc_list C ! nat p) =
      sum_list (map conn_keys (smsc_list C)) + conn_keys conn"
    using sum_list_update_mset [of "nat p" "map conn_keys (smsc_list C)" "conn_keys conn"] assms(1) by simp
  then have "sum_list ((map conn_keys (smsc_list C))[nat p := conn_keys conn]) = sum_list (map conn_keys (smsc_list C)) + K"
    by (simp add: assms(2) ac_simps)
  then show ?thesis by (simp add: in_flight_def put_conn_def map_update ac_simps)
qed

lemma conn_keys_info [simp]: "conn_keys (snd (smscconn_info t conn)) = conn_keys conn"
  by (simp add: smscconn_info_def queued_cb_def conn_keys_def split_def)

lemma key_state [simp]: "key (m\<lparr>m_state := x\<rparr>) = key m" "key (m\<lparr>m_retries := n\<rparr>) = key m" "key (mark_failed conn t m) = key m"
    "key (m\<lparr>routing_info := R\<rparr>) = key m"
  by (simp_all add: key_def mark_failed_def)

lemma conn_keys_send:
  assumes "client_ops_spec E" "smscconn_send E conn m = (ret, conn')"
  shows "conn_keys conn' = conn_keys conn + (if ret = -1 then {#} else {# key m #})" "ret = -1 \<or> ret = 0"
  using assms by (auto simp: smscconn_send_def send_msg_cb_def conn_keys_def client_ops_spec_def split: if_splits)

lemma reported_put [simp]: "reported (put_conn p conn C) = reported C"
  by (simp add: reported_def put_conn_def)

lemma produce_in_flight:
  assumes "client_ops_spec E"
  shows "in_flight (produce_outgoing_msg E m C) = in_flight C + {# key m #}" "reported (produce_outgoing_msg E m C) = reported C"
  using assms
  by (auto simp: produce_outgoing_msg_def send_msg_reverse_server_def in_flight_def reported_def client_ops_spec_def Let_def
      split: list.splits)

subsection \<open>Routing accounts for the message\<close>

definition frame :: "client \<Rightarrow> client \<Rightarrow> bool" where
  "frame C C' \<longleftrightarrow> client_status C' = client_status C \<and> reported C' = reported C \<and> length (smsc_list C') = length (smsc_list C) \<and>
     dbbox_client C' = dbbox_client C \<and> max_retry_limit C' = max_retry_limit C \<and> max_msg_duration C' = max_msg_duration C"

lemma frame_refl [simp]: "frame C C"
  by (simp add: frame_def)

lemma frame_trans: "frame A B \<Longrightarrow> frame B C \<Longrightarrow> frame A C"
  by (simp add: frame_def)

lemma frame_put [simp]: "frame C (put_conn p conn C)"
  by (simp add: frame_def) (simp add: put_conn_def)

lemma frame_produce: "client_ops_spec E \<Longrightarrow> frame C (produce_outgoing_msg E m C)"
  by (auto simp: frame_def produce_in_flight)
    (auto simp: produce_outgoing_msg_def send_msg_reverse_server_def Let_def split: list.splits)

lemma info_keys: "smscconn_info t conn = (i, conn') \<Longrightarrow> conn_keys conn' = conn_keys conn"
  using conn_keys_info [of t conn] by simp

lemma conn_at_lt: "conn_at C p = Some conn \<Longrightarrow> nat p < length (smsc_list C) \<and> conn = smsc_list C ! nat p"
  by (auto simp: conn_at_def split: if_splits)

lemma info_put_keys:
  assumes "conn_at C p = Some conn" "smscconn_info t conn = (i, conn1)"
  shows "in_flight (put_conn p conn1 C) = in_flight C" "smsc_list (put_conn p conn1 C) ! nat p = conn1"
    "nat p < length (smsc_list (put_conn p conn1 C))"
  using conn_at_lt [OF assms(1)] put_in_flight [of p C conn1 "{#}"] info_keys [OF assms(2)] by (auto simp: put_conn_def)

lemma rout_preferred_accounts:
  assumes E: "client_ops_spec E" and r: "rout_preferred E t ps m C = Some (r, m', C')"
  shows "frame C C'" "key m' = key m" "r = None \<or> r = Some 1 \<or> r = Some (-1)"
    "in_flight C' = in_flight C + (if r = Some 1 then {# key m #} else {#})"
    "r = Some (-1) \<Longrightarrow> client_status C = CLIENT_SHUTDOWN"
proof -
  have "frame C C' \<and> key m' = key m \<and> (r = None \<or> r = Some 1 \<or> r = Some (-1)) \<and>
    in_flight C' = in_flight C + (if r = Some 1 then {# key m #} else {#}) \<and> (r = Some (-1) \<longrightarrow> client_status C = CLIENT_SHUTDOWN)"
    using r
  proof (induction ps arbitrary: m C)
    case Nil
    then show ?case by simp
  next
    case (Cons p ps)
    show ?case
    proof (cases "p = -1")
      case True
      then show ?thesis using Cons.prems by auto
    next
      case False
      with Cons.prems obtain conn where c: "conn_at C p = Some conn" by (auto split: option.splits)
      obtain i conn1 where i: "smscconn_info t conn = (i, conn1)" by fastforce
      define C1 where "C1 = put_conn p conn1 C"
      note k = info_put_keys [OF c i, folded C1_def]
      have f1: "frame C C1" by (simp add: C1_def)
      have IH: "frame C C' \<and> key m' = key m \<and> (r = None \<or> r = Some 1 \<or> r = Some (-1)) \<and>
          in_flight C' = in_flight C + (if r = Some 1 then {# key m #} else {#}) \<and> (r = Some (-1) \<longrightarrow> client_status C = CLIENT_SHUTDOWN)"
        if "rout_preferred E t ps n D = Some (r, m', C')" "frame C D" "in_flight D = in_flight C" "key n = key m" for n D
        using Cons.IH [OF that(1)] that(2,3,4) frame_trans by (auto simp: frame_def)
      define m1 where "m1 = m\<lparr>m_state := MSG_NOT_SENT\<rparr>"
      obtain ret conn2 where sd: "smscconn_send E conn1 m1 = (ret, conn2)" by fastforce
      have f2: "frame C (put_conn p conn2 C1)" using frame_trans [OF f1 frame_put] .
      have k2: "in_flight (put_conn p conn2 C1) = in_flight C + (if ret = -1 then {#} else {# key m #})"
        using put_in_flight [OF k(3), of conn2] conn_keys_send [OF E sd] k(1,2) by (simp add: m1_def)
      have step: "rout_preferred E t (p # ps) m C =
          (if si_status i \<noteq> SMSCCONN_ACTIVE
           then if client_status C1 \<noteq> CLIENT_SHUTDOWN then rout_preferred E t ps m C1 else Some (Some (-1), m, C1)
           else if smscconn_usable E conn1 (routing_info m) = -1 then rout_preferred E t ps m C1
           else if ret = -1 then rout_preferred E t ps m1 (put_conn p conn2 C1) else Some (Some 1, m1, put_conn p conn2 C1))"
        using False c i sd by (simp add: Let_def C1_def m1_def)
      have alts: "rout_preferred E t ps m C1 = Some (r, m', C') \<or>
          ret = -1 \<and> rout_preferred E t ps m1 (put_conn p conn2 C1) = Some (r, m', C') \<or>
          ret \<noteq> -1 \<and> Some (Some 1, m1, put_conn p conn2 C1) = Some (r, m', C') \<or>
          client_status C1 = CLIENT_SHUTDOWN \<and> Some (Some (-1), m, C1) = Some (r, m', C')"
        using Cons.prems [unfolded step]
        by (cases "si_status i = SMSCCONN_ACTIVE"; cases "client_status C1 = CLIENT_SHUTDOWN";
            cases "smscconn_usable E conn1 (routing_info m) = -1"; cases "ret = -1") simp_all
      from alts show ?thesis
      proof (elim disjE conjE)
        assume "rout_preferred E t ps m C1 = Some (r, m', C')"
        then show ?thesis using IH f1 k(1) by blast
      next
        assume a: "ret = -1" "rout_preferred E t ps m1 (put_conn p conn2 C1) = Some (r, m', C')"
        have "key m1 = key m" by (simp add: m1_def)
        then show ?thesis using IH [OF a(2) f2] k2 a(1) by simp
      next
        assume "ret \<noteq> -1" "Some (Some 1, m1, put_conn p conn2 C1) = Some (r, m', C')"
        then show ?thesis using f2 k2 by (auto simp: m1_def)
      next
        assume "client_status C1 = CLIENT_SHUTDOWN" "Some (Some (-1), m, C1) = Some (r, m', C')"
        then show ?thesis using f1 k(1) by (auto simp: frame_def)
      qed
    qed
  qed
  then show "frame C C'" "key m' = key m" "r = None \<or> r = Some 1 \<or> r = Some (-1)"
    "in_flight C' = in_flight C + (if r = Some 1 then {# key m #} else {#})"
    "r = Some (-1) \<Longrightarrow> client_status C = CLIENT_SHUTDOWN" by auto
qed

definition best_ok :: "nat \<Rightarrow> (int \<times> int) option \<Rightarrow> bool" where
  "best_ok n best \<longleftrightarrow> (case best of None \<Rightarrow> True | Some (p, _) \<Rightarrow> nat p < n)"

lemma rout_allowed_accounts:
  assumes "rout_allowed E t ps r best bad C = Some (best', bad', C')" "best_ok (length (smsc_list C)) best"
  shows "frame C C' \<and> in_flight C' = in_flight C \<and> best_ok (length (smsc_list C)) best'"
  using assms
proof (induction ps arbitrary: best bad C)
  case Nil
  then show ?case by simp
next
  case (Cons p ps)
  then obtain conn where c: "conn_at C p = Some conn" by (auto split: option.splits)
  obtain i conn1 where i: "smscconn_info t conn = (i, conn1)" by fastforce
  define C1 where "C1 = put_conn p conn1 C"
  note k = info_put_keys [OF c i, folded C1_def]
  have f1: "frame C C1" by (simp add: C1_def)
  then have l1: "length (smsc_list C1) = length (smsc_list C)" by (simp add: frame_def)
  obtain b1 bd where b: "rout_allowed E t ps r b1 bd C1 = Some (best', bad', C')" "b1 = best \<or> (\<exists>l. b1 = Some (p, l))"
    using Cons.prems(1) c i by (auto simp: Let_def C1_def split: if_splits)
  have "best_ok (length (smsc_list C1)) b1" using b(2) Cons.prems(2) conn_at_lt [OF c] l1 by (auto simp: best_ok_def)
  from Cons.IH [OF b(1) this] show ?case using f1 k(1) l1 frame_trans by auto
qed

definition rout_ok :: "msg \<Rightarrow> client \<Rightarrow> int \<times> client \<Rightarrow> bool" where
  "rout_ok m C y \<longleftrightarrow> frame C (snd y) \<and> fst y \<in> {-1, 0, 1} \<and> in_flight (snd y) = in_flight C +
      (if fst y = 1 \<or> fst y = 0 \<and> client_status C \<noteq> CLIENT_SHUTDOWN then {# key m #} else {#})"

text \<open>What \<^verbatim>\<open>smsc2_rout\<close> does after the two loops, with the function for the recursive call as an argument.\<close>

definition rout_end ::
    "(msg \<Rightarrow> client \<Rightarrow> (int \<times> client) option) \<Rightarrow> client_ops \<Rightarrow> msg \<Rightarrow> (int \<times> int) option \<Rightarrow> bool \<Rightarrow> client \<Rightarrow> (int \<times> client) option" where
  "rout_end f E m1 best bad C2 =
     (case best of
        Some (p, _) \<Rightarrow>
          (let m2 = m1\<lparr>m_state := MSG_NOT_SENT\<rparr>; (ret, conn) = smscconn_send E (smsc_list C2 ! nat p) m2; C3 = put_conn p conn C2
           in if ret = -1 then f m2 C3 else Some (1, C3))
      | None \<Rightarrow>
          if bad then Some (0, if client_status C2 \<noteq> CLIENT_SHUTDOWN then produce_outgoing_msg E m1 C2 else C2)
          else if client_status C2 = CLIENT_SHUTDOWN then Some (0, C2) else Some (-1, C2))"

lemma rout_ok_shift:
  assumes "rout_ok m1 C2 y" "frame C C2" "in_flight C2 = in_flight C" "key m1 = key m"
  shows "rout_ok m C y"
  using assms frame_trans by (auto simp: rout_ok_def frame_def)

lemma rout_end_ok:
  assumes E: "client_ops_spec E" and f: "\<And>m C y. f m C = Some y \<Longrightarrow> rout_ok m C y"
    and b: "best_ok (length (smsc_list C2)) best" and r: "rout_end f E m1 best bad C2 = Some y"
  shows "rout_ok m1 C2 y"
proof (cases best)
  case None
  then show ?thesis
    using r produce_in_flight(1) [OF E, of m1 C2] frame_produce [OF E, of C2 m1]
    by (auto simp: rout_ok_def rout_end_def split: if_splits)
next
  case (Some pb)
  obtain p l where pb: "best = Some (p, l)" using Some by (cases pb) auto
  define m2 where "m2 = m1\<lparr>m_state := MSG_NOT_SENT\<rparr>"
  obtain rt conn where s: "smscconn_send E (smsc_list C2 ! nat p) m2 = (rt, conn)" by fastforce
  have lt: "nat p < length (smsc_list C2)" using b pb by (simp add: best_ok_def)
  have i3: "in_flight (put_conn p conn C2) = in_flight C2 + (if rt = -1 then {#} else {# key m1 #})"
    using put_in_flight [OF lt] conn_keys_send [OF E s] by (simp add: m2_def)
  have f3: "frame C2 (put_conn p conn C2)" by simp
  from r pb s have r2: "(if rt = -1 then f m2 (put_conn p conn C2) else Some (1, put_conn p conn C2)) = Some y"
    by (auto simp: m2_def Let_def rout_end_def split: if_splits)
  show ?thesis
  proof (cases "rt = -1")
    case True
    with r2 have "rout_ok m2 (put_conn p conn C2) y" using f by simp
    then show ?thesis by (rule rout_ok_shift) (use f3 i3 True in \<open>simp_all add: m2_def\<close>)
  next
    case False
    then show ?thesis using r2 f3 i3 by (auto simp: rout_ok_def)
  qed
qed

lemma rout_body_ok:
  assumes E: "client_ops_spec E" and f: "\<And>m C y. f m C = Some y \<Longrightarrow> rout_ok m C y"
    and p: "rout_preferred E t (r_preferred_smsc (routing_info m)) m C = Some (None, m1, C1)"
    and q: "rout_allowed E t ps (routing_info m1) None False C1 = Some (best, bad, C2)"
    and r: "rout_end f E m1 best bad C2 = Some y"
  shows "rout_ok m C y"
proof -
  note a = rout_preferred_accounts [OF E p]
  have b: "frame C1 C2 \<and> in_flight C2 = in_flight C1 \<and> best_ok (length (smsc_list C1)) best"
    by (rule rout_allowed_accounts [OF q]) (simp add: best_ok_def)
  then have "best_ok (length (smsc_list C2)) best" by (simp add: frame_def)
  from rout_end_ok [OF E f this r] show ?thesis
    by (rule rout_ok_shift) (use a b frame_trans in auto)
qed

lemma smsc2_rout_accounts:
  assumes "client_ops_spec E" "smsc2_rout E t uninit m C = Some y"
  shows "rout_ok m C y"
proof -
  have "client_ops_spec E \<longrightarrow> rout_ok m C y"
  proof (rule smsc2_rout.raw_induct [where P = "\<lambda>E t uninit m C y. client_ops_spec E \<longrightarrow> rout_ok m C y", OF _ assms(2)], intro impI)
    fix f E t uninit m C y
    assume IH: "\<And>E t uninit m C y. f E t uninit m C = Some y \<Longrightarrow> client_ops_spec E \<longrightarrow> rout_ok m C y"
      and E: "client_ops_spec E"
      and r: "(if smsc_list C = [] then Some (-1, C)
      else Option.bind (rout_preferred E t (r_preferred_smsc (routing_info m)) m C) (\<lambda>(r, m1, C1).
        case r of Some ret \<Rightarrow> Some (ret, C1)
        | None \<Rightarrow>
           Option.bind (allowed_smsc_len uninit (r_allowed_smsc (routing_info m1))) (\<lambda>len.
            if len > int (length (r_allowed_smsc (routing_info m1))) then None
            else Option.bind (rout_allowed E t (take (nat len) (r_allowed_smsc (routing_info m1))) (routing_info m1) None False C1)
              (\<lambda>(best, bad, C2).
                 case best of
                   Some (p, _) \<Rightarrow>
                     (let m2 = m1\<lparr>m_state := MSG_NOT_SENT\<rparr>; (ret, conn) = smscconn_send E (smsc_list C2 ! nat p) m2;
                          C3 = put_conn p conn C2
                      in if ret = -1 then f E t uninit m2 C3 else Some (1, C3))
                 | None \<Rightarrow>
                     if bad then Some (0, if client_status C2 \<noteq> CLIENT_SHUTDOWN then produce_outgoing_msg E m1 C2 else C2)
                     else if client_status C2 = CLIENT_SHUTDOWN then Some (0, C2) else Some (-1, C2))))) = Some y"
    have fi: "\<And>m C y. f E t uninit m C = Some y \<Longrightarrow> rout_ok m C y" using IH E by blast
    show "rout_ok m C y"
    proof (cases "smsc_list C = []")
      case True
      then have "y = (-1, C)" using r by simp
      then show ?thesis by (simp add: rout_ok_def)
    next
      case False
      note r1 = r [unfolded if_not_P [OF False]]
      then obtain x m1 C1 where p: "rout_preferred E t (r_preferred_smsc (routing_info m)) m C = Some (x, m1, C1)"
        by (cases "rout_preferred E t (r_preferred_smsc (routing_info m)) m C") auto
      show ?thesis
      proof (cases x)
        case (Some ret)
        then have "y = (ret, C1)" using r1 p by simp
        then show ?thesis using rout_preferred_accounts [OF E p] Some by (auto simp: rout_ok_def)
      next
        case None
        with r1 p obtain len where len: "Option.bind
            (rout_allowed E t (take (nat len) (r_allowed_smsc (routing_info m1))) (routing_info m1) None False C1)
            (\<lambda>(best, bad, C2). rout_end (f E t uninit) E m1 best bad C2) = Some y"
          unfolding rout_end_def
          by (cases "allowed_smsc_len uninit (r_allowed_smsc (routing_info m1))") (auto split: if_split_asm)
        then obtain best bad C2 where
          "rout_allowed E t (take (nat len) (r_allowed_smsc (routing_info m1))) (routing_info m1) None False C1 = Some (best, bad, C2)"
          "rout_end (f E t uninit) E m1 best bad C2 = Some y"
          by (auto simp: bind_eq_Some_conv)
        then show ?thesis using rout_body_ok [where f = "f E t uninit", OF E fi p [unfolded None]] by blast
      qed
    qed
  qed
  then show ?thesis using assms(1) by simp
qed

subsection \<open>The router accounts for every message\<close>

definition ledger :: "client \<Rightarrow> msg_key multiset" where
  "ledger C = in_flight C + reported C"

definition has_dbbox :: "client \<Rightarrow> bool" where
  "has_dbbox C \<longleftrightarrow> dbbox_client C \<noteq> None"

lemma send_dbbox_reported:
  assumes "has_dbbox C"
  shows "reported (snd (send_msg_dbbox_server r n C)) = reported C + mis_keys [r]"
    "in_flight (snd (send_msg_dbbox_server r n C)) = in_flight C"
    "has_dbbox (snd (send_msg_dbbox_server r n C))"
    "smsc_list (snd (send_msg_dbbox_server r n C)) = smsc_list C"
    "outgoing_msg (snd (send_msg_dbbox_server r n C)) = outgoing_msg C"
    "client_status (snd (send_msg_dbbox_server r n C)) = client_status C"
    "max_retry_limit (snd (send_msg_dbbox_server r n C)) = max_retry_limit C"
    "max_msg_duration (snd (send_msg_dbbox_server r n C)) = max_msg_duration C"
  using assms by (auto simp: send_msg_dbbox_server_def reported_def in_flight_def has_dbbox_def ac_simps split: option.splits)

lemma mis_db_insert_result:
  assumes "has_dbbox C" "mis_db_insert a i rt sid smid pdu st ip C = Some C'"
  shows "reported C' = reported C + {# (a, i) #}" "in_flight C' = in_flight C" "has_dbbox C'" "smsc_list C' = smsc_list C"
    "outgoing_msg C' = outgoing_msg C" "client_status C' = client_status C"
proof -
  obtain r where "C' = snd (send_msg_dbbox_server (Insert_mis r) 0 C)" "im_account_name r = a" "im_account_msg_id r = i"
    using assms(2) by (cases pdu) (auto simp: mis_db_insert_def)
  then show "reported C' = reported C + {# (a, i) #}" "in_flight C' = in_flight C" "has_dbbox C'" "smsc_list C' = smsc_list C"
    "outgoing_msg C' = outgoing_msg C" "client_status C' = client_status C"
    using send_dbbox_reported [OF assms(1)] by simp_all
qed

lemma report_result:
  assumes "has_dbbox C" "report E m st C = Some C'"
  shows "reported C' = reported C + {# key m #}" "in_flight C' = in_flight C" "has_dbbox C'" "smsc_list C' = smsc_list C"
    "outgoing_msg C' = outgoing_msg C"
  using mis_db_insert_result [OF assms [unfolded report_def]] by (simp_all add: key_def)

lemma report_total: "unpacked E m = Some p \<Longrightarrow> \<exists>C'. report E m st C = Some C'"
  by (simp add: report_def mis_db_insert_def)

lemma smsc_length_result:
  assumes "smsc_length t C = (n, C1)"
  shows "n = int (length (filter (\<lambda>c. c_status c = SMSCCONN_ACTIVE) (smsc_list C)))" "in_flight C1 = in_flight C"
    "reported C1 = reported C" "has_dbbox C1 = has_dbbox C" "outgoing_msg C1 = outgoing_msg C"
    "client_status C1 = client_status C" "map unloaded (smsc_list C1) = map unloaded (smsc_list C)"
proof -
  have s: "si_status (fst (smscconn_info t c)) = c_status c" "unloaded (snd (smscconn_info t c)) = unloaded c" for c
    using info_conn [of t c "fst (smscconn_info t c)" "snd (smscconn_info t c)"] by simp_all
  have l: "map (\<lambda>conn. conn_keys (snd (smscconn_info t conn))) (smsc_list C) = map conn_keys (smsc_list C)" by simp
  show "n = int (length (filter (\<lambda>c. c_status c = SMSCCONN_ACTIVE) (smsc_list C)))" "reported C1 = reported C"
    "in_flight C1 = in_flight C" "has_dbbox C1 = has_dbbox C" "outgoing_msg C1 = outgoing_msg C"
    "client_status C1 = client_status C" "map unloaded (smsc_list C1) = map unloaded (smsc_list C)"
    using assms by (auto simp: smsc_length_def s reported_def in_flight_def comp_def l has_dbbox_def)
qed

lemma router_msg_ledger:
  assumes E: "client_ops_spec E" and d: "has_dbbox C" and r: "router_msg E t uninit m nos C = Some (nos', C')"
  shows "ledger C' \<subseteq># ledger C + {# key m #} \<and> reported C \<subseteq># reported C' \<and> has_dbbox C'"
proof (cases "i_pdu (sm_info m) = None")
  case True
  then show ?thesis using r d by (simp add: router_msg_def)
next
  case pdu: False
  have rep: "ledger C' \<subseteq># ledger C + {# key m #} \<and> reported C \<subseteq># reported C' \<and> has_dbbox C'"
    if "map_option (Pair nos) (report E m st C) = Some (nos', C')" for st
    using that report_result [OF d, of E m st C'] by (auto simp: ledger_def)
  show ?thesis
  proof (cases "m_state m = MSG_SENT_NORESP \<or> m_retries m = max_retry_limit C \<or>
      max_msg_duration C \<noteq> -1 \<and> t - m_retry_time m > max_msg_duration C")
    case True
    then show ?thesis using r pdu rep by (auto simp: router_msg_def split: if_splits)
  next
    case False
    obtain n C1 where n: "smsc_length t C = (n, C1)" by fastforce
    note l1 = smsc_length_result [OF n]
    show ?thesis
    proof (cases "n > 0")
      case True
      then obtain m' y where y: "smsc2_rout E t uninit m' C1 = Some y" "key m' = key m" "C' = snd y"
        using r pdu False n by (auto simp: router_msg_def bind_eq_Some_conv)
      then show ?thesis using smsc2_rout_accounts [OF E y(1)] l1 d by (auto simp: rout_ok_def ledger_def frame_def has_dbbox_def)
    next
      case n0: False
      obtain n2 C2 where n2: "smsc_length t C1 = (n2, C2)" by fastforce
      note l2 = smsc_length_result [OF n2]
      have "C' = (if n2 = 0 then C2\<lparr>outgoing_msg := gwlist_produce E (outgoing_msg C2) m\<rparr> else C2)"
        using r pdu False n n0 n2 by (auto simp: router_msg_def)
      then show ?thesis using E l1 l2 d by (auto simp: client_ops_spec_def ledger_def in_flight_def reported_def has_dbbox_def)
    qed
  qed
qed

lemma extract_ledger:
  assumes "client_ops_spec E" "gwlist_extract_first (x_msgs E) (outgoing_msg C) = (Some m, l)"
  shows "ledger C = ledger (C\<lparr>outgoing_msg := l\<rparr>) + {# key m #}" "outgoing_msg C = m # l"
  using assms by (auto simp: client_ops_spec_def gw_simps ledger_def in_flight_def reported_def split: list.splits)

lemma extract_none:
  assumes "client_ops_spec E" "gwlist_extract_first (x_msgs E) (outgoing_msg C) = (None, l)"
  shows "C\<lparr>outgoing_msg := l\<rparr> = C" "outgoing_msg C = []"
  using assms by (auto simp: client_ops_spec_def gw_simps split: list.splits)

lemma router_msgs_ledger:
  assumes E: "client_ops_spec E"
  shows "has_dbbox C \<Longrightarrow> router_msgs E t uninit k nos C = Some (nos', C') \<Longrightarrow>
    ledger C' \<subseteq># ledger C \<and> reported C \<subseteq># reported C' \<and> has_dbbox C'"
proof (induction k arbitrary: nos C)
  case 0
  then show ?case by simp
next
  case (Suc k)
  show ?case
  proof (cases "gwlist_extract_first (x_msgs E) (outgoing_msg C)")
    case (Pair om l)
    show ?thesis
    proof (cases om)
      case None
      then show ?thesis using Suc.IH [of C] Suc.prems Pair extract_none(1) [OF E Pair [unfolded None]] by simp
    next
      case (Some m)
      note x = extract_ledger [OF E Pair [unfolded Some]]
      from Suc.prems Pair Some obtain nos1 C1 where
        1: "router_msg E t uninit m nos (C\<lparr>outgoing_msg := l\<rparr>) = Some (nos1, C1)" "router_msgs E t uninit k nos1 C1 = Some (nos', C')"
        by (auto split: option.splits)
      have "ledger C1 \<subseteq># ledger (C\<lparr>outgoing_msg := l\<rparr>) + {# key m #} \<and> reported (C\<lparr>outgoing_msg := l\<rparr>) \<subseteq># reported C1 \<and>
          has_dbbox C1"
        by (rule router_msg_ledger [OF E _ 1(1)]) (use Suc.prems in \<open>simp add: has_dbbox_def\<close>)
      moreover have "reported (C\<lparr>outgoing_msg := l\<rparr>) = reported C" by (simp add: reported_def)
      ultimately show ?thesis
        using Suc.IH [OF _ 1(2)] x(1) subset_mset.order_trans [of "ledger C'" "ledger C1" "ledger C"]
          subset_mset.order_trans [of "reported C" "reported C1" "reported C'"] by auto
    qed
  qed
qed

lemma send_reverse_ledger [simp]:
  "ledger (snd (send_msg_reverse_server r C)) = ledger C" "reported (snd (send_msg_reverse_server r C)) = reported C"
  by (auto simp: send_msg_reverse_server_def ledger_def in_flight_def reported_def split: list.splits)

definition all_down :: "client \<Rightarrow> bool" where
  "all_down C \<longleftrightarrow> (\<forall>c \<in> set (smsc_list C). c_status c \<noteq> SMSCCONN_ACTIVE)"

lemma all_down_unloaded: "map unloaded (smsc_list C') = map unloaded (smsc_list C) \<Longrightarrow> all_down C \<Longrightarrow> all_down C'"
proof -
  assume "map unloaded (smsc_list C') = map unloaded (smsc_list C)" and a: "all_down C"
  from arg_cong [OF this(1), of "map c_status"] have "map c_status (smsc_list C') = map c_status (smsc_list C)"
    by (simp add: comp_def)
  then have "set (map c_status (smsc_list C')) = set (map c_status (smsc_list C))" by (rule arg_cong)
  then have eq: "c_status ` set (smsc_list C') = c_status ` set (smsc_list C)" unfolding set_map .
  have alt: "all_down D \<longleftrightarrow> SMSCCONN_ACTIVE \<notin> c_status ` set (smsc_list D)" for D
    unfolding all_down_def image_iff by metis
  show "all_down C'" using a unfolding alt eq .
qed

lemma router_msg_down:
  assumes E: "client_ops_spec E" and d: "has_dbbox C" and a: "all_down C" and u: "unpacked E m \<noteq> None"
  shows "\<exists>C'. router_msg E t uninit m nos C = Some (nos, C') \<and> ledger C' = ledger C + {# key m #} \<and> has_dbbox C' \<and>
    map unloaded (smsc_list C') = map unloaded (smsc_list C) \<and> (\<exists>l. outgoing_msg C' = outgoing_msg C @ l)"
proof -
  obtain p where p: "unpacked E m = Some p" using u by auto
  then have pdu: "i_pdu (sm_info m) \<noteq> None" by (auto simp: unpacked_def split: option.splits)
  have rep: ?thesis if "router_msg E t uninit m nos C = map_option (Pair nos) (report E m st C)" for st
  proof -
    obtain C1 where r: "report E m st C = Some C1" using report_total [OF p] by blast
    from report_result [OF d r] show ?thesis by (intro exI [of _ C1]) (simp add: that r ledger_def)
  qed
  show ?thesis
  proof (cases "m_state m = MSG_SENT_NORESP \<or> m_retries m = max_retry_limit C \<or>
      max_msg_duration C \<noteq> -1 \<and> t - m_retry_time m > max_msg_duration C")
    case True
    have "router_msg E t uninit m nos C = map_option (Pair nos) (report E m (if m_state m = MSG_SENT_NORESP then 0x405 else 0x404) C)"
      using pdu True by (auto simp: router_msg_def)
    then show ?thesis by (rule rep)
  next
    case False
    obtain n C1 where n: "smsc_length t C = (n, C1)" by fastforce
    note l1 = smsc_length_result [OF n]
    have z: "n = 0" using l1(1) a by (simp add: all_down_def)
    obtain n2 C2 where n2: "smsc_length t C1 = (n2, C2)" by fastforce
    note l2 = smsc_length_result [OF n2]
    have z2: "n2 = 0" using l2(1) all_down_unloaded [OF l1(7) a] by (simp add: all_down_def)
    have "router_msg E t uninit m nos C = Some (nos, C2\<lparr>outgoing_msg := gwlist_produce E (outgoing_msg C2) m\<rparr>)"
      using pdu False n z n2 z2 by (auto simp: router_msg_def)
    then show ?thesis using E d l1 l2 by (auto simp: client_ops_spec_def ledger_def in_flight_def reported_def has_dbbox_def)
  qed
qed

lemma router_msgs_down:
  assumes E: "client_ops_spec E"
  shows "has_dbbox C \<Longrightarrow> all_down C \<Longrightarrow> k \<le> length (outgoing_msg C) \<Longrightarrow> (\<forall>m \<in> set (take k (outgoing_msg C)). unpacked E m \<noteq> None) \<Longrightarrow>
    \<exists>C'. router_msgs E t uninit k nos C = Some (nos, C') \<and> ledger C' = ledger C \<and>
      map unloaded (smsc_list C') = map unloaded (smsc_list C)"
proof (induction k arbitrary: C)
  case 0
  then show ?case by simp
next
  case (Suc k)
  then obtain m l where ml: "outgoing_msg C = m # l" by (cases "outgoing_msg C") auto
  then have x: "gwlist_extract_first (x_msgs E) (outgoing_msg C) = (Some m, l)" using E by (simp add: client_ops_spec_def gw_simps)
  define C0 where "C0 = C\<lparr>outgoing_msg := l\<rparr>"
  have h: "has_dbbox C0" "all_down C0" using Suc.prems by (simp_all add: C0_def has_dbbox_def all_down_def)
  have "unpacked E m \<noteq> None" using Suc.prems(4) ml by simp
  from router_msg_down [OF E h this, of t uninit nos] obtain C1 l' where
    1: "router_msg E t uninit m nos C0 = Some (nos, C1)" "ledger C1 = ledger C0 + {# key m #}" "has_dbbox C1"
      "map unloaded (smsc_list C1) = map unloaded (smsc_list C0)" "outgoing_msg C1 = l @ l'"
    by (auto simp: C0_def)
  have "\<exists>C'. router_msgs E t uninit k nos C1 = Some (nos, C') \<and> ledger C' = ledger C1 \<and>
      map unloaded (smsc_list C') = map unloaded (smsc_list C1)"
    by (rule Suc.IH) (use 1 h all_down_unloaded Suc.prems(3,4) ml in auto)
  then show ?case using x 1 extract_ledger(1) [OF E x] by (auto simp: C0_def)
qed

lemma router_flush_result:
  assumes E: "client_ops_spec E"
  shows "has_dbbox C \<Longrightarrow> (\<forall>m \<in> set (outgoing_msg C). i_pdu (sm_info m) \<noteq> None \<longrightarrow> unpacked E m \<noteq> None) \<Longrightarrow> k = length (outgoing_msg C) \<Longrightarrow>
    \<exists>C'. router_flush E k C = Some C' \<and> outgoing_msg C' = [] \<and> smsc_list C' = smsc_list C \<and>
      reported C' = reported C + mset (map key (filter (\<lambda>m. i_pdu (sm_info m) \<noteq> None) (outgoing_msg C)))"
proof (induction k arbitrary: C)
  case 0
  then show ?case by simp
next
  case (Suc k)
  then obtain m l where ml: "outgoing_msg C = m # l" by (cases "outgoing_msg C") auto
  then have x: "gwlist_extract_first (x_msgs E) (outgoing_msg C) = (Some m, l)" using E by (simp add: client_ops_spec_def gw_simps)
  define C0 where "C0 = C\<lparr>outgoing_msg := l\<rparr>"
  have h: "has_dbbox C0" "reported C0 = reported C" "smsc_list C0 = smsc_list C" "outgoing_msg C0 = l"
    using Suc.prems by (simp_all add: C0_def has_dbbox_def reported_def)
  show ?case
  proof (cases "i_pdu (sm_info m) = None")
    case True
    then show ?thesis using Suc.IH [of C0] Suc.prems h x ml by (auto simp: C0_def)
  next
    case False
    then obtain p where "unpacked E m = Some p" using Suc.prems(2) ml by auto
    from report_total [OF this] obtain C1 where
      r: "report E m (if m_state m = MSG_SENT_NORESP then 0x405 else 0x406) C0 = Some C1" by blast
    note r1 = report_result [OF h(1) r]
    have "\<exists>C'. router_flush E k C1 = Some C' \<and> outgoing_msg C' = [] \<and> smsc_list C' = smsc_list C1 \<and>
        reported C' = reported C1 + mset (map key (filter (\<lambda>m. i_pdu (sm_info m) \<noteq> None) (outgoing_msg C1)))"
      by (rule Suc.IH) (use r1 h Suc.prems(2,3) ml in auto)
    then show ?thesis using r r1 h x ml False by (auto simp: C0_def)
  qed
qed

lemma move_preferred_result:
  "move_preferred k j ret pref allow = Some (p', a') \<Longrightarrow>
     length p' = length pref \<and> length a' = length allow \<and> (\<forall>i < ret. a' ! i = allow ! i) \<and> (\<forall>i < j. p' ! i = pref ! i) \<and>
     (\<forall>i. j \<le> i \<longrightarrow> i < j + k \<longrightarrow> p' ! i = -1) \<and> (\<forall>i \<ge> j + k. p' ! i = pref ! i)"
proof (induction k arbitrary: j ret pref allow)
  case 0
  then show ?case by (auto split: if_splits)
next
  case (Suc k)
  then have b: "j < length pref" "ret < length allow"
    and r: "move_preferred k (Suc j) (Suc ret) (pref[j := -1]) (allow[ret := pref ! j]) = Some (p', a')"
    by (auto split: if_splits)
  note IH = Suc.IH [OF r]
  have "p' ! j = -1" using IH b by simp
  moreover have "p' ! i = -1" if "j \<le> i" "i < j + Suc k" for i
    using IH that \<open>p' ! j = -1\<close> by (cases "i = j") auto
  ultimately show ?case using IH by auto
qed

section \<open>Properties of the routing\<close>


text \<open>A small process: two connections of which the second denies the prefix 99, and a message.\<close>

definition sample_ops :: client_ops where
  "sample_ops =
     \<lparr> x_ops = octstr_ref, x_edit = octstr_edit_ref, x_msgs = gwlist_ref, x_items = gwlist_ref, gwlist_produce = (\<lambda>l m. l @ [m]),
       prefix_match = (\<lambda>p s. if take (length p) s = p then 1 else 0), gw_regex_match_pre = (\<lambda>p s. 0), octstr_isnum = (\<lambda>s. 1),
       format_ulong = (\<lambda>w. replicate (unat w) (CHR ''#'')),
       pdu_unpack = (\<lambda>s. None), pdu_pack = (\<lambda>p. None) \<rparr>"

definition sample_smpp :: smpp where
  "sample_smpp =
     \<lparr> msgs_to_send = [], sent_msgs = dict_create 10 False, message_id_counter = counter_create, s_quitting = False,
       throttling_err_time = 0, s_system_type = None, s_username = ''u'', s_password = ''p'', s_address_range = None,
       s_service_type = None, masking_prefix = None, s_source_addr_ton = -1, s_source_addr_npi = -1, s_dest_addr_ton = -1,
       s_dest_addr_npi = -1, s_bind_addr_ton = 0, s_bind_addr_npi = 0, enquire_link_interval = 30, max_pending_submits = 10,
       s_version = 0x34, s_priority = 0, smpp_msg_id_type = -1, alt_charset = None, connection_timeout = 300, wait_ack = 60,
       wait_ack_action = 1, deliver_sm_source = 1 \<rparr>"

definition sample_conn :: "octstr \<Rightarrow> conn_status \<Rightarrow> octstr option \<Rightarrow> smscconn" where
  "sample_conn cid st denied =
     \<lparr> c_status = st, c_load = 0, c_bind_sent = 1, c_why_killed = SMSCCONN_ALIVE, c_connect_time = 0, c_received = counter_create,
       c_sent = counter_create, c_failed = counter_create, c_is_stopped = False, c_id = cid, c_allowed_prefix = None,
       c_denied_prefix = denied, c_allowed_prefix_regex = None, c_denied_prefix_regex = None, c_smsc_type = ''all'', c_mode = 1,
       c_data = sample_smpp \<rparr>"

definition sample_client :: "smscconn list \<Rightarrow> client" where
  "sample_client conns =
     \<lparr> outgoing_msg = [], smsc_list = conns, list_readers = 0, smsc_running = True, client_status = CLIENT_RUNNING, outgoing_msg_counter = counter_create,
       incoming_msg_counter = counter_create, global_q_min = -1, global_q_max = -1, max_retry_limit = 1, max_msg_duration = -1,
       dbbox_client = Some (True, []), dbbox_q_limit = -1, dropped = [], reverse_clients = [] \<rparr>"

definition sample_msg :: "int list \<Rightarrow> int list \<Rightarrow> msg" where
  "sample_msg pref allow =
     (msg_create \<lparr> r_source_addr = ''Bank'', r_destination_addr = ''9912345678'', r_preferred_smsc = pref, r_allowed_smsc = allow,
        r_data_coding = 0, r_esm_class = 0, r_more_messages_to_send = 0, r_content = None \<rparr>)
     \<lparr> sm_info := \<lparr> i_pdu = Some ''....pdu'', i_account_name = Some ''acc'', i_account_msg_id = Some ''id1'', i_req_time = None,
         i_client_ip = None \<rparr> \<rparr>"

lemmas sample_defs = sample_ops_def sample_smpp_def sample_conn_def sample_client_def sample_msg_def msg_create_def


text \<open>
  C13: a round of the router never makes two messages out of one.  A message in flight is taken out when it is
  reported, and nothing that was reported is taken back: whatever the state of the connections, the messages in flight together with the
  reports afterwards are among those before.
\<close>

theorem msg_router_ledger:
  assumes "client_ops_spec E" "has_dbbox C" "msg_router E t uninit nos C = Some (nos', C')"
  shows "in_flight C' + reported C' \<subseteq># in_flight C + reported C \<and> reported C \<subseteq># reported C'"
proof -
  have "ledger C' \<subseteq># ledger C \<and> reported C \<subseteq># reported C'"
    using assms(3) router_msgs_ledger [OF assms(1,2), of t uninit "length (outgoing_msg C)" nos]
    by (auto simp: msg_router_def split: if_splits)
  then show ?thesis by (simp add: ledger_def)
qed

definition unpacking_ops :: client_ops where
  "unpacking_ops = sample_ops\<lparr>pdu_unpack := (\<lambda>s. Some (Submit_sm_pdu
     \<lparr> p_sequence_number = 0, p_service_type = None, p_source_addr_ton = 0, p_source_addr_npi = 0, p_source_addr = Some ''Bank'',
       p_dest_addr_ton = 0, p_dest_addr_npi = 0, p_destination_addr = Some ''9912345678'', p_esm_class = 0, p_priority_flag = 0,
       p_registered_delivery = 0, p_data_coding = 0, p_sm_length = 2, p_short_message = Some ''hi'', p_more_messages_to_send = 0,
       p_user_response_code = -1 \<rparr>))\<rparr>"

lemma sample_ops_spec [simp]: "client_ops_spec sample_ops" "client_ops_spec unpacking_ops"
proof -
  have "inj (\<lambda>w :: ulong. replicate (unat w) (CHR ''#''))" by (rule injI) (metis length_replicate word_unat_eq_iff)
  then show "client_ops_spec sample_ops" "client_ops_spec unpacking_ops"
    by (simp_all add: client_ops_spec_def sample_ops_def unpacking_ops_def)
qed

theorem msg_router_ledger_witness:
  "let C = (sample_client [sample_conn ''A'' SMSCCONN_CONNECTING None])\<lparr>outgoing_msg := [(sample_msg [-1] [0, -1])\<lparr>m_state := MSG_SENT_NORESP\<rparr>]\<rparr>
   in client_ops_spec unpacking_ops \<and> has_dbbox C \<and>
     (\<exists>C'. msg_router unpacking_ops 5 0 (0, 0) C = Some ((0, 0), C') \<and> reported C' = {# (Some ''acc'', Some ''id1'') #} \<and>
       in_flight C' + reported C' \<subseteq># in_flight C + reported C)"
proof -
  define C where "C = (sample_client [sample_conn ''A'' SMSCCONN_CONNECTING None])\<lparr>outgoing_msg := [(sample_msg [-1] [0, -1])\<lparr>m_state := MSG_SENT_NORESP\<rparr>]\<rparr>"
  have d: "has_dbbox C" by (simp add: C_def has_dbbox_def sample_defs)
  have u: "unpacked unpacking_ops ((sample_msg [-1] [0, -1])\<lparr>m_state := MSG_SENT_NORESP\<rparr>) \<noteq> None"
    by (simp add: unpacked_def sample_defs unpacking_ops_def)
  obtain C' where c: "msg_router unpacking_ops 5 0 (0, 0) C = Some ((0, 0), C')" "reported C' = {# (Some ''acc'', Some ''id1'') #}"
    by (simp add: C_def sample_defs unpacking_ops_def msg_router_def gwlist_ref_def router_msg_def report_def mis_db_insert_def
        unpacked_def send_msg_dbbox_server_def reported_def)
  show ?thesis
    using d c msg_router_ledger [OF sample_ops_spec(2) d c(1)] by (auto simp: Let_def simp flip: C_def)
qed

text \<open>
  C26: while no connection is active nothing is lost: a round of the router over messages with a well-formed PDU ends, keeps every message
  in the list or reports it, and leaves the connections as they are.
\<close>

theorem msg_router_outage:
  assumes "client_ops_spec E" "has_dbbox C" "all_down C" "\<forall>m \<in> set (outgoing_msg C). unpacked E m \<noteq> None"
  shows "\<exists>C'. msg_router E t uninit nos C = Some (nos, C') \<and> in_flight C' + reported C' = in_flight C + reported C \<and>
    map unloaded (smsc_list C') = map unloaded (smsc_list C)"
proof -
  obtain C' where c: "router_msgs E t uninit (length (outgoing_msg C)) nos C = Some (nos, C')" "ledger C' = ledger C"
      "map unloaded (smsc_list C') = map unloaded (smsc_list C)"
    using router_msgs_down [OF assms(1,2,3), of "length (outgoing_msg C)" t uninit nos] assms(4) by auto
  have s: "smsc_list (snd (send_msg_reverse_server r D)) = smsc_list D" for r D
    by (auto simp: send_msg_reverse_server_def split: list.splits)
  have "ledger (snd (send_msg_reverse_server r C')) = ledger C'" for r by simp
  then show ?thesis using c by (auto simp: msg_router_def s simp flip: ledger_def)
qed

theorem msg_router_outage_witness:
  "let C = (sample_client [sample_conn ''A'' SMSCCONN_RECONNECTING None])\<lparr>outgoing_msg := [sample_msg [-1] [0, -1]]\<rparr>
   in client_ops_spec unpacking_ops \<and> has_dbbox C \<and> all_down C \<and> (\<forall>m \<in> set (outgoing_msg C). unpacked unpacking_ops m \<noteq> None) \<and>
     (\<exists>C'. msg_router unpacking_ops 5 0 (0, 0) C = Some ((0, 0), C') \<and> in_flight C' + reported C' = in_flight C + reported C)"
proof -
  define C where "C = (sample_client [sample_conn ''A'' SMSCCONN_RECONNECTING None])\<lparr>outgoing_msg := [sample_msg [-1] [0, -1]]\<rparr>"
  have h: "has_dbbox C" "all_down C" "\<forall>m \<in> set (outgoing_msg C). unpacked unpacking_ops m \<noteq> None"
    by (simp_all add: C_def has_dbbox_def all_down_def unpacked_def sample_defs unpacking_ops_def)
  show ?thesis
    using h msg_router_outage [OF sample_ops_spec(2) h, of 5 0 "(0, 0)"] by (auto simp: Let_def simp flip: C_def)
qed

text \<open>
  When the process ends, every message with a PDU that is still in the list of outgoing messages is reported exactly once, and the
  list is empty.
\<close>

theorem router_flush_reports:
  assumes "client_ops_spec E" "has_dbbox C" "\<forall>m \<in> set (outgoing_msg C). unpacked E m \<noteq> None"
  shows "\<exists>C'. router_flush E (length (outgoing_msg C)) C = Some C' \<and> outgoing_msg C' = [] \<and> smsc_list C' = smsc_list C \<and>
    reported C' = reported C + mset (map key (outgoing_msg C))"
proof -
  have "filter (\<lambda>m. i_pdu (sm_info m) \<noteq> None) (outgoing_msg C) = outgoing_msg C"
    using assms(3) by (intro filter_True) (auto simp: unpacked_def split: option.splits)
  then show ?thesis using router_flush_result [OF assms(1,2)] assms(3) by fastforce
qed

theorem router_flush_reports_witness:
  "let C = (sample_client [])\<lparr>outgoing_msg := [sample_msg [-1] [0, -1], sample_msg [-1] [0, -1]]\<rparr>
   in client_ops_spec unpacking_ops \<and> has_dbbox C \<and> (\<forall>m \<in> set (outgoing_msg C). unpacked unpacking_ops m \<noteq> None) \<and>
     (\<exists>C'. router_flush unpacking_ops 2 C = Some C' \<and> outgoing_msg C' = [] \<and>
        reported C' = {# (Some ''acc'', Some ''id1''), (Some ''acc'', Some ''id1'') #})"
proof -
  define C where "C = (sample_client [])\<lparr>outgoing_msg := [sample_msg [-1] [0, -1], sample_msg [-1] [0, -1]]\<rparr>"
  have h: "has_dbbox C" "\<forall>m \<in> set (outgoing_msg C). unpacked unpacking_ops m \<noteq> None"
    by (simp_all add: C_def has_dbbox_def unpacked_def sample_defs unpacking_ops_def)
  have e: "length (outgoing_msg C) = 2" "reported C + mset (map key (outgoing_msg C)) = {# (Some ''acc'', Some ''id1''), (Some ''acc'', Some ''id1'') #}"
    by (simp_all add: C_def sample_defs reported_def key_def)
  show ?thesis
    using h e router_flush_reports [OF sample_ops_spec(2) h] by (auto simp: Let_def simp flip: C_def)
qed

text \<open>
  The router counts the entries of the two arrays of a message in variables that it does not reset.  After a message with
  allowed connections, a message that has preferred connections only is not sent to any of them, even if all are active: it is
  neither queued nor reported, unless the process dies of the uninitialised length.
\<close>

theorem router_stale_count:
  assumes E: "client_ops_spec E" and d: "has_dbbox C"
    and m: "i_pdu (sm_info m) \<noteq> None" "m_state m \<noteq> MSG_SENT_NORESP" "m_retries m \<noteq> max_retry_limit C" "max_msg_duration C = -1"
    and act: "\<not> all_down C" and run: "client_status C \<noteq> CLIENT_SHUTDOWN"
    and allow: "r_allowed_smsc (routing_info m) = -1 # rest" and an: "0 < an"
  shows "router_msg E t uninit m (pn, an) C = None \<or>
    (\<exists>pn' C'. router_msg E t uninit m (pn, an) C = Some ((pn', an), C') \<and> in_flight C' = in_flight C \<and> reported C' = reported C)"
proof (cases "router_msg E t uninit m (pn, an) C")
  case None
  then show ?thesis by simp
next
  case (Some z)
  obtain n C1 where n: "smsc_length t C = (n, C1)" by fastforce
  note l1 = smsc_length_result [OF n]
  have "n > 0" using l1(1) act by (auto simp: all_down_def filter_empty_conv)
  then obtain pn1 an1 pref al y where
    y: "count_entries pn (r_preferred_smsc (routing_info m)) = Some pn1" "count_entries an (r_allowed_smsc (routing_info m)) = Some an1"
      "move_preferred pn1 0 an1 (r_preferred_smsc (routing_info m)) (r_allowed_smsc (routing_info m)) = Some (pref, al)"
      "smsc2_rout E t uninit (m\<lparr>routing_info := (routing_info m)\<lparr>r_preferred_smsc := pref, r_allowed_smsc := al\<rparr>\<rparr>) C1 = Some y"
      "z = ((pn1, an1), snd y)"
    using Some m n by (auto simp: router_msg_def bind_eq_Some_conv)
  have an1: "an1 = an" using y(2) allow by (simp add: count_entries_def)
  have p0: "\<exists>q. r_preferred_smsc (routing_info m) = q \<and> q \<noteq> [] \<and> (pn1 = 0 \<longrightarrow> q ! 0 = -1)"
    using y(1) by (cases "r_preferred_smsc (routing_info m)") (auto simp: count_entries_def split: option.splits if_splits)
  note mv = move_preferred_result [OF y(3)]
  have "pref ! 0 = -1" "length pref = length (r_preferred_smsc (routing_info m))" using mv p0 by (cases "pn1 = 0"; auto)+
  then obtain ps where ps: "pref = -1 # ps" using p0 by (cases pref) auto
  have "al ! 0 = -1" "length al = length (-1 # rest)" using mv an an1 allow by auto
  then obtain as where as: "al = -1 # as" by (cases al) auto
  have ne: "smsc_list C1 \<noteq> []" using l1(7) act by (auto simp: all_down_def)
  have "smsc2_rout E t uninit (m\<lparr>routing_info := (routing_info m)\<lparr>r_preferred_smsc := pref, r_allowed_smsc := al\<rparr>\<rparr>) C1 =
      (if uninit > 0 then None else Some (-1, C1))"
    using ne ps as run l1(6)
    by (subst smsc2_rout.simps) (auto simp: allowed_smsc_len_def conn_at_def nat_eq_iff take_Cons' split: if_splits)
  then have "y = (-1, C1)" using y(4) by (auto split: if_splits)
  then show ?thesis using Some y(5) an1 l1 by auto
qed

theorem router_stale_count_witness:
  "let C = sample_client [sample_conn ''A'' SMSCCONN_ACTIVE None]; m = sample_msg [0, -1, -1] [-1, -1, -1, -1]
   in route_decision unpacking_ops C (routing_info m) = Deliver_to 0 \<and>
     (router_msg unpacking_ops 5 0 m (0, 1) C = None \<or>
      (\<exists>pn' C'. router_msg unpacking_ops 5 0 m (0, 1) C = Some ((pn', 1), C') \<and> in_flight C' = in_flight C \<and> reported C' = reported C))"
proof -
  define C where "C = sample_client [sample_conn ''A'' SMSCCONN_ACTIVE None]"
  define m where "m = sample_msg [0, -1, -1] [-1, -1, -1, -1]"
  have d: "route_decision unpacking_ops C (routing_info m) = Deliver_to 0"
    by (simp add: C_def m_def route_decision_def entries_def conn_ok_def smscconn_usable_def prefix_refused_def regex_refused_def
        sample_defs unpacking_ops_def Let_def)
  have h: "has_dbbox C" "i_pdu (sm_info m) \<noteq> None" "m_state m \<noteq> MSG_SENT_NORESP" "m_retries m \<noteq> max_retry_limit C"
    "max_msg_duration C = -1" "\<not> all_down C" "client_status C \<noteq> CLIENT_SHUTDOWN" "r_allowed_smsc (routing_info m) = -1 # [-1, -1, -1]"
    by (simp_all add: C_def m_def has_dbbox_def all_down_def sample_defs)
  show ?thesis
    using d router_stale_count [OF sample_ops_spec(2) h, of 1 5 0 0] by (simp add: Let_def flip: C_def m_def)
qed

end
