(* ===== verification/Numerals.thy ===== *)
theory Numerals
  imports Prelude
begin

text \<open>
  The functions of the C library that read and print integers, as the processes use them for message ids, counters and the columns of
  the database, with the lemma that reading undoes printing.
\<close>

section \<open>Reading\<close>

text \<open>\<^verbatim>\<open>strtoll\<close>: white space, a sign, the prefix \<^verbatim>\<open>0x\<close> in base 16, and digits; the result is held within the range of the type.\<close>

definition digit_value :: "char \<Rightarrow> nat" where
  "digit_value c =
     (let n = (of_char c :: nat)
      in if 48 \<le> n \<and> n \<le> 57 then n - 48 else if 97 \<le> n \<and> n \<le> 102 then n - 87 else if 65 \<le> n \<and> n \<le> 70 then n - 55 else 99)"

definition digits_value :: "nat \<Rightarrow> octstr \<Rightarrow> nat" where
  "digits_value base s = foldl (\<lambda>acc c. acc * base + digit_value c) 0 (takeWhile (\<lambda>c. digit_value c < base) s)"

definition strip_0x :: "octstr \<Rightarrow> octstr" where
  "strip_0x s =
     (case s of c # x # d # rest \<Rightarrow>
        if c = CHR ''0'' \<and> (x = CHR ''x'' \<or> x = CHR ''X'') \<and> digit_value d < 16 then d # rest else s
      | _ \<Rightarrow> s)"

definition strtoll :: "octstr \<Rightarrow> nat \<Rightarrow> int" where
  "strtoll s base =
     (let s1 = dropWhile is_blank s;
          (neg, s2) = (case s1 of c # r \<Rightarrow> if c = CHR ''-'' then (True, r) else if c = CHR ''+'' then (False, r) else (False, s1)
                       | [] \<Rightarrow> (False, []));
          v = int (digits_value base (if base = 16 then strip_0x s2 else s2))
      in if neg then max (- (2 ^ 63)) (- v) else min (2 ^ 63 - 1) v)"

section \<open>Printing\<close>

text \<open>Positional notation: the digits of a number, most significant first.\<close>

definition digit_char :: "nat \<Rightarrow> char" where
  "digit_char d = char_of (if d < 10 then 48 + d else 87 + d)"

fun digits :: "nat \<Rightarrow> nat \<Rightarrow> octstr" where
  "digits base n = (if base < 2 then [] else if n < base then [digit_char n] else digits base (n div base) @ [digit_char (n mod base)])"

declare digits.simps [simp del]

lemma digit_value_char: "d < 16 \<Longrightarrow> digit_value (digit_char d) = d"
  by (auto simp: digit_value_def digit_char_def Let_def)

lemma digits_value_snoc:
  assumes "\<forall>c \<in> set s. digit_value c < base" "digit_value c < base"
  shows "digits_value base (s @ [c]) = digits_value base s * base + digit_value c"
proof -
  have 1: "takeWhile (\<lambda>c. digit_value c < base) s = s" using assms(1) by (simp add: takeWhile_eq_all_conv)
  have 2: "takeWhile (\<lambda>c. digit_value c < base) (s @ [c]) = s @ [c]" using assms by (simp add: takeWhile_eq_all_conv)
  show ?thesis unfolding digits_value_def 1 2 by simp
qed

lemma digits_valid:
  assumes "2 \<le> base" "base \<le> 16"
  shows "\<forall>c \<in> set (digits base n). \<exists>d < base. c = digit_char d" "digits_value base (digits base n) = n" "digits base n \<noteq> []"
proof -
  have "(\<forall>c \<in> set (digits base n). \<exists>d < base. c = digit_char d) \<and> digits_value base (digits base n) = n \<and> digits base n \<noteq> []"
    using assms
  proof (induction base n rule: digits.induct)
    case (1 base n)
    show ?case
    proof (cases "n < base")
      case True
      then show ?thesis using "1.prems" by (auto simp: digits.simps [of base n] digits_value_def digit_value_char)
    next
      case False
      let ?s = "digits base (n div base)"
      have IH: "\<forall>c \<in> set ?s. \<exists>d < base. c = digit_char d" "digits_value base ?s = n div base" using 1 False by auto
      have m: "n mod base < base" using "1.prems" by simp
      have "\<forall>c \<in> set ?s. digit_value c < base" using IH(1) "1.prems" digit_value_char by fastforce
      moreover have "digit_value (digit_char (n mod base)) = n mod base" using digit_value_char less_le_trans [OF m "1.prems"(2)] by blast
      ultimately have "digits_value base (?s @ [digit_char (n mod base)]) = n" using m IH(2) by (simp add: digits_value_snoc)
      moreover have "\<exists>d < base. digit_char (n mod base) = digit_char d" using m by blast
      ultimately show ?thesis using False "1.prems" IH(1) by (simp add: digits.simps [of base n])
    qed
  qed
  then show "\<forall>c \<in> set (digits base n). \<exists>d < base. c = digit_char d" "digits_value base (digits base n) = n" "digits base n \<noteq> []" by blast+
qed

lemma digit_char_neq:
  assumes "d < 16"
  shows "digit_char d \<noteq> CHR 0x00" "\<not> is_blank (digit_char d)" "digit_char d \<noteq> CHR ''-''" "digit_char d \<noteq> CHR ''+''"
    "digit_char d \<noteq> CHR ''x''" "digit_char d \<noteq> CHR ''X''"
proof -
  have "d \<in> set [0..<16]" using assms by simp
  moreover have "list_all (\<lambda>d. digit_char d \<noteq> CHR 0x00 \<and> \<not> is_blank (digit_char d) \<and> digit_char d \<noteq> CHR ''-'' \<and> digit_char d \<noteq> CHR ''+'' \<and>
      digit_char d \<noteq> CHR ''x'' \<and> digit_char d \<noteq> CHR ''X'') [0..<16]" by code_simp
  ultimately show "digit_char d \<noteq> CHR 0x00" "\<not> is_blank (digit_char d)" "digit_char d \<noteq> CHR ''-''" "digit_char d \<noteq> CHR ''+''"
    "digit_char d \<noteq> CHR ''x''" "digit_char d \<noteq> CHR ''X''" by (simp_all add: list_all_iff)
qed

lemma strtoll_digits:
  assumes base: "2 \<le> base" "base \<le> 16" and n: "n < 2 ^ 63"
  shows "strtoll (takeWhile (\<lambda>c. c \<noteq> CHR 0x00) (digits base n)) base = int n"
proof -
  note V = digits_valid [OF base, of n]
  have ch: "\<exists>d < 16. c = digit_char d" if "c \<in> set (digits base n)" for c using V(1) that less_le_trans [OF _ base(2)] by blast
  have t: "takeWhile (\<lambda>c. c \<noteq> CHR 0x00) (digits base n) = digits base n" using ch digit_char_neq(1) by (simp add: takeWhile_eq_all_conv) metis
  obtain c r where s: "digits base n = c # r" using V(3) by (cases "digits base n") auto
  have c: "\<not> is_blank c" "c \<noteq> CHR ''-''" "c \<noteq> CHR ''+''" using ch [of c] digit_char_neq unfolding s by force+
  have "x \<noteq> CHR ''x'' \<and> x \<noteq> CHR ''X''" if "x \<in> set (digits base n)" for x using ch [OF that] digit_char_neq(5,6) by auto
  then have x: "strip_0x (digits base n) = digits base n" by (auto simp: strip_0x_def s split: list.split)
  have "dropWhile is_blank (digits base n) = digits base n" using c(1) by (simp add: s)
  then show ?thesis unfolding t using V(2) n c x by (auto simp: strtoll_def Let_def s)
qed

section \<open>Decimal numbers\<close>

text \<open>How \<^verbatim>\<open>%d\<close> prints a number, and how \<^verbatim>\<open>atoi\<close> reads one; the numbers that do not fit an \<^verbatim>\<open>int\<close> are left out of the claims.\<close>

definition decimal :: "int \<Rightarrow> octstr" where
  "decimal i = (if i < 0 then CHR ''-'' # digits 10 (nat (- i)) else digits 10 (nat i))"

definition atoi :: "octstr \<Rightarrow> int" where
  "atoi s = strtoll (c_string s) 10"

lemma digits_plain:
  assumes "c \<in> set (digits 10 n)"
  shows "\<exists>d < 10. c = char_of (48 + d :: nat)"
  using digits_valid(1) [of 10 n] assms by (force simp: digit_char_def)

lemma decimal_chars:
  assumes "c \<in> set (decimal i)"
  shows "c = CHR ''-'' \<or> (\<exists>d < 10. c = char_of (48 + d :: nat))"
  using assms digits_plain by (fastforce simp: decimal_def split: if_splits)

lemma decimal_not_Nil: "decimal i \<noteq> []"
  using digits_valid(3) [of 10 "nat i"] by (simp add: decimal_def)

lemma atoi_decimal:
  assumes "- (2 ^ 63) < i" "i < 2 ^ 63"
  shows "atoi (decimal i) = i"
proof (cases "i < 0")
  case False
  with assms have "nat i < 2 ^ 63" by (simp add: nat_less_iff)
  from strtoll_digits [OF _ _ this, of 10] False show ?thesis by (simp add: atoi_def decimal_def c_string_def)
next
  case True
  let ?n = "nat (- i)"
  have n: "?n < 2 ^ 63" using assms by (simp add: nat_less_iff)
  have z: "\<forall>c \<in> set (digits 10 ?n). c \<noteq> CHR 0x00" 
  proof
    fix c assume "c \<in> set (digits 10 ?n)"
    with digits_valid(1) [of 10 ?n] obtain d where "d < 10" "c = digit_char d" by auto
    with digit_char_neq(1) [of d] show "c \<noteq> CHR 0x00" by simp
  qed
  then have c: "c_string (CHR ''-'' # digits 10 ?n) = CHR ''-'' # digits 10 ?n" by (simp add: c_string_def takeWhile_eq_all_conv)
  have "\<not> is_blank CHR ''-''" by (simp add: is_blank_def)
  with c digits_valid(2) [of 10 ?n] n True show ?thesis
    by (simp add: atoi_def decimal_def strtoll_def Let_def)
qed

end
