(* ===== verification/Smppio.thy ===== *)
theory Smppio
  imports Router Numerals
begin

text \<open>
  \<^verbatim>\<open>smpp-smsc/smsc_smpp.c\<close>: the thread of a connection to a message centre.  It keeps a window of submitted messages that wait for a
  response, handles the PDUs the centre sends, expires messages that get no response, and hands its messages back to the router
  when the connection is lost.  The state of the thread is the connection, the process it shares with the other threads,
  the local variable \<^verbatim>\<open>pending_submits\<close> and what it has written.  \<open>None\<close> is a panic, a null pointer that is followed or
  given to the octet string library, or a position outside a list.
\<close>

section \<open>PDUs\<close>

record deliver_pdu =
  dv_sequence_number :: ulong
  dv_source_addr :: "octstr option"
  dv_destination_addr :: "octstr option"
  dv_esm_class :: int
  dv_sm_length :: int
  dv_short_message :: "octstr option"
  dv_message_payload :: "octstr option"
  dv_receipted_message_id :: "octstr option"

text \<open>What the centre sends, with the fields the code reads.\<close>

datatype in_pdu =
    In_data_sm ulong
  | In_deliver_sm deliver_pdu
  | In_enquire_link ulong
  | In_enquire_link_resp ulong
  | In_submit_sm_resp ulong int "octstr option"
  | In_bind_transmitter_resp int
  | In_bind_transceiver_resp int
  | In_bind_receiver_resp int
  | In_unbind ulong
  | In_unbind_resp ulong
  | In_generic_nack ulong int
  | In_other ulong

datatype bind_kind = Bind_tx | Bind_trx | Bind_rx

record bind_out =
  bo_kind :: bind_kind
  bo_sequence_number :: ulong
  bo_system_id :: octstr
  bo_password :: octstr
  bo_system_type :: octstr
  bo_interface_version :: int
  bo_address_range :: "octstr option"
  bo_addr_ton :: int
  bo_addr_npi :: int

datatype out_pdu =
    Out_submit sent_pdu
  | Out_bind bind_out
  | Out_enquire_link ulong
  | Out_unbind ulong
  | Out_data_sm_resp ulong int
  | Out_deliver_sm_resp ulong int
  | Out_enquire_link_resp ulong
  | Out_unbind_resp ulong
  | Out_generic_nack ulong int

record smsc_codes =
  k_ROK :: int
  k_RMSGQFUL :: int
  k_RTHROTTLED :: int
  k_RX_T_APPN :: int
  k_RX_R_APPN :: int
  k_RSYSERR :: int
  k_RINVCMDID :: int
  k_RINVSYSID :: int
  k_RINVPASWD :: int
  k_TON_NATIONAL :: int
  k_NPI_E164 :: int
  k_UDH_INDICATOR :: int

text \<open>
  The environment: the functions of the process, the codes of the headers, the functions that cut the words out of a receipt, the
  test of a digit, a \<^verbatim>\<open>submit_sm\<close> as \<^verbatim>\<open>smpp_pdu_create\<close> makes it, the packing of a \<^verbatim>\<open>deliver_sm\<close> and whether the other PDUs can be
  packed, the ids of \<^verbatim>\<open>compare-esm-smscid\<close>, the flag \<^verbatim>\<open>dndcheck_flag\<close>, and whether the writes on the connection succeed, numbered in
  their order.
\<close>

record io_env =
  y_ops :: client_ops
  y_codes :: smsc_codes
  get_many_alphanumeric :: "octstr \<Rightarrow> int \<Rightarrow> octstr"
  get_many_chars :: "octstr \<Rightarrow> int \<Rightarrow> octstr"
  y_isdigit :: "char \<Rightarrow> bool"
  created_submit :: submit_pdu
  deliver_pack :: "deliver_pdu \<Rightarrow> octstr"
  packable :: "out_pdu \<Rightarrow> bool"
  compare_smsc_string :: "octstr list option"
  dndcheck_flag :: int
  write_ok :: "nat \<Rightarrow> bool"

record io_state =
  io_conn :: smscconn
  io_client :: client
  pending_submits :: int
  written :: "out_pdu list"
  writes :: nat

abbreviation io_smpp :: "io_state \<Rightarrow> smpp" where
  "io_smpp st \<equiv> c_data (io_conn st)"

definition set_smpp :: "smpp \<Rightarrow> io_state \<Rightarrow> io_state" where
  "set_smpp s st = st\<lparr>io_conn := (io_conn st)\<lparr>c_data := s\<rparr>\<rparr>"

definition set_status :: "conn_status \<Rightarrow> io_state \<Rightarrow> io_state" where
  "set_status s st = st\<lparr>io_conn := (io_conn st)\<lparr>c_status := s\<rparr>\<rparr>"

text \<open>A fresh sequence number.\<close>

definition next_seq :: "io_state \<Rightarrow> ulong \<times> io_state" where
  "next_seq st =
     (let (n, c) = counter_increase (message_id_counter (io_smpp st)) in (n, set_smpp ((io_smpp st)\<lparr>message_id_counter := c\<rparr>) st))"

definition send_pdu :: "io_env \<Rightarrow> out_pdu \<Rightarrow> io_state \<Rightarrow> int \<times> io_state" where
  "send_pdu Y pdu st =
     (if (case pdu of Out_submit p \<Rightarrow> pdu_pack (y_ops Y) p \<noteq> None | _ \<Rightarrow> packable Y pdu)
      then if write_ok Y (writes st) then (0, st\<lparr>written := written st @ [pdu], writes := Suc (writes st)\<rparr>)
           else (-1, st\<lparr>writes := Suc (writes st)\<rparr>)
      else (-1, st))"

section \<open>Numbers in message ids\<close>

text \<open>The id that is stored: \<open>flag\<close> is 1 for the responses and 2 for the receipts.\<close>

definition msgid :: "io_env \<Rightarrow> int \<Rightarrow> int \<Rightarrow> octstr \<Rightarrow> octstr" where
  "msgid Y flag idtype s =
     (if idtype = -1 then s
      else if idtype AND flag \<noteq> 0 \<or> \<not> octstr_check_range (x_ops (y_ops Y)) s 0 (int (length s)) (y_isdigit Y)
      then format_ulong (y_ops Y) (word_of_int (strtoll (takeWhile (\<lambda>c. c \<noteq> CHR 0x00) s) 16))
      else format_ulong (y_ops Y) (word_of_int (strtoll (takeWhile (\<lambda>c. c \<noteq> CHR 0x00) s) 10)))"

definition handle_deliver_sm_msgid :: "io_env \<Rightarrow> smpp \<Rightarrow> octstr \<Rightarrow> octstr" where
  "handle_deliver_sm_msgid Y s mid = msgid Y 2 (smpp_msg_id_type s) mid"

section \<open>Sending\<close>

definition compare_change_string :: "io_env \<Rightarrow> octstr \<Rightarrow> int" where
  "compare_change_string Y smsc_id =
     (case compare_smsc_string Y of None \<Rightarrow> 1
      | Some ids \<Rightarrow> if \<exists>i \<in> set ids. octstr_item_match (x_ops (y_ops Y)) i smsc_id then 0 else 1)"

definition ton_or :: "int \<Rightarrow> int \<Rightarrow> int" where
  "ton_or configured other = (if configured \<noteq> -1 then configured else other)"

text \<open>The PDU that is built when the check of the do-not-disturb register is on: the message then has none.\<close>

definition dnd_submit :: "io_env \<Rightarrow> smpp \<Rightarrow> routing_info \<Rightarrow> ulong \<Rightarrow> submit_pdu" where
  "dnd_submit Y s r n =
     (created_submit Y)
     \<lparr> p_sequence_number := n, p_service_type := s_service_type s,
       p_source_addr_ton := ton_or (s_source_addr_ton s) (k_TON_NATIONAL (y_codes Y)),
       p_source_addr_npi := ton_or (s_source_addr_npi s) (k_TON_NATIONAL (y_codes Y)),
       p_dest_addr_ton := ton_or (s_dest_addr_ton s) (k_TON_NATIONAL (y_codes Y)),
       p_dest_addr_npi := ton_or (s_dest_addr_npi s) (k_NPI_E164 (y_codes Y)),
       p_sm_length := (case r_content r of None \<Rightarrow> 0 | Some c \<Rightarrow> int (length c)), p_registered_delivery := 1,
       p_priority_flag := s_priority s, p_data_coding := r_data_coding r, p_esm_class := r_esm_class r,
       p_more_messages_to_send := r_more_messages_to_send r, p_short_message := r_content r,
       p_source_addr := Some (r_source_addr r), p_destination_addr := Some (r_destination_addr r) \<rparr>"

definition dnd_prepare :: "io_env \<Rightarrow> msg \<Rightarrow> io_state \<Rightarrow> msg \<times> io_state" where
  "dnd_prepare Y m st =
     (if dndcheck_flag Y \<noteq> 0
      then let (n, st1) = next_seq st; os = pdu_pack (y_ops Y) (Submit_sm_pdu (dnd_submit Y (io_smpp st) (routing_info m) n))
           in (m\<lparr>sm_info := (sm_info m)\<lparr>i_pdu := os\<rparr>\<rparr>, st1)
      else (m, st))"

text \<open>The conversion of the text to the GSM alphabet, when \<^verbatim>\<open>alt-charset\<close> is set.\<close>

definition convert_text :: "io_env \<Rightarrow> smpp \<Rightarrow> submit_pdu \<Rightarrow> submit_pdu option" where
  "convert_text Y s p =
     (if alt_charset s = None then Some p
      else case p_short_message p of
             None \<Rightarrow> if p_esm_class p AND 0x40 \<noteq> 0 then None else Some p
           | Some text \<Rightarrow>
               map_option (\<lambda>g. p\<lparr>p_short_message := Some g\<rparr>)
                 ((if p_esm_class p AND 0x40 \<noteq> 0 then charset_latin1_to_gsm_new else charset_latin1_to_gsm)
                    (x_ops (y_ops Y)) (x_edit (y_ops Y)) text))"

definition masked_source :: "io_env \<Rightarrow> smpp \<Rightarrow> octstr \<Rightarrow> octstr option \<Rightarrow> octstr option" where
  "masked_source Y s source old =
     (case masking_prefix s of None \<Rightarrow> old
      | Some prefix \<Rightarrow>
          if octstr_isnum (y_ops Y) source = 0 \<or> length source < 10
          then Some (prefix @ (if length source > 8 then take 8 source else source))
          else old)"

definition rewrite_submit :: "io_env \<Rightarrow> smscconn \<Rightarrow> routing_info \<Rightarrow> ulong \<Rightarrow> submit_pdu \<Rightarrow> submit_pdu" where
  "rewrite_submit Y conn r n p =
     (let s = c_data conn; udh = k_UDH_INDICATOR (y_codes Y)
      in p\<lparr> p_sequence_number := n, p_source_addr_ton := ton_or (s_source_addr_ton s) (p_source_addr_ton p),
            p_source_addr_npi := ton_or (s_source_addr_npi s) (p_source_addr_npi p),
            p_dest_addr_ton := ton_or (s_dest_addr_ton s) (p_dest_addr_ton p),
            p_dest_addr_npi := ton_or (s_dest_addr_npi s) (p_dest_addr_npi p),
            p_esm_class := (if p_esm_class p AND udh \<noteq> 0 \<and> compare_change_string Y (c_id conn) = 0 then udh else p_esm_class p),
            p_source_addr := masked_source Y s (r_source_addr r) (p_source_addr p) \<rparr>)"

definition seq_of :: "sent_pdu \<Rightarrow> ulong" where
  "seq_of pdu = (case pdu of Submit_sm_pdu p \<Rightarrow> p_sequence_number p | Some_pdu n _ \<Rightarrow> n)"

text \<open>The PDU of a message as it goes out, and the message with the packed PDU.\<close>

definition prepare :: "io_env \<Rightarrow> msg \<Rightarrow> octstr \<Rightarrow> io_state \<Rightarrow> (sent_pdu \<times> msg \<times> io_state) option" where
  "prepare Y m os st =
     (case pdu_unpack (y_ops Y) (octstr_from_position (x_ops (y_ops Y)) os 4) of
        None \<Rightarrow> None
      | Some (Some_pdu n rest) \<Rightarrow> Some (Some_pdu n rest, m, st)
      | Some (Submit_sm_pdu p) \<Rightarrow>
          (case convert_text Y (io_smpp st) p of None \<Rightarrow> None
           | Some p1 \<Rightarrow>
              (let (n, st1) = next_seq st; p2 = rewrite_submit Y (io_conn st) (routing_info m) n p1
               in Some (Submit_sm_pdu p2, m\<lparr>sm_info := (sm_info m)\<lparr>i_pdu := pdu_pack (y_ops Y) (Submit_sm_pdu p2)\<rparr>\<rparr>, st1))))"

definition remember :: "io_env \<Rightarrow> int \<Rightarrow> sent_pdu \<Rightarrow> msg \<Rightarrow> io_state \<Rightarrow> io_state option" where
  "remember Y t pdu m st =
     (case dict_put (x_ops (y_ops Y)) (x_items (y_ops Y)) (sent_msgs (io_smpp st)) (format_ulong (y_ops Y) (seq_of pdu))
             (Some \<lparr> sent_time = t, sent_msg = m\<lparr>m_state := MSG_SENT_NORESP, m_retries := m_retries m + 1\<rparr> \<rparr>) of
        None \<Rightarrow> None
      | Some (d, _) \<Rightarrow> Some ((set_smpp ((io_smpp st)\<lparr>sent_msgs := d\<rparr>) st)\<lparr>pending_submits := pending_submits st + 1\<rparr>))"

text \<open>The loop of \<^verbatim>\<open>send_messages\<close>; a run takes one message from the list, so the length of the list bounds the runs.\<close>

fun send_loop :: "io_env \<Rightarrow> int \<Rightarrow> nat \<Rightarrow> io_state \<Rightarrow> io_state option" where
  "send_loop Y t 0 st = Some st"
| "send_loop Y t (Suc k) st =
     (if pending_submits st < max_pending_submits (io_smpp st)
      then case gwlist_extract_first (x_msgs (y_ops Y)) (msgs_to_send (io_smpp st)) of
             (None, l) \<Rightarrow> Some (set_smpp ((io_smpp st)\<lparr>msgs_to_send := l\<rparr>) st)
           | (Some m0, l) \<Rightarrow>
              (let (m, st1) = dnd_prepare Y m0 (set_smpp ((io_smpp st)\<lparr>msgs_to_send := l\<rparr>) st)
               in case i_pdu (sm_info m) of
                    None \<Rightarrow> send_loop Y t k st1
                  | Some os \<Rightarrow>
                     (case prepare Y m os st1 of None \<Rightarrow> None
                      | Some (pdu, m1, st2) \<Rightarrow>
                         (let (ret, st3) = send_pdu Y (Out_submit pdu) st2
                          in if ret = 0
                             then (case remember Y t pdu m1 st3 of None \<Rightarrow> None | Some st4 \<Rightarrow> send_loop Y t k st4)
                             else Some st3)))
      else Some st)"

definition send_messages :: "io_env \<Rightarrow> int \<Rightarrow> io_state \<Rightarrow> io_state option" where
  "send_messages Y t st =
     (if pending_submits st = -1 then Some st else send_loop Y t (Suc (length (msgs_to_send (io_smpp st)))) st)"

definition send_enquire_link :: "io_env \<Rightarrow> int \<Rightarrow> int \<Rightarrow> io_state \<Rightarrow> int \<times> io_state" where
  "send_enquire_link Y t last_sent st =
     (if t - last_sent < enquire_link_interval (io_smpp st) then (last_sent, st)
      else let (n, st1) = next_seq st in (t, snd (send_pdu Y (Out_enquire_link n) st1)))"

definition send_unbind :: "io_env \<Rightarrow> io_state \<Rightarrow> io_state" where
  "send_unbind Y st = (let (n, st1) = next_seq st in snd (send_pdu Y (Out_unbind n) st1))"

text \<open>\<^verbatim>\<open>open_transmitter\<close>, \<^verbatim>\<open>open_transceiver\<close> and \<^verbatim>\<open>open_receiver\<close>, when the socket could be opened.\<close>

definition open_bind :: "io_env \<Rightarrow> bind_kind \<Rightarrow> io_state \<Rightarrow> io_state" where
  "open_bind Y kind st =
     (let (n, st1) = next_seq st; s = io_smpp st
      in snd (send_pdu Y (Out_bind
           \<lparr> bo_kind = kind, bo_sequence_number = n, bo_system_id = s_username s, bo_password = s_password s,
             bo_system_type = (case s_system_type s of None \<Rightarrow> ''VMA'' | Some x \<Rightarrow> x), bo_interface_version = s_version s,
             bo_address_range = s_address_range s, bo_addr_ton = s_bind_addr_ton s, bo_addr_npi = s_bind_addr_npi s \<rparr>) st1))"

section \<open>Receiving\<close>

definition smpp_status_to_smscconn_failure_reason :: "io_env \<Rightarrow> int \<Rightarrow> failure" where
  "smpp_status_to_smscconn_failure_reason Y status =
     (let K = y_codes Y
      in if status = k_RMSGQFUL K \<or> status = k_RTHROTTLED K \<or> status = k_RX_T_APPN K \<or> status = k_RSYSERR K
         then SMSCCONN_FAILED_TEMPORARILY else SMSCCONN_FAILED_REJECTED)"

definition smscconn_failure_reason_to_smpp_status :: "io_env \<Rightarrow> failure \<Rightarrow> int" where
  "smscconn_failure_reason_to_smpp_status Y reason =
     (case reason of
        SMSCCONN_FAILED_REJECTED \<Rightarrow> k_RX_R_APPN (y_codes Y)
      | SMSCCONN_SUCCESS \<Rightarrow> k_ROK (y_codes Y)
      | _ \<Rightarrow> k_RX_T_APPN (y_codes Y))"

definition get_smscid :: "io_env \<Rightarrow> octstr \<Rightarrow> octstr \<times> int" where
  "get_smscid Y sm =
     (let stat = get_many_chars Y sm 6
      in (get_many_alphanumeric Y sm 1,
          if stat = ''DELIVRD'' then 1 else if stat = ''EXPIRED'' then 2 else if stat = ''DELETED'' then 3
          else if stat = ''UNDELIV'' then 4 else if stat = ''ACCEPTD'' then 5 else if stat = ''UNKNOWN'' then 6
          else if stat = ''REJECTD'' then 7 else 10))"

definition with_failed :: "io_env \<Rightarrow> int \<Rightarrow> msg \<Rightarrow> failure \<Rightarrow> io_state \<Rightarrow> io_state" where
  "with_failed Y t m reason st =
     (let (conn, C) = smscconn_send_failed (y_ops Y) t m reason (io_conn st) (io_client st) in st\<lparr>io_conn := conn, io_client := C\<rparr>)"

definition note_throttling :: "io_env \<Rightarrow> int \<Rightarrow> int \<Rightarrow> io_state \<Rightarrow> io_state" where
  "note_throttling Y t status st =
     set_smpp ((io_smpp st)\<lparr>throttling_err_time := (if status = k_RTHROTTLED (y_codes Y) then t else 0)\<rparr>) st"

definition drop_pending :: "io_state \<Rightarrow> io_state" where
  "drop_pending st = st\<lparr>pending_submits := pending_submits st - 1\<rparr>"

definition take_sent :: "io_env \<Rightarrow> ulong \<Rightarrow> io_state \<Rightarrow> (smpp_msg option \<times> io_state) option" where
  "take_sent Y n st =
     map_option (\<lambda>(r, d). (r, set_smpp ((io_smpp st)\<lparr>sent_msgs := d\<rparr>) st))
       (dict_remove (x_ops (y_ops Y)) (x_items (y_ops Y)) (sent_msgs (io_smpp st)) (format_ulong (y_ops Y) n))"

definition handle_submit_sm_resp :: "io_env \<Rightarrow> int \<Rightarrow> ulong \<Rightarrow> int \<Rightarrow> octstr option \<Rightarrow> io_state \<Rightarrow> io_state option" where
  "handle_submit_sm_resp Y t n status message_id st0 =
     (case take_sent Y n st0 of None \<Rightarrow> None
      | Some (None, st) \<Rightarrow> Some st
      | Some (Some sm, st) \<Rightarrow>
         (case message_id of None \<Rightarrow> None
          | Some mid \<Rightarrow>
             (let m0 = sent_msg sm; tmp = msgid Y 1 (smpp_msg_id_type (io_smpp st)) mid; pdu = unpacked (y_ops Y) m0
              in case mis_db_insert (i_account_name (sm_info m0)) (i_account_msg_id (sm_info m0)) (i_req_time (sm_info m0))
                        (Some (c_id (io_conn st))) (Some tmp) pdu status (i_client_ip (sm_info m0)) (io_client st) of
                   None \<Rightarrow> None
                 | Some C \<Rightarrow>
                    (let m = m0\<lparr>m_state := MSG_SENT_RESP\<rparr>; st1 = st\<lparr>io_client := C\<rparr>
                     in if status \<noteq> 0
                        then Some (drop_pending (with_failed Y t m (smpp_status_to_smscconn_failure_reason Y status)
                                     (note_throttling Y t status st1)))
                        else case smscconn_sent pdu (io_conn st1) (io_client st1) of None \<Rightarrow> None
                             | Some (conn, C1) \<Rightarrow> Some (drop_pending (st1\<lparr>io_conn := conn, io_client := C1\<rparr>))))))"

definition handle_generic_nack :: "io_env \<Rightarrow> int \<Rightarrow> ulong \<Rightarrow> int \<Rightarrow> io_state \<Rightarrow> io_state option" where
  "handle_generic_nack Y t n status st0 =
     (case take_sent Y n st0 of None \<Rightarrow> None
      | Some (None, st) \<Rightarrow> Some st
      | Some (Some sm, st) \<Rightarrow>
          Some (drop_pending (with_failed Y t (sent_msg sm) (smpp_status_to_smscconn_failure_reason Y status)
                  (note_throttling Y t status st))))"

definition receipt_dest :: "io_env \<Rightarrow> smpp \<Rightarrow> deliver_pdu \<Rightarrow> octstr option" where
  "receipt_dest Y s d =
     (let new_dest =
        (if deliver_sm_source s = 1 \<and> dv_source_addr d \<noteq> None then dv_source_addr d
         else if deliver_sm_source s = 0 \<and> dv_destination_addr d \<noteq> None then dv_destination_addr d
         else None)
      in case new_dest of None \<Rightarrow> None
         | Some a \<Rightarrow>
             if length a > 9 \<and> octstr_isnum (y_ops Y) a = 1
             then Some (octstr_from_position (x_ops (y_ops Y)) a (length a - 10)) else Some a)"

definition handle_deliver_sm :: "io_env \<Rightarrow> deliver_pdu \<Rightarrow> io_state \<Rightarrow> io_state option" where
  "handle_deliver_sm Y d st =
     (let C = (io_client st)\<lparr>incoming_msg_counter := snd (counter_increase (incoming_msg_counter (io_client st)))\<rparr>
      in case (if dv_sm_length d = 0 \<and> dv_message_payload d \<noteq> None then dv_message_payload d else dv_short_message d) of
           None \<Rightarrow> None
         | Some sm \<Rightarrow>
            (let (id0, status) = get_smscid Y sm; mid = handle_deliver_sm_msgid Y (io_smpp st) id0;
                 d1 = d\<lparr>dv_receipted_message_id := Some mid\<rparr>;
                 C1 = snd (send_msg_dbbox_server (Insert_status
                        \<lparr> is_smsc_id = c_id (io_conn st), is_smsc_msg_id = Some mid, is_dest_addr = receipt_dest Y (io_smpp st) d1,
                          is_deliver_status = status, is_pdu = deliver_pack Y d1 \<rparr>) 0 C)
             in Some (snd (send_pdu Y (Out_deliver_sm_resp (dv_sequence_number d)
                        (if c_is_stopped (io_conn st) then k_RX_T_APPN (y_codes Y)
                         else smscconn_failure_reason_to_smpp_status Y SMSCCONN_SUCCESS)) (st\<lparr>io_client := C1\<rparr>)))))"

text \<open>The response to a bind, for a connection that can send.\<close>

definition handle_bind_resp :: "io_env \<Rightarrow> int \<Rightarrow> int \<Rightarrow> io_state \<Rightarrow> io_state" where
  "handle_bind_resp Y t status st =
     (if status \<noteq> 0
      then if status = k_RINVSYSID (y_codes Y) \<or> status = k_RINVPASWD (y_codes Y)
           then set_smpp ((io_smpp st)\<lparr>s_quitting := True\<rparr>) st else st
      else st\<lparr>pending_submits := 0, io_conn := (io_conn st)\<lparr>c_status := SMSCCONN_ACTIVE, c_connect_time := t\<rparr>\<rparr>)"

definition handle_bind_receiver_resp :: "io_env \<Rightarrow> int \<Rightarrow> int \<Rightarrow> io_state \<Rightarrow> io_state" where
  "handle_bind_receiver_resp Y t status st =
     (if status \<noteq> 0
      then if status = k_RINVSYSID (y_codes Y) \<or> status = k_RINVPASWD (y_codes Y)
           then set_smpp ((io_smpp st)\<lparr>s_quitting := True\<rparr>) st else st
      else if c_status (io_conn st) \<noteq> SMSCCONN_ACTIVE
      then st\<lparr>io_conn := (io_conn st)\<lparr>c_status := SMSCCONN_ACTIVE_RECV, c_connect_time := t\<rparr>\<rparr> else st)"

fun handle_pdu :: "io_env \<Rightarrow> int \<Rightarrow> in_pdu \<Rightarrow> io_state \<Rightarrow> io_state option" where
  "handle_pdu Y t (In_data_sm n) st =
     Some (snd (send_pdu Y (Out_data_sm_resp n (if c_is_stopped (io_conn st) then k_RX_T_APPN (y_codes Y) else 0))
       (st\<lparr>io_client := (io_client st)\<lparr>incoming_msg_counter := snd (counter_increase (incoming_msg_counter (io_client st)))\<rparr>\<rparr>)))"
| "handle_pdu Y t (In_deliver_sm d) st = handle_deliver_sm Y d st"
| "handle_pdu Y t (In_enquire_link n) st = Some (snd (send_pdu Y (Out_enquire_link_resp n) st))"
| "handle_pdu Y t (In_enquire_link_resp n) st = Some st"
| "handle_pdu Y t (In_submit_sm_resp n status mid) st = handle_submit_sm_resp Y t n status mid st"
| "handle_pdu Y t (In_bind_transmitter_resp status) st = Some (handle_bind_resp Y t status st)"
| "handle_pdu Y t (In_bind_transceiver_resp status) st = Some (handle_bind_resp Y t status st)"
| "handle_pdu Y t (In_bind_receiver_resp status) st = Some (handle_bind_receiver_resp Y t status st)"
| "handle_pdu Y t (In_unbind n) st = Some (snd (send_pdu Y (Out_unbind_resp n) (set_status SMSCCONN_DISCONNECTED st)))"
| "handle_pdu Y t (In_unbind_resp n) st = Some (set_status SMSCCONN_DISCONNECTED st)"
| "handle_pdu Y t (In_generic_nack n status) st = handle_generic_nack Y t n status st"
| "handle_pdu Y t (In_other n) st = Some (snd (send_pdu Y (Out_generic_nack n (k_RINVCMDID (y_codes Y))) st))"

section \<open>Messages without a response, and a lost connection\<close>

text \<open>The loop over the keys of \<^verbatim>\<open>do_queue_cleanup\<close>; the first component is the value returned.\<close>

fun cleanup_keys :: "io_env \<Rightarrow> int \<Rightarrow> int \<Rightarrow> octstr list \<Rightarrow> io_state \<Rightarrow> (int \<times> io_state) option" where
  "cleanup_keys Y t action [] st = Some (0, st)"
| "cleanup_keys Y t action (k1 # keys) st =
     (case dict_get (x_ops (y_ops Y)) (x_items (y_ops Y)) (sent_msgs (io_smpp st)) k1 of
        None \<Rightarrow> None
      | Some None \<Rightarrow> cleanup_keys Y t action keys st
      | Some (Some sm) \<Rightarrow>
          if t - sent_time sm > wait_ack (io_smpp st)
          then if action = 0 then Some (1, st)
               else if action = 1
               then (case dict_remove (x_ops (y_ops Y)) (x_items (y_ops Y)) (sent_msgs (io_smpp st)) k1 of
                       None \<Rightarrow> None
                     | Some (None, d) \<Rightarrow> cleanup_keys Y t action keys (set_smpp ((io_smpp st)\<lparr>sent_msgs := d\<rparr>) st)
                     | Some (Some sm', d) \<Rightarrow>
                         cleanup_keys Y t action keys
                           (drop_pending (with_failed Y t (sent_msg sm') SMSCCONN_FAILED_TEMPORARILY
                              (set_smpp ((io_smpp st)\<lparr>sent_msgs := d\<rparr>) st))))
               else Some (0, st)
          else cleanup_keys Y t action keys st)"

definition do_queue_cleanup :: "io_env \<Rightarrow> int \<Rightarrow> int \<Rightarrow> io_state \<Rightarrow> (int \<times> io_state) option" where
  "do_queue_cleanup Y t action st =
     (if pending_submits st \<le> 0 then Some (0, st)
      else if action = 2 then Some (0, st)
      else cleanup_keys Y t action (dict_keys (sent_msgs (io_smpp st))) st)"

text \<open>What \<^verbatim>\<open>io_thread\<close> does after its loop on a connection: the messages go back to the router.\<close>

fun fail_queued :: "io_env \<Rightarrow> int \<Rightarrow> failure \<Rightarrow> nat \<Rightarrow> io_state \<Rightarrow> io_state" where
  "fail_queued Y t reason 0 st = st"
| "fail_queued Y t reason (Suc k) st =
     (case gwlist_extract_first (x_msgs (y_ops Y)) (msgs_to_send (io_smpp st)) of
        (None, l) \<Rightarrow> set_smpp ((io_smpp st)\<lparr>msgs_to_send := l\<rparr>) st
      | (Some m, l) \<Rightarrow>
          (let st1 = set_smpp ((io_smpp st)\<lparr>msgs_to_send := l\<rparr>) st
           in fail_queued Y t reason k (if i_pdu (sm_info m) = None then st1 else with_failed Y t m reason st1)))"

fun fail_sent :: "io_env \<Rightarrow> int \<Rightarrow> failure \<Rightarrow> octstr list \<Rightarrow> io_state \<Rightarrow> io_state option" where
  "fail_sent Y t reason [] st = Some st"
| "fail_sent Y t reason (k1 # keys) st =
     (case dict_remove (x_ops (y_ops Y)) (x_items (y_ops Y)) (sent_msgs (io_smpp st)) k1 of
        None \<Rightarrow> None
      | Some (r, d) \<Rightarrow>
          (let st1 = set_smpp ((io_smpp st)\<lparr>sent_msgs := d\<rparr>) st
           in fail_sent Y t reason keys (case r of None \<Rightarrow> st1 | Some sm \<Rightarrow> with_failed Y t (sent_msg sm) reason st1)))"

definition connection_lost :: "io_env \<Rightarrow> int \<Rightarrow> bool \<Rightarrow> bool \<Rightarrow> io_state \<Rightarrow> io_state option" where
  "connection_lost Y t was_open transmitter st =
     (let st1 = (if was_open then st\<lparr>io_conn := reset_smpp_counters (io_conn st)\<rparr> else st);
          st2 = set_status SMSCCONN_RECONNECTING st1;
          reason = (if s_quitting (io_smpp st2) then SMSCCONN_FAILED_SHUTDOWN else SMSCCONN_FAILED_TEMPORARILY)
      in if transmitter
         then let st3 = fail_queued Y t reason (Suc (length (msgs_to_send (io_smpp st2)))) st2
              in fail_sent Y t reason (dict_keys (sent_msgs (io_smpp st3))) st3
         else Some st2)"

section \<open>The loop on a connection\<close>

text \<open>
  The PDUs that have arrived, each with the time at which it is handled.  The first component of the result says whether the loop was
  left because the connection is no longer active.
\<close>

definition send_unless_throttled :: "io_env \<Rightarrow> int \<Rightarrow> bool \<Rightarrow> io_state \<Rightarrow> io_state option" where
  "send_unless_throttled Y t transmitter st =
     (if transmitter \<and> t - throttling_err_time (io_smpp st) > 15
      then send_messages Y t (set_smpp ((io_smpp st)\<lparr>throttling_err_time := 0\<rparr>) st)
      else Some st)"

fun io_pdus :: "io_env \<Rightarrow> bool \<Rightarrow> (int \<times> in_pdu) list \<Rightarrow> int \<Rightarrow> io_state \<Rightarrow> (bool \<times> int \<times> io_state) option" where
  "io_pdus Y transmitter [] last_enquire st = Some (False, last_enquire, st)"
| "io_pdus Y transmitter ((t, pdu) # es) last_enquire st =
     (case handle_pdu Y t pdu st of None \<Rightarrow> None
      | Some st1 \<Rightarrow>
          if c_status (io_conn st1) \<noteq> SMSCCONN_ACTIVE \<and> c_status (io_conn st1) \<noteq> SMSCCONN_ACTIVE_RECV
          then Some (True, last_enquire, st1)
          else
            let (le, st2) = send_enquire_link Y t last_enquire st1
            in case send_unless_throttled Y t transmitter st2 of None \<Rightarrow> None
               | Some st3 \<Rightarrow> io_pdus Y transmitter es le st3)"

record io_times =
  last_enquire_sent :: int
  last_response :: int
  last_cleanup :: int

text \<open>
  One run of the inner loop of \<^verbatim>\<open>io_thread\<close> while the thread is not quitting: the PDUs read, whether the reading then failed, and the time.
  The first component of the result says whether the connection is given up.
\<close>

definition io_round ::
    "io_env \<Rightarrow> bool \<Rightarrow> (int \<times> in_pdu) list \<Rightarrow> bool \<Rightarrow> int \<Rightarrow> io_times \<Rightarrow> io_state \<Rightarrow> (bool \<times> io_times \<times> io_state) option" where
  "io_round Y transmitter es read_failed t tm st =
     (let (le, st1) = send_enquire_link Y t (last_enquire_sent tm) st
      in case io_pdus Y transmitter es le st1 of None \<Rightarrow> None
         | Some (left, le2, st2) \<Rightarrow>
            (let tm1 = tm\<lparr>last_enquire_sent := le2, last_response := (if es = [] then last_response tm else fst (last es))\<rparr>
             in if left \<or> read_failed then Some (True, tm1, st2)
                else if connection_timeout (io_smpp st2) > 0 \<and> t - last_response tm1 > connection_timeout (io_smpp st2)
                then Some (True, tm1, st2)
                else
                  case (if transmitter \<and> t - last_cleanup tm1 > wait_ack (io_smpp st2)
                        then map_option (\<lambda>(r, st3). (r, tm1\<lparr>last_cleanup := t\<rparr>, st3)) (do_queue_cleanup Y t (wait_ack_action (io_smpp st2)) st2)
                        else Some (0, tm1, st2)) of
                    None \<Rightarrow> None
                  | Some (r, tm2, st3) \<Rightarrow>
                      if r \<noteq> 0 then Some (True, tm1, st3)
                      else map_option (\<lambda>st4. (False, tm2, st4)) (send_unless_throttled Y t transmitter st3)))"

section \<open>The life of the thread\<close>

text \<open>
  The start of a run of the outer loop of \<^verbatim>\<open>io_thread\<close>; \<open>opened\<close> says whether the socket could be opened.  Only a thread that binds as a
  receiver does not send messages.
\<close>

definition transmits :: "bind_kind \<Rightarrow> bool" where
  "transmits kind \<longleftrightarrow> kind \<noteq> Bind_rx"

definition io_connect :: "io_env \<Rightarrow> bind_kind \<Rightarrow> bool \<Rightarrow> io_state \<Rightarrow> io_state" where
  "io_connect Y kind opened st =
     (let st1 = st\<lparr>io_conn := (io_conn st)\<lparr>c_bind_sent := 1, c_mode := (case kind of Bind_tx \<Rightarrow> 1 | Bind_trx \<Rightarrow> 3 | Bind_rx \<Rightarrow> 2)\<rparr>\<rparr>;
          st2 = (if opened then open_bind Y kind st1 else st1)
      in (set_smpp ((io_smpp st2)\<lparr>throttling_err_time := 0\<rparr>) st2)\<lparr>pending_submits := -1\<rparr>)"

text \<open>The PDUs that arrive after the \<^verbatim>\<open>unbind\<close> of a thread that is quitting, until the centre answers it.\<close>

fun quit_pdus :: "io_env \<Rightarrow> (int \<times> in_pdu) list \<Rightarrow> io_state \<Rightarrow> io_state option" where
  "quit_pdus Y [] st = Some st"
| "quit_pdus Y ((t, pdu) # es) st =
     (if c_status (io_conn st) = SMSCCONN_DISCONNECTED then Some st
      else case handle_pdu Y t pdu st of None \<Rightarrow> None | Some st1 \<Rightarrow> quit_pdus Y es st1)"

text \<open>The last run of a thread that is quitting, on a connection that is open, to its end.\<close>

definition io_quit :: "io_env \<Rightarrow> bind_kind \<Rightarrow> int \<Rightarrow> (int \<times> in_pdu) list \<Rightarrow> io_state \<Rightarrow> io_state option" where
  "io_quit Y kind t es st =
     (case quit_pdus Y es (send_unbind Y st) of None \<Rightarrow> None
      | Some st1 \<Rightarrow> map_option (set_status SMSCCONN_DEAD) (connection_lost Y t True (transmits kind) st1))"

text \<open>\<^verbatim>\<open>shutdown_cb\<close> up to the point where it waits for the threads.\<close>

definition shutdown_request :: "io_state \<Rightarrow> io_state" where
  "shutdown_request st =
     st\<lparr>io_conn := (io_conn st)\<lparr>c_why_killed := SMSCCONN_KILLED_SHUTDOWN, c_data := (io_smpp st)\<lparr>s_quitting := True\<rparr>\<rparr>\<rparr>"

end
