(* ===== verification/Window.thy ===== *)
theory Window
  imports Smppio
begin

unbundle bit_operations_syntax

text \<open>
  What the thread of a connection to a message centre guarantees: its window of submitted messages, over every sequence of events of
  the thread, and where its messages go.
\<close>

section \<open>The table of messages without a response\<close>

abbreviation sent_table :: "io_state \<Rightarrow> smpp_msg dict" where
  "sent_table st \<equiv> sent_msgs (io_smpp st)"

abbreviation queue :: "io_state \<Rightarrow> msg list" where
  "queue st \<equiv> msgs_to_send (io_smpp st)"

definition issued :: "io_env \<Rightarrow> io_state \<Rightarrow> octstr set" where
  "issued Y st = format_ulong (y_ops Y) ` {n. n < counter_n (message_id_counter (io_smpp st))}"

text \<open>A message that can be handled to its end: the octets of its PDU, if it has any, are those of a \<^verbatim>\<open>submit_sm\<close>.\<close>

definition sendable :: "io_env \<Rightarrow> msg \<Rightarrow> bool" where
  "sendable Y m \<longleftrightarrow> i_pdu (sm_info m) = None \<or> unpacked (y_ops Y) m \<noteq> None"

text \<open>A message that waits for its response.\<close>

definition in_transit :: "io_env \<Rightarrow> smpp_msg \<Rightarrow> bool" where
  "in_transit Y sm \<longleftrightarrow> unpacked (y_ops Y) (sent_msg sm) \<noteq> None \<and> m_state (sent_msg sm) = MSG_SENT_NORESP"

text \<open>
  The window: the table is well formed, its keys are sequence numbers that were issued, and \<^verbatim>\<open>pending_submits\<close> counts its entries and does
  not exceed the limit; before the bind is answered it is -1 and the table is empty.
\<close>

definition window_inv :: "io_env \<Rightarrow> io_state \<Rightarrow> bool" where
  "window_inv Y st \<longleftrightarrow>
     dict_inv (x_ops (y_ops Y)) (sent_table st) \<and> dom (dict_map (x_ops (y_ops Y)) (sent_table st)) \<subseteq> issued Y st \<and>
     (pending_submits st = -1 \<and> dict_key_count (sent_table st) = 0 \<or>
      pending_submits st = dict_key_count (sent_table st) \<and> pending_submits st \<le> max 0 (max_pending_submits (io_smpp st))) \<and>
     list_all (sendable Y) (queue st) \<and> list_all (in_transit Y) (dict_values (sent_table st))"

text \<open>
  What is relied on: the library functions behave as documented, and a packed \<^verbatim>\<open>submit_sm\<close>, which starts with a length field of four
  octets, unpacks to a \<^verbatim>\<open>submit_sm\<close>.
\<close>

definition io_spec :: "io_env \<Rightarrow> bool" where
  "io_spec Y \<longleftrightarrow> client_ops_spec (y_ops Y) \<and>
     (\<forall>p os. pdu_pack (y_ops Y) (Submit_sm_pdu p) = Some os \<longrightarrow>
        (\<exists>p'. pdu_unpack (y_ops Y) (drop 4 os) = Some (Submit_sm_pdu p')))"

text \<open>The sequence numbers drawn so far and those the waiting messages may still need.\<close>

definition budget :: "io_state \<Rightarrow> nat" where
  "budget st = unat (counter_n (message_id_counter (io_smpp st))) + 2 * length (queue st)"

definition io_keys :: "io_state \<Rightarrow> msg_key multiset" where
  "io_keys st = mset (map key (outgoing_msg (io_client st))) + conn_keys (io_conn st)"

lemma io_specD:
  assumes "io_spec Y"
  shows "client_ops_spec (y_ops Y)" "octstr_spec (x_ops (y_ops Y))" "octstr_edit_spec (x_edit (y_ops Y))" "gwlist_spec (x_msgs (y_ops Y))"
    "gwlist_spec (x_items (y_ops Y))" "gwlist_produce (y_ops Y) l m = l @ [m]" "inj (format_ulong (y_ops Y))"
    "pdu_pack (y_ops Y) (Submit_sm_pdu p) = Some os \<Longrightarrow> \<exists>p'. pdu_unpack (y_ops Y) (drop 4 os) = Some (Submit_sm_pdu p')"
  using assms by (auto simp: io_spec_def client_ops_spec_def)

lemma set_smpp_simps [simp]:
  "io_conn (set_smpp s st) = (io_conn st)\<lparr>c_data := s\<rparr>" "io_client (set_smpp s st) = io_client st"
  "pending_submits (set_smpp s st) = pending_submits st" "written (set_smpp s st) = written st" "writes (set_smpp s st) = writes st"
  "io_conn (set_status x st) = (io_conn st)\<lparr>c_status := x\<rparr>" "io_client (set_status x st) = io_client st"
  "pending_submits (set_status x st) = pending_submits st"
  by (simp_all add: set_smpp_def set_status_def)

lemma send_pdu_simps [simp]:
  "io_conn (snd (send_pdu Y pdu st)) = io_conn st" "io_client (snd (send_pdu Y pdu st)) = io_client st"
  "pending_submits (snd (send_pdu Y pdu st)) = pending_submits st"
  by (simp_all add: send_pdu_def split: out_pdu.splits)

lemma drop_pending_simps [simp]:
  "io_conn (drop_pending st) = io_conn st" "io_client (drop_pending st) = io_client st"
  "pending_submits (drop_pending st) = pending_submits st - 1"
  by (simp_all add: drop_pending_def)

lemma key_count_bounds:
  assumes "dict_inv X d"
  shows "0 \<le> dict_key_count d" "dict_key_count d = 0 \<longleftrightarrow> dict_map X d = Map.empty" "dict_key_count d = int (length (dict_values d))"
proof -
  show "0 \<le> dict_key_count d" by (simp add: dict_key_count_card [OF assms])
  have "finite (dom (dict_map X d))" using dict_keys_dom(1) [OF assms] by (metis List.finite_set)
  then show "dict_key_count d = 0 \<longleftrightarrow> dict_map X d = Map.empty" by (simp add: dict_key_count_card [OF assms])
  have "length (concat (map (map snd \<circ> bucket) t)) = length (concat (map bucket_keys t))" for t :: "'a item list option list"
    by (induction t) (simp_all add: bucket_keys_eq)
  then show "dict_key_count d = int (length (dict_values d))"
    using assms by (simp add: dict_key_count_def dict_inv_def dict_keys_def dict_values_def)
qed

lemma put_fresh:
  assumes Y: "io_spec Y" and inv: "dict_inv (x_ops (y_ops Y)) d" and new: "k \<notin> dom (dict_map (x_ops (y_ops Y)) d)"
  shows "\<exists>d'. dict_put (x_ops (y_ops Y)) (x_items (y_ops Y)) d k (Some v) = Some (d', []) \<and> dict_inv (x_ops (y_ops Y)) d' \<and>
    dom (dict_map (x_ops (y_ops Y)) d') = insert k (dom (dict_map (x_ops (y_ops Y)) d)) \<and> dict_key_count d' = dict_key_count d + 1 \<and>
    mset (dict_values d') = mset (dict_values d) + {# v #}"
proof -
  note S = io_specD(2,5) [OF Y]
  obtain d' c where d': "dict_put (x_ops (y_ops Y)) (x_items (y_ops Y)) d k (Some v) = Some (d', c)" "dict_inv (x_ops (y_ops Y)) d'"
    "dict_map (x_ops (y_ops Y)) d' = (dict_map (x_ops (y_ops Y)) d)(k \<mapsto> v)" "c = []"
    using dict_put_map [OF S inv, of k v] new by (auto simp: domIff destroy_call_def)
  have "mset (dict_values d') = mset (dict_values d) + {# v #}"
    using dict_put_values [OF S inv d'(1)] new by (simp add: domIff)
  moreover have "dict_key_count d' = dict_key_count d + 1"
    using arg_cong [OF calculation, of size] by (simp add: key_count_bounds(3) [OF inv] key_count_bounds(3) [OF d'(2)])
  ultimately show ?thesis using d' by auto
qed

lemma remove_entry:
  assumes Y: "io_spec Y" and inv: "dict_inv (x_ops (y_ops Y)) d"
  shows "\<exists>d'. dict_remove (x_ops (y_ops Y)) (x_items (y_ops Y)) d k = Some (dict_map (x_ops (y_ops Y)) d k, d') \<and>
    dict_inv (x_ops (y_ops Y)) d' \<and> dict_map (x_ops (y_ops Y)) d' = (dict_map (x_ops (y_ops Y)) d)(k := None) \<and>
    dict_key_count d' = dict_key_count d - (if dict_map (x_ops (y_ops Y)) d k = None then 0 else 1) \<and>
    mset (dict_values d) = mset (dict_values d') + mset (opt_list (dict_map (x_ops (y_ops Y)) d k))"
proof -
  note S = io_specD(2,5) [OF Y]
  obtain d' where d': "dict_remove (x_ops (y_ops Y)) (x_items (y_ops Y)) d k = Some (dict_map (x_ops (y_ops Y)) d k, d')"
    "dict_inv (x_ops (y_ops Y)) d'" "dict_map (x_ops (y_ops Y)) d' = (dict_map (x_ops (y_ops Y)) d)(k := None)"
    using dict_remove_map [OF S inv, of k] by auto
  have v: "mset (dict_values d) = mset (dict_values d') + mset (opt_list (dict_map (x_ops (y_ops Y)) d k))"
    using dict_remove_values [OF S inv d'(1)] by simp
  have "dict_key_count d' = dict_key_count d - (if dict_map (x_ops (y_ops Y)) d k = None then 0 else 1)"
    using arg_cong [OF v, of size]
    by (auto simp: key_count_bounds(3) [OF inv] key_count_bounds(3) [OF d'(2)] opt_list_def split: option.splits)
  with d' v show ?thesis by blast
qed

section \<open>Drawing sequence numbers\<close>

definition draw :: "nat \<Rightarrow> io_state \<Rightarrow> io_state" where
  "draw j st = set_smpp ((io_smpp st)\<lparr>message_id_counter := \<lparr>counter_n = counter_n (message_id_counter (io_smpp st)) + of_nat j\<rparr>\<rparr>) st"

lemma next_seq_draw: "next_seq st = (counter_n (message_id_counter (io_smpp st)), draw 1 st)"
  by (simp add: next_seq_def draw_def counter_increase_def)

lemma draw_simps [simp]:
  "io_client (draw j st) = io_client st" "pending_submits (draw j st) = pending_submits st" "written (draw j st) = written st"
  "writes (draw j st) = writes st" "queue (draw j st) = queue st" "sent_table (draw j st) = sent_table st"
  "max_pending_submits (io_smpp (draw j st)) = max_pending_submits (io_smpp st)" "conn_keys (io_conn (draw j st)) = conn_keys (io_conn st)"
  "c_status (io_conn (draw j st)) = c_status (io_conn st)"
  by (simp_all add: draw_def conn_keys_def)

lemma unat_draw:
  assumes "unat (counter_n (message_id_counter (io_smpp st))) + j < 2 ^ 64"
  shows "unat (counter_n (message_id_counter (io_smpp (draw j st)))) = unat (counter_n (message_id_counter (io_smpp st))) + j"
  using assms by (simp add: draw_def unat_word_ariths unat_of_nat take_bit_eq_mod)

lemma issued_mono:
  assumes "unat (counter_n (message_id_counter (io_smpp st))) \<le> unat (counter_n (message_id_counter (io_smpp st')))"
  shows "issued Y st \<subseteq> issued Y st'"
  using assms by (auto simp: issued_def word_less_nat_alt)

lemma window_draw:
  assumes "window_inv Y st" "unat (counter_n (message_id_counter (io_smpp st))) + j < 2 ^ 64"
  shows "window_inv Y (draw j st)"
proof -
  have "issued Y st \<subseteq> issued Y (draw j st)" by (rule issued_mono) (simp add: unat_draw [OF assms(2)])
  then show ?thesis using assms(1) by (auto simp: window_inv_def)
qed

lemma fresh_number:
  assumes "io_spec Y" "window_inv Y st"
  shows "format_ulong (y_ops Y) (counter_n (message_id_counter (io_smpp st))) \<notin> dom (dict_map (x_ops (y_ops Y)) (sent_table st))"
proof -
  have "format_ulong (y_ops Y) (counter_n (message_id_counter (io_smpp st))) \<notin> issued Y st"
    using io_specD(7) [OF assms(1)] by (auto simp: issued_def dest: injD)
  then show ?thesis using assms(2) by (auto simp: window_inv_def)
qed

section \<open>Sending\<close>

text \<open>The body of the loop of \<^verbatim>\<open>send_messages\<close>, for the message taken from the list; it says whether the loop goes on.\<close>

definition send_one :: "io_env \<Rightarrow> int \<Rightarrow> msg \<Rightarrow> io_state \<Rightarrow> (bool \<times> io_state) option" where
  "send_one Y t m0 st =
     (let (m, st1) = dnd_prepare Y m0 st
      in case i_pdu (sm_info m) of
           None \<Rightarrow> Some (True, st1)
         | Some os \<Rightarrow>
            (case prepare Y m os st1 of None \<Rightarrow> None
             | Some (pdu, m1, st2) \<Rightarrow>
                (let (ret, st3) = send_pdu Y (Out_submit pdu) st2
                 in if ret = 0 then map_option (Pair True) (remember Y t pdu m1 st3) else Some (False, st3))))"

lemma send_loop_step:
  "send_loop Y t (Suc k) st =
     (if pending_submits st < max_pending_submits (io_smpp st)
      then case gwlist_extract_first (x_msgs (y_ops Y)) (queue st) of
             (None, l) \<Rightarrow> Some (set_smpp ((io_smpp st)\<lparr>msgs_to_send := l\<rparr>) st)
           | (Some m0, l) \<Rightarrow>
              (case send_one Y t m0 (set_smpp ((io_smpp st)\<lparr>msgs_to_send := l\<rparr>) st) of
                 None \<Rightarrow> None
               | Some (go, st') \<Rightarrow> if go then send_loop Y t k st' else Some st')
      else Some st)"
  by (simp add: send_one_def Let_def split_def split: option.splits prod.splits)

text \<open>The connection without what sending changes.\<close>

definition blank :: "io_state \<Rightarrow> smscconn" where
  "blank st = (io_conn st)\<lparr>c_data := (io_smpp st)\<lparr>msgs_to_send := [], sent_msgs := dict_create 0 False, message_id_counter := counter_create\<rparr>\<rparr>"

definition same_settings :: "io_state \<Rightarrow> io_state \<Rightarrow> bool" where
  "same_settings st st' \<longleftrightarrow> blank st' = blank st"

lemma same_settings_draw [simp]: "same_settings st (draw j st)"
  by (simp add: same_settings_def blank_def draw_def)

lemma same_settings_trans: "same_settings a b \<Longrightarrow> same_settings b c \<Longrightarrow> same_settings a c"
  by (simp add: same_settings_def)

lemma same_settingsD:
  assumes "same_settings st st'"
  shows "max_pending_submits (io_smpp st') = max_pending_submits (io_smpp st)" "c_id (io_conn st') = c_id (io_conn st)"
    "c_status (io_conn st') = c_status (io_conn st)" "s_quitting (io_smpp st') = s_quitting (io_smpp st)"
  using arg_cong [OF assms [unfolded same_settings_def], of "\<lambda>c. max_pending_submits (c_data c)"]
    arg_cong [OF assms [unfolded same_settings_def], of c_id] arg_cong [OF assms [unfolded same_settings_def], of c_status]
    arg_cong [OF assms [unfolded same_settings_def], of "\<lambda>c. s_quitting (c_data c)"]
  by (simp_all add: blank_def)

lemma dnd_prepare_result:
  assumes Y: "io_spec Y" and m0: "sendable Y m0" and p: "dnd_prepare Y m0 st = (m, st1)"
  shows "sendable Y m" "key m = key m0" "\<exists>j \<le> 1. st1 = draw j st" "dndcheck_flag Y = 0 \<Longrightarrow> m = m0 \<and> st1 = st"
proof -
  show "key m = key m0" "\<exists>j \<le> 1. st1 = draw j st" "dndcheck_flag Y = 0 \<Longrightarrow> m = m0 \<and> st1 = st"
    using p by (auto simp: dnd_prepare_def next_seq_draw key_def Let_def draw_def set_smpp_def split: if_splits intro: exI [of _ 1] exI [of _ 0])
  show "sendable Y m"
    using p m0 io_specD(8) [OF Y]
    by (fastforce simp: dnd_prepare_def next_seq_draw sendable_def unpacked_def Let_def octstr_from_position_spec [OF io_specD(2) [OF Y]]
        split: if_splits option.splits)
qed

lemma prepare_result:
  assumes Y: "io_spec Y" and m: "sendable Y m" "i_pdu (sm_info m) = Some os" and p: "prepare Y m os st = Some (pdu, m1, st2)"
  shows "seq_of pdu = counter_n (message_id_counter (io_smpp st))" "st2 = draw 1 st" "sendable Y m1" "key m1 = key m"
    "\<exists>p. pdu = Submit_sm_pdu p \<and> i_pdu (sm_info m1) = pdu_pack (y_ops Y) pdu"
    "pdu_pack (y_ops Y) pdu \<noteq> None \<Longrightarrow> unpacked (y_ops Y) m1 \<noteq> None"
proof -
  note D = octstr_from_position_spec [OF io_specD(2) [OF Y]]
  obtain q where q: "pdu_unpack (y_ops Y) (drop 4 os) = Some (Submit_sm_pdu q)"
    using m by (auto simp: sendable_def unpacked_def D split: option.splits sent_pdu.splits)
  then obtain p1 where e: "pdu = Submit_sm_pdu (rewrite_submit Y (io_conn st) (routing_info m) (counter_n (message_id_counter (io_smpp st))) p1)"
    "m1 = m\<lparr>sm_info := (sm_info m)\<lparr>i_pdu := pdu_pack (y_ops Y) pdu\<rparr>\<rparr>" "st2 = draw 1 st"
    using p by (auto simp: prepare_def D next_seq_draw Let_def split: option.splits)
  then show "seq_of pdu = counter_n (message_id_counter (io_smpp st))" "st2 = draw 1 st" "key m1 = key m"
    "\<exists>p. pdu = Submit_sm_pdu p \<and> i_pdu (sm_info m1) = pdu_pack (y_ops Y) pdu"
    by (simp_all add: seq_of_def rewrite_submit_def Let_def key_def)
  show u: "unpacked (y_ops Y) m1 \<noteq> None" if pk: "pdu_pack (y_ops Y) pdu \<noteq> None"
  proof -
    obtain new where new: "pdu_pack (y_ops Y) pdu = Some new" using pk by blast
    then obtain p' where "pdu_unpack (y_ops Y) (drop 4 new) = Some (Submit_sm_pdu p')"
      using io_specD(8) [OF Y, of _ new] e(1) by metis
    with new show ?thesis by (simp add: unpacked_def D e(2))
  qed
  show "sendable Y m1" using u e(2) by (cases "pdu_pack (y_ops Y) pdu") (simp_all add: sendable_def)
qed

lemma remember_result:
  assumes Y: "io_spec Y" and w: "window_inv Y st" "unpacked (y_ops Y) m \<noteq> None" and p: "0 \<le> pending_submits st" "pending_submits st < max_pending_submits (io_smpp st)"
    and n: "seq_of pdu = counter_n (message_id_counter (io_smpp st))" and b: "unat (counter_n (message_id_counter (io_smpp st))) + 1 < 2 ^ 64"
  shows "\<exists>st'. remember Y t pdu m (draw 1 st) = Some st' \<and> window_inv Y st' \<and> pending_submits st' = pending_submits st + 1 \<and>
    queue st' = queue st \<and> io_client st' = io_client st \<and> same_settings st st' \<and>
    message_id_counter (io_smpp st') = message_id_counter (io_smpp (draw 1 st)) \<and> conn_keys (io_conn st') = conn_keys (io_conn st) + {# key m #}"
proof -
  let ?k = "format_ulong (y_ops Y) (seq_of pdu)" and ?X = "x_ops (y_ops Y)"
  let ?v = "\<lparr> sent_time = t, sent_msg = m\<lparr>m_state := MSG_SENT_NORESP, m_retries := m_retries m + 1\<rparr> \<rparr>"
  have inv: "dict_inv ?X (sent_table st)" using w(1) by (simp add: window_inv_def)
  obtain d where d: "dict_put ?X (x_items (y_ops Y)) (sent_table st) ?k (Some ?v) = Some (d, [])" "dict_inv ?X d"
    "dom (dict_map ?X d) = insert ?k (dom (dict_map ?X (sent_table st)))" "dict_key_count d = dict_key_count (sent_table st) + 1"
    "mset (dict_values d) = mset (dict_values (sent_table st)) + {# ?v #}"
    using put_fresh [OF Y inv fresh_number [OF Y w(1), folded n], of ?v] by blast
  define st' where "st' = (set_smpp ((io_smpp (draw 1 st))\<lparr>sent_msgs := d\<rparr>) (draw 1 st))\<lparr>pending_submits := pending_submits st + 1\<rparr>"
  have r: "remember Y t pdu m (draw 1 st) = Some st'" by (simp add: remember_def d(1) st'_def)
  have u: "unat (counter_n (message_id_counter (io_smpp (draw 1 st)))) = unat (counter_n (message_id_counter (io_smpp st))) + 1"
    by (rule unat_draw) (use b in simp)
  have "seq_of pdu < counter_n (message_id_counter (io_smpp st'))" using u by (simp add: st'_def n word_less_nat_alt)
  then have k: "?k \<in> issued Y st'" by (simp add: issued_def)
  have i: "issued Y st \<subseteq> issued Y st'" by (rule issued_mono) (use u in \<open>simp add: st'_def\<close>)
  have "set (dict_values d) = insert ?v (set (dict_values (sent_table st)))" using arg_cong [OF d(5), of set_mset] by simp
  then have "list_all (in_transit Y) (dict_values d)"
    using w by (simp add: window_inv_def list_all_iff) (simp add: in_transit_def unpacked_def)
  moreover have "dom (dict_map ?X d) \<subseteq> issued Y st'" using d(3) k i w(1) by (auto simp: window_inv_def)
  moreover have "pending_submits st = dict_key_count (sent_table st)" using w(1) p(1) by (auto simp: window_inv_def)
  ultimately have "window_inv Y st'" using w(1) p d(2,4) by (auto simp: window_inv_def st'_def)
  moreover have "conn_keys (io_conn st') = conn_keys (io_conn st) + {# key m #}"
    using d(5) by (simp add: conn_keys_def st'_def)
  moreover have "same_settings st st'"
    by (simp add: same_settings_def blank_def st'_def draw_def)
  ultimately show ?thesis using r by (simp add: st'_def)
qed

lemma send_pdu_result: "send_pdu Y pdu st = (r, st') \<Longrightarrow> io_conn st' = io_conn st \<and> io_client st' = io_client st \<and> pending_submits st' = pending_submits st"
  using send_pdu_simps [of Y pdu st] by simp

lemma send_pdu_packed: "send_pdu Y (Out_submit pdu) st = (0, st') \<Longrightarrow> pdu_pack (y_ops Y) pdu \<noteq> None"
  by (auto simp: send_pdu_def split: if_splits)

lemma window_cong:
  assumes "io_conn st' = io_conn st" "pending_submits st' = pending_submits st"
  shows "window_inv Y st' = window_inv Y st" "issued Y st' = issued Y st" "same_settings st0 st' = same_settings st0 st"
  using assms by (simp_all add: window_inv_def issued_def same_settings_def blank_def)

lemma remember_cong:
  assumes "io_conn st' = io_conn st" "io_client st' = io_client st" "pending_submits st' = pending_submits st"
    "remember Y t pdu m st = Some s" "remember Y t pdu m st' = Some s'"
  shows "io_conn s' = io_conn s" "io_client s' = io_client s" "pending_submits s' = pending_submits s"
  using assms by (auto simp: remember_def split: option.splits prod.splits)

text \<open>What happens to one message: the window is kept, and the message is in the table, or it has no PDU, or its PDU could not be written.\<close>

lemma send_one_result:
  assumes Y: "io_spec Y" and w: "window_inv Y st" "sendable Y m0" and p: "0 \<le> pending_submits st" "pending_submits st < max_pending_submits (io_smpp st)"
    and b: "unat (counter_n (message_id_counter (io_smpp st))) + 2 < 2 ^ 64" and s: "send_one Y t m0 st = Some (go, st')"
  shows "window_inv Y st' \<and> 0 \<le> pending_submits st' \<and> queue st' = queue st \<and> io_client st' = io_client st \<and> same_settings st st' \<and>
    unat (counter_n (message_id_counter (io_smpp st'))) \<le> unat (counter_n (message_id_counter (io_smpp st))) + 2 \<and>
    (go \<and> conn_keys (io_conn st') = conn_keys (io_conn st) + {# key m0 #} \<or>
     conn_keys (io_conn st') = conn_keys (io_conn st) \<and> (\<not> go \<or> dndcheck_flag Y \<noteq> 0 \<or> i_pdu (sm_info m0) = None))"
proof -
  obtain m st1 where dp: "dnd_prepare Y m0 st = (m, st1)" by force
  note D = dnd_prepare_result [OF Y w(2) dp]
  obtain j where j: "j \<le> 1" "st1 = draw j st" using D(3) by blast
  have jb: "unat (counter_n (message_id_counter (io_smpp st))) + j < 2 ^ 64" using j(1) b by simp
  have w1: "window_inv Y st1" "pending_submits st1 = pending_submits st" "queue st1 = queue st" "io_client st1 = io_client st"
    "same_settings st st1" "max_pending_submits (io_smpp st1) = max_pending_submits (io_smpp st)" "conn_keys (io_conn st1) = conn_keys (io_conn st)"
    using window_draw [OF w(1) jb] by (simp_all add: j(2))
  have u1: "unat (counter_n (message_id_counter (io_smpp st1))) = unat (counter_n (message_id_counter (io_smpp st))) + j"
    unfolding j(2) by (rule unat_draw [OF jb])
  show ?thesis
  proof (cases "i_pdu (sm_info m)")
    case None
    then have e: "go" "st' = st1" using s by (simp_all add: send_one_def dp)
    have "dndcheck_flag Y \<noteq> 0 \<or> i_pdu (sm_info m0) = None" using D(4) None by auto
    with e w1 p u1 j(1) show ?thesis by simp
  next
    case (Some os)
    then obtain pdu m1 st2 where pr: "prepare Y m os st1 = Some (pdu, m1, st2)" using s by (auto simp: send_one_def dp split: option.splits)
    note P = prepare_result [OF Y D(1) Some pr]
    obtain ret st3 where sp: "send_pdu Y (Out_submit pdu) st2 = (ret, st3)" by force
    note Q = send_pdu_result [OF sp]
    have b1: "unat (counter_n (message_id_counter (io_smpp st1))) + 1 < 2 ^ 64" using u1 j(1) b by simp
    have u2: "unat (counter_n (message_id_counter (io_smpp (draw 1 st1)))) = unat (counter_n (message_id_counter (io_smpp st1))) + 1"
      by (rule unat_draw [OF b1])
    have p1: "0 \<le> pending_submits st1" "pending_submits st1 < max_pending_submits (io_smpp st1)" using p w1 by simp_all
    show ?thesis
    proof (cases "ret = 0")
      case True
      obtain r where r: "remember Y t pdu m1 (draw 1 st1) = Some r" "window_inv Y r" "pending_submits r = pending_submits st1 + 1"
        "queue r = queue st1" "io_client r = io_client st1" "same_settings st1 r"
        "message_id_counter (io_smpp r) = message_id_counter (io_smpp (draw 1 st1))" "conn_keys (io_conn r) = conn_keys (io_conn st1) + {# key m1 #}"
        using remember_result [OF Y w1(1) P(6) p1 P(1) b1] send_pdu_packed sp True by blast
      from True obtain r' where r': "remember Y t pdu m1 st3 = Some r'" "go" "st' = r'"
        using s Some pr sp by (auto simp: send_one_def dp)
      have c: "io_conn r' = io_conn r" "io_client r' = io_client r" "pending_submits r' = pending_submits r"
        using remember_cong [OF _ _ _ r(1) r'(1)] Q P(2) by auto
      have "same_settings st r" using same_settings_trans [OF w1(5) r(6)] .
      moreover have "unat (counter_n (message_id_counter (io_smpp r))) \<le> unat (counter_n (message_id_counter (io_smpp st))) + 2"
        using u1 u2 r(7) j(1) by simp
      ultimately show ?thesis
        using r w1 c r' D(2) P(4) p1 by (simp add: window_cong [OF c(1,3)])
    next
      case False
      then have e: "\<not> go" "st' = st3" using s Some pr sp by (simp_all add: send_one_def dp)
      have c: "io_conn st3 = io_conn (draw 1 st1)" "pending_submits st3 = pending_submits (draw 1 st1)" using Q P(2) by simp_all
      have "window_inv Y st3" using window_draw [OF w1(1) b1] by (simp add: window_cong [OF c])
      moreover have "same_settings st st3"
        unfolding window_cong(3) [OF c] by (rule same_settings_trans [OF w1(5) same_settings_draw])
      ultimately show ?thesis using e c Q P(2) w1 p1 u1 u2 j(1) by (simp add: c(1) del: One_nat_def)
    qed
  qed
qed

lemma take_first:
  assumes "queue st = m0 # l"
  defines "st0 \<equiv> set_smpp ((io_smpp st)\<lparr>msgs_to_send := l\<rparr>) st"
  shows "window_inv Y st \<Longrightarrow> window_inv Y st0" "conn_keys (io_conn st) = conn_keys (io_conn st0) + {# key m0 #}" "same_settings st st0"
    "queue st0 = l" "message_id_counter (io_smpp st0) = message_id_counter (io_smpp st)"
  using assms by (auto simp: window_inv_def issued_def conn_keys_def same_settings_def blank_def)

text \<open>The whole of \<^verbatim>\<open>send_messages\<close>: every message of the list keeps its place, is in the table, or was the one that could not be written.\<close>

definition sends :: "io_env \<Rightarrow> io_state \<Rightarrow> io_state \<Rightarrow> bool" where
  "sends Y st st' \<longleftrightarrow> window_inv Y st' \<and> budget st' \<le> budget st \<and> io_client st' = io_client st \<and> same_settings st st' \<and>
     (pending_submits st' = -1 \<longleftrightarrow> pending_submits st = -1) \<and> (\<exists>n. queue st' = drop n (queue st)) \<and>
     (\<exists>lost. conn_keys (io_conn st) = conn_keys (io_conn st') + lost \<and>
        (dndcheck_flag Y = 0 \<and> list_all (\<lambda>m. i_pdu (sm_info m) \<noteq> None) (queue st) \<longrightarrow> size lost \<le> 1))"

lemma sends_refl: "window_inv Y st \<Longrightarrow> sends Y st st"
  by (auto simp: sends_def same_settings_def intro: exI [of _ "0 :: nat"])

lemma send_loop_result:
  assumes Y: "io_spec Y"
  shows "window_inv Y st \<Longrightarrow> 0 \<le> pending_submits st \<Longrightarrow> budget st < 2 ^ 64 \<Longrightarrow> send_loop Y t k st = Some st' \<Longrightarrow> sends Y st st' \<and> 0 \<le> pending_submits st'"
proof (induction k arbitrary: st)
  case 0
  then show ?case by (simp add: sends_refl)
next
  case (Suc k)
  show ?case
  proof (cases "pending_submits st < max_pending_submits (io_smpp st) \<and> queue st \<noteq> []")
    case False
    then have "st' = st \<or> st' = set_smpp ((io_smpp st)\<lparr>msgs_to_send := queue st\<rparr>) st"
      using Suc.prems(4) by (auto simp: gwlist_extract_first_spec [OF io_specD(4) [OF Y]] split: if_splits)
    then have e: "io_conn st' = io_conn st" "io_client st' = io_client st" "pending_submits st' = pending_submits st" by auto
    have "sends Y st st'"
      using sends_refl [OF Suc.prems(1)] unfolding sends_def budget_def window_cong [OF e(1,3)] e by simp
    with e(3) Suc.prems(2) show ?thesis by simp
  next
    case True
    then obtain m0 l where q: "queue st = m0 # l" by (cases "queue st") auto
    define st0 where "st0 = set_smpp ((io_smpp st)\<lparr>msgs_to_send := l\<rparr>) st"
    note T = take_first [OF q, folded st0_def]
    have step: "send_loop Y t (Suc k) st =
        (case send_one Y t m0 st0 of None \<Rightarrow> None | Some (go, s) \<Rightarrow> if go then send_loop Y t k s else Some s)"
      unfolding send_loop_step st0_def using True by (simp add: gwlist_extract_first_spec [OF io_specD(4) [OF Y]] q)
    then obtain go st1 where one: "send_one Y t m0 st0 = Some (go, st1)"
      using Suc.prems(4) by (cases "send_one Y t m0 st0") (simp_all del: send_loop.simps(2), force)
    then have rest: "if go then send_loop Y t k st1 = Some st' else st' = st1"
      using step Suc.prems(4) by (cases go) (simp_all del: send_loop.simps(2))
    have b: "unat (counter_n (message_id_counter (io_smpp st0))) + 2 < 2 ^ 64" using Suc.prems(3) q by (simp add: budget_def T)
    have p0: "0 \<le> pending_submits st0" "pending_submits st0 < max_pending_submits (io_smpp st0)" using True Suc.prems(2) by (simp_all add: st0_def)
    have m0: "sendable Y m0" using Suc.prems(1) q by (simp add: window_inv_def)
    note O = send_one_result [OF Y T(1) [OF Suc.prems(1)] m0 p0 b one]
    have b1: "budget st1 \<le> budget st" using O T(4,5) q by (simp add: budget_def)
    have s1: "same_settings st st1" using O T(3) same_settings_trans by blast
    show ?thesis
    proof (cases go)
      case False
      then have e: "st' = st1" using rest by simp
      have "\<exists>lost. conn_keys (io_conn st) = conn_keys (io_conn st1) + lost \<and> size lost \<le> 1"
        using O T(2) False by (intro exI [of _ "{# key m0 #}"]) simp
      then show ?thesis using O T(4) s1 b1 e q Suc.prems(2)
        by (auto simp: sends_def st0_def intro!: exI [of _ "1 :: nat"])
    next
      case True
      have S: "sends Y st1 st' \<and> 0 \<le> pending_submits st'"
        using Suc.IH [of st1] O rest True b1 Suc.prems(3) by simp
      then obtain lost n where L: "conn_keys (io_conn st1) = conn_keys (io_conn st') + lost" "queue st' = drop n l"
        "dndcheck_flag Y = 0 \<and> list_all (\<lambda>m. i_pdu (sm_info m) \<noteq> None) l \<Longrightarrow> size lost \<le> 1"
        using O T(4) by (auto simp: sends_def)
      have "\<exists>lost. conn_keys (io_conn st) = conn_keys (io_conn st') + lost \<and>
          (dndcheck_flag Y = 0 \<and> list_all (\<lambda>m. i_pdu (sm_info m) \<noteq> None) (queue st) \<longrightarrow> size lost \<le> 1)"
        using O T(2) True L q
        by (cases "conn_keys (io_conn st1) = conn_keys (io_conn st0) + {# key m0 #}")
          (auto intro: exI [of _ lost] exI [of _ "lost + {# key m0 #}"])
      moreover have "\<exists>n. queue st' = drop n (queue st)" using L(2) q by (intro exI [of _ "Suc n"]) simp
      moreover have "same_settings st st'" using S s1 same_settings_trans by (auto simp: sends_def)
      ultimately show ?thesis using S O b1 Suc.prems(2) by (simp add: sends_def st0_def)
    qed
  qed
qed

lemma send_messages_result:
  assumes Y: "io_spec Y" and w: "window_inv Y st" "budget st < 2 ^ 64" and s: "send_messages Y t st = Some st'"
  shows "sends Y st st'"
proof (cases "pending_submits st = -1")
  case True
  then show ?thesis using s sends_refl [OF w(1)] by (simp add: send_messages_def)
next
  case False
  moreover have "0 \<le> dict_key_count (sent_table st)" using w(1) key_count_bounds(1) by (auto simp: window_inv_def)
  ultimately have "0 \<le> pending_submits st" using w(1) by (auto simp: window_inv_def)
  then show ?thesis using send_loop_result [OF Y w(1) _ w(2)] s False by (simp add: send_messages_def del: send_loop.simps)
qed

section \<open>Responses\<close>

lemma window_eq:
  assumes "sent_table st' = sent_table st" "queue st' = queue st" "message_id_counter (io_smpp st') = message_id_counter (io_smpp st)"
    "max_pending_submits (io_smpp st') = max_pending_submits (io_smpp st)" "pending_submits st' = pending_submits st"
  shows "window_inv Y st' = window_inv Y st" "budget st' = budget st"
  using assms by (simp_all add: window_inv_def issued_def budget_def)

lemma produce_result:
  assumes "client_ops_spec E"
  shows "outgoing_msg (produce_outgoing_msg E m C) = outgoing_msg C @ [m]" "reported (produce_outgoing_msg E m C) = reported C"
    "has_dbbox (produce_outgoing_msg E m C) = has_dbbox C" "client_status (produce_outgoing_msg E m C) = client_status C"
    "smsc_list (produce_outgoing_msg E m C) = smsc_list C"
  using assms
  by (auto simp: produce_outgoing_msg_def send_msg_reverse_server_def reported_def has_dbbox_def client_ops_spec_def Let_def split: list.splits)

definition retried :: "failure \<Rightarrow> bool" where
  "retried reason \<longleftrightarrow> reason = SMSCCONN_FAILED_TEMPORARILY \<or> reason = SMSCCONN_FAILED_SHUTDOWN"

lemma with_failed_result:
  assumes Y: "io_spec Y"
  shows "io_smpp (with_failed Y t m reason st) = io_smpp st" "pending_submits (with_failed Y t m reason st) = pending_submits st"
    "c_status (io_conn (with_failed Y t m reason st)) = c_status (io_conn st)" "c_id (io_conn (with_failed Y t m reason st)) = c_id (io_conn st)"
    "outgoing_msg (io_client (with_failed Y t m reason st)) =
       outgoing_msg (io_client st) @ (if retried reason then [mark_failed (io_conn st) t m] else [])"
    "reported (io_client (with_failed Y t m reason st)) = reported (io_client st)"
    "has_dbbox (io_client (with_failed Y t m reason st)) = has_dbbox (io_client st)"
    "smsc_list (io_client (with_failed Y t m reason st)) = smsc_list (io_client st)"
    "conn_keys (io_conn (with_failed Y t m reason st)) = conn_keys (io_conn st)"
    "writes (with_failed Y t m reason st) = writes st"
  using produce_result [OF io_specD(1) [OF Y]]
  by (auto simp: with_failed_def smscconn_send_failed_def retried_def conn_keys_def split: failure.splits)

lemma take_sent_result:
  assumes Y: "io_spec Y" and w: "window_inv Y st"
  shows "\<exists>d. take_sent Y n st = Some (dict_map (x_ops (y_ops Y)) (sent_table st) (format_ulong (y_ops Y) n), set_smpp ((io_smpp st)\<lparr>sent_msgs := d\<rparr>) st) \<and>
    dict_map (x_ops (y_ops Y)) d = (dict_map (x_ops (y_ops Y)) (sent_table st))(format_ulong (y_ops Y) n := None) \<and>
    mset (dict_values (sent_table st)) =
      mset (dict_values d) + mset (opt_list (dict_map (x_ops (y_ops Y)) (sent_table st) (format_ulong (y_ops Y) n))) \<and>
    window_inv Y ((if dict_map (x_ops (y_ops Y)) (sent_table st) (format_ulong (y_ops Y) n) = None then id else drop_pending)
      (set_smpp ((io_smpp st)\<lparr>sent_msgs := d\<rparr>) st))"
proof -
  let ?X = "x_ops (y_ops Y)" and ?k = "format_ulong (y_ops Y) n"
  have inv: "dict_inv ?X (sent_table st)" using w by (simp add: window_inv_def)
  obtain d where d: "dict_remove ?X (x_items (y_ops Y)) (sent_table st) ?k = Some (dict_map ?X (sent_table st) ?k, d)" "dict_inv ?X d"
    "dict_map ?X d = (dict_map ?X (sent_table st))(?k := None)"
    "dict_key_count d = dict_key_count (sent_table st) - (if dict_map ?X (sent_table st) ?k = None then 0 else 1)"
    "mset (dict_values (sent_table st)) = mset (dict_values d) + mset (opt_list (dict_map ?X (sent_table st) ?k))"
    using remove_entry [OF Y inv, of ?k] by blast
  let ?st = "set_smpp ((io_smpp st)\<lparr>sent_msgs := d\<rparr>) st"
  have i: "issued Y ?st = issued Y st" "issued Y (drop_pending ?st) = issued Y st" by (simp_all add: issued_def)
  have v: "list_all (in_transit Y) (dict_values d)"
    using w arg_cong [OF d(5), of set_mset] by (auto simp: window_inv_def list_all_iff)
  have dm: "dom (dict_map ?X d) \<subseteq> issued Y st" using w d(3) by (auto simp: window_inv_def)
  have "window_inv Y ((if dict_map ?X (sent_table st) ?k = None then id else drop_pending) ?st)"
  proof (cases "dict_map ?X (sent_table st) ?k = None")
    case True
    with w d(2,4) v dm i show ?thesis by (simp add: window_inv_def)
  next
    case False
    then have "dict_key_count (sent_table st) \<noteq> 0" using key_count_bounds(2) [OF inv] by auto
    with False w d(2,4) v dm i show ?thesis by (auto simp: window_inv_def)
  qed
  with d show ?thesis by (intro exI [of _ d]) (simp add: take_sent_def)
qed

lemma note_throttling_simps [simp]:
  "io_client (note_throttling Y t s st) = io_client st" "pending_submits (note_throttling Y t s st) = pending_submits st"
  "sent_table (note_throttling Y t s st) = sent_table st" "queue (note_throttling Y t s st) = queue st"
  "message_id_counter (io_smpp (note_throttling Y t s st)) = message_id_counter (io_smpp st)"
  "max_pending_submits (io_smpp (note_throttling Y t s st)) = max_pending_submits (io_smpp st)"
  "conn_keys (io_conn (note_throttling Y t s st)) = conn_keys (io_conn st)" "c_id (io_conn (note_throttling Y t s st)) = c_id (io_conn st)"
  by (simp_all add: note_throttling_def conn_keys_def)

lemma smscconn_sent_result:
  assumes "smscconn_sent pdu conn C = Some (conn', C')"
  shows "c_data conn' = c_data conn" "conn_keys conn' = conn_keys conn" "outgoing_msg C' = outgoing_msg C" "reported C' = reported C"
    "has_dbbox C' = has_dbbox C" "c_status conn' = c_status conn" "smsc_list C' = smsc_list C"
  using assms by (auto simp: smscconn_sent_def conn_keys_def reported_def has_dbbox_def split: option.splits)

text \<open>A response without an entry in the table changes nothing but the form of the table.\<close>

lemma unmatched:
  assumes Y: "io_spec Y" and w: "window_inv Y st" and k: "dict_map (x_ops (y_ops Y)) (sent_table st) (format_ulong (y_ops Y) n) = None"
  shows "\<exists>d. handle_submit_sm_resp Y t n status mid st = Some (set_smpp ((io_smpp st)\<lparr>sent_msgs := d\<rparr>) st) \<and>
    handle_generic_nack Y t n status st = Some (set_smpp ((io_smpp st)\<lparr>sent_msgs := d\<rparr>) st) \<and>
    dict_map (x_ops (y_ops Y)) d = dict_map (x_ops (y_ops Y)) (sent_table st) \<and>
    mset (dict_values d) = mset (dict_values (sent_table st)) \<and> window_inv Y (set_smpp ((io_smpp st)\<lparr>sent_msgs := d\<rparr>) st)"
  using take_sent_result [OF Y w, of n] k
  by (auto simp: handle_submit_sm_resp_def handle_generic_nack_def fun_upd_idem)

text \<open>
  A response to a message of the table takes exactly this message out of it.  The record for the database is made, the message goes back to the
  router if the failure is temporary, and is done with otherwise.
\<close>

definition resp_ok :: "io_env \<Rightarrow> ulong \<Rightarrow> smpp_msg \<Rightarrow> bool \<Rightarrow> io_state \<Rightarrow> io_state \<Rightarrow> bool" where
  "resp_ok Y n sm again st st' \<longleftrightarrow> window_inv Y st' \<and> budget st' = budget st \<and> queue st' = queue st \<and> pending_submits st' = pending_submits st - 1 \<and>
     dict_map (x_ops (y_ops Y)) (sent_table st') = (dict_map (x_ops (y_ops Y)) (sent_table st))(format_ulong (y_ops Y) n := None) \<and>
     conn_keys (io_conn st) = conn_keys (io_conn st') + {# key (sent_msg sm) #} \<and>
     mset (map key (outgoing_msg (io_client st'))) =
       mset (map key (outgoing_msg (io_client st))) + (if again then {# key (sent_msg sm) #} else {#})"

lemma resp_okI:
  assumes Y: "io_spec Y" and w: "window_inv Y st" and k: "dict_map (x_ops (y_ops Y)) (sent_table st) (format_ulong (y_ops Y) n) = Some sm"
    and d: "take_sent Y n st = Some (Some sm, st1)"
    and s: "io_smpp st2 = (io_smpp st1)\<lparr>throttling_err_time := x\<rparr> \<or> io_smpp st2 = io_smpp st1" "pending_submits st2 = pending_submits st1 - 1"
    and o: "mset (map key (outgoing_msg (io_client st2))) =
       mset (map key (outgoing_msg (io_client st))) + (if again then {# key (sent_msg sm) #} else {#})"
  shows "resp_ok Y n sm again st st2"
proof -
  obtain d where d': "st1 = set_smpp ((io_smpp st)\<lparr>sent_msgs := d\<rparr>) st"
    "dict_map (x_ops (y_ops Y)) d = (dict_map (x_ops (y_ops Y)) (sent_table st))(format_ulong (y_ops Y) n := None)"
    "mset (dict_values (sent_table st)) = mset (dict_values d) + {# sm #}" "window_inv Y (drop_pending st1)"
    using take_sent_result [OF Y w, of n] k d by auto
  have e: "sent_table st2 = d" "queue st2 = queue st" "message_id_counter (io_smpp st2) = message_id_counter (io_smpp st)"
    "max_pending_submits (io_smpp st2) = max_pending_submits (io_smpp st)" "pending_submits st2 = pending_submits st - 1"
    using s d'(1) by auto
  have "window_inv Y st2" using window_eq(1) [of st2 "drop_pending st1"] e d'(1,4) by simp
  moreover have "conn_keys (io_conn st) = conn_keys (io_conn st2) + {# key (sent_msg sm) #}"
    using e d'(3) by (simp add: conn_keys_def)
  ultimately show ?thesis using e d'(2) o by (simp add: resp_ok_def budget_def)
qed

lemma mark_failed_id: "c_id conn' = c_id conn \<Longrightarrow> mark_failed conn' t m = mark_failed conn t m"
  by (simp add: mark_failed_def)

lemma submit_resp_matched:
  assumes Y: "io_spec Y" and w: "window_inv Y st" and k: "dict_map (x_ops (y_ops Y)) (sent_table st) (format_ulong (y_ops Y) n) = Some sm"
    and r: "handle_submit_sm_resp Y t n status mid st = Some st'"
  shows "resp_ok Y n sm (status \<noteq> 0 \<and> retried (smpp_status_to_smscconn_failure_reason Y status)) st st'"
    "has_dbbox (io_client st) \<Longrightarrow> reported (io_client st') = reported (io_client st) + {# key (sent_msg sm) #}"
    "c_status (io_conn st') = c_status (io_conn st)" "has_dbbox (io_client st) \<Longrightarrow> has_dbbox (io_client st')"
    "set (outgoing_msg (io_client st')) \<subseteq> insert (mark_failed (io_conn st) t ((sent_msg sm)\<lparr>m_state := MSG_SENT_RESP\<rparr>)) (set (outgoing_msg (io_client st)))"
proof -
  obtain d where d: "take_sent Y n st = Some (Some sm, set_smpp ((io_smpp st)\<lparr>sent_msgs := d\<rparr>) st)"
    using take_sent_result [OF Y w, of n] k by auto
  define st1 where "st1 = set_smpp ((io_smpp st)\<lparr>sent_msgs := d\<rparr>) st"
  define m where "m = (sent_msg sm)\<lparr>m_state := MSG_SENT_RESP\<rparr>"
  obtain i C where C: "mid = Some i" "mis_db_insert (i_account_name (sm_info (sent_msg sm))) (i_account_msg_id (sm_info (sent_msg sm)))
      (i_req_time (sm_info (sent_msg sm))) (Some (c_id (io_conn st1))) (Some (msgid Y 1 (smpp_msg_id_type (io_smpp st1)) i))
      (unpacked (y_ops Y) (sent_msg sm)) status (i_client_ip (sm_info (sent_msg sm))) (io_client st1) = Some C"
    using r d by (auto simp: handle_submit_sm_resp_def Let_def simp flip: st1_def split: option.splits)
  have c0: "io_client st1 = io_client st" "c_status (io_conn st1) = c_status (io_conn st)" by (simp_all add: st1_def)
  have oC: "outgoing_msg C = outgoing_msg (io_client st)"
    using C(2) by (auto simp: mis_db_insert_def send_msg_dbbox_server_def c0 split: option.splits if_splits)
  have key_m: "key m = key (sent_msg sm)" by (simp add: m_def)
  note D = d [folded st1_def]
  have "resp_ok Y n sm (status \<noteq> 0 \<and> retried (smpp_status_to_smscconn_failure_reason Y status)) st st' \<and> reported (io_client st') = reported C \<and>
      c_status (io_conn st') = c_status (io_conn st) \<and> has_dbbox (io_client st') = has_dbbox C \<and>
      set (outgoing_msg (io_client st')) \<subseteq> insert (mark_failed (io_conn st) t m) (set (outgoing_msg (io_client st)))"
  proof (cases "status = 0")
    case True
    then obtain conn C1 where s: "smscconn_sent (unpacked (y_ops Y) (sent_msg sm)) (io_conn st1) C = Some (conn, C1)"
      "st' = drop_pending (st1\<lparr>io_conn := conn, io_client := C1\<rparr>)"
      using r d C by (auto simp: handle_submit_sm_resp_def Let_def simp flip: st1_def split: option.splits)
    note S = smscconn_sent_result [OF s(1)]
    have "resp_ok Y n sm False st st'"
      by (rule resp_okI [OF Y w k D, where x = 0]) (simp_all add: s(2) S oC)
    with True S s(2) c0 oC show ?thesis by auto
  next
    case False
    then have s: "st' = drop_pending (with_failed Y t m (smpp_status_to_smscconn_failure_reason Y status) (note_throttling Y t status (st1\<lparr>io_client := C\<rparr>)))"
      using r d C by (auto simp: handle_submit_sm_resp_def Let_def m_def simp flip: st1_def split: option.splits)
    note W = with_failed_result [OF Y]
    have "resp_ok Y n sm (retried (smpp_status_to_smscconn_failure_reason Y status)) st st'"
      by (rule resp_okI [OF Y w k D, where x = "if status = k_RTHROTTLED (y_codes Y) then t else 0"])
        (auto simp: s W oC key_m note_throttling_def)
    moreover have "mark_failed (io_conn (note_throttling Y t status (st1\<lparr>io_client := C\<rparr>))) t m = mark_failed (io_conn st) t m"
      by (rule mark_failed_id) (simp add: st1_def)
    ultimately show ?thesis using False by (auto simp: s W c0 oC) (simp add: note_throttling_def c0)
  qed
  with mis_db_insert_result [OF _ C(2)] c0
  show "resp_ok Y n sm (status \<noteq> 0 \<and> retried (smpp_status_to_smscconn_failure_reason Y status)) st st'"
    "has_dbbox (io_client st) \<Longrightarrow> reported (io_client st') = reported (io_client st) + {# key (sent_msg sm) #}"
    "c_status (io_conn st') = c_status (io_conn st)" "has_dbbox (io_client st) \<Longrightarrow> has_dbbox (io_client st')"
    "set (outgoing_msg (io_client st')) \<subseteq> insert (mark_failed (io_conn st) t ((sent_msg sm)\<lparr>m_state := MSG_SENT_RESP\<rparr>)) (set (outgoing_msg (io_client st)))"
    by (simp_all add: key_def m_def)
qed

lemma nack_matched:
  assumes Y: "io_spec Y" and w: "window_inv Y st" and k: "dict_map (x_ops (y_ops Y)) (sent_table st) (format_ulong (y_ops Y) n) = Some sm"
    and r: "handle_generic_nack Y t n status st = Some st'"
  shows "resp_ok Y n sm (retried (smpp_status_to_smscconn_failure_reason Y status)) st st'" "reported (io_client st') = reported (io_client st)"
    "c_status (io_conn st') = c_status (io_conn st)" "has_dbbox (io_client st') = has_dbbox (io_client st)"
    "outgoing_msg (io_client st') = outgoing_msg (io_client st) @
       (if retried (smpp_status_to_smscconn_failure_reason Y status) then [mark_failed (io_conn st) t (sent_msg sm)] else [])"
proof -
  obtain d where d: "take_sent Y n st = Some (Some sm, set_smpp ((io_smpp st)\<lparr>sent_msgs := d\<rparr>) st)"
    using take_sent_result [OF Y w, of n] k by auto
  define st1 where "st1 = set_smpp ((io_smpp st)\<lparr>sent_msgs := d\<rparr>) st"
  have c0: "io_client st1 = io_client st" "c_status (io_conn st1) = c_status (io_conn st)" "c_id (io_conn st1) = c_id (io_conn st)" by (simp_all add: st1_def)
  note D = d [folded st1_def] and W = with_failed_result [OF Y]
  have s: "st' = drop_pending (with_failed Y t (sent_msg sm) (smpp_status_to_smscconn_failure_reason Y status) (note_throttling Y t status st1))"
    using r d by (simp add: handle_generic_nack_def st1_def)
  show "resp_ok Y n sm (retried (smpp_status_to_smscconn_failure_reason Y status)) st st'"
    by (rule resp_okI [OF Y w k D, where x = "if status = k_RTHROTTLED (y_codes Y) then t else 0"]) (auto simp: s W note_throttling_def c0)
  show "reported (io_client st') = reported (io_client st)" "has_dbbox (io_client st') = has_dbbox (io_client st)" by (simp_all add: s W c0)
  show "c_status (io_conn st') = c_status (io_conn st)" by (simp add: s W) (simp add: note_throttling_def c0)
  have "mark_failed (io_conn (note_throttling Y t status st1)) t (sent_msg sm) = mark_failed (io_conn st) t (sent_msg sm)"
    by (simp add: mark_failed_def c0)
  then show "outgoing_msg (io_client st') = outgoing_msg (io_client st) @
      (if retried (smpp_status_to_smscconn_failure_reason Y status) then [mark_failed (io_conn st) t (sent_msg sm)] else [])"
    by (simp add: s W c0)
qed

section \<open>All PDUs\<close>

definition bind_ok :: "in_pdu \<Rightarrow> bool" where
  "bind_ok pdu \<longleftrightarrow> pdu = In_bind_transmitter_resp 0 \<or> pdu = In_bind_transceiver_resp 0"

lemma handle_deliver_result:
  assumes "handle_deliver_sm Y d st = Some st'"
  shows "io_conn st' = io_conn st" "pending_submits st' = pending_submits st" "outgoing_msg (io_client st') = outgoing_msg (io_client st)"
    "has_dbbox (io_client st) \<Longrightarrow> reported (io_client st') = reported (io_client st) \<and> has_dbbox (io_client st')"
proof -
  define C where "C = (io_client st)\<lparr>incoming_msg_counter := snd (counter_increase (incoming_msg_counter (io_client st)))\<rparr>"
  obtain r pdu where s: "st' = snd (send_pdu Y pdu (st\<lparr>io_client := snd (send_msg_dbbox_server (Insert_status r) 0 C)\<rparr>))"
    using assms by (auto simp: handle_deliver_sm_def Let_def split_def simp flip: C_def split: option.splits)
  then show "io_conn st' = io_conn st" "pending_submits st' = pending_submits st" by simp_all
  show "outgoing_msg (io_client st') = outgoing_msg (io_client st)"
    by (simp add: s send_msg_dbbox_server_def C_def split: option.splits)
  assume "has_dbbox (io_client st)"
  then have "has_dbbox C" "reported C = reported (io_client st)" by (simp_all add: C_def has_dbbox_def reported_def)
  then show "reported (io_client st') = reported (io_client st) \<and> has_dbbox (io_client st')"
    using send_dbbox_reported(1,3) [of C "Insert_status r" 0] by (simp add: s)
qed

lemma handle_pdu_window:
  assumes Y: "io_spec Y" and w: "window_inv Y st" and b: "bind_ok pdu \<Longrightarrow> pending_submits st = -1" and h: "handle_pdu Y t pdu st = Some st'"
  shows "window_inv Y st' \<and> budget st' = budget st \<and> queue st' = queue st \<and>
    (pending_submits st' = -1 \<longleftrightarrow> pending_submits st = -1 \<and> \<not> bind_ok pdu)"
proof -
  have same: "window_inv Y st' \<and> budget st' = budget st \<and> queue st' = queue st \<and> (pending_submits st' = -1 \<longleftrightarrow> pending_submits st = -1)"
    if "io_smpp st' = io_smpp st" "pending_submits st' = pending_submits st"
    using that w by (simp add: window_inv_def issued_def budget_def)
  have quit: "window_inv Y (set_smpp ((io_smpp st)\<lparr>s_quitting := True\<rparr>) st)" "budget (set_smpp ((io_smpp st)\<lparr>s_quitting := True\<rparr>) st) = budget st"
    using w by (simp_all add: window_inv_def issued_def budget_def)
  have resp: "window_inv Y st' \<and> budget st' = budget st \<and> queue st' = queue st \<and> (pending_submits st' = -1 \<longleftrightarrow> pending_submits st = -1)"
    if "handle_submit_sm_resp Y t n status mid st = Some st' \<or> handle_generic_nack Y t n status st = Some st'" for n status mid
  proof (cases "dict_map (x_ops (y_ops Y)) (sent_table st) (format_ulong (y_ops Y) n)")
    case None
    then show ?thesis using unmatched [OF Y w None, of t status mid] that by (auto simp: budget_def)
  next
    case (Some sm)
    have "\<exists>a. resp_ok Y n sm a st st'" using that submit_resp_matched(1) [OF Y w Some] nack_matched(1) [OF Y w Some] by blast
    moreover have "pending_submits st > 0"
    proof -
      have inv: "dict_inv (x_ops (y_ops Y)) (sent_table st)" using w by (simp add: window_inv_def)
      have "dict_key_count (sent_table st) \<noteq> 0" using Some key_count_bounds(2) [OF inv] by auto
      then show ?thesis using w key_count_bounds(1) [OF inv] by (auto simp: window_inv_def)
    qed
    ultimately show ?thesis by (auto simp: resp_ok_def)
  qed
  have bind: "window_inv Y st' \<and> budget st' = budget st \<and> queue st' = queue st \<and> (pending_submits st' = -1 \<longleftrightarrow> pending_submits st = -1 \<and> status \<noteq> 0)"
    if "st' = handle_bind_resp Y t status st" "status = 0 \<Longrightarrow> pending_submits st = -1" for status
  proof (cases "status = 0")
    case True
    then show ?thesis
      using that w key_count_bounds(1) [of "x_ops (y_ops Y)" "sent_table st"] by (auto simp: handle_bind_resp_def window_inv_def issued_def budget_def)
  next
    case False
    then show ?thesis using that same quit by (auto simp: handle_bind_resp_def split: if_splits)
  qed
  show ?thesis
  proof (cases pdu)
    case (In_deliver_sm d)
    then show ?thesis using h handle_deliver_result [of Y d st st'] same by (simp add: bind_ok_def)
  next
    case (In_submit_sm_resp n status mid)
    then show ?thesis using h resp [of n status mid] by (simp add: bind_ok_def)
  next
    case (In_generic_nack n status)
    then show ?thesis using h resp [of n status] by (simp add: bind_ok_def)
  next
    case (In_bind_transmitter_resp status)
    then show ?thesis using h b bind [of status] by (simp add: bind_ok_def)
  next
    case (In_bind_transceiver_resp status)
    then show ?thesis using h b bind [of status] by (simp add: bind_ok_def)
  next
    case (In_bind_receiver_resp status)
    then have "st' = handle_bind_receiver_resp Y t status st" using h by simp
    then have "st' = set_smpp ((io_smpp st)\<lparr>s_quitting := True\<rparr>) st \<or> io_smpp st' = io_smpp st \<and> pending_submits st' = pending_submits st"
      by (auto simp: handle_bind_receiver_resp_def)
    then show ?thesis using same quit In_bind_receiver_resp by (auto simp: bind_ok_def)
  qed (use h same in \<open>auto simp: bind_ok_def\<close>)
qed

section \<open>Expiry and loss of the connection\<close>

lemma window_count: "window_inv Y st \<Longrightarrow> 0 \<le> dict_key_count (sent_table st)"
  using key_count_bounds(1) by (auto simp: window_inv_def)

lemma take_key:
  assumes Y: "io_spec Y" and w: "window_inv Y st" and k: "k = format_ulong (y_ops Y) n"
  shows "dict_remove (x_ops (y_ops Y)) (x_items (y_ops Y)) (sent_table st) k = Some (r, d) \<Longrightarrow>
    take_sent Y n st = Some (r, set_smpp ((io_smpp st)\<lparr>sent_msgs := d\<rparr>) st)"
  by (simp add: take_sent_def k)

lemma expire_one:
  fixes t :: int
  assumes Y: "io_spec Y" and w: "window_inv Y st" and k: "dict_map (x_ops (y_ops Y)) (sent_table st) k = Some sm"
    and d: "dict_remove (x_ops (y_ops Y)) (x_items (y_ops Y)) (sent_table st) k = Some (r, d)" and reason: "retried reason"
  defines "st' \<equiv> drop_pending (with_failed Y t (sent_msg sm) reason (set_smpp ((io_smpp st)\<lparr>sent_msgs := d\<rparr>) st))"
  shows "r = Some sm" "window_inv Y st'" "budget st' = budget st" "queue st' = queue st" "io_keys st' = io_keys st" "pending_submits st > 0"
    "dict_map (x_ops (y_ops Y)) (sent_table st') = (dict_map (x_ops (y_ops Y)) (sent_table st))(k := None)"
    "reported (io_client st') = reported (io_client st)" "pending_submits st' = pending_submits st - 1"
    "outgoing_msg (io_client st') = outgoing_msg (io_client st) @ [mark_failed (io_conn st) t (sent_msg sm)]"
proof -
  note W = with_failed_result [OF Y]
  have "k \<in> issued Y st" using w k by (auto simp: window_inv_def)
  then obtain n where n: "k = format_ulong (y_ops Y) n" by (auto simp: issued_def)
  note T = take_key [OF Y w n d]
  show r: "r = Some sm" using T take_sent_result [OF Y w, of n] k n by auto
  have "resp_ok Y n sm True st st'"
    by (rule resp_okI [OF Y w _ T [unfolded r], where x = 0]) (use k n reason in \<open>auto simp: st'_def W\<close>)
  then show "window_inv Y st'" "budget st' = budget st" "queue st' = queue st" "io_keys st' = io_keys st" "pending_submits st' = pending_submits st - 1"
    "dict_map (x_ops (y_ops Y)) (sent_table st') = (dict_map (x_ops (y_ops Y)) (sent_table st))(k := None)"
    by (simp_all add: resp_ok_def io_keys_def n)
  show "reported (io_client st') = reported (io_client st)"
    "outgoing_msg (io_client st') = outgoing_msg (io_client st) @ [mark_failed (io_conn st) t (sent_msg sm)]"
    using reason by (simp_all add: st'_def W mark_failed_def)
  have inv: "dict_inv (x_ops (y_ops Y)) (sent_table st)" using w by (simp add: window_inv_def)
  have "dict_key_count (sent_table st) \<noteq> 0" using k key_count_bounds(2) [OF inv] by auto
  then show "pending_submits st > 0" using w window_count [OF w] by (auto simp: window_inv_def)
qed

text \<open>\<^verbatim>\<open>do_queue_cleanup\<close> hands the messages that have waited too long back to the router, keeps the window, and loses nothing.\<close>

lemma cleanup_keys_result:
  assumes Y: "io_spec Y"
  shows "window_inv Y st \<Longrightarrow> cleanup_keys Y t action ks st = Some (r, st') \<Longrightarrow>
    window_inv Y st' \<and> budget st' = budget st \<and> queue st' = queue st \<and> io_keys st' = io_keys st \<and> reported (io_client st') = reported (io_client st) \<and>
    (pending_submits st' = -1 \<longleftrightarrow> pending_submits st = -1)"
proof (induction ks arbitrary: st)
  case Nil
  then show ?case by simp
next
  case (Cons k ks)
  have inv: "dict_inv (x_ops (y_ops Y)) (sent_table st)" using Cons.prems(1) by (simp add: window_inv_def)
  note G = dict_get_map [OF io_specD(2,5) [OF Y] inv, of k]
  show ?case
  proof (cases "dict_map (x_ops (y_ops Y)) (sent_table st) k")
    case None
    then show ?thesis using Cons G by simp
  next
    case (Some sm)
    show ?thesis
    proof (cases "t - sent_time sm > wait_ack (io_smpp st) \<and> action = 1")
      case False
      then show ?thesis using Cons G Some by (auto split: if_splits)
    next
      case True
      obtain d where d: "dict_remove (x_ops (y_ops Y)) (x_items (y_ops Y)) (sent_table st) k = Some (Some sm, d)"
        using remove_entry [OF Y inv, of k] Some by auto
      let ?st = "drop_pending (with_failed Y t (sent_msg sm) SMSCCONN_FAILED_TEMPORARILY (set_smpp ((io_smpp st)\<lparr>sent_msgs := d\<rparr>) st))"
      have c: "cleanup_keys Y t action ks ?st = Some (r, st')" using Cons.prems(2) True Some G d by simp
      have "retried SMSCCONN_FAILED_TEMPORARILY" by (simp add: retried_def)
      note E = expire_one(2-5,8,9) [OF Y Cons.prems(1) Some d this, where t = t] and pos = expire_one(6) [OF Y Cons.prems(1) Some d this]
      show ?thesis using Cons.IH [OF E(1) c] E(2-) pos by (simp del: drop_pending_simps)
    qed
  qed
qed

lemma do_queue_cleanup_result:
  assumes Y: "io_spec Y" and w: "window_inv Y st" and c: "do_queue_cleanup Y t action st = Some (r, st')"
  shows "window_inv Y st' \<and> budget st' = budget st \<and> queue st' = queue st \<and> io_keys st' = io_keys st \<and> reported (io_client st') = reported (io_client st) \<and>
    (pending_submits st' = -1 \<longleftrightarrow> pending_submits st = -1)"
  using cleanup_keys_result [OF Y w, of t action "dict_keys (sent_table st)"] c w by (auto simp: do_queue_cleanup_def split: if_splits)

lemma fail_queued_result:
  assumes Y: "io_spec Y" and reason: "retried reason"
  shows "length (queue st) < k \<Longrightarrow>
    io_smpp (fail_queued Y t reason k st) = (io_smpp st)\<lparr>msgs_to_send := []\<rparr> \<and> c_status (io_conn (fail_queued Y t reason k st)) = c_status (io_conn st) \<and>
    outgoing_msg (io_client (fail_queued Y t reason k st)) =
      outgoing_msg (io_client st) @ map (mark_failed (io_conn st) t) (filter (\<lambda>m. i_pdu (sm_info m) \<noteq> None) (queue st)) \<and>
    reported (io_client (fail_queued Y t reason k st)) = reported (io_client st) \<and>
    has_dbbox (io_client (fail_queued Y t reason k st)) = has_dbbox (io_client st) \<and> c_id (io_conn (fail_queued Y t reason k st)) = c_id (io_conn st)"
proof (induction k arbitrary: st)
  case 0
  then show ?case by simp
next
  case (Suc k)
  note G = gwlist_extract_first_spec [OF io_specD(4) [OF Y]] and W = with_failed_result [OF Y]
  show ?case
  proof (cases "queue st")
    case Nil
    then show ?thesis by (simp add: G)
  next
    case (Cons m l)
    define st1 where "st1 = set_smpp ((io_smpp st)\<lparr>msgs_to_send := l\<rparr>) st"
    define st2 where "st2 = (if i_pdu (sm_info m) = None then st1 else with_failed Y t m reason st1)"
    have f: "fail_queued Y t reason (Suc k) st = fail_queued Y t reason k st2" by (simp add: G Cons Let_def st1_def st2_def)
    have e: "io_smpp st2 = (io_smpp st)\<lparr>msgs_to_send := l\<rparr>" "c_status (io_conn st2) = c_status (io_conn st)" "c_id (io_conn st2) = c_id (io_conn st)"
      "reported (io_client st2) = reported (io_client st)" "has_dbbox (io_client st2) = has_dbbox (io_client st)"
      "outgoing_msg (io_client st2) = outgoing_msg (io_client st) @ (if i_pdu (sm_info m) = None then [] else [mark_failed (io_conn st) t m])"
      using reason by (simp_all add: st2_def W) (simp_all add: st1_def mark_failed_def)
    have l: "length (queue st2) < k" using Suc.prems Cons by (simp add: e)
    have mf: "mark_failed (io_conn st2) t = mark_failed (io_conn st) t" by (rule ext) (rule mark_failed_id [OF e(3)])
    show ?thesis using Suc.IH [OF l] unfolding f by (simp add: e mf Cons)
  qed
qed

lemma fail_sent_result:
  assumes Y: "io_spec Y" and reason: "retried reason"
  shows "dict_inv (x_ops (y_ops Y)) (sent_table st) \<Longrightarrow> \<exists>st'. fail_sent Y t reason ks st = Some st' \<and> dict_inv (x_ops (y_ops Y)) (sent_table st') \<and>
    dict_map (x_ops (y_ops Y)) (sent_table st') = dict_map (x_ops (y_ops Y)) (sent_table st) |` (- set ks) \<and> io_keys st' = io_keys st \<and>
    queue st' = queue st \<and> reported (io_client st') = reported (io_client st) \<and> has_dbbox (io_client st') = has_dbbox (io_client st) \<and>
    c_status (io_conn st') = c_status (io_conn st) \<and> message_id_counter (io_smpp st') = message_id_counter (io_smpp st) \<and>
    s_quitting (io_smpp st') = s_quitting (io_smpp st) \<and>
    set (outgoing_msg (io_client st')) \<subseteq> set (outgoing_msg (io_client st)) \<union>
      (\<lambda>sm. mark_failed (io_conn st) t (sent_msg sm)) ` set (dict_values (sent_table st))"
proof (induction ks arbitrary: st)
  case Nil
  then show ?case by (simp add: restrict_map_def)
next
  case (Cons k ks)
  note W = with_failed_result [OF Y]
  let ?X = "x_ops (y_ops Y)"
  obtain d where d: "dict_remove ?X (x_items (y_ops Y)) (sent_table st) k = Some (dict_map ?X (sent_table st) k, d)" "dict_inv ?X d"
    "dict_map ?X d = (dict_map ?X (sent_table st))(k := None)"
    "mset (dict_values (sent_table st)) = mset (dict_values d) + mset (opt_list (dict_map ?X (sent_table st) k))"
    using remove_entry [OF Y Cons.prems, of k] by blast
  define st1 where "st1 = set_smpp ((io_smpp st)\<lparr>sent_msgs := d\<rparr>) st"
  define st2 where "st2 = (case dict_map ?X (sent_table st) k of None \<Rightarrow> st1 | Some sm \<Rightarrow> with_failed Y t (sent_msg sm) reason st1)"
  have f: "fail_sent Y t reason (k # ks) st = fail_sent Y t reason ks st2"
    unfolding st2_def st1_def by (simp add: d(1) Let_def)
  have sm: "io_smpp st2 = (io_smpp st)\<lparr>sent_msgs := d\<rparr>" "c_status (io_conn st2) = c_status (io_conn st)" "c_id (io_conn st2) = c_id (io_conn st)"
      "reported (io_client st2) = reported (io_client st)" "has_dbbox (io_client st2) = has_dbbox (io_client st)"
    by (simp_all add: st2_def W st1_def split: option.split)
  have o: "outgoing_msg (io_client st2) = outgoing_msg (io_client st) @
      (case dict_map ?X (sent_table st) k of None \<Rightarrow> [] | Some sm \<Rightarrow> [mark_failed (io_conn st) t (sent_msg sm)])"
    using reason by (simp add: st2_def W st1_def mark_failed_def split: option.split)
  have vs: "set (dict_values (sent_table st)) = set (dict_values d) \<union> set (opt_list (dict_map ?X (sent_table st) k))"
    using arg_cong [OF d(4), of set_mset] by simp
  have ks: "io_keys st2 = io_keys st"
    using arg_cong [OF d(4), of "image_mset (key \<circ> sent_msg)"] by (simp add: io_keys_def o sm conn_keys_def split: option.split)
  have inv: "dict_inv ?X (sent_table st2)" by (simp add: sm d(2))
  obtain st' where S: "fail_sent Y t reason ks st2 = Some st'" "dict_inv ?X (sent_table st')"
    "dict_map ?X (sent_table st') = dict_map ?X (sent_table st2) |` (- set ks)" "io_keys st' = io_keys st2" "queue st' = queue st2"
    "reported (io_client st') = reported (io_client st2)" "has_dbbox (io_client st') = has_dbbox (io_client st2)"
    "c_status (io_conn st') = c_status (io_conn st2)" "message_id_counter (io_smpp st') = message_id_counter (io_smpp st2)"
    "s_quitting (io_smpp st') = s_quitting (io_smpp st2)"
    "set (outgoing_msg (io_client st')) \<subseteq> set (outgoing_msg (io_client st2)) \<union> (\<lambda>sm. mark_failed (io_conn st2) t (sent_msg sm)) ` set (dict_values (sent_table st2))"
    using Cons.IH [OF inv] by blast
  have "dict_map ?X (sent_table st') = dict_map ?X (sent_table st) |` (- set (k # ks))"
    unfolding S(3) by (rule ext) (simp add: sm d(3) restrict_map_def)
  moreover have "set (outgoing_msg (io_client st')) \<subseteq> set (outgoing_msg (io_client st)) \<union>
      (\<lambda>sm. mark_failed (io_conn st) t (sent_msg sm)) ` set (dict_values (sent_table st))"
    using S(11) unfolding vs
    by (cases "dict_map ?X (sent_table st) k") (auto simp: o sm mark_failed_id [OF sm(3)])
  ultimately show ?case unfolding f using S ks sm by (intro exI [of _ st']) simp
qed

text \<open>A connection that is lost gives every message back to the router, those that were not yet sent and those without a response.\<close>

lemma connection_lost_result:
  assumes Y: "io_spec Y" and w: "dict_inv (x_ops (y_ops Y)) (sent_table st)"
  shows "\<exists>st'. connection_lost Y t was_open True st = Some st' \<and> queue st' = [] \<and> dict_inv (x_ops (y_ops Y)) (sent_table st') \<and>
    dict_map (x_ops (y_ops Y)) (sent_table st') = Map.empty \<and>
    io_keys st = io_keys st' + mset (map key (filter (\<lambda>m. i_pdu (sm_info m) = None) (queue st))) \<and>
    reported (io_client st') = reported (io_client st) \<and> has_dbbox (io_client st') = has_dbbox (io_client st) \<and>
    c_status (io_conn st') = SMSCCONN_RECONNECTING \<and> message_id_counter (io_smpp st') = message_id_counter (io_smpp st) \<and>
    s_quitting (io_smpp st') = s_quitting (io_smpp st) \<and>
    set (outgoing_msg (io_client st')) \<subseteq> set (outgoing_msg (io_client st)) \<union> mark_failed (io_conn st) t ` {m \<in> set (queue st). i_pdu (sm_info m) \<noteq> None} \<union>
      (\<lambda>sm. mark_failed (io_conn st) t (sent_msg sm)) ` set (dict_values (sent_table st))"
proof -
  let ?X = "x_ops (y_ops Y)"
  define st2 where "st2 = set_status SMSCCONN_RECONNECTING (if was_open then st\<lparr>io_conn := reset_smpp_counters (io_conn st)\<rparr> else st)"
  define reason where "reason = (if s_quitting (io_smpp st2) then SMSCCONN_FAILED_SHUTDOWN else SMSCCONN_FAILED_TEMPORARILY)"
  have r: "retried reason" by (simp add: reason_def retried_def)
  define st3 where "st3 = fail_queued Y t reason (Suc (length (queue st2))) st2"
  have e2: "io_smpp st2 = io_smpp st" "io_client st2 = io_client st" "c_status (io_conn st2) = SMSCCONN_RECONNECTING" "c_id (io_conn st2) = c_id (io_conn st)"
    by (simp_all add: st2_def reset_smpp_counters_def)
  have e3: "io_smpp st3 = (io_smpp st)\<lparr>msgs_to_send := []\<rparr>" "c_status (io_conn st3) = SMSCCONN_RECONNECTING"
    "outgoing_msg (io_client st3) = outgoing_msg (io_client st) @ map (mark_failed (io_conn st2) t) (filter (\<lambda>m. i_pdu (sm_info m) \<noteq> None) (queue st))"
    "reported (io_client st3) = reported (io_client st)" "has_dbbox (io_client st3) = has_dbbox (io_client st)" "c_id (io_conn st3) = c_id (io_conn st)"
    using fail_queued_result [OF Y r, of st2 "Suc (length (queue st2))" t] by (simp_all add: st3_def e2)
  have inv: "dict_inv ?X (sent_table st3)" using w by (simp add: e3)
  obtain st' where S: "fail_sent Y t reason (dict_keys (sent_table st3)) st3 = Some st'" "dict_inv ?X (sent_table st')"
    "dict_map ?X (sent_table st') = dict_map ?X (sent_table st3) |` (- set (dict_keys (sent_table st3)))" "io_keys st' = io_keys st3"
    "queue st' = queue st3" "reported (io_client st') = reported (io_client st3)" "has_dbbox (io_client st') = has_dbbox (io_client st3)"
    "c_status (io_conn st') = c_status (io_conn st3)" "message_id_counter (io_smpp st') = message_id_counter (io_smpp st3)"
    "s_quitting (io_smpp st') = s_quitting (io_smpp st3)"
    "set (outgoing_msg (io_client st')) \<subseteq> set (outgoing_msg (io_client st3)) \<union> (\<lambda>sm. mark_failed (io_conn st3) t (sent_msg sm)) ` set (dict_values (sent_table st3))"
    using fail_sent_result [OF Y r inv] by blast
  have c: "connection_lost Y t was_open True st = Some st'"
    using S(1) unfolding st3_def reason_def st2_def by (simp only: connection_lost_def Let_def if_True)
  have "dict_map ?X (sent_table st') = Map.empty"
    unfolding S(3) dict_keys_dom(1) [OF inv] by (auto simp: restrict_map_def fun_eq_iff domIff)
  have "mset (map key xs) = mset (map key (filter (\<lambda>m. i_pdu (sm_info m) \<noteq> None) xs)) + mset (map key (filter (\<lambda>m. i_pdu (sm_info m) = None) xs))" for xs
    by (induction xs) auto
  from this [of "queue st"] have "io_keys st = io_keys st3 + mset (map key (filter (\<lambda>m. i_pdu (sm_info m) = None) (queue st)))"
    by (simp add: io_keys_def conn_keys_def e3 comp_def)
  with \<open>dict_map ?X (sent_table st') = Map.empty\<close> S c e3 show ?thesis
    by (intro exI [of _ st'] conjI) (auto simp: mark_failed_id [OF e2(4)] mark_failed_id [OF e3(6)])
qed

section \<open>The thread over time\<close>

text \<open>The centre answers a bind once, while it has not been answered yet.\<close>

fun orderly :: "bool \<Rightarrow> (int \<times> in_pdu) list \<Rightarrow> bool" where
  "orderly bound [] \<longleftrightarrow> True"
| "orderly bound ((t, pdu) # es) \<longleftrightarrow> (if bind_ok pdu then \<not> bound \<and> orderly True es else orderly bound es)"

datatype phase = Closed | Open | Ended

type_synonym thread = "phase \<times> io_times \<times> io_state"

text \<open>
  The steps of the thread of a connection that sends: it connects or fails to, runs its loop, loses the connection, or ends.  Between its
  steps the router hands it messages, an administrator shuts it down, a receiving thread of the same connection draws numbers and sets
  the status, and the other threads change the rest of the process.  The steps are those before the sequence numbers wrap around.
\<close>

inductive io_step :: "io_env \<Rightarrow> bind_kind \<Rightarrow> thread \<Rightarrow> thread \<Rightarrow> bool" for Y kind where
  connected: "\<not> s_quitting (io_smpp st) \<Longrightarrow> budget st + 1 < 2 ^ 64 \<Longrightarrow>
    io_step Y kind (Closed, tm, st) (Open, \<lparr>last_enquire_sent = t, last_response = t, last_cleanup = t\<rparr>, io_connect Y kind True st)"
| refused: "\<not> s_quitting (io_smpp st) \<Longrightarrow> connection_lost Y t False (transmits kind) (io_connect Y kind False st) = Some st' \<Longrightarrow>
    io_step Y kind (Closed, tm, st) (Closed, tm, st')"
| round: "\<not> s_quitting (io_smpp st) \<Longrightarrow> orderly (pending_submits st \<noteq> -1) es \<Longrightarrow> budget st + length es + 1 < 2 ^ 64 \<Longrightarrow>
    io_round Y (transmits kind) es bad t tm st = Some (False, tm', st') \<Longrightarrow> io_step Y kind (Open, tm, st) (Open, tm', st')"
| lost: "\<not> s_quitting (io_smpp st) \<Longrightarrow> orderly (pending_submits st \<noteq> -1) es \<Longrightarrow> budget st + length es + 1 < 2 ^ 64 \<Longrightarrow>
    io_round Y (transmits kind) es bad t tm st = Some (True, tm', st1) \<Longrightarrow> connection_lost Y t' True (transmits kind) st1 = Some st' \<Longrightarrow>
    io_step Y kind (Open, tm, st) (Closed, tm', st')"
| broken: "connection_lost Y t True (transmits kind) st = Some st' \<Longrightarrow> io_step Y kind (Open, tm, st) (Closed, tm, st')"
| quit: "s_quitting (io_smpp st) \<Longrightarrow> orderly (pending_submits st \<noteq> -1) es \<Longrightarrow> budget st + 1 < 2 ^ 64 \<Longrightarrow>
    io_quit Y kind t es st = Some st' \<Longrightarrow> io_step Y kind (Open, tm, st) (Ended, tm, st')"
| ended: "s_quitting (io_smpp st) \<Longrightarrow> io_step Y kind (Closed, tm, st) (Ended, tm, set_status SMSCCONN_DEAD st)"
| routed: "sendable Y m \<Longrightarrow> smscconn_send (y_ops Y) (io_conn st) m = (ret, conn) \<Longrightarrow> io_step Y kind (ph, tm, st) (ph, tm, st\<lparr>io_conn := conn\<rparr>)"
| stopped: "io_step Y kind (ph, tm, st) (ph, tm, shutdown_request st)"
| receiver: "budget st + 1 < 2 ^ 64 \<Longrightarrow> io_step Y kind (ph, tm, st) (ph, tm, set_status x (snd (next_seq st)))"
| process: "io_step Y kind (ph, tm, st) (ph, tm, st\<lparr>io_client := C\<rparr>)"

inductive_cases io_step_EndedE: "io_step Y kind (Ended, tm, st) s"

definition thread_inv :: "io_env \<Rightarrow> thread \<Rightarrow> bool" where
  "thread_inv Y s = (case s of (ph, tm, st) \<Rightarrow>
     if ph = Open then window_inv Y st
     else dict_inv (x_ops (y_ops Y)) (sent_table st) \<and> dict_map (x_ops (y_ops Y)) (sent_table st) = Map.empty \<and> list_all (sendable Y) (queue st))"

lemma enquire_result:
  assumes w: "window_inv Y st" and b: "budget st + 1 < 2 ^ 64" and s: "send_enquire_link Y t le st = (le', st')"
  shows "window_inv Y st' \<and> budget st' \<le> budget st + 1 \<and> queue st' = queue st \<and> pending_submits st' = pending_submits st"
proof (cases "t - le < enquire_link_interval (io_smpp st)")
  case True
  with s w show ?thesis by (simp add: send_enquire_link_def)
next
  case False
  then obtain pdu where st': "st' = snd (send_pdu Y pdu (draw 1 st))" using s by (auto simp: send_enquire_link_def next_seq_draw Let_def)
  have u: "unat (counter_n (message_id_counter (io_smpp st))) + 1 < 2 ^ 64" using b by (simp add: budget_def)
  have e: "io_conn st' = io_conn (draw 1 st)" "pending_submits st' = pending_submits (draw 1 st)" by (simp_all add: st')
  have "window_inv Y st'" unfolding window_cong(1) [OF e] by (rule window_draw [OF w u])
  moreover have "budget st' = budget st + 1" using unat_draw [OF u] by (simp add: budget_def e(1) del: One_nat_def)
  ultimately show ?thesis by (simp add: e)
qed

lemma throttled_result:
  assumes Y: "io_spec Y" and w: "window_inv Y st" "budget st < 2 ^ 64" and s: "send_unless_throttled Y t tr st = Some st'"
  shows "window_inv Y st' \<and> budget st' \<le> budget st \<and> (pending_submits st' = -1 \<longleftrightarrow> pending_submits st = -1)"
proof (cases "tr \<and> t - throttling_err_time (io_smpp st) > 15")
  case True
  let ?st = "set_smpp ((io_smpp st)\<lparr>throttling_err_time := 0\<rparr>) st"
  have e: "window_inv Y ?st" "budget ?st = budget st" using w window_eq(1) [of ?st st Y] window_eq(2) [of ?st st] by simp_all
  have "sends Y ?st st'" using send_messages_result [OF Y e(1)] e(2) w(2) s True by (simp add: send_unless_throttled_def)
  then show ?thesis using e(2) by (simp add: sends_def)
next
  case False
  with s w show ?thesis by (auto simp: send_unless_throttled_def)
qed

lemma io_pdus_result:
  assumes Y: "io_spec Y"
  shows "window_inv Y st \<Longrightarrow> orderly (pending_submits st \<noteq> -1) es \<Longrightarrow> budget st + length es < 2 ^ 64 \<Longrightarrow>
    io_pdus Y tr es le st = Some (left, le', st') \<Longrightarrow> window_inv Y st' \<and> budget st' \<le> budget st + length es"
proof (induction es arbitrary: le st)
  case Nil
  then show ?case by simp
next
  case (Cons e es)
  obtain t pdu where e: "e = (t, pdu)" by force
  obtain st1 where h: "handle_pdu Y t pdu st = Some st1" using Cons.prems(4) e by (auto split: option.splits)
  have b: "bind_ok pdu \<Longrightarrow> pending_submits st = -1" using Cons.prems(2) e by (simp split: if_splits)
  note H = handle_pdu_window [OF Y Cons.prems(1) b h]
  show ?case
  proof (cases "c_status (io_conn st1) \<noteq> SMSCCONN_ACTIVE \<and> c_status (io_conn st1) \<noteq> SMSCCONN_ACTIVE_RECV")
    case True
    with Cons.prems(4) e h H show ?thesis by auto
  next
    case False
    obtain le2 st2 where q: "send_enquire_link Y t le st1 = (le2, st2)" by force
    have b1: "budget st1 + 1 < 2 ^ 64" using H Cons.prems(3) by simp
    note Q = enquire_result [OF _ b1 q]
    obtain st3 where s: "send_unless_throttled Y t tr st2 = Some st3" and r: "io_pdus Y tr es le2 st3 = Some (left, le', st')"
      using Cons.prems(4) False e h q by (auto split: option.splits)
    have w2: "window_inv Y st2" "budget st2 < 2 ^ 64" using Q H b1 by auto
    note T = throttled_result [OF Y w2 s]
    have o: "orderly (pending_submits st3 \<noteq> -1) es"
      using Cons.prems(2) e b T Q H by (cases "bind_ok pdu") auto
    have b3: "budget st3 + length es < 2 ^ 64" using T Q H Cons.prems(3) by simp
    show ?thesis using Cons.IH [OF _ o b3 r] T Q H Cons.prems(3) by simp
  qed
qed

lemma io_round_result:
  assumes Y: "io_spec Y" and w: "window_inv Y st" and o: "orderly (pending_submits st \<noteq> -1) es" and b: "budget st + length es + 1 < 2 ^ 64"
    and r: "io_round Y tr es bad t tm st = Some (up, tm', st')"
  shows "window_inv Y st'"
proof -
  obtain le st1 where q: "send_enquire_link Y t (last_enquire_sent tm) st = (le, st1)" by force
  have "budget st + 1 < 2 ^ 64" using b by simp
  note Q = enquire_result [OF w this q]
  obtain left le2 st2 where p: "io_pdus Y tr es le st1 = Some (left, le2, st2)"
    using r q by (auto simp: io_round_def Let_def split: option.splits)
  have o1: "orderly (pending_submits st1 \<noteq> -1) es" "budget st1 + length es < 2 ^ 64" using o Q b by simp_all
  have P: "window_inv Y st2 \<and> budget st2 < 2 ^ 64" using io_pdus_result [OF Y _ o1 p] Q b by simp
  have C: "window_inv Y st3 \<and> budget st3 < 2 ^ 64" if "do_queue_cleanup Y t a st2 = Some (x, st3)" for a x st3
    using do_queue_cleanup_result [OF Y _ that] P by simp
  have "st' = st2 \<or> (\<exists>a x. do_queue_cleanup Y t a st2 = Some (x, st')) \<or>
      (\<exists>st3. (st3 = st2 \<or> (\<exists>a x. do_queue_cleanup Y t a st2 = Some (x, st3))) \<and> send_unless_throttled Y t tr st3 = Some st')"
    using r q p by (simp add: io_round_def Let_def split: if_splits option.splits prod.splits) blast+
  then show ?thesis
    using P C throttled_result [OF Y] by blast
qed

lemma quit_pdus_result:
  assumes Y: "io_spec Y"
  shows "window_inv Y st \<Longrightarrow> orderly (pending_submits st \<noteq> -1) es \<Longrightarrow> quit_pdus Y es st = Some st' \<Longrightarrow> window_inv Y st'"
proof (induction es arbitrary: st)
  case Nil
  then show ?case by simp
next
  case (Cons e es)
  obtain t pdu where e: "e = (t, pdu)" by force
  show ?case
  proof (cases "c_status (io_conn st) = SMSCCONN_DISCONNECTED")
    case True
    with Cons.prems e show ?thesis by simp
  next
    case False
    then obtain st1 where h: "handle_pdu Y t pdu st = Some st1" and r: "quit_pdus Y es st1 = Some st'"
      using Cons.prems(3) e by (auto split: option.splits)
    have b: "bind_ok pdu \<Longrightarrow> pending_submits st = -1" using Cons.prems(2) e by (simp split: if_splits)
    note H = handle_pdu_window [OF Y Cons.prems(1) b h]
    have "orderly (pending_submits st1 \<noteq> -1) es" using Cons.prems(2) e b H by (cases "bind_ok pdu") auto
    then show ?thesis using Cons.IH [OF _ _ r] H by blast
  qed
qed

lemma unbind_result:
  assumes w: "window_inv Y st" and b: "budget st + 1 < 2 ^ 64"
  shows "window_inv Y (send_unbind Y st)" "pending_submits (send_unbind Y st) = pending_submits st"
proof -
  have u: "unat (counter_n (message_id_counter (io_smpp st))) + 1 < 2 ^ 64" using b by (simp add: budget_def)
  have e: "io_conn (send_unbind Y st) = io_conn (draw 1 st)" "pending_submits (send_unbind Y st) = pending_submits (draw 1 st)"
    by (simp_all add: send_unbind_def next_seq_draw)
  show "window_inv Y (send_unbind Y st)" unfolding window_cong(1) [OF e] by (rule window_draw [OF w u])
  show "pending_submits (send_unbind Y st) = pending_submits st" by (simp add: e)
qed

lemma connect_fields:
  "sent_table (io_connect Y kind opened st) = sent_table st" "queue (io_connect Y kind opened st) = queue st"
  "pending_submits (io_connect Y kind opened st) = -1" "io_client (io_connect Y kind opened st) = io_client st"
  by (simp_all add: io_connect_def open_bind_def next_seq_draw Let_def)

lemma lost_inv:
  assumes Y: "io_spec Y" and w: "dict_inv (x_ops (y_ops Y)) (sent_table st)" and l: "connection_lost Y t b True st = Some st'"
  shows "thread_inv Y (Closed, tm, st')"
  using connection_lost_result [OF Y w, of t b] l by (auto simp: thread_inv_def)

lemma step_inv:
  assumes Y: "io_spec Y" and k: "transmits kind" and s: "io_step Y kind a b" and inv: "thread_inv Y a"
  shows "thread_inv Y b"
  using s inv
proof (induction rule: io_step.induct)
  case (connected st tm t)
  have "dict_values (sent_table st) = []" "dict_key_count (sent_table st) = 0"
    using connected(3) key_count_bounds(2,3) [of "x_ops (y_ops Y)" "sent_table st"] by (auto simp: thread_inv_def)
  with connected(3) show ?case by (simp add: thread_inv_def window_inv_def connect_fields)
next
  case (refused st t st' tm)
  then show ?case using lost_inv [OF Y, of "io_connect Y kind False st"] k by (simp add: thread_inv_def connect_fields)
next
  case (round st es bad t tm tm' st')
  then show ?case using io_round_result [OF Y _ round(2,3,4)] by (simp add: thread_inv_def)
next
  case (lost st es bad t tm tm' st1 t' st')
  then have "window_inv Y st1" using io_round_result [OF Y _ lost(2,3,4)] by (simp add: thread_inv_def)
  then have "dict_inv (x_ops (y_ops Y)) (sent_table st1)" by (simp add: window_inv_def)
  then show ?case using lost_inv [OF Y] lost(5) k by simp
next
  case (broken t st st' tm)
  then have "dict_inv (x_ops (y_ops Y)) (sent_table st)" by (simp add: window_inv_def thread_inv_def)
  then show ?case using lost_inv [OF Y] broken(1) k by simp
next
  case (quit st es t st' tm)
  then have w: "window_inv Y (send_unbind Y st)" "pending_submits (send_unbind Y st) = pending_submits st"
    using unbind_result [of Y st] by (simp_all add: thread_inv_def)
  obtain st1 st2 where q: "quit_pdus Y es (send_unbind Y st) = Some st1" "connection_lost Y t True True st1 = Some st2" "st' = set_status SMSCCONN_DEAD st2"
    using quit(4) k by (auto simp: io_quit_def split: option.splits)
  have "orderly (pending_submits (send_unbind Y st) \<noteq> -1) es" using quit(2) w(2) by simp
  then have "window_inv Y st1" using quit_pdus_result [OF Y w(1) _ q(1)] by blast
  then show ?case using lost_inv [OF Y _ q(2)] q(3) by (simp add: thread_inv_def window_inv_def)
next
  case (ended st tm)
  then show ?case by (simp add: thread_inv_def)
next
  case (routed m st ret conn ph tm)
  have "c_data conn = c_data (io_conn st) \<or> c_data conn = (c_data (io_conn st))\<lparr>msgs_to_send := queue st @ [m]\<rparr>"
    using routed(2) io_specD(6) [OF Y] by (auto simp: smscconn_send_def send_msg_cb_def split: if_splits)
  then show ?case using routed(1,3) by (elim disjE) (simp_all add: thread_inv_def window_inv_def issued_def split: if_splits)
next
  case (stopped ph tm st)
  then show ?case by (simp add: thread_inv_def window_inv_def issued_def shutdown_request_def split: if_splits)
next
  case (receiver st ph tm x)
  then have "window_inv Y (draw 1 st)" if "window_inv Y st" by (intro window_draw that) (simp add: budget_def)
  then show ?case using receiver by (simp add: thread_inv_def next_seq_draw window_inv_def issued_def split: if_splits)
next
  case (process ph tm st C)
  then show ?case by (simp add: thread_inv_def window_inv_def issued_def split: if_splits)
qed

lemma run_inv:
  assumes "io_spec Y" "transmits kind" "(io_step Y kind)\<^sup>*\<^sup>* a b" "thread_inv Y a"
  shows "thread_inv Y b"
  using assms(3,4) by (rule rtranclp_induct) (auto intro: step_inv [OF assms(1,2)])

lemma table_values:
  assumes "dict_inv X d" "dict_map X d k = Some v"
  shows "v \<in> set (dict_values d)"
proof -
  have "tab d ! slot X d k \<in> set (tab d)" using dict_inv_slot [OF assms(1), of k] by simp
  moreover have "v \<in> snd ` set (bucket (tab d ! slot X d k))" using map_of_SomeD [OF assms(2) [unfolded dict_map_def]] by force
  ultimately show ?thesis by (auto simp: dict_values_def)
qed

section \<open>Properties\<close>


definition sample_codes :: smsc_codes where
  "sample_codes =
     \<lparr> k_ROK = 0, k_RMSGQFUL = 0x14, k_RTHROTTLED = 0x58, k_RX_T_APPN = 0x64, k_RX_R_APPN = 0x66, k_RSYSERR = 8, k_RINVCMDID = 3, k_RINVSYSID = 15,
       k_RINVPASWD = 14, k_TON_NATIONAL = 2, k_NPI_E164 = 1, k_UDH_INDICATOR = 0x40 \<rparr>"

definition sample_io :: io_env where
  "sample_io =
     \<lparr> y_ops = unpacking_ops\<lparr>pdu_pack := (\<lambda>p. Some ''....pdu'')\<rparr>, y_codes = sample_codes, get_many_alphanumeric = (\<lambda>s n. take 10 s),
       get_many_chars = (\<lambda>s n. drop 10 s), y_isdigit = (\<lambda>c. c \<in> set ''0123456789''),
       created_submit = (case pdu_unpack unpacking_ops [] of Some (Submit_sm_pdu p) \<Rightarrow> p | _ \<Rightarrow> undefined), deliver_pack = (\<lambda>d. []), packable = (\<lambda>p. True),
       compare_smsc_string = None, dndcheck_flag = 0, write_ok = (\<lambda>n. True) \<rparr>"

definition sample_state :: io_state where
  "sample_state =
     \<lparr> io_conn = sample_conn ''A'' SMSCCONN_CONNECTING None, io_client = sample_client [], pending_submits = 0, written = [], writes = 0 \<rparr>"

lemma sample_io_spec [simp]: "io_spec sample_io"
proof -
  have "client_ops_spec (y_ops sample_io)" using sample_ops_spec(2) by (simp add: client_ops_spec_def sample_io_def)
  then show ?thesis by (auto simp: io_spec_def sample_io_def unpacking_ops_def)
qed

text \<open>A thread that connects, is given a message, and gets the answer to its bind: the message goes out and waits for its response.\<close>

definition sample_queued :: msg where
  "sample_queued = (sample_msg [-1] [0, -1])\<lparr>m_state := MSG_NOT_SENT\<rparr>"

definition sample_open :: io_state where
  "sample_open = io_connect sample_io Bind_trx True sample_state"

definition sample_busy :: io_state where
  "sample_busy = sample_open\<lparr>io_conn := snd (smscconn_send (y_ops sample_io) (io_conn sample_open) sample_queued)\<rparr>"

definition sample_times :: io_times where
  "sample_times = \<lparr>last_enquire_sent = 100, last_response = 100, last_cleanup = 100\<rparr>"

definition sample_sent :: io_state where
  "sample_sent = (case io_round sample_io True [(101, In_bind_transceiver_resp 0)] False 101 sample_times sample_busy of Some (_, _, st) \<Rightarrow> st | None \<Rightarrow> sample_busy)"

lemma sample_sent_round:
  "io_round sample_io True [(101, In_bind_transceiver_resp 0)] False 101 sample_times sample_busy =
     Some (False, sample_times\<lparr>last_response := 101\<rparr>, sample_sent)"
  "pending_submits sample_sent = 1" "pending_submits sample_busy = -1" "\<not> s_quitting (io_smpp sample_busy)" "budget sample_busy = 3"
  "\<not> s_quitting (io_smpp sample_state)" "budget sample_state = 0"
  by code_simp+

lemma sample_busy_run: "(io_step sample_io Bind_trx)\<^sup>*\<^sup>* (Closed, sample_times, sample_state) (Open, sample_times, sample_busy)"
proof -
  have "io_step sample_io Bind_trx (Closed, sample_times, sample_state) (Open, sample_times, sample_open)"
    using io_step.connected [of sample_state sample_io Bind_trx sample_times 100] sample_sent_round
    by (simp add: sample_open_def) (simp add: sample_times_def)
  moreover have "sendable sample_io sample_queued"
    by (simp add: sendable_def unpacked_def sample_queued_def sample_io_def unpacking_ops_def sample_msg_def)
  then have "io_step sample_io Bind_trx (Open, sample_times, sample_open) (Open, sample_times, sample_busy)"
    unfolding sample_busy_def by (rule io_step.routed [OF _ surjective_pairing])
  ultimately show ?thesis by simp
qed

lemma sample_run: "(io_step sample_io Bind_trx)\<^sup>*\<^sup>* (Closed, sample_times, sample_state) (Open, sample_times\<lparr>last_response := 101\<rparr>, sample_sent)"
proof -
  have "io_step sample_io Bind_trx (Open, sample_times, sample_busy) (Open, sample_times\<lparr>last_response := 101\<rparr>, sample_sent)"
    by (rule io_step.round [where es = "[(101, In_bind_transceiver_resp 0)]" and bad = False and t = 101])
      (use sample_sent_round in \<open>simp_all add: transmits_def\<close>)
  with sample_busy_run show ?thesis by simp
qed



definition sample_bound :: io_state where
  "sample_bound = handle_bind_resp sample_io 101 0 sample_busy"

lemma window_env [simp]: "window_inv (Y\<lparr>write_ok := f\<rparr>) st = window_inv Y st" "io_spec (Y\<lparr>write_ok := f\<rparr>) = io_spec Y"
  by (simp_all add: window_inv_def issued_def sendable_def in_transit_def io_spec_def cong: list.pred_cong)

lemma sample_windows: "window_inv sample_io sample_sent" "window_inv sample_io sample_bound"
proof -
  have k: "transmits Bind_trx" by (simp add: transmits_def)
  have i: "thread_inv sample_io (Closed, sample_times, sample_state)"
    by (simp add: thread_inv_def sample_state_def sample_conn_def sample_smpp_def dict_create_inv)
  show "window_inv sample_io sample_sent" using run_inv [OF sample_io_spec k sample_run i] by (simp add: thread_inv_def)
  have "window_inv sample_io sample_busy" using run_inv [OF sample_io_spec k sample_busy_run i] by (simp add: thread_inv_def)
  from handle_pdu_window [OF sample_io_spec this, of "In_bind_transceiver_resp 0" 101 sample_bound]
  show "window_inv sample_io sample_bound" using sample_sent_round(3) by (simp add: sample_bound_def)
qed


text \<open>
  C27: a response.  A \<^verbatim>\<open>submit_sm_resp\<close> with the number of a message that waits for it is handled to the end: exactly this message leaves the table
  and the window shrinks by one; a record with its names goes to the database; when the status is a temporary failure the message
  goes back to the router, and otherwise it is done with.
\<close>

theorem submit_resp_accounts:
  assumes Y: "io_spec Y" and w: "window_inv Y st" and db: "has_dbbox (io_client st)"
    and k: "dict_map (x_ops (y_ops Y)) (sent_table st) (format_ulong (y_ops Y) n) = Some sm"
  shows "\<exists>st'. handle_pdu Y t (In_submit_sm_resp n status (Some mid)) st = Some st' \<and> window_inv Y st' \<and>
    pending_submits st' = pending_submits st - 1 \<and>
    dict_map (x_ops (y_ops Y)) (sent_table st') = (dict_map (x_ops (y_ops Y)) (sent_table st))(format_ulong (y_ops Y) n := None) \<and>
    reported (io_client st') = reported (io_client st) + {# key (sent_msg sm) #} \<and>
    io_keys st = io_keys st' +
      (if status \<noteq> 0 \<and> smpp_status_to_smscconn_failure_reason Y status = SMSCCONN_FAILED_TEMPORARILY then {#} else {# key (sent_msg sm) #})"
proof -
  have "sm \<in> set (dict_values (sent_table st))" using table_values [OF _ k] w by (simp add: window_inv_def)
  then obtain p where p: "unpacked (y_ops Y) (sent_msg sm) = Some p" using w by (auto simp: window_inv_def list_all_iff in_transit_def)
  obtain d where "take_sent Y n st = Some (Some sm, set_smpp ((io_smpp st)\<lparr>sent_msgs := d\<rparr>) st)" using take_sent_result [OF Y w, of n] k by auto
  then obtain st' where h: "handle_submit_sm_resp Y t n status (Some mid) st = Some st'"
    using p by (cases "status = 0") (simp_all add: handle_submit_sm_resp_def Let_def mis_db_insert_def smscconn_sent_def)
  have "retried (smpp_status_to_smscconn_failure_reason Y status) \<longleftrightarrow> smpp_status_to_smscconn_failure_reason Y status = SMSCCONN_FAILED_TEMPORARILY"
    by (simp add: retried_def smpp_status_to_smscconn_failure_reason_def Let_def)
  with submit_resp_matched [OF Y w k h] db h show ?thesis by (auto simp: resp_ok_def io_keys_def)
qed

definition sample_entry :: smpp_msg where
  "sample_entry = hd (dict_values (sent_table sample_sent))"

lemma sample_entry_facts:
  "dict_map (x_ops (y_ops sample_io)) (sent_table sample_sent) (format_ulong (y_ops sample_io) 1) = Some sample_entry"
  "key (sent_msg sample_entry) = (Some ''acc'', Some ''id1'')" "has_dbbox (io_client sample_sent)" "reported (io_client sample_sent) = {#}"
  "queue sample_sent = []" "outgoing_msg (io_client sample_sent) = []"
  unfolding has_dbbox_def by code_simp+

theorem submit_resp_accounts_witness:
  "\<exists>st'. handle_pdu sample_io 103 (In_submit_sm_resp 1 0 (Some ''7'')) sample_sent = Some st' \<and> pending_submits st' = 0 \<and>
     reported (io_client st') = {# (Some ''acc'', Some ''id1'') #} \<and> io_keys sample_sent = io_keys st' + {# (Some ''acc'', Some ''id1'') #}"
  using submit_resp_accounts [OF sample_io_spec sample_windows(1) sample_entry_facts(3,1), of 103 0 "''7''"] sample_sent_round(2)
  by (auto simp: sample_entry_facts)

text \<open>
  A \<^verbatim>\<open>generic_nack\<close> with the number of a message that waits for its response.  When its status is not one of the temporary failures, the message is
  neither kept nor recorded for the database: it is lost.  When it is, the message goes back to the router, as the log line says, to be sent
  again, but in the state \<^verbatim>\<open>MSG_SENT_NORESP\<close>: the router never sends such a message, it reports it as failed and destroys it.
\<close>

theorem nack_never_retransmits:
  assumes Y: "io_spec Y" and w: "window_inv Y st" and db: "has_dbbox (io_client st)"
    and k: "dict_map (x_ops (y_ops Y)) (sent_table st) (format_ulong (y_ops Y) n) = Some sm"
  shows "\<exists>st'. handle_pdu Y t (In_generic_nack n status) st = Some st' \<and> window_inv Y st' \<and> reported (io_client st') = reported (io_client st) \<and>
    (if smpp_status_to_smscconn_failure_reason Y status = SMSCCONN_FAILED_TEMPORARILY
     then \<exists>m. outgoing_msg (io_client st') = outgoing_msg (io_client st) @ [m] \<and> key m = key (sent_msg sm) \<and>
       (\<forall>t' u nos C. has_dbbox C \<longrightarrow> (\<exists>C'. router_msg (y_ops Y) t' u m nos C = Some (nos, C') \<and> smsc_list C' = smsc_list C \<and>
          outgoing_msg C' = outgoing_msg C \<and> reported C' = reported C + {# key m #}))
     else io_keys st = io_keys st' + {# key (sent_msg sm) #})"
proof -
  have "sm \<in> set (dict_values (sent_table st))" using table_values [OF _ k] w by (simp add: window_inv_def)
  then have m: "unpacked (y_ops Y) (sent_msg sm) \<noteq> None" "m_state (sent_msg sm) = MSG_SENT_NORESP"
    using w by (auto simp: window_inv_def list_all_iff in_transit_def)
  obtain d where "take_sent Y n st = Some (Some sm, set_smpp ((io_smpp st)\<lparr>sent_msgs := d\<rparr>) st)" using take_sent_result [OF Y w, of n] k by auto
  then obtain st' where h: "handle_generic_nack Y t n status st = Some st'" by (simp add: handle_generic_nack_def)
  note N = nack_matched [OF Y w k h]
  have r: "retried (smpp_status_to_smscconn_failure_reason Y status) \<longleftrightarrow> smpp_status_to_smscconn_failure_reason Y status = SMSCCONN_FAILED_TEMPORARILY"
    by (simp add: retried_def smpp_status_to_smscconn_failure_reason_def Let_def)
  define m' where "m' = mark_failed (io_conn st) t (sent_msg sm)"
  have m': "m_state m' = MSG_SENT_NORESP" "i_pdu (sm_info m') \<noteq> None" "unpacked (y_ops Y) m' \<noteq> None" "key m' = key (sent_msg sm)"
    using m by (auto simp: m'_def mark_failed_def unpacked_def key_def split: option.splits)
  have "\<exists>C'. router_msg (y_ops Y) t' u m' nos C = Some (nos, C') \<and> smsc_list C' = smsc_list C \<and>
      outgoing_msg C' = outgoing_msg C \<and> reported C' = reported C + {# key m' #}" if c: "has_dbbox C" for t' u nos C
  proof -
    obtain C' where "report (y_ops Y) m' 0x405 C = Some C'" using m'(3) report_total by blast
    then show ?thesis using report_result [OF c] m'(1,2) by (auto simp: router_msg_def)
  qed
  then show ?thesis using N h m'(4) by (auto simp: resp_ok_def io_keys_def r simp flip: m'_def)
qed

theorem nack_never_retransmits_witness:
  "\<exists>st' m. handle_pdu sample_io 103 (In_generic_nack 1 0x58) sample_sent = Some st' \<and> outgoing_msg (io_client st') = [m] \<and>
     (\<exists>C'. router_msg (y_ops sample_io) 104 0 m (0, 0) (sample_client [sample_conn ''A'' SMSCCONN_ACTIVE None]) = Some ((0, 0), C') \<and>
        outgoing_msg C' = [] \<and> reported C' = {# (Some ''acc'', Some ''id1'') #})"
proof -
  let ?C = "sample_client [sample_conn ''A'' SMSCCONN_ACTIVE None]"
  have C: "has_dbbox ?C" "outgoing_msg ?C = []" "reported ?C = {#}" by (simp_all add: has_dbbox_def sample_client_def reported_def)
  have "smpp_status_to_smscconn_failure_reason sample_io 0x58 = SMSCCONN_FAILED_TEMPORARILY"
    by (simp add: smpp_status_to_smscconn_failure_reason_def sample_io_def sample_codes_def)
  then show ?thesis
    using nack_never_retransmits [OF sample_io_spec sample_windows(1) sample_entry_facts(3,1), of 103 "0x58"] C
    by (auto simp: sample_entry_facts) metis
qed



text \<open>
  A centre that answers the bind a second time stops the connection: the number of messages without a response is set to 0 while one of them
  is still out; its response takes the number to -1, the mark of a connection that is not bound.  No further response can change the
  number, as the table is empty, and the thread sends no message, although the connection is active and whatever is in its list.
\<close>

theorem second_bind_response_jams:
  assumes Y: "io_spec Y" and w: "window_inv Y st" and one: "pending_submits st = 1"
    and k: "dict_map (x_ops (y_ops Y)) (sent_table st) (format_ulong (y_ops Y) n) = Some sm"
  shows "\<exists>st1 st2. handle_pdu Y t (In_bind_transceiver_resp 0) st = Some st1 \<and> handle_pdu Y t' (In_submit_sm_resp n 0 (Some mid)) st1 = Some st2 \<and>
    c_status (io_conn st2) = SMSCCONN_ACTIVE \<and> pending_submits st2 = -1 \<and> dict_map (x_ops (y_ops Y)) (sent_table st2) = Map.empty \<and>
    (\<forall>q t''. send_messages Y t'' (set_smpp ((io_smpp st2)\<lparr>msgs_to_send := q\<rparr>) st2) = Some (set_smpp ((io_smpp st2)\<lparr>msgs_to_send := q\<rparr>) st2))"
proof -
  define st1 where "st1 = handle_bind_resp Y t 0 st"
  have st1: "io_smpp st1 = io_smpp st" "pending_submits st1 = 0" "io_client st1 = io_client st" "c_status (io_conn st1) = SMSCCONN_ACTIVE"
    by (simp_all add: st1_def handle_bind_resp_def)
  have "sm \<in> set (dict_values (sent_table st))" using table_values [OF _ k] w by (simp add: window_inv_def)
  then obtain p where p: "unpacked (y_ops Y) (sent_msg sm) = Some p" using w by (auto simp: window_inv_def list_all_iff in_transit_def)
  obtain d where r: "dict_remove (x_ops (y_ops Y)) (x_items (y_ops Y)) (sent_table st) (format_ulong (y_ops Y) n) = Some (Some sm, d)"
    "dict_inv (x_ops (y_ops Y)) d" "dict_key_count d = dict_key_count (sent_table st) - 1"
    using remove_entry [OF Y, of "sent_table st" "format_ulong (y_ops Y) n"] w k by (auto simp: window_inv_def)
  have "dict_key_count d = 0" using r(3) w one by (auto simp: window_inv_def)
  then have m: "dict_map (x_ops (y_ops Y)) d = Map.empty" using key_count_bounds(2) [OF r(2)] by simp
  have d: "take_sent Y n st1 = Some (Some sm, set_smpp ((io_smpp st1)\<lparr>sent_msgs := d\<rparr>) st1)" by (simp add: take_sent_def st1(1) r(1))
  obtain st2 where h: "handle_submit_sm_resp Y t' n 0 (Some mid) st1 = Some st2" "pending_submits st2 = -1" "c_status (io_conn st2) = SMSCCONN_ACTIVE"
    "dict_map (x_ops (y_ops Y)) (sent_table st2) = Map.empty"
    using p d st1(2,4) m by (simp add: handle_submit_sm_resp_def Let_def mis_db_insert_def smscconn_sent_def)
  then show ?thesis by (intro exI [of _ st1] exI [of _ st2]) (simp add: st1_def send_messages_def)
qed

theorem second_bind_response_jams_witness:
  "\<exists>st1 st2. handle_pdu sample_io 103 (In_bind_transceiver_resp 0) sample_sent = Some st1 \<and>
     handle_pdu sample_io 104 (In_submit_sm_resp 1 0 (Some ''7'')) st1 = Some st2 \<and> pending_submits st2 = -1 \<and>
     send_messages sample_io 105 (set_smpp ((io_smpp st2)\<lparr>msgs_to_send := [sample_queued]\<rparr>) st2) =
       Some (set_smpp ((io_smpp st2)\<lparr>msgs_to_send := [sample_queued]\<rparr>) st2)"
  using second_bind_response_jams [OF sample_io_spec sample_windows(1) sample_sent_round(2) sample_entry_facts(1), of 103 104 "''7''"] by blast

section \<open>Shutting a connection down\<close>

text \<open>PDUs that make the thread forget a message: a \<^verbatim>\<open>generic_nack\<close> with a status that is not a temporary failure.\<close>

definition forgets :: "io_env \<Rightarrow> in_pdu \<Rightarrow> bool" where
  "forgets Y pdu \<longleftrightarrow> (\<exists>n status. pdu = In_generic_nack n status \<and> \<not> retried (smpp_status_to_smscconn_failure_reason Y status))"

definition io_ledger :: "io_state \<Rightarrow> msg_key multiset" where
  "io_ledger st = io_keys st + reported (io_client st)"

lemma handle_pdu_ledger:
  assumes Y: "io_spec Y" and w: "window_inv Y st" and db: "has_dbbox (io_client st)" and f: "\<not> forgets Y pdu" and h: "handle_pdu Y t pdu st = Some st'"
  shows "io_ledger st \<subseteq># io_ledger st' \<and> has_dbbox (io_client st')"
proof -
  have same: "io_ledger st \<subseteq># io_ledger st' \<and> has_dbbox (io_client st')"
    if "conn_keys (io_conn st') = conn_keys (io_conn st)" "outgoing_msg (io_client st') = outgoing_msg (io_client st)"
      "reported (io_client st') = reported (io_client st)" "has_dbbox (io_client st')"
    using that by (simp add: io_ledger_def io_keys_def)
  have un: "io_ledger st \<subseteq># io_ledger st' \<and> has_dbbox (io_client st')"
    if "dict_map (x_ops (y_ops Y)) (sent_table st) (format_ulong (y_ops Y) n) = None"
      "handle_submit_sm_resp Y t n status mid st = Some st' \<or> handle_generic_nack Y t n status st = Some st'" for n status mid
    using unmatched [OF Y w that(1), of t status mid] that(2) db
    by (intro same) (auto simp: conn_keys_def)
  have q: "conn_keys (io_conn (set_smpp ((io_smpp st)\<lparr>s_quitting := True\<rparr>) st)) = conn_keys (io_conn st)" by (simp add: conn_keys_def)
  show ?thesis
  proof (cases pdu)
    case (In_data_sm n)
    then show ?thesis using h db by (intro same) (auto simp: reported_def has_dbbox_def)
  next
    case (In_deliver_sm d)
    then show ?thesis using h handle_deliver_result [of Y d st st'] db by (intro same) simp_all
  next
    case (In_submit_sm_resp n status mid)
    then have h': "handle_submit_sm_resp Y t n status mid st = Some st'" using h by simp
    show ?thesis
    proof (cases "dict_map (x_ops (y_ops Y)) (sent_table st) (format_ulong (y_ops Y) n)")
      case None
      then show ?thesis using un h' by blast
    next
      case (Some sm)
      note R = submit_resp_matched [OF Y w Some h']
      then have "io_ledger st' = io_ledger st + (if status \<noteq> 0 \<and> retried (smpp_status_to_smscconn_failure_reason Y status) then {# key (sent_msg sm) #} else {#})"
        using db by (simp add: resp_ok_def io_ledger_def io_keys_def)
      then show ?thesis using R(4) db by simp
    qed
  next
    case (In_generic_nack n status)
    then have h': "handle_generic_nack Y t n status st = Some st'" and a: "retried (smpp_status_to_smscconn_failure_reason Y status)"
      using h f by (simp_all add: forgets_def)
    show ?thesis
    proof (cases "dict_map (x_ops (y_ops Y)) (sent_table st) (format_ulong (y_ops Y) n)")
      case None
      then show ?thesis using un h' by blast
    next
      case (Some sm)
      with nack_matched(1,2,4) [OF Y w Some h'] a db show ?thesis by (simp add: resp_ok_def io_ledger_def io_keys_def)
    qed
  next
    case (In_bind_transmitter_resp status)
    then show ?thesis using h db q by (intro same) (auto simp: handle_bind_resp_def conn_keys_def split: if_splits)
  next
    case (In_bind_transceiver_resp status)
    then show ?thesis using h db q by (intro same) (auto simp: handle_bind_resp_def conn_keys_def split: if_splits)
  next
    case (In_bind_receiver_resp status)
    then show ?thesis using h db q by (intro same) (auto simp: handle_bind_receiver_resp_def conn_keys_def split: if_splits)
  qed (use h db in \<open>(intro same; auto simp: conn_keys_def)+\<close>)
qed

lemma quit_pdus_ledger:
  assumes Y: "io_spec Y"
  shows "window_inv Y st \<Longrightarrow> has_dbbox (io_client st) \<Longrightarrow> orderly (pending_submits st \<noteq> -1) es \<Longrightarrow> \<forall>e \<in> set es. \<not> forgets Y (snd e) \<Longrightarrow>
    quit_pdus Y es st = Some st' \<Longrightarrow> window_inv Y st' \<and> has_dbbox (io_client st') \<and> io_ledger st \<subseteq># io_ledger st' \<and> queue st' = queue st"
proof (induction es arbitrary: st)
  case Nil
  then show ?case by simp
next
  case (Cons e es)
  obtain t pdu where e: "e = (t, pdu)" by force
  show ?case
  proof (cases "c_status (io_conn st) = SMSCCONN_DISCONNECTED")
    case True
    with Cons.prems e show ?thesis by simp
  next
    case False
    then obtain st1 where h: "handle_pdu Y t pdu st = Some st1" and r: "quit_pdus Y es st1 = Some st'"
      using Cons.prems(5) e by (auto split: option.splits)
    have b: "bind_ok pdu \<Longrightarrow> pending_submits st = -1" using Cons.prems(3) e by (simp split: if_splits)
    note H = handle_pdu_window [OF Y Cons.prems(1) b h]
    have f: "\<not> forgets Y pdu" using Cons.prems(4) e by simp
    note L = handle_pdu_ledger [OF Y Cons.prems(1,2) f h]
    have o: "orderly (pending_submits st1 \<noteq> -1) es" using Cons.prems(3) e b H by (cases "bind_ok pdu") auto
    have "window_inv Y st' \<and> has_dbbox (io_client st') \<and> io_ledger st1 \<subseteq># io_ledger st' \<and> queue st' = queue st1"
      by (rule Cons.IH [OF _ _ o _ r]) (use H L Cons.prems(4) in auto)
    then show ?thesis using H L subset_mset.order_trans by metis
  qed
qed

abbreviation readable :: "io_env \<Rightarrow> msg \<Rightarrow> bool" where
  "readable Y m \<equiv> unpacked (y_ops Y) m \<noteq> None"

lemma readable_failed [simp]: "unpacked E (mark_failed conn t m) = unpacked E m" "unpacked E (m\<lparr>m_state := x\<rparr>) = unpacked E m"
  by (simp_all add: mark_failed_def unpacked_def)

lemma table_readable:
  assumes "window_inv Y st" "dict_map (x_ops (y_ops Y)) (sent_table st) k = Some sm"
  shows "readable Y (sent_msg sm)"
  using table_values [OF _ assms(2)] assms(1) by (auto simp: window_inv_def list_all_iff in_transit_def)

lemma handle_pdu_readable:
  assumes Y: "io_spec Y" and w: "window_inv Y st" and h: "handle_pdu Y t pdu st = Some st'" and r: "\<forall>m \<in> set (outgoing_msg (io_client st)). readable Y m"
  shows "\<forall>m \<in> set (outgoing_msg (io_client st')). readable Y m"
proof -
  have un: ?thesis if "dict_map (x_ops (y_ops Y)) (sent_table st) (format_ulong (y_ops Y) n) = None"
      "handle_submit_sm_resp Y t n status mid st = Some st' \<or> handle_generic_nack Y t n status st = Some st'" for n status mid
    using unmatched [OF Y w that(1), of t status mid] that(2) r by auto
  have new: ?thesis if "set (outgoing_msg (io_client st')) \<subseteq> insert m (set (outgoing_msg (io_client st)))" "readable Y m" for m
    using that r by blast
  show ?thesis
  proof (cases pdu)
    case (In_deliver_sm d)
    then show ?thesis using h handle_deliver_result(3) [of Y d st st'] r by simp
  next
    case (In_submit_sm_resp n status mid)
    then have h': "handle_submit_sm_resp Y t n status mid st = Some st'" using h by simp
    show ?thesis
    proof (cases "dict_map (x_ops (y_ops Y)) (sent_table st) (format_ulong (y_ops Y) n)")
      case None
      then show ?thesis using un h' by blast
    next
      case (Some sm)
      then show ?thesis using new [OF submit_resp_matched(5) [OF Y w Some h']] table_readable [OF w Some] by simp
    qed
  next
    case (In_generic_nack n status)
    then have h': "handle_generic_nack Y t n status st = Some st'" using h by simp
    show ?thesis
    proof (cases "dict_map (x_ops (y_ops Y)) (sent_table st) (format_ulong (y_ops Y) n)")
      case None
      then show ?thesis using un h' by blast
    next
      case (Some sm)
      then show ?thesis using nack_matched(5) [OF Y w Some h'] table_readable [OF w Some] r by (auto split: if_splits)
    qed
  qed (use h r in \<open>auto simp: handle_bind_resp_def handle_bind_receiver_resp_def split: if_splits\<close>)
qed

lemma quit_pdus_readable:
  assumes Y: "io_spec Y"
  shows "window_inv Y st \<Longrightarrow> orderly (pending_submits st \<noteq> -1) es \<Longrightarrow> quit_pdus Y es st = Some st' \<Longrightarrow>
    \<forall>m \<in> set (outgoing_msg (io_client st)). readable Y m \<Longrightarrow> \<forall>m \<in> set (outgoing_msg (io_client st')). readable Y m"
proof (induction es arbitrary: st)
  case Nil
  then show ?case by simp
next
  case (Cons e es)
  obtain t pdu where e: "e = (t, pdu)" by force
  show ?case
  proof (cases "c_status (io_conn st) = SMSCCONN_DISCONNECTED")
    case True
    with Cons.prems e show ?thesis by simp
  next
    case False
    then obtain st1 where h: "handle_pdu Y t pdu st = Some st1" and r: "quit_pdus Y es st1 = Some st'"
      using Cons.prems(3) e by (auto split: option.splits)
    have b: "bind_ok pdu \<Longrightarrow> pending_submits st = -1" using Cons.prems(2) e by (simp split: if_splits)
    note H = handle_pdu_window [OF Y Cons.prems(1) b h]
    have o: "orderly (pending_submits st1 \<noteq> -1) es" using Cons.prems(2) e b H by (cases "bind_ok pdu") auto
    show ?thesis by (rule Cons.IH [OF _ o r]) (use H handle_pdu_readable [OF Y Cons.prems(1) h Cons.prems(4)] in auto)
  qed
qed



section \<open>Message ids\<close>

text \<open>
  Message ids.  The setting \<^verbatim>\<open>msg-id-type\<close> says whether a centre writes the id of a message in hexadecimal in its responses and in its receipts.
  For every setting and every id below \<open>2 ^ 63\<close>, the id that is stored from the response and the one that is looked up for the receipt are the
  same decimal number.
\<close>

theorem msgid_roundtrip:
  assumes X: "octstr_spec (x_ops (y_ops Y))" and digit: "\<forall>d < 10. y_isdigit Y (digit_char d)" and n: "n < 2 ^ 63" and ty: "smpp_msg_id_type s \<in> {0, 1, 2, 3}"
  shows "msgid Y 1 (smpp_msg_id_type s) (digits (if smpp_msg_id_type s \<in> {1, 3} then 16 else 10) n) = format_ulong (y_ops Y) (of_nat n) \<and>
    handle_deliver_sm_msgid Y s (digits (if smpp_msg_id_type s \<in> {2, 3} then 16 else 10) n) = format_ulong (y_ops Y) (of_nat n)"
proof -
  have hex: "strtoll (takeWhile (\<lambda>c. c \<noteq> CHR 0x00) (digits 16 n)) 16 = int n" and dec: "strtoll (takeWhile (\<lambda>c. c \<noteq> CHR 0x00) (digits 10 n)) 10 = int n"
    using strtoll_digits [OF _ _ n] by simp_all
  have "list_all (y_isdigit Y) (digits 10 n)" using digits_valid(1) [of 10 n] digit by (auto simp: list_all_iff)
  then have r: "octstr_check_range (x_ops (y_ops Y)) (digits 10 n) 0 (int (length (digits 10 n))) (y_isdigit Y)"
    by (simp add: octstr_check_range_spec [OF X])
  have "(1 :: int) AND 1 = 1" "(1 :: int) AND 2 = 0" "(2 :: int) AND 1 = 0" "(2 :: int) AND 2 = 2" "(3 :: int) AND 1 = 1" "(3 :: int) AND 2 = 2"
    by (simp_all add: and_int_unfold)
  then show ?thesis using ty hex dec r by (auto simp: handle_deliver_sm_msgid_def msgid_def)
qed

theorem msgid_roundtrip_witness:
  "msgid sample_io 1 1 ''ff'' = format_ulong (y_ops sample_io) 255 \<and> handle_deliver_sm_msgid sample_io (sample_smpp\<lparr>smpp_msg_id_type := 1\<rparr>) ''255'' = format_ulong (y_ops sample_io) 255"
proof -
  have d: "digits 16 255 = ''ff''" "digits 10 255 = ''255''" by code_simp+
  have "list_all (\<lambda>d. y_isdigit sample_io (digit_char d)) [0..<10]" by code_simp
  then have i: "\<forall>d < 10. y_isdigit sample_io (digit_char d)" by (simp add: list_all_iff)
  have X: "octstr_spec (x_ops (y_ops sample_io))" by (rule io_specD(2) [OF sample_io_spec])
  show ?thesis using msgid_roundtrip [OF X i, of 255 "sample_smpp\<lparr>smpp_msg_id_type := 1\<rparr>"] by (simp add: d)
qed

end
