(* ===== verification/Dbpool.thy ===== *)
theory Dbpool
  imports Prelude
begin

text \<open>
  \<^verbatim>\<open>gwlib/dbpool.c\<close> and \<^verbatim>\<open>gwlib/dbpool_mysql.c\<close>: the pool of connections to a database.  What a connection is and what the database
  does are not in the repository: the state of the outside is a type variable, and the calls of the database library are functions on it.
  A call that waits for another thread (\<^verbatim>\<open>gwlist_consume\<close> on an empty list that has a producer) and a \<^verbatim>\<open>panic\<close> are results of their own.
\<close>

section \<open>The pool\<close>

record 'c dbpool_conn =
  pc_conn :: "'c option"

record 'c dbpool =
  pool_conns :: "'c dbpool_conn list"
  max_size :: "32 word"
  curr_size :: "32 word"

text \<open>The operations of one kind of database: the check of a connection is optional.\<close>

record ('c, 'w) db_ops =
  db_open :: "'w \<Rightarrow> 'c option \<times> 'w"
  db_close :: "'c \<Rightarrow> 'w \<Rightarrow> 'w"
  db_check :: "('c option \<Rightarrow> 'w \<Rightarrow> int \<times> 'w) option"

definition dbpool_conn_destroy :: "('c, 'w) db_ops \<Rightarrow> 'c dbpool_conn \<Rightarrow> 'w \<Rightarrow> 'w" where
  "dbpool_conn_destroy D pc w = (case pc_conn pc of None \<Rightarrow> w | Some c \<Rightarrow> db_close D c w)"

text \<open>Opening connections: a failed attempt uses up a round of the loop.\<close>

fun increase_loop :: "('c, 'w) db_ops \<Rightarrow> nat \<Rightarrow> 32 word \<Rightarrow> 'c dbpool \<Rightarrow> 'w \<Rightarrow> 32 word \<times> 'c dbpool \<times> 'w" where
  "increase_loop D 0 opened p w = (opened, p, w)"
| "increase_loop D (Suc n) opened p w =
     (if curr_size p < max_size p
      then (case db_open D w of
              (None, w1) \<Rightarrow> increase_loop D n opened p w1
            | (Some c, w1) \<Rightarrow>
                increase_loop D n (opened + 1)
                  (p\<lparr>curr_size := curr_size p + 1, pool_conns := pool_conns p @ [\<lparr> pc_conn = Some c \<rparr>]\<rparr>) w1)
      else (opened, p, w))"

definition dbpool_increase :: "('c, 'w) db_ops \<Rightarrow> 'c dbpool \<Rightarrow> 32 word \<Rightarrow> 'w \<Rightarrow> 32 word \<times> 'c dbpool \<times> 'w" where
  "dbpool_increase D p amount w = increase_loop D (unat amount) 0 p w"

text \<open>
  Creating a pool: no pool without a configuration, and a panic, \<open>None\<close>, for a kind of database that was not compiled in.
\<close>

definition dbpool_create :: "('c, 'w) db_ops option \<Rightarrow> bool \<Rightarrow> 32 word \<Rightarrow> 'w \<Rightarrow> ('c dbpool option \<times> 'w) option" where
  "dbpool_create ops has_conf connections w =
     (if \<not> has_conf then Some (None, w)
      else case ops of
        None \<Rightarrow> None
      | Some D \<Rightarrow>
          (case dbpool_increase D \<lparr> pool_conns = [], max_size = connections, curr_size = 0 \<rparr> connections w of
             (opened, p, w1) \<Rightarrow> Some (Some p, w1)))"

fun decrease_loop :: "('c, 'w) db_ops \<Rightarrow> nat \<Rightarrow> 32 word \<Rightarrow> 'c dbpool \<Rightarrow> 'w \<Rightarrow> 32 word \<times> 'c dbpool \<times> 'w" where
  "decrease_loop D 0 i p w = (i, p, w)"
| "decrease_loop D (Suc n) i p w =
     (case pool_conns p of
        [] \<Rightarrow> (i, p, w)
      | pc # pcs \<Rightarrow>
          decrease_loop D n (i + 1) (p\<lparr>pool_conns := pcs, curr_size := curr_size p - 1\<rparr>) (dbpool_conn_destroy D pc w))"

definition dbpool_decrease :: "('c, 'w) db_ops \<Rightarrow> 'c dbpool \<Rightarrow> 32 word \<Rightarrow> 'w \<Rightarrow> 32 word \<times> 'c dbpool \<times> 'w" where
  "dbpool_decrease D p c w = decrease_loop D (unat c) 0 p w"

definition dbpool_conn_count :: "'c dbpool \<Rightarrow> int" where
  "dbpool_conn_count p = int (length (pool_conns p))"

text \<open>Closing what is in the pool; connections that threads hold are not reached.\<close>

definition dbpool_destroy :: "('c, 'w) db_ops \<Rightarrow> 'c dbpool option \<Rightarrow> 'w \<Rightarrow> 'w" where
  "dbpool_destroy D p w = (case p of None \<Rightarrow> w | Some q \<Rightarrow> foldl (\<lambda>w pc. dbpool_conn_destroy D pc w) w (pool_conns q))"

section \<open>Taking and giving back a connection\<close>

text \<open>Whether a connection is broken, as \<^verbatim>\<open>dbpool_conn_consume\<close> tests it.\<close>

definition conn_broken :: "('c, 'w) db_ops \<Rightarrow> 'c dbpool_conn \<Rightarrow> 'w \<Rightarrow> bool \<times> 'w" where
  "conn_broken D pc w =
     (if pc_conn pc = None then (True, w)
      else case db_check D of
        None \<Rightarrow> (False, w)
      | Some chk \<Rightarrow> (case chk (pc_conn pc) w of (r, w1) \<Rightarrow> (r \<noteq> 0, w1)))"

datatype 'c consumed = Deadlock | Waiting | Consumed "'c dbpool_conn option"

text \<open>The loop of \<^verbatim>\<open>dbpool_conn_consume\<close>; \<open>None\<close> only when the fuel is used up.\<close>

fun consume_loop :: "('c, 'w) db_ops \<Rightarrow> nat \<Rightarrow> 'c dbpool \<Rightarrow> 'w \<Rightarrow> ('c consumed \<times> 'c dbpool \<times> 'w) option" where
  "consume_loop D 0 p w = None"
| "consume_loop D (Suc fuel) p w =
     (case pool_conns p of
        [] \<Rightarrow> Some (Waiting, p, w)
      | pc # pcs \<Rightarrow>
          (case conn_broken D pc w of
             (True, w1) \<Rightarrow>
               (case dbpool_increase D (p\<lparr>pool_conns := pcs, curr_size := curr_size p - 1\<rparr>) 1
                       (dbpool_conn_destroy D pc w1) of
                  (n, p1, w2) \<Rightarrow> consume_loop D fuel p1 w2)
           | (False, w1) \<Rightarrow>
               Some (Consumed (if pc_conn pc \<noteq> None then Some pc else None), p\<lparr>pool_conns := pcs\<rparr>, w1)))"

definition dbpool_conn_consume ::
    "('c, 'w) db_ops \<Rightarrow> nat \<Rightarrow> 'c dbpool \<Rightarrow> 'w \<Rightarrow> ('c consumed \<times> 'c dbpool \<times> 'w) option" where
  "dbpool_conn_consume D fuel p w =
     (if curr_size p < 1 then Some (Deadlock, p, w) else consume_loop D fuel p w)"

definition dbpool_conn_produce :: "'c dbpool \<Rightarrow> 'c dbpool_conn \<Rightarrow> 'c dbpool" where
  "dbpool_conn_produce p pc = p\<lparr>pool_conns := pool_conns p @ [pc]\<rparr>"

section \<open>Checking the pool\<close>

function check_loop ::
    "('c option \<Rightarrow> 'w \<Rightarrow> int \<times> 'w) \<Rightarrow> ('c, 'w) db_ops \<Rightarrow> nat \<Rightarrow> 32 word \<Rightarrow> 32 word \<Rightarrow> 'c dbpool \<Rightarrow> 'w \<Rightarrow>
       32 word \<times> 32 word \<times> 'c dbpool \<times> 'w" where
  "check_loop chk D i n reinit p w =
     (if i < length (pool_conns p)
      then (case chk (pc_conn (pool_conns p ! i)) w of
              (r, w1) \<Rightarrow>
                if r \<noteq> 0
                then check_loop chk D i n (reinit + 1)
                       (p\<lparr>pool_conns := take i (pool_conns p) @ drop (Suc i) (pool_conns p), curr_size := curr_size p - 1\<rparr>)
                       (dbpool_conn_destroy D (pool_conns p ! i) w1)
                else check_loop chk D (Suc i) (n + 1) reinit p w1)
      else (n, reinit, p, w))"
  by pat_completeness auto
termination
  by (relation "measure (\<lambda>(chk, D, i, n, reinit, p, w). length (pool_conns p) - i)") auto

declare check_loop.simps [simp del]

definition dbpool_check :: "('c, 'w) db_ops \<Rightarrow> 'c dbpool \<Rightarrow> 'w \<Rightarrow> 32 word \<times> 'c dbpool \<times> 'w" where
  "dbpool_check D p w =
     (case db_check D of
        None \<Rightarrow> (of_nat (length (pool_conns p)), p, w)
      | Some chk \<Rightarrow>
          (case check_loop chk D 0 0 0 p w of
             (n, reinit, p1, w1) \<Rightarrow>
               if reinit > 0
               then (case dbpool_increase D p1 reinit w1 of (k, p2, w2) \<Rightarrow> (n + k, p2, w2))
               else (n, p1, w1)))"

section \<open>The MySQL operations\<close>

text \<open>
  The calls of the MySQL client library.  A row of a result is a list of cells, a cell that is \<^verbatim>\<open>NULL\<close> in the database is \<open>None\<close>.
\<close>

type_synonym row = "octstr option list"

record ('c, 'w) mysql_api =
  mysql_init :: "'w \<Rightarrow> 'c option \<times> 'w"
  mysql_real_connect :: "'c \<Rightarrow> octstr \<Rightarrow> octstr \<Rightarrow> octstr \<Rightarrow> octstr \<Rightarrow> int \<Rightarrow> octstr option \<Rightarrow> 'w \<Rightarrow> bool \<times> 'w"
  mysql_close :: "'c \<Rightarrow> 'w \<Rightarrow> 'w"
  mysql_ping :: "'c \<Rightarrow> 'w \<Rightarrow> int \<times> 'w"
  mysql_query :: "'c \<Rightarrow> octstr \<Rightarrow> 'w \<Rightarrow> int \<times> 'w"
  mysql_store_result :: "'c \<Rightarrow> 'w \<Rightarrow> row list option \<times> 'w"
  mysql_real_escape_string :: "'c \<Rightarrow> octstr \<Rightarrow> octstr"
  mysql_affected_rows :: "'c \<Rightarrow> 'w \<Rightarrow> int"

record mysql_conf =
  my_host :: octstr
  my_port :: int
  my_username :: octstr
  my_password :: octstr
  my_database :: octstr
  my_socket :: "octstr option"

definition mysql_open_conn :: "('c, 'w) mysql_api \<Rightarrow> mysql_conf option \<Rightarrow> 'w \<Rightarrow> 'c option \<times> 'w" where
  "mysql_open_conn M conf w =
     (case conf of
        None \<Rightarrow> (None, w)
      | Some cf \<Rightarrow>
          (case mysql_init M w of
             (None, w1) \<Rightarrow> (None, w1)
           | (Some c, w1) \<Rightarrow>
               (case mysql_real_connect M c (c_string (my_host cf)) (c_string (my_username cf)) (c_string (my_password cf))
                       (c_string (my_database cf)) (my_port cf) None w1 of
                  (connected, w2) \<Rightarrow> (if connected then Some c else None, w2))))"

definition mysql_check_conn :: "('c, 'w) mysql_api \<Rightarrow> 'c option \<Rightarrow> 'w \<Rightarrow> int \<times> 'w" where
  "mysql_check_conn M conn w =
     (case conn of
        None \<Rightarrow> (-1, w)
      | Some c \<Rightarrow> (case mysql_ping M c w of (r, w1) \<Rightarrow> (if r \<noteq> 0 then -1 else 0, w1)))"

definition mysql_ops :: "('c, 'w) mysql_api \<Rightarrow> mysql_conf option \<Rightarrow> ('c, 'w) db_ops" where
  "mysql_ops M conf = \<lparr> db_open = mysql_open_conn M conf, db_close = mysql_close M, db_check = Some (mysql_check_conn M) \<rparr>"

section \<open>Accounting\<close>

text \<open>
  The pool together with the connections that threads hold: the size the pool keeps counts both, it stays within the limit, and no
  connection is null.
\<close>

definition pool_inv :: "'c dbpool \<Rightarrow> 'c dbpool_conn multiset \<Rightarrow> bool" where
  "pool_inv p out \<longleftrightarrow> unat (curr_size p) = length (pool_conns p) + size out \<and> curr_size p \<le> max_size p \<and>
     (\<forall>pc \<in> set (pool_conns p) \<union> set_mset out. pc_conn pc \<noteq> None)"

lemma unat_plus_one: "x < (y :: 32 word) \<Longrightarrow> unat (x + 1) = Suc (unat x)"
  by unat_arith

lemma unat_minus_one_Suc: "unat (x :: 32 word) = Suc n \<Longrightarrow> unat (x - 1) = n"
  by unat_arith

lemma minus_one_le: "unat (x :: 32 word) = Suc n \<Longrightarrow> x \<le> y \<Longrightarrow> x - 1 \<le> y"
  using unat_minus_one_Suc [of x n] by (simp add: word_le_nat_alt)

lemma increase_loop_inv [inv_intros]:
  assumes "pool_inv p out" "increase_loop D n opened p w = (k, p', w')"
  shows "pool_inv p' out" "max_size p' = max_size p"
    "\<exists>new. pool_conns p' = pool_conns p @ new \<and> length new \<le> n"
proof -
  have "pool_inv p' out \<and> max_size p' = max_size p \<and> (\<exists>new. pool_conns p' = pool_conns p @ new \<and> length new \<le> n)"
    using assms
  proof (induction n arbitrary: opened p w)
    case 0
    then show ?case by simp
  next
    case (Suc n)
    show ?case
    proof (cases "curr_size p < max_size p")
      case False
      with Suc.prems show ?thesis by simp
    next
      case True
      obtain c w1 where o: "db_open D w = (c, w1)" by fastforce
      show ?thesis
      proof (cases c)
        case None
        with Suc.IH [OF Suc.prems(1), of opened w1] Suc.prems(2) o True show ?thesis by force
      next
        case (Some d)
        let ?p = "p\<lparr>curr_size := curr_size p + 1, pool_conns := pool_conns p @ [\<lparr> pc_conn = Some d \<rparr>]\<rparr>"
        have "pool_inv ?p out"
          using Suc.prems(1) True unat_plus_one [OF True] by (auto simp: pool_inv_def inc_le)
        from Suc.IH [OF this, of "opened + 1" w1] Suc.prems(2) o True Some
        have IH: "pool_inv p' out" "max_size p' = max_size p"
          "\<exists>new. pool_conns p' = (pool_conns p @ [\<lparr> pc_conn = Some d \<rparr>]) @ new \<and> length new \<le> n" by auto
        then show ?thesis by fastforce
      qed
    qed
  qed
  then show "pool_inv p' out" "max_size p' = max_size p" "\<exists>new. pool_conns p' = pool_conns p @ new \<and> length new \<le> n"
    by auto
qed

lemma dbpool_increase_inv [inv_intros]:
  assumes "pool_inv p out" "dbpool_increase D p n w = (k, p', w')"
  shows "pool_inv p' out" "max_size p' = max_size p"
  using increase_loop_inv [OF assms [unfolded dbpool_increase_def]] by auto

lemma drop_conn_inv:
  assumes "pool_inv p out" "pool_conns p = a @ pc # b"
  shows "pool_inv (p\<lparr>pool_conns := a @ b, curr_size := curr_size p - 1\<rparr>) out"
  using assms unat_minus_one_Suc [of "curr_size p" "length (a @ b) + size out"]
    minus_one_le [of "curr_size p" "length (a @ b) + size out" "max_size p"]
  by (auto simp: pool_inv_def)

lemma decrease_loop_inv [inv_intros]:
  "pool_inv p out \<Longrightarrow> decrease_loop D n i p w = (k, p', w') \<Longrightarrow> pool_inv p' out \<and> max_size p' = max_size p"
proof (induction n arbitrary: i p w)
  case 0
  then show ?case by simp
next
  case (Suc n)
  show ?case
  proof (cases "pool_conns p")
    case Nil
    with Suc.prems show ?thesis by simp
  next
    case (Cons pc pcs)
    have "pool_inv (p\<lparr>pool_conns := [] @ pcs, curr_size := curr_size p - 1\<rparr>) out"
      by (rule drop_conn_inv [OF Suc.prems(1), where pc = pc]) (simp add: Cons)
    then have "pool_inv (p\<lparr>pool_conns := pcs, curr_size := curr_size p - 1\<rparr>) out" by simp
    from Suc.IH [OF this] Suc.prems(2) Cons show ?thesis by auto
  qed
qed

lemma check_loop_inv [inv_intros]:
  "pool_inv p out \<Longrightarrow> check_loop chk D i n reinit p w = (n', r', p', w') \<Longrightarrow> pool_inv p' out \<and> max_size p' = max_size p"
proof (induction chk D i n reinit p w rule: check_loop.induct)
  case (1 chk D i n reinit p w)
  show ?case
  proof (cases "i < length (pool_conns p)")
    case False
    with "1.prems" show ?thesis by (simp add: check_loop.simps)
  next
    case True
    obtain r w1 where c: "chk (pc_conn (pool_conns p ! i)) w = (r, w1)" by fastforce
    note IH = "1.IH" [OF True c [symmetric]]
    show ?thesis
    proof (cases "r \<noteq> 0")
      case False
      with IH(2) [OF False "1.prems"(1)] "1.prems"(2) c True show ?thesis by (simp add: check_loop.simps [of _ _ i])
    next
      case r: True
      have "pool_inv (p\<lparr>pool_conns := take i (pool_conns p) @ drop (Suc i) (pool_conns p), curr_size := curr_size p - 1\<rparr>) out"
        by (rule drop_conn_inv [OF "1.prems"(1)]) (rule id_take_nth_drop [OF True])
      from IH(1) [OF r this] "1.prems"(2) c True r show ?thesis by (simp add: check_loop.simps [of _ _ i])
    qed
  qed
qed

lemma dbpool_check_inv [inv_intros]:
  assumes "pool_inv p out" "dbpool_check D p w = (n, p', w')"
  shows "pool_inv p' out" "max_size p' = max_size p"
proof -
  have "pool_inv p' out \<and> max_size p' = max_size p"
  proof (cases "db_check D")
    case None
    with assms show ?thesis by (simp add: dbpool_check_def)
  next
    case (Some chk)
    obtain n1 r p1 w1 where l: "check_loop chk D 0 0 0 p w = (n1, r, p1, w1)" by (metis prod_cases4)
    note i = check_loop_inv [OF assms(1) l]
    obtain k p2 w2 where inc: "dbpool_increase D p1 r w1 = (k, p2, w2)" by (metis prod_cases3)
    from i have "pool_inv p1 out" by simp
    from dbpool_increase_inv [OF this inc] i assms(2) Some l inc show ?thesis
      by (auto simp: dbpool_check_def split: if_splits)
  qed
  then show "pool_inv p' out" "max_size p' = max_size p" by auto
qed

lemma dbpool_create_inv:
  assumes "dbpool_create (Some D) True n w = Some (Some p, w')"
  shows "pool_inv p {#}" "max_size p = n"
proof -
  let ?p = "\<lparr> pool_conns = [], max_size = n, curr_size = 0 \<rparr>"
  obtain k p' w1 where i: "dbpool_increase D ?p n w = (k, p', w1)" by (metis prod_cases3)
  have "pool_inv ?p {#}" by (simp add: pool_inv_def)
  from dbpool_increase_inv [OF this i] i assms show "pool_inv p {#}" "max_size p = n" by (auto simp: dbpool_create_def)
qed

section \<open>Threads that share the pool\<close>

text \<open>
  What a thread does between two points where another one can run: it takes a connection off the list, closes a broken one that it has
  taken, opens connections, gives one back, or shrinks or checks the pool; the database may change at any time.
\<close>

type_synonym ('c, 'w) pool_state = "'c dbpool \<times> 'c dbpool_conn multiset \<times> 'w"

inductive pool_step :: "('c, 'w) db_ops \<Rightarrow> ('c, 'w) pool_state \<Rightarrow> ('c, 'w) pool_state \<Rightarrow> bool" for D where
  taken: "pool_conns p = pc # pcs \<Longrightarrow> pool_step D (p, out, w) (p\<lparr>pool_conns := pcs\<rparr>, add_mset pc out, w)"
| outside: "pool_step D (p, out, w) (p, out, w')"
| discarded: "pc \<in># out \<Longrightarrow>
    pool_step D (p, out, w) (p\<lparr>curr_size := curr_size p - 1\<rparr>, out - {#pc#}, dbpool_conn_destroy D pc w)"
| increased: "dbpool_increase D p n w = (k, p', w') \<Longrightarrow> pool_step D (p, out, w) (p', out, w')"
| given_back: "pc \<in># out \<Longrightarrow> pool_step D (p, out, w) (dbpool_conn_produce p pc, out - {#pc#}, w)"
| decreased: "dbpool_decrease D p n w = (k, p', w') \<Longrightarrow> pool_step D (p, out, w) (p', out, w')"
| checked: "dbpool_check D p w = (k, p', w') \<Longrightarrow> pool_step D (p, out, w) (p', out, w')"

inductive_cases pool_stepE: "pool_step D s s'"

definition state_inv :: "32 word \<Rightarrow> ('c, 'w) pool_state \<Rightarrow> bool" where
  "state_inv n s = (case s of (p, out, w) \<Rightarrow> pool_inv p out \<and> max_size p = n)"

lemma discarded_inv:
  assumes "pool_inv p out" "pc \<in># out"
  shows "pool_inv (p\<lparr>curr_size := curr_size p - 1\<rparr>) (out - {#pc#})"
proof -
  obtain rest where r: "out = add_mset pc rest" using assms(2) by (metis insert_DiffM)
  with assms(1) have "unat (curr_size p) = Suc (length (pool_conns p) + size rest)" by (simp add: pool_inv_def)
  from unat_minus_one_Suc [OF this] minus_one_le [OF this, of "max_size p"] assms(1) r
  show ?thesis by (simp add: pool_inv_def)
qed

lemma given_back_inv:
  assumes "pool_inv p out" "pc \<in># out"
  shows "pool_inv (dbpool_conn_produce p pc) (out - {#pc#})"
proof -
  obtain rest where r: "out = add_mset pc rest" using assms(2) by (metis insert_DiffM)
  with assms(1) show ?thesis by (auto simp: pool_inv_def dbpool_conn_produce_def)
qed

lemma pool_step_inv:
  assumes "pool_step D s s'" "state_inv n s"
  shows "state_inv n s'"
  using assms
proof (cases rule: pool_step.cases)
  case (taken p pc pcs out w)
  with assms(2) show ?thesis by (auto simp: state_inv_def pool_inv_def)
next
  case (discarded pc out p w)
  with assms(2) discarded_inv [of p out pc] show ?thesis by (simp add: state_inv_def)
next
  case (increased p m w k p' w' out)
  with assms(2) dbpool_increase_inv [of p out D m w k p' w'] show ?thesis by (simp add: state_inv_def)
next
  case (given_back pc out p w)
  with assms(2) given_back_inv [of p out pc] show ?thesis by (simp add: state_inv_def dbpool_conn_produce_def)
next
  case (decreased p m w k p' w' out)
  with assms(2) decrease_loop_inv [of p out D "unat m" 0 w k p' w'] show ?thesis
    by (simp add: state_inv_def dbpool_decrease_def)
next
  case (checked p w k p' w' out)
  with assms(2) dbpool_check_inv [of p out D w k p' w'] show ?thesis by (simp add: state_inv_def)
qed (simp add: state_inv_def)

lemma pool_steps_inv: "(pool_step D)\<^sup>*\<^sup>* s s' \<Longrightarrow> state_inv n s \<Longrightarrow> state_inv n s'"
  by (induction rule: rtranclp_induct) (auto intro: pool_step_inv)

text \<open>What a thread holds after a call of \<^verbatim>\<open>dbpool_conn_consume\<close>.\<close>

definition held :: "'c consumed \<Rightarrow> 'c dbpool_conn multiset" where
  "held r = (case r of Consumed (Some pc) \<Rightarrow> {#pc#} | _ \<Rightarrow> {#})"

lemma consume_loop_steps:
  "pool_inv p out \<Longrightarrow> consume_loop D fuel p w = Some (r, p', w') \<Longrightarrow>
     (pool_step D)\<^sup>*\<^sup>* (p, out, w) (p', out + held r, w') \<and> r \<noteq> Consumed None"
proof (induction fuel arbitrary: p w)
  case 0
  then show ?case by simp
next
  case (Suc fuel)
  show ?case
  proof (cases "pool_conns p")
    case Nil
    with Suc.prems(2) show ?thesis by (auto simp: held_def)
  next
    case (Cons pc pcs)
    obtain b w1 where b: "conn_broken D pc w = (b, w1)" by fastforce
    let ?q = "p\<lparr>pool_conns := pcs\<rparr>" and ?d = "p\<lparr>pool_conns := pcs, curr_size := curr_size p - 1\<rparr>"
    have t: "(pool_step D)\<^sup>*\<^sup>* (p, out, w) (?q, add_mset pc out, w1)"
      using pool_step.taken [OF Cons, of D out w] pool_step.outside [of D ?q "add_mset pc out" w w1]
      by (meson converse_rtranclp_into_rtranclp rtranclp.rtrancl_refl)
    show ?thesis
    proof (cases b)
      case False
      have "pc_conn pc \<noteq> None" using Suc.prems(1) Cons by (simp add: pool_inv_def)
      with False Suc.prems(2) Cons b have "r = Consumed (Some pc)" "p' = ?q" "w' = w1" by auto
      with t show ?thesis by (simp add: held_def)
    next
      case True
      obtain k p2 w2 where i: "dbpool_increase D ?d 1 (dbpool_conn_destroy D pc w1) = (k, p2, w2)" by (metis prod_cases3)
      have "pool_step D (?q, add_mset pc out, w1) (?d, out, dbpool_conn_destroy D pc w1)"
        using pool_step.discarded [of pc "add_mset pc out" D ?q w1] by simp
      moreover have "pool_step D (?d, out, dbpool_conn_destroy D pc w1) (p2, out, w2)" by (rule pool_step.increased [OF i])
      ultimately have s: "(pool_step D)\<^sup>*\<^sup>* (p, out, w) (p2, out, w2)" using t by (meson rtranclp.rtrancl_into_rtrancl)
      have "pool_inv ?d out" using drop_conn_inv [OF Suc.prems(1), of "[]" pc pcs] Cons by simp
      from dbpool_increase_inv(1) [OF this i] have "pool_inv p2 out" .
      from Suc.IH [OF this] Suc.prems(2) Cons b True i s show ?thesis by (auto intro: rtranclp_trans)
    qed
  qed
qed

lemma dbpool_conn_consume_steps:
  assumes "pool_inv p out" "dbpool_conn_consume D fuel p w = Some (r, p', w')"
  shows "(pool_step D)\<^sup>*\<^sup>* (p, out, w) (p', out + held r, w')" "r \<noteq> Consumed None"
  using assms consume_loop_steps [OF assms(1), of D fuel w r p' w']
  by (auto simp: dbpool_conn_consume_def held_def split: if_splits)

text \<open>
  C21: however threads interleave on a pool after its creation, the size it keeps is the number of connections in its list plus the number
  that threads hold, it never passes the configured limit and never wraps around; and \<^verbatim>\<open>dbpool_conn_consume\<close>, which is made of such
  steps, adds the connection it returns to those that are held and never returns a null pointer, so that the callers' branches for
  a null pointer are dead.
\<close>

theorem pool_accounting:
  assumes "dbpool_create (Some D) True n w = Some (Some p, w0)" "(pool_step D)\<^sup>*\<^sup>* (p, {#}, w0) (q, out, w1)"
    "dbpool_conn_consume D fuel q w1 = Some (r, q', w2)"
  shows "unat (curr_size q) = length (pool_conns q) + size out \<and> curr_size q \<le> n \<and>
    unat (curr_size q') = length (pool_conns q') + size (out + held r) \<and> curr_size q' \<le> n \<and> r \<noteq> Consumed None"
proof -
  have "state_inv n (p, {#}, w0)" using dbpool_create_inv [OF assms(1)] by (simp add: state_inv_def)
  from pool_steps_inv [OF assms(2) this] have q: "state_inv n (q, out, w1)" .
  then have i: "pool_inv q out" by (simp add: state_inv_def)
  note c = dbpool_conn_consume_steps [OF i assms(3)]
  from pool_steps_inv [OF c(1) q] q c(2) show ?thesis by (auto simp: state_inv_def pool_inv_def)
qed

section \<open>When taking a connection returns\<close>

text \<open>
  Connections opened from now on pass the check: \<open>A\<close> is the set of those that do.
\<close>

definition reopens :: "('c, 'w) db_ops \<Rightarrow> 'c set \<Rightarrow> bool" where
  "reopens D A \<longleftrightarrow> (\<forall>w c w'. db_open D w = (Some c, w') \<longrightarrow> c \<in> A) \<and>
     (\<forall>chk. db_check D = Some chk \<longrightarrow> (\<forall>c \<in> A. \<forall>w. fst (chk (Some c) w) = 0))"

lemma reopens_sound:
  assumes "reopens D A" "pc_conn pc = Some c" "c \<in> A"
  shows "\<exists>w'. conn_broken D pc w = (False, w')"
proof (cases "db_check D")
  case None
  with assms show ?thesis by (simp add: conn_broken_def)
next
  case (Some chk)
  with assms have "fst (chk (Some c) w) = 0" by (simp add: reopens_def)
  with Some assms(2) show ?thesis by (cases "chk (Some c) w") (simp add: conn_broken_def)
qed

text \<open>One attempt to open a connection.\<close>

lemma increase_one:
  "curr_size p < max_size p \<Longrightarrow> dbpool_increase D p 1 w =
     (case db_open D w of
        (None, w1) \<Rightarrow> (0, p, w1)
      | (Some c, w1) \<Rightarrow> (1, p\<lparr>curr_size := curr_size p + 1, pool_conns := pool_conns p @ [\<lparr> pc_conn = Some c \<rparr>]\<rparr>, w1))"
  by (simp add: dbpool_increase_def split: prod.splits option.splits)

lemma minus_one_less: "unat (x :: 32 word) = Suc n \<Longrightarrow> x \<le> y \<Longrightarrow> x - 1 < y"
  by unat_arith

lemma consume_loop_returns:
  assumes D: "reopens D A"
  shows "pool_inv p out \<Longrightarrow> pool_conns p = old @ new \<Longrightarrow> \<forall>pc \<in> set new. \<exists>c \<in> A. pc_conn pc = Some c \<Longrightarrow> length old < fuel \<Longrightarrow>
    \<exists>r p' w'. consume_loop D fuel p w = Some (r, p', w') \<and> (r = Waiting \<and> pool_conns p' = [] \<or> (\<exists>pc. r = Consumed (Some pc)))"
proof (induction old arbitrary: p w new fuel)
  case Nil
  then obtain f where f: "fuel = Suc f" by (cases fuel) auto
  show ?case
  proof (cases new)
    case Nil
    with Nil.prems f show ?thesis by simp
  next
    case (Cons pc pcs)
    with Nil.prems obtain c where c: "pc_conn pc = Some c" "c \<in> A" by auto
    from reopens_sound [OF D c, of w] obtain w' where "conn_broken D pc w = (False, w')" by blast
    with Nil.prems Cons f c show ?thesis by simp
  qed
next
  case (Cons pc old)
  from Cons.prems(4) obtain f where f: "fuel = Suc f" "length old < f" by (cases fuel) auto
  obtain b w1 where b: "conn_broken D pc w = (b, w1)" by fastforce
  have u: "unat (curr_size p) = Suc (length (old @ new) + size out)" using Cons.prems(1,2) by (simp add: pool_inv_def)
  show ?case
  proof (cases b)
    case False
    have "pc_conn pc \<noteq> None" using Cons.prems(1,2) by (simp add: pool_inv_def)
    with False Cons.prems(2) f b show ?thesis by auto
  next
    case True
    let ?d = "p\<lparr>pool_conns := old @ new, curr_size := curr_size p - 1\<rparr>"
    obtain k p2 w2 where i: "dbpool_increase D ?d 1 (dbpool_conn_destroy D pc w1) = (k, p2, w2)" by (metis prod_cases3)
    have d: "pool_inv ?d out" using drop_conn_inv [OF Cons.prems(1), of "[]" pc "old @ new"] Cons.prems(2) by simp
    have "curr_size ?d < max_size ?d" using minus_one_less [OF u] Cons.prems(1) by (simp add: pool_inv_def)
    from increase_one [OF this, of D "dbpool_conn_destroy D pc w1"] i
    have "\<exists>more. pool_conns p2 = old @ (new @ more) \<and> (\<forall>pc \<in> set more. \<exists>c \<in> A. pc_conn pc = Some c)"
      using D by (auto simp: reopens_def split: prod.splits option.splits)
    then obtain more where m: "pool_conns p2 = old @ (new @ more)" "\<forall>pc \<in> set more. \<exists>c \<in> A. pc_conn pc = Some c" by blast
    have "pool_inv p2 out" by (rule dbpool_increase_inv(1) [OF d i])
    moreover have "\<forall>pc \<in> set (new @ more). \<exists>c \<in> A. pc_conn pc = Some c" using m(2) Cons.prems(3) by auto
    ultimately obtain r p' w' where
      "consume_loop D f p2 w2 = Some (r, p', w')" "r = Waiting \<and> pool_conns p' = [] \<or> (\<exists>pc. r = Consumed (Some pc))"
      using Cons.IH [OF _ m(1) _ f(2), of w2] by blast
    with Cons.prems(2) f(1) b True i show ?thesis by auto
  qed
qed

text \<open>
  Taking a connection ends after as many rounds as there are connections in the pool and one more, when the connections that are
  opened meanwhile work: it returns one, or it waits for another thread because the pool ran empty.
\<close>

theorem consume_returns:
  assumes "reopens D A" "pool_inv p out" "length (pool_conns p) < fuel" "curr_size p \<noteq> 0"
  shows "\<exists>r p' w'. dbpool_conn_consume D fuel p w = Some (r, p', w') \<and>
    (r = Waiting \<and> pool_conns p' = [] \<or> (\<exists>pc. r = Consumed (Some pc)))"
proof -
  have "\<not> curr_size p < 1" using assms(4) by (simp add: word_less_1)
  with consume_loop_returns [OF assms(1,2), of "pool_conns p" "[]" fuel w] assms(3) show ?thesis
    by (simp add: dbpool_conn_consume_def)
qed

lemma consume_loop_outage:
  assumes D: "\<And>w. fst (db_open D w) = None" "\<And>pc w. fst (conn_broken D pc w)"
  shows "pool_inv p out \<Longrightarrow> length (pool_conns p) < fuel \<Longrightarrow>
    \<exists>p' w'. consume_loop D fuel p w = Some (Waiting, p', w') \<and> pool_conns p' = [] \<and> pool_inv p' out"
proof (induction "pool_conns p" arbitrary: p w fuel)
  case Nil
  then obtain f where f: "fuel = Suc f" by (cases fuel) auto
  with Nil.prems Nil.hyps [symmetric] show ?case by simp
next
  case (Cons pc pcs)
  note c = Cons(2) [symmetric]
  from Cons.prems(2) c obtain f where f: "fuel = Suc f" "length pcs < f" by (cases fuel) auto
  obtain w1 where b: "conn_broken D pc w = (True, w1)" using D(2) [of pc w] by (cases "conn_broken D pc w") simp
  let ?d = "p\<lparr>pool_conns := pcs, curr_size := curr_size p - 1\<rparr>"
  have u: "unat (curr_size p) = Suc (length pcs + size out)" using Cons.prems(1) c by (simp add: pool_inv_def)
  have d: "pool_inv ?d out" using drop_conn_inv [OF Cons.prems(1), of "[]" pc pcs] c by simp
  have l: "curr_size ?d < max_size ?d" using minus_one_less [OF u] Cons.prems(1) by (simp add: pool_inv_def)
  obtain w2 where "db_open D (dbpool_conn_destroy D pc w1) = (None, w2)"
    using D(1) [of "dbpool_conn_destroy D pc w1"] by (cases "db_open D (dbpool_conn_destroy D pc w1)") simp
  then have i: "dbpool_increase D ?d 1 (dbpool_conn_destroy D pc w1) = (0, ?d, w2)"
    using increase_one [OF l, of D "dbpool_conn_destroy D pc w1"] by simp
  from Cons.hyps(1) [of ?d f w2] d f(2) obtain p' w' where
    "consume_loop D f ?d w2 = Some (Waiting, p', w')" "pool_conns p' = []" "pool_inv p' out" by auto
  with c f(1) b i show ?case by simp
qed

text \<open>
  C32: while the database cannot be reached, the thread that takes a connection closes every connection of the pool and then waits.
  If no other thread held a connection, nothing will ever wake it, and every later call finds a pool of size zero and
  panics, also when the database is back.
\<close>

theorem pool_outage:
  assumes "\<And>w. fst (db_open D w) = None" "\<And>pc w. fst (conn_broken D pc w)"
    and "pool_inv p {#}" "length (pool_conns p) < fuel" "curr_size p \<noteq> 0"
  shows "\<exists>p' w'. dbpool_conn_consume D fuel p w = Some (Waiting, p', w') \<and> pool_conns p' = [] \<and>
    (\<forall>D' fuel' w''. dbpool_conn_consume D' fuel' p' w'' = Some (Deadlock, p', w''))"
proof -
  have "\<not> curr_size p < 1" using assms(5) by (simp add: word_less_1)
  moreover obtain p' w' where r: "consume_loop D fuel p w = Some (Waiting, p', w')" "pool_conns p' = []" "pool_inv p' {#}"
    using consume_loop_outage [OF assms(1-4), of w] by blast
  moreover from r(2,3) have "unat (curr_size p') = 0" by (simp add: pool_inv_def)
  then have "curr_size p' < 1" by (simp add: unat_eq_0 word_less_1)
  ultimately show ?thesis by (simp add: dbpool_conn_consume_def)
qed

section \<open>Runs\<close>

text \<open>
  A database that numbers its connections from one on; while it is up, connection zero alone is broken, and while it is down all are.
\<close>

definition numbered_db :: "bool \<Rightarrow> (nat, nat) db_ops" where
  "numbered_db up = \<lparr> db_open = (\<lambda>w. if up then (Some (Suc w), Suc w) else (None, w)), db_close = (\<lambda>c w. w),
     db_check = Some (\<lambda>c w. (if up \<and> c \<noteq> Some 0 \<and> c \<noteq> None then 0 else -1, w)) \<rparr>"

definition two_conns :: "nat dbpool" where
  "two_conns = \<lparr> pool_conns = [\<lparr> pc_conn = Some 1 \<rparr>, \<lparr> pc_conn = Some 2 \<rparr>], max_size = 2, curr_size = 2 \<rparr>"

lemma two_conns_created: "dbpool_create (Some (numbered_db True)) True 2 0 = Some (Some two_conns, 2)"
  by code_simp

lemma two_conns_inv: "pool_inv two_conns {#}" "curr_size two_conns \<noteq> 0" "length (pool_conns two_conns) = 2"
  by (simp_all add: two_conns_def pool_inv_def)

theorem pool_accounting_witness:
  "\<exists>q. dbpool_conn_consume (numbered_db True) 5 (two_conns\<lparr>pool_conns := [\<lparr> pc_conn = Some 2 \<rparr>]\<rparr>) 2 =
     Some (Consumed (Some \<lparr> pc_conn = Some 2 \<rparr>), q, 2) \<and> curr_size q \<le> 2 \<and> unat (curr_size q) = length (pool_conns q) + 2"
proof -
  let ?one = "\<lparr> pc_conn = Some 1 \<rparr> :: nat dbpool_conn" and ?two = "\<lparr> pc_conn = Some 2 \<rparr> :: nat dbpool_conn"
  let ?q = "two_conns\<lparr>pool_conns := [?two]\<rparr>"
  have t: "(pool_step (numbered_db True))\<^sup>*\<^sup>* (two_conns, {#}, 2) (?q, {#?one#}, 2)"
    using pool_step.taken [of two_conns ?one "[?two]" "numbered_db True" "{#}" 2]
    by (simp add: two_conns_def r_into_rtranclp)
  have c: "dbpool_conn_consume (numbered_db True) 5 ?q 2 = Some (Consumed (Some ?two), two_conns\<lparr>pool_conns := []\<rparr>, 2)"
    by code_simp
  from pool_accounting [OF two_conns_created t c] c show ?thesis by (simp add: held_def)
qed

theorem consume_returns_witness:
  "\<exists>r p' w'. dbpool_conn_consume (numbered_db True) 2 \<lparr> pool_conns = [\<lparr> pc_conn = Some 0 \<rparr>], max_size = 1, curr_size = 1 \<rparr> 0 =
     Some (r, p', w') \<and> (r = Waiting \<and> pool_conns p' = [] \<or> (\<exists>pc. r = Consumed (Some pc)))"
proof -
  have "reopens (numbered_db True) {c. 0 < c}"
    by (auto simp: reopens_def numbered_db_def split: if_splits)
  from consume_returns [OF this, of "\<lparr> pool_conns = [\<lparr> pc_conn = Some 0 \<rparr>], max_size = 1, curr_size = 1 \<rparr>" "{#}" 2 0]
  show ?thesis by (simp add: pool_inv_def)
qed

theorem pool_outage_witness:
  "\<exists>p' w'. dbpool_conn_consume (numbered_db False) 3 two_conns 2 = Some (Waiting, p', w') \<and>
    dbpool_conn_consume (numbered_db True) 3 p' w' = Some (Deadlock, p', w')"
proof -
  have "\<And>w. fst (db_open (numbered_db False) w) = None" by (simp add: numbered_db_def)
  moreover have "\<And>pc w. fst (conn_broken (numbered_db False) pc w)" by (simp add: numbered_db_def conn_broken_def)
  ultimately show ?thesis using pool_outage [OF _ _ two_conns_inv(1), of "numbered_db False" 3 2] two_conns_inv(2,3) by fastforce
qed

end
