(* ===== verification/Dlr.thy ===== *)
theory Dlr
  imports Cfg Numerals Dbpool
begin

text \<open>
  The storage of the database process: \<^verbatim>\<open>smpp-dbbox/dlr.c\<close>, which reads the names of tables and columns from the configuration and calls
  the storage through a table of functions, and \<^verbatim>\<open>smpp-dbbox/dlr_mysql.c\<close>, which writes every request as the text of an SQL statement and
  gives it to a connection of the pool.  \<open>None\<close> as the result of an operation means that it does not return: a \<^verbatim>\<open>panic\<close>, a thread that
  waits forever, a null pointer or an array that is overrun.
\<close>

section \<open>Tables and columns\<close>

record dlr_db_fields =
  fd_table :: octstr
  fd_account_name :: octstr
  fd_account_msg_id :: octstr
  fd_smsc_id :: octstr
  fd_smsc_msg_id :: octstr
  fd_msg_submit_time :: octstr

record dlr_db_mis_fields =
  fm_table :: octstr
  fm_account_name :: octstr
  fm_account_msg_id :: octstr
  fm_smsc_id :: octstr
  fm_smsc_msg_id :: octstr
  fm_submit_status :: octstr
  fm_submit_time :: octstr
  fm_source_addr :: octstr
  fm_dest_addr :: octstr
  fm_recv_time :: octstr
  fm_msg_content :: octstr
  fm_udh :: octstr
  fm_retry_value :: octstr
  fm_Client_IP :: octstr

record dlr_db_status_fields =
  fs_table :: octstr
  fs_smsc_id :: octstr
  fs_smsc_msg_id :: octstr
  fs_dest_addr :: octstr
  fs_deliver_status :: octstr
  fs_deliver_time :: octstr

record dlr_db_smpp_esme_fields =
  fe_table :: octstr
  fe_account_name :: octstr
  fe_account_msg_id :: octstr
  fe_source_addr :: octstr
  fe_dest_addr :: octstr
  fe_submit_status :: octstr
  fe_recv_time :: octstr
  fe_msg_content :: octstr
  fe_udh :: octstr
  fe_retry_value :: octstr
  fe_dnd_flag :: octstr
  fe_allowed_smsc :: octstr
  fe_preferred_smsc :: octstr
  fe_data_coding :: octstr
  fe_more_messages_to_send :: octstr
  fe_esm_class :: octstr

text \<open>A directive that must be there: the process ends without it.\<close>

definition directive :: "'z cfg_env_scheme \<Rightarrow> cfg_group \<Rightarrow> octstr \<Rightarrow> octstr option" where
  "directive E grp name = do { v \<leftarrow> cfg_get E grp name; v }"

definition dlr_db_fields_create :: "'z cfg_env_scheme \<Rightarrow> cfg_group \<Rightarrow> dlr_db_fields option" where
  "dlr_db_fields_create E grp = do {
     table \<leftarrow> directive E grp ''table'';
     account_name \<leftarrow> directive E grp ''field-EsmeAccountName'';
     account_msg_id \<leftarrow> directive E grp ''field-EsmeMsgId'';
     smsc_id \<leftarrow> directive E grp ''field-SmscId'';
     smsc_msg_id \<leftarrow> directive E grp ''field-SmscMsgId'';
     msg_submit_time \<leftarrow> directive E grp ''field-DatetimeSubmit'';
     Some \<lparr> fd_table = table, fd_account_name = account_name, fd_account_msg_id = account_msg_id, fd_smsc_id = smsc_id,
       fd_smsc_msg_id = smsc_msg_id, fd_msg_submit_time = msg_submit_time \<rparr> }"

definition dlr_db_fields_create_mis :: "'z cfg_env_scheme \<Rightarrow> cfg_group \<Rightarrow> dlr_db_mis_fields option" where
  "dlr_db_fields_create_mis E grp = do {
     table \<leftarrow> directive E grp ''table'';
     account_name \<leftarrow> directive E grp ''field-EsmeAccountName'';
     account_msg_id \<leftarrow> directive E grp ''field-EsmeMsgId'';
     smsc_id \<leftarrow> directive E grp ''field-SmscId'';
     smsc_msg_id \<leftarrow> directive E grp ''field-SmscMsgId'';
     submit_status \<leftarrow> directive E grp ''field-SubmitStat'';
     source_addr \<leftarrow> directive E grp ''field-SourceAddr'';
     dest_addr \<leftarrow> directive E grp ''field-DestAddr'';
     submit_time \<leftarrow> directive E grp ''field-DatetimeSubmit'';
     msg_content \<leftarrow> directive E grp ''field-MsgContent'';
     udh \<leftarrow> directive E grp ''field-UDH'';
     recv_time \<leftarrow> directive E grp ''field-DatetimeRecv'';
     retry_value \<leftarrow> directive E grp ''field-RetryValue'';
     client_ip \<leftarrow> directive E grp ''field-client-ip'';
     Some \<lparr> fm_table = table, fm_account_name = account_name, fm_account_msg_id = account_msg_id, fm_smsc_id = smsc_id,
       fm_smsc_msg_id = smsc_msg_id, fm_submit_status = submit_status, fm_submit_time = submit_time, fm_source_addr = source_addr,
       fm_dest_addr = dest_addr, fm_recv_time = recv_time, fm_msg_content = msg_content, fm_udh = udh, fm_retry_value = retry_value,
       fm_Client_IP = client_ip \<rparr> }"

definition dlr_db_fields_create_status :: "'z cfg_env_scheme \<Rightarrow> cfg_group \<Rightarrow> dlr_db_status_fields option" where
  "dlr_db_fields_create_status E grp = do {
     table \<leftarrow> directive E grp ''table'';
     smsc_id \<leftarrow> directive E grp ''field-SmscId'';
     smsc_msg_id \<leftarrow> directive E grp ''field-SmscMsgId'';
     dest_addr \<leftarrow> directive E grp ''field-DestAddr'';
     deliver_status \<leftarrow> directive E grp ''field-DelieverStat'';
     deliver_time \<leftarrow> directive E grp ''field-DatetimeDeliver'';
     Some \<lparr> fs_table = table, fs_smsc_id = smsc_id, fs_smsc_msg_id = smsc_msg_id, fs_dest_addr = dest_addr,
       fs_deliver_status = deliver_status, fs_deliver_time = deliver_time \<rparr> }"

definition dlr_db_fields_create_smpp_esme :: "'z cfg_env_scheme \<Rightarrow> cfg_group \<Rightarrow> dlr_db_smpp_esme_fields option" where
  "dlr_db_fields_create_smpp_esme E grp = do {
     table \<leftarrow> directive E grp ''table'';
     account_name \<leftarrow> directive E grp ''field-EsmeAccountName'';
     account_msg_id \<leftarrow> directive E grp ''field-EsmeMsgId'';
     submit_status \<leftarrow> directive E grp ''field-SubmitStat'';
     source_addr \<leftarrow> directive E grp ''field-SourceAddr'';
     dest_addr \<leftarrow> directive E grp ''field-DestAddr'';
     msg_content \<leftarrow> directive E grp ''field-MsgContent'';
     udh \<leftarrow> directive E grp ''field-UDH'';
     recv_time \<leftarrow> directive E grp ''field-DatetimeRecv'';
     retry_value \<leftarrow> directive E grp ''field-RetryValue'';
     allowed_smsc \<leftarrow> directive E grp ''allowed_smsc'';
     preferred_smsc \<leftarrow> directive E grp ''preferred_smsc'';
     dnd_flag \<leftarrow> directive E grp ''field-dnd-flag'';
     data_coding \<leftarrow> directive E grp ''field-data-coding'';
     esm_class \<leftarrow> directive E grp ''field-esm-class'';
     more_messages \<leftarrow> directive E grp ''field-more-messages-to-send'';
     Some \<lparr> fe_table = table, fe_account_name = account_name, fe_account_msg_id = account_msg_id, fe_source_addr = source_addr,
       fe_dest_addr = dest_addr, fe_submit_status = submit_status, fe_recv_time = recv_time, fe_msg_content = msg_content,
       fe_udh = udh, fe_retry_value = retry_value, fe_dnd_flag = dnd_flag, fe_allowed_smsc = allowed_smsc,
       fe_preferred_smsc = preferred_smsc, fe_data_coding = data_coding, fe_more_messages_to_send = more_messages,
       fe_esm_class = esm_class \<rparr> }"

section \<open>Entries\<close>

record dlr_entry =
  en_account_name :: "octstr option"
  en_account_msg_id :: "octstr option"
  en_smsc_id :: "octstr option"
  en_smsc_msg_id :: "octstr option"
  en_msg_submit_time :: "octstr option"

definition dlr_entry_create :: dlr_entry where
  "dlr_entry_create = \<lparr> en_account_name = None, en_account_msg_id = None, en_smsc_id = None, en_smsc_msg_id = None,
     en_msg_submit_time = None \<rparr>"

text \<open>The messages of the other processes, as far as the storage reads them; every string may be a null pointer.\<close>

record insert_mis =
  mi_account_name :: "octstr option"
  mi_account_msg_id :: "octstr option"
  mi_smsc_id :: "octstr option"
  mi_smsc_msg_id :: "octstr option"
  mi_submit_status :: int
  mi_source_addr :: "octstr option"
  mi_dest_addr :: "octstr option"
  mi_msg_content :: "octstr option"
  mi_retry_value :: int
  mi_udh :: "octstr option"
  mi_req_time :: "octstr option"
  mi_ip :: "octstr option"
  mi_esm_class :: int

record insert_status =
  ms_smsc_id :: "octstr option"
  ms_smsc_msg_id :: "octstr option"
  ms_dest_addr :: "octstr option"
  ms_deliver_status :: int
  ms_pdu :: "octstr option"

record smpp_esme =
  me_account_name :: "octstr option"
  me_account_msg_id :: "octstr option"
  me_submit_status :: int
  me_source_addr :: "octstr option"
  me_dest_addr :: "octstr option"
  me_msg_content :: "octstr option"
  me_retry_value :: int
  me_udh :: "octstr option"
  me_req_time :: "octstr option"
  me_dnd_flag :: int
  me_data_coding :: int
  me_esm_class :: int
  me_more_messages_to_send :: int

record values_got =
  gv_result :: int
  gv_account_name :: "octstr option"
  gv_account_msg_id :: "octstr option"
  gv_smsc_msg_id :: "octstr option"
  gv_dest_addr :: "octstr option"
  gv_pdu :: "octstr option"

definition not_found :: "octstr option \<Rightarrow> octstr option \<Rightarrow> values_got" where
  "not_found smsc_msg_id dest_addr =
     \<lparr> gv_result = 0, gv_account_name = None, gv_account_msg_id = None, gv_smsc_msg_id = smsc_msg_id, gv_dest_addr = dest_addr,
       gv_pdu = None \<rparr>"

section \<open>Statements\<close>

text \<open>
  The text of every statement.  \<^verbatim>\<open>octstr_format\<close> with \<^verbatim>\<open>%s\<close> and \<^verbatim>\<open>%d\<close> puts its arguments between the parts of the format.
\<close>

definition sql_lit :: "octstr \<Rightarrow> octstr" where
  "sql_lit s = CHR 0x27 # s @ [CHR 0x27]"

definition remove_sql :: "dlr_db_fields \<Rightarrow> octstr \<Rightarrow> octstr \<Rightarrow> octstr" where
  "remove_sql f smsc_id smscmsgid =
     ''DELETE FROM '' @ c_string (fd_table f) @ '' WHERE '' @ c_string (fd_smsc_id f) @ ''='' @ sql_lit smsc_id @ '' AND '' @
     c_string (fd_smsc_msg_id f) @ ''='' @ sql_lit smscmsgid @ '' LIMIT 1;''"

definition count_sql :: "dlr_db_fields \<Rightarrow> octstr" where
  "count_sql f = ''SELECT count(*) FROM '' @ c_string (fd_table f) @ '';''"

definition flush_sql :: "dlr_db_fields \<Rightarrow> octstr" where
  "flush_sql f = ''DELETE FROM '' @ c_string (fd_table f) @ '';''"

definition add_sql :: "dlr_db_fields \<Rightarrow> octstr \<Rightarrow> octstr \<Rightarrow> octstr \<Rightarrow> octstr \<Rightarrow> octstr" where
  "add_sql f account_name account_msg_id smsc_id smsc_msg_id =
     ''INSERT INTO '' @ c_string (fd_table f) @ ''('' @ c_string (fd_account_name f) @ '', '' @ c_string (fd_account_msg_id f) @ '', '' @
     c_string (fd_smsc_id f) @ '', '' @ c_string (fd_smsc_msg_id f) @ '', '' @ c_string (fd_msg_submit_time f) @ '') VALUES ('' @
     sql_lit account_name @ '','' @ sql_lit account_msg_id @ '','' @ sql_lit smsc_id @ '','' @ sql_lit smsc_msg_id @ '',now());''"

definition get_sql :: "dlr_db_mis_fields \<Rightarrow> octstr \<Rightarrow> octstr" where
  "get_sql f smsc_msg_id =
     ''SELECT '' @ c_string (fm_account_name f) @ '', '' @ c_string (fm_account_msg_id f) @ '' FROM '' @ c_string (fm_table f) @
     '' WHERE '' @ c_string (fm_smsc_msg_id f) @ ''='' @ sql_lit smsc_msg_id @ '';''"

text \<open>The values of a row of the MIS table, in the order of the columns of the statement.\<close>

record mis_values =
  mv_account_name :: octstr
  mv_account_msg_id :: octstr
  mv_smsc_id :: octstr
  mv_smsc_msg_id :: octstr
  mv_submit_status :: int
  mv_source_addr :: octstr
  mv_dest_addr :: octstr
  mv_content :: octstr
  mv_retry_value :: int
  mv_udh :: octstr
  mv_req_time :: octstr
  mv_ip :: octstr

definition mis_sql :: "dlr_db_mis_fields \<Rightarrow> mis_values \<Rightarrow> octstr" where
  "mis_sql f v =
     ''INSERT  INTO '' @ c_string (fm_table f) @
     ''('' @ c_string (fm_account_name f) @ '', '' @ c_string (fm_account_msg_id f) @ '', '' @ c_string (fm_smsc_id f) @ '', '' @
     c_string (fm_smsc_msg_id f) @ '', '' @ c_string (fm_submit_status f) @ '', '' @ c_string (fm_submit_time f) @ '', '' @
     c_string (fm_source_addr f) @ '', '' @ c_string (fm_dest_addr f) @ '', '' @ c_string (fm_msg_content f) @ '', '' @
     c_string (fm_retry_value f) @ '', '' @ c_string (fm_udh f) @ '','' @ c_string (fm_recv_time f) @ '','' @
     c_string (fm_Client_IP f) @ '') VALUES ('' @
     sql_lit (mv_account_name v) @ '','' @ sql_lit (mv_account_msg_id v) @ '','' @ sql_lit (mv_smsc_id v) @ '','' @
     sql_lit (mv_smsc_msg_id v) @ '','' @ sql_lit (decimal (mv_submit_status v)) @ '', now(),'' @ sql_lit (mv_source_addr v) @ '','' @
     sql_lit (mv_dest_addr v) @ '','' @ sql_lit (mv_content v) @ '', '' @ sql_lit (decimal (mv_retry_value v)) @ '','' @
     sql_lit (mv_udh v) @ '','' @ sql_lit (mv_req_time v) @ '','' @ sql_lit (mv_ip v) @ '') ;''"

definition status_sql :: "dlr_db_status_fields \<Rightarrow> octstr \<Rightarrow> octstr \<Rightarrow> octstr \<Rightarrow> int \<Rightarrow> octstr" where
  "status_sql f smsc_id smsc_msg_id dest_addr deliver_status =
     ''INSERT INTO '' @ c_string (fs_table f) @ ''('' @ c_string (fs_smsc_id f) @ '','' @ c_string (fs_smsc_msg_id f) @ '','' @
     c_string (fs_dest_addr f) @ '','' @ c_string (fs_deliver_status f) @ '','' @ c_string (fs_deliver_time f) @ '') VALUES ('' @
     sql_lit smsc_id @ '','' @ sql_lit smsc_msg_id @ '','' @ sql_lit dest_addr @ '','' @ sql_lit (decimal deliver_status) @ '',now());''"

record esme_values =
  ev_account_name :: octstr
  ev_account_msg_id :: octstr
  ev_submit_status :: int
  ev_source_addr :: octstr
  ev_dest_addr :: octstr
  ev_content :: octstr
  ev_retry_value :: int
  ev_udh :: octstr
  ev_req_time :: octstr
  ev_dnd_flag :: int
  ev_data_coding :: int
  ev_esm_class :: int
  ev_more_messages :: int

definition esme_sql :: "dlr_db_smpp_esme_fields \<Rightarrow> esme_values \<Rightarrow> octstr" where
  "esme_sql f v =
     ''INSERT  INTO '' @ c_string (fe_table f) @
     ''('' @ c_string (fe_account_name f) @ '', '' @ c_string (fe_account_msg_id f) @ '', '' @ c_string (fe_submit_status f) @ '', '' @
     c_string (fe_source_addr f) @ '', '' @ c_string (fe_dest_addr f) @ '', '' @ c_string (fe_msg_content f) @ '', '' @
     c_string (fe_retry_value f) @ '', '' @ c_string (fe_udh f) @ '','' @ c_string (fe_recv_time f) @ '','' @
     c_string (fe_dnd_flag f) @ '','' @ c_string (fe_data_coding f) @ '','' @ c_string (fe_esm_class f) @ '','' @
     c_string (fe_more_messages_to_send f) @ '') VALUES ('' @
     sql_lit (ev_account_name v) @ '','' @ sql_lit (ev_account_msg_id v) @ '','' @ sql_lit (decimal (ev_submit_status v)) @ '','' @
     sql_lit (ev_source_addr v) @ '','' @ sql_lit (ev_dest_addr v) @ '','' @ sql_lit (ev_content v) @ '','' @
     sql_lit (decimal (ev_retry_value v)) @ '','' @ sql_lit (ev_udh v) @ '', '' @ sql_lit (ev_req_time v) @ '','' @
     sql_lit (decimal (ev_dnd_flag v)) @ '','' @ sql_lit (decimal (ev_data_coding v)) @ '','' @
     sql_lit (decimal (ev_esm_class v)) @ '','' @ sql_lit (decimal (ev_more_messages v)) @ '') ;''"

section \<open>The connection to MySQL\<close>

text \<open>
  \<open>octstr_get_cstr\<close> is applied to null pointers too: what it does there is not said in the repository, and \<open>None\<close> means that
  it ends the process.  \<open>pool_rounds\<close> bounds the rounds of \<^verbatim>\<open>dbpool_conn_consume\<close>.
\<close>

record ('c, 'w) db_env =
  db_mysql :: "('c, 'w) mysql_api"
  octstr_get_cstr :: "octstr option \<Rightarrow> octstr option"
  pool_rounds :: nat

record ('c, 'w) database =
  db_conf :: mysql_conf
  db_pool :: "'c dbpool"
  db_world :: 'w
  fields_dlr :: dlr_db_fields
  fields_mis :: dlr_db_mis_fields
  fields_status :: dlr_db_status_fields
  fields_smpp_esme :: dlr_db_smpp_esme_fields

text \<open>A use of one connection: it is taken from the pool and given back; \<open>None\<close> inside the result when the pool gave none.\<close>

definition with_conn ::
    "('c, 'w) db_env \<Rightarrow> ('c \<Rightarrow> 'w \<Rightarrow> 'r \<times> 'w) \<Rightarrow> ('c, 'w) database \<Rightarrow> ('r option \<times> ('c, 'w) database) option" where
  "with_conn B use db =
     (case dbpool_conn_consume (mysql_ops (db_mysql B) (Some (db_conf db))) (pool_rounds B) (db_pool db) (db_world db) of
        Some (Consumed (Some pc), p, w) \<Rightarrow>
          (case pc_conn pc of
             None \<Rightarrow> None
           | Some c \<Rightarrow> (case use c w of
               (r, w1) \<Rightarrow> Some (Some r, db\<lparr>db_pool := dbpool_conn_produce p pc, db_world := w1\<rparr>)))
      | Some (Consumed None, p, w) \<Rightarrow> Some (None, db\<lparr>db_pool := p, db_world := w\<rparr>)
      | _ \<Rightarrow> None)"

definition mysql_update :: "('c, 'w) db_env \<Rightarrow> octstr \<Rightarrow> ('c, 'w) database \<Rightarrow> ('c, 'w) database option" where
  "mysql_update B sql db = map_option snd (with_conn B (\<lambda>c. mysql_query (db_mysql B) c (c_string sql)) db)"

definition mysql_select ::
    "('c, 'w) db_env \<Rightarrow> octstr \<Rightarrow> ('c, 'w) database \<Rightarrow> (row list option \<times> ('c, 'w) database) option" where
  "mysql_select B sql db =
     map_option (\<lambda>(r, db'). (Option.bind r (\<lambda>x. x), db'))
       (with_conn B (\<lambda>c w. case mysql_query (db_mysql B) c (c_string sql) w of
          (state, w1) \<Rightarrow> if state \<noteq> 0 then (None, w1) else mysql_store_result (db_mysql B) c w1) db)"

definition mysql_update_counter ::
    "('c, 'w) db_env \<Rightarrow> octstr \<Rightarrow> ('c, 'w) database \<Rightarrow> (int \<times> ('c, 'w) database) option" where
  "mysql_update_counter B sql db =
     map_option (\<lambda>(r, db'). (case r of None \<Rightarrow> -1 | Some n \<Rightarrow> n, db'))
       (with_conn B (\<lambda>c w. case mysql_query (db_mysql B) c (c_string sql) w of
          (state, w1) \<Rightarrow> (mysql_affected_rows (db_mysql B) c w1, w1)) db)"

text \<open>\<^verbatim>\<open>mysql_escape\<close> returns no value when the pool gives no connection.\<close>

definition mysql_escape :: "('c, 'w) db_env \<Rightarrow> octstr \<Rightarrow> ('c, 'w) database \<Rightarrow> (octstr \<times> ('c, 'w) database) option" where
  "mysql_escape B s db =
     (case with_conn B (\<lambda>c w. (mysql_real_escape_string (db_mysql B) c (c_string s), w)) db of
        Some (Some t, db') \<Rightarrow> Some (t, db')
      | _ \<Rightarrow> None)"

section \<open>The operations on the tables\<close>

text \<open>The name of a table is copied into an array of 50 characters.\<close>

definition table_name :: "octstr \<Rightarrow> octstr option" where
  "table_name s = (if length (c_string s) < 50 then Some (c_string s) else None)"

definition dlr_mysql_remove ::
    "('c, 'w) db_env \<Rightarrow> octstr option \<Rightarrow> octstr option \<Rightarrow> ('c, 'w) database \<Rightarrow> ('c, 'w) database option" where
  "dlr_mysql_remove B smsc_id smscmsgid db = do {
     i \<leftarrow> octstr_get_cstr B smsc_id;
     m \<leftarrow> octstr_get_cstr B smscmsgid;
     mysql_update B (remove_sql (fields_dlr db) i m) db }"

definition dlr_mysql_messages :: "('c, 'w) db_env \<Rightarrow> ('c, 'w) database \<Rightarrow> (int \<times> ('c, 'w) database) option" where
  "dlr_mysql_messages B db = do {
     (result, db1) \<leftarrow> mysql_select B (count_sql (fields_dlr db)) db;
     (case result of
        None \<Rightarrow> Some (-1, db1)
      | Some [] \<Rightarrow> Some (0, db1)
      | Some (r # rs) \<Rightarrow> (case r of Some n # _ \<Rightarrow> Some (atoi n, db1) | _ \<Rightarrow> None)) }"

definition dlr_mysql_flush :: "('c, 'w) db_env \<Rightarrow> ('c, 'w) database \<Rightarrow> ('c, 'w) database option" where
  "dlr_mysql_flush B db = mysql_update B (flush_sql (fields_dlr db)) db"

text \<open>The last argument of the format has no place in it, but it is evaluated.\<close>

definition dlr_mysql_add :: "('c, 'w) db_env \<Rightarrow> dlr_entry \<Rightarrow> ('c, 'w) database \<Rightarrow> ('c, 'w) database option" where
  "dlr_mysql_add B entry db = do {
     a \<leftarrow> octstr_get_cstr B (en_account_name entry);
     am \<leftarrow> octstr_get_cstr B (en_account_msg_id entry);
     s \<leftarrow> octstr_get_cstr B (en_smsc_id entry);
     sm \<leftarrow> octstr_get_cstr B (en_smsc_msg_id entry);
     t \<leftarrow> octstr_get_cstr B (en_msg_submit_time entry);
     mysql_update B (add_sql (fields_dlr db) a am s sm) db }"

definition dlr_mysql_get ::
    "('c, 'w) db_env \<Rightarrow> octstr option \<Rightarrow> octstr option \<Rightarrow> ('c, 'w) database \<Rightarrow> (values_got option \<times> ('c, 'w) database) option" where
  "dlr_mysql_get B dest_addr smsc_msg_id db = do {
     t \<leftarrow> table_name (fm_table (fields_mis db));
     m \<leftarrow> octstr_get_cstr B smsc_msg_id;
     (result, db1) \<leftarrow> mysql_select B (get_sql (fields_mis db) m) db;
     (case result of
        None \<Rightarrow> Some (None, db1)
      | Some [] \<Rightarrow> Some (None, db1)
      | Some (r # rs) \<Rightarrow>
          (case r of
             Some account_name # Some account_msg_id # _ \<Rightarrow>
               Some (Some ((not_found smsc_msg_id dest_addr)\<lparr>gv_result := 1, gv_account_name := Some (c_string account_name),
                 gv_account_msg_id := Some (c_string account_msg_id)\<rparr>), db1)
           | _ \<Rightarrow> None)) }"

definition dlr_mysql_mis_add :: "('c, 'w) db_env \<Rightarrow> insert_mis \<Rightarrow> ('c, 'w) database \<Rightarrow> ('c, 'w) database option" where
  "dlr_mysql_mis_add B msg db = do {
     t \<leftarrow> table_name (fm_table (fields_mis db));
     content \<leftarrow> octstr_get_cstr B (mi_msg_content msg);
     (escaped, db1) \<leftarrow> mysql_escape B content db;
     account_name \<leftarrow> octstr_get_cstr B (mi_account_name msg);
     account_msg_id \<leftarrow> octstr_get_cstr B (mi_account_msg_id msg);
     smsc_id \<leftarrow> octstr_get_cstr B (mi_smsc_id msg);
     smsc_msg_id \<leftarrow> octstr_get_cstr B (mi_smsc_msg_id msg);
     source_addr \<leftarrow> octstr_get_cstr B (mi_source_addr msg);
     dest_addr \<leftarrow> octstr_get_cstr B (mi_dest_addr msg);
     udh \<leftarrow> octstr_get_cstr B (mi_udh msg);
     req_time \<leftarrow> octstr_get_cstr B (mi_req_time msg);
     ip \<leftarrow> octstr_get_cstr B (mi_ip msg);
     mysql_update B (mis_sql (fields_mis db)
       \<lparr> mv_account_name = account_name, mv_account_msg_id = account_msg_id, mv_smsc_id = smsc_id, mv_smsc_msg_id = smsc_msg_id,
         mv_submit_status = mi_submit_status msg, mv_source_addr = source_addr, mv_dest_addr = dest_addr, mv_content = escaped,
         mv_retry_value = mi_retry_value msg, mv_udh = udh, mv_req_time = req_time, mv_ip = ip \<rparr>) db1 }"

definition dlr_mysql_status_add :: "('c, 'w) db_env \<Rightarrow> insert_status \<Rightarrow> ('c, 'w) database \<Rightarrow> ('c, 'w) database option" where
  "dlr_mysql_status_add B msg db = do {
     t \<leftarrow> table_name (fs_table (fields_status db));
     smsc_id \<leftarrow> octstr_get_cstr B (ms_smsc_id msg);
     smsc_msg_id \<leftarrow> octstr_get_cstr B (ms_smsc_msg_id msg);
     dest_addr \<leftarrow> octstr_get_cstr B (ms_dest_addr msg);
     mysql_update B (status_sql (fields_status db) smsc_id smsc_msg_id dest_addr (ms_deliver_status msg)) db }"

definition dlr_smpp_esme_add :: "('c, 'w) db_env \<Rightarrow> smpp_esme \<Rightarrow> ('c, 'w) database \<Rightarrow> ('c, 'w) database option" where
  "dlr_smpp_esme_add B msg db = do {
     t \<leftarrow> table_name (fe_table (fields_smpp_esme db));
     content \<leftarrow> octstr_get_cstr B (me_msg_content msg);
     (escaped, db1) \<leftarrow> mysql_escape B content db;
     account_name \<leftarrow> octstr_get_cstr B (me_account_name msg);
     account_msg_id \<leftarrow> octstr_get_cstr B (me_account_msg_id msg);
     source_addr \<leftarrow> octstr_get_cstr B (me_source_addr msg);
     dest_addr \<leftarrow> octstr_get_cstr B (me_dest_addr msg);
     udh \<leftarrow> octstr_get_cstr B (me_udh msg);
     req_time \<leftarrow> octstr_get_cstr B (me_req_time msg);
     mysql_update B (esme_sql (fields_smpp_esme db)
       \<lparr> ev_account_name = account_name, ev_account_msg_id = account_msg_id, ev_submit_status = me_submit_status msg,
         ev_source_addr = source_addr, ev_dest_addr = dest_addr, ev_content = escaped, ev_retry_value = me_retry_value msg,
         ev_udh = udh, ev_req_time = req_time, ev_dnd_flag = me_dnd_flag msg, ev_data_coding = me_data_coding msg,
         ev_esm_class = me_esm_class msg, ev_more_messages = me_more_messages_to_send msg \<rparr>) db1 }"

definition dlr_mysql_check_conn :: "('c, 'w) db_env \<Rightarrow> ('c, 'w) database \<Rightarrow> ('c, 'w) database option" where
  "dlr_mysql_check_conn B db = map_option snd (mysql_select B ''SELECT NOW();'' db)"

definition dlr_mysql_shutdown :: "('c, 'w) db_env \<Rightarrow> ('c, 'w) database \<Rightarrow> 'w" where
  "dlr_mysql_shutdown B db = dbpool_destroy (mysql_ops (db_mysql B) (Some (db_conf db))) (Some (db_pool db)) (db_world db)"

section \<open>The table of functions\<close>

text \<open>The functions of one kind of storage on its state; a null pointer is \<open>None\<close>.\<close>

record 's dlr_storage =
  storage_type :: octstr
  h_add :: "(dlr_entry \<Rightarrow> 's \<Rightarrow> 's option) option"
  h_get :: "(octstr option \<Rightarrow> octstr option \<Rightarrow> 's \<Rightarrow> (values_got option \<times> 's) option) option"
  h_remove :: "(octstr option \<Rightarrow> octstr option \<Rightarrow> 's \<Rightarrow> 's option) option"
  h_mis_add :: "(insert_mis \<Rightarrow> 's \<Rightarrow> 's option) option"
  h_status_add :: "(insert_status \<Rightarrow> 's \<Rightarrow> 's option) option"
  h_smpp_esme :: "(smpp_esme \<Rightarrow> 's \<Rightarrow> 's option) option"
  h_messages :: "('s \<Rightarrow> (int \<times> 's) option) option"
  h_flush :: "('s \<Rightarrow> 's option) option"
  h_check_conn :: "('s \<Rightarrow> 's option) option"

definition mysql_handles :: "('c, 'w) db_env \<Rightarrow> ('c, 'w) database dlr_storage" where
  "mysql_handles B =
     \<lparr> storage_type = ''mysql'', h_add = Some (dlr_mysql_add B), h_get = Some (dlr_mysql_get B), h_remove = Some (dlr_mysql_remove B),
       h_mis_add = Some (dlr_mysql_mis_add B), h_status_add = Some (dlr_mysql_status_add B), h_smpp_esme = Some (dlr_smpp_esme_add B),
       h_messages = Some (dlr_mysql_messages B), h_flush = Some (dlr_mysql_flush B), h_check_conn = Some (dlr_mysql_check_conn B) \<rparr>"

definition dlr_messages :: "'s dlr_storage option \<Rightarrow> 's \<Rightarrow> (int \<times> 's) option" where
  "dlr_messages handles s = (case Option.bind handles h_messages of None \<Rightarrow> Some (-1, s) | Some f \<Rightarrow> f s)"

definition dlr_type :: "'s dlr_storage option \<Rightarrow> octstr" where
  "dlr_type handles = (case handles of None \<Rightarrow> ''unknown'' | Some h \<Rightarrow> storage_type h)"

text \<open>\<^verbatim>\<open>octstr_len\<close> of a null pointer is zero.\<close>

definition dlr_add ::
    "'s dlr_storage option \<Rightarrow> octstr option \<Rightarrow> octstr option \<Rightarrow> octstr option \<Rightarrow> octstr option \<Rightarrow> 's \<Rightarrow> 's option" where
  "dlr_add handles account_name account_msg_id smsc_id smsc_msg_id s =
     (if (case smsc_id of None \<Rightarrow> True | Some i \<Rightarrow> length i = 0) then Some s
      else case Option.bind handles h_add of
        None \<Rightarrow> Some s
      | Some f \<Rightarrow>
          (let blank = (\<lambda>x. case x of None \<Rightarrow> Some [] | Some t \<Rightarrow> Some t)
           in f (dlr_entry_create\<lparr>en_account_name := blank account_name, en_account_msg_id := blank account_msg_id,
                  en_smsc_id := blank smsc_id, en_smsc_msg_id := blank smsc_msg_id\<rparr>) s))"

definition dlr_find ::
    "'s dlr_storage option \<Rightarrow> octstr option \<Rightarrow> octstr option \<Rightarrow> 's \<Rightarrow> (values_got \<times> 's) option" where
  "dlr_find handles dest_addr smscmsgid s =
     (case Option.bind handles h_get of
        None \<Rightarrow> Some (not_found smscmsgid dest_addr, s)
      | Some f \<Rightarrow> do {
          (msg, s1) \<leftarrow> f dest_addr smscmsgid s;
          Some (case msg of None \<Rightarrow> not_found smscmsgid dest_addr | Some v \<Rightarrow> v, s1) })"

definition dlr_remove :: "'s dlr_storage option \<Rightarrow> octstr option \<Rightarrow> octstr option \<Rightarrow> 's \<Rightarrow> 's option" where
  "dlr_remove handles smsc_id smscmsgid s =
     (case Option.bind handles h_remove of None \<Rightarrow> Some s | Some f \<Rightarrow> f smsc_id smscmsgid s)"

definition dlr_mis_add :: "'s dlr_storage option \<Rightarrow> insert_mis \<Rightarrow> 's \<Rightarrow> 's option" where
  "dlr_mis_add handles msg s = (case Option.bind handles h_mis_add of None \<Rightarrow> Some s | Some f \<Rightarrow> f msg s)"

definition dlr_smpp_esme :: "'s dlr_storage option \<Rightarrow> smpp_esme \<Rightarrow> 's \<Rightarrow> 's option" where
  "dlr_smpp_esme handles msg s = (case Option.bind handles h_smpp_esme of None \<Rightarrow> Some s | Some f \<Rightarrow> f msg s)"

definition dlr_status_add :: "'s dlr_storage option \<Rightarrow> insert_status \<Rightarrow> 's \<Rightarrow> 's option" where
  "dlr_status_add handles msg s = (case Option.bind handles h_status_add of None \<Rightarrow> Some s | Some f \<Rightarrow> f msg s)"

text \<open>The count of the messages is written to the log first.\<close>

definition dlr_flush :: "'s dlr_storage option \<Rightarrow> 's \<Rightarrow> 's option" where
  "dlr_flush handles s = do {
     (n, s1) \<leftarrow> dlr_messages handles s;
     (case Option.bind handles h_flush of None \<Rightarrow> Some s1 | Some f \<Rightarrow> f s1) }"

definition dlr_check_conn :: "'s dlr_storage option \<Rightarrow> 's \<Rightarrow> 's option" where
  "dlr_check_conn handles s = (case Option.bind handles h_check_conn of None \<Rightarrow> Some s | Some f \<Rightarrow> f s)"

section \<open>Starting\<close>

text \<open>The connection group with the given id: the first one in the file.\<close>

fun find_connection :: "'z cfg_env_scheme \<Rightarrow> octstr_ops \<Rightarrow> octstr \<Rightarrow> cfg_group list \<Rightarrow> cfg_group option" where
  "find_connection E X mysql_id [] = None"
| "find_connection E X mysql_id (grp # grps) = do {
     p \<leftarrow> cfg_get E grp ''id'';
     (if (case p of None \<Rightarrow> False | Some s \<Rightarrow> octstr_compare X s mysql_id = 0) then Some grp
      else find_connection E X mysql_id grps) }"

definition dlr_init_mysql ::
    "'z cfg_env_scheme \<Rightarrow> octstr_ops \<Rightarrow> ('c, 'w) db_env \<Rightarrow> cfg \<Rightarrow> 'w \<Rightarrow> ('c, 'w) database option" where
  "dlr_init_mysql E X B c w = do {
     grp1 \<leftarrow> cfg_get_single_group c ''dlr-db'';
     id1 \<leftarrow> directive E grp1 ''id'';
     f \<leftarrow> dlr_db_fields_create E grp1;
     grp2 \<leftarrow> cfg_get_single_group c ''dlr-db-mis'';
     id2 \<leftarrow> directive E grp2 ''id'';
     fm \<leftarrow> dlr_db_fields_create_mis E grp2;
     grp3 \<leftarrow> cfg_get_single_group c ''dlr-db-status'';
     id3 \<leftarrow> directive E grp3 ''id'';
     fs \<leftarrow> dlr_db_fields_create_status E grp3;
     grp4 \<leftarrow> cfg_get_single_group c ''dlr-db-smpp-esme'';
     mysql_id \<leftarrow> directive E grp4 ''id'';
     fe \<leftarrow> dlr_db_fields_create_smpp_esme E grp4;
     grplist \<leftarrow> cfg_get_multi_group c ''mysql-connection'';
     grp \<leftarrow> find_connection E X mysql_id grplist;
     max_connections \<leftarrow> cfg_get_integer E grp ''max-connections'';
     let pool_size = (case max_connections of None \<Rightarrow> 1 | Some n \<Rightarrow> if n = 0 then 1 else n);
     mysql_host \<leftarrow> directive E grp ''host'';
     mysql_user \<leftarrow> directive E grp ''username'';
     mysql_pass \<leftarrow> directive E grp ''password'';
     mysql_db \<leftarrow> directive E grp ''database'';
     mysql_sock \<leftarrow> cfg_get E grp ''socket'';
     mysql_port \<leftarrow> cfg_get_integer E grp ''port'';
     let conf = \<lparr> my_host = mysql_host, my_port = (case mysql_port of None \<Rightarrow> 0 | Some n \<Rightarrow> n), my_username = mysql_user,
       my_password = mysql_pass, my_database = mysql_db, my_socket = mysql_sock \<rparr>;
     (p, w1) \<leftarrow> dbpool_create (Some (mysql_ops (db_mysql B) (Some conf))) True (word_of_int pool_size) w;
     pool \<leftarrow> p;
     (if dbpool_conn_count pool = 0 then None
      else Some \<lparr> db_conf = conf, db_pool = pool, db_world = w1, fields_dlr = f, fields_mis = fm, fields_status = fs,
        fields_smpp_esme = fe \<rparr>) }"

definition dlr_init ::
    "'z cfg_env_scheme \<Rightarrow> octstr_ops \<Rightarrow> ('c, 'w) db_env \<Rightarrow> cfg \<Rightarrow> 'w \<Rightarrow> (('c, 'w) database dlr_storage \<times> ('c, 'w) database) option" where
  "dlr_init E X B c w = do {
     grp \<leftarrow> cfg_get_single_group c ''core'';
     storage \<leftarrow> cfg_get E grp ''dlr-storage'';
     (if octstr_compare X (case storage of None \<Rightarrow> ''internal'' | Some t \<Rightarrow> t) ''mysql'' = 0
      then do { db \<leftarrow> dlr_init_mysql E X B c w; Some (mysql_handles B, db) }
      else None) }"

section \<open>Reading the literals of a statement\<close>

text \<open>
  The strings in single quotes of a statement, as the manual of MySQL defines them: a backslash takes the next character, two
  quotes stand for one, and another quote ends the string.  The first argument is what has been read of the string that is open.
\<close>

definition sql_unescape :: "char \<Rightarrow> char" where
  "sql_unescape c =
     (if c = CHR ''0'' then CHR 0x00 else if c = CHR ''n'' then CHR 0x0A else if c = CHR ''r'' then CHR 0x0D
      else if c = CHR ''Z'' then CHR 0x1A else if c = CHR ''b'' then CHR 0x08 else if c = CHR ''t'' then CHR 0x09 else c)"

fun literals :: "octstr option \<Rightarrow> octstr \<Rightarrow> octstr list option" where
  "literals None [] = Some []"
| "literals (Some a) [] = None"
| "literals None (c # cs) = (if c = CHR 0x27 then literals (Some []) cs else literals None cs)"
| "literals (Some a) (c # cs) =
     (if c = CHR 0x5C then (case cs of [] \<Rightarrow> None | d # ds \<Rightarrow> literals (Some (a @ [sql_unescape d])) ds)
      else if c = CHR 0x27
      then (case cs of
              [] \<Rightarrow> Some [a]
            | d # ds \<Rightarrow> if d = CHR 0x27 then literals (Some (a @ [CHR 0x27])) ds else map_option ((#) a) (literals None (d # ds)))
      else literals (Some (a @ [c])) cs)"

definition plain :: "octstr \<Rightarrow> bool" where
  "plain s \<longleftrightarrow> CHR 0x27 \<notin> set s \<and> CHR 0x5C \<notin> set s \<and> CHR 0x00 \<notin> set s"

lemma literals_open:
  "CHR 0x27 \<notin> set s \<Longrightarrow> CHR 0x5C \<notin> set s \<Longrightarrow> rest = [] \<or> hd rest \<noteq> CHR 0x27 \<Longrightarrow>
     literals (Some a) (s @ CHR 0x27 # rest) = map_option ((#) (a @ s)) (literals None rest)"
  by (induction s arbitrary: a) (auto split: list.splits)

lemma literals_skip: "CHR 0x27 \<notin> set s \<Longrightarrow> literals None (s @ rest) = literals None rest"
  by (induction s) auto

lemma literals_lit:
  "plain s \<Longrightarrow> rest = [] \<or> hd rest \<noteq> CHR 0x27 \<Longrightarrow>
     literals None (sql_lit s @ rest) = map_option ((#) s) (literals None rest)"
  by (simp add: sql_lit_def plain_def literals_open)

lemma digit_not_special:
  assumes "d < (10 :: nat)"
  shows "char_of (48 + d) \<noteq> CHR 0x27" "char_of (48 + d) \<noteq> CHR 0x5C" "char_of (48 + d) \<noteq> CHR 0x00"
proof -
  have "d \<in> set [0..<10]" using assms by simp
  moreover have "list_all (\<lambda>d. char_of (48 + d) \<noteq> CHR 0x27 \<and> char_of (48 + d) \<noteq> CHR 0x5C \<and> char_of (48 + d) \<noteq> CHR 0x00) [0..<10]"
    by code_simp
  ultimately show "char_of (48 + d) \<noteq> CHR 0x27" "char_of (48 + d) \<noteq> CHR 0x5C" "char_of (48 + d) \<noteq> CHR 0x00"
    by (simp_all add: list_all_iff)
qed

lemma plain_decimal: "plain (decimal i)"
proof -
  have "c \<noteq> CHR 0x27 \<and> c \<noteq> CHR 0x5C \<and> c \<noteq> CHR 0x00" if "c \<in> set (decimal i)" for c
    using decimal_chars [OF that] digit_not_special by auto
  then show ?thesis by (auto simp: plain_def)
qed

lemma plain_c_string: "plain s \<Longrightarrow> c_string s = s"
  by (auto simp: plain_def c_string_def takeWhile_eq_all_conv)

lemma c_string_append: "CHR 0x00 \<notin> set s \<Longrightarrow> c_string (s @ t) = s @ c_string t"
  unfolding c_string_def by (rule takeWhile_append2) auto

lemma c_string_no_nul: "CHR 0x00 \<notin> set (c_string s)"
  by (auto simp: c_string_def dest: set_takeWhileD)

text \<open>
  The statement of a row of the MIS table: what is read back are the values, when the names of the columns hold no quote, the
  values that are put in as they are hold neither quote nor backslash, and the content was escaped.
\<close>

lemma literals_column: "list_all plain xs \<Longrightarrow> x \<in> set xs \<Longrightarrow> literals None (c_string x @ rest) = literals None rest"
  by (intro literals_skip) (auto simp: list_all_iff plain_def c_string_def dest: set_takeWhileD)

definition columns :: "dlr_db_mis_fields \<Rightarrow> octstr list" where
  "columns f = [fm_table f, fm_account_name f, fm_account_msg_id f, fm_smsc_id f, fm_smsc_msg_id f, fm_submit_status f, fm_submit_time f,
     fm_source_addr f, fm_dest_addr f, fm_msg_content f, fm_retry_value f, fm_udh f, fm_recv_time f, fm_Client_IP f]"

definition plain_values :: "mis_values \<Rightarrow> bool" where
  "plain_values v \<longleftrightarrow> list_all plain [mv_account_name v, mv_account_msg_id v, mv_smsc_id v, mv_smsc_msg_id v, mv_source_addr v, mv_dest_addr v,
     mv_udh v, mv_req_time v, mv_ip v]"

definition value_list :: "mis_values \<Rightarrow> octstr list" where
  "value_list v = [mv_account_name v, mv_account_msg_id v, mv_smsc_id v, mv_smsc_msg_id v, decimal (mv_submit_status v), mv_source_addr v,
     mv_dest_addr v, mv_content v, decimal (mv_retry_value v), mv_udh v, mv_req_time v, mv_ip v]"

definition escapes :: "('c, 'w) mysql_api \<Rightarrow> bool" where
  "escapes M \<longleftrightarrow> (\<forall>c s rest a. CHR 0x00 \<notin> set s \<longrightarrow> rest = [] \<or> hd rest \<noteq> CHR 0x27 \<longrightarrow>
     literals (Some a) (mysql_real_escape_string M c s @ CHR 0x27 # rest) = map_option ((#) (a @ s)) (literals None rest)) \<and>
     (\<forall>c s. CHR 0x00 \<notin> set (mysql_real_escape_string M c s))"

lemma escapes_lit:
  "escapes M \<Longrightarrow> CHR 0x00 \<notin> set s \<Longrightarrow> rest = [] \<or> hd rest \<noteq> CHR 0x27 \<Longrightarrow>
     literals None (sql_lit (mysql_real_escape_string M c s) @ rest) = map_option ((#) s) (literals None rest)"
  unfolding escapes_def sql_lit_def by (metis (no_types, lifting) append.left_neutral append.assoc append_Cons literals.simps(3))

lemma mis_sql_literals:
  assumes "escapes M" "list_all plain (columns f)" "plain_values v" "CHR 0x00 \<notin> set (mv_content v)"
  shows "literals None (mis_sql f (v\<lparr>mv_content := mysql_real_escape_string M c (mv_content v)\<rparr>)) = Some (value_list v)"
proof -
  note skip = literals_column [OF assms(2)]
  have vals: "literals None (sql_lit x @ rest) = map_option ((#) x) (literals None rest)"
    if "x \<in> {mv_account_name v, mv_account_msg_id v, mv_smsc_id v, mv_smsc_msg_id v, mv_source_addr v, mv_dest_addr v,
      mv_udh v, mv_req_time v, mv_ip v, decimal (mv_submit_status v), decimal (mv_retry_value v)}"
      "rest = [] \<or> hd rest \<noteq> CHR 0x27" for x rest
    using assms(3) that by (intro literals_lit) (auto simp: plain_values_def plain_decimal)
  show ?thesis
    by (simp add: mis_sql_def skip columns_def vals escapes_lit [OF assms(1,4)] value_list_def)
qed

lemma c_string_lit: "CHR 0x00 \<notin> set s \<Longrightarrow> c_string (sql_lit s @ t) = sql_lit s @ c_string t"
  using c_string_append [of "sql_lit s" t] by (simp add: sql_lit_def)

lemma c_string_Cons: "c \<noteq> CHR 0x00 \<Longrightarrow> c_string (c # s) = c # c_string s"
  by (simp add: c_string_def)

lemma c_string_Nil: "c_string [] = []"
  by (simp add: c_string_def)

lemmas c_string_text = c_string_append [OF c_string_no_nul] c_string_lit c_string_Cons c_string_Nil

lemma c_string_mis_sql:
  assumes "plain_values v" "CHR 0x00 \<notin> set (mv_content v)"
  shows "c_string (mis_sql f v) = mis_sql f v"
  using assms plain_decimal by (simp add: mis_sql_def c_string_text plain_values_def plain_def)

section \<open>What the process relies on: a store of receipts\<close>

text \<open>
  The contract between the requests and the storage.  The state of the storage stands for the rows of the MIS table in the order of their
  insertion, a row for the list of its values; \<open>same\<close> is the comparison of message ids, \<open>storable\<close> relates a message to the
  row that is kept for it, and \<open>acceptable\<close> and \<open>recordable\<close> are the requests that leave the rows alone.
\<close>

locale receipt_store =
  fixes handles :: "'s dlr_storage option" and ok :: "'s \<Rightarrow> bool" and stored :: "'s \<Rightarrow> octstr list list"
    and same :: "octstr \<Rightarrow> octstr \<Rightarrow> bool" and storable :: "insert_mis \<Rightarrow> octstr list \<Rightarrow> bool"
    and acceptable :: "insert_status \<Rightarrow> bool" and recordable :: "smpp_esme \<Rightarrow> bool"
  assumes mis_add: "ok s \<Longrightarrow> storable m r \<Longrightarrow> \<exists>s'. dlr_mis_add handles m s = Some s' \<and> ok s' \<and> stored s' = stored s @ [r]"
    and status_add: "ok s \<Longrightarrow> acceptable t \<Longrightarrow> \<exists>s'. dlr_status_add handles t s = Some s' \<and> ok s' \<and> stored s' = stored s"
    and esme_add: "ok s \<Longrightarrow> recordable e \<Longrightarrow> \<exists>s'. dlr_smpp_esme handles e s = Some s' \<and> ok s' \<and> stored s' = stored s"
    and find_hit: "ok s \<Longrightarrow> plain k \<Longrightarrow> r \<in> set (stored s) \<Longrightarrow> same (r ! 3) k \<Longrightarrow>
      \<exists>s' r'. dlr_find handles d (Some k) s = Some ((not_found (Some k) d)\<lparr>gv_result := 1, gv_account_name := Some (c_string (r' ! 0)),
         gv_account_msg_id := Some (c_string (r' ! 1))\<rparr>, s') \<and> r' \<in> set (stored s) \<and> same (r' ! 3) k \<and> ok s' \<and> stored s' = stored s"
    and find_miss: "ok s \<Longrightarrow> plain k \<Longrightarrow> (\<And>r. r \<in> set (stored s) \<Longrightarrow> \<not> same (r ! 3) k) \<Longrightarrow>
      \<exists>s'. dlr_find handles d (Some k) s = Some (not_found (Some k) d, s') \<and> ok s' \<and> stored s' = stored s"
begin

text \<open>A lookup keeps the rows and always answers.\<close>

lemma find_total:
  assumes "ok s" "plain k"
  shows "\<exists>v s'. dlr_find handles d (Some k) s = Some (v, s') \<and> ok s' \<and> stored s' = stored s \<and>
    gv_smsc_msg_id v = Some k \<and> gv_dest_addr v = d \<and> gv_pdu v = None \<and>
    gv_result v = (if \<exists>r \<in> set (stored s). same (r ! 3) k then 1 else 0)"
proof (cases "\<exists>r \<in> set (stored s). same (r ! 3) k")
  case True
  then obtain r where "r \<in> set (stored s)" "same (r ! 3) k" by blast
  from find_hit [OF assms this, of d] True show ?thesis by (force simp: not_found_def)
next
  case False
  from find_miss [OF assms, of d] False show ?thesis by (force simp: not_found_def)
qed

text \<open>When one row alone has the message id, its account is found.\<close>

lemma find_unique:
  assumes "ok s" "plain k" "r \<in> set (stored s)" "same (r ! 3) k" "\<And>r'. r' \<in> set (stored s) \<Longrightarrow> same (r' ! 3) k \<Longrightarrow> r' = r"
  shows "\<exists>s'. dlr_find handles d (Some k) s = Some ((not_found (Some k) d)\<lparr>gv_result := 1, gv_account_name := Some (c_string (r ! 0)),
     gv_account_msg_id := Some (c_string (r ! 1))\<rparr>, s') \<and> ok s' \<and> stored s' = stored s"
proof -
  from find_hit [OF assms(1-4), of d] obtain s' r' where f:
    "dlr_find handles d (Some k) s = Some ((not_found (Some k) d)\<lparr>gv_result := 1, gv_account_name := Some (c_string (r' ! 0)),
       gv_account_msg_id := Some (c_string (r' ! 1))\<rparr>, s')" "r' \<in> set (stored s)" "same (r' ! 3) k" "ok s'" "stored s' = stored s"
    by auto
  have "r' = r" by (rule assms(5) [OF f(2,3)])
  with f show ?thesis by blast
qed

end

section \<open>MySQL as such a store\<close>

text \<open>The values of a message, as C strings; \<open>None\<close> when one of them is a null pointer.\<close>

definition mis_row :: "insert_mis \<Rightarrow> mis_values option" where
  "mis_row m = do {
     account_name \<leftarrow> mi_account_name m; account_msg_id \<leftarrow> mi_account_msg_id m; smsc_id \<leftarrow> mi_smsc_id m;
     smsc_msg_id \<leftarrow> mi_smsc_msg_id m; source_addr \<leftarrow> mi_source_addr m; dest_addr \<leftarrow> mi_dest_addr m; content \<leftarrow> mi_msg_content m;
     udh \<leftarrow> mi_udh m; req_time \<leftarrow> mi_req_time m; ip \<leftarrow> mi_ip m;
     Some \<lparr> mv_account_name = c_string account_name, mv_account_msg_id = c_string account_msg_id, mv_smsc_id = c_string smsc_id,
       mv_smsc_msg_id = c_string smsc_msg_id, mv_submit_status = mi_submit_status m, mv_source_addr = c_string source_addr,
       mv_dest_addr = c_string dest_addr, mv_content = c_string content, mv_retry_value = mi_retry_value m, mv_udh = c_string udh,
       mv_req_time = c_string req_time, mv_ip = c_string ip \<rparr> }"

definition status_columns :: "dlr_db_status_fields \<Rightarrow> octstr list" where
  "status_columns f = [fs_table f, fs_smsc_id f, fs_smsc_msg_id f, fs_dest_addr f, fs_deliver_status f, fs_deliver_time f]"

lemma status_sql_literals:
  assumes "list_all plain (status_columns f)" "plain a" "plain b" "plain d"
  shows "literals None (status_sql f a b d n) = Some [a, b, d, decimal n]" "c_string (status_sql f a b d n) = status_sql f a b d n"
proof -
  note skip = literals_column [OF assms(1)]
  show "literals None (status_sql f a b d n) = Some [a, b, d, decimal n]"
    by (simp add: status_sql_def skip status_columns_def literals_lit assms plain_decimal)
  show "c_string (status_sql f a b d n) = status_sql f a b d n"
    using assms(2-4) plain_decimal by (simp add: status_sql_def c_string_text plain_def)
qed

definition esme_columns :: "dlr_db_smpp_esme_fields \<Rightarrow> octstr list" where
  "esme_columns f = [fe_table f, fe_account_name f, fe_account_msg_id f, fe_submit_status f, fe_source_addr f, fe_dest_addr f, fe_msg_content f,
     fe_retry_value f, fe_udh f, fe_recv_time f, fe_dnd_flag f, fe_data_coding f, fe_esm_class f, fe_more_messages_to_send f]"

definition plain_esme :: "esme_values \<Rightarrow> bool" where
  "plain_esme v \<longleftrightarrow> list_all plain [ev_account_name v, ev_account_msg_id v, ev_source_addr v, ev_dest_addr v, ev_udh v, ev_req_time v]"

lemma esme_sql_literals:
  assumes "escapes M" "list_all plain (esme_columns f)" "plain_esme v" "CHR 0x00 \<notin> set (ev_content v)"
  shows "\<exists>us. literals None (esme_sql f (v\<lparr>ev_content := mysql_real_escape_string M c (ev_content v)\<rparr>)) = Some us"
    "c_string (esme_sql f (v\<lparr>ev_content := mysql_real_escape_string M c (ev_content v)\<rparr>)) =
       esme_sql f (v\<lparr>ev_content := mysql_real_escape_string M c (ev_content v)\<rparr>)"
proof -
  note skip = literals_column [OF assms(2)]
  have p: "plain (ev_account_name v)" "plain (ev_account_msg_id v)" "plain (ev_source_addr v)" "plain (ev_dest_addr v)" "plain (ev_udh v)"
    "plain (ev_req_time v)" using assms(3) by (simp_all add: plain_esme_def)
  show "\<exists>us. literals None (esme_sql f (v\<lparr>ev_content := mysql_real_escape_string M c (ev_content v)\<rparr>)) = Some us"
    by (simp add: esme_sql_def skip esme_columns_def literals_lit p plain_decimal escapes_lit [OF assms(1,4)])
  show "c_string (esme_sql f (v\<lparr>ev_content := mysql_real_escape_string M c (ev_content v)\<rparr>)) =
      esme_sql f (v\<lparr>ev_content := mysql_real_escape_string M c (ev_content v)\<rparr>)"
    using assms(1) p plain_decimal by (simp add: esme_sql_def c_string_text plain_def escapes_def)
qed

definition esme_row :: "smpp_esme \<Rightarrow> esme_values option" where
  "esme_row m = do {
     account_name \<leftarrow> me_account_name m; account_msg_id \<leftarrow> me_account_msg_id m; source_addr \<leftarrow> me_source_addr m;
     dest_addr \<leftarrow> me_dest_addr m; content \<leftarrow> me_msg_content m; udh \<leftarrow> me_udh m; req_time \<leftarrow> me_req_time m;
     Some \<lparr> ev_account_name = c_string account_name, ev_account_msg_id = c_string account_msg_id,
       ev_submit_status = me_submit_status m, ev_source_addr = c_string source_addr, ev_dest_addr = c_string dest_addr,
       ev_content = c_string content, ev_retry_value = me_retry_value m, ev_udh = c_string udh, ev_req_time = c_string req_time,
       ev_dnd_flag = me_dnd_flag m, ev_data_coding = me_data_coding m, ev_esm_class = me_esm_class m,
       ev_more_messages = me_more_messages_to_send m \<rparr> }"

lemma get_sql_literals:
  assumes "list_all plain (columns f)" "plain k"
  shows "literals None (get_sql f k) = Some [k]" "c_string (get_sql f k) = get_sql f k"
proof -
  note skip = literals_column [OF assms(1)]
  show "literals None (get_sql f k) = Some [k]" by (simp add: get_sql_def skip columns_def literals_lit assms(2))
  show "c_string (get_sql f k) = get_sql f k" using assms(2) by (simp add: get_sql_def c_string_text plain_def)
qed

text \<open>A pool that hands out a connection at once.\<close>

definition conn_ready :: "('c, 'w) db_env \<Rightarrow> ('c, 'w) database \<Rightarrow> bool" where
  "conn_ready B db \<longleftrightarrow> 0 < pool_rounds B \<and> curr_size (db_pool db) \<noteq> 0 \<and> pool_conns (db_pool db) \<noteq> [] \<and>
     (\<forall>pc \<in> set (pool_conns (db_pool db)). pc_conn pc \<noteq> None)"

lemma with_conn_ready:
  assumes "\<And>c w. fst (mysql_ping (db_mysql B) c w) = 0" "conn_ready B db"
  shows "\<exists>c w1 p. w1 = snd (mysql_ping (db_mysql B) c (db_world db)) \<and>
    with_conn B use db = Some (Some (fst (use c w1)), db\<lparr>db_pool := p, db_world := snd (use c w1)\<rparr>) \<and>
    conn_ready B (db\<lparr>db_pool := p, db_world := snd (use c w1)\<rparr>)"
proof -
  obtain pc pcs where p: "pool_conns (db_pool db) = pc # pcs" using assms(2) by (auto simp: conn_ready_def neq_Nil_conv)
  with assms(2) obtain c where c: "pc_conn pc = Some c" by (auto simp: conn_ready_def)
  obtain f where f: "pool_rounds B = Suc f" using assms(2) by (auto simp: conn_ready_def gr0_conv_Suc)
  have nz: "\<not> curr_size (db_pool db) < 1" using assms(2) by (simp add: conn_ready_def word_less_1)
  let ?w = "snd (mysql_ping (db_mysql B) c (db_world db))"
  let ?p = "dbpool_conn_produce ((db_pool db)\<lparr>pool_conns := pcs\<rparr>) pc"
  have "conn_broken (mysql_ops (db_mysql B) (Some (db_conf db))) pc (db_world db) = (False, ?w)"
    using assms(1) [of c "db_world db"] c
    by (cases "mysql_ping (db_mysql B) c (db_world db)") (simp add: conn_broken_def mysql_ops_def mysql_check_conn_def)
  with p c f nz have "with_conn B use db = Some (Some (fst (use c ?w)), db\<lparr>db_pool := ?p, db_world := snd (use c ?w)\<rparr>)"
    by (simp add: with_conn_def dbpool_conn_consume_def split: prod.splits)
  moreover have "conn_ready B (db\<lparr>db_pool := ?p, db_world := snd (use c ?w)\<rparr>)"
    using assms(2) p by (auto simp: conn_ready_def dbpool_conn_produce_def)
  ultimately show ?thesis by blast
qed

definition db_ok ::
    "('c, 'w) db_env \<Rightarrow> dlr_db_mis_fields \<Rightarrow> dlr_db_status_fields \<Rightarrow> dlr_db_smpp_esme_fields \<Rightarrow> ('c, 'w) database \<Rightarrow> bool" where
  "db_ok B fm fs fe db \<longleftrightarrow> conn_ready B db \<and> fields_mis db = fm \<and> fields_status db = fs \<and> fields_smpp_esme db = fe"

definition kept :: "(octstr list \<Rightarrow> bool) \<Rightarrow> insert_mis \<Rightarrow> octstr list \<Rightarrow> bool" where
  "kept fits m r \<longleftrightarrow> (\<exists>v. mis_row m = Some v \<and> plain_values v \<and> r = value_list v \<and> fits r)"

definition plain_status :: "insert_status \<Rightarrow> bool" where
  "plain_status m \<longleftrightarrow> (\<exists>a b d. ms_smsc_id m = Some a \<and> ms_smsc_msg_id m = Some b \<and> ms_dest_addr m = Some d \<and> plain a \<and> plain b \<and> plain d)"

definition plain_request :: "smpp_esme \<Rightarrow> bool" where
  "plain_request m \<longleftrightarrow> (\<exists>v. esme_row m = Some v \<and> plain_esme v)"

text \<open>
  What is assumed of the library and the server.  \<open>rows\<close> are the rows of the MIS table; a statement whose literals can be read has the
  effect the manual gives it: an insertion whose values fit the columns adds a row, a selection yields, in no particular order, the
  rows whose message id the collation takes to be equal, and insertions into the other two tables keep the rows.
\<close>

locale mysql_storage =
  fixes B :: "('c, 'w) db_env" and fm :: dlr_db_mis_fields and fs :: dlr_db_status_fields and fe :: dlr_db_smpp_esme_fields
    and rows :: "'w \<Rightarrow> octstr list list" and same :: "octstr \<Rightarrow> octstr \<Rightarrow> bool" and fits :: "octstr list \<Rightarrow> bool"
  assumes cstr: "octstr_get_cstr B (Some s) = Some (c_string s)"
    and pings: "fst (mysql_ping (db_mysql B) c w) = 0" "rows (snd (mysql_ping (db_mysql B) c w)) = rows w"
    and escaping: "escapes (db_mysql B)"
    and names: "list_all plain (columns fm)" "list_all plain (status_columns fs)" "list_all plain (esme_columns fe)"
    and lengths: "length (c_string (fm_table fm)) < 50" "length (c_string (fs_table fs)) < 50" "length (c_string (fe_table fe)) < 50"
    and insertion: "literals None (mis_sql fm v) = Some vs \<Longrightarrow> fits vs \<Longrightarrow> rows (snd (mysql_query (db_mysql B) c (mis_sql fm v) w)) = rows w @ [vs]"
    and selection: "literals None (get_sql fm k) = Some [k'] \<Longrightarrow> \<exists>w1 rs w2. mysql_query (db_mysql B) c (get_sql fm k) w = (0, w1) \<and>
      mysql_store_result (db_mysql B) c w1 = (Some rs, w2) \<and> rows w2 = rows w \<and>
      set rs = (\<lambda>r. [Some (r ! 0), Some (r ! 1)]) ` {r \<in> set (rows w). same (r ! 3) k'}"
    and status_keeps: "literals None (status_sql fs smsc m d n) = Some us \<Longrightarrow>
      rows (snd (mysql_query (db_mysql B) c (status_sql fs smsc m d n) w)) = rows w"
    and esme_keeps: "literals None (esme_sql fe e) = Some us \<Longrightarrow> rows (snd (mysql_query (db_mysql B) c (esme_sql fe e) w)) = rows w"

begin

text \<open>A use of a connection whose effect on the rows is known.\<close>

lemma use_conn:
  assumes "db_ok B fm fs fe db" "\<And>c w. rows w = rows (db_world db) \<Longrightarrow> P (fst (use c w)) (snd (use c w))"
  shows "\<exists>r p w. with_conn B use db = Some (Some r, db\<lparr>db_pool := p, db_world := w\<rparr>) \<and> P r w \<and> db_ok B fm fs fe (db\<lparr>db_pool := p, db_world := w\<rparr>)"
proof -
  from with_conn_ready [of B db use, OF pings(1)] assms(1) obtain c w1 p where
    c: "w1 = snd (mysql_ping (db_mysql B) c (db_world db))"
      "with_conn B use db = Some (Some (fst (use c w1)), db\<lparr>db_pool := p, db_world := snd (use c w1)\<rparr>)"
      "conn_ready B (db\<lparr>db_pool := p, db_world := snd (use c w1)\<rparr>)" by (auto simp: db_ok_def)
  from c(1) pings(2) have "rows w1 = rows (db_world db)" by simp
  from assms(2) [OF this, of c] c(2,3) assms(1) show ?thesis by (fastforce simp: db_ok_def)
qed

lemma escape_ok:
  assumes "db_ok B fm fs fe db" "CHR 0x00 \<notin> set s"
  shows "\<exists>c db'. mysql_escape B s db = Some (mysql_real_escape_string (db_mysql B) c s, db') \<and> db_ok B fm fs fe db' \<and> rows (db_world db') = rows (db_world db)"
proof -
  have "c_string s = s" using assms(2) by (auto simp: c_string_def takeWhile_eq_all_conv)
  with use_conn [OF assms(1), of "\<lambda>r w. (\<exists>c. r = mysql_real_escape_string (db_mysql B) c s) \<and> rows w = rows (db_world db)"
    "\<lambda>c w. (mysql_real_escape_string (db_mysql B) c (c_string s), w)"]
  show ?thesis by (force simp: mysql_escape_def)
qed

lemma update_ok:
  assumes "db_ok B fm fs fe db" "c_string sql = sql" "\<And>c w. rows w = rows (db_world db) \<Longrightarrow> rows (snd (mysql_query (db_mysql B) c sql w)) = rs"
  shows "\<exists>db'. mysql_update B sql db = Some db' \<and> db_ok B fm fs fe db' \<and> rows (db_world db') = rs"
  using use_conn [OF assms(1), of "\<lambda>r w. rows w = rs" "\<lambda>c. mysql_query (db_mysql B) c (c_string sql)"] assms(2,3)
  by (force simp: mysql_update_def)

lemma mis_add_ok:
  assumes "db_ok B fm fs fe db" "kept fits m r"
  shows "\<exists>db'. dlr_mis_add (Some (mysql_handles B)) m db = Some db' \<and> db_ok B fm fs fe db' \<and> rows (db_world db') = rows (db_world db) @ [r]"
proof -
  obtain v where v: "mis_row m = Some v" "plain_values v" "r = value_list v" "fits r" using assms(2) by (auto simp: kept_def)
  obtain content where content: "mi_msg_content m = Some content" "mv_content v = c_string content"
    using v(1) by (auto simp: mis_row_def split: Option.bind_splits)
  have nul: "CHR 0x00 \<notin> set (mv_content v)" using content(2) c_string_no_nul by simp
  obtain c db1 where e: "mysql_escape B (mv_content v) db = Some (mysql_real_escape_string (db_mysql B) c (mv_content v), db1)"
    "db_ok B fm fs fe db1" "rows (db_world db1) = rows (db_world db)" using escape_ok [OF assms(1) nul] by blast
  let ?v = "v\<lparr>mv_content := mysql_real_escape_string (db_mysql B) c (mv_content v)\<rparr>"
  have lits: "literals None (mis_sql fm ?v) = Some r" unfolding v(3) by (rule mis_sql_literals [OF escaping names(1) v(2) nul])
  have "plain_values ?v" using v(2) by (simp add: plain_values_def)
  then have cs: "c_string (mis_sql fm ?v) = mis_sql fm ?v" using escaping by (intro c_string_mis_sql) (simp_all add: escapes_def)
  obtain db2 where u: "mysql_update B (mis_sql fm ?v) db1 = Some db2" "db_ok B fm fs fe db2" "rows (db_world db2) = rows (db_world db) @ [r]"
    using update_ok [OF e(2) cs, of "rows (db_world db) @ [r]"] insertion [OF lits v(4)] e(3) by auto
  have "dlr_mysql_mis_add B m db = mysql_update B (mis_sql fm ?v) db1"
    using assms(1) v(1) content e(1) lengths(1)
    by (auto simp: dlr_mysql_mis_add_def table_name_def db_ok_def cstr mis_row_def split: Option.bind_splits)
  with u show ?thesis by (simp add: dlr_mis_add_def mysql_handles_def)
qed

lemma status_add_ok:
  assumes "db_ok B fm fs fe db" "plain_status m"
  shows "\<exists>db'. dlr_status_add (Some (mysql_handles B)) m db = Some db' \<and> db_ok B fm fs fe db' \<and> rows (db_world db') = rows (db_world db)"
proof -
  obtain a b d where m: "ms_smsc_id m = Some a" "ms_smsc_msg_id m = Some b" "ms_dest_addr m = Some d" "plain a" "plain b" "plain d"
    using assms(2) by (auto simp: plain_status_def)
  note s = status_sql_literals [OF names(2) m(4-6), of "ms_deliver_status m"]
  from update_ok [OF assms(1) s(2), of "rows (db_world db)"] status_keeps [OF s(1)] m assms(1) lengths(2) show ?thesis
    by (auto simp: dlr_status_add_def mysql_handles_def dlr_mysql_status_add_def table_name_def cstr plain_c_string db_ok_def)
qed

lemma esme_add_ok:
  assumes "db_ok B fm fs fe db" "plain_request m"
  shows "\<exists>db'. dlr_smpp_esme (Some (mysql_handles B)) m db = Some db' \<and> db_ok B fm fs fe db' \<and> rows (db_world db') = rows (db_world db)"
proof -
  obtain v where v: "esme_row m = Some v" "plain_esme v" using assms(2) by (auto simp: plain_request_def)
  obtain content where content: "me_msg_content m = Some content" "ev_content v = c_string content"
    using v(1) by (auto simp: esme_row_def split: Option.bind_splits)
  have nul: "CHR 0x00 \<notin> set (ev_content v)" using content(2) c_string_no_nul by simp
  obtain c db1 where e: "mysql_escape B (ev_content v) db = Some (mysql_real_escape_string (db_mysql B) c (ev_content v), db1)"
    "db_ok B fm fs fe db1" "rows (db_world db1) = rows (db_world db)" using escape_ok [OF assms(1) nul] by blast
  let ?v = "v\<lparr>ev_content := mysql_real_escape_string (db_mysql B) c (ev_content v)\<rparr>"
  note s = esme_sql_literals [OF escaping names(3) v(2) nul, of c]
  obtain us where us: "literals None (esme_sql fe ?v) = Some us" using s(1) by blast
  obtain db2 where u: "mysql_update B (esme_sql fe ?v) db1 = Some db2" "db_ok B fm fs fe db2" "rows (db_world db2) = rows (db_world db)"
    using update_ok [OF e(2) s(2), of "rows (db_world db)"] esme_keeps [OF us] e(3) by auto
  have "dlr_smpp_esme_add B m db = mysql_update B (esme_sql fe ?v) db1"
    using assms(1) v(1) content e(1) lengths(3)
    by (auto simp: dlr_smpp_esme_add_def table_name_def db_ok_def cstr esme_row_def split: Option.bind_splits)
  with u show ?thesis by (simp add: dlr_smpp_esme_def mysql_handles_def)
qed

lemma select_ok:
  assumes "db_ok B fm fs fe db" "plain k"
  shows "\<exists>rs db'. mysql_select B (get_sql fm k) db = Some (Some rs, db') \<and> db_ok B fm fs fe db' \<and> rows (db_world db') = rows (db_world db) \<and>
    set rs = (\<lambda>r. [Some (r ! 0), Some (r ! 1)]) ` {r \<in> set (rows (db_world db)). same (r ! 3) k}"
proof -
  note s = get_sql_literals [OF names(1) assms(2)]
  let ?use = "\<lambda>c w. case mysql_query (db_mysql B) c (c_string (get_sql fm k)) w of
    (state, w1) \<Rightarrow> if state \<noteq> 0 then (None, w1) else mysql_store_result (db_mysql B) c w1"
  let ?P = "\<lambda>r w'. (\<exists>rs. r = Some rs \<and> set rs = (\<lambda>r. [Some (r ! 0), Some (r ! 1)]) ` {r \<in> set (rows (db_world db)). same (r ! 3) k}) \<and>
    rows w' = rows (db_world db)"
  have "?P (fst (?use c w)) (snd (?use c w))" if "rows w = rows (db_world db)" for c w
    using selection [OF s(1), of c w] that s(2) by auto
  from use_conn [OF assms(1), of ?P ?use, OF this] show ?thesis by (force simp: mysql_select_def)
qed

lemma get_rows:
  assumes "db_ok B fm fs fe db" "mysql_select B (get_sql fm k) db = Some (Some rs, db')" "plain k"
  shows "dlr_find (Some (mysql_handles B)) d (Some k) db =
    (case rs of
       [] \<Rightarrow> Some (not_found (Some k) d, db')
     | r # _ \<Rightarrow>
         (case r of
            Some a # Some b # _ \<Rightarrow>
              Some ((not_found (Some k) d)\<lparr>gv_result := 1, gv_account_name := Some (c_string a), gv_account_msg_id := Some (c_string b)\<rparr>, db')
          | _ \<Rightarrow> None))"
  using assms lengths(1)
  by (auto simp: dlr_find_def mysql_handles_def dlr_mysql_get_def table_name_def db_ok_def cstr plain_c_string
    split: list.splits option.splits)

lemma find_hit_ok:
  assumes "db_ok B fm fs fe db" "plain k" "r \<in> set (rows (db_world db))" "same (r ! 3) k"
  shows "\<exists>db' r'. dlr_find (Some (mysql_handles B)) d (Some k) db =
    Some ((not_found (Some k) d)\<lparr>gv_result := 1, gv_account_name := Some (c_string (r' ! 0)), gv_account_msg_id := Some (c_string (r' ! 1))\<rparr>, db') \<and>
    r' \<in> set (rows (db_world db)) \<and> same (r' ! 3) k \<and> db_ok B fm fs fe db' \<and> rows (db_world db') = rows (db_world db)"
proof -
  obtain rs db' where s: "mysql_select B (get_sql fm k) db = Some (Some rs, db')" "db_ok B fm fs fe db'" "rows (db_world db') = rows (db_world db)"
    "set rs = (\<lambda>r. [Some (r ! 0), Some (r ! 1)]) ` {r \<in> set (rows (db_world db)). same (r ! 3) k}"
    using select_ok [OF assms(1,2)] by blast
  from s(4) assms(3,4) have "rs \<noteq> []" by (cases rs) auto
  then have "hd rs \<in> set rs" by simp
  with s(4) obtain r' where r': "hd rs = [Some (r' ! 0), Some (r' ! 1)]" "r' \<in> set (rows (db_world db))" "same (r' ! 3) k" by auto
  with \<open>rs \<noteq> []\<close> get_rows [OF assms(1) s(1) assms(2), of d] s(2,3) show ?thesis by (cases rs) auto
qed

lemma find_miss_ok:
  assumes "db_ok B fm fs fe db" "plain k" "\<And>r. r \<in> set (rows (db_world db)) \<Longrightarrow> \<not> same (r ! 3) k"
  shows "\<exists>db'. dlr_find (Some (mysql_handles B)) d (Some k) db = Some (not_found (Some k) d, db') \<and> db_ok B fm fs fe db' \<and>
    rows (db_world db') = rows (db_world db)"
proof -
  obtain rs db' where s: "mysql_select B (get_sql fm k) db = Some (Some rs, db')" "db_ok B fm fs fe db'" "rows (db_world db') = rows (db_world db)"
    "set rs = (\<lambda>r. [Some (r ! 0), Some (r ! 1)]) ` {r \<in> set (rows (db_world db)). same (r ! 3) k}"
    using select_ok [OF assms(1,2)] by blast
  from assms(3) have "{r \<in> set (rows (db_world db)). same (r ! 3) k} = {}" by blast
  with s(4) have "rs = []" by simp
  with get_rows [OF assms(1) s(1) assms(2), of d] s(2,3) show ?thesis by auto
qed

end

sublocale mysql_storage \<subseteq> receipts: receipt_store "Some (mysql_handles B)" "db_ok B fm fs fe" "\<lambda>db. rows (db_world db)" same "kept fits" plain_status plain_request
  by unfold_locales (use mis_add_ok status_add_ok esme_add_ok find_hit_ok find_miss_ok in blast)+

section \<open>A server in memory\<close>

text \<open>
  A server that keeps the rows of the MIS table and answers by reading the statements, with the names of
  \<^verbatim>\<open>smpp-dbbox.conf\<close> and the escapes that the manual lists.
\<close>

definition sql_escape_char :: "char \<Rightarrow> octstr" where
  "sql_escape_char c =
     (if c = CHR 0x00 then [CHR 0x5C, CHR ''0''] else if c = CHR 0x0A then [CHR 0x5C, CHR ''n'']
      else if c = CHR 0x0D then [CHR 0x5C, CHR ''r''] else if c = CHR 0x1A then [CHR 0x5C, CHR ''Z'']
      else if c = CHR 0x5C \<or> c = CHR 0x27 \<or> c = CHR 0x22 then [CHR 0x5C, c] else [c])"

definition conf_mis :: dlr_db_mis_fields where
  "conf_mis = \<lparr> fm_table = ''mis_table'', fm_account_name = ''ESMEAccName'', fm_account_msg_id = ''ESMEAccMsgId'', fm_smsc_id = ''SMSCId'',
     fm_smsc_msg_id = ''SMSCMsgId'', fm_submit_status = ''SubmittedStat'', fm_submit_time = ''SubmitTime'', fm_source_addr = ''SourceAddr'',
     fm_dest_addr = ''DestinationAddr'', fm_recv_time = ''RecvTime'', fm_msg_content = ''Content'', fm_udh = ''UDH'',
     fm_retry_value = ''RetryValue'', fm_Client_IP = ''Client_IP'' \<rparr>"

definition conf_status :: dlr_db_status_fields where
  "conf_status = \<lparr> fs_table = ''mis_status'', fs_smsc_id = ''SMSCId'', fs_smsc_msg_id = ''SMSCMsgId'', fs_dest_addr = ''DestinationAddr'',
     fs_deliver_status = ''DeliveredStat'', fs_deliver_time = ''DeliverTime'' \<rparr>"

definition conf_esme :: dlr_db_smpp_esme_fields where
  "conf_esme = \<lparr> fe_table = ''smpp_esme_table'', fe_account_name = ''ESMEAccName'', fe_account_msg_id = ''ESMEAccMsgId'',
     fe_source_addr = ''SourceAddr'', fe_dest_addr = ''DestinationAddr'', fe_submit_status = ''SubmittedStat'', fe_recv_time = ''RecvTime'',
     fe_msg_content = ''Content'', fe_udh = ''UDH'', fe_retry_value = ''RetryValue'', fe_dnd_flag = ''dnd'', fe_allowed_smsc = ''a'',
     fe_preferred_smsc = ''p'', fe_data_coding = ''data_coding'', fe_more_messages_to_send = ''more_messages_to_send'',
     fe_esm_class = ''esm_class'' \<rparr>"

definition memory_query :: "nat \<Rightarrow> octstr \<Rightarrow> octstr list list \<times> row list \<Rightarrow> int \<times> (octstr list list \<times> row list)" where
  "memory_query c sql w =
     (case literals None sql of
        None \<Rightarrow> (1, w)
      | Some vs \<Rightarrow>
          if take 23 sql = ''INSERT  INTO mis_table('' then (0, (fst w @ [vs], []))
          else if take 7 sql = ''SELECT '' \<and> vs \<noteq> []
          then (0, (fst w, map (\<lambda>r. [Some (r ! 0), Some (r ! 1)]) (filter (\<lambda>r. r ! 3 = hd vs) (fst w))))
          else (0, (fst w, [])))"

definition memory_server :: "(nat, octstr list list \<times> row list) mysql_api" where
  "memory_server = \<lparr> mysql_init = (\<lambda>w. (Some 1, w)), mysql_real_connect = (\<lambda>c h u p d n s w. (True, w)), mysql_close = (\<lambda>c w. w),
     mysql_ping = (\<lambda>c w. (0, w)), mysql_query = memory_query, mysql_store_result = (\<lambda>c w. (Some (snd w), w)),
     mysql_real_escape_string = (\<lambda>c s. concat (map sql_escape_char s)), mysql_affected_rows = (\<lambda>c w. 1) \<rparr>"

definition memory_env :: "(nat, octstr list list \<times> row list) db_env" where
  "memory_env = \<lparr> db_mysql = memory_server, octstr_get_cstr = map_option c_string, pool_rounds = 3 \<rparr>"

lemma escape_char_literal:
  "literals (Some a) (sql_escape_char c @ rest) = literals (Some (a @ [c])) rest"
  by (simp add: sql_escape_char_def sql_unescape_def)

lemma memory_escapes: "escapes memory_server"
proof -
  have "literals (Some a) (concat (map sql_escape_char s) @ CHR 0x27 # rest) = map_option ((#) (a @ s)) (literals None rest)"
    if "rest = [] \<or> hd rest \<noteq> CHR 0x27" for s rest a
    using that
  proof (induction s arbitrary: a)
    case Nil
    then show ?case by (auto split: list.splits)
  next
    case (Cons c s)
    then show ?case using escape_char_literal [of a c] by simp
  qed
  moreover have "CHR 0x00 \<notin> set (concat (map sql_escape_char s))" for s by (auto simp: sql_escape_char_def split: if_splits)
  ultimately show ?thesis by (simp add: escapes_def memory_server_def)
qed

lemmas conf_texts = conf_mis_def conf_status_def conf_esme_def c_string_def

lemma memory_insert: "literals None (mis_sql conf_mis v) = Some vs \<Longrightarrow> fst (snd (memory_query c (mis_sql conf_mis v) w)) = fst w @ [vs]"
  by (simp add: memory_query_def) (simp add: mis_sql_def conf_texts numeral_eq_Suc)

lemma memory_status:
  "literals None (status_sql conf_status a b d n) = Some us \<Longrightarrow> fst (snd (memory_query c (status_sql conf_status a b d n) w)) = fst w"
  by (simp add: memory_query_def) (simp add: status_sql_def conf_texts numeral_eq_Suc)

lemma memory_esme: "literals None (esme_sql conf_esme e) = Some us \<Longrightarrow> fst (snd (memory_query c (esme_sql conf_esme e) w)) = fst w"
  by (simp add: memory_query_def) (simp add: esme_sql_def conf_texts numeral_eq_Suc)

lemma memory_select:
  "literals None (get_sql conf_mis k) = Some [k'] \<Longrightarrow>
     memory_query c (get_sql conf_mis k) w = (0, (fst w, map (\<lambda>r. [Some (r ! 0), Some (r ! 1)]) (filter (\<lambda>r. r ! 3 = k') (fst w))))"
  by (simp add: memory_query_def) (simp add: get_sql_def conf_texts numeral_eq_Suc)

interpretation memory: mysql_storage memory_env conf_mis conf_status conf_esme fst "(=)" "\<lambda>_. True"
proof unfold_locales
  show "octstr_get_cstr memory_env (Some s) = Some (c_string s)" for s by (simp add: memory_env_def)
  show "fst (mysql_ping (db_mysql memory_env) c w) = 0" "fst (snd (mysql_ping (db_mysql memory_env) c w)) = fst w" for c w
    by (simp_all add: memory_env_def memory_server_def)
  show "escapes (db_mysql memory_env)" by (simp add: memory_env_def memory_escapes)
  show "list_all plain (columns conf_mis)" "list_all plain (status_columns conf_status)" "list_all plain (esme_columns conf_esme)"
    by code_simp+
  show "length (c_string (fm_table conf_mis)) < 50" "length (c_string (fs_table conf_status)) < 50" "length (c_string (fe_table conf_esme)) < 50"
    by code_simp+
qed (use memory_insert memory_status memory_esme memory_select in \<open>auto simp: memory_env_def memory_server_def\<close>)

section \<open>Properties\<close>


definition sample_mis :: insert_mis where
  "sample_mis = \<lparr> mi_account_name = Some ''acc'', mi_account_msg_id = Some ''7'', mi_smsc_id = Some ''max'', mi_smsc_msg_id = Some ''42'',
     mi_submit_status = -3, mi_source_addr = Some ''100'', mi_dest_addr = Some ''200'', mi_msg_content = Some [CHR ''a'', CHR 0x27, CHR 0x5C],
     mi_retry_value = 0, mi_udh = Some [], mi_req_time = Some ''t'', mi_ip = Some ''ip'', mi_esm_class = 0 \<rparr>"

definition sample_values :: mis_values where
  "sample_values = the (mis_row sample_mis)"

lemma sample_row: "mis_row sample_mis = Some sample_values" "plain_values sample_values"
  by code_simp+


text \<open>The other strings are not escaped: with a quote in the source address, the server reads other values in the columns that follow.\<close>

definition quoted_mis :: insert_mis where
  "quoted_mis = sample_mis\<lparr>mi_source_addr := Some [CHR ''1'', CHR 0x27, CHR '','', CHR 0x27, CHR ''2''], mi_msg_content := Some ''hi''\<rparr>"

theorem mis_statement_unescaped:
  "map_option (\<lambda>v. (mv_dest_addr v, literals None (mis_sql conf_mis v))) (mis_row quoted_mis) =
     Some (''200'', Some [''acc'', ''7'', ''max'', ''42'', ''-3'', ''1'', ''2'', ''200'', ''hi'', ''0'', [], ''t'', ''ip''])"
  by code_simp

text \<open>The directives without which the process ends when it starts.\<close>

lemma directive_SomeD: "directive E grp name = Some v \<Longrightarrow> map_of (grp_vars grp) name = Some v"
  by (auto simp: directive_def cfg_get_def split: Option.bind_splits option.splits if_splits)

definition esme_directives :: "octstr list" where
  "esme_directives = [''id'', ''table'', ''field-EsmeAccountName'', ''field-EsmeMsgId'', ''field-SubmitStat'', ''field-SourceAddr'', ''field-DestAddr'',
     ''field-MsgContent'', ''field-UDH'', ''field-DatetimeRecv'', ''field-RetryValue'', ''allowed_smsc'', ''preferred_smsc'', ''field-dnd-flag'',
     ''field-data-coding'', ''field-esm-class'', ''field-more-messages-to-send'']"

definition mis_directives :: "octstr list" where
  "mis_directives = [''id'', ''table'', ''field-EsmeAccountName'', ''field-EsmeMsgId'', ''field-SmscId'', ''field-SmscMsgId'', ''field-SubmitStat'',
     ''field-SourceAddr'', ''field-DestAddr'', ''field-DatetimeSubmit'', ''field-MsgContent'', ''field-UDH'', ''field-DatetimeRecv'',
     ''field-RetryValue'', ''field-client-ip'']"

lemma esme_fields_directives:
  assumes "directive E grp ''id'' = Some i" "dlr_db_fields_create_smpp_esme E grp = Some f"
  shows "set esme_directives \<subseteq> dom (map_of (grp_vars grp))"
  using assms
  by (auto simp: dlr_db_fields_create_smpp_esme_def esme_directives_def dom_def dest!: directive_SomeD split: Option.bind_splits)

lemma mis_fields_directives:
  assumes "directive E grp ''id'' = Some i" "dlr_db_fields_create_mis E grp = Some f"
  shows "set mis_directives \<subseteq> dom (map_of (grp_vars grp))"
  using assms
  by (auto simp: dlr_db_fields_create_mis_def mis_directives_def dom_def dest!: directive_SomeD split: Option.bind_splits)

lemma find_connection_SomeD:
  "find_connection E X i grps = Some g \<Longrightarrow> g \<in> set grps \<and> (\<exists>s. map_of (grp_vars g) ''id'' = Some s \<and> octstr_compare X s i = 0)"
  by (induction grps) (auto simp: cfg_get_def split: Option.bind_splits option.splits if_splits)

text \<open>
  The process starts only if the storage is \<^verbatim>\<open>mysql\<close>, the groups of the tables have all their directives, and a connection group has
  the id that the group of the ESME table names; it then has at least one connection.
\<close>

theorem dlr_init_requires:
  assumes X: "octstr_spec X" and i: "dlr_init E X B c w = Some (h, db)"
  shows "\<exists>core mis esme conn ident. map_of (single_groups c) ''core'' = Some core \<and> map_of (grp_vars core) ''dlr-storage'' = Some ''mysql'' \<and>
    map_of (single_groups c) ''dlr-db-mis'' = Some mis \<and> set mis_directives \<subseteq> dom (map_of (grp_vars mis)) \<and>
    map_of (single_groups c) ''dlr-db-smpp-esme'' = Some esme \<and> set esme_directives \<subseteq> dom (map_of (grp_vars esme)) \<and>
    conn \<in> set (the (map_of (multi_groups c) ''mysql-connection'')) \<and> map_of (grp_vars esme) ''id'' = Some ident \<and>
    map_of (grp_vars conn) ''id'' = Some ident \<and> h = mysql_handles B \<and> pool_inv (db_pool db) {#} \<and> pool_conns (db_pool db) \<noteq> []"
proof -
  from i X obtain core where core: "map_of (single_groups c) ''core'' = Some core" "map_of (grp_vars core) ''dlr-storage'' = Some ''mysql''"
      "dlr_init_mysql E X B c w = Some db" "h = mysql_handles B"
    by (auto simp: dlr_init_def cfg_get_single_group_def cfg_get_def gw_simps split: Option.bind_splits option.splits if_splits)
  from core(3) obtain mis i2 fm esme ident fe grps conn conf n p w1 where
    m: "cfg_get_single_group c ''dlr-db-mis'' = Some mis" "directive E mis ''id'' = Some i2" "dlr_db_fields_create_mis E mis = Some fm" and
    e: "cfg_get_single_group c ''dlr-db-smpp-esme'' = Some esme" "directive E esme ''id'' = Some ident"
      "dlr_db_fields_create_smpp_esme E esme = Some fe" and
    g: "cfg_get_multi_group c ''mysql-connection'' = Some grps" "find_connection E X ident grps = Some conn" and
    p: "dbpool_create (Some (mysql_ops (db_mysql B) (Some conf))) True n w = Some (Some p, w1)" "dbpool_conn_count p \<noteq> 0" "db_pool db = p"
    unfolding dlr_init_mysql_def Let_def by (auto split: Option.bind_splits if_splits)
  have "pool_inv p {#}" by (rule dbpool_create_inv [OF p(1)])
  moreover from find_connection_SomeD [OF g(2)] X have "conn \<in> set grps" "map_of (grp_vars conn) ''id'' = Some ident" by (auto simp: gw_simps)
  ultimately show ?thesis
    using core(1,2,4) m(1) mis_fields_directives [OF m(2,3)] e(1) esme_fields_directives [OF e(2,3)] g(1) p(2,3) directive_SomeD [OF e(2)]
    by (auto simp: cfg_get_single_group_def cfg_get_multi_group_def dbpool_conn_count_def)
qed

text \<open>The groups of \<^verbatim>\<open>smpp-dbbox.conf\<close> that the storage reads; the first argument is added to the group of the ESME table.\<close>

definition named_group :: "octstr \<Rightarrow> (octstr \<times> octstr) list \<Rightarrow> octstr \<times> cfg_group" where
  "named_group name vars = (name, \<lparr> grp_name = Some name, grp_vars = (''group'', name) # vars, grp_configfile = None \<rparr>)"

definition dbbox_conf :: "(octstr \<times> octstr) list \<Rightarrow> cfg" where
  "dbbox_conf extra = \<lparr> cfg_filename = ''smpp-dbbox.conf'',
     single_groups = [
       named_group ''core'' [(''dlr-storage'', ''mysql''), (''dbbox-port'', ''20000''), (''log-interval'', ''60'')],
       named_group ''dlr-db'' [(''id'', ''mydlr''), (''table'', ''dlr_del''), (''field-EsmeAccountName'', ''AccountName''),
         (''field-EsmeMsgId'', ''AccountMsgId''), (''field-SmscId'', ''SMSCId''), (''field-SmscMsgId'', ''SMSCMsgId''),
         (''field-DatetimeSubmit'', ''DatetimeSubmit'')],
       named_group ''dlr-db-mis'' [(''id'', ''mydlr''), (''table'', ''mis_table''), (''field-EsmeAccountName'', ''ESMEAccName''),
         (''field-EsmeMsgId'', ''ESMEAccMsgId''), (''field-SmscId'', ''SMSCId''), (''field-SmscMsgId'', ''SMSCMsgId''),
         (''field-SubmitStat'', ''SubmittedStat''), (''field-DatetimeRecv'', ''RecvTime''), (''field-DatetimeSubmit'', ''SubmitTime''),
         (''field-SourceAddr'', ''SourceAddr''), (''field-DestAddr'', ''DestinationAddr''), (''field-MsgContent'', ''Content''),
         (''field-UDH'', ''UDH''), (''field-RetryValue'', ''RetryValue''), (''field-client-ip'', ''Client_IP'')],
       named_group ''dlr-db-smpp-esme'' ([(''id'', ''mydlr''), (''table'', ''smpp_esme_table''), (''field-EsmeAccountName'', ''ESMEAccName''),
         (''field-EsmeMsgId'', ''ESMEAccMsgId''), (''field-SubmitStat'', ''SubmittedStat''), (''field-DatetimeRecv'', ''RecvTime''),
         (''field-SourceAddr'', ''SourceAddr''), (''field-DestAddr'', ''DestinationAddr''), (''field-MsgContent'', ''Content''),
         (''field-UDH'', ''UDH''), (''field-RetryValue'', ''RetryValue'')] @ extra),
       named_group ''dlr-db-status'' [(''id'', ''mydlr''), (''table'', ''mis_status''), (''field-SmscId'', ''SMSCId''),
         (''field-SmscMsgId'', ''SMSCMsgId''), (''field-DestAddr'', ''DestinationAddr''), (''field-DelieverStat'', ''DeliveredStat''),
         (''field-DatetimeDeliver'', ''DeliverTime'')]],
     multi_groups = [(''mysql-connection'', [snd (named_group ''mysql-connection'' [(''id'', ''mydlr''), (''host'', ''127.0.0.1''),
       (''username'', ''root''), (''password'', ''x''), (''database'', ''Fonada_Smpp''), (''max-connections'', ''1'')])])] \<rparr>"

definition missing_directives :: "(octstr \<times> octstr) list" where
  "missing_directives = [(''allowed_smsc'', ''a''), (''preferred_smsc'', ''p''), (''field-dnd-flag'', ''dnd''), (''field-data-coding'', ''data_coding''),
     (''field-esm-class'', ''esm_class''), (''field-more-messages-to-send'', ''more_messages_to_send'')]"

definition started :: "(nat, octstr list list \<times> row list) database" where
  "started = \<lparr>
     db_conf = \<lparr> my_host = ''127.0.0.1'', my_port = 0, my_username = ''root'', my_password = ''x'', my_database = ''Fonada_Smpp'', my_socket = None \<rparr>,
     db_pool = \<lparr> pool_conns = [\<lparr> pc_conn = Some 1 \<rparr>], max_size = 1, curr_size = 1 \<rparr>, db_world = ([], []),
     fields_dlr = \<lparr> fd_table = ''dlr_del'', fd_account_name = ''AccountName'', fd_account_msg_id = ''AccountMsgId'', fd_smsc_id = ''SMSCId'',
       fd_smsc_msg_id = ''SMSCMsgId'', fd_msg_submit_time = ''DatetimeSubmit'' \<rparr>,
     fields_mis = conf_mis, fields_status = conf_status, fields_smpp_esme = conf_esme \<rparr>"

lemma conf_starts:
  "dlr_init sample_cfg_env octstr_ref memory_env (dbbox_conf missing_directives) ([], []) = Some (mysql_handles memory_env, started)"
proof -
  have "dlr_init_mysql sample_cfg_env octstr_ref memory_env (dbbox_conf missing_directives) ([], []) = Some started" by code_simp
  moreover have "Option.bind (cfg_get_single_group (dbbox_conf missing_directives) ''core'') (\<lambda>grp. cfg_get sample_cfg_env grp ''dlr-storage'') = Some (Some ''mysql'')"
    by code_simp
  then obtain grp where "cfg_get_single_group (dbbox_conf missing_directives) ''core'' = Some grp" "cfg_get sample_cfg_env grp ''dlr-storage'' = Some (Some ''mysql'')"
    by (auto simp: bind_eq_Some_conv)
  ultimately show ?thesis by (simp add: dlr_init_def octstr_compare_spec)
qed

text \<open>The file as it is in the repository lacks six directives of that group: with it, the process ends at once.\<close>

theorem dlr_init_shipped: "dlr_init sample_cfg_env octstr_ref memory_env (dbbox_conf []) ([], []) = None"
  by code_simp

theorem dlr_init_requires_witness:
  "\<exists>mis conn. map_of (single_groups (dbbox_conf missing_directives)) ''dlr-db-mis'' = Some mis \<and> set mis_directives \<subseteq> dom (map_of (grp_vars mis)) \<and>
     conn \<in> set (the (map_of (multi_groups (dbbox_conf missing_directives)) ''mysql-connection'')) \<and> pool_conns (db_pool started) \<noteq> []"
  using dlr_init_requires [OF octstr_ref_spec conf_starts] by blast

lemma started_ok: "db_ok memory_env conf_mis conf_status conf_esme started" "db_world started = ([], [])"
  by (simp_all add: db_ok_def conn_ready_def started_def memory_env_def)

end
