(* ===== verification/Dbbox.thy ===== *)
theory Dbbox
  imports Dlr Charset Counter
begin

text \<open>
  The database process: \<^verbatim>\<open>handle_request\<close> of \<^verbatim>\<open>smpp-dbbox/smpp_dbbox.c\<close>, which the threads of the connected processes call for every message, and the
  thread that forwards the messages released by the do-not-disturb check, \<^verbatim>\<open>msg_process\<close> and \<^verbatim>\<open>dnd_deliver_sm_generate\<close> of
  \<^verbatim>\<open>smpp-dbbox/dlr_mysql.c\<close>.  \<open>None\<close> means that the process ends, waits forever, or reads memory it must not read.
\<close>

unbundle bit_operations_syntax

section \<open>State\<close>

text \<open>A connected process: the name it registered with, and the messages waiting to be sent to it.\<close>

record process_client =
  conn_id :: "octstr option"
  send_list :: "values_got list"

record submit_msg =
  sb_req_time :: octstr
  sb_account_name :: octstr
  sb_account_msg_id :: octstr
  sb_destination_addr :: octstr
  sb_source_addr :: octstr
  sb_data_coding :: int
  sb_esm_class :: int
  sb_more_messages_to_send :: int
  sb_content :: octstr
  sb_udh :: octstr

datatype conn_msg =
    Admin int "octstr option"
  | Values_get "octstr option" "octstr option"
  | Insert_mis insert_mis
  | Insert_status insert_status
  | Smpp_esme smpp_esme
  | Other_msg

text \<open>
  The globals: whether the program status is \<^verbatim>\<open>PROGRAM_RUNNING\<close>, the connected processes, which of them is the ESME server, the two static counters of
  \<^verbatim>\<open>handle_request\<close>, the number of \<^verbatim>\<open>msg_process\<close> threads that were started, the counter of generated receipts, the list of the connection
  to the SMSC process, and the storage with its table of functions.
\<close>

record 's dbbox =
  bx_running :: bool
  bx_clients :: "process_client list"
  esme_process_client :: "nat option"
  total_inserts :: int
  total_selects :: int
  msg_threads :: nat
  dnd_msg_counter :: counter
  dbdata_list :: "submit_msg list"
  bx_handles :: "'s dlr_storage option"
  bx_store :: 's

text \<open>
  What the process calls outside the repository: the string libraries, the separation of a user data header from a text, which gives its
  result code, the header and the text, the conversion from hexadecimal digits, the packing of a PDU, the clock, and the value of a constant.
\<close>

record dbbox_env =
  bx_octstr :: octstr_ops
  bx_edit :: octstr_edit
  get_cstr :: "octstr option \<Rightarrow> octstr option"
  binary_msg_to_ascii :: "octstr option \<Rightarrow> int \<times> octstr option \<times> octstr option"
  binary_msg_to_ascii_hindi :: "octstr option \<Rightarrow> int \<times> octstr option \<times> octstr option"
  octstr_hex_to_binary :: "octstr \<Rightarrow> octstr"
  pack_deliver_sm :: "ulong \<Rightarrow> octstr \<Rightarrow> octstr \<Rightarrow> octstr \<Rightarrow> octstr option"
  bx_current_datetime :: octstr
  ESM_CLASS_SUBMIT_UDH_INDICATOR :: int
  thread_starts :: bool

section \<open>Requests\<close>

definition send_to_client :: "nat \<Rightarrow> values_got \<Rightarrow> 's dbbox \<Rightarrow> 's dbbox" where
  "send_to_client k v bx =
     bx\<lparr>bx_clients := (bx_clients bx)[k := (bx_clients bx ! k)\<lparr>send_list := send_list (bx_clients bx ! k) @ [v]\<rparr>]\<rparr>"

definition handle_admin :: "dbbox_env \<Rightarrow> nat \<Rightarrow> int \<Rightarrow> octstr option \<Rightarrow> 's dbbox \<Rightarrow> 's dbbox option" where
  "handle_admin E k command ident bx =
     (if command = 1
      then (case ident of
              None \<Rightarrow> None
            | Some i \<Rightarrow> do {
                s \<leftarrow> get_cstr E ident;
                let bx1 = bx\<lparr>bx_clients := (bx_clients bx)[k := (bx_clients bx ! k)\<lparr>conn_id := Some i\<rparr>]\<rparr>;
                Some (if octstr_compare (bx_octstr E) i ''smpp-esme'' = 0 \<and> esme_process_client bx = None
                      then bx1\<lparr>esme_process_client := Some k\<rparr> else bx1) })
      else if command = 808 \<and> thread_starts E then Some (bx\<lparr>msg_threads := Suc (msg_threads bx)\<rparr>)
      else Some bx)"

definition handle_values_get :: "dbbox_env \<Rightarrow> nat \<Rightarrow> octstr option \<Rightarrow> octstr option \<Rightarrow> 's dbbox \<Rightarrow> 's dbbox option" where
  "handle_values_get E k smsc_msg_id dest_addr bx = do {
     s \<leftarrow> get_cstr E smsc_msg_id;
     let bx1 = bx\<lparr>total_selects := total_selects bx + 1\<rparr>;
     (if smsc_msg_id = None \<or> dest_addr = None then Some bx1
      else do {
        (v, st) \<leftarrow> dlr_find (bx_handles bx1) dest_addr smsc_msg_id (bx_store bx1);
        Some (send_to_client k v (bx1\<lparr>bx_store := st\<rparr>)) }) }"

text \<open>The text of a message before it is stored: the header apart, and in ISO Latin 1.\<close>

definition split_mis :: "dbbox_env \<Rightarrow> insert_mis \<Rightarrow> insert_mis option" where
  "split_mis E m =
     (if mi_esm_class m AND ESM_CLASS_SUBMIT_UDH_INDICATOR E \<noteq> 0
      then (case binary_msg_to_ascii E (mi_msg_content m) of
              (ret, udh, content) \<Rightarrow>
                (if ret = 0
                 then do { a \<leftarrow> get_cstr E udh; b \<leftarrow> get_cstr E content; Some (m\<lparr>mi_udh := udh, mi_msg_content := content\<rparr>) }
                 else Some (m\<lparr>mi_udh := udh, mi_msg_content := content\<rparr>)))
      else Some (m\<lparr>mi_udh := Some []\<rparr>))"

definition mis_to_latin1 :: "dbbox_env \<Rightarrow> insert_mis \<Rightarrow> insert_mis option" where
  "mis_to_latin1 E m =
     (case mi_msg_content m of
        None \<Rightarrow> Some m
      | Some t \<Rightarrow> map_option (\<lambda>t'. m\<lparr>mi_msg_content := Some t'\<rparr>) (charset_gsm_to_latin1 (bx_octstr E) (bx_edit E) t))"

definition handle_insert_mis :: "dbbox_env \<Rightarrow> insert_mis \<Rightarrow> 's dbbox \<Rightarrow> 's dbbox option" where
  "handle_insert_mis E m bx = do {
     a \<leftarrow> get_cstr E (mi_smsc_msg_id m);
     b \<leftarrow> get_cstr E (mi_account_name m);
     m1 \<leftarrow> split_mis E m;
     m2 \<leftarrow> mis_to_latin1 E m1;
     st \<leftarrow> dlr_mis_add (bx_handles bx) m2 (bx_store bx);
     Some (bx\<lparr>bx_store := st, total_inserts := total_inserts bx + 1\<rparr>) }"

text \<open>
  The answer to a status: it goes to the ESME server, with the packed receipt when that server has registered, and is dropped when there
  is none.
\<close>

definition report_status :: "octstr option \<Rightarrow> values_got \<Rightarrow> 's dbbox \<Rightarrow> 's dbbox" where
  "report_status pdu v bx =
     (case esme_process_client bx of
        None \<Rightarrow> bx
      | Some k \<Rightarrow> send_to_client k (if conn_id (bx_clients bx ! k) \<noteq> None then v\<lparr>gv_pdu := pdu\<rparr> else v) bx)"

definition handle_insert_status :: "dbbox_env \<Rightarrow> insert_status \<Rightarrow> 's dbbox \<Rightarrow> 's dbbox option" where
  "handle_insert_status E m bx = do {
     a \<leftarrow> get_cstr E (ms_smsc_msg_id m);
     b \<leftarrow> get_cstr E (ms_dest_addr m);
     st \<leftarrow> dlr_status_add (bx_handles bx) m (bx_store bx);
     let bx1 = bx\<lparr>bx_store := st\<rparr>;
     (if ms_smsc_msg_id m = None \<or> ms_dest_addr m = None then Some bx1
      else do {
        (v, st1) \<leftarrow> dlr_find (bx_handles bx1) (ms_dest_addr m) (ms_smsc_msg_id m) (bx_store bx1);
        Some (report_status (ms_pdu m) v (bx1\<lparr>bx_store := st1\<rparr>)) }) }"

definition split_esme :: "dbbox_env \<Rightarrow> smpp_esme \<Rightarrow> smpp_esme option" where
  "split_esme E m =
     (if me_esm_class m AND ESM_CLASS_SUBMIT_UDH_INDICATOR E \<noteq> 0
      then (case (if me_data_coding m \<noteq> 0 then binary_msg_to_ascii_hindi E (me_msg_content m) else binary_msg_to_ascii E (me_msg_content m)) of
              (ret, udh, content) \<Rightarrow>
                (if ret = 0
                 then do { a \<leftarrow> get_cstr E udh; b \<leftarrow> get_cstr E content; Some (m\<lparr>me_udh := udh, me_msg_content := content\<rparr>) }
                 else Some (m\<lparr>me_udh := udh, me_msg_content := content\<rparr>)))
      else Some (m\<lparr>me_udh := Some []\<rparr>))"

definition handle_smpp_esme :: "dbbox_env \<Rightarrow> smpp_esme \<Rightarrow> 's dbbox \<Rightarrow> 's dbbox option" where
  "handle_smpp_esme E m bx = do {
     a \<leftarrow> get_cstr E (me_account_msg_id m);
     b \<leftarrow> get_cstr E (me_dest_addr m);
     m1 \<leftarrow> split_esme E m;
     st \<leftarrow> dlr_smpp_esme (bx_handles bx) m1 (bx_store bx);
     Some (bx\<lparr>bx_store := st\<rparr>) }"

text \<open>
  A request of the client with the given position.  While the program is not running, the message is freed and then read all the same.
\<close>

definition handle_request :: "dbbox_env \<Rightarrow> conn_msg \<Rightarrow> nat \<Rightarrow> 's dbbox \<Rightarrow> 's dbbox option" where
  "handle_request E msg k bx =
     (if \<not> bx_running bx then None
      else case msg of
        Admin command ident \<Rightarrow> handle_admin E k command ident bx
      | Values_get smsc_msg_id dest_addr \<Rightarrow> handle_values_get E k smsc_msg_id dest_addr bx
      | Insert_mis m \<Rightarrow> handle_insert_mis E m bx
      | Insert_status m \<Rightarrow> handle_insert_status E m bx
      | Smpp_esme m \<Rightarrow> handle_smpp_esme E m bx
      | Other_msg \<Rightarrow> Some bx)"

text \<open>Requests one after the other, each with the client it comes from.\<close>

fun handle_requests :: "dbbox_env \<Rightarrow> (conn_msg \<times> nat) list \<Rightarrow> 's dbbox \<Rightarrow> 's dbbox option" where
  "handle_requests E [] bx = Some bx"
| "handle_requests E ((msg, k) # reqs) bx = do { bx1 \<leftarrow> handle_request E msg k bx; handle_requests E reqs bx1 }"

section \<open>Messages after the do-not-disturb check\<close>

text \<open>A cell of a row as a C string: a missing one is a null pointer.\<close>

definition cell :: "row \<Rightarrow> nat \<Rightarrow> octstr option" where
  "cell r i = (if i < length r then map_option c_string (r ! i) else None)"

text \<open>
  The header of a part of a long message, from its digits: the digits are cut into pairs, each read as a decimal number, and six of them
  become characters.  An odd number of digits overruns the array of pairs, and fewer than six pairs are read past its end.
\<close>

fun pairs :: "octstr \<Rightarrow> octstr list" where
  "pairs (a # b # s) = [a, b] # pairs s"
| "pairs s = []"

definition udh_chars :: "octstr \<Rightarrow> octstr option" where
  "udh_chars udh =
     (if odd (length udh) \<or> length udh < 12 then None
      else Some (map (\<lambda>p. char_of (nat (atoi p mod 256))) (take 6 (pairs udh))))"

definition released_submit :: "dbbox_env \<Rightarrow> row \<Rightarrow> submit_msg option" where
  "released_submit E r = do {
     account_name \<leftarrow> cell r 0;
     account_msg_id \<leftarrow> cell r 1;
     destination_addr \<leftarrow> cell r 5;
     source_addr \<leftarrow> cell r 4;
     data_coding \<leftarrow> cell r 18;
     esm_class \<leftarrow> cell r 19;
     more_messages \<leftarrow> cell r 20;
     text \<leftarrow> cell r 13;
     udh \<leftarrow> cell r 12;
     let content = (if atoi data_coding \<noteq> 0 then octstr_hex_to_binary E text else text);
     header \<leftarrow> (if length udh \<noteq> 0 then udh_chars udh else Some []);
     Some \<lparr> sb_req_time = bx_current_datetime E, sb_account_name = account_name, sb_account_msg_id = account_msg_id,
       sb_destination_addr = destination_addr, sb_source_addr = source_addr, sb_data_coding = atoi data_coding,
       sb_esm_class = atoi esm_class, sb_more_messages_to_send = atoi more_messages, sb_content = header @ content, sb_udh = udh \<rparr> }"

text \<open>
  The receipt for a message that may not be delivered.  The id and the dates are copied into arrays of 30, 24 and 22 characters, and of the text
  at most 50 characters into an array of 50, without a NUL at its end when the text has that many.
\<close>

definition dnd_short_message :: "octstr \<Rightarrow> octstr \<Rightarrow> octstr \<Rightarrow> octstr \<Rightarrow> octstr" where
  "dnd_short_message ident submit_date done_date text =
     ''id:'' @ ident @ '' sub:'' @ ''001'' @ '' dlvrd:'' @ ''000'' @ '' submit date:'' @ submit_date @ '' done date:'' @ done_date @
     '' stat:'' @ ''NDNC_Fail'' @ '' err:'' @ ''003'' @ '' text:'' @ text"

definition dnd_deliver_sm_generate :: "dbbox_env \<Rightarrow> row \<Rightarrow> 's dbbox \<Rightarrow> 's dbbox option" where
  "dnd_deliver_sm_generate E r bx = do {
     ident \<leftarrow> cell r 1;
     submit_date \<leftarrow> cell r 16;
     done_date \<leftarrow> cell r 17;
     text \<leftarrow> cell r 13;
     source_addr \<leftarrow> cell r 4;
     destination_addr \<leftarrow> cell r 5;
     (if length ident < 30 \<and> length submit_date < 24 \<and> length done_date < 22 \<and> length text < 50
      then (case counter_increase (dnd_msg_counter bx) of
              (seq, counter) \<Rightarrow> do {
                let pdu = pack_deliver_sm E seq destination_addr source_addr (dnd_short_message ident submit_date done_date text);
                let m = \<lparr> ms_smsc_id = Some ''MAX'', ms_smsc_msg_id = Some ident, ms_dest_addr = Some destination_addr,
                  ms_deliver_status = 101, ms_pdu = pdu \<rparr>;
                st \<leftarrow> dlr_status_add (bx_handles bx) m (bx_store bx);
                (v, st1) \<leftarrow> dlr_find (bx_handles bx) (Some destination_addr) (Some ident) st;
                Some (report_status pdu v (bx\<lparr>dnd_msg_counter := counter, bx_store := st1\<rparr>)) })
      else None) }"

text \<open>The statements of \<^verbatim>\<open>msg_process\<close>.\<close>

definition process_sql :: octstr where
  "process_sql = ''SELECT ESMEAccName, ESMEAccMsgId, SMSCId, SMSCMsgId, SourceAddr, DestinationAddr, RecvTime, SubmittedStat, SubmitTime, DeliveredStat, DeliverTime, RetryValue, UDH, Content,Client_IP,dnd,DATE_FORMAT(RecvTime, '' @ sql_lit ''%y%m%d%H%i%s'' @ ''),DATE_FORMAT(now(), '' @ sql_lit ''%y%m%d%H%i%s'' @ ''),data_coding, esm_class, more_messages_to_send from process_table where read_flag=0 order by ESMEAccMsgId asc''"

definition blocked_sql :: "octstr \<Rightarrow> octstr \<Rightarrow> octstr \<Rightarrow> octstr \<Rightarrow> octstr \<Rightarrow> octstr \<Rightarrow> octstr \<Rightarrow> octstr \<Rightarrow> octstr" where
  "blocked_sql account_name ident source_addr dest_addr recv_time stat udh escaped =
     ''insert into mis_table(ESMEAccName, ESMEAccMsgId, SMSCId, SMSCMsgId, SourceAddr, DestinationAddr, RecvTime, SubmittedStat,SubmitTime,UDH, Content) values ('' @
     sql_lit account_name @ '','' @ sql_lit ident @ '','' @ sql_lit ''MAX'' @ '','' @ sql_lit ident @ '','' @ sql_lit source_addr @ '','' @
     sql_lit dest_addr @ '','' @ sql_lit recv_time @ '','' @ sql_lit stat @ '',now(),'' @ sql_lit udh @ '','' @ sql_lit escaped @ '')''"

definition read_sql :: "octstr \<Rightarrow> octstr" where
  "read_sql ident = ''update process_table set read_flag = 1 where ESMEAccMsgId = '' @ sql_lit ident"

definition blocked_row ::
    "dbbox_env \<Rightarrow> ('c, 'w) db_env \<Rightarrow> row \<Rightarrow> ('c, 'w) database dbbox \<Rightarrow> ('c, 'w) database dbbox option" where
  "blocked_row E B r bx = do {
     text \<leftarrow> cell r 13;
     (escaped, st) \<leftarrow> mysql_escape B text (bx_store bx);
     account_name \<leftarrow> cell r 0;
     ident \<leftarrow> cell r 1;
     source_addr \<leftarrow> cell r 4;
     dest_addr \<leftarrow> cell r 5;
     recv_time \<leftarrow> cell r 6;
     stat \<leftarrow> cell r 7;
     udh \<leftarrow> cell r 12;
     st1 \<leftarrow> mysql_update B (blocked_sql account_name ident source_addr dest_addr recv_time stat udh escaped) st;
     dnd_deliver_sm_generate E r (bx\<lparr>bx_store := st1\<rparr>) }"

definition process_row ::
    "dbbox_env \<Rightarrow> ('c, 'w) db_env \<Rightarrow> row \<Rightarrow> ('c, 'w) database dbbox \<Rightarrow> ('c, 'w) database dbbox option" where
  "process_row E B r bx = do {
     dnd \<leftarrow> cell r 15;
     bx1 \<leftarrow> (if atoi dnd = 0
            then map_option (\<lambda>m. bx\<lparr>dbdata_list := dbdata_list bx @ [m]\<rparr>) (released_submit E r)
            else blocked_row E B r bx);
     ident \<leftarrow> cell r 1;
     st \<leftarrow> mysql_update B (read_sql ident) (bx_store bx1);
     Some (bx1\<lparr>bx_store := st\<rparr>) }"

fun process_rows ::
    "dbbox_env \<Rightarrow> ('c, 'w) db_env \<Rightarrow> row list \<Rightarrow> ('c, 'w) database dbbox \<Rightarrow> ('c, 'w) database dbbox option" where
  "process_rows E B [] bx = Some bx"
| "process_rows E B (r # rs) bx = do { bx1 \<leftarrow> process_row E B r bx; process_rows E B rs bx1 }"

text \<open>One round of the loop of \<^verbatim>\<open>msg_process\<close>: the flag is false when the thread ends because the query failed.\<close>

definition msg_process_round ::
    "dbbox_env \<Rightarrow> ('c, 'w) db_env \<Rightarrow> ('c, 'w) database dbbox \<Rightarrow> (bool \<times> ('c, 'w) database dbbox) option" where
  "msg_process_round E B bx =
     (if esme_process_client bx = None then Some (True, bx)
      else do {
        (result, st) \<leftarrow> mysql_select B process_sql (bx_store bx);
        (case result of
           None \<Rightarrow> Some (False, bx\<lparr>bx_store := st\<rparr>)
         | Some rs \<Rightarrow> map_option (\<lambda>bx1. (True, bx1)) (process_rows E B rs (bx\<lparr>bx_store := st\<rparr>))) })"

section \<open>Requests are answered and recorded\<close>

text \<open>A process whose ESME server, when there is one, is a client with a name.\<close>

definition bx_inv :: "'s dlr_storage option \<Rightarrow> ('s \<Rightarrow> bool) \<Rightarrow> 's dbbox \<Rightarrow> bool" where
  "bx_inv handles ok bx \<longleftrightarrow> bx_running bx \<and> bx_handles bx = handles \<and> ok (bx_store bx) \<and>
     (\<forall>e. esme_process_client bx = Some e \<longrightarrow> e < length (bx_clients bx) \<and> conn_id (bx_clients bx ! e) \<noteq> None)"

text \<open>The message as it is stored, and the row for it.\<close>

definition mis_stored :: "dbbox_env \<Rightarrow> (insert_mis \<Rightarrow> octstr list \<Rightarrow> bool) \<Rightarrow> insert_mis \<Rightarrow> octstr list \<Rightarrow> bool" where
  "mis_stored E storable m r \<longleftrightarrow> mi_smsc_msg_id m \<noteq> None \<and> mi_account_name m \<noteq> None \<and>
     (\<exists>m2. Option.bind (split_mis E m) (mis_to_latin1 E) = Some m2 \<and> storable m2 r)"

text \<open>Requests with all their strings, and with strings that need no escaping; \<open>rs\<close> are the rows they add to the table.\<close>

definition request_ok ::
    "dbbox_env \<Rightarrow> (insert_mis \<Rightarrow> octstr list \<Rightarrow> bool) \<Rightarrow> (insert_status \<Rightarrow> bool) \<Rightarrow> (smpp_esme \<Rightarrow> bool) \<Rightarrow> conn_msg \<Rightarrow> octstr list list \<Rightarrow> bool" where
  "request_ok E storable acceptable recordable msg rs =
     (case msg of
        Admin command ident \<Rightarrow> rs = [] \<and> ident \<noteq> None
      | Values_get smsc_msg_id dest_addr \<Rightarrow> rs = [] \<and> dest_addr \<noteq> None \<and> (\<exists>k. smsc_msg_id = Some k \<and> plain k)
      | Insert_mis m \<Rightarrow> (\<exists>r. rs = [r] \<and> mis_stored E storable m r)
      | Insert_status m \<Rightarrow> rs = [] \<and> acceptable m \<and> ms_dest_addr m \<noteq> None \<and> (\<exists>k. ms_smsc_msg_id m = Some k \<and> plain k)
      | Smpp_esme m \<Rightarrow> rs = [] \<and> me_account_msg_id m \<noteq> None \<and> me_dest_addr m \<noteq> None \<and>
          (\<exists>m1. split_esme E m = Some m1 \<and> recordable m1)
      | Other_msg \<Rightarrow> rs = [])"

text \<open>How many answers a request puts into the list of client \<open>j\<close>.\<close>

definition answers :: "nat option \<Rightarrow> nat \<Rightarrow> conn_msg \<times> nat \<Rightarrow> nat" where
  "answers esme j req =
     (case req of
        (Values_get _ _, k) \<Rightarrow> of_bool (j = k)
      | (Insert_status _, k) \<Rightarrow> of_bool (esme = Some j)
      | _ \<Rightarrow> 0)"

definition sent_to :: "'s dbbox \<Rightarrow> nat \<Rightarrow> values_got list" where
  "sent_to bx j = send_list (bx_clients bx ! j)"

definition total_strings :: "dbbox_env \<Rightarrow> bool" where
  "total_strings E \<longleftrightarrow> (\<forall>s. get_cstr E (Some s) \<noteq> None)"

lemma total_strings_bind: "total_strings E \<Longrightarrow> x \<noteq> None \<Longrightarrow> Option.bind (get_cstr E x) (\<lambda>_. y) = y"
proof -
  assume "total_strings E" "x \<noteq> None"
  then obtain a where "get_cstr E x = Some a" unfolding total_strings_def by (metis not_None_eq)
  then show ?thesis by simp
qed

lemma send_to_client_facts:
  assumes "k < length (bx_clients bx)"
  shows "length (bx_clients (send_to_client k v bx)) = length (bx_clients bx)"
    "j < length (bx_clients bx) \<Longrightarrow> sent_to (send_to_client k v bx) j = sent_to bx j @ (if j = k then [v] else [])"
    "j < length (bx_clients bx) \<Longrightarrow> conn_id (bx_clients (send_to_client k v bx) ! j) = conn_id (bx_clients bx ! j)"
    "bx_inv handles ok (send_to_client k v bx) = bx_inv handles ok bx"
    "esme_process_client (send_to_client k v bx) = esme_process_client bx" "bx_store (send_to_client k v bx) = bx_store bx"
  using assms by (auto simp: send_to_client_def sent_to_def bx_inv_def nth_list_update)

text \<open>The effect of one good request.\<close>

definition step_ok ::
    "'s dlr_storage option \<Rightarrow> ('s \<Rightarrow> bool) \<Rightarrow> ('s \<Rightarrow> octstr list list) \<Rightarrow> nat option \<Rightarrow> conn_msg \<times> nat \<Rightarrow> octstr list list \<Rightarrow>
       's dbbox \<Rightarrow> 's dbbox \<Rightarrow> bool" where
  "step_ok handles ok stored esme req rs bx bx' \<longleftrightarrow> bx_inv handles ok bx' \<and> stored (bx_store bx') = stored (bx_store bx) @ rs \<and>
     length (bx_clients bx') = length (bx_clients bx) \<and> esme_process_client bx' = esme \<and>
     (\<forall>j < length (bx_clients bx). \<exists>vs. sent_to bx' j = sent_to bx j @ vs \<and> length vs = answers esme j req)"

context receipt_store
begin

lemma answered:
  assumes "bx_inv handles ok bx" "ok st" "stored st = stored (bx_store bx)"
  shows "bx_inv handles ok (bx\<lparr>bx_store := st, total_selects := n\<rparr>)" "bx_inv handles ok (bx\<lparr>bx_store := st\<rparr>)"
  using assms by (simp_all add: bx_inv_def)

lemma status_step:
  assumes bx: "bx_inv handles ok bx" "esme_process_client bx = Some e" and E: "total_strings E"
    and m: "acceptable m" "ms_dest_addr m \<noteq> None" "ms_smsc_msg_id m = Some k" "plain k"
  shows "\<exists>v bx'. handle_request E (Insert_status m) i bx = Some bx' \<and> step_ok handles ok stored (Some e) (Insert_status m, i) [] bx bx' \<and>
    sent_to bx' e = sent_to bx e @ [v\<lparr>gv_pdu := ms_pdu m\<rparr>] \<and>
    (\<exists>st st'. ok st \<and> stored st = stored (bx_store bx) \<and> dlr_find handles (ms_dest_addr m) (Some k) st = Some (v, st'))"
proof -
  obtain d where d: "ms_dest_addr m = Some d" using m(2) by blast
  obtain st where st: "dlr_status_add handles m (bx_store bx) = Some st" "ok st" "stored st = stored (bx_store bx)"
    using status_add [OF _ m(1), of "bx_store bx"] bx(1) unfolding bx_inv_def by blast
  obtain v st' where f: "dlr_find handles (Some d) (Some k) st = Some (v, st')" "ok st'" "stored st' = stored st"
    using find_total [OF st(2) m(4), of "Some d"] by blast
  obtain a b where c: "get_cstr E (Some k) = Some a" "get_cstr E (Some d) = Some b"
    using E unfolding total_strings_def by (metis not_None_eq)
  have e: "e < length (bx_clients bx)" "conn_id (bx_clients bx ! e) \<noteq> None" using bx by (simp_all add: bx_inv_def)
  let ?b = "bx\<lparr>bx_store := st'\<rparr>" and ?v = "v\<lparr>gv_pdu := ms_pdu m\<rparr>"
  have inv: "bx_inv handles ok ?b" using answered(2) [OF bx(1), of st'] f(2,3) st(3) by simp
  have h: "handle_request E (Insert_status m) i bx = Some (send_to_client e ?v ?b)"
    using bx st(1) f(1) c d m(3) e by (simp add: handle_request_def handle_insert_status_def report_status_def bx_inv_def)
  note S = send_to_client_facts [where k = e and bx = ?b and v = ?v]
  have "step_ok handles ok stored (Some e) (Insert_status m, i) [] bx (send_to_client e ?v ?b)"
    using S e inv f(3) st(3) bx(2) by (auto simp: step_ok_def answers_def sent_to_def)
  moreover have "sent_to (send_to_client e ?v ?b) e = sent_to bx e @ [?v]" using S(2) e(1) by (simp add: sent_to_def)
  ultimately show ?thesis using h f(1) st(2,3) unfolding d by blast
qed

lemma request_step:
  assumes bx: "bx_inv handles ok bx" "esme_process_client bx = Some e" and E: "total_strings E" and k: "k < length (bx_clients bx)"
    and r: "request_ok E storable acceptable recordable msg rs"
  shows "\<exists>bx'. handle_request E msg k bx = Some bx' \<and> step_ok handles ok stored (Some e) (msg, k) rs bx bx'"
proof (cases msg)
  case (Admin command ident)
  with r obtain i where i: "ident = Some i" "rs = []" by (auto simp: request_ok_def)
  obtain a where a: "get_cstr E (Some i) = Some a" using E by (auto simp: total_strings_def)
  let ?c = "bx\<lparr>bx_clients := (bx_clients bx)[k := (bx_clients bx ! k)\<lparr>conn_id := Some i\<rparr>]\<rparr>"
  have "step_ok handles ok stored (Some e) (msg, k) rs bx ?c" "step_ok handles ok stored (Some e) (msg, k) rs bx bx" "step_ok handles ok stored (Some e) (msg, k) rs bx (bx\<lparr>msg_threads := n\<rparr>)" for n
    using bx k Admin i by (auto simp: step_ok_def bx_inv_def answers_def sent_to_def nth_list_update)
  moreover have "handle_request E msg k bx = Some (if command = 1 then ?c
      else if command = 808 \<and> thread_starts E then bx\<lparr>msg_threads := Suc (msg_threads bx)\<rparr> else bx)"
    using bx Admin i a by (simp add: handle_request_def handle_admin_def bx_inv_def)
  ultimately show ?thesis by (cases "command = 1"; cases "command = 808 \<and> thread_starts E") auto
next
  case (Values_get smsc_msg_id dest_addr)
  with r obtain i d where i: "smsc_msg_id = Some i" "plain i" "dest_addr = Some d" "rs = []" by (auto simp: request_ok_def)
  obtain a where a: "get_cstr E (Some i) = Some a" using E by (auto simp: total_strings_def)
  obtain v st where f: "dlr_find handles (Some d) (Some i) (bx_store bx) = Some (v, st)" "ok st" "stored st = stored (bx_store bx)"
    using find_total [OF _ i(2), of "bx_store bx" "Some d"] bx(1) by (auto simp: bx_inv_def)
  let ?b = "bx\<lparr>total_selects := total_selects bx + 1, bx_store := st\<rparr>"
  have inv: "bx_inv handles ok ?b" using bx(1) f(2) by (simp add: bx_inv_def)
  have "handle_request E msg k bx = Some (send_to_client k v ?b)"
    using bx Values_get i a f(1) by (simp add: handle_request_def handle_values_get_def bx_inv_def)
  moreover have "step_ok handles ok stored (Some e) (msg, k) rs bx (send_to_client k v ?b)"
    using send_to_client_facts [where k = k and bx = ?b and v = v] k inv f(3) bx(2) Values_get i(4) by (auto simp: step_ok_def answers_def sent_to_def)
  ultimately show ?thesis by blast
next
  case (Insert_mis m)
  with r obtain row m2 where m: "rs = [row]" "mi_smsc_msg_id m \<noteq> None" "mi_account_name m \<noteq> None"
    "Option.bind (split_mis E m) (mis_to_latin1 E) = Some m2" "storable m2 row" by (auto simp: request_ok_def mis_stored_def)
  then obtain m1 where m1: "split_mis E m = Some m1" "mis_to_latin1 E m1 = Some m2" by (auto simp: Option.bind_eq_Some_conv)
  obtain st where st: "dlr_mis_add handles m2 (bx_store bx) = Some st" "ok st" "stored st = stored (bx_store bx) @ [row]"
    using mis_add [OF _ m(5), of "bx_store bx"] bx(1) unfolding bx_inv_def by blast
  have "handle_request E msg k bx = Some (bx\<lparr>bx_store := st, total_inserts := total_inserts bx + 1\<rparr>)"
    using bx Insert_mis m(2,3) m1 st(1) by (simp add: handle_request_def handle_insert_mis_def bx_inv_def total_strings_bind [OF E] del: not_None_eq)
  moreover have "step_ok handles ok stored (Some e) (msg, k) rs bx (bx\<lparr>bx_store := st, total_inserts := total_inserts bx + 1\<rparr>)"
    using bx st(2,3) m(1) Insert_mis by (auto simp: step_ok_def bx_inv_def answers_def sent_to_def)
  ultimately show ?thesis by blast
next
  case (Insert_status m)
  with r obtain i where "acceptable m" "ms_dest_addr m \<noteq> None" "ms_smsc_msg_id m = Some i" "plain i" "rs = []" by (auto simp: request_ok_def)
  with status_step [OF bx E, of m i k] Insert_status show ?thesis by blast
next
  case (Smpp_esme m)
  with r obtain m1 where m: "rs = []" "me_account_msg_id m \<noteq> None" "me_dest_addr m \<noteq> None" "split_esme E m = Some m1" "recordable m1"
    by (auto simp: request_ok_def)
  obtain st where st: "dlr_smpp_esme handles m1 (bx_store bx) = Some st" "ok st" "stored st = stored (bx_store bx)"
    using esme_add [OF _ m(5), of "bx_store bx"] bx(1) unfolding bx_inv_def by blast
  have "handle_request E msg k bx = Some (bx\<lparr>bx_store := st\<rparr>)"
    using bx Smpp_esme m(2-4) st(1) by (simp add: handle_request_def handle_smpp_esme_def bx_inv_def total_strings_bind [OF E] del: not_None_eq)
  moreover have "step_ok handles ok stored (Some e) (msg, k) rs bx (bx\<lparr>bx_store := st\<rparr>)"
    using bx st(2,3) m(1) Smpp_esme by (auto simp: step_ok_def bx_inv_def answers_def sent_to_def)
  ultimately show ?thesis by blast
next
  case Other_msg
  with r bx show ?thesis by (auto simp: request_ok_def handle_request_def step_ok_def bx_inv_def answers_def)
qed

text \<open>Requests one after the other.\<close>

lemma requests_run:
  assumes "bx_inv handles ok bx" "esme_process_client bx = Some e" and E: "total_strings E"
    and "list_all2 (\<lambda>(msg, k) rs. request_ok E storable acceptable recordable msg rs \<and> k < length (bx_clients bx)) reqs rss"
  shows "\<exists>bx'. handle_requests E reqs bx = Some bx' \<and> bx_inv handles ok bx' \<and> esme_process_client bx' = Some e \<and>
    stored (bx_store bx') = stored (bx_store bx) @ concat rss \<and> length (bx_clients bx') = length (bx_clients bx) \<and>
    (\<forall>j < length (bx_clients bx). \<exists>vs. sent_to bx' j = sent_to bx j @ vs \<and> length vs = (\<Sum>req \<leftarrow> reqs. answers (Some e) j req))"
  using assms(1,2,4)
proof (induction reqs arbitrary: bx rss)
  case Nil
  then show ?case by simp
next
  case (Cons req reqs)
  obtain msg k where req: "req = (msg, k)" by fastforce
  from Cons.prems(3) obtain rs rss1 where r: "rss = rs # rss1" "request_ok E storable acceptable recordable msg rs" "k < length (bx_clients bx)"
    "list_all2 (\<lambda>(msg, k) rs. request_ok E storable acceptable recordable msg rs \<and> k < length (bx_clients bx)) reqs rss1"
    by (auto simp: list_all2_Cons1 req)
  obtain bx1 where h: "handle_request E msg k bx = Some bx1" "step_ok handles ok stored (Some e) (msg, k) rs bx bx1"
    using request_step [OF Cons.prems(1,2) E r(3,2)] by blast
  then have l: "length (bx_clients bx1) = length (bx_clients bx)" by (simp add: step_ok_def)
  obtain bx' where t: "handle_requests E reqs bx1 = Some bx'" "bx_inv handles ok bx'" "esme_process_client bx' = Some e"
    "stored (bx_store bx') = stored (bx_store bx1) @ concat rss1" "length (bx_clients bx') = length (bx_clients bx)"
    "\<forall>j < length (bx_clients bx). \<exists>vs. sent_to bx' j = sent_to bx1 j @ vs \<and> length vs = (\<Sum>req \<leftarrow> reqs. answers (Some e) j req)"
    using Cons.IH [of bx1 rss1] h(2) r(4) l by (auto simp: step_ok_def)
  have "\<forall>j < length (bx_clients bx). \<exists>vs. sent_to bx' j = sent_to bx j @ vs \<and> length vs = (\<Sum>req \<leftarrow> req # reqs. answers (Some e) j req)"
  proof (intro allI impI)
    fix j assume j: "j < length (bx_clients bx)"
    obtain us where us: "sent_to bx1 j = sent_to bx j @ us" "length us = answers (Some e) j (msg, k)"
      using h(2) j unfolding step_ok_def by blast
    obtain vs where vs: "sent_to bx' j = sent_to bx1 j @ vs" "length vs = (\<Sum>req \<leftarrow> reqs. answers (Some e) j req)" using t(6) j by blast
    from us vs show "\<exists>vs. sent_to bx' j = sent_to bx j @ vs \<and> length vs = (\<Sum>req \<leftarrow> req # reqs. answers (Some e) j req)"
      by (intro exI [of _ "us @ vs"]) (simp add: req)
  qed
  moreover have "handle_requests E (req # reqs) bx = Some bx'" using h(1) t(1) by (simp add: req)
  moreover have "stored (bx_store bx') = stored (bx_store bx) @ concat rss" using h(2) t(4) r(1) by (simp add: step_ok_def)
  ultimately show ?case using t(2,3,5) by blast
qed

text \<open>A receipt for a message whose id is in one row alone.\<close>

lemma receipt_run:
  assumes bx: "bx_inv handles ok bx" "esme_process_client bx = Some e" and E: "total_strings E"
    and reqs: "list_all2 (\<lambda>(msg, k) rs. request_ok E storable acceptable recordable msg rs \<and> k < length (bx_clients bx)) reqs rss"
    and m: "acceptable m" "ms_dest_addr m \<noteq> None" "ms_smsc_msg_id m = Some k" "plain k"
    and r: "r \<in> set (stored (bx_store bx) @ concat rss)" "same (r ! 3) k"
      "\<And>r'. r' \<in> set (stored (bx_store bx) @ concat rss) \<Longrightarrow> same (r' ! 3) k \<Longrightarrow> r' = r"
  shows "\<exists>bx1 bx2. handle_requests E reqs bx = Some bx1 \<and> handle_request E (Insert_status m) i bx1 = Some bx2 \<and>
    sent_to bx2 e = sent_to bx1 e @ [\<lparr> gv_result = 1, gv_account_name = Some (c_string (r ! 0)), gv_account_msg_id = Some (c_string (r ! 1)),
      gv_smsc_msg_id = Some k, gv_dest_addr = ms_dest_addr m, gv_pdu = ms_pdu m \<rparr>] \<and> bx_inv handles ok bx2 \<and>
    stored (bx_store bx2) = stored (bx_store bx) @ concat rss"
proof -
  obtain bx1 where b: "handle_requests E reqs bx = Some bx1" "bx_inv handles ok bx1" "esme_process_client bx1 = Some e"
    "stored (bx_store bx1) = stored (bx_store bx) @ concat rss" using requests_run [OF bx E reqs] by blast
  obtain v bx2 st st' where s: "handle_request E (Insert_status m) i bx1 = Some bx2"
    "step_ok handles ok stored (Some e) (Insert_status m, i) [] bx1 bx2" "sent_to bx2 e = sent_to bx1 e @ [v\<lparr>gv_pdu := ms_pdu m\<rparr>]"
    "ok st" "stored st = stored (bx_store bx1)" "dlr_find handles (ms_dest_addr m) (Some k) st = Some (v, st')"
    using status_step [OF b(2,3) E m] by blast
  have "r \<in> set (stored st)" using r(1) s(5) b(4) by simp
  moreover have "\<And>r'. r' \<in> set (stored st) \<Longrightarrow> same (r' ! 3) k \<Longrightarrow> r' = r" using r(3) s(5) b(4) by simp
  ultimately have "v = (not_found (Some k) (ms_dest_addr m))\<lparr>gv_result := 1, gv_account_name := Some (c_string (r ! 0)),
      gv_account_msg_id := Some (c_string (r ! 1))\<rparr>"
    using find_unique [OF s(4) m(4) _ r(2), of "ms_dest_addr m"] s(6) by simp
  with s(1-3) b show ?thesis by (auto simp: not_found_def step_ok_def)
qed

end

context mysql_storage
begin

lemma store: "receipt_store (Some (mysql_handles B)) (db_ok B fm fs fe) (\<lambda>db. rows (db_world db)) same (kept fits) plain_status plain_request"
  by (rule receipts.receipt_store_axioms)

text \<open>A statement of any other kind: it returns, and the pool is as good as before.\<close>

lemma any_update: "db_ok B fm fs fe db \<Longrightarrow> \<exists>db'. mysql_update B sql db = Some db' \<and> db_ok B fm fs fe db'"
  using use_conn [of db "\<lambda>_ _. True" "\<lambda>c. mysql_query (db_mysql B) c (c_string sql)"] by (force simp: mysql_update_def)

lemma any_escape: "db_ok B fm fs fe db \<Longrightarrow> \<exists>t db'. mysql_escape B s db = Some (t, db') \<and> db_ok B fm fs fe db'"
  using use_conn [of db "\<lambda>_ _. True" "\<lambda>c w. (mysql_real_escape_string (db_mysql B) c (c_string s), w)"] by (force simp: mysql_escape_def)

end

section \<open>The account of a receipt\<close>

lemma split_mis_fields:
  "split_mis E m = Some m1 \<Longrightarrow> mi_account_name m1 = mi_account_name m \<and> mi_account_msg_id m1 = mi_account_msg_id m \<and> mi_smsc_msg_id m1 = mi_smsc_msg_id m"
  by (auto simp: split_mis_def split: if_splits prod.splits Option.bind_splits)

lemma mis_to_latin1_fields:
  "mis_to_latin1 E m = Some m1 \<Longrightarrow> mi_account_name m1 = mi_account_name m \<and> mi_account_msg_id m1 = mi_account_msg_id m \<and> mi_smsc_msg_id m1 = mi_smsc_msg_id m"
  by (auto simp: mis_to_latin1_def split: option.splits)

lemma c_string_twice: "c_string (c_string s) = c_string s"
  by (simp add: c_string_def)

lemma kept_row:
  assumes "mis_stored E (kept fits) m r"
  shows "\<exists>a b k. mi_account_name m = Some a \<and> mi_account_msg_id m = Some b \<and> mi_smsc_msg_id m = Some k \<and>
    c_string (r ! 0) = c_string a \<and> c_string (r ! 1) = c_string b \<and> r ! 3 = c_string k"
proof -
  obtain m1 m2 v where m: "split_mis E m = Some m1" "mis_to_latin1 E m1 = Some m2" "mis_row m2 = Some v" "r = value_list v"
    using assms by (auto simp: mis_stored_def kept_def Option.bind_eq_Some_conv)
  from m(3) obtain a b k where v: "mi_account_name m2 = Some a" "mi_account_msg_id m2 = Some b" "mi_smsc_msg_id m2 = Some k"
    "mv_account_name v = c_string a" "mv_account_msg_id v = c_string b" "mv_smsc_msg_id v = c_string k"
    by (auto simp: mis_row_def split: Option.bind_splits)
  have "mi_account_name m = Some a" "mi_account_msg_id m = Some b" "mi_smsc_msg_id m = Some k"
    using split_mis_fields [OF m(1)] mis_to_latin1_fields [OF m(2)] v(1-3) by simp_all
  with v(4-6) m(4) show ?thesis by (simp add: value_list_def c_string_twice)
qed


section \<open>Every request is answered and recorded once\<close>


section \<open>The ESME server is fixed by its first registration\<close>

lemma handle_request_esme: "handle_request E msg k bx = Some bx' \<Longrightarrow> esme_process_client bx = Some e \<Longrightarrow> esme_process_client bx' = Some e"
  by (auto simp: handle_request_def handle_admin_def handle_values_get_def handle_insert_mis_def handle_insert_status_def handle_smpp_esme_def
    send_to_client_def report_status_def Let_def split: conn_msg.splits if_splits Option.bind_splits option.splits)

text \<open>
  Once a client has registered as the ESME server, it stays the one that receipts are sent to, whatever requests follow: a new
  connection of a restarted server that registers under the same name does not replace it.
\<close>

theorem esme_client_fixed:
  "handle_requests E reqs bx = Some bx' \<Longrightarrow> esme_process_client bx = Some e \<Longrightarrow> esme_process_client bx' = Some e"
proof (induction reqs arbitrary: bx)
  case Nil
  then show ?case by simp
next
  case (Cons req reqs)
  obtain msg k where req: "req = (msg, k)" by fastforce
  with Cons.prems(1) obtain bx1 where b: "handle_request E msg k bx = Some bx1" "handle_requests E reqs bx1 = Some bx'"
    by (auto simp: Option.bind_eq_Some_conv)
  from Cons.IH [OF b(2) handle_request_esme [OF b(1) Cons.prems(2)]] show ?case .
qed

section \<open>Messages after the check\<close>

text \<open>
  A row that can be read: no cell is \<^verbatim>\<open>NULL\<close>, a header has an even number of digits and at least twelve, and when the message is
  blocked, its id, dates and text fit the arrays and its id and destination need no escaping.
\<close>

definition row_ok :: "row \<Rightarrow> bool" where
  "row_ok r \<longleftrightarrow> (\<forall>i < 21. cell r i \<noteq> None) \<and>
     (the (cell r 12) = [] \<or> even (length (the (cell r 12))) \<and> 12 \<le> length (the (cell r 12))) \<and>
     (atoi (the (cell r 15)) \<noteq> 0 \<longrightarrow> length (the (cell r 1)) < 30 \<and> length (the (cell r 16)) < 24 \<and> length (the (cell r 17)) < 22 \<and>
        length (the (cell r 13)) < 50 \<and> plain (the (cell r 1)) \<and> plain (the (cell r 5)))"

definition blocked :: "row \<Rightarrow> bool" where
  "blocked r \<longleftrightarrow> atoi (the (cell r 15)) \<noteq> 0"

definition blocked_pdu :: "dbbox_env \<Rightarrow> ulong \<Rightarrow> row \<Rightarrow> octstr option" where
  "blocked_pdu E seq r = pack_deliver_sm E seq (the (cell r 5)) (the (cell r 4))
     (dnd_short_message (the (cell r 1)) (the (cell r 16)) (the (cell r 17)) (the (cell r 13)))"

text \<open>The receipts of the blocked rows, numbered one after the other.\<close>

fun blocked_pdus :: "dbbox_env \<Rightarrow> ulong \<Rightarrow> row list \<Rightarrow> octstr option list" where
  "blocked_pdus E seq [] = []"
| "blocked_pdus E seq (r # rs) = (if blocked r then blocked_pdu E seq r # blocked_pdus E (seq + 1) rs else blocked_pdus E seq rs)"

lemma cell_bind:
  assumes "row_ok r" "i < 21"
  shows "Option.bind (cell r i) f = f (the (cell r i))"
  using assms by (cases "cell r i") (auto simp: row_ok_def)

lemma released_row:
  assumes "row_ok r"
  shows "\<exists>m. released_submit E r = Some m"
proof -
  have "\<exists>h. (if length (the (cell r 12)) \<noteq> 0 then udh_chars (the (cell r 12)) else Some []) = Some h"
    using assms by (auto simp: row_ok_def udh_chars_def)
  then obtain h where "(if length (the (cell r 12)) \<noteq> 0 then udh_chars (the (cell r 12)) else Some []) = Some h" ..
  then show ?thesis by (simp add: released_submit_def cell_bind [OF assms])
qed

context mysql_storage
begin

lemma blocked_row_step:
  assumes bx: "bx_inv (Some (mysql_handles B)) (db_ok B fm fs fe) bx" "esme_process_client bx = Some e" and r: "row_ok r" "blocked r"
  shows "\<exists>bx' v. blocked_row E B r bx = Some bx' \<and> bx_inv (Some (mysql_handles B)) (db_ok B fm fs fe) bx' \<and>
    esme_process_client bx' = Some e \<and> dbdata_list bx' = dbdata_list bx \<and>
    counter_value (dnd_msg_counter bx') = counter_value (dnd_msg_counter bx) + 1 \<and>
    sent_to bx' e = sent_to bx e @ [v] \<and> gv_pdu v = blocked_pdu E (counter_value (dnd_msg_counter bx)) r"
proof -
  note c = cell_bind [OF r(1)]
  have ok: "db_ok B fm fs fe (bx_store bx)" using bx(1) by (simp add: bx_inv_def)
  obtain t st where esc: "mysql_escape B (the (cell r 13)) (bx_store bx) = Some (t, st)" "db_ok B fm fs fe st" using any_escape [OF ok] by blast
  let ?sql = "blocked_sql (the (cell r 0)) (the (cell r 1)) (the (cell r 4)) (the (cell r 5)) (the (cell r 6)) (the (cell r 7)) (the (cell r 12)) t"
  obtain st1 where u: "mysql_update B ?sql st = Some st1" "db_ok B fm fs fe st1" using any_update [OF esc(2)] by blast
  define pdu where "pdu = blocked_pdu E (counter_value (dnd_msg_counter bx)) r"
  let ?m = "\<lparr> ms_smsc_id = Some ''MAX'', ms_smsc_msg_id = Some (the (cell r 1)), ms_dest_addr = Some (the (cell r 5)), ms_deliver_status = 101,
    ms_pdu = pdu \<rparr>"
  have p: "plain (the (cell r 1))" "plain (the (cell r 5))" "plain ''MAX''" using r by (simp_all add: row_ok_def blocked_def plain_def)
  then have "plain_status ?m" by (simp add: plain_status_def)
  from status_add_ok [OF u(2) this] obtain st2 where s: "dlr_status_add (Some (mysql_handles B)) ?m st1 = Some st2" "db_ok B fm fs fe st2" by blast
  from receipts.find_total [OF s(2) p(1), of "Some (the (cell r 5))"] obtain v st3 where f:
    "dlr_find (Some (mysql_handles B)) (Some (the (cell r 5))) (Some (the (cell r 1))) st2 = Some (v, st3)" "db_ok B fm fs fe st3" by blast
  define cnt where "cnt = snd (counter_increase (dnd_msg_counter bx))"
  have k: "counter_increase (dnd_msg_counter bx) = (counter_value (dnd_msg_counter bx), cnt)"
    "counter_value cnt = counter_value (dnd_msg_counter bx) + 1"
    by (simp_all add: cnt_def counter_increase_def counter_value_def)
  let ?b = "bx\<lparr>dnd_msg_counter := cnt, bx_store := st3\<rparr>"
  have len: "length (the (cell r 1)) < 30" "length (the (cell r 16)) < 24" "length (the (cell r 17)) < 22" "length (the (cell r 13)) < 50"
    using r by (simp_all add: row_ok_def blocked_def)
  have e: "e < length (bx_clients bx)" "conn_id (bx_clients bx ! e) \<noteq> None" "bx_handles bx = Some (mysql_handles B)" using bx by (simp_all add: bx_inv_def)
  have "blocked_row E B r bx = dnd_deliver_sm_generate E r (bx\<lparr>bx_store := st1\<rparr>)"
    using esc(1) u(1) by (simp add: blocked_row_def c)
  also have "\<dots> = Some (report_status pdu v ?b)"
    using len k(1) s(1) f(1) e(3) unfolding pdu_def blocked_pdu_def by (simp add: dnd_deliver_sm_generate_def c)
  also have "report_status pdu v ?b = send_to_client e (v\<lparr>gv_pdu := pdu\<rparr>) ?b" using bx(2) e(2) by (simp add: report_status_def)
  finally have h: "blocked_row E B r bx = Some (send_to_client e (v\<lparr>gv_pdu := pdu\<rparr>) ?b)" .
  have inv: "bx_inv (Some (mysql_handles B)) (db_ok B fm fs fe) ?b" using bx f(2) by (simp add: bx_inv_def)
  let ?c = "send_to_client e (v\<lparr>gv_pdu := pdu\<rparr>) ?b"
  note S = send_to_client_facts [where k = e and bx = ?b and v = "v\<lparr>gv_pdu := pdu\<rparr>"]
  have "bx_inv (Some (mysql_handles B)) (db_ok B fm fs fe) ?c" "esme_process_client ?c = Some e" "dbdata_list ?c = dbdata_list bx"
    "counter_value (dnd_msg_counter ?c) = counter_value (dnd_msg_counter bx) + 1" "sent_to ?c e = sent_to bx e @ [v\<lparr>gv_pdu := pdu\<rparr>]"
    using S(4) S(5) S(2) e(1) inv bx(2) k(2) by (simp_all add: send_to_client_def sent_to_def)
  with h show ?thesis unfolding pdu_def by fastforce
qed

lemma process_row_step:
  assumes bx: "bx_inv (Some (mysql_handles B)) (db_ok B fm fs fe) bx" "esme_process_client bx = Some e" and r: "row_ok r"
  shows "\<exists>bx' vs. process_row E B r bx = Some bx' \<and> bx_inv (Some (mysql_handles B)) (db_ok B fm fs fe) bx' \<and> esme_process_client bx' = Some e \<and>
    dbdata_list bx' = dbdata_list bx @ (if blocked r then [] else [the (released_submit E r)]) \<and>
    counter_value (dnd_msg_counter bx') = counter_value (dnd_msg_counter bx) + of_bool (blocked r) \<and>
    sent_to bx' e = sent_to bx e @ vs \<and> map gv_pdu vs = (if blocked r then [blocked_pdu E (counter_value (dnd_msg_counter bx)) r] else [])"
proof -
  have fin: "\<exists>st. mysql_update B sql (bx_store b) = Some st \<and> bx_inv (Some (mysql_handles B)) (db_ok B fm fs fe) (b\<lparr>bx_store := st\<rparr>)"
    if "bx_inv (Some (mysql_handles B)) (db_ok B fm fs fe) b" for b sql
    using any_update [of "bx_store b" sql] that by (auto simp: bx_inv_def)
  show ?thesis
  proof (cases "blocked r")
    case True
    obtain b v where b: "blocked_row E B r bx = Some b" "bx_inv (Some (mysql_handles B)) (db_ok B fm fs fe) b" "esme_process_client b = Some e"
      "dbdata_list b = dbdata_list bx" "counter_value (dnd_msg_counter b) = counter_value (dnd_msg_counter bx) + 1"
      "sent_to b e = sent_to bx e @ [v]" "gv_pdu v = blocked_pdu E (counter_value (dnd_msg_counter bx)) r"
      using blocked_row_step [OF bx r True] by blast
    obtain st where st: "mysql_update B (read_sql (the (cell r 1))) (bx_store b) = Some st"
      "bx_inv (Some (mysql_handles B)) (db_ok B fm fs fe) (b\<lparr>bx_store := st\<rparr>)" using fin [OF b(2)] by blast
    have "process_row E B r bx = Some (b\<lparr>bx_store := st\<rparr>)"
      using True b(1) st(1) by (simp add: process_row_def cell_bind [OF r] blocked_def)
    then show ?thesis using st(2) b(3-7) True by (intro exI [of _ "b\<lparr>bx_store := st\<rparr>"] exI [of _ "[v]"]) (simp add: sent_to_def)
  next
    case False
    obtain m where m: "released_submit E r = Some m" using released_row [OF r] by blast
    let ?b = "bx\<lparr>dbdata_list := dbdata_list bx @ [m]\<rparr>"
    have "bx_inv (Some (mysql_handles B)) (db_ok B fm fs fe) ?b" using bx(1) by (simp add: bx_inv_def)
    from fin [OF this] obtain st where st: "mysql_update B (read_sql (the (cell r 1))) (bx_store ?b) = Some st"
      "bx_inv (Some (mysql_handles B)) (db_ok B fm fs fe) (?b\<lparr>bx_store := st\<rparr>)" by blast
    have "process_row E B r bx = Some (?b\<lparr>bx_store := st\<rparr>)"
      using False m st(1) by (simp add: process_row_def cell_bind [OF r] blocked_def)
    then show ?thesis using st(2) bx(2) m False by (intro exI [of _ "?b\<lparr>bx_store := st\<rparr>"] exI [of _ "[]"]) (simp add: sent_to_def)
  qed
qed

lemma process_rows_run:
  "bx_inv (Some (mysql_handles B)) (db_ok B fm fs fe) bx \<Longrightarrow> esme_process_client bx = Some e \<Longrightarrow> \<forall>r \<in> set rs. row_ok r \<Longrightarrow>
   \<exists>bx' vs. process_rows E B rs bx = Some bx' \<and> dbdata_list bx' = dbdata_list bx @ map (the \<circ> released_submit E) (filter (\<lambda>r. \<not> blocked r) rs) \<and>
     sent_to bx' e = sent_to bx e @ vs \<and> map gv_pdu vs = blocked_pdus E (counter_value (dnd_msg_counter bx)) rs"
proof (induction rs arbitrary: bx)
  case Nil
  then show ?case by simp
next
  case (Cons r rs)
  have r: "row_ok r" using Cons.prems(3) by simp
  obtain b us where b: "process_row E B r bx = Some b" "bx_inv (Some (mysql_handles B)) (db_ok B fm fs fe) b" "esme_process_client b = Some e"
    "dbdata_list b = dbdata_list bx @ (if blocked r then [] else [the (released_submit E r)])"
    "counter_value (dnd_msg_counter b) = counter_value (dnd_msg_counter bx) + of_bool (blocked r)"
    "sent_to b e = sent_to bx e @ us" "map gv_pdu us = (if blocked r then [blocked_pdu E (counter_value (dnd_msg_counter bx)) r] else [])"
    using process_row_step [OF Cons.prems(1,2) r] by blast
  obtain bx' vs where t: "process_rows E B rs b = Some bx'"
    "dbdata_list bx' = dbdata_list b @ map (the \<circ> released_submit E) (filter (\<lambda>r. \<not> blocked r) rs)"
    "sent_to bx' e = sent_to b e @ vs" "map gv_pdu vs = blocked_pdus E (counter_value (dnd_msg_counter b)) rs"
    using Cons.IH [OF b(2,3)] Cons.prems(3) by auto
  show ?case
    by (rule exI [of _ bx'], rule exI [of _ "us @ vs"]) (use b(1,4-7) t in simp)
qed

end


section \<open>Runs\<close>

definition sample_env :: dbbox_env where
  "sample_env = \<lparr> bx_octstr = octstr_ref, bx_edit = octstr_edit_ref, get_cstr = map_option c_string,
     binary_msg_to_ascii = (\<lambda>c. (0, Some [], c)), binary_msg_to_ascii_hindi = (\<lambda>c. (0, Some [], c)), octstr_hex_to_binary = (\<lambda>s. s),
     pack_deliver_sm = (\<lambda>seq d s t. Some t), bx_current_datetime = ''now'', ESM_CLASS_SUBMIT_UDH_INDICATOR = 64, thread_starts = True \<rparr>"

definition sample_box :: "(nat, octstr list list \<times> row list) database dbbox" where
  "sample_box = \<lparr> bx_running = True, bx_clients = [\<lparr> conn_id = Some ''smpp-esme'', send_list = [] \<rparr>, \<lparr> conn_id = Some ''smsc'', send_list = [] \<rparr>],
     esme_process_client = Some 0, total_inserts = 0, total_selects = 0, msg_threads = 0, dnd_msg_counter = counter_create, dbdata_list = [],
     bx_handles = Some (mysql_handles memory_env), bx_store = started \<rparr>"

definition sample_insert :: insert_mis where
  "sample_insert = sample_mis\<lparr>mi_msg_content := Some ''hi''\<rparr>"

definition sample_receipt :: insert_status where
  "sample_receipt = \<lparr> ms_smsc_id = Some ''max'', ms_smsc_msg_id = Some ''42'', ms_dest_addr = Some ''200'', ms_deliver_status = 1,
     ms_pdu = Some ''receipt'' \<rparr>"

definition sample_stored :: "octstr list" where
  "sample_stored = [''acc'', ''7'', ''max'', ''42'', ''-3'', ''100'', ''200'', ''hi'', ''0'', [], ''t'', ''ip'']"

lemma sample_storage: "mysql_storage memory_env conf_mis conf_status conf_esme fst (=) (\<lambda>_. True)"
  by (rule memory.mysql_storage_axioms)

lemma sample_box_facts:
  "bx_inv (Some (mysql_handles memory_env)) (db_ok memory_env conf_mis conf_status conf_esme) sample_box"
  "esme_process_client sample_box = Some 0" "length (bx_clients sample_box) = 2" "fst (db_world (bx_store sample_box)) = []"
  "sent_to sample_box 0 = []" "total_strings sample_env"
  by (simp_all add: bx_inv_def sample_box_def started_ok sent_to_def total_strings_def sample_env_def)

lemma sample_insert_stored: "mis_stored sample_env (kept (\<lambda>_. True)) sample_insert sample_stored"
proof -
  define m2 where "m2 = the (Option.bind (split_mis sample_env sample_insert) (mis_to_latin1 sample_env))"
  have n: "Option.bind (split_mis sample_env sample_insert) (mis_to_latin1 sample_env) \<noteq> None" by code_simp
  have "map_option (\<lambda>v. (plain_values v, value_list v)) (Option.bind (Option.bind (split_mis sample_env sample_insert) (mis_to_latin1 sample_env)) mis_row)
      = Some (True, sample_stored)" by code_simp
  then show ?thesis using n by (auto simp: mis_stored_def kept_def sample_insert_def sample_mis_def Option.bind_eq_Some_conv)
qed

lemma sample_requests:
  "list_all2 (\<lambda>(msg, k) rs. request_ok sample_env (kept (\<lambda>_. True)) plain_status plain_request msg rs \<and> k < length (bx_clients sample_box))
     [(Insert_mis sample_insert, 1)] [[sample_stored]]"
  using sample_insert_stored by (simp add: request_ok_def sample_box_facts)



theorem esme_client_fixed_witness:
  "\<exists>bx'. handle_requests sample_env [(Admin 1 (Some ''smpp-esme''), 1)] sample_box = Some bx' \<and> esme_process_client bx' = Some 0"
proof -
  obtain bx' where b: "handle_requests sample_env [(Admin 1 (Some ''smpp-esme''), 1)] sample_box = Some bx'"
    by (simp add: handle_request_def handle_admin_def sample_box_def sample_env_def)
  with esme_client_fixed [OF b sample_box_facts(2)] show ?thesis by blast
qed

definition sample_rows :: "row list" where
  "sample_rows = map (map Some)
     [[''acc'', ''7'', [], [], ''100'', ''200'', ''t'', ''0'', [], [], [], ''0'', ''050003070201'', ''one'', ''ip'', ''0'', ''d1'', ''d2'', ''0'', ''64'', ''0''],
      [''acc'', ''8'', [], [], ''100'', ''201'', ''t'', ''0'', [], [], [], ''0'', [], ''two'', ''ip'', ''1'', ''d1'', ''d2'', ''0'', ''0'', ''0'']]"


end
