(* ===== verification/Conffile.thy ===== *)
theory Conffile
  imports Dbbox
begin

text \<open>
  The configuration file of the ESME server, which the database process writes from its tables when it starts: \<^verbatim>\<open>esme_file_update\<close> of
  \<^verbatim>\<open>smpp-dbbox/dlr_mysql.c\<close> and \<^verbatim>\<open>update_file\<close> of \<^verbatim>\<open>smpp-dbbox/smpp_dbbox.c\<close>, with the proof that \<^verbatim>\<open>cfg_read\<close>, through which the server reads it, finds the
  accounts of the tables in it.
\<close>

section \<open>The file\<close>

text \<open>The addresses, each followed by a semicolon, in an array of 2022 characters.\<close>

fun allowed_ips :: "row list \<Rightarrow> octstr \<Rightarrow> octstr option" where
  "allowed_ips [] ip = Some ip"
| "allowed_ips (r # rs) ip = do {
     a \<leftarrow> cell r 0;
     (if length (ip @ a @ '';'') < 2022 then allowed_ips rs (ip @ a @ '';'') else None) }"

definition core_lines :: "octstr \<Rightarrow> octstr list" where
  "core_lines ip = [
     ''group  = core'',
     ''log-file  = /tmp/server_debug/esme/smpp_esme.log'',
     ''access-log  = /tmp/server_debug/esme/access.log'',
     ''log-level  = 0'',
     ''trans-mode-port  = 3000'',
     ''recv-mode-port  = 4000'',
     ''transrecv-mode-port  = 5000'',
     ''admin-port  = 34000'',
     ''admin-password =foobar'',
     ''connect-allow-ip  ='' @ [CHR 0x22] @ ip @ [CHR 0x22],
     ''gsm-series  = '' @ [CHR 0x22] @ ''98;99'' @ [CHR 0x22],
     ''cdma-series  = '' @ [CHR 0x22] @ ''92'' @ [CHR 0x22],
     ''dbbox-host  = '' @ [CHR 0x22] @ ''localhost'' @ [CHR 0x22],
     ''dbbox-port  = 20000'',
     ''dbbox-reconnect-delay=5'',
     ''smsc-host=localhost'',
     ''smsc-reverse-port=22000'',
     ''smsc-forward-port=21000'',
     ''smsc-reconnect-delay=5'',
     ''smsc-unconnect-q-limit = -1'',
     ''dbbox-unconnect-q-limit=6'',
     ''dbbox-ping-delay = 10'',
     ''dbbox-pingack-timeout = 30'',
     ''smsc-ping-delay = 10'',
     ''smsc-pingack-timeout = 20'',
     ''log-file-size = 10'',
     ''log-interval = 60'']"

text \<open>The lines of an account; the first is empty.  The prefixes, column 11, are left out when they are \<^verbatim>\<open>NULL\<close>.\<close>

definition client_lines :: "row \<Rightarrow> octstr list option" where
  "client_lines r = do {
     mode \<leftarrow> cell r 0;
     account_name \<leftarrow> cell r 1;
     password \<leftarrow> cell r 2;
     validfrom \<leftarrow> cell r 3;
     validto \<leftarrow> cell r 4;
     log_file \<leftarrow> cell r 5;
     log_level \<leftarrow> cell r 6;
     max_submits_unconnect \<leftarrow> cell r 7;
     max_submits \<leftarrow> cell r 8;
     max_tx_sessions \<leftarrow> cell r 9;
     max_rx_sessions \<leftarrow> cell r 10;
     max_tps \<leftarrow> cell r 12;
     dnd_check \<leftarrow> cell r 13;
     dedicated_smsc \<leftarrow> cell r 14;
     Some ([[],
       ''group  = smpp-client'',
       ''mode  = '' @ mode,
       ''account-name  = '' @ account_name,
       ''password  = '' @ password,
       ''validfrom  = '' @ validfrom,
       ''validto  = '' @ validto,
       ''log-file  = '' @ log_file,
       ''log-level  = '' @ decimal (atoi log_level),
       ''max-submits-unconnect  = '' @ decimal (atoi max_submits_unconnect),
       ''max-submits  = '' @ decimal (atoi max_submits),
       ''max-tx-sessions  = '' @ decimal (atoi max_tx_sessions),
       ''max-rx-sessions  = '' @ decimal (atoi max_rx_sessions),
       ''max-rx-sessions  = '' @ decimal (atoi max_rx_sessions)] @
       (case cell r 11 of None \<Rightarrow> [] | Some p \<Rightarrow> [''account-allow-prefix  = '' @ p]) @
       [''max-tps = '' @ decimal (atoi max_tps),
        ''dnd-check = '' @ decimal (atoi dnd_check),
        ''dedicated-smsc  = '' @ dedicated_smsc]) }"

fun clients_lines :: "row list \<Rightarrow> octstr list option" where
  "clients_lines [] = Some []"
| "clients_lines (r # rs) = do { l \<leftarrow> client_lines r; ls \<leftarrow> clients_lines rs; Some (l @ ls) }"

definition file_text :: "octstr list \<Rightarrow> octstr" where
  "file_text ls = concat (map (\<lambda>l. l @ [CHR 0x0A]) ls)"

definition ip_sql :: octstr where
  "ip_sql = ''SELECT IP_List FROM  esme_client_ip_info''"

definition client_sql :: octstr where
  "client_sql = ''SELECT mode,esme_acc,esme_pass,esme_valid_from,ems_valid_to,esme_log_file,esme_log_level,max_submits_uncon,max_submits,max_tx_sessions,max_rx_sessions,allow_source,max_tps,dnd_check,dedicate_smsc FROM esme_client_info''"

text \<open>
  The contents that the file gets, or \<open>None\<close> inside the result when it is left as it was: a query failed, there is no account, or
  the file cannot be opened (\<open>writable\<close> is false).
\<close>

definition esme_file_update ::
    "('c, 'w) db_env \<Rightarrow> bool \<Rightarrow> ('c, 'w) database \<Rightarrow> (octstr option \<times> ('c, 'w) database) option" where
  "esme_file_update B writable db = do {
     (ips, db1) \<leftarrow> mysql_select B ip_sql db;
     (case ips of
        None \<Rightarrow> Some (None, db1)
      | Some ip_rows \<Rightarrow> do {
          ip \<leftarrow> allowed_ips ip_rows [];
          (accounts, db2) \<leftarrow> mysql_select B client_sql db1;
          (case accounts of
             None \<Rightarrow> Some (None, db2)
           | Some rs \<Rightarrow>
               (if rs = [] \<or> \<not> writable then Some (None, db2)
                else do { ls \<leftarrow> clients_lines rs; Some (Some (file_text (core_lines ip @ ls)), db2) })) }) }"

text \<open>\<^verbatim>\<open>update_file\<close>, as far as the file goes: a missing name of the file is a null pointer.\<close>

definition update_file ::
    "'z cfg_env_scheme \<Rightarrow> ('c, 'w) db_env \<Rightarrow> (octstr \<Rightarrow> bool) \<Rightarrow> cfg \<Rightarrow> ('c, 'w) database \<Rightarrow> ((octstr \<times> octstr) option \<times> ('c, 'w) database) option" where
  "update_file E B writable c db = do {
     grp \<leftarrow> cfg_get_single_group c ''core'';
     esme_file \<leftarrow> directive E grp ''esme-file-path'';
     (text, db1) \<leftarrow> esme_file_update B (writable esme_file) db;
     Some (map_option (\<lambda>t. (esme_file, t)) text, db1) }"

section \<open>Reading lines\<close>

text \<open>A value that is written without quotes and is read as it is.\<close>

definition clean :: "octstr \<Rightarrow> bool" where
  "clean v \<longleftrightarrow> CHR 0x0A \<notin> set v \<and> (v = [] \<or> \<not> is_blank (hd v) \<and> \<not> is_blank (last v) \<and> hd v \<noteq> CHR 0x22 \<and> last v \<noteq> CHR 0x5C)"

text \<open>A line that sets a variable.\<close>

definition assigns :: "octstr_ops \<Rightarrow> octstr \<Rightarrow> octstr \<times> octstr \<Rightarrow> bool" where
  "assigns X line kv \<longleftrightarrow> plain_name (fst kv) \<and>
     (\<exists>a b v. line = fst kv @ a @ CHR 0x3D # b @ v \<and> list_all is_blank a \<and> list_all is_blank b \<and>
        (v = [] \<or> \<not> is_blank (hd v) \<and> \<not> is_blank (last v)) \<and> parse_value X (b @ v) = Some (snd kv)) \<and>
     octstr_search X (strip line) ''include'' = None"

lemma strip_append_blank: "list_all is_blank b \<Longrightarrow> strip (s @ b) = strip s"
  using strip_blanks_around [of "[]" b s] by simp

lemma parse_value_strip:
  assumes X: "octstr_spec X" and b: "list_all is_blank b" "list_all is_blank c"
  shows "parse_value X (b @ v @ c) = parse_value X v"
  using X by (simp add: parse_value_def gw_simps strip_blanks_around [OF b])

lemma read_line_assigns:
  assumes X: "octstr_spec X" and l: "assigns X (loc_line loc) (k, w)"
  shows "read_line E X G F loc st = Some (st\<lparr>rd_grp := Some (cfg_set
    ((case rd_grp st of None \<Rightarrow> create_group | Some g \<Rightarrow> g)\<lparr>grp_configfile := Some (cfg_filename (rd_cfg st))\<rparr>) k w)\<rparr>)"
proof -
  obtain a b v where L: "loc_line loc = k @ a @ CHR 0x3D # b @ v" "plain_name k" "list_all is_blank a" "list_all is_blank b"
    "v = [] \<or> \<not> is_blank (hd v) \<and> \<not> is_blank (last v)" "parse_value X (b @ v) = Some w"
    "octstr_search X (strip (loc_line loc)) ''include'' = None"
    using l unfolding assigns_def fst_conv snd_conv by blast
  have eq: "\<not> is_blank CHR 0x3D" by (simp add: is_blank_def)
  have kn: "k \<noteq> []" "\<not> is_blank (hd k)" using L(2) by (simp_all add: plain_name_def)
  let ?s = "if v = [] then k @ a @ [CHR 0x3D] else loc_line loc" and ?t = "if v = [] then [] else b @ v"
  have s: "strip (loc_line loc) = ?s"
  proof (cases "v = []")
    case True
    have "strip (loc_line loc) = strip (k @ a @ [CHR 0x3D])" using strip_append_blank [OF L(4), of "k @ a @ [CHR 0x3D]"] L(1) True by simp
    also have "\<dots> = k @ a @ [CHR 0x3D]" using kn eq by (intro strip_id) auto
    finally show ?thesis using True by simp
  next
    case False
    then show ?thesis using L(1,5) kn by (simp add: strip_id)
  qed
  have st: "?s = (k @ a) @ CHR 0x3D # ?t" using L(1) by simp
  have ne: "?s \<noteq> []" "hd ?s = hd k" using kn(1) by (auto simp: st)
  have "\<forall>x \<in> set (k @ a). x \<noteq> CHR 0x3D" using L(2,3) eq by (auto simp: plain_name_def list_all_iff)
  then have pos: "first_pos (\<lambda>d. d = CHR 0x3D) ?s = Some (length (k @ a))" unfolding st by (intro first_pos_append) auto
  have hash: "octstr_get_char X ?s 0 \<noteq> 35"
    using ne L(2) X of_char_eq_iff [where 'a = int, of "hd k" "CHR 0x23"]
    by (auto simp: gw_simps plain_name_def hd_conv_nth simp flip: ne(2))
  have val: "parse_value X (octstr_copy X ?s (length (k @ a) + 1) (length ?s)) = Some w"
    using X L(6) parse_value_strip [OF X L(4), of "[]" "[]"] by (auto simp: gw_simps st)
  have nm: "octstr_strip_blanks X (octstr_copy X ?s 0 (length (k @ a))) = k"
    using X strip_append_blank [OF L(3), of k] strip_id [of k] L(2) by (simp add: gw_simps st plain_name_def)
  show ?thesis
    using X ne(1) hash L(7) val nm pos unfolding s
    by (simp add: read_line_def gw_simps s Let_def)
qed

lemma read_lines_assigns:
  assumes X: "octstr_spec X"
  shows "list_all2 (assigns X) (map loc_line locs) kvs \<Longrightarrow>
    read_lines E X G F (length kvs + fuel)
      \<lparr> rd_cfg = c, rd_grp = g, rd_lines = locs @ rest, rd_stack = stack, error_lineno = 0 \<rparr> =
    read_lines E X G F fuel
      \<lparr> rd_cfg = c, rd_grp = set_vars (cfg_filename c) kvs g, rd_lines = rest, rd_stack = stack, error_lineno = 0 \<rparr>"
proof (induction kvs arbitrary: locs g)
  case Nil
  then show ?case by (simp add: set_vars_def)
next
  case (Cons kv kvs)
  obtain k v where kv: "kv = (k, v)" by fastforce
  from Cons.prems obtain l ls where l: "locs = l # ls" "assigns X (loc_line l) (k, v)" "list_all2 (assigns X) (map loc_line ls) kvs"
    by (auto simp: kv list_all2_Cons2)
  show ?case using Cons.IH [OF l(3)] by (simp add: l(1) kv read_line_assigns [OF X l(2)] set_vars_def)
qed

text \<open>A whole group, up to the empty line that ends it or to the end of the file.\<close>

lemma set_vars_Some: "kvs \<noteq> [] \<Longrightarrow> \<exists>g. set_vars file kvs None = Some g"
  by (cases kvs rule: rev_cases) (auto simp: set_vars_def split: prod.splits)

lemma set_vars_lookup:
  assumes "kvs \<noteq> []"
  shows "map_of (grp_vars (the (set_vars file kvs None))) = map_of (rev kvs)" "grp_name (the (set_vars file kvs None)) = None"
    "set (map fst (grp_vars (the (set_vars file kvs None)))) = set (map fst kvs)"
proof -
  have "map_of (grp_vars (the (set_vars file kvs None))) = map_of (rev kvs) \<and> grp_name (the (set_vars file kvs None)) = None"
    using assms
  proof (induction kvs rule: rev_nonempty_induct)
    case (single kv)
    then show ?case by (cases kv) (simp add: set_vars_def cfg_set_def create_group_def)
  next
    case (snoc kv kvs)
    obtain g where "set_vars file kvs None = Some g" using set_vars_Some [OF snoc(1)] by blast
    with snoc show ?case by (cases kv) (auto simp: set_vars_def cfg_set_def update_conv)
  qed
  then show m: "map_of (grp_vars (the (set_vars file kvs None))) = map_of (rev kvs)" and "grp_name (the (set_vars file kvs None)) = None" by auto
  have "dom (map_of (grp_vars (the (set_vars file kvs None)))) = dom (map_of (rev kvs))" using m by simp
  then show "set (map fst (grp_vars (the (set_vars file kvs None)))) = set (map fst kvs)" by (simp add: dom_map_of_conv_image_fst)
qed

definition closed_group :: "octstr \<Rightarrow> (octstr \<times> octstr) list \<Rightarrow> octstr \<Rightarrow> cfg_group" where
  "closed_group file kvs gname = set_group_name (the (set_vars file kvs None)) gname"

definition put_group :: "bool \<Rightarrow> octstr \<Rightarrow> cfg_group \<Rightarrow> cfg \<Rightarrow> cfg" where
  "put_group single gname g c =
     (if single then c\<lparr>single_groups := AList.update gname g (single_groups c)\<rparr>
      else c\<lparr>multi_groups := AList.update gname ((case map_of (multi_groups c) gname of None \<Rightarrow> [] | Some l \<Rightarrow> l) @ [g]) (multi_groups c)\<rparr>)"

text \<open>What makes a group acceptable: its name is set last to \<open>gname\<close>, and all its variables are known.\<close>

definition known_group :: "cfg_hooks \<Rightarrow> octstr \<Rightarrow> (octstr \<times> octstr) list \<Rightarrow> bool" where
  "known_group H gname kvs \<longleftrightarrow> kvs \<noteq> [] \<and> map_of (rev kvs) ''group'' = Some gname \<and> list_all (is_allowed_in_group H gname) (map fst kvs)"

lemma add_group_known:
  assumes "known_group (cfg_hook_lists E) gname kvs"
  shows "add_group E c (the (set_vars file kvs None)) =
    Some (0, put_group (is_single_group (cfg_hook_lists E) gname) gname (closed_group file kvs gname) c)"
proof -
  have kvs: "kvs \<noteq> []" "map_of (rev kvs) ''group'' = Some gname" "list_all (is_allowed_in_group (cfg_hook_lists E) gname) (map fst kvs)"
    using assms by (simp_all add: known_group_def)
  note L = set_vars_lookup [OF kvs(1)]
  have get: "cfg_get E (the (set_vars file kvs None)) ''group'' = Some (Some gname)" using L(1,2) kvs(2) by (simp add: cfg_get_def)
  have "\<not> list_ex (\<lambda>nm. \<not> is_allowed_in_group (cfg_hook_lists E) gname nm) (map fst (grp_vars (set_group_name (the (set_vars file kvs None)) gname)))"
    using kvs(3) L(3) by (simp add: list_ex_iff list_all_iff set_group_name_def)
  then show ?thesis by (simp add: add_group_def get Let_def put_group_def closed_group_def del: list_ex_iff)
qed

lemma blank_line:
  assumes X: "octstr_spec X" and "list_all is_blank (loc_line nl)" "known_group (cfg_hook_lists E) gname kvs"
  shows "read_line E X G F nl \<lparr> rd_cfg = c, rd_grp = Some (the (set_vars (cfg_filename c) kvs None)), rd_lines = rest, rd_stack = stack, error_lineno = 0 \<rparr> =
    Some \<lparr> rd_cfg = put_group (is_single_group (cfg_hook_lists E) gname) gname (closed_group (cfg_filename c) kvs gname) c, rd_grp = None,
      rd_lines = rest, rd_stack = stack, error_lineno = 0 \<rparr>"
proof -
  have "strip (loc_line nl) = []" using strip_blanks_around [OF assms(2), of "[]" "[]"] by (simp add: strip_def)
  then show ?thesis using X by (simp add: read_line_def gw_simps add_group_known [OF assms(3)])
qed

text \<open>
  Groups one after the other: each one begins with an empty line, which ends the group before it; the file ends with a line that
  holds a line feed.
\<close>

type_synonym written_group = "octstr \<times> (octstr \<times> octstr) list"

fun put_groups :: "cfg_hooks \<Rightarrow> written_group list \<Rightarrow> cfg \<Rightarrow> cfg" where
  "put_groups H [] c = c"
| "put_groups H ((gname, kvs) # gs) c = put_groups H gs (put_group (is_single_group H gname) gname (closed_group (cfg_filename c) kvs gname) c)"

lemma put_group_filename [simp]: "cfg_filename (put_group b gname g c) = cfg_filename c"
  by (simp add: put_group_def)

lemma map_appendD: "map f xs = as @ bs \<Longrightarrow> \<exists>us ws. xs = us @ ws \<and> map f us = as \<and> map f ws = bs"
  by (auto simp: map_eq_append_conv)

lemma read_groups:
  assumes X: "octstr_spec X"
  shows "known_group (cfg_hook_lists E) gname kvs \<Longrightarrow> list_all2 (assigns X) ls kvs \<Longrightarrow>
    list_all2 (\<lambda>gl (gn, kv). known_group (cfg_hook_lists E) gn kv \<and> list_all2 (assigns X) gl kv) gls gs \<Longrightarrow>
    map loc_line locs = ls @ concat (map ((#) []) gls) @ [[], [CHR 0x0A]] \<Longrightarrow> length locs < fuel \<Longrightarrow>
    read_lines E X G F fuel \<lparr> rd_cfg = c, rd_grp = None, rd_lines = locs, rd_stack = stack, error_lineno = 0 \<rparr> =
    Some (Finished 0 (put_groups (cfg_hook_lists E) ((gname, kvs) # gs) c))"
proof (induction gs arbitrary: gname kvs ls gls locs fuel c)
  case Nil
  then have gls: "gls = []" by simp
  obtain g where g: "set_vars (cfg_filename c) kvs None = Some g" using set_vars_Some Nil.prems(1) by (auto simp: known_group_def)
  obtain us vs where u: "locs = us @ vs" "map loc_line us = ls" "map loc_line vs = [[], [CHR 0x0A]]"
    using Nil.prems(4) unfolding gls by (auto simp: map_eq_append_conv)
  then obtain v1 v2 where v: "vs = [v1, v2]" "loc_line v1 = []" "loc_line v2 = [CHR 0x0A]" by auto
  have len: "length us = length kvs" using u(2) list_all2_lengthD [OF Nil.prems(2)] by (metis length_map)
  have "length kvs + 3 \<le> fuel" using Nil.prems(5) u(1) v(1) len by simp
  then obtain f where f: "fuel = length kvs + Suc (Suc (Suc f))" using that [of "fuel - (length kvs + 3)"] by simp
  have "list_all2 (assigns X) (map loc_line us) kvs" using u(2) Nil.prems(2) by simp
  note R = read_lines_assigns [OF X this]
  have b: "list_all is_blank (loc_line v1)" "strip (loc_line v2) = []" using v by (simp_all add: strip_def is_blank_def)
  let ?c = "put_group (is_single_group (cfg_hook_lists E) gname) gname (closed_group (cfg_filename c) kvs gname) c"
  have "read_line E X G F v2 \<lparr> rd_cfg = ?c, rd_grp = None, rd_lines = [], rd_stack = stack, error_lineno = 0 \<rparr> =
      Some \<lparr> rd_cfg = ?c, rd_grp = None, rd_lines = [], rd_stack = stack, error_lineno = 0 \<rparr>"
    using X b(2) by (simp add: read_line_def gw_simps)
  then show ?case
    using blank_line [OF X b(1) Nil.prems(1), of G F c "[v2]" stack] g unfolding f u(1) R by (simp add: v(1))
next
  case (Cons gp gs)
  obtain gn kv where gp: "gp = (gn, kv)" by fastforce
  from Cons.prems(3) obtain gl gls' where gl: "gls = gl # gls'" "known_group (cfg_hook_lists E) gn kv" "list_all2 (assigns X) gl kv"
    "list_all2 (\<lambda>gl (gn, kv). known_group (cfg_hook_lists E) gn kv \<and> list_all2 (assigns X) gl kv) gls' gs"
    by (auto simp: gp list_all2_Cons2)
  obtain g where g: "set_vars (cfg_filename c) kvs None = Some g" using set_vars_Some Cons.prems(1) by (auto simp: known_group_def)
  have "map loc_line locs = ls @ [] # (gl @ concat (map ((#) []) gls') @ [[], [CHR 0x0A]])" using Cons.prems(4) unfolding gl(1) by simp
  from map_appendD [OF this] obtain us ws where "locs = us @ ws" "map loc_line us = ls" "map loc_line ws = [] # (gl @ concat (map ((#) []) gls') @ [[], [CHR 0x0A]])"
    by (elim exE conjE) (rule that)
  then obtain v1 vs where u: "locs = us @ v1 # vs" "map loc_line us = ls" "loc_line v1 = []"
    "map loc_line vs = gl @ concat (map ((#) []) gls') @ [[], [CHR 0x0A]]" by (cases ws) simp_all
  have len: "length us = length kvs" using u(2) list_all2_lengthD [OF Cons.prems(2)] by (metis length_map)
  have "length kvs + 1 + length vs < fuel" using Cons.prems(5) u(1) len by simp
  then obtain f where f: "fuel = length kvs + Suc f" "length vs < f" using that [of "fuel - (length kvs + 1)"] by simp
  have "list_all2 (assigns X) (map loc_line us) kvs" using u(2) Cons.prems(2) by simp
  note R = read_lines_assigns [OF X this]
  have b: "list_all is_blank (loc_line v1)" using u(3) by simp
  have "read_lines E X G F fuel \<lparr> rd_cfg = c, rd_grp = None, rd_lines = locs, rd_stack = stack, error_lineno = 0 \<rparr> =
    read_lines E X G F f \<lparr> rd_cfg = put_group (is_single_group (cfg_hook_lists E) gname) gname (closed_group (cfg_filename c) kvs gname) c, rd_grp = None,
      rd_lines = vs, rd_stack = stack, error_lineno = 0 \<rparr>"
    using blank_line [OF X b Cons.prems(1), of G F c vs stack] g unfolding f(1) u(1) R by simp
  then show ?case using Cons.IH [OF gl(2,3,4) u(4) f(2)] by (simp add: gp)
qed

section \<open>The lines of the file\<close>

text \<open>A line in its parts: the name, what stands around the equals sign, the value as it is written, and the value it stands for.\<close>

type_synonym written_line = "octstr \<times> octstr \<times> octstr \<times> octstr"

definition line_text :: "written_line \<Rightarrow> octstr" where
  "line_text l = (case l of (k, sep, v, w) \<Rightarrow> k @ sep @ v)"

definition line_var :: "written_line \<Rightarrow> octstr \<times> octstr" where
  "line_var l = (case l of (k, sep, v, w) \<Rightarrow> (k, w))"

definition quotable :: "octstr \<Rightarrow> bool" where
  "quotable w \<longleftrightarrow> CHR 0x22 \<notin> set w \<and> CHR 0x5C \<notin> set w \<and> CHR 0x0A \<notin> set w"

definition line_ok :: "written_line \<Rightarrow> bool" where
  "line_ok l = (case l of (k, sep, v, w) \<Rightarrow> plain_name k \<and> CHR 0x0A \<notin> set k \<and> sep \<in> {''  = '', '' = '', '' ='', ''='', ''  =''} \<and>
     (clean v \<and> w = v \<or> v = CHR 0x22 # w @ [CHR 0x22] \<and> quotable w))"

lemma parse_value_clean:
  assumes X: "octstr_spec X" and v: "clean v"
  shows "parse_value X v = Some v"
proof (cases "v = []")
  case True
  then show ?thesis using X by (simp add: parse_value_def gw_simps strip_def Let_def)
next
  case False
  with v have h: "\<not> is_blank (hd v)" "\<not> is_blank (last v)" "hd v \<noteq> CHR 0x22" by (simp_all add: clean_def)
  have "strip v = v" by (rule strip_id) (use False h in auto)
  moreover have "octstr_get_char X v 0 \<noteq> 34"
    using X False h(3) of_char_eq_iff [where 'a = int, of "hd v" "CHR 0x22"] by (auto simp: gw_simps hd_conv_nth)
  ultimately show ?thesis using X by (simp add: parse_value_def gw_simps)
qed

lemma quotable_escape: "quotable w \<Longrightarrow> escape w = w"
proof (induction w)
  case Nil
  then show ?case by simp
next
  case (Cons c w)
  have "c \<noteq> CHR 0x5C" "c \<noteq> CHR 0x22" using Cons.prems by (auto simp: quotable_def)
  then have "of_char c \<noteq> (92 :: nat)" "of_char c \<noteq> (34 :: nat)"
    using of_char_eq_iff [where 'a = nat, of c "CHR 0x5C"] of_char_eq_iff [where 'a = nat, of c "CHR 0x22"] by simp_all
  with Cons show ?case by (simp add: quotable_def)
qed

lemma line_assigns:
  assumes X: "octstr_spec X" and l: "line_ok l" and i: "octstr_search X (strip (line_text l)) ''include'' = None"
  shows "assigns X (line_text l) (line_var l)"
proof -
  obtain k sep v w where L: "l = (k, sep, v, w)" by (metis prod_cases4)
  obtain a b where ab: "sep = a @ CHR 0x3D # b" "list_all is_blank a" "list_all is_blank b"
  proof -
    have "sep = ''  '' @ CHR 0x3D # '' '' \<or> sep = '' '' @ CHR 0x3D # '' '' \<or> sep = '' '' @ CHR 0x3D # [] \<or> sep = [] @ CHR 0x3D # [] \<or>
        sep = ''  '' @ CHR 0x3D # []" using l by (auto simp: line_ok_def L)
    moreover have "list_all is_blank ''  ''" "list_all is_blank '' ''" "list_all is_blank []" by (simp_all add: is_blank_def)
    ultimately show ?thesis using that by blast
  qed
  have q: "\<not> is_blank CHR 0x22" by (simp add: is_blank_def)
  have e: "v = [] \<or> \<not> is_blank (hd v) \<and> \<not> is_blank (last v)" "parse_value X v = Some w"
  proof -
    consider "clean v" "w = v" | "v = quote w" using l quotable_escape by (auto simp: line_ok_def L quote_def)
    then have "(v = [] \<or> \<not> is_blank (hd v) \<and> \<not> is_blank (last v)) \<and> parse_value X v = Some w"
    proof cases
      case 1
      then show ?thesis using parse_value_clean [OF X] by (auto simp: clean_def)
    next
      case 2
      then show ?thesis using parse_value_quote [OF X, of "[]" "[]" w] q by (simp add: quote_def)
    qed
    then show "v = [] \<or> \<not> is_blank (hd v) \<and> \<not> is_blank (last v)" "parse_value X v = Some w" by auto
  qed
  have "parse_value X (b @ v) = Some w" using parse_value_strip [OF X ab(3), of "[]" v] e(2) by simp
  with ab e(1) i l show ?thesis unfolding assigns_def L line_text_def line_var_def by (auto simp: line_ok_def)
qed

lemma line_newline: "line_ok l \<Longrightarrow> CHR 0x0A \<notin> set (line_text l)"
  by (auto simp: line_ok_def line_text_def clean_def quotable_def split: prod.splits)

lemma line_no_continuation:
  assumes "line_ok l"
  shows "last (line_text l) \<noteq> CHR 0x5C" "line_text l \<noteq> []"
  using assms by (auto simp: line_ok_def line_text_def clean_def plain_name_def split: prod.splits if_splits)

section \<open>Lines of a file\<close>

text \<open>What is assumed of \<^verbatim>\<open>octstr_split\<close>: it cuts a text at the line feeds; behind the last one there is an empty part.\<close>

definition splits_lines :: "octstr_ops \<Rightarrow> bool" where
  "splits_lines X \<longleftrightarrow> (\<forall>ls. (\<forall>l \<in> set ls. CHR 0x0A \<notin> set l) \<longrightarrow> octstr_split X (file_text ls) [CHR 0x0A] = ls @ [[]])"

lemma expand_lines_plain:
  assumes X: "octstr_spec X"
  shows "\<forall>l \<in> set ls. l = [] \<or> last l \<noteq> CHR 0x5C \<Longrightarrow>
    \<exists>locs. expand_lines X file True ls False n expand = (n + int (length ls), expand @ locs) \<and> map loc_line locs = ls"
proof (induction ls arbitrary: n expand)
  case Nil
  then show ?case by simp
next
  case (Cons l ls)
  have "octstr_get_char X l (length l - 1) \<noteq> 92"
  proof (cases "l = []")
    case True
    then show ?thesis using X by (simp add: gw_simps)
  next
    case False
    with Cons.prems have "last l \<noteq> CHR 0x5C" by simp
    with False X of_char_eq_iff [where 'a = int, of "last l" "CHR 0x5C"] show ?thesis by (auto simp: gw_simps last_conv_nth)
  qed
  moreover have "append_to_loc X True (expand @ [\<lparr> loc_filename = file, line_no = n + 1, loc_line = [] \<rparr>]) l =
      expand @ [\<lparr> loc_filename = file, line_no = n + 1, loc_line = l \<rparr>]"
    using X by (simp add: append_to_loc_def gw_simps)
  moreover obtain locs where "expand_lines X file True ls False (n + 1) (expand @ [\<lparr> loc_filename = file, line_no = n + 1, loc_line = l \<rparr>]) =
      (n + 1 + int (length ls), (expand @ [\<lparr> loc_filename = file, line_no = n + 1, loc_line = l \<rparr>]) @ locs)" "map loc_line locs = ls"
    using Cons.IH [of "n + 1" "expand @ [\<lparr> loc_filename = file, line_no = n + 1, loc_line = l \<rparr>]"] Cons.prems by (metis list.set_intros(2))
  ultimately show ?case
    by (intro exI [of _ "\<lparr> loc_filename = file, line_no = n + 1, loc_line = l \<rparr> # locs"]) (simp add: add_loc_def Let_def)
qed

lemma expand_file_plain:
  assumes X: "octstr_spec X" "splits_lines X" and F: "octstr_read_file F file = Some (file_text ls)"
    and ls: "\<forall>l \<in> set ls. CHR 0x0A \<notin> set l \<and> (l = [] \<or> last l \<noteq> CHR 0x5C)"
  shows "\<exists>locs. expand_file X F file True = Some locs \<and> map loc_line locs = ls @ [[], [CHR 0x0A]]"
proof -
  have s: "octstr_split X (file_text ls) [CHR 0x0A] = ls @ [[]]" using X(2) ls by (simp add: splits_lines_def)
  have "\<forall>l \<in> set (ls @ [[]]). l = [] \<or> last l \<noteq> CHR 0x5C" using ls by auto
  note e = expand_lines_plain [OF X(1) this]
  obtain locs where
    "expand_lines X file True (ls @ [[]]) False 0 [] = (0 + int (length (ls @ [[]])), [] @ locs)" "map loc_line locs = ls @ [[]]" using e by blast
  then show ?thesis by (simp add: expand_file_def F s add_loc_def)
qed

section \<open>The groups of the file\<close>

definition core_parts :: "octstr \<Rightarrow> written_line list" where
  "core_parts ip =
     map (\<lambda>(k, sep, v). (k, sep, v, v))
       [(''group'', ''  = '', ''core''), (''log-file'', ''  = '', ''/tmp/server_debug/esme/smpp_esme.log''),
        (''access-log'', ''  = '', ''/tmp/server_debug/esme/access.log''), (''log-level'', ''  = '', ''0''), (''trans-mode-port'', ''  = '', ''3000''),
        (''recv-mode-port'', ''  = '', ''4000''), (''transrecv-mode-port'', ''  = '', ''5000''), (''admin-port'', ''  = '', ''34000''),
        (''admin-password'', '' ='', ''foobar'')] @
     [(''connect-allow-ip'', ''  ='', CHR 0x22 # ip @ [CHR 0x22], ip)] @
     map (\<lambda>(k, v). (k, ''  = '', CHR 0x22 # v @ [CHR 0x22], v)) [(''gsm-series'', ''98;99''), (''cdma-series'', ''92''), (''dbbox-host'', ''localhost'')] @
     map (\<lambda>(k, sep, v). (k, sep, v, v))
       [(''dbbox-port'', ''  = '', ''20000''), (''dbbox-reconnect-delay'', ''='', ''5''), (''smsc-host'', ''='', ''localhost''),
        (''smsc-reverse-port'', ''='', ''22000''), (''smsc-forward-port'', ''='', ''21000''), (''smsc-reconnect-delay'', ''='', ''5''),
        (''smsc-unconnect-q-limit'', '' = '', ''-1''), (''dbbox-unconnect-q-limit'', ''='', ''6''), (''dbbox-ping-delay'', '' = '', ''10''),
        (''dbbox-pingack-timeout'', '' = '', ''30''), (''smsc-ping-delay'', '' = '', ''10''), (''smsc-pingack-timeout'', '' = '', ''20''),
        (''log-file-size'', '' = '', ''10''), (''log-interval'', '' = '', ''60'')]"

definition text_cell :: "row \<Rightarrow> nat \<Rightarrow> octstr" where
  "text_cell r i = the (cell r i)"

definition number_cell :: "row \<Rightarrow> nat \<Rightarrow> octstr" where
  "number_cell r i = decimal (atoi (the (cell r i)))"

definition client_parts :: "row \<Rightarrow> written_line list" where
  "client_parts r =
     map (\<lambda>(k, sep, v). (k, sep, v, v))
       ([(''group'', ''  = '', ''smpp-client''), (''mode'', ''  = '', text_cell r 0), (''account-name'', ''  = '', text_cell r 1),
         (''password'', ''  = '', text_cell r 2), (''validfrom'', ''  = '', text_cell r 3), (''validto'', ''  = '', text_cell r 4),
         (''log-file'', ''  = '', text_cell r 5), (''log-level'', ''  = '', number_cell r 6), (''max-submits-unconnect'', ''  = '', number_cell r 7),
         (''max-submits'', ''  = '', number_cell r 8), (''max-tx-sessions'', ''  = '', number_cell r 9),
         (''max-rx-sessions'', ''  = '', number_cell r 10), (''max-rx-sessions'', ''  = '', number_cell r 10)] @
        (case cell r 11 of None \<Rightarrow> [] | Some p \<Rightarrow> [(''account-allow-prefix'', ''  = '', p)]) @
        [(''max-tps'', '' = '', number_cell r 12), (''dnd-check'', '' = '', number_cell r 13), (''dedicated-smsc'', ''  = '', text_cell r 14)])"

text \<open>An account whose columns are there, and whose texts are read as they are written.\<close>

definition account_ok :: "row \<Rightarrow> bool" where
  "account_ok r \<longleftrightarrow> (\<forall>i \<in> {0..14} - {11}. cell r i \<noteq> None) \<and> (\<forall>i \<in> {0, 1, 2, 3, 4, 5, 14}. clean (text_cell r i)) \<and>
     (\<forall>p. cell r 11 = Some p \<longrightarrow> clean p)"

lemma core_lines_parts: "core_lines ip = map line_text (core_parts ip)"
  by (simp add: core_lines_def core_parts_def line_text_def)

lemma client_lines_parts:
  assumes "account_ok r"
  shows "client_lines r = Some ([] # map line_text (client_parts r))"
proof -
  have b: "Option.bind (cell r i) f = f (text_cell r i)" if "i \<le> 14" "i \<noteq> 11" for i and f :: "octstr \<Rightarrow> octstr list option"
  proof -
    have "i \<in> {0..14} - {11}" using that by simp
    with assms have "cell r i \<noteq> None" unfolding account_ok_def by blast
    then show ?thesis by (auto simp: text_cell_def)
  qed
  have n: "number_cell r i = decimal (atoi (text_cell r i))" for i by (simp add: number_cell_def text_cell_def)
  show ?thesis unfolding client_lines_def by (simp add: b client_parts_def line_text_def n split: option.split)
qed

lemma clients_lines_parts:
  "\<forall>r \<in> set rs. account_ok r \<Longrightarrow> clients_lines rs = Some (concat (map ((#) []) (map (\<lambda>r. map line_text (client_parts r)) rs)))"
  by (induction rs) (simp_all add: client_lines_parts)

lemma digit_not_blank:
  assumes "d < (10 :: nat)"
  shows "\<not> is_blank (char_of (48 + d))" "char_of (48 + d) \<noteq> CHR 0x22" "char_of (48 + d) \<noteq> CHR 0x5C" "char_of (48 + d) \<noteq> CHR 0x0A"
proof -
  have "d \<in> set [0..<10]" using assms by simp
  moreover have "list_all (\<lambda>d. \<not> is_blank (char_of (48 + d)) \<and> char_of (48 + d) \<noteq> CHR 0x22 \<and> char_of (48 + d) \<noteq> CHR 0x5C \<and>
      char_of (48 + d) \<noteq> CHR 0x0A) [0..<10]" by code_simp
  ultimately show "\<not> is_blank (char_of (48 + d))" "char_of (48 + d) \<noteq> CHR 0x22" "char_of (48 + d) \<noteq> CHR 0x5C" "char_of (48 + d) \<noteq> CHR 0x0A"
    by (simp_all add: list_all_iff)
qed

lemma clean_decimal: "clean (decimal i)"
proof -
  have c: "\<not> is_blank c \<and> c \<noteq> CHR 0x22 \<and> c \<noteq> CHR 0x5C \<and> c \<noteq> CHR 0x0A" if "c \<in> set (decimal i)" for c
    using decimal_chars [OF that] digit_not_blank by (auto simp: is_blank_def)
  have "hd (decimal i) \<in> set (decimal i)" "last (decimal i) \<in> set (decimal i)" using decimal_not_Nil by simp_all
  with c show ?thesis unfolding clean_def by blast
qed

lemma client_parts_ok:
  assumes "account_ok r"
  shows "\<forall>l \<in> set (client_parts r). line_ok l"
proof -
  have t: "clean (text_cell r 0)" "clean (text_cell r 1)" "clean (text_cell r 2)" "clean (text_cell r 3)" "clean (text_cell r 4)"
    "clean (text_cell r 5)" "clean (text_cell r 14)" "clean ''smpp-client''"
    using assms by (simp_all add: account_ok_def clean_def is_blank_def)
  have p: "\<forall>p. cell r 11 = Some p \<longrightarrow> clean p" using assms by (simp add: account_ok_def)
  have n: "list_all plain_name [''group'', ''mode'', ''account-name'', ''password'', ''validfrom'', ''validto'', ''log-file'', ''log-level'',
      ''max-submits-unconnect'', ''max-submits'', ''max-tx-sessions'', ''max-rx-sessions'', ''account-allow-prefix'', ''max-tps'', ''dnd-check'',
      ''dedicated-smsc'']" by code_simp
  show ?thesis using t p n by (auto simp: client_parts_def line_ok_def clean_decimal number_cell_def split: option.splits)
qed

lemma core_parts_ok:
  assumes "quotable ip"
  shows "\<forall>l \<in> set (core_parts ip). line_ok l"
proof -
  have n: "plain_name ''connect-allow-ip''" "CHR 0x0A \<notin> set ''connect-allow-ip''" by code_simp+
  have "\<forall>l \<in> set (core_parts []). line_ok l" by code_simp
  with n assms show ?thesis by (auto simp: core_parts_def line_ok_def)
qed

text \<open>The table of groups, read with any string library that compares correctly.\<close>

lemma core_allowed_ref:
  "octstr_spec X \<Longrightarrow> core_is_allowed_in_group X defs g v = core_is_allowed_in_group octstr_ref defs g v"
proof (induction defs)
  case Nil
  then show ?case by simp
next
  case (Cons d defs)
  then show ?case by (cases d) (simp_all add: gw_simps)
qed

lemma core_single_ref: "octstr_spec X \<Longrightarrow> core_is_single_group X defs g = core_is_single_group octstr_ref defs g"
proof (induction defs)
  case Nil
  then show ?case by simp
next
  case (Cons d defs)
  then show ?case by (cases d) (simp_all add: gw_simps)
qed

lemma core_hooks_ref:
  assumes "octstr_spec X"
  shows "is_allowed_in_group (core_hooks X) g v = is_allowed_in_group (core_hooks octstr_ref) g v"
    "is_single_group (core_hooks X) g = is_single_group (core_hooks octstr_ref) g"
  by (simp_all add: is_allowed_in_group_def is_single_group_def core_hooks_def core_allowed_ref [OF assms] core_single_ref [OF assms])

definition core_names :: "octstr list" where
  "core_names = [''group'', ''log-file'', ''access-log'', ''log-level'', ''trans-mode-port'', ''recv-mode-port'', ''transrecv-mode-port'',
     ''admin-port'', ''admin-password'', ''connect-allow-ip'', ''gsm-series'', ''cdma-series'', ''dbbox-host'', ''dbbox-port'', ''dbbox-reconnect-delay'',
     ''smsc-host'', ''smsc-reverse-port'', ''smsc-forward-port'', ''smsc-reconnect-delay'', ''smsc-unconnect-q-limit'', ''dbbox-unconnect-q-limit'',
     ''dbbox-ping-delay'', ''dbbox-pingack-timeout'', ''smsc-ping-delay'', ''smsc-pingack-timeout'', ''log-file-size'', ''log-interval'']"

definition client_names :: "octstr list" where
  "client_names = [''group'', ''mode'', ''account-name'', ''password'', ''validfrom'', ''validto'', ''log-file'', ''log-level'',
     ''max-submits-unconnect'', ''max-submits'', ''max-tx-sessions'', ''max-rx-sessions'', ''account-allow-prefix'', ''max-tps'', ''dnd-check'',
     ''dedicated-smsc'']"

lemma names_allowed:
  "list_all (is_allowed_in_group (core_hooks octstr_ref) ''core'') core_names" "is_single_group (core_hooks octstr_ref) ''core''"
  "list_all (is_allowed_in_group (core_hooks octstr_ref) ''smpp-client'') client_names" "\<not> is_single_group (core_hooks octstr_ref) ''smpp-client''"
  by code_simp+

definition core_vars :: "octstr \<Rightarrow> (octstr \<times> octstr) list" where
  "core_vars ip = map line_var (core_parts ip)"

definition client_vars :: "row \<Rightarrow> (octstr \<times> octstr) list" where
  "client_vars r = map line_var (client_parts r)"

lemma core_known:
  assumes "octstr_spec X"
  shows "known_group (core_hooks X) ''core'' (core_vars ip)" "map_of (rev (core_vars ip)) ''connect-allow-ip'' = Some ip"
proof -
  have "map fst (core_vars ip) = core_names" by (simp add: core_vars_def core_parts_def line_var_def core_names_def)
  moreover have "map_of (rev (core_vars ip)) ''group'' = Some ''core''" "core_vars ip \<noteq> []"
    by (simp_all add: core_vars_def core_parts_def line_var_def)
  ultimately show "known_group (core_hooks X) ''core'' (core_vars ip)"
    using names_allowed(1) unfolding known_group_def list_all_iff core_hooks_ref [OF assms] by metis
  show "map_of (rev (core_vars ip)) ''connect-allow-ip'' = Some ip" by (simp add: core_vars_def core_parts_def line_var_def)
qed

lemma client_known:
  assumes "octstr_spec X"
  shows "known_group (core_hooks X) ''smpp-client'' (client_vars r)"
proof -
  have "set (map fst (client_vars r)) \<subseteq> set client_names"
    by (auto simp: client_vars_def client_parts_def line_var_def client_names_def split: option.splits)
  moreover have "map_of (rev (client_vars r)) ''group'' = Some ''smpp-client''" "client_vars r \<noteq> []"
    by (simp_all add: client_vars_def client_parts_def line_var_def split: option.split)
  ultimately show ?thesis using names_allowed(3) unfolding known_group_def list_all_iff core_hooks_ref [OF assms] by blast
qed

section \<open>The file is read back\<close>

text \<open>The variables of an account, as the server looks them up.\<close>

definition holds_account :: "row \<Rightarrow> cfg_group \<Rightarrow> bool" where
  "holds_account r g \<longleftrightarrow> grp_name g = Some ''smpp-client'' \<and>
     map_of (grp_vars g) ''mode'' = cell r 0 \<and> map_of (grp_vars g) ''account-name'' = cell r 1 \<and> map_of (grp_vars g) ''password'' = cell r 2 \<and>
     map_of (grp_vars g) ''validfrom'' = cell r 3 \<and> map_of (grp_vars g) ''validto'' = cell r 4 \<and> map_of (grp_vars g) ''log-file'' = cell r 5 \<and>
     map_of (grp_vars g) ''log-level'' = Some (number_cell r 6) \<and> map_of (grp_vars g) ''max-submits-unconnect'' = Some (number_cell r 7) \<and>
     map_of (grp_vars g) ''max-submits'' = Some (number_cell r 8) \<and> map_of (grp_vars g) ''max-tx-sessions'' = Some (number_cell r 9) \<and>
     map_of (grp_vars g) ''max-rx-sessions'' = Some (number_cell r 10) \<and> map_of (grp_vars g) ''account-allow-prefix'' = cell r 11 \<and>
     map_of (grp_vars g) ''max-tps'' = Some (number_cell r 12) \<and> map_of (grp_vars g) ''dnd-check'' = Some (number_cell r 13) \<and>
     map_of (grp_vars g) ''dedicated-smsc'' = cell r 14"

lemma client_group:
  assumes "account_ok r"
  shows "holds_account r (closed_group file (client_vars r) ''smpp-client'')"
proof -
  have ne: "client_vars r \<noteq> []" by (simp add: client_vars_def client_parts_def)
  have c: "cell r i = Some (text_cell r i)" if "i \<in> {0..14} - {11}" for i
  proof -
    have "cell r i \<noteq> None" using assms that unfolding account_ok_def by blast
    then show ?thesis by (auto simp: text_cell_def)
  qed
  have cs: "cell r 0 = Some (text_cell r 0)" "cell r 1 = Some (text_cell r 1)" "cell r 2 = Some (text_cell r 2)" "cell r 3 = Some (text_cell r 3)"
    "cell r 4 = Some (text_cell r 4)" "cell r 5 = Some (text_cell r 5)" "cell r 14 = Some (text_cell r 14)" by (rule c; simp)+
  have m: "map_of (grp_vars (closed_group file (client_vars r) ''smpp-client'')) = map_of (rev (client_vars r))"
    "grp_name (closed_group file (client_vars r) ''smpp-client'') = Some ''smpp-client''"
    using set_vars_lookup(1) [OF ne] by (simp_all add: closed_group_def set_group_name_def)
  show ?thesis
    unfolding holds_account_def m cs
    by (cases "cell r 11") (simp_all add: client_vars_def client_parts_def line_var_def)
qed

lemma put_clients:
  assumes "\<not> is_single_group H ''smpp-client''"
  shows "single_groups (put_groups H (map (\<lambda>r. (''smpp-client'', client_vars r)) rs) c) = single_groups c \<and>
    map_of (multi_groups (put_groups H (map (\<lambda>r. (''smpp-client'', client_vars r)) rs) c)) ''smpp-client'' =
      (if rs = [] then map_of (multi_groups c) ''smpp-client''
       else Some ((case map_of (multi_groups c) ''smpp-client'' of None \<Rightarrow> [] | Some l \<Rightarrow> l) @
         map (\<lambda>r. closed_group (cfg_filename c) (client_vars r) ''smpp-client'') rs))"
proof (induction rs arbitrary: c)
  case Nil
  then show ?case by simp
next
  case (Cons r rs)
  show ?case using assms by (simp add: Cons.IH) (simp add: put_group_def update_conv)
qed

lemma file_read_back:
  assumes X: "octstr_spec X" "splits_lines X" and E: "cfg_hook_lists E = core_hooks X"
    and rs: "rs \<noteq> []" "\<forall>r \<in> set rs. account_ok r" and ip: "quotable ip"
    and written: "clients_lines rs = Some ls" "octstr_read_file F file = Some (file_text (core_lines ip @ ls))"
    and inc: "\<forall>l \<in> set (core_lines ip @ ls). octstr_search X (strip l) ''include'' = None"
    and fuel: "length (core_lines ip @ ls) + 2 < fuel"
  shows "\<exists>c core grps. cfg_read E X G F fuel (cfg_create file) = Some (Finished 0 c) \<and>
    cfg_get_single_group c ''core'' = Some core \<and> map_of (grp_vars core) ''connect-allow-ip'' = Some ip \<and>
    cfg_get_multi_group c ''smpp-client'' = Some grps \<and> list_all2 holds_account rs grps"
proof -
  define gls where "gls = map (\<lambda>r. map line_text (client_parts r)) rs"
  have ls: "ls = concat (map ((#) []) gls)" using clients_lines_parts [OF rs(2)] written(1) by (simp add: gls_def)
  have ok: "line_ok l" if "l \<in> set (core_parts ip) \<or> (\<exists>r \<in> set rs. l \<in> set (client_parts r))" for l
    using that core_parts_ok [OF ip] client_parts_ok rs(2) by blast
  have "CHR 0x0A \<notin> set l \<and> (l = [] \<or> last l \<noteq> CHR 0x5C)" if "l \<in> set (core_lines ip @ ls)" for l
  proof (cases "l = []")
    case False
    with that have "l \<in> line_text ` set (core_parts ip) \<or> (\<exists>r \<in> set rs. l \<in> line_text ` set (client_parts r))"
      by (auto simp: core_lines_parts ls gls_def split: if_splits)
    then obtain p where "l = line_text p" "line_ok p" using ok by blast
    then show ?thesis using line_newline line_no_continuation by blast
  qed simp
  then have "\<forall>l \<in> set (core_lines ip @ ls). CHR 0x0A \<notin> set l \<and> (l = [] \<or> last l \<noteq> CHR 0x5C)" by blast
  from expand_file_plain [OF X written(2) this] obtain locs where
    locs: "expand_file X F file True = Some locs" "map loc_line locs = (core_lines ip @ ls) @ [[], [CHR 0x0A]]" by blast
  have core: "list_all2 (assigns X) (core_lines ip) (core_vars ip)"
    using inc ok unfolding core_lines_parts core_vars_def list_all2_map1 list_all2_map2
    by (intro list_all2_same [THEN iffD2] ballI line_assigns [OF X(1)]) auto
  have client: "list_all2 (assigns X) (map line_text (client_parts r)) (client_vars r)" if "r \<in> set rs" for r
  proof -
    have "assigns X (line_text p) (line_var p)" if "p \<in> set (client_parts r)" for p
    proof (rule line_assigns [OF X(1)])
      show "line_ok p" using ok that \<open>r \<in> set rs\<close> by blast
      have "line_text p \<in> set ls" using that \<open>r \<in> set rs\<close> by (auto simp: ls gls_def)
      then show "octstr_search X (strip (line_text p)) ''include'' = None" using inc by simp
    qed
    then show ?thesis unfolding client_vars_def list_all2_map1 list_all2_map2 by (simp add: list_all2_same)
  qed
  let ?gs = "map (\<lambda>r. (''smpp-client'', client_vars r)) rs"
  have groups: "list_all2 (\<lambda>gl (gn, kv). known_group (cfg_hook_lists E) gn kv \<and> list_all2 (assigns X) gl kv) gls ?gs"
    using client client_known [OF X(1)] unfolding gls_def E list_all2_map1 list_all2_map2 by (auto simp: list_all2_same)
  have len: "length locs < fuel" using fuel arg_cong [OF locs(2), of length] by simp
  have lines: "map loc_line locs = core_lines ip @ concat (map ((#) []) gls) @ [[], [CHR 0x0A]]" using locs(2) by (simp add: ls)
  have known: "known_group (cfg_hook_lists E) ''core'' (core_vars ip)" using core_known(1) [OF X(1)] by (simp add: E)
  let ?c = "put_group True ''core'' (closed_group file (core_vars ip) ''core'') (cfg_create file)"
  let ?d = "put_groups (core_hooks X) ?gs ?c"
  have single: "is_single_group (core_hooks X) ''core''" "\<not> is_single_group (core_hooks X) ''smpp-client''"
    using names_allowed by (simp_all add: core_hooks_ref [OF X(1)])
  have f: "cfg_filename (cfg_create file) = file" by (simp add: cfg_create_def)
  have "cfg_read E X G F fuel (cfg_create file) = Some (Finished 0 ?d)"
    using read_groups [OF X(1) known core groups lines len] locs(1) single(1) by (simp add: cfg_read_def f E)
  moreover have "cfg_get_single_group ?d ''core'' = Some (closed_group file (core_vars ip) ''core'')"
    using put_clients [OF single(2), of rs ?c] by (simp add: cfg_get_single_group_def put_group_def cfg_create_def)
  moreover have "map_of (grp_vars (closed_group file (core_vars ip) ''core'')) ''connect-allow-ip'' = Some ip"
    using core_known(2) [OF X(1)] set_vars_lookup(1) [of "core_vars ip"] known by (simp add: closed_group_def set_group_name_def known_group_def)
  moreover have "cfg_get_multi_group ?d ''smpp-client'' = Some (map (\<lambda>r. closed_group file (client_vars r) ''smpp-client'') rs)"
    using put_clients [OF single(2), of rs ?c] rs(1) by (simp add: cfg_get_multi_group_def put_group_def cfg_create_def)
  moreover have "list_all2 holds_account rs (map (\<lambda>r. closed_group file (client_vars r) ''smpp-client'') rs)"
    using client_group rs(2) by (auto simp: list_all2_map2 list_all2_same)
  ultimately show ?thesis by blast
qed


text \<open>A splitter of lines, and an account.\<close>

fun split_lines :: "octstr \<Rightarrow> octstr list" where
  "split_lines [] = [[]]"
| "split_lines (c # s) = (if c = CHR 0x0A then [] # split_lines s else (c # hd (split_lines s)) # tl (split_lines s))"

lemma split_lines_line: "CHR 0x0A \<notin> set l \<Longrightarrow> split_lines (l @ CHR 0x0A # s) = l # split_lines s"
  by (induction l) auto

definition lines_ref :: octstr_ops where
  "lines_ref = octstr_ref\<lparr>octstr_split := (\<lambda>s d. split_lines s)\<rparr>"

lemma lines_ref_spec: "octstr_spec lines_ref" "splits_lines lines_ref"
proof -
  show "octstr_spec lines_ref" by (simp add: lines_ref_def octstr_spec_def octstr_ref_def)
  have "\<forall>l \<in> set ls. CHR 0x0A \<notin> set l \<Longrightarrow> split_lines (file_text ls) = ls @ [[]]" for ls
    by (induction ls) (simp_all add: file_text_def split_lines_line)
  then show "splits_lines lines_ref" by (simp add: splits_lines_def lines_ref_def)
qed

definition sample_row :: row where
  "sample_row = [Some ''T'', Some ''alice'', Some ''secret'', Some ''2012-01-01'', Some ''2030-01-01'', Some ''/tmp/alice.log'', Some ''0'',
     Some ''10'', Some ''20'', Some ''1'', Some ''1'', None, Some ''5'', Some ''0'', Some ''smsc1'']"

definition sample_lines :: "octstr list" where
  "sample_lines = core_lines ''127.0.0.1;'' @ the (clients_lines [sample_row])"

text \<open>A server that has one address and one account.\<close>

definition table_env :: "(nat, octstr list list \<times> row list) db_env" where
  "table_env = memory_env\<lparr>db_mysql := memory_server\<lparr>mysql_query :=
     (\<lambda>c sql w. (0, (fst w, if sql = ip_sql then [[Some ''127.0.0.1'']] else [sample_row])))\<rparr>\<rparr>"

definition sample_files :: filesystem where
  "sample_files = \<lparr> octstr_read_file = (\<lambda>f. Option.bind (esme_file_update table_env True started) fst), is_dir = (\<lambda>_. False), dir_entries = (\<lambda>_. []) \<rparr>"

lemma sample_tables:
  "mysql_select table_env ip_sql started = Some (Some [[Some ''127.0.0.1'']], snd (the (mysql_select table_env ip_sql started)))"
  "allowed_ips [[Some ''127.0.0.1'']] [] = Some ''127.0.0.1;''"
  "mysql_select table_env client_sql (snd (the (mysql_select table_env ip_sql started))) =
     Some (Some [sample_row], snd (the (mysql_select table_env client_sql (snd (the (mysql_select table_env ip_sql started))))))"
proof -
  have "map_option fst (mysql_select table_env ip_sql started) = Some (Some [[Some ''127.0.0.1'']])" by code_simp
  then show "mysql_select table_env ip_sql started = Some (Some [[Some ''127.0.0.1'']], snd (the (mysql_select table_env ip_sql started)))"
    by (auto simp: prod_eq_iff)
  show "allowed_ips [[Some ''127.0.0.1'']] [] = Some ''127.0.0.1;''" by code_simp
  have "map_option fst (mysql_select table_env client_sql (snd (the (mysql_select table_env ip_sql started)))) = Some (Some [sample_row])" by code_simp
  then show "mysql_select table_env client_sql (snd (the (mysql_select table_env ip_sql started))) =
     Some (Some [sample_row], snd (the (mysql_select table_env client_sql (snd (the (mysql_select table_env ip_sql started))))))"
    by (auto simp: prod_eq_iff)
qed

lemma sample_row_ok: "account_ok sample_row" "quotable ''127.0.0.1;''"
proof -
  have c: "list_all (\<lambda>i. cell sample_row i \<noteq> None) [0,1,2,3,4,5,6,7,8,9,10,12,13,14]"
    "list_all (\<lambda>i. clean (text_cell sample_row i)) [0,1,2,3,4,5,14]" "cell sample_row 11 = None" by code_simp+
  have "{0..14} - {11} = set [0,1,2,3,4,5,6,7,8,9,10,12,13,14::nat]" by (auto simp: le_Suc_eq numeral_eq_Suc)
  with c show "account_ok sample_row" unfolding account_ok_def list_all_iff by simp
  show "quotable ''127.0.0.1;''" by code_simp
qed


end
