(* ===== verification/Fdset.thy ===== *)
theory Fdset
  imports Prelude
begin

text \<open>
  The sets of file descriptors of \<^verbatim>\<open>gwlib/fdset.c\<close>: a table that one polling thread owns, the requests that other threads submit to it, and the
  scan that calls back for every descriptor with an event, while the callbacks change the table.

  The four arrays \<^verbatim>\<open>pollinfo\<close>, \<^verbatim>\<open>callbacks\<close>, \<^verbatim>\<open>datafields\<close> and \<^verbatim>\<open>times\<close>, which the code keeps in step, are one list of records, of
  the length \<^verbatim>\<open>entries\<close>.  The fields \<^verbatim>\<open>events\<close> and \<^verbatim>\<open>revents\<close> have 16 bits; the masks are combined bit by bit, so
  cutting them to 16 bits first gives the same result.
\<close>

unbundle bit_operations_syntax

section \<open>The set\<close>

type_synonym events = "16 word"

text \<open>The bits of \<^verbatim>\<open>poll.h\<close>.\<close>

definition POLLIN :: events where "POLLIN = 1"
definition POLLOUT :: events where "POLLOUT = 4"
definition POLLERR :: events where "POLLERR = 8"
definition POLLHUP :: events where "POLLHUP = 16"
definition POLLNVAL :: events where "POLLNVAL = 32"

record ('k, 'd) pollent =
  pe_fd :: int
  pe_events :: events
  pe_revents :: events
  pe_callback :: 'k
  pe_data :: 'd
  pe_time :: int

datatype ('k, 'd) action =
    REGISTER int events 'k 'd
  | LISTEN int events events
  | UNREGISTER int
  | DESTROY

text \<open>A request that another thread waits for carries the number of that thread.\<close>

type_synonym ('k, 'd) request = "('k, 'd) action \<times> nat option"

record ('k, 'd) fdset =
  fs_table :: "('k, 'd) pollent list"
  fs_size :: nat
  fs_timeout :: int
  scanning :: bool
  deleted_entries :: int
  fs_actions :: "('k, 'd) request list"

definition fdset_create_real :: "int \<Rightarrow> ('k, 'd) fdset" where
  "fdset_create_real tmo =
     \<lparr> fs_table = [], fs_size = 1, fs_timeout = (if tmo > 0 then tmo else -1), scanning = False, deleted_entries = 0, fs_actions = [] \<rparr>"

definition submit_action :: "nat \<Rightarrow> ('k, 'd) action \<Rightarrow> ('k, 'd) fdset \<Rightarrow> ('k, 'd) fdset" where
  "submit_action thread a s = s\<lparr>fs_actions := fs_actions s @ [(a, Some thread)]\<rparr>"

definition submit_action_nosync :: "('k, 'd) action \<Rightarrow> ('k, 'd) fdset \<Rightarrow> ('k, 'd) fdset" where
  "submit_action_nosync a s = s\<lparr>fs_actions := fs_actions s @ [(a, None)]\<rparr>"

definition find_entry :: "('k, 'd) fdset \<Rightarrow> int \<Rightarrow> nat option" where
  "find_entry s fd = first_pos (\<lambda>e. pe_fd e = fd) (fs_table s)"

definition remove_entry :: "nat \<Rightarrow> ('k, 'd) fdset \<Rightarrow> ('k, 'd) fdset" where
  "remove_entry entry s =
     s\<lparr>fs_table := butlast (if entry \<noteq> length (fs_table s) - 1 then (fs_table s)[entry := last (fs_table s)] else fs_table s)\<rparr>"

function remove_deleted_loop :: "nat \<Rightarrow> ('k, 'd) fdset \<Rightarrow> ('k, 'd) fdset" where
  "remove_deleted_loop i s =
     (if i < length (fs_table s) \<and> deleted_entries s > 0
      then if pe_fd (fs_table s ! i) < 0
           then remove_deleted_loop i ((remove_entry i s)\<lparr>deleted_entries := deleted_entries s - 1\<rparr>)
           else remove_deleted_loop (i + 1) s
      else s)"
  by pat_completeness auto
termination
  by (relation "measure (\<lambda>(i, s). length (fs_table s) - i)") (auto simp: remove_entry_def)

definition remove_deleted_entries :: "('k, 'd) fdset \<Rightarrow> ('k, 'd) fdset" where
  "remove_deleted_entries s = remove_deleted_loop 0 s"

section \<open>Operations of the polling thread\<close>

text \<open>The first argument is the time on the clock.\<close>

definition fdset_register :: "int \<Rightarrow> int \<Rightarrow> events \<Rightarrow> 'k \<Rightarrow> 'd \<Rightarrow> ('k, 'd) fdset \<Rightarrow> ('k, 'd) fdset" where
  "fdset_register t fd events callback data s =
     s\<lparr>fs_table := fs_table s @ [\<lparr> pe_fd = fd, pe_events = events, pe_revents = 0, pe_callback = callback, pe_data = data, pe_time = t \<rparr>],
       fs_size := (if length (fs_table s) \<ge> fs_size s then length (fs_table s) + 1 else fs_size s)\<rparr>"

definition fdset_listen :: "int \<Rightarrow> int \<Rightarrow> events \<Rightarrow> events \<Rightarrow> ('k, 'd) fdset \<Rightarrow> ('k, 'd) fdset" where
  "fdset_listen t fd msk events s =
     (case find_entry s fd of
        None \<Rightarrow> s
      | Some entry \<Rightarrow>
          (let e = fs_table s ! entry;
               e1 = e\<lparr>pe_events := (pe_events e AND NOT msk) OR (events AND msk)\<rparr>;
               e2 = (if scanning s then e1\<lparr>pe_revents := pe_revents e1 AND (events OR NOT msk)\<rparr> else e1)
           in s\<lparr>fs_table := (fs_table s)[entry := e2\<lparr>pe_time := t\<rparr>]\<rparr>))"

definition fdset_unregister :: "int \<Rightarrow> ('k, 'd) fdset \<Rightarrow> ('k, 'd) fdset" where
  "fdset_unregister fd s =
     (case find_entry s fd of
        None \<Rightarrow> s
      | Some entry \<Rightarrow>
          (if entry = length (fs_table s) - 1 then s\<lparr>fs_table := butlast (fs_table s)\<rparr>
           else if scanning s
           then s\<lparr>fs_table := (fs_table s)[entry := (fs_table s ! entry)\<lparr>pe_fd := -1\<rparr>], deleted_entries := deleted_entries s + 1\<rparr>
           else remove_entry entry s))"

text \<open>
  What the polling thread does for a request: \<open>None\<close> when the set is destroyed, otherwise the thread to confirm to.
\<close>

definition perform :: "int \<Rightarrow> ('k, 'd) action \<Rightarrow> ('k, 'd) fdset \<Rightarrow> ('k, 'd) fdset option" where
  "perform t a s =
     (case a of
        REGISTER fd events callback data \<Rightarrow> Some (fdset_register t fd events callback data s)
      | LISTEN fd msk events \<Rightarrow> Some (fdset_listen t fd msk events s)
      | UNREGISTER fd \<Rightarrow> Some (fdset_unregister fd s)
      | DESTROY \<Rightarrow> None)"

definition handle_action :: "int \<Rightarrow> ('k, 'd) request \<Rightarrow> ('k, 'd) fdset \<Rightarrow> nat list \<times> ('k, 'd) fdset option" where
  "handle_action t r s = ((case snd r of None \<Rightarrow> [] | Some thread \<Rightarrow> [thread]), perform t (fst r) s)"

fun handle_actions :: "int \<Rightarrow> ('k, 'd) request list \<Rightarrow> ('k, 'd) fdset \<Rightarrow> nat list \<times> ('k, 'd) fdset option" where
  "handle_actions t [] s = ([], Some s)"
| "handle_actions t (r # rs) s =
     (case handle_action t r (s\<lparr>fs_actions := rs\<rparr>) of
        (woken, None) \<Rightarrow> (woken, None)
      | (woken, Some set1) \<Rightarrow> (case handle_actions t rs set1 of (later, res) \<Rightarrow> (woken @ later, res)))"

section \<open>The scan\<close>

text \<open>
  A callback is called by its name with the descriptor, the events and its data.  It changes the state of the program, and the set through the
  calls that it makes, which run in the polling thread and so at once.
\<close>

record ('k, 'd, 'w) poll_env =
  run_callback :: "'k \<Rightarrow> int \<Rightarrow> events \<Rightarrow> 'd \<Rightarrow> 'w \<Rightarrow> ('k, 'd) action list \<times> 'w"
  clock :: "'w \<Rightarrow> int"

fun do_calls :: "int \<Rightarrow> ('k, 'd) action list \<Rightarrow> ('k, 'd) fdset \<Rightarrow> ('k, 'd) fdset option" where
  "do_calls t [] s = Some s"
| "do_calls t (a # as) s = Option.bind (perform t a s) (do_calls t as)"

text \<open>\<^verbatim>\<open>time(&set->times[i])\<close>: the slot must be allocated, but its entry may be gone.\<close>

definition touch_time :: "int \<Rightarrow> nat \<Rightarrow> ('k, 'd) fdset \<Rightarrow> ('k, 'd) fdset option" where
  "touch_time t i s =
     (if i < fs_size s then Some (s\<lparr>fs_table := (fs_table s)[i := (fs_table s ! i)\<lparr>pe_time := t\<rparr>]\<rparr>) else None)"

definition timed_out :: "int \<Rightarrow> int \<Rightarrow> ('k, 'd) pollent \<Rightarrow> bool" where
  "timed_out tmo t e \<longleftrightarrow> tmo > 0 \<and> pe_time e + tmo - t \<le> 0"

type_synonym 'd callback_call = "int \<times> events \<times> 'd"

fun scan ::
    "('k, 'd, 'w) poll_env \<Rightarrow> nat \<Rightarrow> int \<Rightarrow> nat \<Rightarrow> ('k, 'd) fdset \<Rightarrow> 'w \<Rightarrow> ('d callback_call list \<times> ('k, 'd) fdset \<times> 'w) option" where
  "scan P 0 t i s w = None"
| "scan P (Suc fuel) t i s w =
     (if i < length (fs_table s)
      then let e = fs_table s ! i in
        if pe_revents e \<noteq> 0
        then case run_callback P (pe_callback e) (pe_fd e) (pe_revents e) (pe_data e) w of
          (as, w1) \<Rightarrow> do {
            set1 \<leftarrow> do_calls (clock P w1) as s;
            set2 \<leftarrow> touch_time (clock P w1) i set1;
            (calls, res) \<leftarrow> scan P fuel t (i + 1) set2 w1;
            Some ((pe_fd e, pe_revents e, pe_data e) # calls, res) }
        else if timed_out (fs_timeout s) t e
        then case run_callback P (pe_callback e) (pe_fd e) (POLLERR) (pe_data e) w of
          (as, w1) \<Rightarrow> do {
            set1 \<leftarrow> do_calls (clock P w1) as s;
            (calls, res) \<leftarrow> scan P fuel t (i + 1) set1 w1;
            Some ((pe_fd e, POLLERR, pe_data e) # calls, res) }
        else scan P fuel t (i + 1) s w
      else Some ([], s, w))"

text \<open>
  A round of \<^verbatim>\<open>poller\<close>: the requests, the call of \<^verbatim>\<open>poll\<close>, which fails or sets \<^verbatim>\<open>revents\<close> of every entry, and the scan.  The result is
  \<open>None\<close> inside when the set was destroyed.
\<close>

datatype polled = Poll_failed | Polled "events list"

definition set_revents :: "events list \<Rightarrow> ('k, 'd) fdset \<Rightarrow> ('k, 'd) fdset" where
  "set_revents rs s = s\<lparr>fs_table := map2 (\<lambda>e r. e\<lparr>pe_revents := r\<rparr>) (fs_table s) rs\<rparr>"

definition scan_table ::
    "('k, 'd, 'w) poll_env \<Rightarrow> nat \<Rightarrow> int \<Rightarrow> ('k, 'd) fdset \<Rightarrow> 'w \<Rightarrow> ('d callback_call list \<times> ('k, 'd) fdset \<times> 'w) option" where
  "scan_table P fuel t s w =
     map_option (\<lambda>(calls, set1, w1). (calls, (let set2 = set1\<lparr>scanning := False\<rparr> in
         if deleted_entries set2 > 0 then remove_deleted_entries set2 else set2), w1))
       (scan P fuel t 0 (s\<lparr>scanning := True\<rparr>) w)"

definition poller_round ::
    "('k, 'd, 'w) poll_env \<Rightarrow> nat \<Rightarrow> polled \<Rightarrow> ('k, 'd) fdset \<Rightarrow> 'w \<Rightarrow>
     (nat list \<times> 'd callback_call list \<times> ('k, 'd) fdset option \<times> 'w) option" where
  "poller_round P fuel polled s w =
     (case handle_actions (clock P w) (fs_actions s) s of
        (woken, None) \<Rightarrow> Some (woken, [], None, w)
      | (woken, Some set1) \<Rightarrow>
          (case polled of
             Poll_failed \<Rightarrow> Some (woken, [], Some set1, w)
           | Polled rs \<Rightarrow>
               map_option (\<lambda>(calls, set2, w1). (woken, calls, Some set2, w1)) (scan_table P fuel (clock P w) (set_revents rs set1) w)))"

section \<open>The descriptors that are registered\<close>

definition live :: "('k, 'd) fdset \<Rightarrow> ('k, 'd) pollent list" where
  "live s = filter (\<lambda>e. 0 \<le> pe_fd e) (fs_table s)"

definition entry_pair :: "('k, 'd) pollent \<Rightarrow> int \<times> events \<times> 'k \<times> 'd" where
  "entry_pair e = (pe_fd e, pe_events e, pe_callback e, pe_data e)"

definition registered :: "('k, 'd) fdset \<Rightarrow> int \<rightharpoonup> events \<times> 'k \<times> 'd" where
  "registered s = map_of (map entry_pair (live s))"

text \<open>
  No descriptor is twice in the table, the entries that are marked as deleted are counted, there are none unless a scan goes on, and the table fits into the arrays.
\<close>

definition fds_inv :: "('k, 'd) fdset \<Rightarrow> bool" where
  "fds_inv s \<longleftrightarrow> distinct (map pe_fd (live s)) \<and> deleted_entries s = int (length (filter (\<lambda>e. pe_fd e < 0) (fs_table s))) \<and>
     (\<not> scanning s \<longrightarrow> deleted_entries s = 0) \<and> length (fs_table s) \<le> fs_size s"

lemma map_fst_pairs: "map fst (map entry_pair es) = map pe_fd es"
  by (simp add: entry_pair_def)

lemma registered_Some:
  "distinct (map pe_fd (live s)) \<Longrightarrow> registered s fd = Some v \<longleftrightarrow> (\<exists>e \<in> set (fs_table s). 0 \<le> pe_fd e \<and> entry_pair e = (fd, v))"
  unfolding registered_def using map_of_eq_Some_iff [of "map entry_pair (live s)" fd v] by (auto simp: live_def entry_pair_def comp_def)

lemma registered_None: "registered s fd = None \<longleftrightarrow> (\<forall>e \<in> set (fs_table s). 0 \<le> pe_fd e \<longrightarrow> pe_fd e \<noteq> fd)"
  by (auto simp: registered_def map_of_eq_None_iff live_def entry_pair_def image_iff)

text \<open>All that matters for the invariant and the descriptors is which entries there are, not their order.\<close>

lemma fds_inv_mset:
  "fds_inv s \<longleftrightarrow> distinct (map pe_fd (live s)) \<and> deleted_entries s = int (size (filter_mset (\<lambda>e. pe_fd e < 0) (mset (fs_table s)))) \<and>
     (\<not> scanning s \<longrightarrow> deleted_entries s = 0) \<and> length (fs_table s) \<le> fs_size s"
  by (simp add: fds_inv_def flip: mset_filter)

lemma live_perm:
  assumes "mset (live s) = mset (live s')"
  shows "distinct (map pe_fd (live s)) \<longleftrightarrow> distinct (map pe_fd (live s'))" "distinct (map pe_fd (live s)) \<Longrightarrow> registered s = registered s'"
proof -
  have "mset (map pe_fd (live s)) = mset (map pe_fd (live s'))" using assms by simp
  then show d: "distinct (map pe_fd (live s)) \<longleftrightarrow> distinct (map pe_fd (live s'))" by (rule mset_eq_imp_distinct_iff)
  assume a: "distinct (map pe_fd (live s))"
  have "set (map entry_pair (live s)) = set (map entry_pair (live s'))" using mset_eq_setD [OF assms] by simp
  then show "registered s = registered s'"
    using a d unfolding registered_def by (subst map_of_inject_set) (simp_all only: map_fst_pairs)
qed

lemma remove_entry_mset:
  assumes "i < length (fs_table s)"
  shows "mset (fs_table (remove_entry i s)) = mset (fs_table s) - {# fs_table s ! i #}"
proof -
  obtain ys z where xs: "fs_table s = ys @ [z]" using assms by (cases "fs_table s" rule: rev_cases) auto
  show ?thesis
  proof (cases "i = length ys")
    case True
    then show ?thesis by (simp add: remove_entry_def xs)
  next
    case False
    with assms xs have i: "i < length ys" by simp
    then have "mset (fs_table (remove_entry i s)) = mset ys - {# ys ! i #} + {# z #}"
      by (simp add: remove_entry_def xs list_update_append mset_update)
    with i show ?thesis by (simp add: xs nth_append)
  qed
qed

text \<open>The entry that is found for a descriptor is the only one of it.\<close>

lemma find_entry_unique:
  assumes "distinct (map pe_fd (live s))" "find_entry s fd = Some i" "0 \<le> fd"
  shows "i < length (fs_table s)" "pe_fd (fs_table s ! i) = fd"
    "\<And>e. e \<in> set (take i (fs_table s) @ drop (Suc i) (fs_table s)) \<Longrightarrow> 0 \<le> pe_fd e \<Longrightarrow> pe_fd e \<noteq> fd"
proof -
  show i: "i < length (fs_table s)" "pe_fd (fs_table s ! i) = fd" using assms(2) first_pos_SomeD by (fastforce simp: find_entry_def)+
  have "live s = filter (\<lambda>e. 0 \<le> pe_fd e) (take i (fs_table s)) @ fs_table s ! i # filter (\<lambda>e. 0 \<le> pe_fd e) (drop (Suc i) (fs_table s))"
    unfolding live_def by (subst id_take_nth_drop [OF i(1)]) (use i(2) assms(3) in simp)
  then show "pe_fd e \<noteq> fd" if "e \<in> set (take i (fs_table s) @ drop (Suc i) (fs_table s))" "0 \<le> pe_fd e" for e
    using assms(1) i(2) that by (auto simp: image_iff)
qed

lemma option_eqI: "(\<And>v. x = Some v \<longleftrightarrow> y = Some v) \<Longrightarrow> x = y"
  by (cases x; cases y) auto

text \<open>Replacing the entry of a descriptor by another one of the same descriptor, or by none.\<close>

lemma replace_entry:
  assumes "distinct (map pe_fd (live s))" "find_entry s fd = Some i" "0 \<le> fd"
    and "mset (fs_table s') = mset (take i (fs_table s) @ drop (Suc i) (fs_table s)) + mset es" "length es \<le> 1"
    "\<And>e. e \<in> set es \<Longrightarrow> 0 \<le> pe_fd e \<Longrightarrow> pe_fd e = fd"
  shows "distinct (map pe_fd (live s'))"
    "registered s' = (registered s)(fd := map_option (snd \<circ> entry_pair) (List.find (\<lambda>e. 0 \<le> pe_fd e) es))"
proof -
  note f = find_entry_unique [OF assms(1-3)]
  let ?r = "take i (fs_table s) @ drop (Suc i) (fs_table s)"
  have t: "mset (fs_table s) = add_mset (fs_table s ! i) (mset ?r)"
    by (subst id_take_nth_drop [OF f(1)]) simp
  have "mset (live s') = mset (filter (\<lambda>e. 0 \<le> pe_fd e) (es @ ?r))" using assms(4) by (simp add: live_def)
  then have d: "distinct (map pe_fd (live s')) \<longleftrightarrow> distinct (map pe_fd (filter (\<lambda>e. 0 \<le> pe_fd e) (es @ ?r)))"
    by (intro mset_eq_imp_distinct_iff) (simp only: mset_map)
  have "mset (live s) = mset (fs_table s ! i # filter (\<lambda>e. 0 \<le> pe_fd e) ?r)" using t f(2) assms(3) by (simp add: live_def)
  then have "distinct (map pe_fd (fs_table s ! i # filter (\<lambda>e. 0 \<le> pe_fd e) ?r))"
    using assms(1) mset_eq_imp_distinct_iff by (metis mset_map)
  then have dr: "distinct (map pe_fd (filter (\<lambda>e. 0 \<le> pe_fd e) ?r))" by simp
  have es: "es = [] \<or> (\<exists>e. es = [e])" using assms(5) by (cases es) auto
  have n: "\<forall>e \<in> set ?r. 0 \<le> pe_fd e \<longrightarrow> pe_fd e \<noteq> fd" using f(3) by blast
  have "fd \<notin> set (map pe_fd (filter (\<lambda>e. 0 \<le> pe_fd e) ?r))" using n by auto
  then show d': "distinct (map pe_fd (live s'))"
    using es dr assms(6) unfolding d filter_append map_append distinct_append [of "map pe_fd (filter _ es)"] by auto
  have set': "set (fs_table s') = set es \<union> set ?r" using arg_cong [OF assms(4), of set_mset] by auto
  have set0: "set (fs_table s) = insert (fs_table s ! i) (set ?r)" using arg_cong [OF t, of set_mset] by auto
  show "registered s' = (registered s)(fd := map_option (snd \<circ> entry_pair) (List.find (\<lambda>e. 0 \<le> pe_fd e) es))"
  proof
    fix x
    show "registered s' x = ((registered s)(fd := map_option (snd \<circ> entry_pair) (List.find (\<lambda>e. 0 \<le> pe_fd e) es))) x"
    proof (cases "x = fd")
      case True
      then show ?thesis
        using es n assms(6) by (intro option_eqI) (auto simp: registered_Some [OF d'] set' entry_pair_def split: if_splits)
    next
      case False
      then show ?thesis
        using f(2) assms(6) by (intro option_eqI) (auto simp: registered_Some [OF d'] registered_Some [OF assms(1)] set' set0 entry_pair_def)
    qed
  qed
qed

lemma registered_neg: "fd < 0 \<Longrightarrow> registered s fd = None"
  by (auto simp: registered_None)

lemma find_entry_registered: "0 \<le> fd \<Longrightarrow> find_entry s fd = None \<longleftrightarrow> registered s fd = None"
  by (auto simp: find_entry_def first_pos_None registered_None)

lemma register_ok:
  assumes "fds_inv s" "0 \<le> fd" "registered s fd = None"
  shows "fds_inv (fdset_register t fd ev k d s)" "registered (fdset_register t fd ev k d s) = (registered s)(fd \<mapsto> (ev, k, d))"
proof -
  have n: "fd \<notin> pe_fd ` set (live s)" using assms(2,3) by (auto simp: registered_None live_def)
  have l: "live (fdset_register t fd ev k d s) =
      live s @ [\<lparr> pe_fd = fd, pe_events = ev, pe_revents = 0, pe_callback = k, pe_data = d, pe_time = t \<rparr>]"
    using assms(2) by (simp add: live_def fdset_register_def)
  show "fds_inv (fdset_register t fd ev k d s)" using assms(1,2) n unfolding fds_inv_def l by (auto simp: fdset_register_def)
  have "registered s fd = None" by (rule assms(3))
  then show "registered (fdset_register t fd ev k d s) = (registered s)(fd \<mapsto> (ev, k, d))"
    unfolding registered_def l by (auto simp: entry_pair_def map_add_def fun_eq_iff split: option.splits)
qed

lemma listen_ok:
  assumes "fds_inv s" "0 \<le> fd"
  shows "fds_inv (fdset_listen t fd m ev s)"
    "registered (fdset_listen t fd m ev s) =
       (registered s)(fd := map_option (\<lambda>(old, k, d). ((old AND NOT m) OR (ev AND m), k, d)) (registered s fd))"
proof -
  have dist: "distinct (map pe_fd (live s))" using assms(1) by (simp add: fds_inv_def)
  have "fds_inv (fdset_listen t fd m ev s) \<and> registered (fdset_listen t fd m ev s) =
       (registered s)(fd := map_option (\<lambda>(old, k, d). ((old AND NOT m) OR (ev AND m), k, d)) (registered s fd))"
  proof (cases "find_entry s fd")
    case None
    with find_entry_registered [OF assms(2), of s] have r: "registered s fd = None" by simp
    show ?thesis using None assms(1) by (simp add: fdset_listen_def r fun_upd_idem)
  next
    case (Some i)
    note f = find_entry_unique [OF dist Some assms(2)]
    define e where "e = (fs_table s ! i)\<lparr>pe_events := (pe_events (fs_table s ! i) AND NOT m) OR (ev AND m),
      pe_revents := (if scanning s then pe_revents (fs_table s ! i) AND (ev OR NOT m) else pe_revents (fs_table s ! i)), pe_time := t\<rparr>"
    have s': "fdset_listen t fd m ev s = s\<lparr>fs_table := (fs_table s)[i := e]\<rparr>"
      using Some by (simp add: fdset_listen_def e_def Let_def)
    have fd: "pe_fd e = fd" "entry_pair e = (fd, (pe_events (fs_table s ! i) AND NOT m) OR (ev AND m), pe_callback (fs_table s ! i), pe_data (fs_table s ! i))"
      using f(2) by (simp_all add: e_def entry_pair_def)
    have u: "mset ((fs_table s)[i := e]) = mset (take i (fs_table s) @ drop (Suc i) (fs_table s)) + mset [e]"
      using f(1) by (simp add: upd_conv_take_nth_drop)
    have r: "registered s fd = Some (pe_events (fs_table s ! i), pe_callback (fs_table s ! i), pe_data (fs_table s ! i))"
      using f(1,2) assms(2) by (auto simp: registered_Some [OF dist] entry_pair_def intro!: bexI [of _ "fs_table s ! i"])
    note rep = replace_entry [OF dist Some assms(2), of "s\<lparr>fs_table := (fs_table s)[i := e]\<rparr>" "[e]"]
    have "filter (\<lambda>e. pe_fd e < 0) ((fs_table s)[i := e]) = filter (\<lambda>e. pe_fd e < 0) (take i (fs_table s) @ drop (Suc i) (fs_table s))"
      using f(1) fd assms(2) by (simp add: upd_conv_take_nth_drop)
    also have "\<dots> = filter (\<lambda>e. pe_fd e < 0) (fs_table s)"
      by (subst (3) id_take_nth_drop [OF f(1)]) (use f(2) assms(2) in simp)
    finally have "fds_inv (s\<lparr>fs_table := (fs_table s)[i := e]\<rparr>)" using assms(1) rep(1) u fd by (auto simp: fds_inv_def)
    with rep(2) u fd r assms(2) show ?thesis by (simp add: s')
  qed
  then show "fds_inv (fdset_listen t fd m ev s)"
    "registered (fdset_listen t fd m ev s) =
       (registered s)(fd := map_option (\<lambda>(old, k, d). ((old AND NOT m) OR (ev AND m), k, d)) (registered s fd))" by blast+
qed

lemma unregister_ok:
  assumes "fds_inv s" "0 \<le> fd"
  shows "fds_inv (fdset_unregister fd s)" "registered (fdset_unregister fd s) = (registered s)(fd := None)"
proof -
  have dist: "distinct (map pe_fd (live s))" using assms(1) by (simp add: fds_inv_def)
  have "fds_inv (fdset_unregister fd s) \<and> registered (fdset_unregister fd s) = (registered s)(fd := None)"
  proof (cases "find_entry s fd")
    case None
    with find_entry_registered [OF assms(2), of s] assms(1) show ?thesis by (simp add: fdset_unregister_def fun_upd_idem)
  next
    case (Some i)
    note f = find_entry_unique [OF dist Some assms(2)]
    define gone where "gone = (if i \<noteq> length (fs_table s) - 1 \<and> scanning s then [(fs_table s ! i)\<lparr>pe_fd := -1\<rparr>] else [])"
    let ?s = "fdset_unregister fd s" and ?r = "take i (fs_table s) @ drop (Suc i) (fs_table s)"
    have t: "mset (fs_table s) = add_mset (fs_table s ! i) (mset ?r)" by (subst id_take_nth_drop [OF f(1)]) simp
    have u: "mset (fs_table ?s) = mset ?r + mset gone"
    proof (cases "i \<noteq> length (fs_table s) - 1 \<and> scanning s")
      case True
      then show ?thesis using Some f(1) by (simp add: fdset_unregister_def gone_def upd_conv_take_nth_drop)
    next
      case False
      then have "?s = remove_entry i s" using Some by (auto simp: fdset_unregister_def remove_entry_def)
      with remove_entry_mset [OF f(1)] t False show ?thesis by (simp add: gone_def)
    qed
    have neg: "e \<in> set gone \<Longrightarrow> pe_fd e < 0" for e by (auto simp: gone_def split: if_splits)
    then have pos: "e \<in> set gone \<Longrightarrow> 0 \<le> pe_fd e \<Longrightarrow> pe_fd e = fd" for e by fastforce
    have one: "length gone \<le> 1" by (simp add: gone_def)
    note rep = replace_entry [OF dist Some assms(2) u one pos]
    have find: "List.find (\<lambda>e. 0 \<le> pe_fd e) gone = None" by (simp add: gone_def)
    have del: "deleted_entries ?s = deleted_entries s + int (length gone)" "scanning ?s = scanning s" "fs_size ?s = fs_size s"
      using Some by (auto simp: fdset_unregister_def gone_def remove_entry_def)
    have "size (filter_mset (\<lambda>e. pe_fd e < 0) (mset (fs_table s))) = size (filter_mset (\<lambda>e. pe_fd e < 0) (mset ?r))"
      using t f(2) assms(2) by simp
    moreover have "filter_mset (\<lambda>e. pe_fd e < 0) (mset gone) = mset gone" using neg by (simp add: filter_mset_eq_conv)
    moreover have "length (fs_table ?s) \<le> length (fs_table s)" using arg_cong [OF u, of size] arg_cong [OF t, of size] one by simp
    moreover have "\<not> scanning s \<Longrightarrow> gone = []" by (simp add: gone_def)
    ultimately have "fds_inv ?s" using assms(1) rep(1) unfolding fds_inv_mset u del by auto
    with rep(2) find show ?thesis by simp
  qed
  then show "fds_inv (fdset_unregister fd s)" "registered (fdset_unregister fd s) = (registered s)(fd := None)" by blast+
qed

section \<open>The contract of a set of descriptors\<close>

text \<open>
  The laws a client relies on, whether or not a scan goes on: a registered descriptor is listened to with its events, its callback and its data, the events under a mask
  are changed, and a descriptor that was taken out is not there any more.  What follows for sequences of calls is proved once.
\<close>

fun spec_call :: "('k, 'd) action \<Rightarrow> (int \<rightharpoonup> events \<times> 'k \<times> 'd) \<Rightarrow> (int \<rightharpoonup> events \<times> 'k \<times> 'd)" where
  "spec_call (REGISTER fd ev k d) m = m(fd \<mapsto> (ev, k, d))"
| "spec_call (LISTEN fd msk ev) m = m(fd := map_option (\<lambda>(old, k, d). ((old AND NOT msk) OR (ev AND msk), k, d)) (m fd))"
| "spec_call (UNREGISTER fd) m = m(fd := None)"
| "spec_call DESTROY m = m"

text \<open>Calls that keep to the rules: valid descriptors, and none is registered twice.\<close>

fun calls_ok :: "('k, 'd) action list \<Rightarrow> (int \<rightharpoonup> events \<times> 'k \<times> 'd) \<Rightarrow> bool" where
  "calls_ok [] m \<longleftrightarrow> True"
| "calls_ok (a # as) m \<longleftrightarrow> (case a of REGISTER fd _ _ _ \<Rightarrow> 0 \<le> fd \<and> m fd = None | LISTEN fd _ _ \<Rightarrow> 0 \<le> fd | UNREGISTER fd \<Rightarrow> 0 \<le> fd | DESTROY \<Rightarrow> False) \<and>
     calls_ok as (spec_call a m)"

locale descriptor_table =
  fixes register :: "int \<Rightarrow> events \<Rightarrow> 'k \<Rightarrow> 'd \<Rightarrow> 's \<Rightarrow> 's"
    and listen :: "int \<Rightarrow> events \<Rightarrow> events \<Rightarrow> 's \<Rightarrow> 's"
    and unregister :: "int \<Rightarrow> 's \<Rightarrow> 's"
    and invar :: "'s \<Rightarrow> bool"
    and table :: "'s \<Rightarrow> int \<rightharpoonup> events \<times> 'k \<times> 'd"
  assumes register_law: "invar s \<Longrightarrow> 0 \<le> fd \<Longrightarrow> table s fd = None \<Longrightarrow>
      invar (register fd ev k d s) \<and> table (register fd ev k d s) = (table s)(fd \<mapsto> (ev, k, d))"
    and listen_law: "invar s \<Longrightarrow> 0 \<le> fd \<Longrightarrow> invar (listen fd msk ev s) \<and> table (listen fd msk ev s) =
      (table s)(fd := map_option (\<lambda>(old, k, d). ((old AND NOT msk) OR (ev AND msk), k, d)) (table s fd))"
    and unregister_law: "invar s \<Longrightarrow> 0 \<le> fd \<Longrightarrow> invar (unregister fd s) \<and> table (unregister fd s) = (table s)(fd := None)"
begin

primrec apply_call :: "('k, 'd) action \<Rightarrow> 's \<Rightarrow> 's" where
  "apply_call (REGISTER fd ev k d) s = register fd ev k d s"
| "apply_call (LISTEN fd msk ev) s = listen fd msk ev s"
| "apply_call (UNREGISTER fd) s = unregister fd s"
| "apply_call DESTROY s = s"

lemma apply_call_ok:
  assumes "invar s" "calls_ok (a # as) (table s)"
  shows "invar (apply_call a s)" "table (apply_call a s) = spec_call a (table s)"
  using assms register_law listen_law unregister_law by (cases a; simp)+

lemma apply_calls_ok: "invar s \<Longrightarrow> calls_ok as (table s) \<Longrightarrow> invar (fold apply_call as s) \<and> table (fold apply_call as s) = fold spec_call as (table s)"
proof (induction as arbitrary: s)
  case Nil
  then show ?case by simp
next
  case (Cons a as)
  note a = apply_call_ok [OF Cons.prems]
  from Cons.prems(2) a(2) have "calls_ok as (table (apply_call a s))" by (simp del: spec_call.simps)
  with Cons.IH [OF a(1) this] a(2) show ?case by simp
qed

end

interpretation fds: descriptor_table "fdset_register t" "fdset_listen t" fdset_unregister fds_inv registered for t
  by unfold_locales (simp_all add: register_ok listen_ok unregister_ok)

lemma perform_apply: "a \<noteq> DESTROY \<Longrightarrow> perform t a s = Some (fds.apply_call t a s)"
  by (cases a) (simp_all add: perform_def)

lemma do_calls_apply: "DESTROY \<notin> set as \<Longrightarrow> do_calls t as s = Some (fold (fds.apply_call t) as s)"
  by (induction as arbitrary: s) (auto simp: perform_apply)

lemma calls_ok_destroy: "calls_ok as m \<Longrightarrow> DESTROY \<notin> set as"
  by (induction as arbitrary: m) (auto split: action.splits)

lemma do_calls_ok:
  assumes "fds_inv s" "calls_ok as (registered s)"
  shows "\<exists>s'. do_calls t as s = Some s' \<and> fds_inv s' \<and> registered s' = fold spec_call as (registered s)"
  using fds.apply_calls_ok [OF assms, of t] do_calls_apply [OF calls_ok_destroy [OF assms(2)], of t s] by auto

section \<open>After a scan\<close>

text \<open>The marked entries are taken out, and nothing else.\<close>

definition counted :: "('k, 'd) fdset \<Rightarrow> bool" where
  "counted s \<longleftrightarrow> distinct (map pe_fd (live s)) \<and> deleted_entries s = int (length (filter (\<lambda>e. pe_fd e < 0) (fs_table s))) \<and>
     length (fs_table s) \<le> fs_size s"

lemma fds_inv_counted: "fds_inv s \<longleftrightarrow> counted s \<and> (scanning s \<or> deleted_entries s = 0)"
  by (auto simp: fds_inv_def counted_def)

lemma remove_marked:
  assumes "counted s" "i < length (fs_table s)" "pe_fd (fs_table s ! i) < 0"
  shows "counted ((remove_entry i s)\<lparr>deleted_entries := deleted_entries s - 1\<rparr>)"
    "registered ((remove_entry i s)\<lparr>deleted_entries := deleted_entries s - 1\<rparr>) = registered s"
proof -
  let ?s = "(remove_entry i s)\<lparr>deleted_entries := deleted_entries s - 1\<rparr>"
  have "fs_table s ! i \<in># mset (fs_table s)" using assms(2) by simp
  then have m: "mset (fs_table s) = add_mset (fs_table s ! i) (mset (fs_table ?s))" using remove_entry_mset [OF assms(2)] by simp
  have "mset (live ?s) = mset (live s)" using m assms(3) by (simp add: live_def)
  note l = live_perm [OF this]
  have "size (filter_mset (\<lambda>e. pe_fd e < 0) (mset (fs_table s))) = size (filter_mset (\<lambda>e. pe_fd e < 0) (mset (fs_table ?s))) + 1"
    using m assms(3) by simp
  moreover have "length (fs_table s) = length (fs_table ?s) + 1" using arg_cong [OF m, of size] by simp
  ultimately show "counted ?s" using assms(1) l(1) by (simp add: counted_def remove_entry_def flip: mset_filter size_mset)
  show "registered ?s = registered s" using l assms(1) by (simp add: counted_def)
qed

lemma remove_deleted_loop_ok:
  "counted s \<Longrightarrow> \<forall>j < i. j < length (fs_table s) \<longrightarrow> 0 \<le> pe_fd (fs_table s ! j) \<Longrightarrow>
     counted (remove_deleted_loop i s) \<and> deleted_entries (remove_deleted_loop i s) = 0 \<and>
     registered (remove_deleted_loop i s) = registered s \<and> scanning (remove_deleted_loop i s) = scanning s"
proof (induction i s rule: remove_deleted_loop.induct)
  case (1 i s)
  show ?case
  proof (cases "i < length (fs_table s) \<and> deleted_entries s > 0")
    case False
    have "deleted_entries s = 0"
    proof (cases "i < length (fs_table s)")
      case True
      with False 1(3) show ?thesis by (simp add: counted_def)
    next
      case i: False
      then have "\<forall>e \<in> set (fs_table s). 0 \<le> pe_fd e" using 1(4) by (auto simp: in_set_conv_nth)
      then have "filter (\<lambda>e. pe_fd e < 0) (fs_table s) = []" by (auto simp: filter_empty_conv)
      with 1(3) show ?thesis by (simp add: counted_def)
    qed
    with False 1(3) show ?thesis by (subst (1 2 3 4) remove_deleted_loop.simps) auto
  next
    case True
    show ?thesis
    proof (cases "pe_fd (fs_table s ! i) < 0")
      case neg: True
      let ?s = "(remove_entry i s)\<lparr>deleted_entries := deleted_entries s - 1\<rparr>"
      note r = remove_marked [OF 1(3) _ neg]
      have "\<forall>j < i. j < length (fs_table ?s) \<longrightarrow> 0 \<le> pe_fd (fs_table ?s ! j)"
        using 1(4) True by (auto simp: remove_entry_def nth_butlast)
      moreover have "scanning ?s = scanning s" by (simp add: remove_entry_def)
      ultimately show ?thesis using 1(1) [OF True neg] r True neg by (subst (1 2 3 4) remove_deleted_loop.simps) simp
    next
      case pos: False
      then have "\<forall>j < i + 1. j < length (fs_table s) \<longrightarrow> 0 \<le> pe_fd (fs_table s ! j)" using 1(4) by (simp add: less_Suc_eq)
      with 1(2) [OF True pos 1(3)] True pos show ?thesis by (subst (1 2 3 4) remove_deleted_loop.simps) simp
    qed
  qed
qed

section \<open>What calls do to the table during a scan\<close>

text \<open>
  An entry that will not be called: it has no event and is not timed out at the time of the scan.  From position \<open>n\<close> on, all entries are such.
\<close>

definition calm :: "int \<Rightarrow> int \<Rightarrow> ('k, 'd) pollent \<Rightarrow> bool" where
  "calm tmo t e \<longleftrightarrow> pe_revents e = 0 \<and> \<not> timed_out tmo t e"

definition calm_from :: "int \<Rightarrow> nat \<Rightarrow> ('k, 'd) fdset \<Rightarrow> bool" where
  "calm_from t n s \<longleftrightarrow> (\<forall>j. n \<le> j \<and> j < length (fs_table s) \<longrightarrow> calm (fs_timeout s) t (fs_table s ! j))"

definition fits :: "('k, 'd) fdset \<Rightarrow> bool" where
  "fits s \<longleftrightarrow> length (fs_table s) \<le> fs_size s"

text \<open>During a scan a call only appends an entry, changes one in its place, or takes the last one away.\<close>

lemma call_in_place:
  assumes "scanning s" "a \<noteq> DESTROY"
  obtains (append) e where "fs_table (fds.apply_call now a s) = fs_table s @ [e]" "pe_revents e = 0" "pe_time e = now"
  | (change) i e where "fs_table (fds.apply_call now a s) = (fs_table s)[i := e]" "find_entry s (case a of LISTEN fd _ _ \<Rightarrow> fd | UNREGISTER fd \<Rightarrow> fd) = Some i"
      "pe_time e = now \<or> pe_time e = pe_time (fs_table s ! i)" "pe_revents (fs_table s ! i) = 0 \<longrightarrow> pe_revents e = 0" "\<And>fd ev k d. a \<noteq> REGISTER fd ev k d"
  | (shrink) "fs_table (fds.apply_call now a s) = butlast (fs_table s)" "find_entry s (case a of LISTEN fd _ _ \<Rightarrow> fd | UNREGISTER fd \<Rightarrow> fd) = Some (length (fs_table s) - 1)"
      "\<And>fd ev k d. a \<noteq> REGISTER fd ev k d"
  | (same) "fs_table (fds.apply_call now a s) = fs_table s"
proof (cases a)
  case (REGISTER fd ev k d)
  then show thesis by (intro append) (auto simp: fdset_register_def)
next
  case (LISTEN fd m ev)
  show thesis
  proof (cases "find_entry s fd")
    case None
    with LISTEN show thesis by (intro same) (simp add: fdset_listen_def)
  next
    case (Some i)
    show thesis by (rule change) (use LISTEN Some assms(1) in \<open>auto simp: fdset_listen_def Let_def\<close>)
  qed
next
  case (UNREGISTER fd)
  show thesis
  proof (cases "find_entry s fd")
    case None
    with UNREGISTER show thesis by (intro same) (simp add: fdset_unregister_def)
  next
    case (Some i)
    show thesis
    proof (cases "i = length (fs_table s) - 1")
      case True
      with UNREGISTER Some show thesis by (intro shrink) (simp_all add: fdset_unregister_def)
    next
      case False
      show thesis by (rule change) (use UNREGISTER Some False assms(1) in \<open>auto simp: fdset_unregister_def\<close>)
    qed
  qed
qed (use assms(2) in simp)

lemma call_keeps:
  assumes "fits s"
  shows "scanning (fds.apply_call now a s) = scanning s" "fs_timeout (fds.apply_call now a s) = fs_timeout s"
    "fs_size s \<le> fs_size (fds.apply_call now a s)" "fits (fds.apply_call now a s)"
proof -
  let ?ok = "\<lambda>s'. scanning s' = scanning s \<and> fs_timeout s' = fs_timeout s \<and> fs_size s \<le> fs_size s' \<and> fits s'"
  have "?ok (fdset_register now fd ev k d s)" for fd ev k d using assms by (simp add: fdset_register_def fits_def)
  moreover have "?ok (fdset_listen now fd m ev s)" for fd m ev
    using assms by (cases "find_entry s fd") (simp_all add: fdset_listen_def fits_def Let_def)
  moreover have "?ok (fdset_unregister fd s)" for fd
    using assms by (cases "find_entry s fd") (auto simp: fdset_unregister_def remove_entry_def fits_def)
  ultimately have "?ok (fds.apply_call now a s)" using assms by (cases a) simp_all
  then show "scanning (fds.apply_call now a s) = scanning s" "fs_timeout (fds.apply_call now a s) = fs_timeout s"
    "fs_size s \<le> fs_size (fds.apply_call now a s)" "fits (fds.apply_call now a s)" by blast+
qed

lemma calm_now: "t \<le> now \<Longrightarrow> pe_time e = now \<Longrightarrow> \<not> timed_out tmo t e"
  by (simp add: timed_out_def)

lemma call_calm:
  assumes "scanning s" "a \<noteq> DESTROY" "fits s" "t \<le> now" "calm_from t n s"
  shows "calm_from t n (fds.apply_call now a s)"
  unfolding calm_from_def call_keeps(2) [OF assms(3)]
proof (intro allI impI)
  fix j
  assume j: "n \<le> j \<and> j < length (fs_table (fds.apply_call now a s))"
  have old: "calm (fs_timeout s) t (fs_table s ! j)" if "j < length (fs_table s)" using assms(5) j that by (simp add: calm_from_def)
  show "calm (fs_timeout s) t (fs_table (fds.apply_call now a s) ! j)"
  proof (cases rule: call_in_place [OF assms(1,2), where now = now, case_names append change shrink same])
    case (append e)
    then show ?thesis using j old calm_now [OF assms(4) append(3), of "fs_timeout s"] by (auto simp: nth_append calm_def less_Suc_eq)
  next
    case (change i e)
    then show ?thesis using j old assms(4) by (cases "i = j") (auto simp: calm_def timed_out_def)
  next
    case shrink
    then have "j < length (fs_table s)" "j < length (butlast (fs_table s))" using j by auto
    with old shrink show ?thesis by (simp add: nth_butlast)
  next
    case same
    then show ?thesis using j old by simp
  qed
qed

lemma calls_keep:
  "fits s \<Longrightarrow> scanning (fold (fds.apply_call now) as s) = scanning s \<and> fs_timeout (fold (fds.apply_call now) as s) = fs_timeout s \<and>
     fs_size s \<le> fs_size (fold (fds.apply_call now) as s) \<and> fits (fold (fds.apply_call now) as s)"
proof (induction as arbitrary: s)
  case Nil
  then show ?case by simp
next
  case (Cons a as)
  note k = call_keeps [OF Cons.prems, of now a]
  from Cons.IH [OF k(4)] k show ?case by auto
qed

lemma calls_calm:
  "scanning s \<Longrightarrow> DESTROY \<notin> set as \<Longrightarrow> fits s \<Longrightarrow> t \<le> now \<Longrightarrow> calm_from t n s \<Longrightarrow> calm_from t n (fold (fds.apply_call now) as s)"
proof (induction as arbitrary: s)
  case Nil
  then show ?case by simp
next
  case (Cons a as)
  note k = call_keeps [OF Cons.prems(3), of now a]
  have "calm_from t n (fds.apply_call now a s)" by (rule call_calm) (use Cons.prems in auto)
  with Cons.IH [of "fds.apply_call now a s"] k Cons.prems show ?case by simp
qed

lemma nth_update: "j < length xs \<Longrightarrow> xs[i := x] ! j = (if i = j then x else xs ! j)"
  by (cases "i = j") auto

lemma touch_time_ok:
  assumes "fits s" "i < fs_size s" "t \<le> now" "calm_from t n s"
  shows "\<exists>s'. touch_time now i s = Some s' \<and> fits s' \<and> scanning s' = scanning s \<and> fs_timeout s' = fs_timeout s \<and> calm_from t n s' \<and>
    fs_table s' = (fs_table s)[i := (fs_table s ! i)\<lparr>pe_time := now\<rparr>]"
proof -
  have "calm_from t n (s\<lparr>fs_table := (fs_table s)[i := (fs_table s ! i)\<lparr>pe_time := now\<rparr>]\<rparr>)"
    using assms(3,4) by (auto simp: calm_from_def calm_def timed_out_def nth_update)
  with assms(1,2) show ?thesis by (simp add: touch_time_def fits_def)
qed

section \<open>A scan ends\<close>

text \<open>Callbacks that do not destroy the set, on a clock that does not run backwards.\<close>

definition civil :: "('k, 'd, 'w) poll_env \<Rightarrow> bool" where
  "civil P \<longleftrightarrow> (\<forall>k fd ev d w. DESTROY \<notin> set (fst (run_callback P k fd ev d w)) \<and> clock P w \<le> clock P (snd (run_callback P k fd ev d w)))"

lemma scan_calm: "calm_from t i s \<Longrightarrow> length (fs_table s) - i < fuel \<Longrightarrow> scan P fuel t i s w = Some ([], s, w)"
proof (induction fuel arbitrary: i)
  case 0
  then show ?case by simp
next
  case (Suc fuel)
  show ?case
  proof (cases "i < length (fs_table s)")
    case True
    with Suc.prems(1) have "calm (fs_timeout s) t (fs_table s ! i)" by (simp add: calm_from_def)
    moreover have "scan P fuel t (i + 1) s w = Some ([], s, w)"
      by (rule Suc.IH) (use Suc.prems True in \<open>auto simp: calm_from_def\<close>)
    ultimately show ?thesis using True by (simp add: calm_def Let_def)
  qed simp
qed

lemma bind_called: "Option.bind x (\<lambda>(calls, res). Some (c # calls, res)) = map_option (\<lambda>(calls, res). ([c] @ calls, res)) x"
  by (cases x) auto

text \<open>One step of a scan at an entry that is called.\<close>

lemma called_step:
  assumes P: "civil P" and s: "scanning s" "fits s" "i < length (fs_table s)" "calm_from t n s" "t \<le> clock P w"
    and r: "run_callback P k fd ev d w = (as, w1)"
  shows "do_calls (clock P w1) as s = Some (fold (fds.apply_call (clock P w1)) as s)" "t \<le> clock P w1"
    "scanning (fold (fds.apply_call (clock P w1)) as s)" "fits (fold (fds.apply_call (clock P w1)) as s)"
    "fs_timeout (fold (fds.apply_call (clock P w1)) as s) = fs_timeout s"
    "calm_from t n (fold (fds.apply_call (clock P w1)) as s)"
    "\<exists>s'. touch_time (clock P w1) i (fold (fds.apply_call (clock P w1)) as s) = Some s' \<and> fits s' \<and> scanning s' \<and> fs_timeout s' = fs_timeout s \<and>
      calm_from t n s' \<and> fs_table s' = (fs_table (fold (fds.apply_call (clock P w1)) as s))
        [i := (fs_table (fold (fds.apply_call (clock P w1)) as s) ! i)\<lparr>pe_time := clock P w1\<rparr>]"
proof -
  have d: "DESTROY \<notin> set as" and t: "t \<le> clock P w1" using P s(5) r unfolding civil_def by (metis fst_conv, metis snd_conv order_trans)
  show "do_calls (clock P w1) as s = Some (fold (fds.apply_call (clock P w1)) as s)" "t \<le> clock P w1" by (rule do_calls_apply [OF d], rule t)
  note k = calls_keep [OF s(2), of "clock P w1" as]
  then show f: "scanning (fold (fds.apply_call (clock P w1)) as s)" "fits (fold (fds.apply_call (clock P w1)) as s)"
    "fs_timeout (fold (fds.apply_call (clock P w1)) as s) = fs_timeout s" using s(1) by auto
  show c: "calm_from t n (fold (fds.apply_call (clock P w1)) as s)" by (rule calls_calm [OF s(1) d s(2) t s(4)])
  have "i < fs_size (fold (fds.apply_call (clock P w1)) as s)" using k s(2,3) by (simp add: fits_def)
  from touch_time_ok [OF f(2) this t c] f show "\<exists>s'. touch_time (clock P w1) i (fold (fds.apply_call (clock P w1)) as s) = Some s' \<and> fits s' \<and> scanning s' \<and> fs_timeout s' = fs_timeout s \<and>
      calm_from t n s' \<and> fs_table s' = (fs_table (fold (fds.apply_call (clock P w1)) as s))
        [i := (fs_table (fold (fds.apply_call (clock P w1)) as s) ! i)\<lparr>pe_time := clock P w1\<rparr>]" by simp
qed

lemma scan_ends:
  assumes P: "civil P"
  shows "scanning s \<Longrightarrow> fits s \<Longrightarrow> calm_from t n s \<Longrightarrow> t \<le> clock P w \<Longrightarrow> n = i + m \<Longrightarrow>
    \<exists>F calls s' w'. (\<forall>fuel \<ge> F. scan P fuel t i s w = Some (calls, s', w')) \<and> length calls \<le> m"
proof (induction m arbitrary: i s w)
  case 0
  then have "\<forall>fuel \<ge> Suc (length (fs_table s)). scan P fuel t i s w = Some ([], s, w)" by (intro allI impI scan_calm) auto
  then show ?case by (intro exI [of _ "Suc (length (fs_table s))"] exI [of _ "[]"] exI [of _ s] exI [of _ w]) simp
next
  case (Suc m)
  have n: "n = (i + 1) + m" using Suc.prems(5) by simp
  show ?case
  proof (cases "i < length (fs_table s)")
    case False
    then have "\<forall>fuel \<ge> 1. scan P fuel t i s w = Some ([], s, w)" by (auto simp: Suc_le_eq gr0_conv_Suc)
    then show ?thesis by (intro exI [of _ 1] exI [of _ "[]"] exI [of _ s] exI [of _ w]) simp
  next
    case True
    let ?e = "fs_table s ! i"
    have step: "\<exists>F calls s' w'. (\<forall>fuel \<ge> F. scan P fuel t i s w = Some (calls, s', w')) \<and> length calls \<le> Suc m"
      if "\<And>fuel. scan P (Suc fuel) t i s w = map_option (\<lambda>(calls, res). (cs @ calls, res)) (scan P fuel t (i + 1) s1 w1)"
        "scanning s1" "fits s1" "calm_from t n s1" "t \<le> clock P w1" "length cs \<le> 1" for cs s1 w1
    proof -
      from Suc.IH [OF that(2-5) n] obtain F calls s' w' where
        f: "\<forall>fuel \<ge> F. scan P fuel t (i + 1) s1 w1 = Some (calls, s', w')" "length calls \<le> m" by blast
      have "scan P fuel t i s w = Some (cs @ calls, s', w')" if "Suc F \<le> fuel" for fuel
        using that f(1) \<open>\<And>fuel. scan P (Suc fuel) t i s w = _\<close> by (cases fuel) simp_all
      then show ?thesis using f(2) that(6) by (intro exI [of _ "Suc F"] exI [of _ "cs @ calls"] exI [of _ s'] exI [of _ w']) simp
    qed
    consider (event) "pe_revents ?e \<noteq> 0" | (time) "pe_revents ?e = 0" "timed_out (fs_timeout s) t ?e" | (none) "calm (fs_timeout s) t ?e"
      by (auto simp: calm_def)
    then show ?thesis
    proof cases
      case event
      obtain as w1 where r: "run_callback P (pe_callback ?e) (pe_fd ?e) (pe_revents ?e) (pe_data ?e) w = (as, w1)" by fastforce
      note c = called_step [OF P Suc.prems(1,2) True Suc.prems(3,4) r]
      from c(7) obtain s' where s': "touch_time (clock P w1) i (fold (fds.apply_call (clock P w1)) as s) = Some s'" "fits s'" "scanning s'" "calm_from t n s'" by blast
      show ?thesis
        by (rule step [of "[(pe_fd ?e, pe_revents ?e, pe_data ?e)]" s' w1])
          (use True event r c(1,2) s' in \<open>auto simp: Let_def bind_called\<close>)
    next
      case time
      obtain as w1 where r: "run_callback P (pe_callback ?e) (pe_fd ?e) (POLLERR) (pe_data ?e) w = (as, w1)" by fastforce
      note c = called_step [OF P Suc.prems(1,2) True Suc.prems(3,4) r]
      show ?thesis
        by (rule step [of "[(pe_fd ?e, POLLERR, pe_data ?e)]" "fold (fds.apply_call (clock P w1)) as s" w1])
          (use True time r c in \<open>auto simp: Let_def bind_called\<close>)
    next
      case none
      show ?thesis
        by (rule step [of "[]" s w]) (use True none Suc.prems in \<open>auto simp: Let_def calm_def option.map_id\<close>)
    qed
  qed
qed

text \<open>
  C35: a scan of the table always ends, whatever its callbacks register, listen to and take out, as long as they do not destroy the set and the clock does not run
  backwards; it never writes outside the arrays, and it makes at most one call for each entry the table had when the scan began,
  so that descriptors registered by a callback wait for the next round.
\<close>

theorem scan_terminates:
  assumes "civil P" "length (fs_table s) \<le> fs_size s"
  shows "\<exists>F calls s' w'. (\<forall>fuel \<ge> F. scan_table P fuel (clock P w) s w = Some (calls, s', w')) \<and> length calls \<le> length (fs_table s)"
proof -
  have "calm_from (clock P w) (length (fs_table s)) (s\<lparr>scanning := True\<rparr>)" by (auto simp: calm_from_def)
  from scan_ends [OF assms(1) _ _ this, of w 0 "length (fs_table s)"] assms(2)
  obtain F calls s' w' where "\<forall>fuel \<ge> F. scan P fuel (clock P w) 0 (s\<lparr>scanning := True\<rparr>) w = Some (calls, s', w')" "length calls \<le> length (fs_table s)"
    by (auto simp: fits_def)
  then show ?thesis unfolding scan_table_def by (intro exI [of _ F] exI [of _ calls]) auto
qed

section \<open>Which callbacks are called\<close>

text \<open>What a scan calls for an entry, when the entry is as it was.\<close>

definition due :: "('k, 'd, 'w) poll_env \<Rightarrow> int \<Rightarrow> int \<Rightarrow> ('k, 'd) pollent \<Rightarrow> 'd callback_call list" where
  "due P tmo t e =
     (if pe_revents e \<noteq> 0 then [(pe_fd e, pe_revents e, pe_data e)] else if timed_out tmo t e then [(pe_fd e, POLLERR, pe_data e)] else [])"

text \<open>A call that leaves the given descriptors alone.\<close>

definition spares :: "int set \<Rightarrow> ('k, 'd) action \<Rightarrow> bool" where
  "spares A a \<longleftrightarrow> (case a of LISTEN fd _ _ \<Rightarrow> fd \<notin> A | UNREGISTER fd \<Rightarrow> fd \<notin> A | REGISTER _ _ _ _ \<Rightarrow> True | DESTROY \<Rightarrow> False)"

definition upcoming :: "('k, 'd) pollent list \<Rightarrow> nat \<Rightarrow> ('k, 'd) fdset \<Rightarrow> bool" where
  "upcoming es i s \<longleftrightarrow> take (length es) (drop i (fs_table s)) = es"

lemma upcoming_nth: "upcoming es i s \<longleftrightarrow> (\<forall>j < length es. i + j < length (fs_table s) \<and> fs_table s ! (i + j) = es ! j)"
proof
  assume u: "upcoming es i s"
  show "\<forall>j < length es. i + j < length (fs_table s) \<and> fs_table s ! (i + j) = es ! j"
  proof (intro allI impI)
    fix j
    assume j: "j < length es"
    have l: "length es \<le> length (fs_table s) - i" using arg_cong [OF u [unfolded upcoming_def], of length] by simp
    moreover have "take (length es) (drop i (fs_table s)) ! j = es ! j" using u by (simp add: upcoming_def)
    ultimately show "i + j < length (fs_table s) \<and> fs_table s ! (i + j) = es ! j" using j by simp
  qed
next
  assume a: "\<forall>j < length es. i + j < length (fs_table s) \<and> fs_table s ! (i + j) = es ! j"
  have "length es \<le> length (fs_table s) - i" using a by (cases "length es") auto
  with a show "upcoming es i s" unfolding upcoming_def by (intro nth_equalityI) auto
qed

lemma call_upcoming:
  assumes s: "scanning s" "upcoming es i s" and a: "spares (pe_fd ` set es) a"
  shows "upcoming es i (fds.apply_call now a s)"
proof -
  have nd: "a \<noteq> DESTROY" using a by (auto simp: spares_def)
  have out: "k < i \<or> i + length es \<le> k"
    if "find_entry s (case a of LISTEN fd _ _ \<Rightarrow> fd | UNREGISTER fd \<Rightarrow> fd) = Some k" "\<And>fd ev k d. a \<noteq> REGISTER fd ev k d" for k
  proof (rule ccontr)
    assume "\<not> (k < i \<or> i + length es \<le> k)"
    then have "k = i + (k - i)" "k - i < length es" by auto
    then obtain j where j: "k = i + j" "j < length es" by blast
    have "pe_fd (fs_table s ! k) = (case a of LISTEN fd _ _ \<Rightarrow> fd | UNREGISTER fd \<Rightarrow> fd)" using that(1) first_pos_sat by (fastforce simp: find_entry_def)
    moreover have "fs_table s ! k = es ! j" using s(2) j by (simp add: upcoming_nth)
    ultimately show False using a j(2) that(2) nd by (cases a) (auto simp: spares_def)
  qed
  show ?thesis
  proof (cases rule: call_in_place [OF s(1) nd, where now = now, case_names append change shrink same])
    case (append e)
    then show ?thesis using s(2) by (auto simp: upcoming_nth nth_append)
  next
    case (change k e)
    have "i + j < length (fs_table s) \<and> (fs_table s)[k := e] ! (i + j) = es ! j" if "j < length es" for j
      using out [OF change(2,5)] s(2) that by (auto simp: upcoming_nth)
    then show ?thesis using change(1) by (simp add: upcoming_nth)
  next
    case shrink
    have "i + j < length (fs_table s) - 1 \<and> butlast (fs_table s) ! (i + j) = es ! j" if "j < length es" for j
      using out [OF shrink(2,3)] s(2) that by (auto simp: upcoming_nth nth_butlast)
    then show ?thesis using shrink(1) by (simp add: upcoming_nth)
  next
    case same
    then show ?thesis using s(2) by (simp add: upcoming_def)
  qed
qed

lemma calls_upcoming:
  "scanning s \<Longrightarrow> fits s \<Longrightarrow> upcoming es i s \<Longrightarrow> \<forall>a \<in> set as. spares (pe_fd ` set es) a \<Longrightarrow> upcoming es i (fold (fds.apply_call now) as s)"
proof (induction as arbitrary: s)
  case Nil
  then show ?case by simp
next
  case (Cons a as)
  note k = call_keeps [OF Cons.prems(2), of now a]
  have "upcoming es i (fds.apply_call now a s)" by (rule call_upcoming) (use Cons.prems in auto)
  with Cons.IH [of "fds.apply_call now a s"] k Cons.prems show ?case by simp
qed

text \<open>The callback of every entry leaves the descriptors of the other entries alone.\<close>

definition minds_own :: "('k, 'd, 'w) poll_env \<Rightarrow> int set \<Rightarrow> ('k, 'd) pollent \<Rightarrow> bool" where
  "minds_own P A e \<longleftrightarrow> (\<forall>ev w. \<forall>a \<in> set (fst (run_callback P (pe_callback e) (pe_fd e) ev (pe_data e) w)). spares (A - {pe_fd e}) a)"

lemma spares_mono: "spares A a \<Longrightarrow> B \<subseteq> A \<Longrightarrow> spares B a"
  by (auto simp: spares_def split: action.splits)

lemma scan_due:
  assumes P: "civil P"
  shows "scanning s \<Longrightarrow> fits s \<Longrightarrow> upcoming es i s \<Longrightarrow> calm_from t (i + length es) s \<Longrightarrow> t \<le> clock P w \<Longrightarrow> fs_timeout s = tmo \<Longrightarrow>
    \<forall>e \<in> set es. minds_own P A e \<Longrightarrow> pe_fd ` set es \<subseteq> A \<Longrightarrow> distinct (map pe_fd es) \<Longrightarrow>
    \<exists>F s' w'. \<forall>fuel \<ge> F. scan P fuel t i s w = Some (concat (map (due P tmo t) es), s', w')"
proof (induction es arbitrary: i s w)
  case Nil
  then have "\<forall>fuel \<ge> Suc (length (fs_table s)). scan P fuel t i s w = Some ([], s, w)" by (intro allI impI scan_calm) auto
  then show ?case by auto
next
  case (Cons e es)
  have i: "i < length (fs_table s)" "fs_table s ! i = e" and up: "upcoming es (i + 1) s" using Cons.prems(3) by (auto simp: upcoming_nth)
  have c: "calm_from t ((i + 1) + length es) s" using Cons.prems(4) by simp
  have step: "\<exists>F s' w'. \<forall>fuel \<ge> F. scan P fuel t i s w = Some (concat (map (due P tmo t) (e # es)), s', w')"
    if "\<And>fuel. scan P (Suc fuel) t i s w = map_option (\<lambda>(calls, res). (due P tmo t e @ calls, res)) (scan P fuel t (i + 1) s1 w1)"
      "scanning s1" "fits s1" "upcoming es (i + 1) s1" "calm_from t ((i + 1) + length es) s1" "t \<le> clock P w1" "fs_timeout s1 = tmo" for s1 w1
  proof -
    from Cons.IH [OF that(2-7)] Cons.prems(7-9) obtain F s' w' where
      f: "\<forall>fuel \<ge> F. scan P fuel t (i + 1) s1 w1 = Some (concat (map (due P tmo t) es), s', w')" by auto
    have "scan P fuel t i s w = Some (concat (map (due P tmo t) (e # es)), s', w')" if "Suc F \<le> fuel" for fuel
      using that f \<open>\<And>fuel. scan P (Suc fuel) t i s w = _\<close> by (cases fuel) simp_all
    then show ?thesis by (intro exI [of _ "Suc F"] exI [of _ s'] exI [of _ w']) simp
  qed
  have own: "\<forall>a \<in> set as. spares (pe_fd ` set es) a" if "run_callback P (pe_callback e) (pe_fd e) ev (pe_data e) w = (as, w1)" for ev as w1
  proof -
    have "pe_fd ` set es \<subseteq> A - {pe_fd e}" using Cons.prems(8,9) by (simp add: subset_Diff_insert)
    moreover have "\<forall>a \<in> set as. spares (A - {pe_fd e}) a" using Cons.prems(7) that unfolding minds_own_def by (metis fst_conv list.set_intros(1))
    ultimately show ?thesis using spares_mono by blast
  qed
  consider (event) "pe_revents e \<noteq> 0" | (time) "pe_revents e = 0" "timed_out (fs_timeout s) t e" | (none) "calm (fs_timeout s) t e"
    by (auto simp: calm_def)
  then show ?case
  proof cases
    case event
    obtain as w1 where r: "run_callback P (pe_callback e) (pe_fd e) (pe_revents e) (pe_data e) w = (as, w1)" by fastforce
    note d = called_step [OF P Cons.prems(1,2) i(1) c Cons.prems(5) r]
    have u: "upcoming es (i + 1) (fold (fds.apply_call (clock P w1)) as s)" by (rule calls_upcoming [OF Cons.prems(1,2) up own [OF r]])
    from d(7) obtain s' where s': "touch_time (clock P w1) i (fold (fds.apply_call (clock P w1)) as s) = Some s'" "fits s'" "scanning s'"
      "fs_timeout s' = fs_timeout s" "calm_from t (i + 1 + length es) s'" and
      tab: "fs_table s' = (fs_table (fold (fds.apply_call (clock P w1)) as s))[i := (fs_table (fold (fds.apply_call (clock P w1)) as s) ! i)\<lparr>pe_time := clock P w1\<rparr>]" by blast
    have "upcoming es (i + 1) s'" using u unfolding upcoming_nth tab by simp
    with s' d(1,2) r event i Cons.prems(6) show ?thesis by (intro step [of s' w1]) (auto simp: Let_def bind_called due_def)
  next
    case time
    obtain as w1 where r: "run_callback P (pe_callback e) (pe_fd e) (POLLERR) (pe_data e) w = (as, w1)" by fastforce
    note d = called_step [OF P Cons.prems(1,2) i(1) c Cons.prems(5) r]
    have "upcoming es (i + 1) (fold (fds.apply_call (clock P w1)) as s)" by (rule calls_upcoming [OF Cons.prems(1,2) up own [OF r]])
    with d time r i Cons.prems(6) show ?thesis
      by (intro step [of "fold (fds.apply_call (clock P w1)) as s" w1]) (auto simp: Let_def bind_called due_def)
  next
    case none
    with i up c Cons.prems(1,2,5,6) show ?thesis by (intro step [of s w]) (auto simp: Let_def calm_def due_def option.map_id)
  qed
qed

lemma table_distinct:
  assumes "fds_inv s" "\<not> scanning s"
  shows "distinct (map pe_fd (fs_table s))" "\<forall>e \<in> set (fs_table s). 0 \<le> pe_fd e"
proof -
  have "int (length (filter (\<lambda>e. pe_fd e < 0) (fs_table s))) = 0" using assms unfolding fds_inv_def by linarith
  then show n: "\<forall>e \<in> set (fs_table s). 0 \<le> pe_fd e" by (auto simp: filter_empty_conv)
  then have "live s = fs_table s" by (auto simp: live_def filter_id_conv)
  then show "distinct (map pe_fd (fs_table s))" using assms(1) by (simp add: fds_inv_def)
qed

text \<open>
  C18: when every callback leaves the descriptors of the other entries alone (it may listen to, take out and register its own and new ones), a scan
  calls back exactly once, in the order of the table and with its own descriptor and data, for every entry with an event, and with \<^verbatim>\<open>POLLERR\<close> for
  every entry that was silent longer than the timeout; it calls for no other.
\<close>

theorem scan_calls:
  assumes "civil P" "fds_inv s" "\<not> scanning s" "\<forall>e \<in> set (fs_table s). minds_own P (pe_fd ` set (fs_table s)) e"
  shows "\<exists>F s' w'. \<forall>fuel \<ge> F. scan_table P fuel (clock P w) s w = Some (concat (map (due P (fs_timeout s) (clock P w)) (fs_table s)), s', w')"
proof -
  let ?s = "s\<lparr>scanning := True\<rparr>"
  have "distinct (map pe_fd (fs_table s))" by (rule table_distinct [OF assms(2,3)])
  moreover have "calm_from (clock P w) (0 + length (fs_table s)) ?s" "upcoming (fs_table s) 0 ?s" "fits ?s"
    using assms(2) by (auto simp: calm_from_def upcoming_def fits_def fds_inv_def)
  ultimately obtain F s' w' where "\<forall>fuel \<ge> F. scan P fuel (clock P w) 0 ?s w = Some (concat (map (due P (fs_timeout s) (clock P w)) (fs_table s)), s', w')"
    using scan_due [OF assms(1), of ?s "fs_table s" 0 "clock P w" w "fs_timeout s" "pe_fd ` set (fs_table s)"] assms(4) by auto
  then show ?thesis unfolding scan_table_def by (intro exI [of _ F]) auto
qed

section \<open>Requests of other threads\<close>

text \<open>
  C34: the requests that other threads have submitted are performed in their order: the set of descriptors becomes what the requests make of it,
  taken as updates of a finite map, the table stays in order, every thread that waits is woken once, and no request is left.
\<close>

theorem requests_refine_map:
  assumes "fds_inv s" "calls_ok (map fst (fs_actions s)) (registered s)"
  shows "\<exists>s'. handle_actions t (fs_actions s) s = (List.map_filter snd (fs_actions s), Some s') \<and> fds_inv s' \<and>
    registered s' = fold spec_call (map fst (fs_actions s)) (registered s) \<and> fs_actions s' = []"
proof -
  have "\<exists>s'. handle_actions t rs s = (List.map_filter snd rs, Some s') \<and> fds_inv s' \<and> registered s' = fold spec_call (map fst rs) (registered s) \<and> fs_actions s' = []"
    if "fds_inv s" "calls_ok (map fst rs) (registered s)" "fs_actions s = rs" for rs s
    using that
  proof (induction rs arbitrary: s)
    case Nil
    then show ?case by (auto simp: map_filter_simps)
  next
    case (Cons r rs)
    let ?s = "s\<lparr>fs_actions := rs\<rparr>"
    have i: "fds_inv ?s" "registered ?s = registered s" using Cons.prems(1) by (auto simp: fds_inv_def registered_def live_def)
    have ok: "calls_ok (fst r # map fst rs) (registered ?s)" using Cons.prems(2) i(2) by simp
    note a = fds.apply_call_ok [OF i(1) ok, of t]
    have n: "fst r \<noteq> DESTROY" using ok by (auto split: action.splits)
    have f: "fs_actions (fds.apply_call t (fst r) ?s) = rs"
      using n by (cases "fst r") (auto simp: fdset_register_def fdset_listen_def fdset_unregister_def remove_entry_def Let_def split: option.split)
    have "calls_ok (map fst rs) (registered (fds.apply_call t (fst r) ?s))" using ok a(2) by (simp del: spec_call.simps)
    from Cons.IH [OF a(1) this f] obtain s' where s': "handle_actions t rs (fds.apply_call t (fst r) ?s) = (List.map_filter snd rs, Some s')" "fds_inv s'"
      "registered s' = fold spec_call (map fst rs) (registered (fds.apply_call t (fst r) ?s))" "fs_actions s' = []" by blast
    show ?case
      using s' a(2) i(2) perform_apply [OF n, of t ?s] by (auto simp: handle_action_def map_filter_simps split: option.splits)
  qed
  then show ?thesis using assms by blast
qed

section \<open>A descriptor that is taken out during a scan\<close>

text \<open>
  C37: \<^verbatim>\<open>fdset_unregister\<close> promises that no callback is made for the descriptor once it returns.  During a scan the promise is broken: it marks the entry and leaves its
  events, so that when the callback of an entry takes out a later one that has an event too and is not the last of the table, the scan
  still makes the call, with the data that may have been freed and -1 for the descriptor.
\<close>

theorem unregistered_called:
  assumes s: "fds_inv s" "\<not> scanning s" "fs_table s = a # us @ b # vs" "vs \<noteq> []" "pe_revents a \<noteq> 0" "pe_revents b \<noteq> 0"
    and P: "\<forall>k fd ev d w. run_callback P k fd ev d w = (if fd = pe_fd a then [UNREGISTER (pe_fd b)] else [], w)"
  shows "\<exists>F calls s' w'. (\<forall>fuel \<ge> F. scan_table P fuel (clock P w) s w = Some (calls, s', w')) \<and> (-1, pe_revents b, pe_data b) \<in> set calls"
proof -
  have civ: "civil P" using P by (simp add: civil_def)
  note dist = table_distinct [OF s(1,2)]
  let ?s = "s\<lparr>scanning := True\<rparr>" and ?b = "b\<lparr>pe_fd := -1\<rparr>"
  let ?es = "us @ ?b # vs" and ?i = "Suc (length us)"
  have "pe_fd b \<notin> pe_fd ` set (a # us)" using dist(1) s(3) by simp
  then have "\<forall>x \<in> set (a # us). pe_fd x \<noteq> pe_fd b" by (metis image_eqI)
  then have "first_pos (\<lambda>e. pe_fd e = pe_fd b) (fs_table s) = Some ?i"
    using s(3) first_pos_append [of "a # us" "\<lambda>e. pe_fd e = pe_fd b" b vs] by simp
  then have f: "find_entry ?s (pe_fd b) = Some ?i" by (simp add: find_entry_def)
  have u: "fdset_unregister (pe_fd b) ?s = ?s\<lparr>fs_table := a # ?es, deleted_entries := deleted_entries s + 1\<rparr>"
    using f s(3,4) by (simp add: fdset_unregister_def)
  let ?t = "?s\<lparr>deleted_entries := deleted_entries s + 1, fs_table := a\<lparr>pe_time := clock P w\<rparr> # ?es\<rparr>"
  have size: "length (fs_table s) \<le> fs_size s" using s(1) by (simp add: fds_inv_def)
  have step: "scan P (Suc fuel) (clock P w) 0 ?s w = map_option (\<lambda>(calls, res). ([(pe_fd a, pe_revents a, pe_data a)] @ calls, res)) (scan P fuel (clock P w) 1 ?t w)" for fuel
    using P s(3,5) u size by (simp add: Let_def perform_def touch_time_def bind_called)
  have "pe_fd a \<notin> pe_fd ` set ?es" using dist s(3) by (simp add: image_Un)
  then have "\<forall>e \<in> set ?es. pe_fd e \<noteq> pe_fd a" by (metis image_eqI)
  then have mo: "\<forall>e \<in> set ?es. minds_own P (pe_fd ` set ?es) e" using P by (simp add: minds_own_def)
  have "\<forall>e \<in> set us \<union> set vs. pe_fd e \<noteq> -1"
  proof
    fix e
    assume "e \<in> set us \<union> set vs"
    then have "e \<in> set (fs_table s)" using s(3) by auto
    with dist(2) have "0 \<le> pe_fd e" by blast
    then show "pe_fd e \<noteq> -1" by simp
  qed
  then have "-1 \<notin> pe_fd ` set us" "-1 \<notin> pe_fd ` set vs" by (metis UnI1 imageE, metis UnI2 imageE)
  then have "distinct (map pe_fd ?es)" using dist(1) s(3) by simp
  moreover have "fits ?t" "upcoming ?es 1 ?t" "calm_from (clock P w) (1 + length ?es) ?t"
    using size s(3) by (auto simp: fits_def upcoming_def calm_from_def)
  ultimately obtain F s' w' where
    F: "\<forall>fuel \<ge> F. scan P fuel (clock P w) 1 ?t w = Some (concat (map (due P (fs_timeout s) (clock P w)) ?es), s', w')"
    using scan_due [OF civ, of ?t ?es 1 "clock P w" w "fs_timeout s" "pe_fd ` set ?es"] mo by auto
  let ?calls = "(pe_fd a, pe_revents a, pe_data a) # concat (map (due P (fs_timeout s) (clock P w)) ?es)"
  have "scan P fuel (clock P w) 0 ?s w = Some (?calls, s', w')" if "Suc F \<le> fuel" for fuel
    using that F step by (cases fuel) simp_all
  then have "\<forall>fuel \<ge> Suc F. \<exists>s'. scan_table P fuel (clock P w) s w = Some (?calls, s', w')" by (simp add: scan_table_def)
  moreover have "(-1, pe_revents b, pe_data b) \<in> set ?calls" using s(6) by (simp add: due_def)
  ultimately show ?thesis
    using \<open>\<And>fuel. Suc F \<le> fuel \<Longrightarrow> _\<close> unfolding scan_table_def by (intro exI [of _ "Suc F"] exI [of _ ?calls]) auto
qed

section \<open>Runs\<close>

definition sample_entry :: "int \<Rightarrow> events \<Rightarrow> (nat, octstr) pollent" where
  "sample_entry fd ev = \<lparr> pe_fd = fd, pe_events = 1, pe_revents = ev, pe_callback = 0, pe_data = ''conn'', pe_time = 0 \<rparr>"

definition sample_set :: "(nat, octstr) fdset" where
  "sample_set = \<lparr> fs_table = [sample_entry 4 1, sample_entry 5 1, sample_entry 6 0], fs_size = 3, fs_timeout = 10, scanning = False, deleted_entries = 0,
     fs_actions = [(UNREGISTER 4, Some 7), (REGISTER 8 1 0 ''new'', None)] \<rparr>"

definition sample_poll :: "(nat, octstr) action list \<Rightarrow> (nat, octstr, int) poll_env" where
  "sample_poll as = \<lparr> run_callback = (\<lambda>k fd ev d w. (if fd = 4 then as else [], w)), clock = (\<lambda>w. w) \<rparr>"

lemma sample_set_inv: "fds_inv sample_set" "\<not> scanning sample_set" "length (fs_table sample_set) \<le> fs_size sample_set"
  by (simp_all add: fds_inv_def live_def sample_set_def sample_entry_def)

lemma sample_poll_clock: "clock (sample_poll as) w = w"
  by (simp add: sample_poll_def)

lemma sample_civil: "DESTROY \<notin> set as \<Longrightarrow> civil (sample_poll as)"
  by (simp add: civil_def sample_poll_def)

theorem scan_terminates_witness:
  "\<exists>F calls s' w'. (\<forall>fuel \<ge> F. scan_table (sample_poll [REGISTER 9 1 0 [], UNREGISTER 6]) fuel 20 sample_set 20 = Some (calls, s', w')) \<and> length calls \<le> 3"
proof -
  have "length (fs_table sample_set) = 3" by (simp add: sample_set_def)
  then show ?thesis
    using scan_terminates [OF sample_civil sample_set_inv(3), of "[REGISTER 9 1 0 [], UNREGISTER 6]" 20] by (simp add: sample_poll_clock)
qed

theorem scan_calls_witness:
  "\<exists>F s' w'. \<forall>fuel \<ge> F. scan_table (sample_poll [UNREGISTER 4, REGISTER 9 1 0 []]) fuel 20 sample_set 20 =
     Some ([(4, 1, ''conn''), (5, 1, ''conn''), (6, 8, ''conn'')], s', w')"
proof -
  let ?P = "sample_poll [UNREGISTER 4, REGISTER 9 1 0 []]"
  have m: "\<forall>e \<in> set (fs_table sample_set). minds_own ?P (pe_fd ` set (fs_table sample_set)) e"
    by (simp add: minds_own_def sample_set_def sample_poll_def spares_def sample_entry_def)
  have d: "concat (map (due ?P (fs_timeout sample_set) 20) (fs_table sample_set)) = [(4, 1, ''conn''), (5, 1, ''conn''), (6, 8, ''conn'')]"
    by code_simp
  show ?thesis using scan_calls [OF sample_civil sample_set_inv(1,2) m, of 20] unfolding sample_poll_clock d by simp
qed

theorem requests_refine_map_witness:
  "\<exists>s'. handle_actions 20 (fs_actions sample_set) sample_set = ([7], Some s') \<and> registered s' 4 = None \<and> registered s' 8 = Some (1, 0, ''new'')"
proof -
  have ok: "calls_ok (map fst (fs_actions sample_set)) (registered sample_set)"
    by (simp add: sample_set_def registered_def live_def sample_entry_def entry_pair_def)
  show ?thesis
    using requests_refine_map [OF sample_set_inv(1) ok, of 20] by (auto simp: sample_set_def map_filter_simps)
qed

theorem unregistered_called_witness:
  "\<exists>F calls s' w'. (\<forall>fuel \<ge> F. scan_table (sample_poll [UNREGISTER 5]) fuel 20 sample_set 20 = Some (calls, s', w')) \<and> (-1, 1, ''conn'') \<in> set calls"
proof -
  have t: "fs_table sample_set = sample_entry 4 1 # [] @ sample_entry 5 1 # [sample_entry 6 0]" by (simp add: sample_set_def)
  have r: "\<forall>k fd ev d w. run_callback (sample_poll [UNREGISTER 5]) k fd ev d w =
      (if fd = pe_fd (sample_entry 4 1) then [UNREGISTER (pe_fd (sample_entry 5 1))] else [], w)" by (simp add: sample_poll_def sample_entry_def)
  have "pe_revents (sample_entry 4 1) \<noteq> 0" "pe_revents (sample_entry 5 1) = 1" "pe_data (sample_entry 5 1) = ''conn''" by (simp_all add: sample_entry_def)
  then show ?thesis using unregistered_called [OF sample_set_inv(1,2) t _ _ _ r, of 20] by (simp add: sample_poll_clock)
qed

end
