(* ===== verification/Conn.thy ===== *)
theory Conn
  imports Fdset
begin

text \<open>
  The buffered connections of \<^verbatim>\<open>gwlib/conn.c\<close> over a socket without SSL: writing, reading by length, by line, by marks and by a length in front, and the
  registration with a set of descriptors.

  A connection is used under its locks, or by the thread that claimed it, so an operation is one step.  The calls to the kernel are a parameter on a state of
  the kernel; the calls to the set of descriptors are collected, in their order, as actions of \<open>Fdset\<close>.
\<close>

section \<open>The connection\<close>

record connection =
  cn_fd :: int
  claimed :: bool
  connected :: bool
  outbuf :: octstr
  outbufpos :: nat
  output_buffering :: nat
  inbuf :: octstr
  inbufpos :: int
  read_eof :: bool
  io_error :: bool
  in_set :: "nat option"
  callback :: "nat option"
  callback_data :: "nat option"
  callback_data_destroyer :: bool
  listening_pollin :: bool
  listening_pollout :: bool

datatype read_result = Read_data octstr | Read_eof | Read_again | Read_error

datatype pollfd_result = Poll_ready events | Poll_intr | Poll_error

record 'w sys =
  octstr_write_data :: "octstr \<Rightarrow> int \<Rightarrow> nat \<Rightarrow> 'w \<Rightarrow> int \<times> 'w"
  sys_read :: "int \<Rightarrow> 'w \<Rightarrow> read_result \<times> 'w"
  gwthread_pollfd :: "int \<Rightarrow> events \<Rightarrow> 'w \<Rightarrow> pollfd_result \<times> 'w"

text \<open>The functions on octet strings and numbers that the code calls.\<close>

record conn_ops =
  cn_octstr :: octstr_ops
  octstr_search_char_from :: "octstr \<Rightarrow> char \<Rightarrow> int \<Rightarrow> int"
  encode_network_long :: "int \<Rightarrow> octstr"
  decode_network_long :: "octstr \<Rightarrow> int"

definition conn_ops_spec :: "conn_ops \<Rightarrow> bool" where
  "conn_ops_spec K \<longleftrightarrow> octstr_spec (cn_octstr K) \<and>
     (\<forall>s c p. 0 \<le> p \<longrightarrow> octstr_search_char_from K s c p = (case first_pos (\<lambda>d. d = c) (drop (nat p) s) of None \<Rightarrow> -1 | Some i \<Rightarrow> p + int i)) \<and>
     (\<forall>n. length (encode_network_long K n) = 4) \<and>
     (\<forall>n. 0 \<le> n \<and> n < 2 ^ 31 \<longrightarrow> decode_network_long K (encode_network_long K n) = n)"

record 'w conn_state =
  cs_conn :: connection
  cs_world :: 'w
  cs_actions :: "(unit, nat) action list"
  cs_destroyed :: "nat list"

definition with_conn_of :: "(connection \<Rightarrow> connection) \<Rightarrow> 'w conn_state \<Rightarrow> 'w conn_state" where
  "with_conn_of f st = st\<lparr>cs_conn := f (cs_conn st)\<rparr>"

definition emit :: "(unit, nat) action \<Rightarrow> 'w conn_state \<Rightarrow> 'w conn_state" where
  "emit a st = st\<lparr>cs_actions := cs_actions st @ [a]\<rparr>"

definition conn_wrap_fd :: "int \<Rightarrow> connection" where
  "conn_wrap_fd fd = \<lparr> cn_fd = fd, claimed = False, connected = True, outbuf = [], outbufpos = 0, output_buffering = 0, inbuf = [], inbufpos = 0,
     read_eof = False, io_error = False, in_set = None, callback = None, callback_data = None, callback_data_destroyer = False,
     listening_pollin = False, listening_pollout = False \<rparr>"

definition conn_claim :: "connection \<Rightarrow> connection option" where
  "conn_claim c = (if claimed c then None else Some (c\<lparr>claimed := True\<rparr>))"

definition unlocked_outbuf_len :: "connection \<Rightarrow> int" where
  "unlocked_outbuf_len c = int (length (outbuf c)) - int (outbufpos c)"

definition unlocked_inbuf_len :: "connection \<Rightarrow> int" where
  "unlocked_inbuf_len c = int (length (inbuf c)) - inbufpos c"

section \<open>Polling\<close>

definition unlocked_register_pollin :: "bool \<Rightarrow> 'w conn_state \<Rightarrow> 'w conn_state" where
  "unlocked_register_pollin onoff st =
     (if onoff \<and> \<not> listening_pollin (cs_conn st)
      then emit (LISTEN (cn_fd (cs_conn st)) POLLIN POLLIN) (with_conn_of (\<lambda>c. c\<lparr>listening_pollin := True\<rparr>) st)
      else if \<not> onoff \<and> listening_pollin (cs_conn st)
      then emit (LISTEN (cn_fd (cs_conn st)) POLLIN 0) (with_conn_of (\<lambda>c. c\<lparr>listening_pollin := False\<rparr>) st)
      else st)"

definition unlocked_register_pollout :: "bool \<Rightarrow> 'w conn_state \<Rightarrow> 'w conn_state" where
  "unlocked_register_pollout onoff st =
     (if onoff \<and> \<not> listening_pollout (cs_conn st)
      then emit (LISTEN (cn_fd (cs_conn st)) POLLOUT POLLOUT) (with_conn_of (\<lambda>c. c\<lparr>listening_pollout := True\<rparr>) st)
      else if \<not> onoff \<and> listening_pollout (cs_conn st)
      then emit (LISTEN (cn_fd (cs_conn st)) POLLOUT 0) (with_conn_of (\<lambda>c. c\<lparr>listening_pollout := False\<rparr>) st)
      else st)"

section \<open>Writing\<close>

text \<open>What has been written is dropped from the buffer when it is more than half of it.\<close>

definition written :: "conn_ops \<Rightarrow> nat \<Rightarrow> connection \<Rightarrow> connection" where
  "written K n c =
     (let c1 = c\<lparr>outbufpos := outbufpos c + n\<rparr>
      in if outbufpos c1 > length (outbuf c1) div 2
         then c1\<lparr>outbuf := octstr_delete (cn_octstr K) (outbuf c1) 0 (outbufpos c1), outbufpos := 0\<rparr> else c1)"

definition unlocked_write :: "conn_ops \<Rightarrow> 'w sys \<Rightarrow> 'w conn_state \<Rightarrow> int \<times> 'w conn_state" where
  "unlocked_write K S st =
     (case octstr_write_data S (outbuf (cs_conn st)) (cn_fd (cs_conn st)) (outbufpos (cs_conn st)) (cs_world st) of
        (ret, w) \<Rightarrow>
          (let st1 = st\<lparr>cs_world := w\<rparr>
           in if ret < 0 then (-1, with_conn_of (\<lambda>c. c\<lparr>io_error := True\<rparr>) st1)
              else let st2 = with_conn_of (written K (nat ret)) st1
                in (ret, if in_set (cs_conn st2) \<noteq> None then unlocked_register_pollout (unlocked_outbuf_len (cs_conn st2) > 0) st2 else st2)))"

definition unlocked_try_write :: "conn_ops \<Rightarrow> 'w sys \<Rightarrow> 'w conn_state \<Rightarrow> int \<times> 'w conn_state" where
  "unlocked_try_write K S st =
     (let len = unlocked_outbuf_len (cs_conn st)
      in if len = 0 then (0, st)
         else if len < int (output_buffering (cs_conn st)) then (1, st)
         else case unlocked_write K S st of
           (ret, st1) \<Rightarrow> if ret < 0 then (-1, st1) else if unlocked_outbuf_len (cs_conn st1) > 0 then (1, st1) else (0, st1))"

definition conn_write :: "conn_ops \<Rightarrow> 'w sys \<Rightarrow> octstr \<Rightarrow> 'w conn_state \<Rightarrow> int \<times> 'w conn_state" where
  "conn_write K S data st = unlocked_try_write K S (with_conn_of (\<lambda>c. c\<lparr>outbuf := octstr_append (cn_octstr K) (outbuf c) data\<rparr>) st)"

definition conn_write_withlen :: "conn_ops \<Rightarrow> 'w sys \<Rightarrow> octstr \<Rightarrow> 'w conn_state \<Rightarrow> int \<times> 'w conn_state" where
  "conn_write_withlen K S data st =
     unlocked_try_write K S (with_conn_of (\<lambda>c. c\<lparr>outbuf :=
       octstr_append (cn_octstr K) (octstr_append (cn_octstr K) (outbuf c) (encode_network_long K (int (length data)))) data\<rparr>) st)"

definition conn_set_output_buffering :: "conn_ops \<Rightarrow> 'w sys \<Rightarrow> nat \<Rightarrow> 'w conn_state \<Rightarrow> 'w conn_state" where
  "conn_set_output_buffering K S n st = snd (unlocked_try_write K S (with_conn_of (\<lambda>c. c\<lparr>output_buffering := n\<rparr>) st))"

text \<open>\<^verbatim>\<open>conn_flush\<close> returns when everything is written, on an error, or when the thread is woken up; the first argument bounds its rounds.\<close>

fun flush_loop :: "nat \<Rightarrow> conn_ops \<Rightarrow> 'w sys \<Rightarrow> 'w conn_state \<Rightarrow> (int \<times> 'w conn_state) option" where
  "flush_loop 0 K S st = None"
| "flush_loop (Suc fuel) K S st =
     (if unlocked_outbuf_len (cs_conn st) = 0 then Some (0, st)
      else case gwthread_pollfd S (cn_fd (cs_conn st)) POLLOUT (cs_world st) of
        (r, w) \<Rightarrow> (let st1 = st\<lparr>cs_world := w\<rparr> in
          case r of
            Poll_intr \<Rightarrow> Some (1, st1)
          | Poll_error \<Rightarrow> Some (-1, st1)
          | Poll_ready revents \<Rightarrow>
              if revents = 0 then Some (1, st1)
              else if revents AND POLLNVAL \<noteq> 0 then Some (-1, st1)
              else if revents AND (POLLOUT OR POLLERR OR POLLHUP) \<noteq> 0
              then case unlocked_write K S st1 of (ret, st2) \<Rightarrow> if ret < 0 then Some (-1, st2) else flush_loop fuel K S st2
              else flush_loop fuel K S st1))"

definition conn_flush :: "nat \<Rightarrow> conn_ops \<Rightarrow> 'w sys \<Rightarrow> 'w conn_state \<Rightarrow> (int \<times> 'w conn_state) option" where
  "conn_flush fuel K S st = (case unlocked_write K S st of (ret, st1) \<Rightarrow> if ret < 0 then Some (-1, st1) else flush_loop fuel K S st1)"

section \<open>Reading\<close>

definition unlocked_read :: "conn_ops \<Rightarrow> 'w sys \<Rightarrow> 'w conn_state \<Rightarrow> 'w conn_state" where
  "unlocked_read K S st =
     (let st1 = (if inbufpos (cs_conn st) > 0
           then with_conn_of (\<lambda>c. c\<lparr>inbuf := octstr_delete (cn_octstr K) (inbuf c) 0 (nat (inbufpos c)), inbufpos := 0\<rparr>) st else st)
      in case sys_read S (cn_fd (cs_conn st1)) (cs_world st1) of
        (r, w) \<Rightarrow> (let st2 = st1\<lparr>cs_world := w\<rparr> in
          case r of
            Read_again \<Rightarrow> st2
          | Read_error \<Rightarrow> (let st3 = with_conn_of (\<lambda>c. c\<lparr>io_error := True\<rparr>) st2
              in if in_set (cs_conn st3) \<noteq> None then unlocked_register_pollin False st3 else st3)
          | Read_eof \<Rightarrow> (let st3 = with_conn_of (\<lambda>c. c\<lparr>read_eof := True\<rparr>) st2
              in if in_set (cs_conn st3) \<noteq> None then unlocked_register_pollin False st3 else st3)
          | Read_data d \<Rightarrow> with_conn_of (\<lambda>c. c\<lparr>inbuf := inbuf c @ d\<rparr>) st2))"

text \<open>The assertions of \<^verbatim>\<open>unlocked_get\<close> and of \<^verbatim>\<open>octstr_copy\<close>, which takes no negative length, end the process when they fail.\<close>

definition unlocked_get :: "conn_ops \<Rightarrow> int \<Rightarrow> connection \<Rightarrow> (octstr \<times> connection) option" where
  "unlocked_get K len c =
     (if unlocked_inbuf_len c \<ge> len \<and> 0 \<le> len \<and> 0 \<le> inbufpos c
      then Some (octstr_copy (cn_octstr K) (inbuf c) (nat (inbufpos c)) (nat len), c\<lparr>inbufpos := inbufpos c + len\<rparr>) else None)"

definition get_bytes :: "conn_ops \<Rightarrow> int \<Rightarrow> 'w conn_state \<Rightarrow> (octstr option \<times> 'w conn_state) option" where
  "get_bytes K len st = map_option (\<lambda>(s, c). (Some s, st\<lparr>cs_conn := c\<rparr>)) (unlocked_get K len (cs_conn st))"

definition conn_read_everything :: "conn_ops \<Rightarrow> 'w sys \<Rightarrow> 'w conn_state \<Rightarrow> (octstr option \<times> 'w conn_state) option" where
  "conn_read_everything K S st =
     (let st1 = (if unlocked_inbuf_len (cs_conn st) = 0 then unlocked_read K S st else st)
      in if unlocked_inbuf_len (cs_conn st1) = 0 then Some (None, st1) else get_bytes K (unlocked_inbuf_len (cs_conn st1)) st1)"

definition conn_read_fixed :: "conn_ops \<Rightarrow> 'w sys \<Rightarrow> int \<Rightarrow> 'w conn_state \<Rightarrow> (octstr option \<times> 'w conn_state) option" where
  "conn_read_fixed K S len st =
     (if len < 1 then Some (None, st)
      else let st1 = (if unlocked_inbuf_len (cs_conn st) < len then unlocked_read K S st else st)
        in if unlocked_inbuf_len (cs_conn st1) < len then Some (None, st1) else get_bytes K len st1)"

definition conn_read_line :: "conn_ops \<Rightarrow> 'w sys \<Rightarrow> 'w conn_state \<Rightarrow> (octstr option \<times> 'w conn_state) option" where
  "conn_read_line K S st =
     (let st1 = (if octstr_search_char_from K (inbuf (cs_conn st)) (CHR 0x0A) (inbufpos (cs_conn st)) < 0 then unlocked_read K S st else st);
          pos = octstr_search_char_from K (inbuf (cs_conn st1)) (CHR 0x0A) (inbufpos (cs_conn st1))
      in if pos < 0 then Some (None, st1)
         else do {
           (s, c) \<leftarrow> unlocked_get K (pos - inbufpos (cs_conn st1)) (cs_conn st1);
           Some (Some (if s \<noteq> [] \<and> last s = CHR 0x0D then butlast s else s), st1\<lparr>cs_conn := c\<lparr>inbufpos := inbufpos c + 1\<rparr>\<rparr>) })"

text \<open>
  The length in front of a message.  The loop skips lengths that are negative; when fewer than four bytes are left it ends with the length it had, which is
  0 at first and the negative one after a skip.
\<close>

function header_loop :: "conn_ops \<Rightarrow> octstr \<Rightarrow> int \<Rightarrow> int \<Rightarrow> int \<times> int" where
  "header_loop K buf pos len =
     (if int (length buf) - pos < 4 then (pos, len)
      else let len1 = decode_network_long K (take 4 (drop (nat pos) buf))
        in if len1 < 0 then header_loop K buf (pos + 4) len1 else (pos, len1))"
  by pat_completeness auto
termination
  by (relation "measure (\<lambda>(K, buf, pos, len). nat (int (length buf) - pos))") auto

declare header_loop.simps [simp del]

definition withlen_try :: "conn_ops \<Rightarrow> int \<Rightarrow> 'w conn_state \<Rightarrow> (int \<times> octstr option \<times> 'w conn_state) option" where
  "withlen_try K len st =
     (case header_loop K (inbuf (cs_conn st)) (inbufpos (cs_conn st)) len of
        (pos, len1) \<Rightarrow>
          (let c = (cs_conn st)\<lparr>inbufpos := pos\<rparr>
           in if unlocked_inbuf_len c - 4 < len1 then Some (len1, None, st\<lparr>cs_conn := c\<rparr>)
              else map_option (\<lambda>(s, c1). (len1, Some s, st\<lparr>cs_conn := c1\<rparr>)) (unlocked_get K len1 (c\<lparr>inbufpos := pos + 4\<rparr>))))"

definition conn_read_withlen :: "conn_ops \<Rightarrow> 'w sys \<Rightarrow> 'w conn_state \<Rightarrow> (octstr option \<times> 'w conn_state) option" where
  "conn_read_withlen K S st = do {
     (len1, r1, st1) \<leftarrow> withlen_try K 0 st;
     (if r1 \<noteq> None then Some (r1, st1)
      else do { (len2, r2, st2) \<leftarrow> withlen_try K len1 (unlocked_read K S st1); Some (r2, st2) }) }"

definition packet_try :: "conn_ops \<Rightarrow> char \<Rightarrow> char \<Rightarrow> 'w conn_state \<Rightarrow> (octstr option \<times> 'w conn_state) option" where
  "packet_try K startmark endmark st =
     (let buf = inbuf (cs_conn st); startpos = octstr_search_char_from K buf startmark (inbufpos (cs_conn st))
      in if startpos < 0 then Some (None, with_conn_of (\<lambda>c. c\<lparr>inbufpos := int (length buf)\<rparr>) st)
         else let st1 = with_conn_of (\<lambda>c. c\<lparr>inbufpos := startpos\<rparr>) st; endpos = octstr_search_char_from K buf endmark startpos
           in if endpos < 0 then Some (None, st1) else get_bytes K (endpos - startpos + 1) st1)"

definition conn_read_packet :: "conn_ops \<Rightarrow> 'w sys \<Rightarrow> char \<Rightarrow> char \<Rightarrow> 'w conn_state \<Rightarrow> (octstr option \<times> 'w conn_state) option" where
  "conn_read_packet K S startmark endmark st = do {
     (r1, st1) \<leftarrow> packet_try K startmark endmark st;
     (if r1 \<noteq> None then Some (r1, st1) else packet_try K startmark endmark (unlocked_read K S st1)) }"

section \<open>Waiting and registration\<close>

definition conn_wait :: "conn_ops \<Rightarrow> 'w sys \<Rightarrow> 'w conn_state \<Rightarrow> int \<times> 'w conn_state" where
  "conn_wait K S st =
     (case unlocked_write K S st of
        (ret, st1) \<Rightarrow>
          if ret < 0 then (-1, st1)
          else if ret > 0 then (0, st1)
          else
            (let c = cs_conn st1;
                 out = (if unlocked_outbuf_len c > 0 then POLLOUT else 0);
                 events = (if \<not> read_eof c \<and> \<not> io_error c \<or> out = 0 then out OR POLLIN else out)
             in case gwthread_pollfd S (cn_fd c) events (cs_world st1) of
               (r, w) \<Rightarrow> (let st2 = st1\<lparr>cs_world := w\<rparr> in
                 case r of
                   Poll_intr \<Rightarrow> (0, st2)
                 | Poll_error \<Rightarrow> (-1, st2)
                 | Poll_ready revents \<Rightarrow>
                     if revents = 0 then (1, st2)
                     else if revents AND POLLNVAL \<noteq> 0 then (-1, st2)
                     else if revents AND (POLLERR OR POLLHUP) \<noteq> 0 then (-1, unlocked_read K S st2)
                     else let st3 = (if revents AND POLLOUT \<noteq> 0 then snd (unlocked_write K S st2) else st2)
                       in (0, if revents AND POLLIN \<noteq> 0 then unlocked_read K S st3 else st3))))"

text \<open>Whether the connection's own callback is called, and the state before that call.\<close>

definition poll_callback :: "conn_ops \<Rightarrow> 'w sys \<Rightarrow> int \<Rightarrow> events \<Rightarrow> 'w conn_state \<Rightarrow> bool \<times> 'w conn_state" where
  "poll_callback K S fd revents st =
     (let c = cs_conn st in
      if cn_fd c \<noteq> fd then (False, st)
      else if \<not> connected c then (callback c \<noteq> None, st)
      else
        (let err = revents AND (POLLERR OR POLLHUP) \<noteq> 0;
             st1 = (if err
               then let a = (if listening_pollin (cs_conn st) then unlocked_register_pollin False st else st);
                        b = (if listening_pollout (cs_conn a) then unlocked_register_pollout False a else a)
                 in with_conn_of (\<lambda>c. c\<lparr>io_error := True\<rparr>) b
               else st);
             st2 = (if revents AND POLLOUT \<noteq> 0 then snd (unlocked_write K S st1) else st1);
             sent = (revents AND POLLOUT \<noteq> 0 \<and> unlocked_outbuf_len (cs_conn st2) = 0);
             st3 = (if revents AND POLLIN \<noteq> 0 then unlocked_read K S st2 else st2)
         in ((err \<or> sent \<or> revents AND POLLIN \<noteq> 0) \<and> callback (cs_conn st3) \<noteq> None, st3)))"

definition conn_register_real :: "nat \<Rightarrow> nat option \<Rightarrow> nat option \<Rightarrow> bool \<Rightarrow> nat \<Rightarrow> 'w conn_state \<Rightarrow> int \<times> 'w conn_state" where
  "conn_register_real fdset cb data destroyer self st =
     (let c = cs_conn st in
      if cn_fd c < 0 then (-1, st)
      else if in_set c = Some fdset
      then let c1 = c\<lparr>callback := cb, callback_data := data, callback_data_destroyer := destroyer\<rparr> in
        (0, (case callback_data c of
               Some d \<Rightarrow> if data \<noteq> Some d \<and> callback_data_destroyer c then st\<lparr>cs_conn := c1, cs_destroyed := cs_destroyed st @ [d]\<rparr> else st\<lparr>cs_conn := c1\<rparr>
             | None \<Rightarrow> st\<lparr>cs_conn := c1\<rparr>))
      else if in_set c \<noteq> None then (-1, st)
      else
        (let pin = (\<not> connected c \<or> \<not> read_eof c \<and> \<not> io_error c);
             pout = (\<not> connected c \<or> unlocked_outbuf_len c > 0);
             events = (if pin then POLLIN else 0) OR (if pout then POLLOUT else 0)
         in (0, emit (REGISTER (cn_fd c) events () self) (st\<lparr>cs_conn := c\<lparr>in_set := Some fdset, callback := cb, callback_data := data,
               callback_data_destroyer := destroyer, listening_pollin := pin, listening_pollout := pout\<rparr>\<rparr>))))"

definition conn_unregister :: "'w conn_state \<Rightarrow> 'w conn_state" where
  "conn_unregister st =
     (let c = cs_conn st in
      if cn_fd c < 0 \<or> in_set c = None then st
      else emit (UNREGISTER (cn_fd c)) (st\<lparr>cs_conn := c\<lparr>in_set := None, callback := None, callback_data := None, callback_data_destroyer := False,
             listening_pollin := False, listening_pollout := False\<rparr>,
           cs_destroyed := cs_destroyed st @ (case callback_data c of Some d \<Rightarrow> if callback_data_destroyer c then [d] else [] | None \<Rightarrow> [])\<rparr>))"

text \<open>\<^verbatim>\<open>conn_destroy\<close>: what it leaves behind, the connection apart.\<close>

definition conn_destroy :: "conn_ops \<Rightarrow> 'w sys \<Rightarrow> 'w conn_state \<Rightarrow> 'w conn_state" where
  "conn_destroy K S st =
     (let c = cs_conn st;
          st1 = (if in_set c \<noteq> None
            then emit (UNREGISTER (cn_fd c)) (st\<lparr>cs_destroyed := cs_destroyed st @ (case callback_data c of Some d \<Rightarrow> if callback_data_destroyer c then [d] else [] | None \<Rightarrow> [])\<rparr>)
            else st)
      in if cn_fd c \<ge> 0 then with_conn_of (\<lambda>c. c\<lparr>cn_fd := -1\<rparr>) (snd (unlocked_try_write K S st1)) else st1)"

section \<open>The kernel\<close>

text \<open>
  What the code relies on: a write takes the bytes from the position on, or some of them, and a read delivers the next bytes.  \<open>sent\<close> are the bytes the kernel has
  taken, \<open>coming\<close> those it will still deliver.
\<close>

locale socket =
  fixes S :: "'w sys" and sent :: "'w \<Rightarrow> octstr" and coming :: "'w \<Rightarrow> octstr"
  assumes write_count: "octstr_write_data S buf fd p w = (n, w') \<Longrightarrow> p \<le> length buf \<Longrightarrow> n \<le> int (length buf) - int p"
    and write_sent: "octstr_write_data S buf fd p w = (n, w') \<Longrightarrow> p \<le> length buf \<Longrightarrow> sent w' = sent w @ take (nat n) (drop p buf)"
    and write_coming: "octstr_write_data S buf fd p w = (n, w') \<Longrightarrow> coming w' = coming w"
    and read_coming: "sys_read S fd w = (r, w') \<Longrightarrow> coming w = (case r of Read_data d \<Rightarrow> d @ coming w' | _ \<Rightarrow> coming w')"
    and read_sent: "sys_read S fd w = (r, w') \<Longrightarrow> sent w' = sent w"
    and poll_coming: "gwthread_pollfd S fd ev w = (q, w') \<Longrightarrow> coming w' = coming w"
    and poll_sent: "gwthread_pollfd S fd ev w = (q, w') \<Longrightarrow> sent w' = sent w"

text \<open>What a connection has to write and to read.\<close>

definition unwritten :: "'w conn_state \<Rightarrow> octstr" where
  "unwritten st = drop (outbufpos (cs_conn st)) (outbuf (cs_conn st))"

definition unread :: "'w conn_state \<Rightarrow> octstr" where
  "unread st = drop (nat (inbufpos (cs_conn st))) (inbuf (cs_conn st))"

definition bufs_ok :: "connection \<Rightarrow> bool" where
  "bufs_ok c \<longleftrightarrow> outbufpos c \<le> length (outbuf c) \<and> 0 \<le> inbufpos c \<and> inbufpos c \<le> int (length (inbuf c))"

lemma with_conn_of_simps [simp]:
  "cs_conn (with_conn_of f st) = f (cs_conn st)" "cs_world (with_conn_of f st) = cs_world st"
  "cs_actions (with_conn_of f st) = cs_actions st" "cs_destroyed (with_conn_of f st) = cs_destroyed st"
  by (simp_all add: with_conn_of_def)

lemma emit_simps [simp]:
  "cs_conn (emit a st) = cs_conn st" "cs_world (emit a st) = cs_world st" "cs_actions (emit a st) = cs_actions st @ [a]"
  by (simp_all add: emit_def)

text \<open>Registering for events leaves the buffers and the kernel alone.\<close>

definition same_bufs :: "'w conn_state \<Rightarrow> 'w conn_state \<Rightarrow> bool" where
  "same_bufs st st' \<longleftrightarrow> outbuf (cs_conn st') = outbuf (cs_conn st) \<and> outbufpos (cs_conn st') = outbufpos (cs_conn st) \<and>
     inbuf (cs_conn st') = inbuf (cs_conn st) \<and> inbufpos (cs_conn st') = inbufpos (cs_conn st) \<and> cs_world st' = cs_world st"

lemma same_bufsD:
  assumes "same_bufs st st'"
  shows "unwritten st' = unwritten st" "unread st' = unread st" "cs_world st' = cs_world st" "bufs_ok (cs_conn st') = bufs_ok (cs_conn st)"
    "inbuf (cs_conn st') = inbuf (cs_conn st)" "inbufpos (cs_conn st') = inbufpos (cs_conn st)"
  using assms by (simp_all add: same_bufs_def unwritten_def unread_def bufs_ok_def)

lemma same_bufs_refl: "same_bufs st st"
  by (simp add: same_bufs_def)

lemma register_poll_bufs: "same_bufs st (unlocked_register_pollin b st)" "same_bufs st (unlocked_register_pollout b st)"
  by (simp_all add: same_bufs_def unlocked_register_pollin_def unlocked_register_pollout_def)

section \<open>Streams of messages\<close>

text \<open>
  The contract of a stream that messages are put on: each comes behind what was there, in its frame.  \<open>total\<close> is all that was ever put.
\<close>

locale output_stream =
  fixes put :: "octstr \<Rightarrow> 's \<Rightarrow> 's" and frame :: "octstr \<Rightarrow> octstr" and total :: "'s \<Rightarrow> octstr" and invar :: "'s \<Rightarrow> bool"
  assumes put_law: "invar s \<Longrightarrow> invar (put d s) \<and> total (put d s) = total s @ frame d"
begin

lemma puts_total: "invar s \<Longrightarrow> invar (fold put ds s) \<and> total (fold put ds s) = total s @ concat (map frame ds)"
proof (induction ds arbitrary: s)
  case Nil
  then show ?case by simp
next
  case (Cons d ds)
  with put_law [OF Cons.prems, of d] show ?case by simp
qed

end

text \<open>
  The contract of a stream that messages are taken from: \<open>left\<close> is what is still to be read, which may end within a message whose other bytes,
  \<open>more\<close>, have not been sent yet.  An attempt either gets the next message, or nothing, and then nothing is lost.
\<close>

fun reads :: "('s \<Rightarrow> (octstr option \<times> 's) option) \<Rightarrow> nat \<Rightarrow> 's \<Rightarrow> (octstr list \<times> 's) option" where
  "reads get 0 s = Some ([], s)"
| "reads get (Suc n) s = do {
     (r, s1) \<leftarrow> get s;
     (ms, s2) \<leftarrow> reads get n s1;
     Some ((case r of None \<Rightarrow> ms | Some m \<Rightarrow> m # ms), s2) }"

locale input_stream =
  fixes get :: "'s \<Rightarrow> (octstr option \<times> 's) option" and frame :: "octstr \<Rightarrow> octstr" and left :: "'s \<Rightarrow> octstr" and invar :: "'s \<Rightarrow> bool"
    and ok :: "octstr \<Rightarrow> bool"
  assumes get_law: "invar s \<Longrightarrow> ok m \<Longrightarrow> left s @ rest = frame m @ r \<Longrightarrow>
      \<exists>x s'. get s = Some (x, s') \<and> invar s' \<and> (x = None \<and> left s' = left s \<or> x = Some m \<and> left s' @ rest = r)"
    and get_empty: "invar s \<Longrightarrow> left s = [] \<Longrightarrow> \<exists>s'. get s = Some (None, s') \<and> invar s' \<and> left s' = []"
begin

lemma reads_prefix:
  "invar s \<Longrightarrow> \<forall>m \<in> set ms. ok m \<Longrightarrow> left s @ rest = concat (map frame ms) \<Longrightarrow>
     \<exists>k s'. reads get n s = Some (take k ms, s') \<and> left s' @ rest = concat (map frame (drop k ms)) \<and> invar s'"
proof (induction n arbitrary: s ms)
  case 0
  then show ?case by (intro exI [of _ 0]) simp
next
  case (Suc n)
  show ?case
  proof (cases ms)
    case Nil
    with Suc.prems(3) have e: "left s = []" by simp
    from get_empty [OF Suc.prems(1) e] obtain s' where g: "get s = Some (None, s')" "invar s'" "left s' = []" by blast
    with Suc.IH [OF g(2), of "[]"] Suc.prems(3) Nil show ?thesis by auto
  next
    case (Cons m ms')
    from get_law [OF Suc.prems(1), of m rest "concat (map frame ms')"] Suc.prems(2,3) Cons obtain x s' where
      g: "get s = Some (x, s')" "invar s'" "x = None \<and> left s' = left s \<or> x = Some m \<and> left s' @ rest = concat (map frame ms')" by auto
    from g(3) show ?thesis
    proof (elim disjE conjE)
      assume "x = None" "left s' = left s"
      with g(1) Suc.IH [OF g(2) Suc.prems(2)] Suc.prems(3) show ?thesis by auto
    next
      assume x: "x = Some m" "left s' @ rest = concat (map frame ms')"
      from Suc.IH [OF g(2) _ x(2)] Suc.prems(2) Cons obtain k s2 where
        "reads get n s' = Some (take k ms', s2)" "left s2 @ rest = concat (map frame (drop k ms'))" "invar s2" by auto
      with g(1) x(1) Cons show ?thesis by (intro exI [of _ "Suc k"] exI [of _ s2]) simp
    qed
  qed
qed

end

text \<open>
  A stream that delivers: an attempt that gets nothing, while the next message has been sent, has moved bytes nearer, so that enough attempts get every message.
\<close>

locale live_input_stream = input_stream +
  fixes pending :: "'a \<Rightarrow> nat"
  assumes get_progress: "invar s \<Longrightarrow> ok m \<Longrightarrow> left s = frame m @ r \<Longrightarrow> get s = Some (x, s') \<Longrightarrow>
      pending s' \<le> pending s \<and> (x = None \<longrightarrow> pending s' < pending s)"
begin

lemma reads_all:
  "invar s \<Longrightarrow> \<forall>m \<in> set ms. ok m \<Longrightarrow> left s = concat (map frame ms) \<Longrightarrow> length ms + pending s \<le> n \<Longrightarrow>
     \<exists>s'. reads get n s = Some (ms, s') \<and> left s' = [] \<and> invar s'"
proof (induction n arbitrary: s ms)
  case 0
  then show ?case by simp
next
  case (Suc n)
  show ?case
  proof (cases ms)
    case Nil
    with reads_prefix [OF Suc.prems(1), of "[]" "[]" "Suc n"] Suc.prems(3) show ?thesis by auto
  next
    case (Cons m ms')
    have m: "ok m" and l: "left s = frame m @ concat (map frame ms')" using Suc.prems(2,3) Cons by simp_all
    from get_law [OF Suc.prems(1) m, of "[]" "concat (map frame ms')"] l obtain x s' where
      g: "get s = Some (x, s')" "invar s'" "x = None \<and> left s' = left s \<or> x = Some m \<and> left s' = concat (map frame ms')" by auto
    note p = get_progress [OF Suc.prems(1) m l g(1)]
    from g(3) show ?thesis
    proof (elim disjE conjE)
      assume x: "x = None" "left s' = left s"
      then have "left s' = concat (map frame ms)" "length ms + pending s' \<le> n" using Suc.prems(3,4) p by simp_all
      from Suc.IH [OF g(2) Suc.prems(2) this] show ?thesis using g(1) x(1) by auto
    next
      assume x: "x = Some m" "left s' = concat (map frame ms')"
      have "length ms' + pending s' \<le> n" using Suc.prems(4) p Cons by simp
      from Suc.IH [OF g(2) _ x(2) this] Suc.prems(2) Cons show ?thesis using g(1) x(1) by auto
    qed
  qed
qed

end

section \<open>A connection is such a stream\<close>

locale conn_socket = socket +
  fixes K :: conn_ops
  assumes K: "conn_ops_spec K"
begin

lemma octstr_K: "octstr_spec (cn_octstr K)"
  using K by (simp add: conn_ops_spec_def)

lemma written_bufs:
  assumes "outbufpos c + n \<le> length (outbuf c)"
  shows "outbufpos (written K n c) \<le> length (outbuf (written K n c))"
    "drop (outbufpos (written K n c)) (outbuf (written K n c)) = drop (outbufpos c + n) (outbuf c)"
    "inbuf (written K n c) = inbuf c" "inbufpos (written K n c) = inbufpos c"
  using assms by (simp_all add: written_def Let_def octstr_delete_spec [OF octstr_K])

lemma unlocked_write_bufs:
  assumes ok: "bufs_ok (cs_conn st)" and r: "unlocked_write K S st = (ret, st')"
  shows "bufs_ok (cs_conn st')" "sent (cs_world st') @ unwritten st' = sent (cs_world st) @ unwritten st"
    "inbuf (cs_conn st') = inbuf (cs_conn st)" "inbufpos (cs_conn st') = inbufpos (cs_conn st)" "coming (cs_world st') = coming (cs_world st)"
proof -
  let ?c = "cs_conn st"
  obtain n w where w: "octstr_write_data S (outbuf ?c) (cn_fd ?c) (outbufpos ?c) (cs_world st) = (n, w)" by fastforce
  have p: "outbufpos ?c \<le> length (outbuf ?c)" using ok by (simp add: bufs_ok_def)
  have n: "n \<le> int (length (outbuf ?c)) - int (outbufpos ?c)" and s: "sent w = sent (cs_world st) @ take (nat n) (unwritten st)"
    and c: "coming w = coming (cs_world st)" using write_count [OF w p] write_sent [OF w p] write_coming [OF w] by (simp_all add: unwritten_def)
  define st2 where "st2 = (if n < 0 then with_conn_of (\<lambda>c. c\<lparr>io_error := True\<rparr>) (st\<lparr>cs_world := w\<rparr>) else with_conn_of (written K (nat n)) (st\<lparr>cs_world := w\<rparr>))"
  have le: "outbufpos ?c + nat n \<le> length (outbuf ?c)" using n p by (cases "0 \<le> n") auto
  note wb = written_bufs [OF le]
  have "bufs_ok (cs_conn st2) \<and> sent (cs_world st2) @ unwritten st2 = sent (cs_world st) @ unwritten st \<and>
      inbuf (cs_conn st2) = inbuf ?c \<and> inbufpos (cs_conn st2) = inbufpos ?c \<and> coming (cs_world st2) = coming (cs_world st)"
  proof (cases "n < 0")
    case True
    then show ?thesis using s c ok by (simp add: st2_def unwritten_def bufs_ok_def)
  next
    case False
    then have "unwritten st2 = drop (nat n) (unwritten st)" by (simp add: st2_def unwritten_def wb(2) add.commute)
    with False show ?thesis using s c ok wb by (simp add: st2_def bufs_ok_def)
  qed
  moreover have "st' = st2 \<or> (\<exists>b. st' = unlocked_register_pollout b st2)"
    using r w by (auto simp: unlocked_write_def st2_def Let_def split: if_splits)
  then have "same_bufs st2 st'" using register_poll_bufs(2) same_bufs_refl by blast
  note sb = same_bufsD [OF this]
  ultimately show "bufs_ok (cs_conn st')" "sent (cs_world st') @ unwritten st' = sent (cs_world st) @ unwritten st"
    "inbuf (cs_conn st') = inbuf (cs_conn st)" "inbufpos (cs_conn st') = inbufpos (cs_conn st)" "coming (cs_world st') = coming (cs_world st)"
    by (simp_all add: sb)
qed

lemma unlocked_try_write_bufs:
  assumes ok: "bufs_ok (cs_conn st)"
  shows "bufs_ok (cs_conn (snd (unlocked_try_write K S st)))"
    "sent (cs_world (snd (unlocked_try_write K S st))) @ unwritten (snd (unlocked_try_write K S st)) = sent (cs_world st) @ unwritten st"
    "inbuf (cs_conn (snd (unlocked_try_write K S st))) = inbuf (cs_conn st)" "inbufpos (cs_conn (snd (unlocked_try_write K S st))) = inbufpos (cs_conn st)"
    "coming (cs_world (snd (unlocked_try_write K S st))) = coming (cs_world st)"
proof -
  obtain ret st1 where r: "unlocked_write K S st = (ret, st1)" by fastforce
  have "snd (unlocked_try_write K S st) = st \<or> snd (unlocked_try_write K S st) = st1" by (simp add: unlocked_try_write_def Let_def r)
  then show "bufs_ok (cs_conn (snd (unlocked_try_write K S st)))"
    "sent (cs_world (snd (unlocked_try_write K S st))) @ unwritten (snd (unlocked_try_write K S st)) = sent (cs_world st) @ unwritten st"
    "inbuf (cs_conn (snd (unlocked_try_write K S st))) = inbuf (cs_conn st)" "inbufpos (cs_conn (snd (unlocked_try_write K S st))) = inbufpos (cs_conn st)"
    "coming (cs_world (snd (unlocked_try_write K S st))) = coming (cs_world st)"
    using unlocked_write_bufs [OF ok r] ok by (elim disjE; simp)+
qed

lemma unlocked_read_bufs:
  assumes ok: "bufs_ok (cs_conn st)"
  shows "bufs_ok (cs_conn (unlocked_read K S st))"
    "unread (unlocked_read K S st) @ coming (cs_world (unlocked_read K S st)) = unread st @ coming (cs_world st)"
    "sent (cs_world (unlocked_read K S st)) = sent (cs_world st)" "unwritten (unlocked_read K S st) = unwritten st"
proof -
  define st1 where "st1 = (if inbufpos (cs_conn st) > 0
    then with_conn_of (\<lambda>c. c\<lparr>inbuf := octstr_delete (cn_octstr K) (inbuf c) 0 (nat (inbufpos c)), inbufpos := 0\<rparr>) st else st)"
  have 1: "bufs_ok (cs_conn st1)" "unread st1 = unread st" "unwritten st1 = unwritten st" "cs_world st1 = cs_world st" "inbufpos (cs_conn st1) = 0"
    using ok by (auto simp: st1_def bufs_ok_def unread_def unwritten_def octstr_delete_spec [OF octstr_K])
  obtain r w where r: "sys_read S (cn_fd (cs_conn st1)) (cs_world st1) = (r, w)" by fastforce
  note c = read_coming [OF r] and t = read_sent [OF r]
  define st2 where "st2 = (case r of Read_data d \<Rightarrow> with_conn_of (\<lambda>c. c\<lparr>inbuf := inbuf c @ d\<rparr>) (st1\<lparr>cs_world := w\<rparr>)
    | Read_eof \<Rightarrow> with_conn_of (\<lambda>c. c\<lparr>read_eof := True\<rparr>) (st1\<lparr>cs_world := w\<rparr>)
    | Read_error \<Rightarrow> with_conn_of (\<lambda>c. c\<lparr>io_error := True\<rparr>) (st1\<lparr>cs_world := w\<rparr>) | Read_again \<Rightarrow> st1\<lparr>cs_world := w\<rparr>)"
  have 2: "bufs_ok (cs_conn st2)" "unread st2 @ coming (cs_world st2) = unread st1 @ coming (cs_world st1)" "unwritten st2 = unwritten st1" "sent (cs_world st2) = sent (cs_world st1)"
    using 1 c t by (cases r; simp add: st2_def bufs_ok_def unread_def unwritten_def)+
  have "unlocked_read K S st = st2 \<or> unlocked_read K S st = unlocked_register_pollin False st2"
    unfolding unlocked_read_def st1_def [symmetric] Let_def r by (cases r) (simp_all add: st2_def)
  then have "same_bufs st2 (unlocked_read K S st)" using register_poll_bufs(1) same_bufs_refl by (elim disjE) simp_all
  note sb = same_bufsD [OF this]
  from 1 2 show "bufs_ok (cs_conn (unlocked_read K S st))"
    "unread (unlocked_read K S st) @ coming (cs_world (unlocked_read K S st)) = unread st @ coming (cs_world st)"
    "sent (cs_world (unlocked_read K S st)) = sent (cs_world st)" "unwritten (unlocked_read K S st) = unwritten st" by (simp_all add: sb)
qed

text \<open>What was ever put on a connection, and what is left to be read from it.\<close>

definition put_total :: "'a conn_state \<Rightarrow> octstr" where
  "put_total st = sent (cs_world st) @ unwritten st"

definition to_read :: "'a conn_state \<Rightarrow> octstr" where
  "to_read st = unread st @ coming (cs_world st)"

lemma appended_bufs:
  assumes "bufs_ok (cs_conn st)"
  shows "bufs_ok (cs_conn (with_conn_of (\<lambda>c. c\<lparr>outbuf := octstr_append (cn_octstr K) (outbuf c) d\<rparr>) st))"
    "unwritten (with_conn_of (\<lambda>c. c\<lparr>outbuf := octstr_append (cn_octstr K) (outbuf c) d\<rparr>) st) = unwritten st @ d"
  using assms by (simp_all add: bufs_ok_def unwritten_def octstr_append_spec [OF octstr_K])

end

sublocale conn_socket \<subseteq> plain_out: output_stream "\<lambda>d st. snd (conn_write K S d st)" "\<lambda>d. d" put_total "\<lambda>st. bufs_ok (cs_conn st)"
proof
  fix st :: "'a conn_state" and d :: octstr
  assume ok: "bufs_ok (cs_conn st)"
  note a = appended_bufs [OF ok, of d]
  show "bufs_ok (cs_conn (snd (conn_write K S d st))) \<and> put_total (snd (conn_write K S d st)) = put_total st @ d"
    using unlocked_try_write_bufs(1,2) [OF a(1)] a(2) by (simp add: conn_write_def put_total_def)
qed

sublocale conn_socket \<subseteq> framed_out: output_stream "\<lambda>d st. snd (conn_write_withlen K S d st)" "\<lambda>d. encode_network_long K (int (length d)) @ d" put_total
  "\<lambda>st. bufs_ok (cs_conn st)"
proof
  fix st :: "'a conn_state" and d :: octstr
  assume ok: "bufs_ok (cs_conn st)"
  let ?h = "encode_network_long K (int (length d))"
  let ?st = "with_conn_of (\<lambda>c. c\<lparr>outbuf := octstr_append (cn_octstr K) (octstr_append (cn_octstr K) (outbuf c) ?h) d\<rparr>) st"
  have a: "bufs_ok (cs_conn ?st)" "unwritten ?st = unwritten st @ ?h @ d" "cs_world ?st = cs_world st"
    using ok by (simp_all add: bufs_ok_def unwritten_def octstr_append_spec [OF octstr_K])
  show "bufs_ok (cs_conn (snd (conn_write_withlen K S d st))) \<and> put_total (snd (conn_write_withlen K S d st)) = put_total st @ ?h @ d"
    using unlocked_try_write_bufs(1,2) [OF a(1)] a(2,3) by (simp add: conn_write_withlen_def put_total_def)
qed

context conn_socket
begin

lemma prefix_parts:
  assumes "a @ b = c @ d" "length c \<le> length a"
  shows "take (length c) a = c" "drop (length c) a @ b = d"
proof -
  have "take (length c) (a @ b) = take (length c) (c @ d)" "drop (length c) (a @ b) = drop (length c) (c @ d)" using assms(1) by simp_all
  then show "take (length c) a = c" "drop (length c) a @ b = d" using assms(2) by simp_all
qed

lemma unread_len: "bufs_ok (cs_conn st) \<Longrightarrow> int (length (unread st)) = unlocked_inbuf_len (cs_conn st)"
  by (auto simp: unread_def unlocked_inbuf_len_def bufs_ok_def of_nat_diff nat_le_iff)

lemma unlocked_get_ok:
  assumes "bufs_ok c" "0 \<le> n" "n \<le> unlocked_inbuf_len c"
  shows "unlocked_get K n c = Some (take (nat n) (drop (nat (inbufpos c)) (inbuf c)), c\<lparr>inbufpos := inbufpos c + n\<rparr>)"
    "bufs_ok (c\<lparr>inbufpos := inbufpos c + n\<rparr>)"
  using assms by (simp_all add: unlocked_get_def bufs_ok_def octstr_copy_spec [OF octstr_K] unlocked_inbuf_len_def)

lemma withlen_try_ok:
  assumes ok: "bufs_ok (cs_conn st)" "0 \<le> len" "int (length m) < 2 ^ 31" and u: "unread st @ rest = encode_network_long K (int (length m)) @ m @ r"
  shows "\<exists>len' x st'. withlen_try K len st = Some (len', x, st') \<and> 0 \<le> len' \<and> bufs_ok (cs_conn st') \<and> cs_world st' = cs_world st \<and>
    unwritten st' = unwritten st \<and> (x = None \<and> unread st' = unread st \<and> length (unread st) < 4 + length m \<or> x = Some m \<and> unread st' @ rest = r)"
proof -
  let ?c = "cs_conn st" and ?h = "encode_network_long K (int (length m))"
  have h: "length ?h = 4" "decode_network_long K ?h = int (length m)" using K ok(3) by (simp_all add: conn_ops_spec_def)
  have n: "int (length (unread st)) = int (length (inbuf ?c)) - inbufpos ?c" using unread_len [OF ok(1)] by (simp add: unlocked_inbuf_len_def)
  have len: "unlocked_inbuf_len ?c = int (length (unread st))" using unread_len [OF ok(1)] by simp
  show ?thesis
  proof (cases "length (unread st) < 4")
    case True
    then have "header_loop K (inbuf ?c) (inbufpos ?c) len = (inbufpos ?c, len)" using n by (subst header_loop.simps) simp
    then have "withlen_try K len st = Some (len, None, st)" using True len ok(2) by (simp add: withlen_try_def Let_def)
    then show ?thesis using ok True by (intro exI [of _ len] exI [of _ None] exI [of _ st]) simp
  next
    case False
    note hd = prefix_parts [OF u, unfolded h(1)]
    have t: "take 4 (drop (nat (inbufpos ?c)) (inbuf ?c)) = ?h" and d: "drop 4 (unread st) @ rest = m @ r" using hd False by (simp_all add: unread_def)
    have hl: "header_loop K (inbuf ?c) (inbufpos ?c) len = (inbufpos ?c, int (length m))" using False n t h(2) by (subst header_loop.simps) simp
    show ?thesis
    proof (cases "int (length (unread st)) - 4 < int (length m)")
      case True
      then have "withlen_try K len st = Some (int (length m), None, st)" using hl len by (simp add: withlen_try_def Let_def)
      with True show ?thesis using ok(1) by (intro exI [of _ "int (length m)"] exI [of _ None] exI [of _ st]) simp
    next
      case mfits: False
      let ?c1 = "?c\<lparr>inbufpos := inbufpos ?c + 4\<rparr>"
      have c1: "bufs_ok ?c1" "int (length m) \<le> unlocked_inbuf_len ?c1"
        using ok(1) False mfits n by (simp_all add: bufs_ok_def unlocked_inbuf_len_def)
      note g = unlocked_get_ok [OF c1(1) _ c1(2)]
      let ?st = "st\<lparr>cs_conn := ?c1\<lparr>inbufpos := inbufpos ?c1 + int (length m)\<rparr>\<rparr>"
      have p: "nat (inbufpos ?c + 4) = nat (inbufpos ?c) + 4" "nat (inbufpos ?c + 4 + int (length m)) = nat (inbufpos ?c) + 4 + length m"
        using ok(1) by (simp_all add: bufs_ok_def nat_add_distrib)
      have "length m \<le> length (drop 4 (unread st))" using mfits False by simp
      note md = prefix_parts [OF d this]
      have got: "take (length m) (drop (nat (inbufpos ?c) + 4) (inbuf ?c)) = m" using md(1) by (simp add: unread_def add.commute)
      have rest: "unread ?st @ rest = r" using md(2) p(2) by (simp add: unread_def add.commute add.left_commute)
      have "withlen_try K len st = Some (int (length m), Some m, ?st)"
        using mfits hl len g(1) got p(1) by (simp add: withlen_try_def Let_def)
      moreover have "bufs_ok (cs_conn ?st)" using g(2) by simp
      ultimately show ?thesis
        using rest by (intro exI [of _ "int (length m)"] exI [of _ "Some m"] exI [of _ ?st]) (simp add: unwritten_def)
    qed
  qed
qed

lemma withlen_try_empty:
  assumes "bufs_ok (cs_conn st)" "0 \<le> len" "unread st = []"
  shows "withlen_try K len st = Some (len, None, st)"
proof -
  have "int (length (inbuf (cs_conn st))) - inbufpos (cs_conn st) = 0" using assms unread_len [OF assms(1)] by (simp add: unlocked_inbuf_len_def)
  then have "header_loop K (inbuf (cs_conn st)) (inbufpos (cs_conn st)) len = (inbufpos (cs_conn st), len)" "unlocked_inbuf_len (cs_conn st) = 0"
    by (simp_all add: header_loop.simps [of K _ _ len] unlocked_inbuf_len_def)
  then show ?thesis using assms(2) by (simp add: withlen_try_def Let_def)
qed

end

sublocale conn_socket \<subseteq> framed_in: input_stream "conn_read_withlen K S" "\<lambda>d. encode_network_long K (int (length d)) @ d" to_read
  "\<lambda>st. bufs_ok (cs_conn st)" "\<lambda>m. int (length m) < 2 ^ 31"
proof
  fix st :: "'a conn_state" and m rest r :: octstr
  assume ok: "bufs_ok (cs_conn st)" and m: "int (length m) < 2 ^ 31"
    and l: "to_read st @ rest = (encode_network_long K (int (length m)) @ m) @ r"
  have u: "unread st @ (coming (cs_world st) @ rest) = encode_network_long K (int (length m)) @ m @ r" using l by (simp add: to_read_def)
  from withlen_try_ok [OF ok _ m u, of 0] obtain len1 x1 st1 where
    1: "withlen_try K 0 st = Some (len1, x1, st1)" "0 \<le> len1" "bufs_ok (cs_conn st1)" "cs_world st1 = cs_world st"
      "x1 = None \<and> unread st1 = unread st \<or> x1 = Some m \<and> unread st1 @ coming (cs_world st) @ rest = r" by auto
  show "\<exists>x s'. conn_read_withlen K S st = Some (x, s') \<and> bufs_ok (cs_conn s') \<and> (x = None \<and> to_read s' = to_read st \<or> x = Some m \<and> to_read s' @ rest = r)"
  proof (cases x1)
    case (Some y)
    with 1 show ?thesis by (intro exI [of _ x1] exI [of _ st1]) (simp add: conn_read_withlen_def to_read_def)
  next
    case None
    note rd = unlocked_read_bufs [OF 1(3)]
    let ?st2 = "unlocked_read K S st1"
    have u2: "unread ?st2 @ (coming (cs_world ?st2) @ rest) = encode_network_long K (int (length m)) @ m @ r"
      using rd(2) 1(4,5) None u by (metis append.assoc option.distinct(1))
    from withlen_try_ok [OF rd(1) 1(2) m u2] obtain len2 x2 st3 where
      2: "withlen_try K len1 ?st2 = Some (len2, x2, st3)" "bufs_ok (cs_conn st3)" "cs_world st3 = cs_world ?st2"
        "x2 = None \<and> unread st3 = unread ?st2 \<or> x2 = Some m \<and> unread st3 @ coming (cs_world ?st2) @ rest = r" by auto
    have t: "to_read ?st2 = to_read st" using rd(2) 1(4,5) None by (simp add: to_read_def)
    have "conn_read_withlen K S st = Some (x2, st3)" using 1(1) 2(1) None by (simp add: conn_read_withlen_def)
    with 2 t show ?thesis by (intro exI [of _ x2] exI [of _ st3]) (auto simp: to_read_def)
  qed
next
  fix st :: "'a conn_state"
  assume ok: "bufs_ok (cs_conn st)" and l: "to_read st = []"
  have u: "unread st = []" using l by (simp add: to_read_def)
  note rd = unlocked_read_bufs [OF ok]
  have u2: "to_read (unlocked_read K S st) = []" using rd(2) l by (simp add: to_read_def)
  then have "unread (unlocked_read K S st) = []" by (simp add: to_read_def)
  then have "conn_read_withlen K S st = Some (None, unlocked_read K S st)"
    using withlen_try_empty [OF ok _ u] withlen_try_empty [OF rd(1)] by (simp add: conn_read_withlen_def)
  then show "\<exists>s'. conn_read_withlen K S st = Some (None, s') \<and> bufs_ok (cs_conn s') \<and> to_read s' = []" using rd(1) u2 by blast
qed

context conn_socket
begin

lemma search_unread:
  assumes "bufs_ok (cs_conn st)"
  shows "octstr_search_char_from K (inbuf (cs_conn st)) ch (inbufpos (cs_conn st)) =
    (case first_pos (\<lambda>d. d = ch) (unread st) of None \<Rightarrow> -1 | Some i \<Rightarrow> inbufpos (cs_conn st) + int i)"
  using K assms by (simp add: conn_ops_spec_def bufs_ok_def unread_def)

definition line_state :: "'a conn_state \<Rightarrow> 'a conn_state" where
  "line_state st = (if CHR 0x0A \<in> set (unread st) then st else unlocked_read K S st)"

lemma line_state_ok:
  assumes "bufs_ok (cs_conn st)"
  shows "bufs_ok (cs_conn (line_state st))" "to_read (line_state st) = to_read st"
    "conn_read_line K S st =
       (case first_pos (\<lambda>d. d = CHR 0x0A) (unread (line_state st)) of
          None \<Rightarrow> Some (None, line_state st)
        | Some i \<Rightarrow> (let s = take i (unread (line_state st)) in
            Some (Some (if s \<noteq> [] \<and> last s = CHR 0x0D then butlast s else s),
              with_conn_of (\<lambda>c. c\<lparr>inbufpos := inbufpos c + int i + 1\<rparr>) (line_state st))))"
proof -
  show ok: "bufs_ok (cs_conn (line_state st))" and "to_read (line_state st) = to_read st"
    using assms unlocked_read_bufs [OF assms] by (simp_all add: line_state_def to_read_def)
  have "octstr_search_char_from K (inbuf (cs_conn st)) (CHR 0x0A) (inbufpos (cs_conn st)) < 0 \<longleftrightarrow> CHR 0x0A \<notin> set (unread st)"
  proof (cases "first_pos (\<lambda>d. d = CHR 0x0A) (unread st)")
    case None
    then have "CHR 0x0A \<notin> set (unread st)" unfolding first_pos_None by blast
    with None show ?thesis by (simp add: search_unread [OF assms])
  next
    case (Some i)
    have "CHR 0x0A \<in> set (unread st)" using first_pos_lt [OF Some] first_pos_sat [OF Some] nth_mem by metis
    with Some assms show ?thesis by (simp add: search_unread [OF assms] bufs_ok_def)
  qed
  then have st1: "(if octstr_search_char_from K (inbuf (cs_conn st)) (CHR 0x0A) (inbufpos (cs_conn st)) < 0 then unlocked_read K S st else st) = line_state st"
    by (simp add: line_state_def)
  show "conn_read_line K S st =
       (case first_pos (\<lambda>d. d = CHR 0x0A) (unread (line_state st)) of
          None \<Rightarrow> Some (None, line_state st)
        | Some i \<Rightarrow> (let s = take i (unread (line_state st)) in
            Some (Some (if s \<noteq> [] \<and> last s = CHR 0x0D then butlast s else s),
              with_conn_of (\<lambda>c. c\<lparr>inbufpos := inbufpos c + int i + 1\<rparr>) (line_state st))))"
  proof (cases "first_pos (\<lambda>d. d = CHR 0x0A) (unread (line_state st))")
    case None
    then show ?thesis unfolding conn_read_line_def st1 Let_def search_unread [OF ok] by simp
  next
    case (Some i)
    have i: "int i \<le> unlocked_inbuf_len (cs_conn (line_state st))" using first_pos_lt [OF Some] unread_len [OF ok] by simp
    have p: "\<not> inbufpos (cs_conn (line_state st)) + int i < 0" using ok by (simp add: bufs_ok_def)
    show ?thesis
      using Some p unlocked_get_ok(1) [OF ok _ i] unfolding conn_read_line_def st1 Let_def search_unread [OF ok]
      by (simp add: with_conn_of_def unread_def)
  qed
qed

end

sublocale conn_socket \<subseteq> line_in: input_stream "conn_read_line K S" "\<lambda>l. l @ [CHR 0x0A]" to_read "\<lambda>st. bufs_ok (cs_conn st)"
  "\<lambda>l. CHR 0x0A \<notin> set l \<and> (l = [] \<or> last l \<noteq> CHR 0x0D)"
proof
  fix st :: "'a conn_state" and l rest r :: octstr
  assume ok: "bufs_ok (cs_conn st)" and l: "CHR 0x0A \<notin> set l \<and> (l = [] \<or> last l \<noteq> CHR 0x0D)"
    and t: "to_read st @ rest = (l @ [CHR 0x0A]) @ r"
  let ?st = "line_state st"
  note ls = line_state_ok [OF ok]
  have u: "unread ?st @ (coming (cs_world ?st) @ rest) = (l @ [CHR 0x0A]) @ r" using t ls(2) by (metis append.assoc to_read_def)
  show "\<exists>x s'. conn_read_line K S st = Some (x, s') \<and> bufs_ok (cs_conn s') \<and> (x = None \<and> to_read s' = to_read st \<or> x = Some l \<and> to_read s' @ rest = r)"
  proof (cases "length (unread ?st) \<le> length l")
    case True
    have "take (length (unread ?st)) (unread ?st @ (coming (cs_world ?st) @ rest)) = take (length (unread ?st)) (l @ [CHR 0x0A] @ r)" using u by simp
    then have "unread ?st = take (length (unread ?st)) l" using True by simp
    then have "CHR 0x0A \<notin> set (unread ?st)" using l in_set_takeD by metis
    then have "first_pos (\<lambda>d. d = CHR 0x0A) (unread ?st) = None" by (auto simp: first_pos_None)
    with ls show ?thesis by (intro exI [of _ None] exI [of _ ?st]) simp
  next
    case False
    note p = prefix_parts [OF u]
    have len: "length (l @ [CHR 0x0A]) \<le> length (unread ?st)" using False by simp
    let ?us = "drop (Suc (length l)) (unread ?st)"
    have "unread ?st = take (Suc (length l)) (unread ?st) @ ?us" by (rule append_take_drop_id [symmetric])
    also have "take (Suc (length l)) (unread ?st) = l @ [CHR 0x0A]" using p(1) [OF len] by simp
    finally have un: "unread ?st = l @ CHR 0x0A # ?us" by simp
    have f: "first_pos (\<lambda>d. d = CHR 0x0A) (unread ?st) = Some (length l)"
      by (subst un) (use l in \<open>auto intro: first_pos_append\<close>)
    let ?st' = "with_conn_of (\<lambda>c. c\<lparr>inbufpos := inbufpos c + int (length l) + 1\<rparr>) ?st"
    have tk: "take (length l) (unread ?st) = l" by (subst un) simp
    have b: "bufs_ok (cs_conn ?st')" using ls(1) unread_len [OF ls(1)] len by (simp add: bufs_ok_def unlocked_inbuf_len_def)
    have n: "nat (inbufpos (cs_conn ?st) + int (length l) + 1) = nat (inbufpos (cs_conn ?st)) + Suc (length l)"
      using ls(1) by (simp add: bufs_ok_def nat_add_distrib)
    have "to_read ?st' @ rest = r" using p(2) [OF len] n by (simp add: to_read_def unread_def add.commute)
    moreover have "conn_read_line K S st = Some (Some l, ?st')" using ls(3) f tk l by (auto simp: Let_def)
    ultimately show ?thesis using b by blast
  qed
next
  fix st :: "'a conn_state"
  assume ok: "bufs_ok (cs_conn st)" and l: "to_read st = []"
  note ls = line_state_ok [OF ok]
  have "unread (line_state st) = []" using l ls(2) by (simp add: to_read_def)
  then show "\<exists>s'. conn_read_line K S st = Some (None, s') \<and> bufs_ok (cs_conn s') \<and> to_read s' = []" using ls l by simp
qed

text \<open>A kernel that hands out what has come, as the peer's bytes do in the end.\<close>

locale live_socket = conn_socket +
  assumes read_live: "coming w \<noteq> [] \<Longrightarrow> \<exists>d w'. sys_read S fd w = (Read_data d, w') \<and> d \<noteq> []"
begin

lemma read_length: "sys_read S fd w = (r, w') \<Longrightarrow> length (coming w') \<le> length (coming w)"
  using read_coming [of fd w r w'] by (cases r) simp_all

lemma unlocked_read_moves:
  "length (coming (cs_world (unlocked_read K S st))) \<le> length (coming (cs_world st))"
  "coming (cs_world st) \<noteq> [] \<Longrightarrow> length (coming (cs_world (unlocked_read K S st))) < length (coming (cs_world st))"
proof -
  define c where "c = (if inbufpos (cs_conn st) > 0
    then with_conn_of (\<lambda>c. c\<lparr>inbuf := octstr_delete (cn_octstr K) (inbuf c) 0 (nat (inbufpos c)), inbufpos := 0\<rparr>) st else st)"
  have w1: "cs_world c = cs_world st" by (simp add: c_def)
  obtain r w where r: "sys_read S (cn_fd (cs_conn c)) (cs_world st) = (r, w)" by fastforce
  have w: "cs_world (unlocked_read K S st) = w"
    unfolding unlocked_read_def c_def [symmetric] Let_def w1 r using same_bufsD(3) [OF register_poll_bufs(1)]
    by (cases r) (simp_all add: unlocked_register_pollin_def)
  show "length (coming (cs_world (unlocked_read K S st))) \<le> length (coming (cs_world st))" using read_length [OF r] w by simp
  assume "coming (cs_world st) \<noteq> []"
  from read_live [OF this, of "cn_fd (cs_conn c)"] r obtain d where "r = Read_data d" "d \<noteq> []" by auto
  with read_coming [OF r] w show "length (coming (cs_world (unlocked_read K S st))) < length (coming (cs_world st))" by simp
qed

end

sublocale live_socket \<subseteq> live_in: live_input_stream "conn_read_withlen K S" "\<lambda>d. encode_network_long K (int (length d)) @ d" to_read
  "\<lambda>st. bufs_ok (cs_conn st)" "\<lambda>m. int (length m) < 2 ^ 31" "\<lambda>st. length (coming (cs_world st))"
proof
  fix st s' :: "'a conn_state" and m r :: octstr and x :: "octstr option"
  assume ok: "bufs_ok (cs_conn st)" and m: "int (length m) < 2 ^ 31" and l: "to_read st = (encode_network_long K (int (length m)) @ m) @ r"
    and g: "conn_read_withlen K S st = Some (x, s')"
  have u: "unread st @ coming (cs_world st) = encode_network_long K (int (length m)) @ m @ r" using l by (simp add: to_read_def)
  from withlen_try_ok [OF ok _ m u, of 0] obtain len1 x1 st1 where
    1: "withlen_try K 0 st = Some (len1, x1, st1)" "0 \<le> len1" "bufs_ok (cs_conn st1)" "cs_world st1 = cs_world st"
      "x1 = None \<and> unread st1 = unread st \<and> length (unread st) < 4 + length m \<or> x1 = Some m \<and> unread st1 @ coming (cs_world st) = r" by auto
  show "length (coming (cs_world s')) \<le> length (coming (cs_world st)) \<and> (x = None \<longrightarrow> length (coming (cs_world s')) < length (coming (cs_world st)))"
  proof (cases x1)
    case (Some y)
    with 1(1) g have "x = x1" "s' = st1" by (simp_all add: conn_read_withlen_def)
    with Some 1(4) show ?thesis by simp
  next
    case None
    note rd = unlocked_read_bufs [OF 1(3)]
    let ?st2 = "unlocked_read K S st1"
    have un: "unread st1 = unread st" "length (unread st) < 4 + length m" using 1(5) None by simp_all
    have u2: "unread ?st2 @ coming (cs_world ?st2) = encode_network_long K (int (length m)) @ m @ r"
      using rd(2) 1(4) un(1) u by simp
    from withlen_try_ok [OF rd(1) 1(2) m u2] obtain len2 x2 st3 where
      2: "withlen_try K len1 ?st2 = Some (len2, x2, st3)" "cs_world st3 = cs_world ?st2" by auto
    have s': "cs_world s' = cs_world ?st2" using g 1(1) 2 None by (simp add: conn_read_withlen_def)
    have "length (encode_network_long K (int (length m))) = 4" using K by (simp add: conn_ops_spec_def)
    then have "length (unread st) + length (coming (cs_world st)) = 4 + length m + length r" using arg_cong [OF u, of length] by simp
    then have "coming (cs_world st) \<noteq> []" using un(2) by auto
    then show ?thesis using unlocked_read_moves(2) [of st1] 1(4) s' by simp
  qed
qed

context conn_socket
begin

lemmas framed_puts = framed_out.puts_total
lemmas framed_reads = framed_in.reads_prefix
lemmas line_reads = line_in.reads_prefix

end

text \<open>
  \<^verbatim>\<open>conn_flush\<close> ends when a write to a socket that is ready takes something, and what it reports as flushed has been taken by the kernel.
\<close>

context conn_socket
begin

lemma unlocked_write_world: "unlocked_write K S st = (ret, st') \<Longrightarrow>
    \<exists>n w. octstr_write_data S (outbuf (cs_conn st)) (cn_fd (cs_conn st)) (outbufpos (cs_conn st)) (cs_world st) = (n, w) \<and> cs_world st' = w \<and> ret = (if n < 0 then -1 else n)"
  using same_bufsD(3) [OF register_poll_bufs(2)]
  by (auto simp: unlocked_write_def Let_def unlocked_register_pollout_def split: prod.splits if_splits)

lemma unlocked_write_shorter:
  assumes "bufs_ok (cs_conn st)" "unlocked_write K S st = (ret, st')" "0 < ret"
  shows "length (unwritten st') < length (unwritten st)"
proof -
  let ?c = "cs_conn st"
  from unlocked_write_world [OF assms(2)] assms(3) obtain w where
    w: "octstr_write_data S (outbuf ?c) (cn_fd ?c) (outbufpos ?c) (cs_world st) = (ret, w)" "cs_world st' = w" by (auto split: if_splits)
  have p: "outbufpos ?c \<le> length (outbuf ?c)" using assms(1) by (simp add: bufs_ok_def)
  have "sent w = sent (cs_world st) @ take (nat ret) (unwritten st)" "ret \<le> int (length (unwritten st))"
    using write_sent [OF w(1) p] write_count [OF w(1) p] p by (simp_all add: unwritten_def)
  then have "length (sent w) = length (sent (cs_world st)) + nat ret" by simp
  then show ?thesis using arg_cong [OF unlocked_write_bufs(2) [OF assms(1,2)], of length] w(2) assms(3) by simp
qed

lemma flush_loop_ok:
  assumes takes: "\<And>buf fd p w. p < length buf \<Longrightarrow> fst (octstr_write_data S buf fd p w) \<noteq> 0"
    and polls: "\<And>fd w ev w'. gwthread_pollfd S fd POLLOUT w = (Poll_ready ev, w') \<Longrightarrow> ev \<noteq> 0 \<Longrightarrow> ev AND POLLNVAL = 0 \<Longrightarrow> ev AND (POLLOUT OR POLLERR OR POLLHUP) \<noteq> 0"
  shows "bufs_ok (cs_conn st) \<Longrightarrow> length (unwritten st) < fuel \<Longrightarrow>
    \<exists>r st'. flush_loop fuel K S st = Some (r, st') \<and> bufs_ok (cs_conn st') \<and> sent (cs_world st') @ unwritten st' = sent (cs_world st) @ unwritten st \<and>
      (r = 0 \<longrightarrow> unwritten st' = [])"
proof (induction fuel arbitrary: st)
  case 0
  then show ?case by simp
next
  case (Suc fuel)
  have len: "unlocked_outbuf_len (cs_conn st) = int (length (unwritten st))"
    using Suc.prems(1) by (simp add: unlocked_outbuf_len_def unwritten_def bufs_ok_def of_nat_diff)
  obtain q w where q: "gwthread_pollfd S (cn_fd (cs_conn st)) POLLOUT (cs_world st) = (q, w)" by fastforce
  define st1 where "st1 = st\<lparr>cs_world := w\<rparr>"
  have 1: "bufs_ok (cs_conn st1)" "unwritten st1 = unwritten st" "sent (cs_world st1) = sent (cs_world st)"
    using Suc.prems(1) poll_sent [OF q] by (simp_all add: st1_def unwritten_def)
  show ?case
  proof (cases "unwritten st = []")
    case True
    then show ?thesis using len Suc.prems(1) by simp
  next
    case ne: False
    obtain ret st2 where 2: "unlocked_write K S st1 = (ret, st2)" by fastforce
    note w2 = unlocked_write_bufs(1,2) [OF 1(1) 2, unfolded 1]
    have "outbufpos (cs_conn st1) < length (outbuf (cs_conn st1))" using ne by (simp add: unwritten_def st1_def)
    then have "ret \<noteq> 0" using takes unlocked_write_world [OF 2] by (metis fst_conv neg_equal_0_iff_equal zero_neq_one)
    then have "0 < ret \<Longrightarrow> length (unwritten st2) < fuel" using unlocked_write_shorter [OF 1(1) 2] 1(2) Suc.prems(2) by simp
    note go = Suc.IH [OF w2(1) this, unfolded w2(2)]
    note step = flush_loop.simps(2) [of fuel K S st, unfolded q, folded st1_def]
    show ?thesis
      using step len ne 1 2 w2 go \<open>ret \<noteq> 0\<close> polls [of "cn_fd (cs_conn st)" "cs_world st" _ w] q
      by (cases q) (auto simp: Let_def st1_def [symmetric] split: if_splits)
  qed
qed

end

context live_socket
begin

lemmas framed_reads_all = live_in.reads_all

end

section \<open>A kernel in memory\<close>

text \<open>The numbers in network order, and a kernel that takes and hands out at most \<open>n\<close> bytes in a call: the laws above can hold.\<close>

definition network_long :: "int \<Rightarrow> octstr" where
  "network_long i = (let n = nat i in [char_of (n div 256 div 256 div 256), char_of (n div 256 div 256), char_of (n div 256), char_of n])"

definition signed_long :: "octstr \<Rightarrow> int" where
  "signed_long s = (let n = foldl (\<lambda>v c. v * 256 + of_char c) 0 s in if n < 2 ^ 31 then n else n - 2 ^ 32)"

definition conn_ref :: conn_ops where
  "conn_ref = \<lparr> cn_octstr = octstr_ref,
     octstr_search_char_from = (\<lambda>s c p. case first_pos (\<lambda>d. d = c) (drop (nat p) s) of None \<Rightarrow> -1 | Some i \<Rightarrow> p + int i),
     encode_network_long = network_long, decode_network_long = signed_long \<rparr>"

definition pipe_sys :: "nat \<Rightarrow> (octstr \<times> octstr) sys" where
  "pipe_sys n = \<lparr>
     octstr_write_data = (\<lambda>buf fd p (s, c). let d = take n (drop p buf) in (int (length d), s @ d, c)),
     sys_read = (\<lambda>fd (s, c). if take n c = [] then (Read_again, s, c) else (Read_data (take n c), s, drop n c)),
     gwthread_pollfd = (\<lambda>fd events w. (Poll_ready events, w)) \<rparr>"

lemma signed_network_long:
  assumes "0 \<le> i" "i < 2 ^ 31"
  shows "signed_long (network_long i) = i"
proof -
  define n where "n = nat i"
  have n: "n < 2 ^ 31" "i = int n" using assms by (simp_all add: n_def nat_less_iff)
  have top: "n div 256 div 256 div 256 mod 256 = n div 256 div 256 div 256" using n(1) by (simp add: div_mult2_eq [symmetric] less_mult_imp_div_less)
  have step: "int (k div 256) * 256 + int (k mod 256) = int k" for k :: nat
    using div_mult_mod_eq [of "int k" 256] by (simp add: zdiv_int zmod_int)
  have ch: "(of_char (char_of k) :: int) = int (k mod 256)" for k :: nat
    by (simp only: of_nat_of_char [symmetric, where c = "char_of k"] of_char_of)
  have "foldl (\<lambda>v c. v * 256 + of_char c) 0 (network_long i) = int n"
    using step [of n] step [of "n div 256"] step [of "n div 256 div 256"] top by (simp add: network_long_def n_def [symmetric] Let_def ch)
  then show ?thesis using n by (simp add: signed_long_def)
qed

lemma conn_ref_spec: "conn_ops_spec conn_ref"
  unfolding conn_ops_spec_def
proof (intro conjI allI impI)
  show "octstr_spec (cn_octstr conn_ref)" by (simp add: conn_ref_def octstr_ref_spec)
next
  fix n :: int
  show "length (encode_network_long conn_ref n) = 4" by (simp add: conn_ref_def network_long_def Let_def)
next
  fix n :: int
  assume "0 \<le> n \<and> n < 2 ^ 31"
  then show "decode_network_long conn_ref (encode_network_long conn_ref n) = n" by (simp add: conn_ref_def signed_network_long)
qed (simp add: conn_ref_def)

lemma pipe_socket: "live_socket (pipe_sys (Suc n)) fst snd conn_ref"
proof
  show "conn_ops_spec conn_ref" by (rule conn_ref_spec)
qed (auto simp: pipe_sys_def Let_def min_def nat_add_distrib split: if_splits)

interpretation pipe: live_socket "pipe_sys (Suc n)" fst snd conn_ref for n
  by (rule pipe_socket)

section \<open>Messages between two connections\<close>

definition fresh_state :: "int \<Rightarrow> 'w \<Rightarrow> 'w conn_state" where
  "fresh_state fd w = \<lparr> cs_conn = conn_wrap_fd fd, cs_world = w, cs_actions = [], cs_destroyed = [] \<rparr>"

lemma fresh_state_simps [simp]:
  "bufs_ok (cs_conn (fresh_state fd w))" "unwritten (fresh_state fd w) = []" "unread (fresh_state fd w) = []" "cs_world (fresh_state fd w) = w"
  by (simp_all add: fresh_state_def bufs_ok_def conn_wrap_fd_def unwritten_def unread_def)

text \<open>All that was put on a connection with lengths in front, whatever the kernel took of it.\<close>

lemma withlen_sent:
  assumes "conn_socket S sent coming K" "bufs_ok (cs_conn a)" "unwritten a = []" "sent (cs_world a) = []"
  shows "sent (cs_world (fold (\<lambda>m st. snd (conn_write_withlen K S m st)) ms a)) @ unwritten (fold (\<lambda>m st. snd (conn_write_withlen K S m st)) ms a) =
    concat (map (\<lambda>m. encode_network_long K (int (length m)) @ m) ms)"
  using conn_socket.framed_puts [OF assms(1), of a ms] assms conn_socket.put_total_def [OF assms(1)] by simp

text \<open>
  C16: Messages of less than 2 GB written with their lengths on one connection, whose bytes another one reads: however the two kernels cut the stream, any number of attempts to
  read gets the first of the messages, unchanged and in their order, never panics, and what was not read yet is exactly the rest of them, wherever its bytes are now.
\<close>

theorem withlen_delivers:
  fixes ms :: "octstr list" and a :: "'v conn_state" and b :: "'w conn_state"
  assumes "conn_socket S sent coming K" "conn_socket S' sent' coming' K"
    and "bufs_ok (cs_conn a)" "unwritten a = []" "sent (cs_world a) = []" "a' = fold (\<lambda>m st. snd (conn_write_withlen K S m st)) ms a"
    and "bufs_ok (cs_conn b)" "unread b = []" "coming' (cs_world b) = sent (cs_world a')"
    and "\<forall>m \<in> set ms. int (length m) < 2 ^ 31"
  shows "\<exists>k b'. reads (conn_read_withlen K S') n b = Some (take k ms, b') \<and>
    unread b' @ coming' (cs_world b') @ unwritten a' = concat (map (\<lambda>m. encode_network_long K (int (length m)) @ m) (drop k ms))"
proof -
  note to_read = conn_socket.to_read_def [OF assms(2)]
  have "conn_socket.to_read coming' b @ unwritten a' = concat (map (\<lambda>m. encode_network_long K (int (length m)) @ m) ms)"
    using withlen_sent [OF assms(1,3,4,5), of ms] assms(6,8,9) by (simp add: to_read)
  from conn_socket.framed_reads [OF assms(2,7,10) this, of n] show ?thesis by (auto simp: to_read)
qed

theorem withlen_delivers_witness:
  "\<exists>k b'. reads (conn_read_withlen conn_ref (pipe_sys (Suc 3))) 5
       (fresh_state 6 ([], fst (cs_world (fold (\<lambda>m st. snd (conn_write_withlen conn_ref (pipe_sys (Suc 2)) m st)) [''ab'', ''cde''] (fresh_state 5 ([], [])))))) =
       Some (take k [''ab'', ''cde''], b') \<and>
    unread b' @ snd (cs_world b') @ unwritten (fold (\<lambda>m st. snd (conn_write_withlen conn_ref (pipe_sys (Suc 2)) m st)) [''ab'', ''cde''] (fresh_state 5 ([], []))) =
      concat (map (\<lambda>m. encode_network_long conn_ref (int (length m)) @ m) (drop k [''ab'', ''cde'']))"
  by (rule withlen_delivers [where a = "fresh_state 5 ([], [])", OF live_socket.axioms(1) [OF pipe_socket [of 2]] live_socket.axioms(1) [OF pipe_socket [of 3]]])
    simp_all

text \<open>
  When the kernel hands out what has come and all of the messages have been written, as many attempts as there are messages and bytes on the way get every
  message, and nothing is left.
\<close>

theorem withlen_arrives:
  fixes ms :: "octstr list" and a :: "'v conn_state" and b :: "'w conn_state"
  assumes "conn_socket S sent coming K" "live_socket S' sent' coming' K"
    and "bufs_ok (cs_conn a)" "unwritten a = []" "sent (cs_world a) = []"
    and "a' = fold (\<lambda>m st. snd (conn_write_withlen K S m st)) ms a" "unwritten a' = []"
    and "bufs_ok (cs_conn b)" "unread b = []" "coming' (cs_world b) = sent (cs_world a')"
    and "\<forall>m \<in> set ms. int (length m) < 2 ^ 31" "length ms + length (coming' (cs_world b)) \<le> n"
  shows "\<exists>b'. reads (conn_read_withlen K S') n b = Some (ms, b') \<and> unread b' = [] \<and> coming' (cs_world b') = []"
proof -
  note to_read = conn_socket.to_read_def [OF live_socket.axioms(1) [OF assms(2)]]
  have "conn_socket.to_read coming' b = concat (map (\<lambda>m. encode_network_long K (int (length m)) @ m) ms)"
    using withlen_sent [OF assms(1,3,4,5), of ms] assms(6,7,9,10) by (simp add: to_read)
  from live_socket.framed_reads_all [OF assms(2,8,11) this assms(12)] show ?thesis by (auto simp: to_read)
qed

theorem withlen_arrives_witness:
  "\<exists>b'. reads (conn_read_withlen conn_ref (pipe_sys (Suc 3))) 15
       (fresh_state 6 ([], fst (cs_world (fold (\<lambda>m st. snd (conn_write_withlen conn_ref (pipe_sys (Suc 9)) m st)) [''ab'', ''cde''] (fresh_state 5 ([], [])))))) =
       Some ([''ab'', ''cde''], b') \<and> unread b' = [] \<and> snd (cs_world b') = []"
proof -
  let ?a = "fold (\<lambda>m st. snd (conn_write_withlen conn_ref (pipe_sys (Suc 9)) m st)) [''ab'', ''cde''] (fresh_state 5 ([], []))"
  have w: "unwritten ?a = []" and n: "length (fst (cs_world ?a)) = 13" by code_simp+
  show ?thesis
    by (rule withlen_arrives [where a = "fresh_state 5 ([], [])", OF live_socket.axioms(1) [OF pipe_socket [of 9]] pipe_socket [of 3]]) (use w n in simp_all)
qed



text \<open>With as many rounds as there are bytes to write \<^verbatim>\<open>conn_flush\<close> has returned, and 0 means that the kernel has taken them all, in their order.\<close>

lemma conn_flush_returns:
  assumes "conn_socket S sent coming K"
    and takes: "\<And>buf fd p w. p < length buf \<Longrightarrow> fst (octstr_write_data S buf fd p w) \<noteq> 0"
    and polls: "\<And>fd w ev w'. gwthread_pollfd S fd POLLOUT w = (Poll_ready ev, w') \<Longrightarrow> ev \<noteq> 0 \<Longrightarrow> ev AND POLLNVAL = 0 \<Longrightarrow> ev AND (POLLOUT OR POLLERR OR POLLHUP) \<noteq> 0"
    and "bufs_ok (cs_conn st)" "length (unwritten st) < fuel"
  shows "\<exists>r st'. conn_flush fuel K S st = Some (r, st') \<and> (r = 0 \<longrightarrow> unwritten st' = [] \<and> sent (cs_world st') = sent (cs_world st) @ unwritten st)"
proof -
  obtain ret st1 where w: "unlocked_write K S st = (ret, st1)" by fastforce
  note b = conn_socket.unlocked_write_bufs(1,2) [OF assms(1,4) w]
  show ?thesis
  proof (cases "ret < 0")
    case True
    with w show ?thesis by (simp add: conn_flush_def)
  next
    case False
    have "length (unwritten st1) \<le> length (unwritten st)"
    proof (cases "ret = 0")
      case True
      from conn_socket.unlocked_write_world [OF assms(1) w] True obtain v where
        v: "octstr_write_data S (outbuf (cs_conn st)) (cn_fd (cs_conn st)) (outbufpos (cs_conn st)) (cs_world st) = (0, v)" by (auto split: if_splits)
      with takes [of "outbufpos (cs_conn st)" "outbuf (cs_conn st)" "cn_fd (cs_conn st)" "cs_world st"] have "unwritten st = []"
        by (cases "outbufpos (cs_conn st) < length (outbuf (cs_conn st))") (simp_all add: unwritten_def)
      moreover have "sent v = sent (cs_world st)" using socket.write_sent [OF conn_socket.axioms(1) [OF assms(1)] v] assms(4) by (simp add: bufs_ok_def)
      ultimately show ?thesis using b(2) conn_socket.unlocked_write_world [OF assms(1) w] v by auto
    next
      case nz: False
      then show ?thesis using conn_socket.unlocked_write_shorter [OF assms(1,4) w] False by simp
    qed
    then have "length (unwritten st1) < fuel" using assms(5) by simp
    then have "\<exists>r st'. flush_loop fuel K S st1 = Some (r, st') \<and> bufs_ok (cs_conn st') \<and>
        sent (cs_world st') @ unwritten st' = sent (cs_world st1) @ unwritten st1 \<and> (r = 0 \<longrightarrow> unwritten st' = [])"
      by (rule conn_socket.flush_loop_ok [OF assms(1) _ _ b(1), rotated 2]) (erule takes, rule polls)
    then obtain r st' where
      f: "flush_loop fuel K S st1 = Some (r, st')" "sent (cs_world st') @ unwritten st' = sent (cs_world st1) @ unwritten st1" "r = 0 \<longrightarrow> unwritten st' = []" by blast
    have "conn_flush fuel K S st = Some (r, st')" using w False f(1) by (simp add: conn_flush_def)
    moreover have "r = 0 \<longrightarrow> unwritten st' = [] \<and> sent (cs_world st') = sent (cs_world st) @ unwritten st" using f(2,3) b(2) by (intro impI) simp
    ultimately show ?thesis by blast
  qed
qed

section \<open>The events a connection is listened for\<close>

text \<open>The operations on a connection, in any order, with one set of descriptors; \<open>self\<close> is the connection, which the set gets as the data of its callback.\<close>

datatype conn_op =
    Op_write octstr
  | Op_write_withlen octstr
  | Op_buffering nat
  | Op_wait
  | Op_read_everything
  | Op_read_fixed int
  | Op_read_line
  | Op_read_withlen
  | Op_read_packet char char
  | Op_register "nat option" "nat option" bool
  | Op_unregister
  | Op_callback int events

fun conn_step :: "conn_ops \<Rightarrow> 'w sys \<Rightarrow> nat \<Rightarrow> nat \<Rightarrow> conn_op \<Rightarrow> 'w conn_state \<Rightarrow> 'w conn_state option" where
  "conn_step K S F self (Op_write d) st = Some (snd (conn_write K S d st))"
| "conn_step K S F self (Op_write_withlen d) st = Some (snd (conn_write_withlen K S d st))"
| "conn_step K S F self (Op_buffering n) st = Some (conn_set_output_buffering K S n st)"
| "conn_step K S F self Op_wait st = Some (snd (conn_wait K S st))"
| "conn_step K S F self Op_read_everything st = map_option snd (conn_read_everything K S st)"
| "conn_step K S F self (Op_read_fixed n) st = map_option snd (conn_read_fixed K S n st)"
| "conn_step K S F self Op_read_line st = map_option snd (conn_read_line K S st)"
| "conn_step K S F self Op_read_withlen st = map_option snd (conn_read_withlen K S st)"
| "conn_step K S F self (Op_read_packet a b) st = map_option snd (conn_read_packet K S a b st)"
| "conn_step K S F self (Op_register cb data destroyer) st = Some (snd (conn_register_real F cb data destroyer self st))"
| "conn_step K S F self Op_unregister st = Some (conn_unregister st)"
| "conn_step K S F self (Op_callback fd revents) st = Some (snd (poll_callback K S fd revents st))"

fun conn_run :: "conn_ops \<Rightarrow> 'w sys \<Rightarrow> nat \<Rightarrow> nat \<Rightarrow> conn_op list \<Rightarrow> 'w conn_state \<Rightarrow> 'w conn_state option" where
  "conn_run K S F self [] st = Some st"
| "conn_run K S F self (x # xs) st = do { st1 \<leftarrow> conn_step K S F self x st; conn_run K S F self xs st1 }"

text \<open>What the set has of the connection is what the connection believes; and without an error it is what the connection needs.\<close>

definition wanted :: "connection \<Rightarrow> events" where
  "wanted c = (if listening_pollin c then POLLIN else 0) OR (if listening_pollout c then POLLOUT else 0)"

definition table_ok :: "nat \<Rightarrow> nat \<Rightarrow> 'w conn_state \<Rightarrow> bool" where
  "table_ok F self st \<longleftrightarrow> 0 \<le> cn_fd (cs_conn st) \<and> connected (cs_conn st) \<and> in_set (cs_conn st) \<in> {None, Some F} \<and> calls_ok (cs_actions st) Map.empty \<and>
     fold spec_call (cs_actions st) Map.empty (cn_fd (cs_conn st)) =
       (if in_set (cs_conn st) = None then None else Some (wanted (cs_conn st), (), self))"

definition in_part :: "connection \<Rightarrow> bool" where
  "in_part c \<longleftrightarrow> (in_set c \<noteq> None \<and> \<not> io_error c \<and> \<not> read_eof c \<longrightarrow> listening_pollin c)"

definition out_idle :: "connection \<Rightarrow> bool" where
  "out_idle c \<longleftrightarrow> (in_set c \<noteq> None \<and> \<not> io_error c \<and> listening_pollout c \<longrightarrow> unlocked_outbuf_len c > 0)"

definition out_part :: "connection \<Rightarrow> bool" where
  "out_part c \<longleftrightarrow> (in_set c \<noteq> None \<and> \<not> io_error c \<and> output_buffering c = 0 \<and> unlocked_outbuf_len c > 0 \<longrightarrow> listening_pollout c)"

definition polls_ok :: "nat \<Rightarrow> nat \<Rightarrow> 'w conn_state \<Rightarrow> bool" where
  "polls_ok F self st \<longleftrightarrow> table_ok F self st \<and> in_part (cs_conn st) \<and> out_idle (cs_conn st) \<and> out_part (cs_conn st)"

lemmas poll_defs = table_ok_def in_part_def out_idle_def out_part_def wanted_def unlocked_outbuf_len_def

lemma calls_ok_append: "calls_ok (as @ bs) m \<longleftrightarrow> calls_ok as m \<and> calls_ok bs (fold spec_call as m)"
  by (induction as arbitrary: m) auto

lemma listened_events:
  "(POLLIN OR POLLOUT) AND NOT POLLIN = POLLOUT" "POLLOUT AND NOT POLLIN OR POLLIN = POLLIN OR POLLOUT"
  "(POLLIN OR POLLOUT) AND NOT POLLOUT = POLLIN" "POLLIN AND NOT POLLOUT OR POLLOUT = POLLIN OR POLLOUT"
  "POLLIN AND POLLOUT = 0" "POLLOUT AND POLLIN = 0" "POLLIN \<noteq> 0" "POLLOUT \<noteq> 0"
  by code_simp+

lemma register_pollin_ok:
  assumes "table_ok F self st"
  shows "table_ok F self (unlocked_register_pollin b st)"
    "cs_conn (unlocked_register_pollin b st) = (cs_conn st)\<lparr>listening_pollin := b\<rparr>"
proof -
  have "cs_conn st = (cs_conn st)\<lparr>listening_pollin := listening_pollin (cs_conn st)\<rparr>" by simp
  then show "cs_conn (unlocked_register_pollin b st) = (cs_conn st)\<lparr>listening_pollin := b\<rparr>"
    by (cases b; cases "listening_pollin (cs_conn st)") (simp_all add: unlocked_register_pollin_def)
  show "table_ok F self (unlocked_register_pollin b st)"
    using assms by (auto simp: unlocked_register_pollin_def table_ok_def calls_ok_append wanted_def listened_events)
qed

lemma register_pollout_ok:
  assumes "table_ok F self st"
  shows "table_ok F self (unlocked_register_pollout b st)"
    "cs_conn (unlocked_register_pollout b st) = (cs_conn st)\<lparr>listening_pollout := b\<rparr>"
proof -
  have "cs_conn st = (cs_conn st)\<lparr>listening_pollout := listening_pollout (cs_conn st)\<rparr>" by simp
  then show "cs_conn (unlocked_register_pollout b st) = (cs_conn st)\<lparr>listening_pollout := b\<rparr>"
    by (cases b; cases "listening_pollout (cs_conn st)") (simp_all add: unlocked_register_pollout_def)
  show "table_ok F self (unlocked_register_pollout b st)"
    using assms by (auto simp: unlocked_register_pollout_def table_ok_def calls_ok_append wanted_def listened_events)
qed

text \<open>Only the input buffer differs.\<close>

definition same_polls :: "'w conn_state \<Rightarrow> 'w conn_state \<Rightarrow> bool" where
  "same_polls st st' \<longleftrightarrow> (\<exists>b p. cs_conn st' = (cs_conn st)\<lparr>inbuf := b, inbufpos := p\<rparr>) \<and> cs_actions st' = cs_actions st"

lemma same_polls_ok: "same_polls st st' \<Longrightarrow> polls_ok F self st \<Longrightarrow> polls_ok F self st'"
  unfolding same_polls_def by (elim conjE exE) (simp add: polls_ok_def poll_defs)

lemma polls_world [simp]: "polls_ok F self (st\<lparr>cs_world := w\<rparr>) = polls_ok F self st" "table_ok F self (st\<lparr>cs_world := w\<rparr>) = table_ok F self st"
  by (simp_all add: polls_ok_def table_ok_def)

lemma with_error_polls: "table_ok F self st \<Longrightarrow> polls_ok F self (with_conn_of (\<lambda>c. c\<lparr>io_error := True\<rparr>) st)"
  by (simp add: polls_ok_def poll_defs)

lemma written_fields: "\<exists>b p. written K n c = c\<lparr>outbuf := b, outbufpos := p\<rparr>"
proof -
  have "c\<lparr>outbufpos := outbufpos c + n\<rparr> = c\<lparr>outbuf := outbuf c, outbufpos := outbufpos c + n\<rparr>" by simp
  then have "\<exists>b p. c\<lparr>outbufpos := outbufpos c + n\<rparr> = c\<lparr>outbuf := b, outbufpos := p\<rparr>" by blast
  then show ?thesis by (auto simp: written_def Let_def)
qed

lemma unlocked_write_polls:
  assumes "table_ok F self st" "in_part (cs_conn st)"
  shows "polls_ok F self (snd (unlocked_write K S st))"
proof -
  obtain ret w where w: "octstr_write_data S (outbuf (cs_conn st)) (cn_fd (cs_conn st)) (outbufpos (cs_conn st)) (cs_world st) = (ret, w)" by fastforce
  show ?thesis
  proof (cases "ret < 0")
    case True
    with w assms(1) show ?thesis by (simp add: unlocked_write_def with_error_polls)
  next
    case False
    define st2 where "st2 = with_conn_of (written K (nat ret)) (st\<lparr>cs_world := w\<rparr>)"
    obtain b p where c: "written K (nat ret) (cs_conn st) = (cs_conn st)\<lparr>outbuf := b, outbufpos := p\<rparr>" using written_fields by blast
    have 2: "table_ok F self st2" "in_part (cs_conn st2)" using assms c by (simp_all add: st2_def poll_defs)
    have r: "snd (unlocked_write K S st) = (if in_set (cs_conn st2) \<noteq> None then unlocked_register_pollout (unlocked_outbuf_len (cs_conn st2) > 0) st2 else st2)"
      using w False by (simp add: unlocked_write_def Let_def st2_def)
    show ?thesis
    proof (cases "in_set (cs_conn st2) = None")
      case True
      then show ?thesis using 2 r by (simp add: polls_ok_def out_idle_def out_part_def)
    next
      case False
      then show ?thesis using 2 r register_pollout_ok [OF 2(1)] by (simp add: polls_ok_def in_part_def out_idle_def out_part_def unlocked_outbuf_len_def)
    qed
  qed
qed

lemma unlocked_try_write_polls:
  assumes "table_ok F self st" "in_part (cs_conn st)" "out_idle (cs_conn st)"
  shows "polls_ok F self (snd (unlocked_try_write K S st))"
proof -
  note w = unlocked_write_polls [OF assms(1,2), of K S]
  have "polls_ok F self st" if "unlocked_outbuf_len (cs_conn st) = 0 \<or> unlocked_outbuf_len (cs_conn st) < int (output_buffering (cs_conn st))"
    using assms that by (auto simp: polls_ok_def out_part_def)
  with w show ?thesis by (auto simp: unlocked_try_write_def Let_def split: prod.splits)
qed

lemma unlocked_read_polls:
  assumes "polls_ok F self st"
  shows "polls_ok F self (unlocked_read K S st)"
proof -
  define st1 where "st1 = (if inbufpos (cs_conn st) > 0
    then with_conn_of (\<lambda>c. c\<lparr>inbuf := octstr_delete (cn_octstr K) (inbuf c) 0 (nat (inbufpos c)), inbufpos := 0\<rparr>) st else st)"
  have 1: "polls_ok F self st1" using assms by (auto simp: st1_def polls_ok_def poll_defs)
  obtain r w where r: "sys_read S (cn_fd (cs_conn st1)) (cs_world st1) = (r, w)" by fastforce
  let ?eof = "with_conn_of (\<lambda>c. c\<lparr>read_eof := True\<rparr>) (st1\<lparr>cs_world := w\<rparr>)" and ?err = "with_conn_of (\<lambda>c. c\<lparr>io_error := True\<rparr>) (st1\<lparr>cs_world := w\<rparr>)"
  have e: "polls_ok F self ?eof" "polls_ok F self ?err" using 1 by (simp_all add: polls_ok_def poll_defs)
  have t: "table_ok F self ?eof" "table_ok F self ?err" using e by (simp_all add: polls_ok_def)
  have off: "polls_ok F self (unlocked_register_pollin False ?eof)" "polls_ok F self (unlocked_register_pollin False ?err)"
    using 1 register_pollin_ok [OF t(1), of False] register_pollin_ok [OF t(2), of False]
    by (simp_all add: polls_ok_def in_part_def out_idle_def out_part_def unlocked_outbuf_len_def)
  have d: "polls_ok F self (with_conn_of (\<lambda>c. c\<lparr>inbuf := inbuf c @ d\<rparr>) (st1\<lparr>cs_world := w\<rparr>))" for d
    using 1 by (simp add: polls_ok_def poll_defs)
  show ?thesis unfolding unlocked_read_def st1_def [symmetric] Let_def r using 1 e off d by (cases r) simp_all
qed

lemma polls_inbuf: "cs_conn st' = (cs_conn st)\<lparr>inbufpos := p\<rparr> \<Longrightarrow> cs_actions st' = cs_actions st \<Longrightarrow> polls_ok F self st \<Longrightarrow> polls_ok F self st'"
  by (simp add: polls_ok_def poll_defs)

lemma get_bytes_polls: "get_bytes K n st = Some (x, st') \<Longrightarrow> polls_ok F self st \<Longrightarrow> polls_ok F self st'"
  by (rule polls_inbuf [where st = st and p = "inbufpos (cs_conn st) + n"]) (auto simp: get_bytes_def unlocked_get_def split: if_splits)

lemma withlen_try_polls:
  assumes "withlen_try K n st = Some (len, x, st')" "polls_ok F self st"
  shows "polls_ok F self st'"
proof -
  obtain pos len1 where h: "header_loop K (inbuf (cs_conn st)) (inbufpos (cs_conn st)) n = (pos, len1)" by fastforce
  have "\<exists>p. cs_conn st' = (cs_conn st)\<lparr>inbufpos := p\<rparr>" "cs_actions st' = cs_actions st"
    using assms(1) h by (auto simp: withlen_try_def Let_def unlocked_get_def split: if_splits)
  then show ?thesis using polls_inbuf [OF _ _ assms(2)] by blast
qed

lemma packet_try_polls:
  assumes "packet_try K a b st = Some (x, st')" "polls_ok F self st"
  shows "polls_ok F self st'"
proof -
  have p: "polls_ok F self (with_conn_of (\<lambda>c. c\<lparr>inbufpos := q\<rparr>) st)" for q by (rule polls_inbuf [OF _ _ assms(2), of _ q]) simp_all
  from assms(1) p get_bytes_polls [OF _ p] show ?thesis by (auto simp: packet_try_def Let_def split: if_splits)
qed

lemma read_line_polls:
  assumes "conn_read_line K S st = Some (x, st')" "polls_ok F self st"
  shows "polls_ok F self st'"
proof -
  define st1 where "st1 = (if octstr_search_char_from K (inbuf (cs_conn st)) (CHR 0x0A) (inbufpos (cs_conn st)) < 0 then unlocked_read K S st else st)"
  have 1: "polls_ok F self st1" using assms(2) unlocked_read_polls by (auto simp: st1_def)
  have "st' = st1 \<or> ((\<exists>p. cs_conn st' = (cs_conn st1)\<lparr>inbufpos := p\<rparr>) \<and> cs_actions st' = cs_actions st1)"
    using assms(1) unfolding conn_read_line_def st1_def [symmetric] Let_def
    by (auto simp: unlocked_get_def split: if_splits Option.bind_splits)
  then show ?thesis using 1 polls_inbuf by blast
qed

lemma register_polls:
  assumes "polls_ok F self st"
  shows "polls_ok F self (snd (conn_register_real F cb data destroyer self st))"
proof -
  let ?c = "cs_conn st"
  have fd: "0 \<le> cn_fd ?c" "connected ?c" "in_set ?c \<in> {None, Some F}" using assms by (simp_all add: polls_ok_def table_ok_def)
  show ?thesis
  proof (cases "in_set ?c = None")
    case True
    let ?e = "(if \<not> read_eof ?c \<and> \<not> io_error ?c then POLLIN else 0) OR (if unlocked_outbuf_len ?c > 0 then POLLOUT else 0)"
    have "snd (conn_register_real F cb data destroyer self st) = emit (REGISTER (cn_fd ?c) ?e () self) (st\<lparr>cs_conn := ?c\<lparr>in_set := Some F, callback := cb,
        callback_data := data, callback_data_destroyer := destroyer, listening_pollin := \<not> read_eof ?c \<and> \<not> io_error ?c,
        listening_pollout := unlocked_outbuf_len ?c > 0\<rparr>\<rparr>)"
      using fd True by (simp add: conn_register_real_def Let_def)
    then show ?thesis using assms True fd by (simp add: polls_ok_def poll_defs calls_ok_append)
  next
    case False
    then have "in_set ?c = Some F" using fd(3) by auto
    then have "cs_conn (snd (conn_register_real F cb data destroyer self st)) = ?c\<lparr>callback := cb, callback_data := data, callback_data_destroyer := destroyer\<rparr>"
      "cs_actions (snd (conn_register_real F cb data destroyer self st)) = cs_actions st"
      using fd(1) by (auto simp: conn_register_real_def Let_def split: option.splits)
    then show ?thesis using assms by (simp add: polls_ok_def poll_defs)
  qed
qed

lemma unregister_polls: "polls_ok F self st \<Longrightarrow> polls_ok F self (conn_unregister st)"
  by (simp add: conn_unregister_def Let_def polls_ok_def poll_defs calls_ok_append)

lemma callback_polls:
  assumes "polls_ok F self st"
  shows "polls_ok F self (snd (poll_callback K S fd revents st))"
proof -
  have ok: "table_ok F self st" "connected (cs_conn st)" using assms by (simp_all add: polls_ok_def table_ok_def)
  define a where "a = (if listening_pollin (cs_conn st) then unlocked_register_pollin False st else st)"
  define b where "b = (if listening_pollout (cs_conn a) then unlocked_register_pollout False a else a)"
  have "table_ok F self a" using register_pollin_ok(1) [OF ok(1)] ok(1) by (simp add: a_def)
  then have "table_ok F self b" by (simp add: b_def register_pollout_ok(1))
  then have e: "polls_ok F self (with_conn_of (\<lambda>c. c\<lparr>io_error := True\<rparr>) b)" by (rule with_error_polls)
  define st1 where "st1 = (if revents AND (POLLERR OR POLLHUP) \<noteq> 0 then with_conn_of (\<lambda>c. c\<lparr>io_error := True\<rparr>) b else st)"
  have 1: "polls_ok F self st1" using e assms by (simp add: st1_def)
  define st2 where "st2 = (if revents AND POLLOUT \<noteq> 0 then snd (unlocked_write K S st1) else st1)"
  have "table_ok F self st1" "in_part (cs_conn st1)" using 1 by (simp_all add: polls_ok_def)
  then have 2: "polls_ok F self st2" using 1 by (simp add: st2_def unlocked_write_polls)
  have "snd (poll_callback K S fd revents st) = (if cn_fd (cs_conn st) \<noteq> fd then st else if revents AND POLLIN \<noteq> 0 then unlocked_read K S st2 else st2)"
    using ok(2) by (simp add: poll_callback_def Let_def st2_def st1_def b_def a_def)
  then show ?thesis using 2 assms by (simp add: unlocked_read_polls)
qed

lemma wait_polls:
  assumes "polls_ok F self st"
  shows "polls_ok F self (snd (conn_wait K S st))"
proof -
  have w: "polls_ok F self (snd (unlocked_write K S s))" if "polls_ok F self s" for s :: "'a conn_state"
    by (rule unlocked_write_polls) (use that in \<open>simp_all add: polls_ok_def\<close>)
  obtain ret st1 where 1: "unlocked_write K S st = (ret, st1)" by fastforce
  have p: "polls_ok F self st1" using w [OF assms] 1 by simp
  let ?out = "if unlocked_outbuf_len (cs_conn st1) > 0 then POLLOUT else 0"
  obtain q v where 2: "gwthread_pollfd S (cn_fd (cs_conn st1))
      (if \<not> read_eof (cs_conn st1) \<and> \<not> io_error (cs_conn st1) \<or> ?out = 0 then ?out OR POLLIN else ?out) (cs_world st1) = (q, v)" by fastforce
  have v: "polls_ok F self (st1\<lparr>cs_world := v\<rparr>)" using p by simp
  show ?thesis unfolding conn_wait_def 1 Let_def prod.case 2 using p v w [OF v] by (cases q) (simp_all add: unlocked_read_polls)
qed

lemma step_polls:
  assumes "conn_ops_spec K" "polls_ok F self st" "conn_step K S F self x st = Some st'"
  shows "polls_ok F self st'"
proof -
  have X: "octstr_spec (cn_octstr K)" using assms(1) by (simp add: conn_ops_spec_def)
  have p: "table_ok F self st" "in_part (cs_conn st)" "out_idle (cs_conn st)" using assms(2) by (simp_all add: polls_ok_def)
  have more_out: "polls_ok F self (snd (unlocked_try_write K S (with_conn_of (\<lambda>c. c\<lparr>outbuf := outbuf c @ d\<rparr>) st)))" for d
    by (rule unlocked_try_write_polls) (use p in \<open>auto simp: table_ok_def in_part_def out_idle_def wanted_def unlocked_outbuf_len_def\<close>)
  have buffering: "polls_ok F self (snd (unlocked_try_write K S (with_conn_of (\<lambda>c. c\<lparr>output_buffering := n\<rparr>) st)))" for n
    by (rule unlocked_try_write_polls) (use p in \<open>auto simp: table_ok_def in_part_def out_idle_def wanted_def unlocked_outbuf_len_def\<close>)
  note rd = unlocked_read_polls [OF assms(2)]
  show ?thesis
  proof (cases x)
    case (Op_write d)
    then show ?thesis using assms(3) more_out [of d] by (auto simp: conn_write_def octstr_append_spec [OF X])
  next
    case (Op_write_withlen d)
    then show ?thesis
      using assms(3) more_out [of "encode_network_long K (int (length d)) @ d"] by (auto simp: conn_write_withlen_def octstr_append_spec [OF X])
  next
    case (Op_buffering n)
    then show ?thesis using assms(3) buffering [of n] by (auto simp: conn_set_output_buffering_def)
  next
    case Op_wait
    then show ?thesis using assms(3) wait_polls [OF assms(2)] by auto
  next
    case Op_read_everything
    then show ?thesis
      using assms(2,3) get_bytes_polls [OF _ assms(2)] get_bytes_polls [OF _ rd] rd by (auto simp: conn_read_everything_def Let_def split: if_splits)
  next
    case (Op_read_fixed n)
    then show ?thesis
      using assms(2,3) get_bytes_polls [OF _ assms(2)] get_bytes_polls [OF _ rd] rd by (auto simp: conn_read_fixed_def Let_def split: if_splits)
  next
    case Op_read_line
    then show ?thesis using assms(3) read_line_polls [OF _ assms(2)] by auto
  next
    case Op_read_withlen
    with assms(3) obtain y where r: "conn_read_withlen K S st = Some (y, st')" by auto
    then obtain len1 r1 st1 where 1: "withlen_try K 0 st = Some (len1, r1, st1)" by (auto simp: conn_read_withlen_def split: Option.bind_splits)
    note p1 = withlen_try_polls [OF 1 assms(2)]
    show ?thesis using r 1 p1 withlen_try_polls [OF _ unlocked_read_polls [OF p1]] by (auto simp: conn_read_withlen_def split: if_splits Option.bind_splits)
  next
    case (Op_read_packet a b)
    with assms(3) obtain y where r: "conn_read_packet K S a b st = Some (y, st')" by auto
    then obtain r1 st1 where 1: "packet_try K a b st = Some (r1, st1)" by (auto simp: conn_read_packet_def split: Option.bind_splits)
    note p1 = packet_try_polls [OF 1 assms(2)]
    show ?thesis using r 1 p1 packet_try_polls [OF _ unlocked_read_polls [OF p1]] by (auto simp: conn_read_packet_def split: if_splits)
  next
    case (Op_register cb data destroyer)
    then show ?thesis using assms(3) register_polls [OF assms(2)] by auto
  next
    case Op_unregister
    then show ?thesis using assms(3) unregister_polls [OF assms(2)] by auto
  next
    case (Op_callback fd revents)
    then show ?thesis using assms(3) callback_polls [OF assms(2)] by auto
  qed
qed

lemma run_polls: "conn_ops_spec K \<Longrightarrow> polls_ok F self st \<Longrightarrow> conn_run K S F self xs st = Some st' \<Longrightarrow> polls_ok F self st'"
  by (induction xs arbitrary: st) (auto split: Option.bind_splits dest: step_polls)

text \<open>
  C17: Whatever is done with a connection, the calls it makes are ones a set of descriptors takes, and the set they make has it exactly while it is registered, with itself as
  the callback's data.  While it is registered and there was no error, the set listens for input until its end, and, with no buffering, for output exactly
  when bytes wait to be written: nothing is left waiting and the poller never spins.
\<close>

theorem listens_for_what_waits:
  assumes "conn_ops_spec K" "0 \<le> fd" "conn_run K S F self xs (fresh_state fd w) = Some st"
  shows "\<exists>s. do_calls t (cs_actions st) (fdset_create_real tmo) = Some s \<and> fds_inv s \<and>
    (case registered s (cn_fd (cs_conn st)) of
       None \<Rightarrow> in_set (cs_conn st) = None
     | Some (ev, _, data) \<Rightarrow> in_set (cs_conn st) = Some F \<and> data = self \<and>
         (io_error (cs_conn st) \<or>
           (read_eof (cs_conn st) \<or> ev AND POLLIN \<noteq> 0) \<and>
           (output_buffering (cs_conn st) \<noteq> 0 \<or> (ev AND POLLOUT \<noteq> 0) = (unlocked_outbuf_len (cs_conn st) > 0))))"
proof -
  have "polls_ok F self (fresh_state fd w)" using assms(2) by (simp add: polls_ok_def poll_defs fresh_state_def conn_wrap_fd_def)
  note p = run_polls [OF assms(1) this assms(3)]
  have e: "registered (fdset_create_real tmo) = (Map.empty :: int \<rightharpoonup> events \<times> unit \<times> nat)" "fds_inv (fdset_create_real tmo :: (unit, nat) fdset)"
    by (simp_all add: registered_def live_def fds_inv_def fdset_create_real_def)
  have c: "calls_ok (cs_actions st) (registered (fdset_create_real tmo))" using p e(1) by (simp add: polls_ok_def table_ok_def)
  from do_calls_ok [OF e(2) c, of t] obtain s where
    s: "do_calls t (cs_actions st) (fdset_create_real tmo) = Some s" "fds_inv s" "registered s = fold spec_call (cs_actions st) Map.empty" unfolding e(1) by blast
  have r: "registered s (cn_fd (cs_conn st)) = (if in_set (cs_conn st) = None then None else Some (wanted (cs_conn st), (), self))"
    using p s(3) by (simp add: polls_ok_def table_ok_def)
  have w: "(wanted (cs_conn st) AND POLLIN \<noteq> 0) = listening_pollin (cs_conn st)" "(wanted (cs_conn st) AND POLLOUT \<noteq> 0) = listening_pollout (cs_conn st)"
    unfolding wanted_def by (cases "listening_pollin (cs_conn st)"; cases "listening_pollout (cs_conn st)"; simp add: listened_events bit.conj_disj_distrib2)+
  have "in_set (cs_conn st) \<in> {None, Some F}" using p by (simp add: polls_ok_def table_ok_def)
  with p show ?thesis
    by (intro exI [of _ s] conjI s(1,2)) (auto simp: r w polls_ok_def in_part_def out_idle_def out_part_def)
qed

theorem listens_for_what_waits_witness:
  "conn_run conn_ref (pipe_sys 2) 7 3 [Op_register (Some 1) None False, Op_write ''hello''] (fresh_state 5 ([], [])) \<noteq> None \<and>
   (\<exists>s. do_calls 0 [REGISTER 5 POLLIN () (3 :: nat), LISTEN 5 POLLOUT POLLOUT] (fdset_create_real 0) = Some s \<and>
     (\<exists>ev. registered s 5 = Some (ev, (), 3) \<and> ev AND POLLIN \<noteq> 0 \<and> ev AND POLLOUT \<noteq> 0))"
proof -
  let ?run = "conn_run conn_ref (pipe_sys 2) 7 3 [Op_register (Some 1) None False, Op_write ''hello''] (fresh_state 5 ([], []))"
  have r: "map_option (\<lambda>st. (cs_actions st, cn_fd (cs_conn st), in_set (cs_conn st), io_error (cs_conn st), read_eof (cs_conn st), output_buffering (cs_conn st),
      unlocked_outbuf_len (cs_conn st))) ?run = Some ([REGISTER 5 POLLIN () 3, LISTEN 5 POLLOUT POLLOUT], 5, Some 7, False, False, 0, 3)"
    by code_simp
  then obtain st where st: "?run = Some st" by auto
  from listens_for_what_waits [OF conn_ref_spec _ st, of 0 0] r show ?thesis unfolding st
    by (auto simp del: do_calls.simps split: option.splits prod.splits)
qed

end
