(* ===== verification/Spec2Isabelle.thy ===== *)
theory Spec2Isabelle
  imports Counter Dict Prioqueue Cfg Accounts Date Routing Registry Submit Deliver Server Session Control Charset Smscconn Router Smppio Window Dbbox Conffile Conn
begin

text \<open>
  An SMPP gateway on top of the Kannel library.  Three processes work together: \<^verbatim>\<open>smpp-esme\<close> serves the clients
  (ESMEs), \<^verbatim>\<open>smpp-smsc\<close> talks to the operators' SMSCs, and \<^verbatim>\<open>smpp-dbbox\<close> writes the database; \<^verbatim>\<open>gwlib\<close> is the
  library they share.  A client connects to \<^verbatim>\<open>smpp-esme\<close>, binds, and submits messages; an accepted message goes to the SMSC
  process, a record of every message and a report on every rejected one goes to the database process, and
  delivery receipts come back and are queued for a session of the client's account.

  \<^bold>\<open>What models what.\<close>

  \<^item> \<open>Prelude\<close>: the types of the C code (\<^verbatim>\<open>unsigned long\<close> as 64-bit words, octet strings as lists of characters), the lists and octet
    strings of \<^verbatim>\<open>gwlib\<close>, whose sources are not in the repository, as records of functions (\<open>gwlist_ops\<close>, \<open>octstr_ops\<close>) with
    the behaviour their documentation promises as the named hypotheses \<open>gwlist_spec\<close> and \<open>octstr_spec\<close>, shown to be satisfiable by
    \<open>gwlist_ref\<close> and \<open>octstr_ref\<close>, and the lemmas that all theories share.
  \<^item> \<open>Counter\<close>, \<open>Dict\<close>, \<open>Prioqueue\<close>: \<^verbatim>\<open>gwlib/counter.c\<close>, \<^verbatim>\<open>dict.c\<close> and \<^verbatim>\<open>gw-prioqueue.c\<close>.  The numbers of a counter are
    unique, a dictionary refines a finite map (locale \<open>dictionary\<close>) and hands every value to its destructor once at most, and the array
    heap is a queue that returns a largest item (locale \<open>max_queue\<close>).
  \<^item> \<open>Cfg\<close>: \<^verbatim>\<open>gwlib/cfg.c\<close> with the table \<^verbatim>\<open>cfg.def\<close>: groups, variables, quoting, includes.  A group that is written line by line
    is read back; a directory that includes itself is read forever.
  \<^item> \<open>Accounts\<close>: \<^verbatim>\<open>smpp-esme/config.c\<close>, the accounts of the clients.  Every group that loads and verifies is found by the
    login lookup with its password and mode.
  \<^item> \<open>Date\<close>: \<^verbatim>\<open>date_convert_universal\<close>, \<^verbatim>\<open>to_seconds\<close> and \<^verbatim>\<open>compare_date\<close> of \<^verbatim>\<open>gwlib/date.c\<close>, against the days of the calendar.
  \<^item> \<open>Routing\<close>: the list of SMSCs and \<^verbatim>\<open>rout_pdu\<close> of \<^verbatim>\<open>smpp-esme/esme.c\<close>, refined to the list of eligible SMSCs.
  \<^item> \<open>Registry\<close>: the list of bound accounts of \<^verbatim>\<open>esme.c\<close> with their sessions.  A pointer to an account is a reference number that is
    looked up in the list, so that a use after the release of the structure is visible.  Binds, releases and
    reports on the SMSCs are the steps of \<open>reg_step\<close>; the invariant holds in every reachable state.
  \<^item> \<open>Submit\<close>: the checks on a \<^verbatim>\<open>submit_sm\<close> and the whole of \<^verbatim>\<open>handle_submit_sm\<close>: counters, messages to the other processes, and
    the condition for acceptance.
  \<^item> \<open>Deliver\<close>: \<^verbatim>\<open>update_info\<close>, with \<^verbatim>\<open>sscanf\<close> and the sizes of the arrays it writes to, and \<^verbatim>\<open>write_esme_conn\<close>.
  \<^item> \<open>Server\<close>: the bind handlers, the other handlers, their tables, and \<^verbatim>\<open>read_pdu\<close>, whose result does not depend on
    how the bytes of the connection are cut into pieces.
  \<^item> \<open>Session\<close>: \<^verbatim>\<open>receive_smpp_thread\<close>, the life of one connection from its bind to the release of its session.
  \<^item> \<open>Control\<close>: \<^verbatim>\<open>handle_request\<close>, what the other processes tell the server, and \<^verbatim>\<open>save_dbbox_q_msgs\<close>, what happens to
    the queues at a shutdown.
  \<^item> \<open>Charset\<close>: \<^verbatim>\<open>gwlib/charset.c\<close>, the conversions between Latin 1 and the GSM alphabet: round trip, form of the result, truncation.
  \<^item> \<open>Smscconn\<close>: \<^verbatim>\<open>smpp-smsc/smscconn.c\<close> and \<^verbatim>\<open>msg.c\<close>: the messages of the SMSC process, its connections, and its messages to the other
    processes.
  \<^item> \<open>Router\<close>: \<^verbatim>\<open>smpp-smsc/smsc.c\<close> and \<^verbatim>\<open>handle_request\<close> of \<^verbatim>\<open>smpp_smsc.c\<close>.  \<^verbatim>\<open>smsc2_rout\<close> refines the choice of a connection
    (\<open>route_decision\<close>); the messages in flight and the reports to the database are multisets (\<open>in_flight\<close>, \<open>reported\<close>), in
    which the router neither loses nor duplicates a message.
  \<^item> \<open>Smppio\<close> and \<open>Window\<close>: \<^verbatim>\<open>smpp-smsc/smsc_smpp.c\<close>, the thread of a connection to a message centre.  \<open>Smppio\<close> has the code, \<open>Window\<close> the
    window of submitted messages as an invariant of the steps of the thread (\<open>io_step\<close>), and where the messages go when a response
    comes, the connection is lost, or the process is shut down.
  \<^item> \<open>Numerals\<close>: the numbers of the C library as texts, \<^verbatim>\<open>strtoll\<close>, \<^verbatim>\<open>atoi\<close> and \<^verbatim>\<open>%d\<close>, which are inverse to each other within 64 bits.
  \<^item> \<open>Dbpool\<close>: \<^verbatim>\<open>gwlib/dbpool.c\<close> and \<^verbatim>\<open>dbpool_mysql.c\<close>, the pool of database connections that threads share.  Its size is the
    number of connections in it and in use, in every state that the steps of any number of threads reach (\<open>pool_step\<close>); when a connection is returned, and what an outage
    of the database does to the pool.
  \<^item> \<open>Dlr\<close>: \<^verbatim>\<open>smpp-dbbox/dlr.c\<close> and \<^verbatim>\<open>dlr_mysql.c\<close>, the storage of messages and receipts: the names of tables and columns, the text of
    every statement, and its execution.  The values of a statement are read back by a scanner of SQL literals (\<open>literals\<close>).  What a client of the storage relies on is the locale
    \<open>receipt_store\<close>; the locale \<open>mysql_storage\<close> has what a MySQL server promises for the statements, and implies the former for the code; it is
    interpreted on a server that keeps its rows in memory.
  \<^item> \<open>Dbbox\<close>: \<^verbatim>\<open>handle_request\<close> of \<^verbatim>\<open>smpp-dbbox/smpp_dbbox.c\<close> and \<^verbatim>\<open>msg_process\<close> of \<^verbatim>\<open>dlr_mysql.c\<close>: every message is recorded once, every query
    answered once, a receipt reaches the ESME server with the account it belongs to, and a message that waited for the do-not-disturb check is either forwarded or answered.
  \<^item> \<open>Conffile\<close>: \<^verbatim>\<open>esme_file_update\<close>, which writes the configuration file of \<^verbatim>\<open>smpp-esme\<close> from the tables; \<^verbatim>\<open>cfg_read\<close> of \<open>Cfg\<close> reads every account back.
  \<^item> \<open>Fdset\<close>: \<^verbatim>\<open>gwlib/fdset.c\<close>, the sets of file descriptors: the table of a set, the requests of other threads, and the rounds of the polling thread, whose
    callbacks change the table while it is scanned.  The table refines a map from descriptors (locale \<open>descriptor_table\<close>); a scan ends and makes the calls that are due; one
    that an earlier callback has taken out is still called.
  \<^item> \<open>Conn\<close>: \<^verbatim>\<open>gwlib/conn.c\<close> without SSL, the buffered connections.  The kernel is the locale \<open>socket\<close>; over it a connection is a stream that messages are
    put on and taken from (locales \<open>output_stream\<close>, \<open>input_stream\<close>, \<open>live_input_stream\<close>), whatever pieces the kernel cuts the bytes into, and the set of descriptors listens for what the
    connection waits for.
  \<^item> This theory: the property that spans the components, from the configuration file to a bound client.

  \<^bold>\<open>Conventions.\<close>  A function of the program is a function on explicit states with the name it has in the source.  Where the
  code would read a null or dangling pointer, memory that it has not initialised, or beyond an array, or would
  panic, the result is \<open>None\<close>; error codes are values.  The lock around an operation makes it one step; where the
  code gives up a lock between a check and the change that depends on it, the two parts are definitions of their own
  (\<open>authorise_check\<close>, \<open>authorise_commit\<close>).  Clocks, random numbers, bytes that arrive and the output of shell commands are arguments.
  Records such as \<open>submit_env\<close> and \<open>pdu_ops\<close> hold the functions the sources only call, with what the proofs need of them in a
  predicate of its own (\<open>submit_spec\<close>, \<open>pdu_ops_spec\<close>); each is shown to be satisfiable by the instance a witness uses.

  \<^bold>\<open>Bounds.\<close>  \<open>read_loop\<close> takes a bound on its rounds; \<open>read_all\<close> gives it two more than the bytes that have arrived, and every PDU takes
  at least one byte off the connection but for one whose length was read before, so the bound is never reached
  (\<open>read_all_terminates\<close>).  The reader of configuration files takes a bound on the files it opens; without enough the
  result is \<open>None\<close>, which is what the endless include produces for every bound.  The sessions loop over the rounds they are given, and every
  property of theirs is about all lists of rounds.

  A thread that takes a connection from a pool may find every connection broken: \<open>dbpool_conn_consume\<close> takes a bound on its rounds, and one more than
  the connections in the pool is enough (\<open>consume_returns\<close>, \<open>pool_outage\<close>); waiting on an empty pool and the panic on one of size zero are results
  of their own.  The file of \<open>Conffile\<close> is read with three more than its lines.

  The scan of a set of descriptors runs over a table that its callbacks make longer: there is a bound from which on the result is the same (\<open>scan_terminates\<close>).  \<open>conn_flush\<close> takes
  a bound on its rounds; one more than the bytes to write is enough when a socket that is ready takes something (\<open>conn_flush_returns\<close>).

  The steps of a connection thread are those before its 64-bit sequence numbers wrap around (\<open>budget\<close>).

  \<^bold>\<open>Not modelled.\<close>  In \<^verbatim>\<open>smpp-smsc\<close> the reading of its settings, its start, its status pages and its administration
  by HTTP; in \<^verbatim>\<open>smpp-dbbox\<close> the start and the shutdown of the process, the rotation of its logs, its status page, \<^verbatim>\<open>thrput_get\<close>, which prints the throughput, and the programs
  that create the tables; the rest of \<^verbatim>\<open>gwlib\<close> (the opening of
  sockets, SSL, the wrapper of \<^verbatim>\<open>select\<close>, threads and locks, which wrap those of the system, the character conversions of \<^verbatim>\<open>libxml\<close> and \<^verbatim>\<open>iconv\<close>,
  the back ends of other databases, access logs, memory checking); in \<^verbatim>\<open>smpp-esme\<close> the status pages, the rotation of logs, the administration by HTTP, \<^verbatim>\<open>esme_shutdown\<close>, which joins threads, and the start of the process;
  \<^verbatim>\<open>DNDChecker\<close>, a program in another language.
\<close>

section \<open>From the configuration file to a bound client\<close>

text \<open>
  C10: a client with a \<^verbatim>\<open>tx\<close> group in the configuration file can log in: once the file is loaded and verified, a \<^verbatim>\<open>bind_transmitter\<close> with the
  name and the password of the group, on the transmitter port of a running server whose partner processes are connected, inside the
  period of the account and below its limit of sessions, is answered with success, and the list of sessions gains exactly
  one transmitter session of that name on that connection.
\<close>

theorem configured_client_binds:
  assumes load: "smpp_client_add_cfg E (reg_octstr (se_reg W)) G smpp_client_create grps = Some (0, accs)"
    and verify: "verify_config_para (reg_octstr (se_reg W)) G' accs = 0" and G: "gwlist_spec G" "gwlist_spec G'"
    and grp: "grp \<in> set grps" "map_of (grp_vars grp) ''mode'' = Some ''tx''"
    and pdu: "bind_system_id b = map_of (grp_vars grp) ''account-name''" "bind_password b = map_of (grp_vars grp) ''password''"
    and W: "reg_spec (se_reg W)" "submit_spec (se_submit W)"
    and S: "sv_translations S = accs" "program_status S = PROGRAM_RUNNING" "check_server_connections S \<noteq> -1"
    and tc: "tc_listen_port tc = trans_port S" "bind_successful tc = 0"
    and g: "reg_inv g" "limits_ok (reg_octstr (se_reg W)) accs g"
    and t: "\<forall>t. smpp_client_find_username (reg_octstr (se_reg W)) accs (the (bind_system_id b)) = Some t \<longrightarrow>
      to_seconds (se_dates W) (validfrom t) \<le> now (se_dates W) \<and> now (se_dates W) \<le> to_seconds (se_dates W) (validto t) \<and>
      int (length (open_sessions 1 (the (bind_system_id b)) g)) \<noteq> max_tx_sessions t"
  shows "\<exists>resp ptr tc' g' i. handle_pdu_bind W S tc (Bind_transmitter b) g = Some ([(tc_conn tc, resp)], ptr, tc', g') \<and>
    bind_status resp = Some 0 \<and> bindings g' = insert (the (bind_system_id b), False, i, tc_conn tc) (bindings g)"
proof -
  have X: "octstr_spec (reg_octstr (se_reg W))" using W(1) by (simp add: reg_spec_def)
  obtain t where f: "smpp_client_find_username (reg_octstr (se_reg W)) accs (the (bind_system_id b)) = Some t"
    and a: "bind_system_id b = Some (account_name t)" "bind_password b = Some (password t)" "allowed_mode t \<in> {1, 4}"
    using configured_account_result [OF X G load verify grp(1)] grp(2) pdu by auto
  have "bind_allowed (se_dates W) t (bind_password b) 1 (open_sessions 1 (account_name t) g)"
    using a f t by (auto simp: bind_allowed_def mode_allowed_def session_limit_def)
  with authorise_user_result [OF W(1) g _ a(1), of 1 "se_dates W" "se_self W" "sv_smscs S" tc] f a(1)
  obtain g' tc1 r where au: "authorise_user (se_reg W) (se_dates W) (se_self W) (Some accs) (sv_smscs S) (Some b) 1 (Some tc) g =
      Some (0, g', tc1, r)" by fastforce
  have m: "(1 :: int) \<in> {1, 2, 3}" by simp
  obtain tc2 where tc2: "tc1 = Some tc2" using authorise_user_tempconn [OF au m] by auto
  then obtain tc' where ba: "bind_authorise W S 1 tc b g = Some (0, r, tc', g')"
    using au S(1) by (auto simp: bind_authorise_def Let_def)
  have lim: "limits_ok (reg_octstr (se_reg W)) (sv_translations S) g" using g(2) S(1) by simp
  note bb = bind_authorise_bound [OF W(1) g(1) lim m a(1) ba] and br = bind_result [OF W(2,1) g(1) lim m a(1) ba]
  have "init_log_file (ops (se_submit W)) (bind_system_id b) (sv_translations S) (tc_mode tc) \<noteq> None"
    using a(1) by (simp add: init_log_file_def split: option.split)
  then have h: "handle_pdu_bind W S tc (Bind_transmitter b) g = Some ([(tc_conn tc, Bind_transmitter_resp (make_bind_resp W b
      (transmitter_status (se_submit W) 0 (r \<noteq> None))))], r, tc', g')"
    using ba S tc by (simp add: handle_pdu_bind_def handle_bind_transmitter_def Let_def)
  have "tc_session_id (the tc1) = tc_session_id tc' \<and> bindings g' = insert (account_name t, False, tc_session_id (the tc1), tc_conn tc) (bindings g)"
    using authorise_user_result [OF W(1) g _ a(1), of 1 "se_dates W" "se_self W" "sv_smscs S" tc] au ba tc2 S(1)
    by (auto simp: bind_authorise_def Let_def)
  with h bb br a(1) show ?thesis by (auto simp: make_bind_resp_def)
qed

definition loaded_accounts :: accounts where
  "loaded_accounts = [sample_account\<lparr>dedicated_smsc := None, preferred_smsc := None, preferred_smsc_tmp := None\<rparr>]"

theorem configured_client_binds_witness:
  "\<exists>resp ptr tc' g' i. handle_pdu_bind sample_server_env (sample_server\<lparr>sv_translations := loaded_accounts\<rparr>) sample_tempconn
     (Bind_transmitter sample_bind) esme_init = Some ([(4, resp)], ptr, tc', g') \<and> bind_status resp = Some 0 \<and>
     bindings g' = {(''acme'', False, i, 4)}"
proof -
  let ?S = "sample_server\<lparr>sv_translations := loaded_accounts\<rparr>"
  have X: "reg_octstr (se_reg sample_server_env) = octstr_ref" by (simp add: sample_server_env_def reg_ref_def)
  have W: "reg_spec (se_reg sample_server_env)" "submit_spec (se_submit sample_server_env)" by (simp_all add: sample_server_env_def)
  have load: "smpp_client_add_cfg Accounts.sample_env (reg_octstr (se_reg sample_server_env)) gwlist_ref smpp_client_create [sample_group] =
      Some (0, loaded_accounts)" using sample_loads by (simp add: X loaded_accounts_def)
  have ver: "verify_config_para (reg_octstr (se_reg sample_server_env)) gwlist_ref loaded_accounts = 0"
    using sample_verifies by (simp add: X loaded_accounts_def)
  have p: "map_of (grp_vars sample_group) ''mode'' = Some ''tx''" "bind_system_id sample_bind = map_of (grp_vars sample_group) ''account-name''"
    "bind_password sample_bind = map_of (grp_vars sample_group) ''password''" by code_simp+
  have S: "sv_translations ?S = loaded_accounts" "program_status ?S = PROGRAM_RUNNING" "check_server_connections ?S \<noteq> -1"
    "tc_listen_port sample_tempconn = trans_port ?S" "tc_conn sample_tempconn = 4" "bind_successful sample_tempconn = 0"
    by (simp_all add: sample_server_def sample_tempconn_def tempconn_create_def check_server_connections_def)
  have d: "to_seconds (se_dates sample_server_env) (validfrom t) \<le> now (se_dates sample_server_env) \<and>
      now (se_dates sample_server_env) \<le> to_seconds (se_dates sample_server_env) (validto t) \<and>
      int (length (open_sessions 1 (the (bind_system_id sample_bind)) esme_init)) \<noteq> max_tx_sessions t"
    if "smpp_client_find_username (reg_octstr (se_reg sample_server_env)) loaded_accounts (the (bind_system_id sample_bind)) = Some t" for t
  proof -
    have "t = sample_account\<lparr>dedicated_smsc := None, preferred_smsc := None, preferred_smsc_tmp := None\<rparr>"
      using that by (auto simp: X loaded_accounts_def smpp_client_find_username_def split: if_splits)
    with sample_bind_allowed show ?thesis
      by (simp add: bind_allowed_def session_limit_def sample_server_env_def sample_bind_def)
  qed
  have n: "bind_system_id sample_bind = Some ''acme''" "bindings esme_init = {}"
    by (simp_all add: sample_bind_def bindings_def esme_init_def)
  show ?thesis
    using configured_client_binds [OF load ver gwlist_ref_spec gwlist_ref_spec _ p W S(1-4,6) esme_init_inv] d n S(5) by simp
qed

end
